(* ===== verification/Prelude.thy ===== *)
theory Prelude
  imports Main "HOL-Library.Word" "HOL-Library.Monad_Syntax"
begin

text \<open>
  Shared vocabulary of the development: the widths of the C types, the option monad that
  stands for C expressions whose evaluation may be undefined, checked list accesses, and the
  lemmas on them that every component uses.

  Conventions.
  \<^item> \<open>None\<close> is a C evaluation with no defined result: an access outside an array or a block, a
    word of the wrong kind, a signed overflow, or a loop that never ends. A failure the program
    handles itself (an error code, \<open>exit\<close>, \<open>abort\<close>, a raised OCaml exception) is a value of a
    datatype of its own and never \<open>None\<close>.
  \<^item> \<open>uintnat\<close>, \<open>unsigned long\<close>, \<open>size_t\<close> and pointers are \<open>u64\<close>; \<open>intnat\<close> is the same word
    read with \<open>sint\<close>; \<open>opcode_t\<close> and \<open>int\<close> are \<open>u32\<close> or \<open>int\<close> with the range written out.
\<close>

unbundle bit_operations_syntax

type_synonym u8 = "8 word"
type_synonym u32 = "32 word"
type_synonym u64 = "64 word"

named_theorems c_simps \<open>unfolding of the checked memory accesses\<close>

subsection \<open>Checked accesses\<close>

definition nth_opt :: "'a list \<Rightarrow> nat \<Rightarrow> 'a option" where
  "nth_opt xs i = (if i < length xs then Some (xs ! i) else None)"

definition upd_opt :: "'a list \<Rightarrow> nat \<Rightarrow> 'a \<Rightarrow> 'a list option" where
  "upd_opt xs i v = (if i < length xs then Some (xs[i := v]) else None)"

definition int_nth :: "'a list \<Rightarrow> int \<Rightarrow> 'a option" where
  "int_nth xs i = (if 0 \<le> i then nth_opt xs (nat i) else None)"

definition int_upd :: "'a list \<Rightarrow> int \<Rightarrow> 'a \<Rightarrow> 'a list option" where
  "int_upd xs i v = (if 0 \<le> i then upd_opt xs (nat i) v else None)"

definition take_opt :: "nat \<Rightarrow> 'a list \<Rightarrow> 'a list option" where
  "take_opt n xs = (if n \<le> length xs then Some (take n xs) else None)"

definition drop_opt :: "nat \<Rightarrow> 'a list \<Rightarrow> 'a list option" where
  "drop_opt n xs = (if n \<le> length xs then Some (drop n xs) else None)"

definition guard :: "bool \<Rightarrow> unit option" where
  "guard b = (if b then Some () else None)"

lemma nth_opt_Some_iff [simp]: "nth_opt xs i = Some v \<longleftrightarrow> i < length xs \<and> xs ! i = v"
  by (auto simp: nth_opt_def)

lemma nth_opt_Cons_0 [simp]: "nth_opt (x # xs) 0 = Some x"
  by (simp add: nth_opt_def)

lemma nth_opt_Cons_Suc [simp]: "nth_opt (x # xs) (Suc n) = nth_opt xs n"
  by (simp add: nth_opt_def)

lemma nth_opt_Cons_numeral [simp]:
  "nth_opt (x # xs) (numeral k) = nth_opt xs (pred_numeral k)"
  by (simp add: nth_opt_def numeral_eq_Suc)

lemma nth_opt_Cons_1 [simp]: "nth_opt (x # xs) 1 = nth_opt xs 0"
  by (simp add: nth_opt_def)

lemma nth_opt_Nil [simp]: "nth_opt [] i = None"
  by (simp add: nth_opt_def)

lemma nth_opt_append [simp]: "nth_opt (xs @ ys) (length xs + i) = nth_opt ys i"
  by (simp add: nth_opt_def)

lemma nth_opt_snoc [simp]: "nth_opt (xs @ [x]) (length xs) = Some x"
  by (simp add: nth_opt_def)

lemma nth_opt_append1: "i < length xs \<Longrightarrow> nth_opt (xs @ ys) i = Some (xs ! i)"
  by (simp add: nth_opt_def nth_append)

lemma upd_opt_Some_iff [simp]: "upd_opt xs i v = Some ys \<longleftrightarrow> i < length xs \<and> ys = xs[i := v]"
  by (auto simp: upd_opt_def)

lemma int_nth_Some_iff [simp]:
  "int_nth xs i = Some v \<longleftrightarrow> 0 \<le> i \<and> nat i < length xs \<and> xs ! nat i = v"
  by (auto simp: int_nth_def)

lemma int_upd_Some_iff [simp]:
  "int_upd xs i v = Some ys \<longleftrightarrow> 0 \<le> i \<and> nat i < length xs \<and> ys = xs[nat i := v]"
  by (auto simp: int_upd_def)

lemma take_opt_Some_iff [simp]: "take_opt n xs = Some ys \<longleftrightarrow> n \<le> length xs \<and> ys = take n xs"
  by (auto simp: take_opt_def)

lemma drop_opt_Some_iff [simp]: "drop_opt n xs = Some ys \<longleftrightarrow> n \<le> length xs \<and> ys = drop n xs"
  by (auto simp: drop_opt_def)

lemma guard_Some_iff [simp]: "guard b = Some u \<longleftrightarrow> b"
  by (simp add: guard_def)

lemma guard_True [simp]: "guard True = Some ()"
  by (simp add: guard_def)

lemma guard_False [simp]: "guard False = None"
  by (simp add: guard_def)

lemma take_opt_append [simp]: "n = length xs \<Longrightarrow> take_opt n (xs @ ys) = Some xs"
  by (simp add: take_opt_def)

lemma drop_opt_append [simp]: "n = length xs \<Longrightarrow> drop_opt n (xs @ ys) = Some ys"
  by (simp add: drop_opt_def)

lemma drop_opt_0 [simp]: "drop_opt 0 xs = Some xs"
  by (simp add: drop_opt_def)

lemma bind_Some_iff:
  "Option.bind m f = Some y \<longleftrightarrow> (\<exists>x. m = Some x \<and> f x = Some y)"
  by (cases m) auto

lemmas [c_simps] = bind_Some_iff Let_def

subsection \<open>Words\<close>

lemma unat_minus_one_word: "(x :: 'a::len word) \<noteq> 0 \<Longrightarrow> unat (x - 1) = unat x - 1"
  by (simp add: unat_minus_one)

lemma unat_plus_one_less:
  assumes "unat (x :: 'a::len word) < unat (y :: 'a word)"
  shows "unat (x + 1) = unat x + 1"
proof -
  have "unat y < 2 ^ LENGTH('a)" by (rule unsigned_less)
  with assms have "Suc (unat x) < 2 ^ LENGTH('a)" by linarith
  then show ?thesis by (simp add: unat_word_ariths)
qed

lemma unat_of_nat_small: "n < 2 ^ 64 \<Longrightarrow> unat (of_nat n :: u64) = n"
  by (simp only: unat_of_nat) simp

lemma unat_drop_bit_div: "unat (drop_bit n (x :: 'a::len word)) = unat x div 2 ^ n"
proof -
  have "take_bit LENGTH('a) (unat x) = unat x" by (rule take_bit_nat_eq_self) (rule unsigned_less)
  then show ?thesis by (simp only: unsigned_drop_bit_eq) (simp only: drop_bit_eq_div)
qed

lemma unat_take_bit_mod: "unat (take_bit n (x :: 'a::len word)) = unat x mod 2 ^ n"
  by (simp only: unsigned_take_bit_eq) (simp only: take_bit_eq_mod)

end
