(* ===== verification/Values.thy ===== *)
theory Values
  imports Prelude "HOL-Library.Signed_Division"
begin

text \<open>
  OCaml values and the heap, from \<open>ocaml/runtime/caml/mlvalues.h\<close> on a 64-bit little-endian
  target. A C \<open>value\<close> is one machine word; the model keeps what the word is:
  \<^item> \<open>Word w\<close>: a word that is no pointer (a tagged integer, an infix header, a closure info word,
    the bits of a float, eight bytes of a string);
  \<^item> \<open>Ptr b i\<close>: the address of field \<open>i\<close> of heap block \<open>b\<close> (\<open>Ptr b 0\<close> is the block's value,
    \<open>Ptr b i\<close> with \<open>0 < i\<close> an infix pointer into a closure block);
  \<^item> \<open>Atom t\<close>: the static zero-sized block of tag \<open>t\<close>; \<open>Code c\<close>: a code pointer; \<open>Stk k\<close>: a
    fiber stack wrapped by \<open>Val_ptr\<close>.

  The collector moves blocks but never changes this picture, so block identifiers stand for the
  current addresses and a collection is no step of the model.
\<close>

section \<open>Words\<close>

definition Val_long :: "u64 \<Rightarrow> u64" where
  "Val_long x = push_bit 1 x + 1"

definition Long_val :: "u64 \<Rightarrow> u64" where
  "Long_val x = signed_drop_bit 1 x"

definition Int_val :: "u64 \<Rightarrow> u32" where
  "Int_val x = ucast (Long_val x)"

definition Max_long :: int where
  "Max_long = 2 ^ 62 - 1"

definition Min_long :: int where
  "Min_long = - (2 ^ 62)"

definition Closure_tag :: nat where "Closure_tag = 247"
definition Infix_tag :: nat where "Infix_tag = 249"
definition Cont_tag :: nat where "Cont_tag = 245"
definition Double_tag :: nat where "Double_tag = 253"
definition Double_array_tag :: nat where "Double_array_tag = 254"
definition Double_wosize :: nat where "Double_wosize = 1"
definition Max_young_wosize :: nat where "Max_young_wosize = 256"

definition Make_header :: "nat \<Rightarrow> nat \<Rightarrow> nat \<Rightarrow> u64" where
  "Make_header wosize tag color = push_bit 10 (of_nat wosize) + of_nat color + of_nat tag"

definition Wosize_hd :: "u64 \<Rightarrow> nat" where
  "Wosize_hd hdr = unat (drop_bit 10 hdr)"

definition Tag_hd :: "u64 \<Rightarrow> nat" where
  "Tag_hd hdr = unat (hdr AND 0xFF)"

definition Make_closinfo :: "u64 \<Rightarrow> u64 \<Rightarrow> u64" where
  "Make_closinfo arity delta = push_bit 56 arity + push_bit 1 delta + 1"

definition Start_env_closinfo :: "u64 \<Rightarrow> u64" where
  "Start_env_closinfo info = drop_bit 9 (push_bit 8 info)"

definition Arity_closinfo :: "u64 \<Rightarrow> u64" where
  "Arity_closinfo info = signed_drop_bit 56 info"

section \<open>Values, blocks and the heap\<close>

datatype mlvalue = Word u64 | Ptr nat int | Atom nat | Code int | Stk nat

record block =
  block_tag :: nat
  block_fields :: "mlvalue list"

type_synonym heap = "block list"

definition Val_unit :: mlvalue where "Val_unit = Word (Val_long 0)"
definition Val_false :: mlvalue where "Val_false = Word (Val_long 0)"
definition Val_true :: mlvalue where "Val_true = Word (Val_long 1)"

definition Val_bool :: "bool \<Rightarrow> mlvalue" where
  "Val_bool b = Word (Val_long (if b then 1 else 0))"

text \<open>\<open>Val_ptr(NULL)\<close> is the word 1.\<close>

fun Val_ptr :: "nat option \<Rightarrow> mlvalue" where
  "Val_ptr None = Word 1"
| "Val_ptr (Some k) = Stk k"

fun Ptr_val :: "mlvalue \<Rightarrow> nat option option" where
  "Ptr_val (Stk k) = Some (Some k)"
| "Ptr_val (Word w) = (if w = 1 then Some None else None)"
| "Ptr_val _ = None"

fun Is_block :: "mlvalue \<Rightarrow> bool" where
  "Is_block (Word w) = (\<not> bit w 0)"
| "Is_block (Ptr _ _) = True"
| "Is_block (Atom _) = True"
| "Is_block (Code _) = True"
| "Is_block (Stk _) = False"

text \<open>\<open>v & 1\<close>, which every kind of word has.\<close>

definition low_bit :: "mlvalue \<Rightarrow> u64" where
  "low_bit v = (if Is_block v then 0 else 1)"

fun word_of :: "mlvalue \<Rightarrow> u64 option" where
  "word_of (Word w) = Some w"
| "word_of _ = None"

fun code_of :: "mlvalue \<Rightarrow> int option" where
  "code_of (Code c) = Some c"
| "code_of _ = None"

text \<open>
  Equality of two words. Distinct kinds have distinct words when one is odd; an even raw word
  next to a pointer is not decided.
\<close>

fun value_eq :: "mlvalue \<Rightarrow> mlvalue \<Rightarrow> bool option" where
  "value_eq (Word a) (Word b) = Some (a = b)"
| "value_eq (Word a) (Stk _) = (if bit a 0 \<and> a \<noteq> 1 then None else Some False)"
| "value_eq (Stk _) (Word a) = (if bit a 0 \<and> a \<noteq> 1 then None else Some False)"
| "value_eq (Word a) v = (if bit a 0 then Some False else None)"
| "value_eq v (Word a) = (if bit a 0 then Some False else None)"
| "value_eq u v = Some (u = v)"

definition Field :: "heap \<Rightarrow> mlvalue \<Rightarrow> int \<Rightarrow> mlvalue option" where
  "Field h v i = (case v of
     Ptr b j \<Rightarrow> do { blk \<leftarrow> nth_opt h b; int_nth (block_fields blk) (j + i) }
   | _ \<Rightarrow> None)"

text \<open>\<open>caml_modify\<close> and \<open>caml_initialize\<close>: a store (their write barriers serve the collector).\<close>

definition caml_modify :: "heap \<Rightarrow> mlvalue \<Rightarrow> int \<Rightarrow> mlvalue \<Rightarrow> heap option" where
  "caml_modify h v i x = (case v of
     Ptr b j \<Rightarrow> do {
       blk \<leftarrow> nth_opt h b;
       fs \<leftarrow> int_upd (block_fields blk) (j + i) x;
       Some (h[b := blk\<lparr>block_fields := fs\<rparr>]) }
   | _ \<Rightarrow> None)"

text \<open>Header reads: of the block itself, or of the infix header one word below.\<close>

definition Tag_val :: "heap \<Rightarrow> mlvalue \<Rightarrow> nat option" where
  "Tag_val h v = (case v of
     Atom t \<Rightarrow> Some t
   | Ptr b j \<Rightarrow> if j = 0 then map_option block_tag (nth_opt h b)
       else do { hdr \<leftarrow> Field h v (- 1); w \<leftarrow> word_of hdr; Some (Tag_hd w) }
   | _ \<Rightarrow> None)"

definition Wosize_val :: "heap \<Rightarrow> mlvalue \<Rightarrow> nat option" where
  "Wosize_val h v = (case v of
     Atom t \<Rightarrow> Some 0
   | Ptr b j \<Rightarrow> if j = 0 then map_option (\<lambda>blk. length (block_fields blk)) (nth_opt h b)
       else do { hdr \<leftarrow> Field h v (- 1); w \<leftarrow> word_of hdr; Some (Wosize_hd w) }
   | _ \<Rightarrow> None)"

definition Code_val :: "heap \<Rightarrow> mlvalue \<Rightarrow> int option" where
  "Code_val h v = do { c \<leftarrow> Field h v 0; code_of c }"

definition Double_val :: "heap \<Rightarrow> mlvalue \<Rightarrow> u64 option" where
  "Double_val h v = do { d \<leftarrow> Field h v 0; word_of d }"

text \<open>Byte \<open>i\<close> of a block: byte \<open>i mod 8\<close>, from the least significant, of field \<open>i div 8\<close>.\<close>

definition Byte_u :: "heap \<Rightarrow> mlvalue \<Rightarrow> int \<Rightarrow> u8 option" where
  "Byte_u h v i = do {
     f \<leftarrow> Field h v (i div 8);
     w \<leftarrow> word_of f;
     Some (ucast (drop_bit (8 * nat (i mod 8)) w)) }"

definition put_byte :: "u64 \<Rightarrow> nat \<Rightarrow> u8 \<Rightarrow> u64" where
  "put_byte w k c = (w AND NOT (push_bit (8 * k) 0xFF)) OR push_bit (8 * k) (ucast c)"

definition Set_byte :: "heap \<Rightarrow> mlvalue \<Rightarrow> int \<Rightarrow> u8 \<Rightarrow> heap option" where
  "Set_byte h v i c = do {
     f \<leftarrow> Field h v (i div 8);
     w \<leftarrow> word_of f;
     caml_modify h v (i div 8) (Word (put_byte w (nat (i mod 8)) c)) }"

text \<open>Pointer arithmetic on closures: \<open>env + n * sizeof(value)\<close>.\<close>

fun ptr_add :: "mlvalue \<Rightarrow> int \<Rightarrow> mlvalue option" where
  "ptr_add (Ptr b j) n = Some (Ptr b (j + n))"
| "ptr_add _ _ = None"

section \<open>Tagged integers\<close>

definition fits63 :: "int \<Rightarrow> bool" where
  "fits63 n \<longleftrightarrow> Min_long \<le> n \<and> n \<le> Max_long"

text \<open>The tagged word of an integer: what OCaml's \<open>int\<close> wraps around to.\<close>

definition tag_int :: "int \<Rightarrow> u64" where
  "tag_int n = word_of_int (2 * n + 1)"

lemma Val_long_word_of_int: "Val_long (word_of_int n) = tag_int n"
  by (simp add: Val_long_def tag_int_def push_bit_eq_mult)

lemma Val_long_0 [simp]: "Val_long 0 = 1" by (simp add: Val_long_def)
lemma Val_long_1 [simp]: "Val_long 1 = 3" by (simp add: Val_long_def push_bit_eq_mult)

lemma bit0_tag_int [simp]: "bit (tag_int n) 0"
  by (simp add: tag_int_def bit_0)

lemma tag_int_eq_iff_mod: "tag_int m = tag_int n \<longleftrightarrow> m mod 2 ^ 63 = n mod 2 ^ 63"
proof -
  have "tag_int m = tag_int n \<longleftrightarrow> (2 * m + 1) mod 2 ^ 64 = (2 * n + 1) mod 2 ^ 64"
    unfolding tag_int_def word_of_int_eq_iff take_bit_eq_mod by simp
  also have "\<dots> \<longleftrightarrow> (2 * m) mod (2 * 2 ^ 63) = (2 * n) mod (2 * 2 ^ 63)"
    by (simp add: mod_eq_dvd_iff)
  also have "\<dots> \<longleftrightarrow> m mod 2 ^ 63 = n mod 2 ^ 63"
    by (simp only: mult_mod_right [symmetric]) simp
  finally show ?thesis .
qed

lemma sint_tag_int:
  assumes "fits63 n"
  shows "sint (tag_int n) = 2 * n + 1"
proof -
  have "signed_take_bit 63 (2 * n + 1) = 2 * n + 1"
    using assms by (intro signed_take_bit_int_eq_self) (auto simp: fits63_def Max_long_def Min_long_def)
  then show ?thesis unfolding tag_int_def signed_of_int by simp
qed

lemma sint_Long_val: "sint (Long_val w) = sint w div 2"
  by (simp add: Long_val_def sint_signed_drop_bit_eq drop_bit_eq_div)

lemma Long_val_tag_int:
  assumes "fits63 n"
  shows "Long_val (tag_int n) = word_of_int n"
proof -
  have "Long_val (tag_int n) = word_of_int (sint (Long_val (tag_int n)))" by simp
  also have "\<dots> = word_of_int n" using assms by (simp only: sint_Long_val sint_tag_int) simp
  finally show ?thesis .
qed

lemma sint_Long_val_tag_int: "fits63 n \<Longrightarrow> sint (Long_val (tag_int n)) = n"
  by (simp add: sint_Long_val sint_tag_int)

section \<open>Stores and loads\<close>

lemma Field_caml_modify:
  "caml_modify h v i x = Some h' \<Longrightarrow> Field h' v j = (if j = i then Some x else Field h v j)"
  by (auto simp: caml_modify_def Field_def nth_opt_def int_upd_def upd_opt_def int_nth_def bind_Some_iff
      nth_list_update split: mlvalue.splits if_splits)

lemma caml_modify_frame:
  "caml_modify h (Ptr b j) i x = Some h' \<Longrightarrow>
     length h' = length h \<and> (\<forall>k. k \<noteq> b \<longrightarrow> nth_opt h' k = nth_opt h k) \<and>
     (\<forall>k < length h. block_tag (h' ! k) = block_tag (h ! k) \<and>
        length (block_fields (h' ! k)) = length (block_fields (h ! k)))"
  by (auto simp: caml_modify_def bind_Some_iff nth_opt_def int_upd_def upd_opt_def nth_list_update split: if_splits)

lemma caml_modify_same:
  assumes "Field h v i = Some x"
  shows "caml_modify h v i x = Some h"
proof -
  from assms obtain b j where v: "v = Ptr b j" and b: "b < length h" and ji: "0 \<le> j + i"
    and n: "nat (j + i) < length (block_fields (h ! b))" "block_fields (h ! b) ! nat (j + i) = x"
    by (auto simp: Field_def bind_Some_iff split: mlvalue.splits)
  have "(block_fields (h ! b))[nat (j + i) := x] = block_fields (h ! b)" using n(2) by (metis list_update_id)
  moreover have "h[b := h ! b] = h" by (rule list_update_id)
  ultimately show ?thesis using v b ji n by (simp add: caml_modify_def nth_opt_def int_upd_def upd_opt_def)
qed

end
