(* ===== verification/Stacks.thy ===== *)
theory Stacks
  imports Prelude
begin

text \<open>
  The stacks of the repository. The interpreter's profiler keeps the currently active bytecode
  functions on a bounded array (\<open>function_stack_t\<close> in \<open>interp.c\<close>); the two exercises
  \<open>simple-stack.c\<close> and \<open>stack-skeleton.c\<close> are bounded integer stacks. All three are written as
  an array and an index; the locale \<open>bounded_stack\<close> is the contract they share.
\<close>

section \<open>The profiler's function stack\<close>

type_synonym code_t = u64 \<comment> \<open>the address of an instruction; 0 is NULL\<close>

record function_stack_t =
  stack_data :: "code_t list"
  nr_items :: u64
  max_items :: u64
  cur_size_bytes :: u64
  top_idx :: u64

definition sizeof_code_t :: u64 where
  "sizeof_code_t = 8"

text \<open>Results of the routines that allocate: a pointer, NULL, or \<open>exit(1)\<close>.\<close>

datatype 'a alloc_result = Allocated 'a | Null | Exited

definition create_func_stack :: "bool \<Rightarrow> bool \<Rightarrow> u64 \<Rightarrow> function_stack_t alloc_result" where
  "create_func_stack data_ok struct_ok n =
     (if \<not> data_ok then Null
      else let data = replicate (unat (n * sizeof_code_t) div unat sizeof_code_t) 0 in
        if \<not> struct_ok then Exited
        else Allocated \<lparr>stack_data = data, nr_items = 0, max_items = n,
                         cur_size_bytes = 0, top_idx = 0\<rparr>)"

definition get_nr_items :: "function_stack_t \<Rightarrow> u64" where
  "get_nr_items st = nr_items st"

definition get_max_items :: "function_stack_t \<Rightarrow> u64" where
  "get_max_items st = max_items st"

definition get_top_idx :: "function_stack_t \<Rightarrow> u64" where
  "get_top_idx st = top_idx st"

definition get_cur_size_bytes :: "function_stack_t \<Rightarrow> u64" where
  "get_cur_size_bytes st = cur_size_bytes st"

definition isEmpty :: "function_stack_t \<Rightarrow> bool" where
  "isEmpty st \<longleftrightarrow> nr_items st = 0"

definition isFull :: "function_stack_t \<Rightarrow> bool" where
  "isFull st \<longleftrightarrow> top_idx st = max_items st"

text \<open>\<open>peek\<close> answers 0 on an empty stack; its warnings go to the log only.\<close>

definition peek :: "function_stack_t \<Rightarrow> code_t option" where
  "peek st = (if \<not> isEmpty st then nth_opt (stack_data st) (unat (top_idx st - 1)) else Some 0)"

text \<open>The result is the C return code (0 or -1) and the new stack.\<close>

definition func_stack_push :: "function_stack_t \<Rightarrow> code_t \<Rightarrow> (int \<times> function_stack_t) option" where
  "func_stack_push st pc =
     (if \<not> isFull st then do {
        data \<leftarrow> upd_opt (stack_data st) (unat (top_idx st)) pc;
        Some (0, st\<lparr>stack_data := data, top_idx := top_idx st + 1, nr_items := nr_items st + 1,
                     cur_size_bytes := cur_size_bytes st + sizeof_code_t\<rparr>) }
      else Some (- 1, st))"

definition func_stack_pop :: "function_stack_t \<Rightarrow> (code_t \<times> function_stack_t) option" where
  "func_stack_pop st =
     (if \<not> isEmpty st then do {
        v \<leftarrow> nth_opt (stack_data st) (unat (top_idx st - 1));
        Some (v, st\<lparr>nr_items := nr_items st - 1,
                     cur_size_bytes := cur_size_bytes st - sizeof_code_t,
                     top_idx := top_idx st - 1\<rparr>) }
      else Some (0, st))"

text \<open>The lines \<open>dump_func_stack\<close> prints: the four meta fields, then the items with the mark.\<close>

datatype dump_line = Meta string u64 | Item nat code_t bool

definition dump_func_stack_meta :: "function_stack_t \<Rightarrow> dump_line list" where
  "dump_func_stack_meta st =
     [Meta ''Stack occupancy'' (nr_items st), Meta ''Stack cur size bytes'' (cur_size_bytes st),
      Meta ''Stack max items'' (max_items st), Meta ''Stack top idx'' (top_idx st)]"

definition dump_func_stack :: "function_stack_t \<Rightarrow> dump_line list option" where
  "dump_func_stack st = do {
     items \<leftarrow> take_opt (unat (nr_items st)) (stack_data st);
     Some (dump_func_stack_meta st
       @ map (\<lambda>i. Item i (items ! i) (of_nat i = top_idx st - 1)) [0..<length items]) }"

section \<open>The contract of a bounded stack\<close>

locale bounded_stack =
  fixes push :: "'s \<Rightarrow> 'a \<Rightarrow> 's option"
    and pop :: "'s \<Rightarrow> ('a \<times> 's) option"
    and elems :: "'s \<Rightarrow> 'a list"
    and cap :: "'s \<Rightarrow> nat"
    and invar :: "'s \<Rightarrow> bool"
  assumes push_spec: "invar s \<Longrightarrow> length (elems s) < cap s \<Longrightarrow>
      \<exists>s'. push s x = Some s' \<and> invar s' \<and> elems s' = x # elems s \<and> cap s' = cap s"
    and pop_spec: "invar s \<Longrightarrow> elems s = x # xs \<Longrightarrow>
      \<exists>s'. pop s = Some (x, s') \<and> invar s' \<and> elems s' = xs \<and> cap s' = cap s"
    and elems_bound: "invar s \<Longrightarrow> length (elems s) \<le> cap s"
begin

primrec push_all :: "'s \<Rightarrow> 'a list \<Rightarrow> 's option" where
  "push_all s [] = Some s"
| "push_all s (x # xs) = Option.bind (push s x) (\<lambda>s'. push_all s' xs)"

primrec pop_n :: "nat \<Rightarrow> 's \<Rightarrow> ('a list \<times> 's) option" where
  "pop_n 0 s = Some ([], s)"
| "pop_n (Suc n) s = Option.bind (pop s) (\<lambda>(x, s').
     Option.bind (pop_n n s') (\<lambda>(xs, s''). Some (x # xs, s'')))"

lemma push_all_spec:
  "invar s \<Longrightarrow> length (elems s) + length xs \<le> cap s \<Longrightarrow>
   \<exists>s'. push_all s xs = Some s' \<and> invar s' \<and> elems s' = rev xs @ elems s \<and> cap s' = cap s"
proof (induction xs arbitrary: s)
  case Nil
  then show ?case by simp
next
  case (Cons x xs)
  then obtain s1 where s1: "push s x = Some s1" "invar s1" "elems s1 = x # elems s" "cap s1 = cap s"
    using push_spec [of s x] by auto
  with Cons.IH [of s1] Cons.prems show ?case by auto
qed

lemma pop_n_spec:
  "invar s \<Longrightarrow> elems s = xs @ ys \<Longrightarrow>
   \<exists>s'. pop_n (length xs) s = Some (xs, s') \<and> invar s' \<and> elems s' = ys \<and> cap s' = cap s"
proof (induction xs arbitrary: s)
  case Nil
  then show ?case by simp
next
  case (Cons x xs)
  then obtain s1 where "pop s = Some (x, s1)" "invar s1" "elems s1 = xs @ ys" "cap s1 = cap s"
    using pop_spec [of s x "xs @ ys"] by auto
  with Cons.IH [of s1] show ?case by auto
qed

text \<open>Last in, first out: a batch that fits comes back reversed and leaves the rest alone.\<close>

lemma lifo:
  assumes "invar s" and "length (elems s) + length xs \<le> cap s"
  shows "\<exists>s1 s2. push_all s xs = Some s1 \<and> pop_n (length xs) s1 = Some (rev xs, s2) \<and>
           invar s2 \<and> elems s2 = elems s"
proof -
  from push_all_spec [OF assms] obtain s1 where
    s1: "push_all s xs = Some s1" "invar s1" "elems s1 = rev xs @ elems s" by auto
  from pop_n_spec [OF s1(2,3)] s1(1) show ?thesis by auto
qed

end

section \<open>The function stack meets the contract\<close>

definition fs_invar :: "function_stack_t \<Rightarrow> bool" where
  "fs_invar st \<longleftrightarrow> nr_items st = top_idx st \<and> top_idx st \<le> max_items st \<and>
     length (stack_data st) = unat (max_items st) \<and> cur_size_bytes st = top_idx st * sizeof_code_t"

definition fs_elems :: "function_stack_t \<Rightarrow> code_t list" where
  "fs_elems st = rev (take (unat (top_idx st)) (stack_data st))"

definition fs_cap :: "function_stack_t \<Rightarrow> nat" where
  "fs_cap st = unat (max_items st)"

abbreviation fs_push :: "function_stack_t \<Rightarrow> code_t \<Rightarrow> function_stack_t option" where
  "fs_push st pc \<equiv> map_option snd (func_stack_push st pc)"

lemma fs_length: "fs_invar st \<Longrightarrow> length (fs_elems st) = unat (top_idx st)"
  by (simp add: fs_invar_def fs_elems_def word_le_nat_alt)

lemma fs_not_full: "fs_invar st \<Longrightarrow> isFull st \<longleftrightarrow> length (fs_elems st) = fs_cap st"
  by (simp add: fs_length isFull_def fs_cap_def word_unat_eq_iff)

lemma fs_empty: "fs_invar st \<Longrightarrow> isEmpty st \<longleftrightarrow> fs_elems st = []"
  using fs_length [of st] by (auto simp: isEmpty_def fs_invar_def unat_eq_0)

lemma func_stack_push_ok:
  assumes inv: "fs_invar st" and room: "length (fs_elems st) < fs_cap st"
  shows "\<exists>st'. func_stack_push st pc = Some (0, st') \<and> fs_invar st' \<and>
    fs_elems st' = pc # fs_elems st \<and> fs_cap st' = fs_cap st"
proof -
  from inv room have lt: "unat (top_idx st) < unat (max_items st)"
    by (simp add: fs_length fs_cap_def)
  then have top1: "unat (top_idx st + 1) = Suc (unat (top_idx st))" by (simp add: unat_plus_one_less)
  have "take (Suc (unat (top_idx st))) ((stack_data st)[unat (top_idx st) := pc]) =
      take (unat (top_idx st)) (stack_data st) @ [pc]"
    using inv lt by (simp add: fs_invar_def take_Suc_conv_app_nth)
  with inv lt top1 show ?thesis
    by (auto simp: func_stack_push_def isFull_def fs_invar_def fs_elems_def fs_cap_def upd_opt_def
        word_le_nat_alt algebra_simps)
qed

lemma func_stack_pop_ok:
  assumes inv: "fs_invar st" and el: "fs_elems st = x # xs"
  shows "\<exists>st'. func_stack_pop st = Some (x, st') \<and> fs_invar st' \<and> fs_elems st' = xs \<and>
    fs_cap st' = fs_cap st"
proof -
  from el inv have nz: "top_idx st \<noteq> 0" by (auto simp: fs_elems_def)
  then have top1: "unat (top_idx st - 1) = unat (top_idx st) - 1" and pos: "0 < unat (top_idx st)"
    by (auto simp: unat_minus_one_word unat_gt_0)
  obtain n where n: "unat (top_idx st) = Suc n" using pos by (cases "unat (top_idx st)") auto
  from inv n have len: "n < length (stack_data st)" by (simp add: fs_invar_def word_le_nat_alt)
  from el n len have "x = stack_data st ! n" "xs = rev (take n (stack_data st))"
    by (simp_all add: fs_elems_def take_Suc_conv_app_nth)
  with inv nz top1 n len show ?thesis
    by (auto simp: func_stack_pop_def isEmpty_def fs_invar_def fs_elems_def fs_cap_def nth_opt_def
        word_le_nat_alt algebra_simps)
qed

interpretation fstack: bounded_stack fs_push func_stack_pop fs_elems fs_cap fs_invar
proof unfold_locales
  fix s x assume "fs_invar s" "length (fs_elems s) < fs_cap s"
  from func_stack_push_ok [OF this, of x]
  show "\<exists>s'. fs_push s x = Some s' \<and> fs_invar s' \<and> fs_elems s' = x # fs_elems s \<and> fs_cap s' = fs_cap s"
    by auto
next
  fix s x xs assume "fs_invar s" "fs_elems s = x # xs"
  then show "\<exists>s'. func_stack_pop s = Some (x, s') \<and> fs_invar s' \<and> fs_elems s' = xs \<and> fs_cap s' = fs_cap s"
    by (rule func_stack_pop_ok)
next
  fix s assume "fs_invar s" then show "length (fs_elems s) \<le> fs_cap s"
    by (simp add: fs_length fs_cap_def) (simp add: fs_invar_def word_le_nat_alt)
qed

end
