(* ===== verification/Linear_Probing.thy ===== *)
theory Linear_Probing
  imports Prelude
begin

text \<open>
  Open addressing with linear probing, on the list of keys of a table: the invariant that every
  stored key is reached from its home slot through occupied slots only, and the three facts a
  table needs from it: a probe stops, it stops at the key if the key is stored, and storing the
  key where the probe stopped keeps the invariant. The key 0 marks a free slot, as NULL does in
  the C tables. The locale \<open>probing\<close> has the home slot as its parameter.
\<close>

definition slot :: "nat \<Rightarrow> nat \<Rightarrow> nat \<Rightarrow> nat" where
  "slot n home d = (home + d) mod n"

definition stops :: "u64 list \<Rightarrow> u64 \<Rightarrow> nat \<Rightarrow> bool" where
  "stops ks k j \<longleftrightarrow> ks ! j = 0 \<or> ks ! j = k"

text \<open>The probe for \<open>k\<close> from \<open>home\<close> passes \<open>e\<close> occupied slots and stops at the next.\<close>

definition probe_at :: "u64 list \<Rightarrow> u64 \<Rightarrow> nat \<Rightarrow> nat \<Rightarrow> bool" where
  "probe_at ks k home e \<longleftrightarrow>
     (\<forall>d < e. \<not> stops ks k (slot (length ks) home d)) \<and> stops ks k (slot (length ks) home e)"

definition chained :: "(u64 \<Rightarrow> nat) \<Rightarrow> u64 list \<Rightarrow> bool" where
  "chained home ks \<longleftrightarrow> (\<forall>j < length ks. ks ! j \<noteq> 0 \<longrightarrow>
     (\<exists>e. j = slot (length ks) (home (ks ! j)) e \<and>
        (\<forall>d < e. ks ! slot (length ks) (home (ks ! j)) d \<noteq> 0)))"

definition keys_distinct :: "u64 list \<Rightarrow> bool" where
  "keys_distinct ks \<longleftrightarrow>
     (\<forall>i < length ks. \<forall>j < length ks. ks ! i \<noteq> 0 \<longrightarrow> ks ! i = ks ! j \<longrightarrow> i = j)"

definition occupied :: "u64 list \<Rightarrow> nat" where
  "occupied ks = length (filter (\<lambda>k. k \<noteq> 0) ks)"

lemma keys_distinct_Cons:
  "keys_distinct (k # ks) \<longleftrightarrow> (k \<noteq> 0 \<longrightarrow> k \<notin> set ks) \<and> keys_distinct ks"
proof
  assume d: "keys_distinct (k # ks)"
  have "k \<notin> set ks" if "k \<noteq> 0"
  proof
    assume "k \<in> set ks"
    then obtain j where "j < length ks" "ks ! j = k" by (auto simp: in_set_conv_nth)
    with d that show False unfolding keys_distinct_def
      by (metis Suc_less_eq length_Cons nat.distinct(1) nth_Cons_0 nth_Cons_Suc zero_less_Suc)
  qed
  moreover have "keys_distinct ks"
    using d unfolding keys_distinct_def by (metis Suc_less_eq length_Cons nat.inject nth_Cons_Suc)
  ultimately show "(k \<noteq> 0 \<longrightarrow> k \<notin> set ks) \<and> keys_distinct ks" by blast
next
  assume "(k \<noteq> 0 \<longrightarrow> k \<notin> set ks) \<and> keys_distinct ks"
  then show "keys_distinct (k # ks)"
    by (auto simp: keys_distinct_def nth_Cons split: nat.splits)
qed

lemma slot_less [simp]: "0 < n \<Longrightarrow> slot n h d < n"
  by (simp add: slot_def)

lemma slot_0 [simp]: "h < n \<Longrightarrow> slot n h 0 = h"
  by (simp add: slot_def)

lemma slot_Suc:
  assumes "0 < n"
  shows "slot n h (Suc d) = (if n \<le> slot n h d + 1 then 0 else slot n h d + 1)"
proof -
  have "slot n h (Suc d) = Suc (slot n h d) mod n" by (simp add: slot_def mod_Suc_eq)
  also have "\<dots> = (if n \<le> slot n h d + 1 then 0 else slot n h d + 1)"
    using slot_less [OF assms, of h d] by (cases "Suc (slot n h d) = n") auto
  finally show ?thesis .
qed

lemma slot_reaches:
  assumes "j < n" "h < n"
  shows "\<exists>d < n. slot n h d = j"
proof (cases "h \<le> j")
  case True
  with assms show ?thesis by (intro exI [of _ "j - h"]) (auto simp: slot_def)
next
  case False
  with assms have "slot n h (n - h + j) = j" by (simp add: slot_def)
  with False assms show ?thesis by (intro exI [of _ "n - h + j"]) auto
qed

lemma occupied_less_free: "occupied ks < length ks \<Longrightarrow> \<exists>j < length ks. ks ! j = 0"
proof (rule ccontr)
  assume lt: "occupied ks < length ks" and "\<not> (\<exists>j < length ks. ks ! j = 0)"
  then have "\<forall>k \<in> set ks. k \<noteq> 0" by (auto simp: in_set_conv_nth)
  then have "filter (\<lambda>k. k \<noteq> 0) ks = ks" by (rule filter_True)
  with lt show False by (simp add: occupied_def)
qed

lemma occupied_append [simp]: "occupied (xs @ ys) = occupied xs + occupied ys"
  by (simp add: occupied_def)

lemma occupied_Cons [simp]: "occupied (k # ks) = (if k = 0 then 0 else 1) + occupied ks"
  by (simp add: occupied_def)

lemma occupied_update_free:
  assumes "j < length ks" "ks ! j = 0" "k \<noteq> 0"
  shows "occupied (ks[j := k]) = Suc (occupied ks)"
proof -
  have ks: "ks = take j ks @ ks ! j # drop (Suc j) ks"
    using assms(1) by (rule id_take_nth_drop)
  have "occupied ks = occupied (take j ks) + occupied (drop (Suc j) ks)"
    by (subst ks) (use assms in simp)
  moreover have "occupied (ks[j := k]) = Suc (occupied (take j ks) + occupied (drop (Suc j) ks))"
    using assms by (simp add: upd_conv_take_nth_drop)
  ultimately show ?thesis by simp
qed

lemma occupied_Nil [simp]: "occupied [] = 0"
  by (simp add: occupied_def)

lemma occupied_replicate [simp]: "occupied (replicate n 0) = 0"
  by (simp add: occupied_def)

text \<open>A table with a free slot: every probe stops, within one round.\<close>

lemma probe_exists:
  assumes "h < length ks" and "\<exists>j < length ks. ks ! j = 0"
  shows "\<exists>e < length ks. probe_at ks k h e"
proof -
  let ?P = "\<lambda>d. stops ks k (slot (length ks) h d)"
  from assms obtain d where d: "d < length ks" "?P d"
    using slot_reaches [of _ "length ks" h] by (fastforce simp: stops_def)
  then have "?P (LEAST d. ?P d)" and "(LEAST d. ?P d) \<le> d"
    by (auto intro: LeastI Least_le)
  with d show ?thesis
    by (intro exI [of _ "LEAST d. ?P d"]) (auto simp: probe_at_def dest: not_less_Least)
qed

locale probing =
  fixes home :: "nat \<Rightarrow> u64 \<Rightarrow> nat"
  assumes home_less: "0 < n \<Longrightarrow> home n k < n"
begin

definition probe_inv :: "u64 list \<Rightarrow> bool" where
  "probe_inv ks \<longleftrightarrow> 0 < length ks \<and> keys_distinct ks \<and> chained (home (length ks)) ks"

lemma probe_inv_replicate: "0 < n \<Longrightarrow> probe_inv (replicate n 0)"
  by (simp add: probe_inv_def keys_distinct_def chained_def)

lemma probe_stops:
  "probe_inv ks \<Longrightarrow> occupied ks < length ks \<Longrightarrow>
   \<exists>e < length ks. probe_at ks k (home (length ks) k) e"
  by (auto simp: probe_inv_def intro!: probe_exists home_less occupied_less_free)

lemma probe_finds:
  assumes inv: "probe_inv ks" and k: "k \<noteq> 0" and at: "probe_at ks k (home (length ks) k) e"
    and j: "j < length ks" "ks ! j = k"
  shows "slot (length ks) (home (length ks) k) e = j"
proof -
  let ?s = "slot (length ks) (home (length ks) k)"
  from inv j k obtain e0 where e0: "j = ?s e0" "\<forall>d < e0. ks ! ?s d \<noteq> 0"
    unfolding probe_inv_def chained_def by metis
  have "\<not> e0 < e" using at j(2) e0(1) by (auto simp: probe_at_def stops_def)
  moreover have "ks ! ?s e = k" if "e < e0"
    using at e0(2) that by (auto simp: probe_at_def stops_def)
  ultimately have "ks ! ?s e = k" using e0(1) j(2) by (cases "e = e0") auto
  moreover have "?s e < length ks" using inv by (simp add: probe_inv_def)
  ultimately show ?thesis using inv j k by (auto simp: probe_inv_def keys_distinct_def)
qed

lemma probe_miss:
  assumes "probe_inv ks" "k \<noteq> 0" "probe_at ks k (home (length ks) k) e"
    and "ks ! slot (length ks) (home (length ks) k) e = 0"
  shows "k \<notin> set ks"
  using probe_finds [OF assms(1-3)] assms(2,4) by (auto simp: in_set_conv_nth)

lemma probe_inv_store:
  assumes inv: "probe_inv ks" and k: "k \<noteq> 0" and at: "probe_at ks k (home (length ks) k) e"
  shows "probe_inv (ks[slot (length ks) (home (length ks) k) e := k])"
proof (cases "ks ! slot (length ks) (home (length ks) k) e = k")
  case True
  then show ?thesis using inv by (metis list_update_id)
next
  case False
  let ?n = "length ks" let ?j = "slot ?n (home ?n k) e" let ?ks = "ks[?j := k]"
  from at False have free: "ks ! ?j = 0" by (auto simp: probe_at_def stops_def)
  have n: "0 < ?n" and jn: "?j < ?n" using inv by (auto simp: probe_inv_def)
  have new: "k \<notin> set ks" by (rule probe_miss [OF inv k at free])
  have mono: "ks ! i \<noteq> 0 \<Longrightarrow> ?ks ! i \<noteq> 0" for i
    using k jn by (cases "i = ?j") auto
  have "keys_distinct ?ks"
    using inv new jn k by (auto simp: probe_inv_def keys_distinct_def nth_list_update in_set_conv_nth)
  moreover have "chained (home ?n) ?ks"
    unfolding chained_def
  proof (intro allI impI)
    fix i assume i: "i < length ?ks" "?ks ! i \<noteq> 0"
    show "\<exists>e. i = slot (length ?ks) (home ?n (?ks ! i)) e \<and>
        (\<forall>d < e. ?ks ! slot (length ?ks) (home ?n (?ks ! i)) d \<noteq> 0)"
    proof (cases "i = ?j")
      case True
      have "\<forall>d < e. ks ! slot ?n (home ?n k) d \<noteq> 0"
        using at by (auto simp: probe_at_def stops_def)
      with True jn mono show ?thesis by (intro exI [of _ e]) auto
    next
      case False
      with i inv obtain e' where "i = slot ?n (home ?n (ks ! i)) e'"
        "\<forall>d < e'. ks ! slot ?n (home ?n (ks ! i)) d \<noteq> 0"
        unfolding probe_inv_def chained_def by (metis length_list_update nth_list_update_neq)
      with False mono show ?thesis by (intro exI [of _ e']) auto
    qed
  qed
  ultimately show ?thesis using n by (simp add: probe_inv_def)
qed

end

end
