(* ===== verification/Hash_Table.thy ===== *)
theory Hash_Table
  imports Linear_Probing
begin

text \<open>
  The profiler's hash table from function addresses to counter arrays (\<open>ht\<close> in \<open>interp.c\<close>): open
  addressing with linear probing, doubling when half full. Keys and values are C pointers; key 0
  marks a free slot. The theory proves that under the table's invariant the probe loops end, and
  that the operations implement a finite map.
\<close>

section \<open>Data and operations\<close>

record ht_entry =
  ht_key :: u64
  ht_value :: u64

record ht =
  entries :: "ht_entry list"
  capacity :: u64
  ht_len :: u64

text \<open>How a routine that may terminate the process ends.\<close>

datatype 'a c_outcome = Done 'a | Exit_failure | Assert_failure

definition CAPACITY :: u64 where
  "CAPACITY = 16"

definition calloc_entries :: "u64 \<Rightarrow> ht_entry list" where
  "calloc_entries n = replicate (unat n) \<lparr>ht_key = 0, ht_value = 0\<rparr>"

definition ht_create :: "bool \<Rightarrow> bool \<Rightarrow> ht option" where
  "ht_create malloc_ok calloc_ok =
     (if malloc_ok \<and> calloc_ok
      then Some \<lparr>entries = calloc_entries CAPACITY, capacity = CAPACITY, ht_len = 0\<rparr> else None)"

definition hash_key :: "u64 \<Rightarrow> u64" where
  "hash_key key =
     (let hash = key; n = hash;
          n = push_bit 18 n; hash = hash - n;
          n = push_bit 33 n; hash = hash - n;
          n = push_bit 3 n; hash = hash + n;
          n = push_bit 3 n; hash = hash - n;
          n = push_bit 4 n; hash = hash + n;
          n = push_bit 2 n; hash = hash + n
      in hash)"

definition ht_index :: "u64 \<Rightarrow> u64 \<Rightarrow> nat" where
  "ht_index cap key = unat (hash_key key AND (cap - 1))"

definition ht_advance :: "u64 \<Rightarrow> nat \<Rightarrow> nat" where
  "ht_advance cap index = (if unat cap \<le> index + 1 then 0 else index + 1)"

partial_function (option) ht_get_loop :: "ht_entry list \<Rightarrow> u64 \<Rightarrow> u64 \<Rightarrow> nat \<Rightarrow> u64 option" where
  "ht_get_loop es cap key index = do {
     e \<leftarrow> nth_opt es index;
     if ht_key e \<noteq> 0
     then if key = ht_key e then Some (ht_value e) else ht_get_loop es cap key (ht_advance cap index)
     else Some 0 }"

definition ht_get :: "ht \<Rightarrow> u64 \<Rightarrow> u64 option" where
  "ht_get t key = ht_get_loop (entries t) (capacity t) key (ht_index (capacity t) key)"

text \<open>The search of \<open>ht_set_entry\<close>: the slot where it stops, and whether it holds the key.\<close>

partial_function (option) ht_set_loop ::
  "ht_entry list \<Rightarrow> u64 \<Rightarrow> u64 \<Rightarrow> nat \<Rightarrow> (nat \<times> bool) option" where
  "ht_set_loop es cap key index = do {
     e \<leftarrow> nth_opt es index;
     if ht_key e \<noteq> 0
     then if key = ht_key e then Some (index, True) else ht_set_loop es cap key (ht_advance cap index)
     else Some (index, False) }"

text \<open>The result: the stored key, the array and the length counter (if one was passed).\<close>

definition ht_set_entry ::
  "ht_entry list \<Rightarrow> u64 \<Rightarrow> u64 \<Rightarrow> u64 \<Rightarrow> u64 option \<Rightarrow>
   (u64 \<times> ht_entry list \<times> u64 option) c_outcome option" where
  "ht_set_entry es cap key v plength =
     (if key = 0 then Some Exit_failure
      else do {
        (index, found) \<leftarrow> ht_set_loop es cap key (ht_index cap key);
        Some (Done (if found
          then (ht_key (es ! index), es[index := (es ! index)\<lparr>ht_value := v\<rparr>], plength)
          else (key, es[index := \<lparr>ht_key = key, ht_value = v\<rparr>], map_option (\<lambda>l. l + 1) plength))) })"

text \<open>The copying loop of \<open>ht_expand\<close>, over the old array.\<close>

fun ht_rehash :: "ht_entry list \<Rightarrow> u64 \<Rightarrow> ht_entry list \<Rightarrow> ht_entry list c_outcome option" where
  "ht_rehash [] cap es = Some (Done es)"
| "ht_rehash (e # old) cap es =
     (if ht_key e \<noteq> 0 then do {
        r \<leftarrow> ht_set_entry es cap (ht_key e) (ht_value e) None;
        case r of Done (_, es', _) \<Rightarrow> ht_rehash old cap es'
        | Exit_failure \<Rightarrow> Some Exit_failure | Assert_failure \<Rightarrow> Some Assert_failure }
      else ht_rehash old cap es)"

definition ht_expand :: "bool \<Rightarrow> ht \<Rightarrow> (bool \<times> ht) c_outcome option" where
  "ht_expand calloc_ok t =
     (let new_capacity = capacity t * 2 in
      if new_capacity < capacity t then Some (Done (False, t))
      else if \<not> calloc_ok then Some (Done (False, t))
      else do {
        old \<leftarrow> take_opt (unat (capacity t)) (entries t);
        r \<leftarrow> ht_rehash old new_capacity (calloc_entries new_capacity);
        case r of Done es \<Rightarrow> Some (Done (True, t\<lparr>entries := es, capacity := new_capacity\<rparr>))
        | Exit_failure \<Rightarrow> Some Exit_failure | Assert_failure \<Rightarrow> Some Assert_failure })"

text \<open>The result is the key pointer \<open>ht_set\<close> returns (0 is NULL) and the table.\<close>

definition ht_store :: "ht \<Rightarrow> u64 \<Rightarrow> u64 \<Rightarrow> (u64 \<times> ht) c_outcome option" where
  "ht_store t key v = do {
     r \<leftarrow> ht_set_entry (entries t) (capacity t) key v (Some (ht_len t));
     case r of Done (k, es, l) \<Rightarrow> Some (Done (k, t\<lparr>entries := es, ht_len := the l\<rparr>))
     | Exit_failure \<Rightarrow> Some Exit_failure | Assert_failure \<Rightarrow> Some Assert_failure }"

definition ht_set :: "bool \<Rightarrow> ht \<Rightarrow> u64 \<Rightarrow> u64 \<Rightarrow> (u64 \<times> ht) c_outcome option" where
  "ht_set calloc_ok t key v =
     (if v = 0 then Some Assert_failure
      else if key = 0 then Some Exit_failure
      else if capacity t div 2 \<le> ht_len t then do {
        r \<leftarrow> ht_expand calloc_ok t;
        case r of Done (ok, t') \<Rightarrow> if ok then ht_store t' key v else Some (Done (0, t'))
        | Exit_failure \<Rightarrow> Some Exit_failure | Assert_failure \<Rightarrow> Some Assert_failure }
      else ht_store t key v)"

definition ht_length :: "ht \<Rightarrow> u64" where
  "ht_length t = ht_len t"

text \<open>The iterator. \<open>hti_index\<close> counts the slots already visited.\<close>

record hti =
  hti_key :: u64
  hti_value :: u64
  hti_table :: ht
  hti_index :: u64

definition ht_iterator :: "ht \<Rightarrow> hti" where
  "ht_iterator t = \<lparr>hti_key = 0, hti_value = 0, hti_table = t, hti_index = 0\<rparr>"

function ht_next :: "hti \<Rightarrow> (bool \<times> hti) option" where
  "ht_next it =
     (if hti_index it < capacity (hti_table it) then do {
        e \<leftarrow> nth_opt (entries (hti_table it)) (unat (hti_index it));
        if ht_key e \<noteq> 0
        then Some (True, it\<lparr>hti_index := hti_index it + 1, hti_key := ht_key e, hti_value := ht_value e\<rparr>)
        else ht_next (it\<lparr>hti_index := hti_index it + 1\<rparr>) }
      else Some (False, it))"
  by pat_completeness auto
termination
proof (relation "measure (\<lambda>it. unat (capacity (hti_table it)) - unat (hti_index it))", goal_cases)
  case 1
  then show ?case by simp
next
  case (2 it e)
  then have "unat (hti_index it) < unat (capacity (hti_table it))" by (simp add: word_less_nat_alt)
  moreover from this have "unat (hti_index it + 1) = unat (hti_index it) + 1"
    by (rule unat_plus_one_less)
  ultimately show ?case by simp
qed

declare ht_next.simps [simp del]

section \<open>The hash function\<close>

lemma hash_key_multiplier:
  "hash_key key = key * (1 - 2 ^ 18 - 2 ^ 51 + 2 ^ 54 - 2 ^ 57 + 2 ^ 61 + 2 ^ 63)"
  by (simp add: hash_key_def push_bit_eq_mult algebra_simps)

section \<open>The invariant and the map a table stands for\<close>

lemma ht_index_less:
  assumes "0 < n"
  shows "ht_index (of_nat n) k < n"
proof -
  let ?N = "of_nat n :: u64"
  have "unat (hash_key k AND (?N - 1)) \<le> unat (?N - 1)"
    using word_and_le1 [of "hash_key k" "?N - 1"] by (simp add: word_le_nat_alt)
  also have "\<dots> < n"
  proof (cases "?N = 0")
    case True
    moreover have "unat ?N = n mod 2 ^ 64" by (simp add: unat_of_nat)
    ultimately have "n mod 2 ^ 64 = 0" by simp
    then have "2 ^ 64 dvd n" by (simp add: mod_eq_0_iff_dvd)
    with assms have "2 ^ 64 \<le> n" by (rule dvd_imp_le [rotated])
    moreover have "unat (?N - 1) < 2 ^ 64" using unsigned_less [of "?N - 1"] by simp
    ultimately show ?thesis by linarith
  next
    case False
    have "unat ?N = n mod 2 ^ 64" by (simp add: unat_of_nat)
    then have "unat ?N \<le> n" using mod_less_eq_dividend [of n "2 ^ 64"] by simp
    moreover have "0 < unat ?N" using False by (simp add: unat_gt_0)
    ultimately show ?thesis using False by (simp add: unat_minus_one_word)
  qed
  finally show ?thesis by (simp add: ht_index_def)
qed

interpretation htp: probing "\<lambda>n k. ht_index (of_nat n) k"
  by unfold_locales (rule ht_index_less)

abbreviation ht_keys :: "ht_entry list \<Rightarrow> u64 list" where
  "ht_keys es \<equiv> map ht_key es"

definition es_inv :: "ht_entry list \<Rightarrow> bool" where
  "es_inv es \<longleftrightarrow> htp.probe_inv (ht_keys es)"

definition es_map :: "ht_entry list \<Rightarrow> u64 \<Rightarrow> u64 option" where
  "es_map es k = map_option ht_value (List.find (\<lambda>e. ht_key e = k \<and> k \<noteq> 0) es)"

definition ht_inv :: "ht \<Rightarrow> bool" where
  "ht_inv t \<longleftrightarrow> es_inv (entries t) \<and> length (entries t) = unat (capacity t) \<and>
     (\<exists>m < 64. 1 \<le> m \<and> unat (capacity t) = 2 ^ m) \<and>
     unat (ht_len t) = occupied (ht_keys (entries t)) \<and>
     2 * unat (ht_len t) \<le> unat (capacity t)"

definition ht_map :: "ht \<Rightarrow> u64 \<Rightarrow> u64 option" where
  "ht_map t = es_map (entries t)"

lemma ht_invD:
  assumes "ht_inv t"
  shows "0 < unat (capacity t)" "occupied (ht_keys (entries t)) < length (entries t)"
    "es_inv (entries t)" "unat (capacity t) = length (entries t)"
    "unat (ht_len t) = occupied (ht_keys (entries t))" "even (unat (capacity t))"
proof -
  obtain m where m: "1 \<le> m" "unat (capacity t) = 2 ^ m" using assms by (auto simp: ht_inv_def)
  then show pos: "0 < unat (capacity t)" and "even (unat (capacity t))" by auto
  show "es_inv (entries t)" "unat (capacity t) = length (entries t)"
    "unat (ht_len t) = occupied (ht_keys (entries t))" using assms by (auto simp: ht_inv_def)
  with pos assms show "occupied (ht_keys (entries t)) < length (entries t)"
    unfolding ht_inv_def by linarith
qed

lemma es_map_0 [simp]: "es_map es 0 = None"
  by (simp add: es_map_def find_None_iff)

lemma es_map_Some_iff:
  assumes "es_inv es"
  shows "es_map es k = Some v \<longleftrightarrow> (\<exists>j < length es. ht_key (es ! j) = k \<and> k \<noteq> 0 \<and> ht_value (es ! j) = v)"
proof -
  from assms have d: "keys_distinct (ht_keys es)" by (simp add: es_inv_def htp.probe_inv_def)
  have one: "i = j" if "i < length es" "j < length es" "ht_key (es ! i) = k" "ht_key (es ! j) = k" "k \<noteq> 0"
    for i j using d that by (simp add: keys_distinct_def)
  show ?thesis
  proof
    assume "es_map es k = Some v"
    then show "\<exists>j < length es. ht_key (es ! j) = k \<and> k \<noteq> 0 \<and> ht_value (es ! j) = v"
      by (auto simp: es_map_def find_Some_iff)
  next
    assume "\<exists>j < length es. ht_key (es ! j) = k \<and> k \<noteq> 0 \<and> ht_value (es ! j) = v"
    then obtain j where j: "j < length es" "ht_key (es ! j) = k" "k \<noteq> 0" "ht_value (es ! j) = v" by blast
    have "ht_key (es ! i) \<noteq> k" if "i < j" for i using one [of i j] j that by auto
    with j have "List.find (\<lambda>e. ht_key e = k \<and> k \<noteq> 0) es = Some (es ! j)"
      unfolding find_Some_iff by (intro exI [of _ j]) simp
    with j show "es_map es k = Some v" by (simp add: es_map_def)
  qed
qed

lemma es_map_None_iff: "k \<noteq> 0 \<Longrightarrow> es_map es k = None \<longleftrightarrow> k \<notin> set (ht_keys es)"
  by (auto simp: es_map_def find_None_iff)

lemma es_map_eqI:
  assumes "es_inv es" and "\<And>k v. k \<noteq> 0 \<Longrightarrow>
    (\<exists>j < length es. ht_key (es ! j) = k \<and> ht_value (es ! j) = v) \<longleftrightarrow> m k = Some v"
    and "m 0 = None"
  shows "es_map es = m"
proof
  fix k show "es_map es k = m k"
  proof (cases "k = 0")
    case True
    then show ?thesis using assms(3) by simp
  next
    case False
    have "\<And>v. es_map es k = Some v \<longleftrightarrow> m k = Some v"
      using es_map_Some_iff [OF assms(1), of k] assms(2) [OF False] False by auto
    then show ?thesis by (metis not_Some_eq)
  qed
qed

section \<open>The probe loops end at the slot of the invariant\<close>

lemma ht_advance_slot:
  assumes "0 < n" "unat cap = n"
  shows "ht_advance cap (slot n h d) = slot n h (Suc d)"
  using assms by (simp add: ht_advance_def slot_Suc)

lemma ht_get_loop_skip:
  assumes "0 < length es" "unat cap = length es"
    and "\<forall>d < e. \<not> stops (ht_keys es) k (slot (length es) h d)"
  shows "ht_get_loop es cap k (slot (length es) h 0) = ht_get_loop es cap k (slot (length es) h e)"
  using assms(3)
proof (induction e)
  case (Suc e)
  then have IH: "ht_get_loop es cap k (slot (length es) h 0) = ht_get_loop es cap k (slot (length es) h e)"
    and "\<not> stops (ht_keys es) k (slot (length es) h e)" by auto
  then show ?case using assms(1,2)
    by (subst IH, subst ht_get_loop.simps) (auto simp: stops_def nth_opt_def ht_advance_slot)
qed simp

lemma ht_set_loop_skip:
  assumes "0 < length es" "unat cap = length es"
    and "\<forall>d < e. \<not> stops (ht_keys es) k (slot (length es) h d)"
  shows "ht_set_loop es cap k (slot (length es) h 0) = ht_set_loop es cap k (slot (length es) h e)"
  using assms(3)
proof (induction e)
  case (Suc e)
  then have IH: "ht_set_loop es cap k (slot (length es) h 0) = ht_set_loop es cap k (slot (length es) h e)"
    and "\<not> stops (ht_keys es) k (slot (length es) h e)" by auto
  then show ?case using assms(1,2)
    by (subst IH, subst ht_set_loop.simps) (auto simp: stops_def nth_opt_def ht_advance_slot)
qed simp

section \<open>The operations implement the map\<close>

lemma ht_index_cap: "unat cap = n \<Longrightarrow> ht_index (of_nat n) k = ht_index cap k"
  by (drule sym) simp

lemma es_probe:
  assumes "es_inv es" "occupied (ht_keys es) < length es" "unat cap = length es"
  obtains e where "e < length es" "probe_at (ht_keys es) k (ht_index cap k) e"
  using htp.probe_stops [of "ht_keys es" k] assms by (auto simp: es_inv_def ht_index_cap)

lemma es_home:
  assumes "es_inv es" "unat cap = length es"
  shows "0 < length es" "slot (length es) (ht_index cap k) 0 = ht_index cap k"
proof -
  from assms(1) show n: "0 < length es" by (simp add: es_inv_def htp.probe_inv_def)
  have "ht_index cap k < length es" using ht_index_less [OF n, of k] assms(2) by (simp add: ht_index_cap)
  then show "slot (length es) (ht_index cap k) 0 = ht_index cap k" by simp
qed

lemma ht_get_loop_correct:
  assumes inv: "es_inv es" and free: "occupied (ht_keys es) < length es" and cap: "unat cap = length es"
  shows "ht_get_loop es cap k (ht_index cap k) = Some (case es_map es k of None \<Rightarrow> 0 | Some v \<Rightarrow> v)"
proof -
  obtain e where e: "probe_at (ht_keys es) k (ht_index cap k) e"
    using es_probe [OF inv free cap] by metis
  let ?j = "slot (length es) (ht_index cap k) e"
  note n = es_home(1) [OF inv cap] and h = es_home(2) [OF inv cap, of k]
  have j: "?j < length es" using n by simp
  have "ht_get_loop es cap k (ht_index cap k) = ht_get_loop es cap k ?j"
    using ht_get_loop_skip [OF n cap, of e k "ht_index cap k"] e h by (simp add: probe_at_def)
  also have "\<dots> = Some (if ht_key (es ! ?j) \<noteq> 0 then ht_value (es ! ?j) else 0)"
    using e j by (subst ht_get_loop.simps) (auto simp: probe_at_def stops_def nth_opt_def)
  also have "\<dots> = Some (case es_map es k of None \<Rightarrow> 0 | Some v \<Rightarrow> v)"
  proof (cases "ht_key (es ! ?j) = 0")
    case False
    with e j have "ht_key (es ! ?j) = k" "k \<noteq> 0" by (auto simp: probe_at_def stops_def)
    with j have "es_map es k = Some (ht_value (es ! ?j))" by (auto simp: es_map_Some_iff [OF inv])
    with False show ?thesis by simp
  next
    case True
    have "es_map es k = None"
    proof (cases "k = 0")
      case False
      with True e j inv have "k \<notin> set (ht_keys es)"
        using htp.probe_miss [of "ht_keys es" k e] by (simp add: es_inv_def ht_index_cap [OF cap])
      with False show ?thesis by (simp add: es_map_None_iff)
    qed simp
    with True show ?thesis by simp
  qed
  finally show ?thesis .
qed

lemma es_map_store:
  assumes inv: "es_inv es" and inv': "es_inv (es[j := \<lparr>ht_key = k, ht_value = v\<rparr>])"
    and j: "j < length es" and k: "k \<noteq> 0" and at: "ht_key (es ! j) = 0 \<or> ht_key (es ! j) = k"
  shows "es_map (es[j := \<lparr>ht_key = k, ht_value = v\<rparr>]) = (es_map es)(k \<mapsto> v)"
proof (rule es_map_eqI [OF inv'])
  let ?es = "es[j := \<lparr>ht_key = k, ht_value = v\<rparr>]"
  fix k' w assume k': "k' \<noteq> (0::u64)"
  show "(\<exists>i < length ?es. ht_key (?es ! i) = k' \<and> ht_value (?es ! i) = w) \<longleftrightarrow>
      ((es_map es)(k \<mapsto> v)) k' = Some w"
  proof (cases "k' = k")
    case True
    then show ?thesis using es_map_Some_iff [OF inv', of k w] k j
      es_map_Some_iff [OF inv', of k v] by (auto simp: nth_list_update)
  next
    case False
    have "ht_key (?es ! i) = k' \<and> ht_value (?es ! i) = w \<longleftrightarrow>
        ht_key (es ! i) = k' \<and> ht_value (es ! i) = w" for i
      using False k' at j by (cases "i = j") auto
    with False k' show ?thesis by (simp add: es_map_Some_iff [OF inv])
  qed
qed (use k in simp)

lemma ht_set_entry_correct:
  assumes inv: "es_inv es" and free: "occupied (ht_keys es) < length es" and cap: "unat cap = length es"
    and k: "k \<noteq> 0"
  shows "\<exists>es'. ht_set_entry es cap k v pl =
      Some (Done (k, es', if es_map es k = None then map_option (\<lambda>l. l + 1) pl else pl)) \<and>
    es_inv es' \<and> es_map es' = (es_map es)(k \<mapsto> v) \<and> length es' = length es \<and>
    occupied (ht_keys es') = occupied (ht_keys es) + (if es_map es k = None then 1 else 0)"
proof -
  obtain e where e: "probe_at (ht_keys es) k (ht_index cap k) e"
    using es_probe [OF inv free cap] by metis
  let ?j = "slot (length es) (ht_index cap k) e"
  note n = es_home(1) [OF inv cap] and h = es_home(2) [OF inv cap, of k]
  have j: "?j < length es" using n by simp
  have "ht_set_loop es cap k (ht_index cap k) = ht_set_loop es cap k ?j"
    using ht_set_loop_skip [OF n cap, of e k "ht_index cap k"] e h by (simp add: probe_at_def)
  also have "\<dots> = Some (?j, ht_key (es ! ?j) = k)"
    using e j k by (subst ht_set_loop.simps) (auto simp: probe_at_def stops_def nth_opt_def)
  finally have loop: "ht_set_loop es cap k (ht_index cap k) = Some (?j, ht_key (es ! ?j) = k)" .
  let ?new = "\<lparr>ht_key = k, ht_value = v\<rparr>"
  let ?es = "es[?j := ?new]"
  have keys: "ht_keys ?es = (ht_keys es)[?j := k]" by (simp add: map_update)
  have inv': "es_inv ?es"
    using htp.probe_inv_store [of "ht_keys es" k e] inv k e
    by (simp add: es_inv_def keys ht_index_cap [OF cap])
  have hit: "es_map es k = None \<longleftrightarrow> ht_key (es ! ?j) \<noteq> k"
  proof (cases "ht_key (es ! ?j) = k")
    case True
    then have "k \<in> set (ht_keys es)" using imageI [OF nth_mem [OF j], of ht_key] by simp
    with True k show ?thesis by (simp add: es_map_None_iff)
  next
    case False
    with e j have "ht_keys es ! ?j = 0" by (auto simp: probe_at_def stops_def)
    then have "k \<notin> set (ht_keys es)"
      using htp.probe_miss [of "ht_keys es" k e] inv k e by (simp add: es_inv_def ht_index_cap [OF cap])
    with False k show ?thesis by (simp add: es_map_None_iff)
  qed
  have same: "es[?j := (es ! ?j)\<lparr>ht_value := v\<rparr>] = ?es" if "ht_key (es ! ?j) = k"
    using that by (metis (full_types) ht_entry.surjective ht_entry.update_convs(2) old.unit.exhaust)
  have zero: "ht_keys es ! ?j = 0" if "ht_key (es ! ?j) \<noteq> k"
    using that e j by (auto simp: probe_at_def stops_def)
  have occ: "occupied (ht_keys ?es) = occupied (ht_keys es) + (if es_map es k = None then 1 else 0)"
  proof (cases "ht_key (es ! ?j) = k")
    case True
    then have "(ht_keys es)[?j := k] = ht_keys es" using j by (metis list_update_id nth_map)
    with True hit show ?thesis by (simp add: keys)
  next
    case False
    with zero hit j k show ?thesis by (simp add: keys occupied_update_free)
  qed
  have at: "ht_key (es ! ?j) = 0 \<or> ht_key (es ! ?j) = k"
    using e j by (auto simp: probe_at_def stops_def)
  show ?thesis
    using loop same k inv' occ hit es_map_store [OF inv inv' j k at]
    by (intro exI [of _ ?es]) (auto simp: ht_set_entry_def)
qed

lemma es_map_Cons:
  "es_map (e # es) k = (if ht_key e = k \<and> k \<noteq> 0 then Some (ht_value e) else es_map es k)"
  by (simp add: es_map_def)

lemma ht_rehash_correct:
  assumes "es_inv es" "unat cap = length es" "keys_distinct (ht_keys old)"
    and "\<And>k. k \<in> set (ht_keys old) \<Longrightarrow> es_map es k = None"
    and "occupied (ht_keys es) + occupied (ht_keys old) < length es"
  shows "\<exists>es'. ht_rehash old cap es = Some (Done es') \<and> es_inv es' \<and> length es' = length es \<and>
    es_map es' = (es_map es) ++ (es_map old) \<and>
    occupied (ht_keys es') = occupied (ht_keys es) + occupied (ht_keys old)"
  using assms
proof (induction old arbitrary: es)
  case Nil
  then show ?case by (auto simp: es_map_def map_add_def)
next
  case (Cons e old)
  show ?case
  proof (cases "ht_key e = 0")
    case True
    then have "es_map (e # old) = es_map old" by (auto simp: es_map_Cons)
    with True Cons.IH [of es] Cons.prems show ?thesis by (simp add: keys_distinct_Cons)
  next
    case False
    have free: "occupied (ht_keys es) < length es" using Cons.prems(5) by simp
    have fresh: "es_map es (ht_key e) = None" using Cons.prems(4) by simp
    obtain es1 where es1: "ht_set_entry es cap (ht_key e) (ht_value e) None = Some (Done (ht_key e, es1, None))"
      "es_inv es1" "es_map es1 = (es_map es)(ht_key e \<mapsto> ht_value e)" "length es1 = length es"
      "occupied (ht_keys es1) = occupied (ht_keys es) + 1"
      using ht_set_entry_correct [OF Cons.prems(1) free Cons.prems(2) False, of "ht_value e" None] fresh
      by (simp split: if_splits) blast
    have notin: "ht_key e \<notin> set (ht_keys old)" and d: "keys_distinct (ht_keys old)"
      using Cons.prems(3) False by (auto simp: keys_distinct_Cons)
    have "\<exists>es'. ht_rehash old cap es1 = Some (Done es') \<and> es_inv es' \<and> length es' = length es1 \<and>
        es_map es' = (es_map es1) ++ (es_map old) \<and>
        occupied (ht_keys es') = occupied (ht_keys es1) + occupied (ht_keys old)"
    proof (rule Cons.IH [OF es1(2) _ d])
      show "unat cap = length es1" using Cons.prems(2) es1(4) by simp
      show "es_map es1 k = None" if "k \<in> set (ht_keys old)" for k
      proof -
        from that notin have "k \<noteq> ht_key e" by metis
        with that Cons.prems(4) [of k] es1(3) show ?thesis by simp
      qed
      show "occupied (ht_keys es1) + occupied (ht_keys old) < length es1"
        using Cons.prems(5) es1(4,5) False by simp
    qed
    moreover have "(es_map es1) ++ (es_map old) = (es_map es) ++ (es_map (e # old))"
    proof
      fix k
      have "es_map old (ht_key e) = None" using notin False by (simp add: es_map_None_iff)
      then show "((es_map es1) ++ (es_map old)) k = ((es_map es) ++ (es_map (e # old))) k"
        using es1(3) False by (auto simp: map_add_def es_map_Cons split: option.splits)
    qed
    ultimately show ?thesis using False es1(1,4,5) by auto
  qed
qed

lemma es_inv_calloc: "0 < unat n \<Longrightarrow> es_inv (calloc_entries n)"
  using htp.probe_inv_replicate [of "unat n"] by (simp add: es_inv_def calloc_entries_def)

lemma length_calloc [simp]: "length (calloc_entries n) = unat n"
  by (simp add: calloc_entries_def)

lemma occupied_calloc [simp]: "occupied (ht_keys (calloc_entries n)) = 0"
  by (simp add: calloc_entries_def)

lemma es_map_calloc: "es_map (calloc_entries n) = Map.empty"
  by (auto simp: es_map_def calloc_entries_def find_None_iff fun_eq_iff)

lemma unat_double: "unat (c :: u64) < 2 ^ 63 \<Longrightarrow> unat (c * 2) = 2 * unat c"
  by (simp add: unat_word_ariths)

lemma ht_expand_correct:
  assumes inv: "ht_inv t" and room: "unat (capacity t) < 2 ^ 63"
  shows "\<exists>t'. ht_expand True t = Some (Done (True, t')) \<and> ht_inv t' \<and> ht_map t' = ht_map t \<and>
    capacity t' = capacity t * 2 \<and> ht_len t' = ht_len t"
proof -
  have cap2: "unat (capacity t * 2) = 2 * unat (capacity t)" by (rule unat_double [OF room])
  obtain m where m: "m < 64" "1 \<le> m" "unat (capacity t) = 2 ^ m" using inv by (auto simp: ht_inv_def)
  with room have "(2::nat) ^ m < 2 ^ 63" by simp
  then have m': "Suc m < 64" by (simp only: power_strict_increasing_iff)
  have pos: "0 < unat (capacity t)" using m by simp
  let ?new = "calloc_entries (capacity t * 2)"
  note D = ht_invD [OF inv]
  have new: "es_inv ?new" using pos cap2 by (intro es_inv_calloc) simp
  have dist: "keys_distinct (ht_keys (entries t))" using D(3) by (simp add: es_inv_def htp.probe_inv_def)
  obtain es where es: "ht_rehash (entries t) (capacity t * 2) ?new = Some (Done es)" "es_inv es"
    "length es = length ?new" "es_map es = (es_map ?new) ++ (es_map (entries t))"
    "occupied (ht_keys es) = occupied (ht_keys ?new) + occupied (ht_keys (entries t))"
    using ht_rehash_correct [OF new _ dist] D(2,4) cap2 by (auto simp: es_map_calloc)
  have "\<not> capacity t * 2 < capacity t" using cap2 by (simp add: word_less_nat_alt)
  with es(1) D(4) have "ht_expand True t =
      Some (Done (True, t\<lparr>entries := es, capacity := capacity t * 2\<rparr>))"
    by (simp add: ht_expand_def Let_def take_opt_def)
  moreover have "ht_inv (t\<lparr>entries := es, capacity := capacity t * 2\<rparr>)"
    using es inv m m' cap2 by (auto simp: ht_inv_def intro!: exI [of _ "Suc m"])
  ultimately show ?thesis using es(4) by (simp add: ht_map_def es_map_calloc)
qed

lemma ht_store_correct:
  assumes inv: "ht_inv t" and half: "2 * unat (ht_len t) < unat (capacity t)" and k: "k \<noteq> 0"
  shows "\<exists>t'. ht_store t k v = Some (Done (k, t')) \<and> ht_inv t' \<and> ht_map t' = (ht_map t)(k \<mapsto> v) \<and>
    capacity t' = capacity t"
proof -
  note D = ht_invD [OF inv]
  have len1: "unat (ht_len t + 1) = unat (ht_len t) + 1"
    using half by (intro unat_plus_one_less [of _ "capacity t"]) simp
  have even: "2 * Suc (unat (ht_len t)) \<le> unat (capacity t)" using D(6) half by (auto elim!: evenE)
  obtain es where "ht_set_entry (entries t) (capacity t) k v (Some (ht_len t)) =
      Some (Done (k, es, if es_map (entries t) k = None then Some (ht_len t + 1) else Some (ht_len t)))"
    "es_inv es" "es_map es = (es_map (entries t))(k \<mapsto> v)" "length es = length (entries t)"
    "occupied (ht_keys es) = occupied (ht_keys (entries t)) + (if es_map (entries t) k = None then 1 else 0)"
    using ht_set_entry_correct [OF D(3,2,4) k, of v "Some (ht_len t)"]
    by (auto split: if_splits)
  with inv half len1 even show ?thesis by (auto simp: ht_store_def ht_inv_def ht_map_def)
qed

text \<open>A lookup always ends, and answers the stored pointer, or NULL for a key that is not stored.\<close>

lemma ht_get_map:
  assumes "ht_inv t"
  shows "ht_get t k = Some (case ht_map t k of None \<Rightarrow> 0 | Some v \<Rightarrow> v)"
proof -
  show ?thesis using ht_get_loop_correct [OF ht_invD(3,2,4) [OF assms]]
    by (simp add: ht_get_def ht_map_def)
qed

text \<open>A table can take another binding as long as its capacity can double.\<close>

definition ht_room :: "ht \<Rightarrow> bool" where
  "ht_room t \<longleftrightarrow> unat (capacity t) < 2 ^ 63"

lemma ht_set_map:
  assumes inv: "ht_inv t" and room: "ht_room t" and k: "k \<noteq> 0" and v: "v \<noteq> 0"
  shows "\<exists>t'. ht_set True t k v = Some (Done (k, t')) \<and> ht_inv t' \<and> ht_map t' = (ht_map t)(k \<mapsto> v)"
proof (cases "capacity t div 2 \<le> ht_len t")
  case True
  obtain t1 where t1: "ht_expand True t = Some (Done (True, t1))" "ht_inv t1" "ht_map t1 = ht_map t"
    "capacity t1 = capacity t * 2" "ht_len t1 = ht_len t"
    using ht_expand_correct [OF inv] room by (auto simp: ht_room_def)
  have "2 * unat (ht_len t1) < unat (capacity t1)"
    using ht_invD [OF inv] t1(4,5) room unat_double [of "capacity t"] by (simp add: ht_room_def)
  from ht_store_correct [OF t1(2) this k, of v] obtain t' where
    "ht_store t1 k v = Some (Done (k, t'))" "ht_inv t'" "ht_map t' = (ht_map t1)(k \<mapsto> v)" by blast
  with True t1 k v show ?thesis by (simp add: ht_set_def)
next
  case False
  then have "unat (ht_len t) < unat (capacity t) div 2" by (simp add: word_le_nat_alt unat_div)
  then have "2 * unat (ht_len t) < unat (capacity t)" using ht_invD(6) [OF inv] by linarith
  from ht_store_correct [OF inv this k, of v] obtain t' where
    "ht_store t k v = Some (Done (k, t'))" "ht_inv t'" "ht_map t' = (ht_map t)(k \<mapsto> v)" by blast
  with False k v show ?thesis by (simp add: ht_set_def)
qed

lemma ht_create_inv:
  assumes "ht_create True True = Some t"
  shows "ht_inv t" "ht_map t = Map.empty"
proof -
  from assms have t: "t = \<lparr>entries = calloc_entries CAPACITY, capacity = CAPACITY, ht_len = 0\<rparr>"
    by (simp add: ht_create_def)
  have "es_inv (calloc_entries CAPACITY)" by (rule es_inv_calloc) (simp add: CAPACITY_def)
  moreover have "\<exists>m < 64. 1 \<le> m \<and> unat CAPACITY = 2 ^ m"
    by (intro exI [of _ 4]) (simp add: CAPACITY_def)
  ultimately show "ht_inv t" by (simp add: t ht_inv_def)
  show "ht_map t = Map.empty" by (simp add: t ht_map_def es_map_calloc)
qed

section \<open>The interface of a pointer table\<close>

text \<open>
  What a client of the table relies on: the map a table stands for, and how a lookup and an
  insertion act on it. 0 is NULL, as a key, as a value and as the answer of a failing lookup.
\<close>

locale pointer_table =
  fixes get :: "'t \<Rightarrow> u64 \<Rightarrow> u64 option"
    and set :: "'t \<Rightarrow> u64 \<Rightarrow> u64 \<Rightarrow> (u64 \<times> 't) c_outcome option"
    and tmap :: "'t \<Rightarrow> u64 \<Rightarrow> u64 option"
    and inv :: "'t \<Rightarrow> bool"
    and room :: "'t \<Rightarrow> bool"
  assumes get_spec: "inv t \<Longrightarrow> get t k = Some (case tmap t k of None \<Rightarrow> 0 | Some v \<Rightarrow> v)"
    and set_spec: "inv t \<Longrightarrow> room t \<Longrightarrow> k \<noteq> 0 \<Longrightarrow> v \<noteq> 0 \<Longrightarrow>
      \<exists>t'. set t k v = Some (Done (k, t')) \<and> inv t' \<and> tmap t' = (tmap t)(k \<mapsto> v)"
begin

lemma get_after_set:
  assumes "inv t" "room t" "k \<noteq> 0" "v \<noteq> 0"
  shows "\<exists>t'. set t k v = Some (Done (k, t')) \<and> inv t' \<and> get t' k = Some v \<and>
    (\<forall>k'. k' \<noteq> k \<longrightarrow> get t' k' = get t k')"
proof -
  from set_spec [OF assms] obtain t' where
    t': "set t k v = Some (Done (k, t'))" "inv t'" "tmap t' = (tmap t)(k \<mapsto> v)" by blast
  then have "get t' k' = Some (case ((tmap t)(k \<mapsto> v)) k' of None \<Rightarrow> 0 | Some v \<Rightarrow> v)" for k'
    using get_spec [of t' k'] by simp
  with t' get_spec [OF assms(1)] show ?thesis by auto
qed

end

interpretation htab: pointer_table ht_get "ht_set True" ht_map ht_inv ht_room
  by unfold_locales (fact ht_get_map, fact ht_set_map)

text \<open>C24: after \<open>ht_set\<close> of a non-NULL binding, \<open>ht_get\<close> of that key answers the value and every
  other lookup answers what it did before; the probe loops of both end, and the table invariant
  (half empty, distinct keys, unbroken probe chains, the length counter right) is kept.\<close>

theorem ht_get_after_ht_set:
  assumes "ht_inv t" "ht_room t" "k \<noteq> 0" "v \<noteq> 0"
  shows "\<exists>t'. ht_set True t k v = Some (Done (k, t')) \<and> ht_inv t' \<and> ht_get t' k = Some v \<and>
    (\<forall>k'. k' \<noteq> k \<longrightarrow> ht_get t' k' = ht_get t k')"
  by (rule htab.get_after_set [OF assms])

definition empty_ht :: ht where
  "empty_ht = \<lparr>entries = calloc_entries CAPACITY, capacity = CAPACITY, ht_len = 0\<rparr>"

lemma empty_ht_inv: "ht_inv empty_ht" "ht_map empty_ht = Map.empty" "ht_room empty_ht"
proof -
  have "ht_create True True = Some empty_ht" by (simp add: ht_create_def empty_ht_def)
  then show "ht_inv empty_ht" "ht_map empty_ht = Map.empty" by (rule ht_create_inv)+
  show "ht_room empty_ht" by (simp add: ht_room_def empty_ht_def CAPACITY_def)
qed

theorem ht_get_after_ht_set_witness:
  "\<exists>t'. ht_set True empty_ht 4096 7 = Some (Done (4096, t')) \<and> ht_inv t' \<and> ht_get t' 4096 = Some 7 \<and>
    (\<forall>k'. k' \<noteq> 4096 \<longrightarrow> ht_get t' k' = ht_get empty_ht k')"
  by (rule ht_get_after_ht_set) (simp_all add: empty_ht_inv)

text \<open>A table with two keys that hash to the same slot.\<close>

definition two_keys :: ht where
  "two_keys = \<lparr>entries = \<lparr>ht_key = 4096, ht_value = 7\<rparr> # \<lparr>ht_key = 8192, ht_value = 9\<rparr> # calloc_entries 14,
     capacity = 16, ht_len = 2\<rparr>"

lemma two_keys_ok: "ht_inv two_keys" "ht_map two_keys = [4096 \<mapsto> 7, 8192 \<mapsto> 9]" "ht_room two_keys"
proof -
  let ?t = "\<lparr>entries = \<lparr>ht_key = 4096, ht_value = 7\<rparr> # calloc_entries 15, capacity = 16, ht_len = 1\<rparr>"
  have c: "calloc_entries 16 = \<lparr>ht_key = 0, ht_value = 0\<rparr> # calloc_entries 15"
    "calloc_entries 15 = \<lparr>ht_key = 0, ht_value = 0\<rparr> # calloc_entries 14"
    using replicate_Suc [of 15] replicate_Suc [of 14] by (simp_all add: calloc_entries_def)
  have i: "ht_index 16 4096 = 0" "ht_index 16 8192 = 0" by code_simp+
  have 1: "ht_set True empty_ht 4096 7 = Some (Done (4096, ?t))"
    by (simp add: ht_set_def ht_store_def empty_ht_def CAPACITY_def ht_set_entry_def c(1) i ht_set_loop.simps)
  have 2: "ht_set True ?t 8192 9 = Some (Done (8192, two_keys))"
    by (simp add: two_keys_def ht_set_def ht_store_def ht_set_entry_def c(2) i ht_set_loop.simps ht_advance_def word_le_nat_alt)
  have 3: "ht_inv ?t" "ht_map ?t = [4096 \<mapsto> 7]"
    using ht_set_map [OF empty_ht_inv(1,3), of 4096 7] 1 by (simp_all add: empty_ht_inv)
  have "ht_room ?t" by (simp add: ht_room_def)
  then show "ht_inv two_keys" "ht_map two_keys = [4096 \<mapsto> 7, 8192 \<mapsto> 9]"
    using ht_set_map [OF 3(1), of 8192 9] 2 3(2) by simp_all
  show "ht_room two_keys" by (simp add: ht_room_def two_keys_def)
qed

text \<open>C25: doubling the table re-inserts every binding: the expanded table has twice the capacity,
  satisfies the invariant and stands for the same map.\<close>

theorem ht_expand_preserves:
  assumes "ht_inv t" "ht_room t"
  shows "\<exists>t'. ht_expand True t = Some (Done (True, t')) \<and> ht_inv t' \<and> ht_map t' = ht_map t \<and>
    unat (capacity t') = 2 * unat (capacity t) \<and> ht_length t' = ht_length t"
  using ht_expand_correct [OF assms(1)] assms(2) unat_double [of "capacity t"]
  by (auto simp: ht_room_def ht_length_def)

theorem ht_expand_preserves_witness:
  "\<exists>t'. ht_expand True two_keys = Some (Done (True, t')) \<and> ht_inv t' \<and> ht_map t' = [4096 \<mapsto> 7, 8192 \<mapsto> 9] \<and>
    unat (capacity t') = 32 \<and> ht_length t' = 2"
  using ht_expand_preserves [OF two_keys_ok(1,3)] by (simp add: two_keys_ok(2)) (simp add: two_keys_def ht_length_def)

section \<open>What the hash function does\<close>

lemma hash_key_inverse: "hash_key k * 7063896084250361857 = k"
proof -
  have "(1 - 2 ^ 18 - 2 ^ 51 + 2 ^ 54 - 2 ^ 57 + 2 ^ 61 + 2 ^ 63) * 7063896084250361857 = (1 :: u64)"
    by simp
  then show ?thesis by (simp only: hash_key_multiplier mult.assoc mult_1_right)
qed

lemma hash_key_split:
  "hash_key k = k + push_bit 18 (k * (- 1 - 2 ^ 33 + 2 ^ 36 - 2 ^ 39 + 2 ^ 43 + 2 ^ 45))"
  by (simp add: hash_key_multiplier push_bit_eq_mult algebra_simps)

text \<open>the hash is the multiplication by one odd constant, so it is injective on addresses; but
  every summand it adds is shifted by 18 bits or more, so for a table of at most \<open>2 ^ 18\<close> slots the
  home slot of an address is just its low bits.\<close>

theorem hash_key_low_bits:
  "inj hash_key \<and> (m \<le> 18 \<longrightarrow> ht_index (2 ^ m) k = unat k mod 2 ^ m)"
proof (intro conjI impI)
  show "inj hash_key" by (rule inj_on_inverseI [where g = "\<lambda>h. h * 7063896084250361857"]) (rule hash_key_inverse)
next
  assume m: "m \<le> 18"
  have dvd64: "(2::nat) ^ m dvd 2 ^ 64" and dvd18: "(2::nat) ^ m dvd 2 ^ 18"
    using m by (simp_all only: power_le_dvd [OF dvd_refl] le_imp_power_dvd)
  have "unat (push_bit 18 x :: u64) mod 2 ^ m = 0" for x
  proof -
    have "unat (push_bit 18 x) mod 2 ^ m = unat x * 2 ^ 18 mod 2 ^ 64 mod 2 ^ m"
      by (simp add: push_bit_eq_mult unat_word_ariths)
    also have "\<dots> = unat x * 2 ^ 18 mod 2 ^ m" using dvd64 by (rule mod_mod_cancel)
    also have "\<dots> = 0" using dvd18 by (metis dvd_mult mod_eq_0_iff_dvd)
    finally show ?thesis .
  qed
  moreover obtain x where "hash_key k = k + push_bit 18 x"
    by (rule that) (rule hash_key_split)
  ultimately obtain b where hk: "hash_key k = k + b" and b: "unat b mod 2 ^ m = 0" by metis
  have "unat (hash_key k) mod 2 ^ m = (unat k + unat b) mod 2 ^ 64 mod 2 ^ m"
    by (simp add: hk unat_word_ariths)
  also have "\<dots> = (unat k + unat b) mod 2 ^ m" using dvd64 by (simp add: mod_mod_cancel)
  also have "\<dots> = unat k mod 2 ^ m" using b by (metis mod_add_right_eq add.right_neutral)
  finally have "unat (hash_key k) mod 2 ^ m = unat k mod 2 ^ m" .
  moreover have "hash_key k AND (2 ^ m - 1) = take_bit m (hash_key k)"
    by (simp add: take_bit_eq_mask mask_eq_exp_minus_1)
  moreover have "unat (take_bit m (hash_key k)) = unat (hash_key k) mod 2 ^ m"
    by (simp only: unsigned_take_bit_eq) (simp only: take_bit_eq_mod)
  ultimately show "ht_index (2 ^ m) k = unat k mod 2 ^ m" by (simp add: ht_index_def)
qed

theorem hash_key_low_bits_witness: "inj hash_key \<and> ht_index (2 ^ 4) 4096 = 0"
  using hash_key_low_bits [of 4 4096] by simp

end
