(* ===== verification/Profile.thy ===== *)
theory Profile
  imports Stacks Hash_Table
begin

text \<open>
  The opcode profile that the \<open>DEBUG\<close> build of \<open>interp.c\<close> keeps: a global counter per opcode, the
  stack of active functions, and a table from function addresses to counter arrays of their own.
  A counter array is a malloc'ed object: the table stores its pointer, and \<open>opcount_arrays\<close> holds
  the arrays, the one with pointer \<open>p\<close> at index \<open>p - 1\<close>.
\<close>

section \<open>State and operations\<close>

text \<open>The number of instructions of \<open>enum instructions\<close>.\<close>

definition FIRST_UNIMPLEMENTED_OP :: nat where
  "FIRST_UNIMPLEMENTED_OP = 153"

record profile =
  op_counts :: "u64 list"
  total_op_count :: u64
  local_func_stack :: function_stack_t
  func_hash_table :: ht
  opcount_arrays :: "u64 list list"

definition bump :: "u64 list \<Rightarrow> nat \<Rightarrow> u64 list option" where
  "bump xs i = do { n \<leftarrow> nth_opt xs i; upd_opt xs i (n + 1) }"

definition ht_curr_inc_opcount :: "profile \<Rightarrow> nat \<Rightarrow> profile c_outcome option" where
  "ht_curr_inc_opcount p opcode = do {
     curr_func \<leftarrow> peek (local_func_stack p);
     if curr_func = 0 then Some Assert_failure
     else do {
       a \<leftarrow> ht_get (func_hash_table p) curr_func;
       if a = 0 then Some Assert_failure
       else if opcode < FIRST_UNIMPLEMENTED_OP then do {
         counts \<leftarrow> nth_opt (opcount_arrays p) (unat (a - 1));
         counts' \<leftarrow> bump counts opcode;
         Some (Done (p\<lparr>opcount_arrays := (opcount_arrays p)[unat (a - 1) := counts']\<rparr>)) }
       else Some (Done p) } }"

definition array_alloc_op_counts :: "bool \<Rightarrow> profile \<Rightarrow> profile c_outcome option" where
  "array_alloc_op_counts malloc_ok p = do {
     curr_func \<leftarrow> peek (local_func_stack p);
     a \<leftarrow> ht_get (func_hash_table p) curr_func;
     if a \<noteq> 0 then Some (Done p)
     else if curr_func = 0 then Some Assert_failure
     else if \<not> malloc_ok then Some (Done p)
     else do {
       r \<leftarrow> ht_set malloc_ok (func_hash_table p) curr_func (of_nat (Suc (length (opcount_arrays p))));
       case r of
         Done (_, t) \<Rightarrow> Some (Done (p\<lparr>func_hash_table := t,
           opcount_arrays := opcount_arrays p @ [replicate FIRST_UNIMPLEMENTED_OP 0]\<rparr>))
       | Exit_failure \<Rightarrow> Some Exit_failure | Assert_failure \<Rightarrow> Some Assert_failure } }"

text \<open>What \<open>caml_interprete\<close> sets up: zeroed counters, a stack of 1024 functions, an empty table.\<close>

definition profile_init :: "function_stack_t \<Rightarrow> ht \<Rightarrow> profile" where
  "profile_init fs t = \<lparr>op_counts = replicate FIRST_UNIMPLEMENTED_OP 0, total_op_count = 0,
     local_func_stack = fs, func_hash_table = t, opcount_arrays = []\<rparr>"

text \<open>The counting done before each dispatch.\<close>

definition profile_count :: "profile \<Rightarrow> u32 \<Rightarrow> profile c_outcome option" where
  "profile_count p opcode =
     (if sint opcode < int FIRST_UNIMPLEMENTED_OP then do {
        guard (0 \<le> sint opcode);
        counts \<leftarrow> bump (op_counts p) (nat (sint opcode));
        let p' = p\<lparr>op_counts := counts, total_op_count := total_op_count p + 1\<rparr> in
          if \<not> isEmpty (local_func_stack p') then ht_curr_inc_opcount p' (nat (sint opcode))
          else Some (Done p') }
      else Some (Done p))"

text \<open>The bookkeeping of the APPLY family and of RETURN.\<close>

definition profile_call :: "bool \<Rightarrow> profile \<Rightarrow> code_t \<Rightarrow> profile c_outcome option" where
  "profile_call malloc_ok p pc = do {
     (_, fs) \<leftarrow> func_stack_push (local_func_stack p) pc;
     array_alloc_op_counts malloc_ok (p\<lparr>local_func_stack := fs\<rparr>) }"

definition profile_return :: "profile \<Rightarrow> profile option" where
  "profile_return p = do {
     (_, fs) \<leftarrow> func_stack_pop (local_func_stack p);
     Some (p\<lparr>local_func_stack := fs\<rparr>) }"

text \<open>The report STOP prints: one row per table slot, the counters of the function or "empty".\<close>

datatype report_row = Func_row u64 "u64 list" | Empty_row nat

definition report_slot :: "profile \<Rightarrow> nat \<Rightarrow> report_row option" where
  "report_slot p i = do {
     e \<leftarrow> nth_opt (entries (func_hash_table p)) i;
     if ht_key e \<noteq> 0 then do {
       counts \<leftarrow> nth_opt (opcount_arrays p) (unat (ht_value e - 1));
       guard (FIRST_UNIMPLEMENTED_OP \<le> length counts);
       Some (Func_row (ht_key e) (take FIRST_UNIMPLEMENTED_OP counts)) }
     else Some (Empty_row i) }"

fun report_slots :: "profile \<Rightarrow> nat list \<Rightarrow> report_row list option" where
  "report_slots p [] = Some []"
| "report_slots p (i # is) = do {
     r \<leftarrow> report_slot p i; rs \<leftarrow> report_slots p is; Some (r # rs) }"

definition stop_report :: "profile \<Rightarrow> (u64 \<times> report_row list \<times> u64 \<times> dump_line list) option" where
  "stop_report p = do {
     rows \<leftarrow> report_slots p [0..<unat (capacity (func_hash_table p))];
     d \<leftarrow> dump_func_stack (local_func_stack p);
     Some (total_op_count p, rows, ht_length (func_hash_table p), d) }"

section \<open>The invariant of the profile\<close>

text \<open>
  Every active function has a counter array of its own: the functions on the stack are mapped,
  the mapped pointers are array pointers, different functions have different arrays, and the
  arrays have one cell per opcode.
\<close>

definition profile_inv :: "profile \<Rightarrow> bool" where
  "profile_inv p \<longleftrightarrow> fs_invar (local_func_stack p) \<and> ht_inv (func_hash_table p) \<and>
     length (op_counts p) = FIRST_UNIMPLEMENTED_OP \<and>
     (\<forall>xs \<in> set (opcount_arrays p). length xs = FIRST_UNIMPLEMENTED_OP) \<and>
     (\<forall>f \<in> set (fs_elems (local_func_stack p)). f \<noteq> 0 \<and> ht_map (func_hash_table p) f \<noteq> None) \<and>
     (\<forall>f a. ht_map (func_hash_table p) f = Some a \<longrightarrow>
        1 \<le> unat a \<and> unat a \<le> length (opcount_arrays p)) \<and>
     (\<forall>f g a. ht_map (func_hash_table p) f = Some a \<longrightarrow> ht_map (func_hash_table p) g = Some a \<longrightarrow> f = g)"

definition calls_of :: "profile \<Rightarrow> code_t list" where
  "calls_of p = fs_elems (local_func_stack p)"

definition counts_of :: "profile \<Rightarrow> code_t \<Rightarrow> u64 list option" where
  "counts_of p f = map_option (\<lambda>a. opcount_arrays p ! (unat a - 1)) (ht_map (func_hash_table p) f)"

lemma bump_ok: "i < length xs \<Longrightarrow> bump xs i = Some (xs[i := xs ! i + 1])"
  by (simp add: bump_def nth_opt_def upd_opt_def)

lemma peek_elems:
  assumes "fs_invar st" "fs_elems st = f # fs"
  shows "peek st = Some f"
proof -
  from func_stack_pop_ok [OF assms] obtain st' where "func_stack_pop st = Some (f, st')" by blast
  moreover have "\<not> isEmpty st" using fs_empty [OF assms(1)] assms(2) by simp
  ultimately show ?thesis by (auto simp: func_stack_pop_def peek_def bind_Some_iff)
qed

lemma inc_opcount_active:
  assumes inv: "profile_inv p" and act: "calls_of p = f # fs" and op: "opcode < FIRST_UNIMPLEMENTED_OP"
    and a: "ht_map (func_hash_table p) f = Some a"
  shows "ht_curr_inc_opcount p opcode = Some (Done (p\<lparr>opcount_arrays :=
    (opcount_arrays p)[unat a - 1 := (opcount_arrays p ! (unat a - 1))
      [opcode := opcount_arrays p ! (unat a - 1) ! opcode + 1]]\<rparr>))"
proof -
  from inv act have "peek (local_func_stack p) = Some f" "f \<noteq> 0"
    by (auto simp: profile_inv_def calls_of_def intro: peek_elems)
  moreover have "ht_get (func_hash_table p) f = Some a" "1 \<le> unat a" "unat a \<le> length (opcount_arrays p)"
    using inv a ht_get_map [of "func_hash_table p" f] by (auto simp: profile_inv_def)
  moreover have nz: "a \<noteq> 0" using \<open>1 \<le> unat a\<close> by auto
  moreover have "unat (a - 1) = unat a - 1" using nz by (rule unat_minus_one_word)
  moreover have "length (opcount_arrays p ! (unat a - 1)) = FIRST_UNIMPLEMENTED_OP"
    using inv calculation by (simp add: profile_inv_def)
  ultimately show ?thesis using op
    by (simp add: ht_curr_inc_opcount_def nth_opt_def bump_ok)
qed

lemma profile_inv_arrays:
  assumes "profile_inv p" and "\<forall>xs \<in> set arrs. length xs = FIRST_UNIMPLEMENTED_OP"
    and "length arrs = length (opcount_arrays p)"
  shows "profile_inv (p\<lparr>opcount_arrays := arrs\<rparr>)"
  using assms by (simp add: profile_inv_def)

lemma counts_of_update:
  assumes inv: "profile_inv p" and a: "ht_map (func_hash_table p) f = Some a"
  shows "counts_of (p\<lparr>opcount_arrays := (opcount_arrays p)[unat a - 1 := c]\<rparr>) =
    (counts_of p)(f \<mapsto> c)"
proof
  fix g
  have bound: "1 \<le> unat x \<and> unat x \<le> length (opcount_arrays p)" if "ht_map (func_hash_table p) h = Some x"
    for h x using inv that by (auto simp: profile_inv_def)
  have "unat b - 1 \<noteq> unat a - 1" if "g \<noteq> f" "ht_map (func_hash_table p) g = Some b" for b
  proof
    assume "unat b - 1 = unat a - 1"
    with bound [OF a] bound [OF that(2)] have "unat a = unat b" by linarith
    then have "a = b" by (simp add: word_unat_eq_iff)
    with inv a that show False unfolding profile_inv_def by blast
  qed
  with a bound [OF a] show "counts_of (p\<lparr>opcount_arrays := (opcount_arrays p)[unat a - 1 := c]\<rparr>) g =
    ((counts_of p)(f \<mapsto> c)) g"
    by (cases "ht_map (func_hash_table p) g") (auto simp: counts_of_def)
qed

lemma profile_count_idle:
  assumes "profile_inv p" "0 \<le> sint opcode" "sint opcode < int FIRST_UNIMPLEMENTED_OP" "calls_of p = []"
  shows "profile_count p opcode = Some (Done (p\<lparr>op_counts := (op_counts p)[nat (sint opcode) :=
    op_counts p ! nat (sint opcode) + 1], total_op_count := total_op_count p + 1\<rparr>))"
  using assms fs_empty [of "local_func_stack p"]
  by (auto simp: profile_count_def profile_inv_def calls_of_def bump_ok nat_less_iff Let_def)

lemma profile_count_active:
  assumes inv: "profile_inv p" and op: "0 \<le> sint opcode" "sint opcode < int FIRST_UNIMPLEMENTED_OP"
    and act: "calls_of p = f # fs"
  shows "\<exists>p'. profile_count p opcode = Some (Done p') \<and> profile_inv p' \<and> calls_of p' = calls_of p \<and>
    op_counts p' = (op_counts p)[nat (sint opcode) := op_counts p ! nat (sint opcode) + 1] \<and>
    total_op_count p' = total_op_count p + 1 \<and>
    (\<exists>c. counts_of p f = Some c \<and>
       counts_of p' = (counts_of p)(f \<mapsto> c[nat (sint opcode) := c ! nat (sint opcode) + 1]))"
proof -
  let ?n = "nat (sint opcode)"
  let ?p = "p\<lparr>op_counts := (op_counts p)[?n := op_counts p ! ?n + 1], total_op_count := total_op_count p + 1\<rparr>"
  have n: "?n < FIRST_UNIMPLEMENTED_OP" using op by (simp add: nat_less_iff)
  have inv1: "profile_inv ?p" using inv by (simp add: profile_inv_def)
  have act1: "calls_of ?p = f # fs" using act by (simp add: calls_of_def)
  obtain a where a: "ht_map (func_hash_table ?p) f = Some a"
    using inv1 act1 by (auto simp: profile_inv_def calls_of_def)
  let ?c = "opcount_arrays ?p ! (unat a - 1)"
  let ?q = "?p\<lparr>opcount_arrays := (opcount_arrays ?p)[unat a - 1 := ?c[?n := ?c ! ?n + 1]]\<rparr>"
  have "\<not> isEmpty (local_func_stack p)"
    using inv act fs_empty [of "local_func_stack p"] by (simp add: profile_inv_def calls_of_def)
  then have run: "profile_count p opcode = Some (Done ?q)"
    using op n inv inc_opcount_active [OF inv1 act1 n a]
    by (simp add: profile_count_def bump_ok profile_inv_def Let_def)
  have len: "unat a - 1 < length (opcount_arrays p)" using inv a by (fastforce simp: profile_inv_def)
  then have "length ?c = FIRST_UNIMPLEMENTED_OP" using inv by (simp add: profile_inv_def)
  then have "profile_inv ?q" using inv1
    by (intro profile_inv_arrays) (auto simp: profile_inv_def dest!: set_update_subset_insert [THEN subsetD])
  moreover have "counts_of ?p = counts_of p" "calls_of ?q = calls_of p"
    by (auto simp: counts_of_def calls_of_def fun_eq_iff)
  moreover have "counts_of ?p f = Some ?c" using a by (simp add: counts_of_def)
  ultimately show ?thesis using run counts_of_update [OF inv1 a] by auto
qed

lemma profile_call_pushes:
  assumes inv: "profile_inv p" and pc: "pc \<noteq> 0" and depth: "length (calls_of p) < fs_cap (local_func_stack p)"
    and room: "ht_room (func_hash_table p)" and arrs: "Suc (length (opcount_arrays p)) < 2 ^ 64"
  shows "\<exists>p'. profile_call True p pc = Some (Done p') \<and> profile_inv p' \<and> calls_of p' = pc # calls_of p \<and>
    counts_of p' = (counts_of p)(pc \<mapsto>
      (case counts_of p pc of None \<Rightarrow> replicate FIRST_UNIMPLEMENTED_OP 0 | Some c \<Rightarrow> c)) \<and>
    op_counts p' = op_counts p \<and> total_op_count p' = total_op_count p"
proof -
  obtain fs where fs: "func_stack_push (local_func_stack p) pc = Some (0, fs)" "fs_invar fs"
    "fs_elems fs = pc # calls_of p"
    using func_stack_push_ok [of "local_func_stack p" pc] inv depth
    by (auto simp: profile_inv_def calls_of_def)
  let ?p = "p\<lparr>local_func_stack := fs\<rparr>"
  have pk: "peek fs = Some pc" using fs(2,3) by (rule peek_elems)
  have htinv: "ht_inv (func_hash_table p)" using inv by (simp add: profile_inv_def)
  show ?thesis
  proof (cases "ht_map (func_hash_table p) pc")
    case (Some a)
    then have "a \<noteq> 0" using inv by (fastforce simp: profile_inv_def)
    with Some fs pk have "profile_call True p pc = Some (Done ?p)"
      by (simp add: profile_call_def array_alloc_op_counts_def ht_get_map [OF htinv])
    moreover have "profile_inv ?p" using inv fs Some pc by (auto simp: profile_inv_def calls_of_def)
    ultimately show ?thesis using fs Some by (auto simp: calls_of_def counts_of_def fun_eq_iff)
  next
    case None
    define a :: u64 where "a = of_nat (Suc (length (opcount_arrays p)))"
    have ua: "unat a = Suc (length (opcount_arrays p))"
      using arrs unfolding a_def by (simp only: unat_of_nat) simp
    then have "a \<noteq> 0" by auto
    then obtain t where t: "ht_set True (func_hash_table p) pc a = Some (Done (pc, t))" "ht_inv t"
      "ht_map t = (ht_map (func_hash_table p))(pc \<mapsto> a)"
      using ht_set_map [OF htinv room pc] by blast
    let ?q = "?p\<lparr>func_hash_table := t, opcount_arrays := opcount_arrays p @ [replicate FIRST_UNIMPLEMENTED_OP 0]\<rparr>"
    have run: "profile_call True p pc = Some (Done ?q)"
      using None fs pk pc t(1)
      by (simp add: profile_call_def array_alloc_op_counts_def ht_get_map [OF htinv] a_def [symmetric]
          del: of_nat_Suc)
    have old: "unat x \<le> length (opcount_arrays p) \<and> 1 \<le> unat x" if "ht_map (func_hash_table p) f = Some x" for f x
      using inv that by (simp add: profile_inv_def)
    have new: "ht_map (func_hash_table p) f \<noteq> Some a" for f using old [of f a] ua by auto
    have "profile_inv ?q"
      unfolding profile_inv_def
    proof (intro conjI allI ballI impI)
      fix f g x assume "ht_map (func_hash_table ?q) f = Some x" "ht_map (func_hash_table ?q) g = Some x"
      then show "f = g" using inv t(3) new by (auto simp: profile_inv_def split: if_splits)
    qed (use inv fs t pc ua old in \<open>auto simp: profile_inv_def calls_of_def le_SucI split: if_splits\<close>)
    moreover have "counts_of ?q = (counts_of p)(pc \<mapsto> replicate FIRST_UNIMPLEMENTED_OP 0)"
    proof
      fix f show "counts_of ?q f = ((counts_of p)(pc \<mapsto> replicate FIRST_UNIMPLEMENTED_OP 0)) f"
      proof (cases "f = pc")
        case True
        then show ?thesis using t(3) ua by (simp add: counts_of_def nth_append)
      next
        case False
        then show ?thesis using t(3) old [of f]
          by (cases "ht_map (func_hash_table p) f") (auto simp: counts_of_def nth_append)
      qed
    qed
    ultimately show ?thesis using run fs None by (auto simp: calls_of_def counts_of_def)
  qed
qed

lemma profile_return_pops:
  assumes "profile_inv p" "calls_of p = f # fs"
  shows "\<exists>p'. profile_return p = Some p' \<and> profile_inv p' \<and> calls_of p' = fs \<and> counts_of p' = counts_of p"
proof -
  obtain st where "func_stack_pop (local_func_stack p) = Some (f, st)" "fs_invar st" "fs_elems st = fs"
    using func_stack_pop_ok [of "local_func_stack p" f fs] assms by (auto simp: profile_inv_def calls_of_def)
  with assms show ?thesis
    by (auto simp: profile_return_def profile_inv_def calls_of_def counts_of_def fun_eq_iff)
qed

end
