(* ===== verification/Vm_State.thy ===== *)
theory Vm_State
  imports Values Profile
begin

text \<open>
  The state of the bytecode machine. \<open>runtime\<close> is what outlives a call of \<open>caml_interprete\<close> and
  what C primitives can see: the OCaml heap, the fiber stacks, the fields of \<open>Caml_state\<close>, the
  code. \<open>vm\<close> adds the interpreter's local variables (its registers and its profile).

  A fiber stack grows downwards from \<open>Stack_high\<close>. The model keeps the words from the stack
  pointer up to \<open>Stack_high\<close> as a list, \<open>sp[i]\<close> being element \<open>i\<close>; \<open>Stack_high - sp\<close> is its length.
  The words below the stack pointer are dead and are not represented.

  A code pointer is an index into \<open>code\<close>, the concatenation of the loaded code fragments.
\<close>

section \<open>Runtime state\<close>

record stack_info =
  stk_live :: bool \<comment> \<open>allocated, not freed\<close>
  stk_addr :: u64 \<comment> \<open>address of the \<open>struct stack_info\<close>\<close>
  stk_wosize :: nat \<comment> \<open>\<open>Stack_high - Stack_base\<close>\<close>
  stk_sp :: "mlvalue list" \<comment> \<open>the saved stack pointer: the words it leaves live\<close>
  stk_bucket :: "nat option" \<comment> \<open>\<open>size_bucket\<close>\<close>
  handle_value :: mlvalue
  handle_exn :: mlvalue
  handle_effect :: mlvalue
  stk_parent :: "nat option"

record runtime =
  heap :: heap
  stacks :: "stack_info list"
  stack_cache :: "nat list list"
  current_stack :: nat
  trap_sp_off :: int
  external_raise :: "nat option"
  backtrace_active :: bool
  caml_global_data :: mlvalue
  raise_unhandled :: mlvalue
  caml_max_stack_size :: u64
  caml_fiber_wsz :: nat
  code :: "u32 list"
  code_base :: u64
  caml_event_count :: u64
  event_points_table :: "(int \<times> u32) list"

record vm = runtime +
  pc :: int
  sp :: "mlvalue list"
  accu :: mlvalue
  env :: mlvalue
  extra_args :: u64
  initial_external_raise :: "nat option"
  initial_stack_words :: nat
  initial_trap_sp_off :: int
  exception_ctx :: nat
  prof :: profile

definition rt :: "vm \<Rightarrow> runtime" where
  "rt s = runtime.truncate s"

definition put_rt :: "vm \<Rightarrow> runtime \<Rightarrow> vm" where
  "put_rt s r = runtime.extend r (runtime.more s)"

text \<open>
  How a C function that may raise ends: it returns a value, it raises an OCaml exception (a
  \<open>siglongjmp\<close> to the innermost \<open>caml_interprete\<close>), or the process exits.
\<close>

datatype 'r c_result = Returned mlvalue 'r | Raised mlvalue 'r | Aborted string

text \<open>
  What the interpreter takes from its surroundings: the linked table of C primitives, the pending
  signals and collector interrupts and what serving them does, and whether the allocators find
  memory. \<open>alloc_for_stack\<close> answers the address of a fresh stack or NULL.
\<close>

record hooks =
  primitive :: "nat \<Rightarrow> mlvalue list \<Rightarrow> runtime \<Rightarrow> runtime c_result option"
  something_pending :: "runtime \<Rightarrow> bool"
  gc_interrupt :: "nat \<Rightarrow> runtime \<Rightarrow> bool"
  process_pending_actions :: "runtime \<Rightarrow> runtime c_result option"
  signals_before_raise :: "mlvalue \<Rightarrow> runtime \<Rightarrow> (mlvalue \<times> runtime) option"
  shared_try_alloc :: "nat \<Rightarrow> runtime \<Rightarrow> bool"
  alloc_for_stack :: "nat \<Rightarrow> runtime \<Rightarrow> u64 option"
  malloc_ok :: "profile \<Rightarrow> bool"

text \<open>
  How an instruction ends: it goes on to the next instruction, possibly through the label
  \<open>check_stacks\<close>, it leaves \<open>caml_interprete\<close>, or it ends the process.
\<close>

type_synonym report = "u64 \<times> report_row list \<times> u64 \<times> dump_line list"

datatype outcome =
    Next vm
  | Check_stacks vm \<comment> \<open>\<open>goto check_stacks\<close>\<close>
  | Finished mlvalue report vm
  | Uncaught mlvalue vm \<comment> \<open>\<open>Make_exception_result(accu)\<close>\<close>
  | Fatal string

text \<open>The states an instruction can leave: all but the end of the process.\<close>

fun outcome_state :: "outcome \<Rightarrow> vm option" where
  "outcome_state (Next s) = Some s"
| "outcome_state (Check_stacks s) = Some s"
| "outcome_state (Finished v rep s) = Some s"
| "outcome_state (Uncaught v s) = Some s"
| "outcome_state (Fatal msg) = None"

type_synonym handler = "hooks \<Rightarrow> vm \<Rightarrow> outcome option"

section \<open>Constants\<close>

definition OUT_OF_MEMORY_EXN :: int where "OUT_OF_MEMORY_EXN = 0"
definition ZERO_DIVIDE_EXN :: int where "ZERO_DIVIDE_EXN = 5"
definition STACK_OVERFLOW_EXN :: int where "STACK_OVERFLOW_EXN = 8"
definition UNHANDLED_EXN :: int where "UNHANDLED_EXN = 12"
definition CONTINUATION_ALREADY_TAKEN_EXN :: int where "CONTINUATION_ALREADY_TAKEN_EXN = 13"
definition Stack_threshold_words :: nat where "Stack_threshold_words = 16"
definition NUM_STACK_SIZE_CLASSES :: nat where "NUM_STACK_SIZE_CLASSES = 5"
definition Debug_uninit_minor :: u64 where "Debug_uninit_minor = 0xD710D7D7D710D6D7"
definition Debug_uninit_major :: u64 where "Debug_uninit_major = 0xD711D7D7D711D6D7"

text \<open>A C \<open>int\<close>: the compiler flags include \<open>-fwrapv\<close>, so signed arithmetic wraps around.\<close>

definition c_int :: "int \<Rightarrow> int" where
  "c_int n = sint (word_of_int n :: u32)"

lemma c_int_id: "- (2 ^ 31) \<le> n \<Longrightarrow> n < 2 ^ 31 \<Longrightarrow> c_int n = n"
  unfolding c_int_def signed_of_int by (simp add: signed_take_bit_int_eq_self)

section \<open>Accessing the state\<close>

text \<open>The operand at \<open>pc\<close>, and \<open>*pc++\<close>.\<close>

definition pc_at :: "vm \<Rightarrow> int \<Rightarrow> int option" where
  "pc_at s i = map_option sint (int_nth (code s) (pc s + i))"

definition operand :: "vm \<Rightarrow> (int \<times> vm) option" where
  "operand s = do { n \<leftarrow> pc_at s 0; Some (n, s\<lparr>pc := pc s + 1\<rparr>) }"

definition push :: "mlvalue \<Rightarrow> vm \<Rightarrow> vm" where
  "push v s = s\<lparr>sp := v # sp s\<rparr>"

definition pop :: "vm \<Rightarrow> (mlvalue \<times> vm) option" where
  "pop s = (case sp s of [] \<Rightarrow> None | v # vs \<Rightarrow> Some (v, s\<lparr>sp := vs\<rparr>))"

definition sp_at :: "vm \<Rightarrow> int \<Rightarrow> mlvalue option" where
  "sp_at s i = int_nth (sp s) i"

text \<open>\<open>sp += n\<close>; a negative \<open>n\<close> would expose dead words.\<close>

definition sp_add :: "int \<Rightarrow> vm \<Rightarrow> vm option" where
  "sp_add n s = do { guard (0 \<le> n); vs \<leftarrow> drop_opt (nat n) (sp s); Some (s\<lparr>sp := vs\<rparr>) }"

definition long_of :: "mlvalue \<Rightarrow> int option" where
  "long_of v = map_option (\<lambda>w. sint (Long_val w)) (word_of v)"

definition Val_int :: "int \<Rightarrow> mlvalue" where
  "Val_int n = Word (Val_long (word_of_int n))"

definition get_stack :: "'a runtime_scheme \<Rightarrow> nat \<Rightarrow> stack_info option" where
  "get_stack s k = do { st \<leftarrow> nth_opt (stacks s) k; guard (stk_live st); Some st }"

definition put_stack :: "'a runtime_scheme \<Rightarrow> nat \<Rightarrow> stack_info \<Rightarrow> 'a runtime_scheme" where
  "put_stack s k st = s\<lparr>stacks := (stacks s)[k := st]\<rparr>"

text \<open>\<open>domain_state->current_stack->sp = sp\<close> and \<open>sp = domain_state->current_stack->sp\<close>.\<close>

definition save_sp :: "vm \<Rightarrow> vm option" where
  "save_sp s = do {
     st \<leftarrow> get_stack s (current_stack s);
     Some (put_stack s (current_stack s) (st\<lparr>stk_sp := sp s\<rparr>)) }"

definition load_sp :: "vm \<Rightarrow> vm option" where
  "load_sp s = do { st \<leftarrow> get_stack s (current_stack s); Some (s\<lparr>sp := stk_sp st\<rparr>) }"

lemma get_put_stack [simp]:
  "get_stack s k = Some st0 \<Longrightarrow> get_stack (put_stack s k st) k = (if stk_live st then Some st else None)"
  by (auto simp: get_stack_def put_stack_def nth_opt_def bind_Some_iff guard_def split: if_splits)

lemma get_stack_live: "get_stack s k = Some st \<Longrightarrow> stk_live st"
  by (auto simp: get_stack_def bind_Some_iff)

lemma get_put_stack_other [simp]: "k \<noteq> j \<Longrightarrow> get_stack (put_stack s k st) j = get_stack s j"
  by (simp add: get_stack_def put_stack_def nth_opt_def)

lemma put_stack_fields [simp]:
  "heap (put_stack s k st) = heap s" "current_stack (put_stack s k st) = current_stack s"
  "trap_sp_off (put_stack s k st) = trap_sp_off s" "stack_cache (put_stack s k st) = stack_cache s"
  "external_raise (put_stack s k st) = external_raise s" "code (put_stack s k st) = code s"
  "caml_global_data (put_stack s k st) = caml_global_data s"
  "backtrace_active (put_stack s k st) = backtrace_active s"
  "length (stacks (put_stack s k st)) = length (stacks s)"
  "pc (put_stack v k st) = pc v" "sp (put_stack v k st) = sp v" "accu (put_stack v k st) = accu v"
  "env (put_stack v k st) = env v" "extra_args (put_stack v k st) = extra_args v"
  "prof (put_stack v k st) = prof v" "exception_ctx (put_stack v k st) = exception_ctx v"
  "initial_external_raise (put_stack v k st) = initial_external_raise v"
  "initial_stack_words (put_stack v k st) = initial_stack_words v"
  "initial_trap_sp_off (put_stack v k st) = initial_trap_sp_off v"
  by (simp_all add: put_stack_def)

lemma get_stack_cong [simp]:
  "get_stack (s\<lparr>heap := a\<rparr>) k = get_stack s k" "get_stack (s\<lparr>trap_sp_off := b\<rparr>) k = get_stack s k"
  "get_stack (s\<lparr>current_stack := c\<rparr>) k = get_stack s k"
  "get_stack (v\<lparr>sp := d\<rparr>) k = get_stack v k" "get_stack (v\<lparr>pc := e\<rparr>) k = get_stack v k"
  "get_stack (v\<lparr>accu := f\<rparr>) k = get_stack v k" "get_stack (v\<lparr>env := f\<rparr>) k = get_stack v k"
  "get_stack (v\<lparr>extra_args := g\<rparr>) k = get_stack v k" "get_stack (v\<lparr>prof := p\<rparr>) k = get_stack v k"
  "get_stack (s\<lparr>stack_cache := q\<rparr>) k = get_stack s k" "get_stack (s\<lparr>external_raise := x\<rparr>) k = get_stack s k"
  by (simp_all add: get_stack_def)

lemma put_rt_rt [simp]: "put_rt s (rt s) = s"
  by (cases s) (simp add: put_rt_def rt_def runtime.defs)

lemma rt_put_rt [simp]: "rt (put_rt s r) = r"
  by (cases s, cases r) (simp add: put_rt_def rt_def runtime.defs)

lemma put_rt_put_rt [simp]: "put_rt (put_rt s r) q = put_rt s q"
  by (cases s) (simp add: put_rt_def runtime.defs)

lemma rt_fields [simp]:
  "heap (rt s) = heap s" "stacks (rt s) = stacks s" "current_stack (rt s) = current_stack s"
  "code (rt s) = code s" "caml_global_data (rt s) = caml_global_data s"
  "trap_sp_off (rt s) = trap_sp_off s" "external_raise (rt s) = external_raise s"
  by (simp_all add: rt_def runtime.defs)

lemma put_rt_fields [simp]:
  "heap (put_rt s r) = heap r" "stacks (put_rt s r) = stacks r"
  "current_stack (put_rt s r) = current_stack r" "code (put_rt s r) = code r"
  "caml_global_data (put_rt s r) = caml_global_data r" "trap_sp_off (put_rt s r) = trap_sp_off r"
  "external_raise (put_rt s r) = external_raise r"
  "pc (put_rt s r) = pc s" "sp (put_rt s r) = sp s" "accu (put_rt s r) = accu s"
  "env (put_rt s r) = env s" "extra_args (put_rt s r) = extra_args s" "prof (put_rt s r) = prof s"
  "exception_ctx (put_rt s r) = exception_ctx s"
  by (cases s, simp add: put_rt_def runtime.defs)+

lemma word_of_Val_int [simp]: "word_of (Val_int n) = Some (Val_long (word_of_int n))"
  by (simp add: Val_int_def)

lemma long_of_Val_int: "fits63 n \<Longrightarrow> long_of (Val_int n) = Some n"
  by (simp add: long_of_def Val_int_def Val_long_word_of_int sint_Long_val_tag_int)

lemma pc_at_upd [simp]:
  "pc_at (s\<lparr>sp := a\<rparr>) i = pc_at s i" "pc_at (s\<lparr>accu := b\<rparr>) i = pc_at s i"
  "pc_at (s\<lparr>env := b\<rparr>) i = pc_at s i" "pc_at (s\<lparr>extra_args := c\<rparr>) i = pc_at s i"
  "pc_at (s\<lparr>heap := d\<rparr>) i = pc_at s i" "pc_at (s\<lparr>prof := e\<rparr>) i = pc_at s i"
  "pc_at (s\<lparr>pc := pc s + k\<rparr>) i = pc_at s (k + i)" "pc_at (push v s) i = pc_at s i"
  by (simp_all add: pc_at_def push_def add.assoc)

lemma pc_at_pc: "pc_at (s\<lparr>pc := c\<rparr>) i = pc_at s (c - pc s + i)"
  by (simp add: pc_at_def)

lemma operand_eq: "pc_at s 0 = Some n \<Longrightarrow> operand s = Some (n, s\<lparr>pc := pc s + 1\<rparr>)"
  by (simp add: operand_def)

lemma operand_eq2: "pc_at s 1 = Some n \<Longrightarrow> operand (s\<lparr>pc := pc s + 1\<rparr>) = Some (n, s\<lparr>pc := pc s + 2\<rparr>)"
  by (simp add: operand_def)

end
