(* ===== verification/Fibers.thy ===== *)
theory Fibers
  imports Vm_State
begin

text \<open>
  The bytecode half of \<open>runtime/fiber.c\<close> (allocation, caching, growth and release of fiber stacks,
  one-shot continuations) and the raise functions of \<open>runtime/fail_byt.c\<close>.

  Only one domain runs, so \<open>caml_domain_alone\<close> holds; root scanning belongs to the collector.
\<close>

section \<open>Raising from C\<close>

text \<open>
  \<open>caml_raise\<close>. Signal handlers may run first and replace the exception; with no interpreter
  active the exception is fatal.
\<close>

definition caml_raise :: "hooks \<Rightarrow> mlvalue \<Rightarrow> runtime \<Rightarrow> runtime c_result option" where
  "caml_raise hk v r = do {
     (v', r') \<leftarrow> signals_before_raise hk v r;
     if external_raise r' = None then Some (Aborted ''uncaught exception'')
     else Some (Raised v' r') }"

definition caml_raise_constant :: "hooks \<Rightarrow> mlvalue \<Rightarrow> runtime \<Rightarrow> runtime c_result option" where
  "caml_raise_constant hk tag r = caml_raise hk tag r"

text \<open>\<open>check_global_data\<close>: before the globals are loaded, a predefined exception ends the process.\<close>

definition check_global_data :: "runtime \<Rightarrow> bool" where
  "check_global_data r \<longleftrightarrow> \<not> (caml_global_data r = Word 0 \<or> \<not> Is_block (caml_global_data r))"

definition raise_predefined :: "string \<Rightarrow> int \<Rightarrow> hooks \<Rightarrow> runtime \<Rightarrow> runtime c_result option" where
  "raise_predefined name n hk r =
     (if \<not> check_global_data r then Some (Aborted name)
      else do { exn \<leftarrow> Field (heap r) (caml_global_data r) n; caml_raise_constant hk exn r })"

definition caml_raise_out_of_memory :: "hooks \<Rightarrow> runtime \<Rightarrow> runtime c_result option" where
  "caml_raise_out_of_memory = raise_predefined ''Out_of_memory'' OUT_OF_MEMORY_EXN"

definition caml_raise_stack_overflow :: "hooks \<Rightarrow> runtime \<Rightarrow> runtime c_result option" where
  "caml_raise_stack_overflow = raise_predefined ''Stack_overflow'' STACK_OVERFLOW_EXN"

definition caml_raise_end_of_file :: "hooks \<Rightarrow> runtime \<Rightarrow> runtime c_result option" where
  "caml_raise_end_of_file = raise_predefined ''End_of_file'' 4"

definition caml_raise_zero_divide :: "hooks \<Rightarrow> runtime \<Rightarrow> runtime c_result option" where
  "caml_raise_zero_divide = raise_predefined ''Division_by_zero'' ZERO_DIVIDE_EXN"

definition caml_raise_not_found :: "hooks \<Rightarrow> runtime \<Rightarrow> runtime c_result option" where
  "caml_raise_not_found = raise_predefined ''Not_found'' 6"

definition caml_raise_sys_blocked_io :: "hooks \<Rightarrow> runtime \<Rightarrow> runtime c_result option" where
  "caml_raise_sys_blocked_io = raise_predefined ''Sys_blocked_io'' 9"

definition caml_raise_continuation_already_taken :: "hooks \<Rightarrow> runtime \<Rightarrow> runtime c_result option" where
  "caml_raise_continuation_already_taken =
     raise_predefined ''Continuation_already_taken'' CONTINUATION_ALREADY_TAKEN_EXN"

section \<open>Allocating and freeing stacks\<close>

definition caml_alloc_stack_cache :: "nat list list" where
  "caml_alloc_stack_cache = replicate NUM_STACK_SIZE_CLASSES []"

text \<open>The size class of a stack: \<open>n\<close> when its size is \<open>caml_fiber_wsz * 2^n\<close>.\<close>

fun bucket_search :: "nat \<Rightarrow> u64 \<Rightarrow> u64 \<Rightarrow> nat \<Rightarrow> nat option" where
  "bucket_search 0 wosize size_bucket_wsz b = None"
| "bucket_search (Suc n) wosize size_bucket_wsz b =
     (if wosize = size_bucket_wsz then Some b
      else bucket_search n wosize (size_bucket_wsz + size_bucket_wsz) (Suc b))"

definition stack_cache_bucket :: "'a runtime_scheme \<Rightarrow> nat \<Rightarrow> nat option" where
  "stack_cache_bucket r wosize =
     bucket_search NUM_STACK_SIZE_CLASSES (of_nat wosize) (of_nat (caml_fiber_wsz r)) 0"

text \<open>The address of the handler record, aligned to 16 bytes; it is \<open>Stack_high\<close>.\<close>

definition Stack_ctx_bytes :: u64 where "Stack_ctx_bytes = 40"

definition handler_addr :: "u64 \<Rightarrow> nat \<Rightarrow> u64" where
  "handler_addr a wosize = (a + Stack_ctx_bytes + 8 * of_nat wosize + 8) AND push_bit 4 (- 1)"

definition usable_words :: "u64 \<Rightarrow> nat \<Rightarrow> nat" where
  "usable_words a wosize = unat (handler_addr a wosize - (a + Stack_ctx_bytes)) div 8"

definition init_stack :: "mlvalue \<Rightarrow> mlvalue \<Rightarrow> mlvalue \<Rightarrow> stack_info \<Rightarrow> stack_info" where
  "init_stack hval hexn heff st =
     st\<lparr>stk_live := True, stk_sp := [], handle_value := hval, handle_exn := hexn,
        handle_effect := heff, stk_parent := None\<rparr>"

text \<open>A stack in fresh memory, before \<open>init_stack\<close>.\<close>

definition raw_stack :: "u64 \<Rightarrow> nat \<Rightarrow> nat option \<Rightarrow> stack_info" where
  "raw_stack a wosize bucket =
     \<lparr>stk_live = True, stk_addr = a, stk_wosize = usable_words a wosize, stk_sp = [],
      stk_bucket = bucket, handle_value = Val_unit, handle_exn = Val_unit,
      handle_effect = Val_unit, stk_parent = None\<rparr>"

text \<open>
  \<open>alloc_size_class_stack_noexc\<close>: a stack of the class is taken from the cache when there is one
  (its address and size stay), otherwise one is allocated. The result is NULL or the new stack.
\<close>

definition alloc_size_class_stack_noexc ::
  "hooks \<Rightarrow> nat \<Rightarrow> nat option \<Rightarrow> mlvalue \<Rightarrow> mlvalue \<Rightarrow> mlvalue \<Rightarrow> runtime \<Rightarrow> (nat option \<times> runtime) option" where
  "alloc_size_class_stack_noexc hk wosize bucket hval hexn heff r = do {
     cached \<leftarrow> (case bucket of None \<Rightarrow> Some [] | Some b \<Rightarrow> nth_opt (stack_cache r) b);
     case (bucket, cached) of
       (Some b, k # ks) \<Rightarrow> do {
         st \<leftarrow> nth_opt (stacks r) k;
         Some (Some k, (put_stack r k (init_stack hval hexn heff st))
           \<lparr>stack_cache := (stack_cache r)[b := ks]\<rparr>) }
     | _ \<Rightarrow> (case alloc_for_stack hk wosize r of
         None \<Rightarrow> Some (None, r)
       | Some a \<Rightarrow> Some (Some (length (stacks r)),
           r\<lparr>stacks := stacks r @ [init_stack hval hexn heff (raw_stack a wosize bucket)]\<rparr>)) }"

definition alloc_stack_noexc ::
  "hooks \<Rightarrow> nat \<Rightarrow> mlvalue \<Rightarrow> mlvalue \<Rightarrow> mlvalue \<Rightarrow> runtime \<Rightarrow> (nat option \<times> runtime) option" where
  "alloc_stack_noexc hk wosize hval hexn heff r =
     alloc_size_class_stack_noexc hk wosize (stack_cache_bucket r wosize) hval hexn heff r"

text \<open>\<open>caml_alloc_stack\<close> leaves one word on the new stack: the trap offset a resumption reads.\<close>

definition caml_alloc_stack ::
  "hooks \<Rightarrow> mlvalue \<Rightarrow> mlvalue \<Rightarrow> mlvalue \<Rightarrow> runtime \<Rightarrow> runtime c_result option" where
  "caml_alloc_stack hk hval hexn heff r = do {
     (k, r') \<leftarrow> alloc_size_class_stack_noexc hk (caml_fiber_wsz r) (Some 0) hval hexn heff r;
     case k of
       None \<Rightarrow> caml_raise_out_of_memory hk r'
     | Some k \<Rightarrow> do {
         st \<leftarrow> get_stack r' k;
         Some (Returned (Val_ptr (Some k)) (put_stack r' k (st\<lparr>stk_sp := [Val_int 1]\<rparr>))) } }"

definition caml_alloc_main_stack :: "hooks \<Rightarrow> nat \<Rightarrow> runtime \<Rightarrow> (nat option \<times> runtime) option" where
  "caml_alloc_main_stack hk init_size r = alloc_stack_noexc hk init_size Val_unit Val_unit Val_unit r"

text \<open>\<open>caml_free_stack\<close>: back to its size class, or to the C heap.\<close>

definition caml_free_stack :: "nat \<Rightarrow> 'a runtime_scheme \<Rightarrow> 'a runtime_scheme option" where
  "caml_free_stack k r = do {
     st \<leftarrow> get_stack r k;
     let r' = put_stack r k (st\<lparr>stk_live := False\<rparr>) in
     case stk_bucket st of
       None \<Rightarrow> Some r'
     | Some b \<Rightarrow> do {
         ks \<leftarrow> nth_opt (stack_cache r) b;
         Some (r'\<lparr>stack_cache := (stack_cache r)[b := k # ks]\<rparr>) } }"

section \<open>Growing the current stack\<close>

text \<open>The doubling loop of \<open>caml_try_realloc_stack\<close>; \<open>Some None\<close> is the early \<open>return 0\<close>.\<close>

partial_function (option) realloc_size :: "u64 \<Rightarrow> u64 \<Rightarrow> u64 \<Rightarrow> u64 option option" where
  "realloc_size max_size needed sz =
     (if max_size \<le> sz then Some None
      else let sz' = sz * 2 in
        if sz' < needed then realloc_size max_size needed sz' else Some (Some sz'))"

text \<open>
  The new stack gets the handlers, the parent and the live words of the old one. A C \<open>int\<close> holds
  the number of live words. The loop that redirects the links of \<open>Caml_state->c_stack\<close> is over an empty
  list: \<open>domain.c\<close> sets \<open>c_stack\<close> to NULL, and only the assembly code of the native runtime links to it.
\<close>

definition caml_try_realloc_stack :: "hooks \<Rightarrow> u64 \<Rightarrow> runtime \<Rightarrow> (bool \<times> runtime) option" where
  "caml_try_realloc_stack hk required_space r = do {
     old \<leftarrow> get_stack r (current_stack r);
     guard (length (stk_sp old) < 2 ^ 31);
     sz \<leftarrow> realloc_size (caml_max_stack_size r) (of_nat (length (stk_sp old)) + required_space)
            (of_nat (stk_wosize old));
     case sz of
       None \<Rightarrow> Some (False, r)
     | Some new_size \<Rightarrow> do {
         (k, r1) \<leftarrow> alloc_stack_noexc hk (unat new_size) (handle_value old) (handle_exn old) (handle_effect old) r;
         case k of
           None \<Rightarrow> Some (False, r1)
         | Some k \<Rightarrow> do {
             st \<leftarrow> get_stack r1 k;
             r2 \<leftarrow> caml_free_stack (current_stack r)
               (put_stack r1 k (st\<lparr>stk_sp := stk_sp old, stk_parent := stk_parent old\<rparr>));
             Some (True, r2\<lparr>current_stack := k\<rparr>) } } }"

definition caml_ensure_stack_capacity :: "hooks \<Rightarrow> mlvalue \<Rightarrow> runtime \<Rightarrow> runtime c_result option" where
  "caml_ensure_stack_capacity hk required_space r = do {
     req \<leftarrow> long_of required_space;
     st \<leftarrow> get_stack r (current_stack r);
     if int (stk_wosize st) - int (length (stk_sp st)) < req then do {
       (ok, r') \<leftarrow> caml_try_realloc_stack hk (word_of_int req) r;
       if ok then Some (Returned Val_unit r') else caml_raise_stack_overflow hk r' }
     else Some (Returned Val_unit r) }"

definition caml_change_max_stack_size :: "u64 \<Rightarrow> runtime \<Rightarrow> runtime option" where
  "caml_change_max_stack_size new_max_size r = do {
     st \<leftarrow> get_stack r (current_stack r);
     let sz = of_nat (length (stk_sp st)) + of_nat Stack_threshold_words in
     Some (r\<lparr>caml_max_stack_size := (if new_max_size < sz then sz else new_max_size)\<rparr>) }"

section \<open>Continuations\<close>

text \<open>The stack a continuation holds; taking it leaves \<open>Val_ptr(NULL)\<close> behind.\<close>

definition caml_continuation_use_noexc :: "mlvalue \<Rightarrow> 'a runtime_scheme \<Rightarrow> (mlvalue \<times> 'a runtime_scheme) c_outcome option" where
  "caml_continuation_use_noexc cont r =
     (if Is_block cont \<and> Tag_val (heap r) cont = Some Cont_tag then do {
        v \<leftarrow> Field (heap r) cont 0;
        h \<leftarrow> caml_modify (heap r) cont 0 (Val_ptr None);
        Some (Done (v, r\<lparr>heap := h\<rparr>)) }
      else Some Assert_failure)"

definition caml_continuation_use :: "hooks \<Rightarrow> mlvalue \<Rightarrow> runtime \<Rightarrow> runtime c_result option" where
  "caml_continuation_use hk cont r = do {
     res \<leftarrow> caml_continuation_use_noexc cont r;
     case res of
       Done (v, r') \<Rightarrow>
         if v = Val_ptr None then caml_raise_continuation_already_taken hk r' else Some (Returned v r')
     | _ \<Rightarrow> Some (Aborted ''assertion failure'') }"

text \<open>\<open>while (Stack_parent(stk) != NULL) stk = Stack_parent(stk)\<close>.\<close>

partial_function (option) last_parent :: "'a runtime_scheme \<Rightarrow> nat \<Rightarrow> nat option" where
  "last_parent r k = do {
     st \<leftarrow> get_stack r k;
     case stk_parent st of None \<Rightarrow> Some k | Some p \<Rightarrow> last_parent r p }"

definition caml_continuation_use_and_update_handler_noexc ::
  "mlvalue \<Rightarrow> mlvalue \<Rightarrow> mlvalue \<Rightarrow> mlvalue \<Rightarrow> runtime \<Rightarrow> runtime c_result option" where
  "caml_continuation_use_and_update_handler_noexc cont hval hexn heff r = do {
     res \<leftarrow> caml_continuation_use_noexc cont r;
     case res of
       Done (stack, r') \<Rightarrow> do {
         p \<leftarrow> Ptr_val stack;
         case p of
           None \<Rightarrow> Some (Returned stack r')
         | Some k \<Rightarrow> do {
             b \<leftarrow> last_parent r' k;
             st \<leftarrow> get_stack r' b;
             Some (Returned stack (put_stack r' b
               (st\<lparr>handle_value := hval, handle_exn := hexn, handle_effect := heff\<rparr>))) } }
     | _ \<Rightarrow> Some (Aborted ''assertion failure'') }"

text \<open>\<open>caml_continuation_replace\<close> puts a stack back where one was taken.\<close>

definition caml_continuation_replace :: "mlvalue \<Rightarrow> nat \<Rightarrow> runtime \<Rightarrow> runtime c_outcome option" where
  "caml_continuation_replace cont k r = do {
     v \<leftarrow> Field (heap r) cont 0;
     if v = Val_ptr None then do {
       h \<leftarrow> caml_modify (heap r) cont 0 (Val_ptr (Some k));
       Some (Done (r\<lparr>heap := h\<rparr>)) }
     else Some Assert_failure }"

definition caml_drop_continuation :: "hooks \<Rightarrow> mlvalue \<Rightarrow> runtime \<Rightarrow> runtime c_result option" where
  "caml_drop_continuation hk cont r = do {
     res \<leftarrow> caml_continuation_use hk cont r;
     case res of
       Returned v r' \<Rightarrow> do {
         p \<leftarrow> Ptr_val v;
         k \<leftarrow> p;
         r'' \<leftarrow> caml_free_stack k r';
         Some (Returned Val_unit r'') }
     | other \<Rightarrow> Some other }"

end
