(* ===== verification/Interp_Base.thy ===== *)
theory Interp_Base
  imports Fibers
begin

text \<open>
  The parts of \<open>caml_interprete\<close> that instructions share: the frames pushed around C calls, signal
  handlers and the collector, allocation, and the labels \<open>raise_exception\<close>, \<open>raise_notrace\<close>,
  \<open>do_return\<close>, \<open>do_resume\<close>, \<open>process_signal\<close> and \<open>check_stacks\<close>.

  No debugger is attached, so \<open>caml_debugger\<close> returns at once and \<open>Check_trap_barrier\<close> does
  nothing. The backtrace buffer is not modelled; the word pushed when backtraces are on is.
\<close>

section \<open>Frames\<close>

definition Setup_for_gc :: "vm \<Rightarrow> vm option" where
  "Setup_for_gc s = save_sp (s\<lparr>sp := accu s # env s # Code (pc s) # sp s\<rparr>)"

definition Restore_after_gc :: "vm \<Rightarrow> vm option" where
  "Restore_after_gc s = do {
     s \<leftarrow> load_sp s;
     a \<leftarrow> sp_at s 0;
     e \<leftarrow> sp_at s 1;
     sp_add 3 (s\<lparr>accu := a, env := e\<rparr>) }"

definition Setup_for_c_call :: "vm \<Rightarrow> vm option" where
  "Setup_for_c_call s = save_sp (s\<lparr>sp := env s # Code (pc s + 1) # sp s\<rparr>)"

definition Restore_after_c_call :: "vm \<Rightarrow> vm option" where
  "Restore_after_c_call s = do {
     s \<leftarrow> load_sp s;
     e \<leftarrow> sp_at s 0;
     sp_add 2 (s\<lparr>env := e\<rparr>) }"

definition Setup_for_event :: "vm \<Rightarrow> vm option" where
  "Setup_for_event s = save_sp (s\<lparr>sp := accu s # Val_unit # Val_unit # Code (pc s) # env s #
     Word (Val_long (extra_args s)) # sp s\<rparr>)"

definition Restore_after_event :: "vm \<Rightarrow> vm option" where
  "Restore_after_event s = do {
     s \<leftarrow> load_sp s;
     a \<leftarrow> sp_at s 0;
     c \<leftarrow> Option.bind (sp_at s 3) code_of;
     e \<leftarrow> sp_at s 4;
     x \<leftarrow> Option.bind (sp_at s 5) word_of;
     sp_add 6 (s\<lparr>accu := a, pc := c, env := e, extra_args := Long_val x\<rparr>) }"

definition Setup_for_debugger :: "vm \<Rightarrow> vm option" where
  "Setup_for_debugger s = save_sp (s\<lparr>sp := accu s # Code (pc s - 1) # env s #
     Word (Val_long (extra_args s)) # sp s\<rparr>)"

definition Restore_after_debugger :: "vm \<Rightarrow> vm option" where
  "Restore_after_debugger s = sp_add 4 s"

section \<open>Exceptions\<close>

text \<open>
  A return or an exception that leaves a fiber: the parent becomes the current stack, the fiber is
  freed, and the handler closure \<open>hdl\<close> is entered with \<open>accu\<close> as its argument. The parent's
  stack starts with the trap offset and the extra arguments it was suspended with.
\<close>

definition enter_parent :: "mlvalue \<Rightarrow> nat \<Rightarrow> vm \<Rightarrow> outcome option" where
  "enter_parent hdl parent s = do {
     let old = current_stack s;
     s \<leftarrow> load_sp (s\<lparr>current_stack := parent\<rparr>);
     s \<leftarrow> caml_free_stack old s;
     t \<leftarrow> Option.bind (sp_at s 0) long_of;
     x \<leftarrow> Option.bind (sp_at s 1) word_of;
     s \<leftarrow> sp_add 2 (s\<lparr>trap_sp_off := t, extra_args := Long_val x\<rparr>);
     c \<leftarrow> Code_val (heap s) hdl;
     Some (Check_stacks (push (accu s) s\<lparr>accu := hdl, pc := c, env := hdl\<rparr>)) }"

text \<open>\<open>raise_notrace\<close>: no trap frame on this stack (a positive offset), or the topmost one.\<close>

definition raise_notrace :: "vm \<Rightarrow> outcome option" where
  "raise_notrace s = do {
     st \<leftarrow> get_stack s (current_stack s);
     if 0 < trap_sp_off s then
       (case stk_parent st of
          None \<Rightarrow> do {
            guard (initial_stack_words s \<le> length (sp s));
            Some (Uncaught (accu s)
              ((put_stack s (current_stack s)
                  (st\<lparr>stk_sp := drop (length (sp s) - initial_stack_words s) (sp s)\<rparr>))
               \<lparr>external_raise := initial_external_raise s, trap_sp_off := initial_trap_sp_off s\<rparr>)) }
        | Some parent \<Rightarrow> enter_parent (handle_exn st) parent s)
     else do {
       let n = nat (- trap_sp_off s);
       guard (n \<le> length (sp s));
       s \<leftarrow> sp_add (int (length (sp s) - n)) s;
       c \<leftarrow> Option.bind (sp_at s 0) code_of;
       t \<leftarrow> Option.bind (sp_at s 1) long_of;
       e \<leftarrow> sp_at s 2;
       x \<leftarrow> Option.bind (sp_at s 3) word_of;
       s \<leftarrow> sp_add 4 (s\<lparr>pc := c, trap_sp_off := t, env := e, extra_args := Long_val x\<rparr>);
       Some (Next s) } }"

text \<open>\<open>raise_exception\<close>, which RERAISE repeats with another backtrace flag.\<close>

definition raise_exception :: "vm \<Rightarrow> outcome option" where
  "raise_exception s =
     raise_notrace (if backtrace_active s then push (Code (pc s - 1)) s else s)"

text \<open>
  An exception raised by C code: \<open>siglongjmp\<close> to the interpreter that set \<open>external_raise\<close>, which
  reloads the stack pointer and raises. The innermost interpreter is this one. The locals of the
  profiler (the counters, the stack of functions and the table) are not \<open>volatile\<close> and change after
  \<open>sigsetjmp\<close>, so C leaves them indeterminate here; the model is that of a compiler that keeps them
  in memory, and what the theorems say of the profile after an exception from C code is relative to that.
\<close>

definition longjmp :: "mlvalue \<Rightarrow> vm \<Rightarrow> outcome option" where
  "longjmp exn s = do {
     guard (external_raise s = Some (exception_ctx s));
     s \<leftarrow> load_sp s;
     raise_notrace (s\<lparr>accu := exn\<rparr>) }"

text \<open>What follows a call of C code \<open>m\<close> that ran on \<open>rt s\<close>.\<close>

definition c_call :: "runtime c_result option \<Rightarrow> vm \<Rightarrow> (mlvalue \<Rightarrow> vm \<Rightarrow> outcome option) \<Rightarrow> outcome option" where
  "c_call m s k = do {
     res \<leftarrow> m;
     case res of
       Returned v r \<Rightarrow> k v (put_rt s r)
     | Raised e r \<Rightarrow> longjmp e (put_rt s r)
     | Aborted msg \<Rightarrow> Some (Fatal msg) }"

section \<open>Allocation\<close>

definition fresh_block :: "nat \<Rightarrow> nat \<Rightarrow> u64 \<Rightarrow> block" where
  "fresh_block wosize tag fill = \<lparr>block_tag = tag, block_fields = replicate wosize (Word fill)\<rparr>"

text \<open>The loop of \<open>Alloc_small\<close>: pending actions are served until the minor heap has room.\<close>

partial_function (option) gc_poll ::
  "hooks \<Rightarrow> nat \<Rightarrow> (vm \<Rightarrow> outcome option) \<Rightarrow> vm \<Rightarrow> outcome option" where
  "gc_poll hk wosize k s =
     (if \<not> gc_interrupt hk wosize (rt s) then k s
      else Option.bind (Setup_for_gc s) (\<lambda>s1.
        Option.bind (process_pending_actions hk (rt s1)) (\<lambda>res.
          case res of
            Returned _ r \<Rightarrow> Option.bind (Restore_after_gc (put_rt s1 r)) (gc_poll hk wosize k)
          | Raised e r \<Rightarrow> longjmp e (put_rt s1 r)
          | Aborted msg \<Rightarrow> Some (Fatal msg))))"

definition Alloc_small ::
  "hooks \<Rightarrow> nat \<Rightarrow> int \<Rightarrow> vm \<Rightarrow> (mlvalue \<Rightarrow> vm \<Rightarrow> outcome option) \<Rightarrow> outcome option" where
  "Alloc_small hk wosize tag s k =
     (if \<not> (1 \<le> wosize \<and> 0 \<le> tag \<and> tag < 256 \<and> wosize \<le> Max_young_wosize)
      then Some (Fatal ''assertion failure'')
      else gc_poll hk wosize (\<lambda>s. k (Ptr (length (heap s)) 0)
        (s\<lparr>heap := heap s @ [fresh_block wosize (nat tag) Debug_uninit_minor]\<rparr>)) s)"

text \<open>
  \<open>caml_alloc_shr\<close> raises \<open>Out_of_memory\<close> without a frame of its own. The live words are in the
  stack's memory whether or not \<open>sp\<close> was saved; the model records them before the raise.
\<close>

definition caml_alloc_shr ::
  "hooks \<Rightarrow> nat \<Rightarrow> int \<Rightarrow> vm \<Rightarrow> (mlvalue \<Rightarrow> vm \<Rightarrow> outcome option) \<Rightarrow> outcome option" where
  "caml_alloc_shr hk wosize tag s k =
     (if shared_try_alloc hk wosize (rt s) then do {
        guard (0 \<le> tag \<and> tag < 256);
        k (Ptr (length (heap s)) 0)
          (s\<lparr>heap := heap s @ [fresh_block wosize (nat tag) Debug_uninit_major]\<rparr>) }
      else do {
        s1 \<leftarrow> save_sp s;
        c_call (caml_raise_out_of_memory hk (rt s1)) s1 k })"

text \<open>Stores of consecutive fields, \<open>Field(v, i) = x\<close>, from field \<open>i\<close> on.\<close>

fun init_fields :: "heap \<Rightarrow> mlvalue \<Rightarrow> int \<Rightarrow> mlvalue list \<Rightarrow> heap option" where
  "init_fields h v i [] = Some h"
| "init_fields h v i (x # xs) = do { h' \<leftarrow> caml_modify h v i x; init_fields h' v (i + 1) xs }"

section \<open>Stack and signal checks\<close>

definition process_signal :: handler where
  "process_signal hk s = do {
     s1 \<leftarrow> Setup_for_event s;
     c_call (process_pending_actions hk (rt s1)) s1
       (\<lambda>_ s2. do { s3 \<leftarrow> Restore_after_event s2; Some (Next s3) }) }"

definition Instruct_CHECK_SIGNALS :: handler where
  "Instruct_CHECK_SIGNALS hk s =
     (if something_pending hk (rt s) then process_signal hk s else Some (Next s))"

definition check_stacks :: handler where
  "check_stacks hk s = do {
     st \<leftarrow> get_stack s (current_stack s);
     if stk_wosize st < length (sp s) + Stack_threshold_words then do {
       s1 \<leftarrow> save_sp s;
       (ok, r) \<leftarrow> caml_try_realloc_stack hk (of_nat Stack_threshold_words) (rt s1);
       let s2 = put_rt s1 r;
       if ok then do { s3 \<leftarrow> load_sp s2; Instruct_CHECK_SIGNALS hk s3 }
       else do {
         s3 \<leftarrow> Setup_for_c_call s2;
         c_call (caml_raise_stack_overflow hk (rt s3)) s3
           (\<lambda>_ s4. do { s5 \<leftarrow> load_sp s4; Instruct_CHECK_SIGNALS hk s5 }) } }
     else Instruct_CHECK_SIGNALS hk s }"

text \<open>
  \<open>check_stacks\<close> may raise into a parent fiber, whose handler is entered through \<open>check_stacks\<close>
  again: the label is followed until the instruction has ended.
\<close>

partial_function (option) settle :: "hooks \<Rightarrow> outcome \<Rightarrow> outcome option" where
  "settle hk res = (case res of
     Check_stacks s \<Rightarrow> Option.bind (check_stacks hk s) (settle hk)
   | other \<Rightarrow> Some other)"

section \<open>Returning and resuming\<close>

definition do_return :: "vm \<Rightarrow> outcome option" where
  "do_return s = (case sp s of
     [] \<Rightarrow> do {
       st \<leftarrow> get_stack s (current_stack s);
       case stk_parent st of
         None \<Rightarrow> Some (Fatal ''assertion failure'')
       | Some parent \<Rightarrow> enter_parent (handle_value st) parent s }
   | _ # _ \<Rightarrow> do {
       c \<leftarrow> Option.bind (sp_at s 0) code_of;
       e \<leftarrow> sp_at s 1;
       x \<leftarrow> Option.bind (sp_at s 2) word_of;
       s \<leftarrow> sp_add 3 (s\<lparr>pc := c, env := e, extra_args := Long_val x\<rparr>);
       Some (Next s) })"

text \<open>
  \<open>do_resume\<close>: the current stack becomes the parent of the last fiber of the captured chain, and
  \<open>resume_fn\<close> is applied to \<open>resume_arg\<close> on the first one.
\<close>

definition do_resume :: "mlvalue \<Rightarrow> mlvalue \<Rightarrow> vm \<Rightarrow> outcome option" where
  "do_resume resume_fn resume_arg s = do {
     stk \<leftarrow> Ptr_val (accu s);
     case stk of
       None \<Rightarrow> do {
         exn \<leftarrow> Field (heap s) (caml_global_data s) CONTINUATION_ALREADY_TAKEN_EXN;
         raise_exception (s\<lparr>accu := exn\<rparr>) }
     | Some k \<Rightarrow> do {
         b \<leftarrow> last_parent s k;
         stb \<leftarrow> get_stack s b;
         let s = put_stack s b (stb\<lparr>stk_parent := Some (current_stack s)\<rparr>);
         s \<leftarrow> save_sp s;
         s \<leftarrow> load_sp (s\<lparr>current_stack := k\<rparr>);
         t \<leftarrow> Option.bind (sp_at s 0) long_of;
         s \<leftarrow> sp_add 1 (s\<lparr>trap_sp_off := t\<rparr>);
         c \<leftarrow> Code_val (heap s) resume_fn;
         Some (Check_stacks (push resume_arg s\<lparr>accu := resume_fn, pc := c, env := resume_fn,
           extra_args := 0\<rparr>)) } }"

section \<open>Facts the instruction proofs share\<close>

named_theorems vm_simps \<open>unfolding of the register and stack accesses\<close>

lemma sp_add_eq: "0 \<le> n \<Longrightarrow> nat n \<le> length (sp s) \<Longrightarrow> sp_add n s = Some (s\<lparr>sp := drop (nat n) (sp s)\<rparr>)"
  by (simp add: sp_add_def drop_opt_def)

lemmas [vm_simps] = sp_add_def sp_at_def int_nth_def int_upd_def upd_opt_def pop_def push_def drop_opt_def take_opt_def

lemma Long_val_Val_long: "fits63 (sint x) \<Longrightarrow> Long_val (Val_long x) = x"
proof -
  assume f: "fits63 (sint x)"
  have "Val_long x = tag_int (sint x)" using Val_long_word_of_int [of "sint x"] by simp
  with Long_val_tag_int [OF f] show ?thesis by simp
qed

lemma Alloc_small_quiet:
  assumes "1 \<le> wosize" "wosize \<le> Max_young_wosize" "0 \<le> tag" "tag < 256" "\<not> gc_interrupt hk wosize (rt s)"
  shows "Alloc_small hk wosize tag s k = k (Ptr (length (heap s)) 0)
    (s\<lparr>heap := heap s @ [fresh_block wosize (nat tag) Debug_uninit_minor]\<rparr>)"
  using assms by (simp add: Alloc_small_def gc_poll.simps)

lemma init_fields_fresh:
  "i + length vs \<le> length (block_fields b) \<Longrightarrow>
   init_fields (h @ [b]) (Ptr (length h) 0) (int i) vs =
     Some (h @ [b\<lparr>block_fields := take i (block_fields b) @ vs @ drop (i + length vs) (block_fields b)\<rparr>])"
proof (induction vs arbitrary: i b)
  case Nil
  then show ?case by simp
next
  case (Cons v vs)
  let ?b = "b\<lparr>block_fields := (block_fields b)[i := v]\<rparr>"
  have "caml_modify (h @ [b]) (Ptr (length h) 0) (int i) v = Some (h @ [?b])"
    using Cons.prems by (simp add: caml_modify_def nth_opt_def int_upd_def upd_opt_def)
  moreover have "init_fields (h @ [?b]) (Ptr (length h) 0) (int (Suc i)) vs =
      Some (h @ [?b\<lparr>block_fields := take (Suc i) (block_fields ?b) @ vs @ drop (Suc i + length vs) (block_fields ?b)\<rparr>])"
    using Cons.prems by (intro Cons.IH) simp
  ultimately show ?case using Cons.prems
    by (simp add: take_Suc_conv_app_nth add.commute)
qed

text \<open>A block filled from its first field to its last.\<close>

lemma init_fields_all:
  assumes "length vs = wosize"
  shows "init_fields (h @ [fresh_block wosize tag fill]) (Ptr (length h) 0) 0 vs =
    Some (h @ [\<lparr>block_tag = tag, block_fields = vs\<rparr>])"
  using init_fields_fresh [of 0 vs "fresh_block wosize tag fill" h] assms by (simp add: fresh_block_def)

declare init_fields.simps [simp del]

lemma check_stacks_room:
  assumes "get_stack s (current_stack s) = Some st" "length (sp s) + Stack_threshold_words \<le> stk_wosize st"
    "\<not> something_pending hk (rt s)"
  shows "check_stacks hk s = Some (Next s)"
  using assms by (simp add: check_stacks_def Instruct_CHECK_SIGNALS_def)

end
