(* ===== verification/Interp_Apply.thy ===== *)
theory Interp_Apply
  imports Interp_Base
begin

text \<open>
  The instructions of \<open>caml_interprete\<close> that move values between the registers, the stack and the
  environment, apply functions, return, and build closures. In every handler \<open>pc\<close> is already past
  the opcode.
\<close>

section \<open>Basic stack operations\<close>

definition Instruct_ACCn :: "int \<Rightarrow> handler" where
  "Instruct_ACCn n hk s = do { v \<leftarrow> sp_at s n; Some (Next (s\<lparr>accu := v\<rparr>)) }"

definition Instruct_PUSH :: handler where
  "Instruct_PUSH hk s = Some (Next (push (accu s) s))"

definition Instruct_PUSHACCn :: "int \<Rightarrow> handler" where
  "Instruct_PUSHACCn n hk s = Instruct_ACCn n hk (push (accu s) s)"

definition Instruct_ACC :: handler where
  "Instruct_ACC hk s = do {
     (n, s) \<leftarrow> operand s;
     v \<leftarrow> sp_at s n;
     Some (Next (s\<lparr>accu := v\<rparr>)) }"

definition Instruct_PUSHACC :: handler where
  "Instruct_PUSHACC hk s = Instruct_ACC hk (push (accu s) s)"

definition Instruct_POP :: handler where
  "Instruct_POP hk s = do { (n, s) \<leftarrow> operand s; s \<leftarrow> sp_add n s; Some (Next s) }"

definition Instruct_ASSIGN :: handler where
  "Instruct_ASSIGN hk s = do {
     (n, s) \<leftarrow> operand s;
     vs \<leftarrow> int_upd (sp s) n (accu s);
     Some (Next (s\<lparr>sp := vs, accu := Val_unit\<rparr>)) }"

section \<open>Access in the heap-allocated environment\<close>

definition Instruct_ENVACCn :: "int \<Rightarrow> handler" where
  "Instruct_ENVACCn n hk s = do { v \<leftarrow> Field (heap s) (env s) n; Some (Next (s\<lparr>accu := v\<rparr>)) }"

definition Instruct_PUSHENVACCn :: "int \<Rightarrow> handler" where
  "Instruct_PUSHENVACCn n hk s = Instruct_ENVACCn n hk (push (accu s) s)"

definition Instruct_ENVACC :: handler where
  "Instruct_ENVACC hk s = do {
     (n, s) \<leftarrow> operand s;
     v \<leftarrow> Field (heap s) (env s) n;
     Some (Next (s\<lparr>accu := v\<rparr>)) }"

definition Instruct_PUSHENVACC :: handler where
  "Instruct_PUSHENVACC hk s = Instruct_ENVACC hk (push (accu s) s)"

section \<open>Function application\<close>

definition Instruct_PUSH_RETADDR :: handler where
  "Instruct_PUSH_RETADDR hk s = do {
     n \<leftarrow> pc_at s 0;
     Some (Next (s\<lparr>sp := Code (pc s + n) # env s # Word (Val_long (extra_args s)) # sp s,
       pc := pc s + 1\<rparr>)) }"

text \<open>
  The address of an instruction, and what the \<open>DEBUG\<close> build does on a call: the callee's address is
  pushed on the profiler's stack and gets a counter array.
\<close>

definition code_addr :: "vm \<Rightarrow> int \<Rightarrow> code_t" where
  "code_addr s c = code_base s + 4 * word_of_int c"

definition profile_enter :: "hooks \<Rightarrow> vm \<Rightarrow> (vm \<Rightarrow> outcome option) \<Rightarrow> outcome option" where
  "profile_enter hk s k = do {
     res \<leftarrow> profile_call (malloc_ok hk (prof s)) (prof s) (code_addr s (pc s));
     case res of
       Done p \<Rightarrow> k (s\<lparr>prof := p\<rparr>)
     | Exit_failure \<Rightarrow> Some (Fatal ''exit'')
     | Assert_failure \<Rightarrow> Some (Fatal ''assertion failure'') }"

definition Instruct_APPLY :: handler where
  "Instruct_APPLY hk s = do {
     n \<leftarrow> pc_at s 0;
     c \<leftarrow> Code_val (heap s) (accu s);
     profile_enter hk (s\<lparr>extra_args := word_of_int (c_int (n - 1)), pc := c, env := accu s\<rparr>)
       (\<lambda>s. Some (Check_stacks s)) }"

definition Instruct_APPLY1 :: handler where
  "Instruct_APPLY1 hk s = do {
     arg1 \<leftarrow> sp_at s 0;
     s \<leftarrow> sp_add 1 s;
     let s = s\<lparr>sp := arg1 # Code (pc s) # env s # Word (Val_long (extra_args s)) # sp s\<rparr>;
     c \<leftarrow> Code_val (heap s) (accu s);
     profile_enter hk (s\<lparr>pc := c\<rparr>)
       (\<lambda>s. Some (Check_stacks (s\<lparr>env := accu s, extra_args := 0\<rparr>))) }"

definition Instruct_APPLY2 :: handler where
  "Instruct_APPLY2 hk s = do {
     arg1 \<leftarrow> sp_at s 0;
     arg2 \<leftarrow> sp_at s 1;
     s \<leftarrow> sp_add 2 s;
     let s = s\<lparr>sp := arg1 # arg2 # Code (pc s) # env s # Word (Val_long (extra_args s)) # sp s\<rparr>;
     c \<leftarrow> Code_val (heap s) (accu s);
     profile_enter hk (s\<lparr>pc := c\<rparr>)
       (\<lambda>s. Some (Check_stacks (s\<lparr>env := accu s, extra_args := 1\<rparr>))) }"

definition Instruct_APPLY3 :: handler where
  "Instruct_APPLY3 hk s = do {
     arg1 \<leftarrow> sp_at s 0;
     arg2 \<leftarrow> sp_at s 1;
     arg3 \<leftarrow> sp_at s 2;
     s \<leftarrow> sp_add 3 s;
     let s = s\<lparr>sp := arg1 # arg2 # arg3 # Code (pc s) # env s # Word (Val_long (extra_args s)) # sp s\<rparr>;
     c \<leftarrow> Code_val (heap s) (accu s);
     profile_enter hk (s\<lparr>pc := c\<rparr>)
       (\<lambda>s. Some (Check_stacks (s\<lparr>env := accu s, extra_args := 2\<rparr>))) }"

text \<open>The copy loop of APPTERM, \<open>newsp[i] = sp[i]\<close> for \<open>i\<close> from \<open>nargs - 1\<close> down to 0.\<close>

fun slide :: "nat \<Rightarrow> int \<Rightarrow> mlvalue list \<Rightarrow> mlvalue list option" where
  "slide 0 d vs = Some vs"
| "slide (Suc i) d vs = do {
     v \<leftarrow> nth_opt vs i;
     vs' \<leftarrow> int_upd vs (int i + d) v;
     slide i d vs' }"

definition Instruct_APPTERM :: handler where
  "Instruct_APPTERM hk s = do {
     (nargs, s) \<leftarrow> operand s;
     slotsize \<leftarrow> pc_at s 0;
     vs \<leftarrow> slide (nat nargs) (slotsize - nargs) (sp s);
     s \<leftarrow> sp_add (slotsize - nargs) (s\<lparr>sp := vs\<rparr>);
     c \<leftarrow> Code_val (heap s) (accu s);
     Some (Check_stacks (s\<lparr>pc := c, env := accu s,
       extra_args := extra_args s + word_of_int (c_int (nargs - 1))\<rparr>)) }"

definition Instruct_APPTERM1 :: handler where
  "Instruct_APPTERM1 hk s = do {
     arg1 \<leftarrow> sp_at s 0;
     n \<leftarrow> pc_at s 0;
     s \<leftarrow> sp_add (n - 1) s;
     vs \<leftarrow> int_upd (sp s) 0 arg1;
     c \<leftarrow> Code_val (heap s) (accu s);
     Some (Check_stacks (s\<lparr>sp := vs, pc := c, env := accu s\<rparr>)) }"

definition Instruct_APPTERM2 :: handler where
  "Instruct_APPTERM2 hk s = do {
     arg1 \<leftarrow> sp_at s 0;
     arg2 \<leftarrow> sp_at s 1;
     n \<leftarrow> pc_at s 0;
     s \<leftarrow> sp_add (n - 2) s;
     vs \<leftarrow> int_upd (sp s) 0 arg1;
     vs \<leftarrow> int_upd vs 1 arg2;
     c \<leftarrow> Code_val (heap s) (accu s);
     Some (Check_stacks (s\<lparr>sp := vs, pc := c, env := accu s, extra_args := extra_args s + 1\<rparr>)) }"

definition Instruct_APPTERM3 :: handler where
  "Instruct_APPTERM3 hk s = do {
     arg1 \<leftarrow> sp_at s 0;
     arg2 \<leftarrow> sp_at s 1;
     arg3 \<leftarrow> sp_at s 2;
     n \<leftarrow> pc_at s 0;
     s \<leftarrow> sp_add (n - 3) s;
     vs \<leftarrow> int_upd (sp s) 0 arg1;
     vs \<leftarrow> int_upd vs 1 arg2;
     vs \<leftarrow> int_upd vs 2 arg3;
     c \<leftarrow> Code_val (heap s) (accu s);
     Some (Check_stacks (s\<lparr>sp := vs, pc := c, env := accu s, extra_args := extra_args s + 2\<rparr>)) }"

definition Instruct_RETURN :: handler where
  "Instruct_RETURN hk s = do {
     (n, s) \<leftarrow> operand s;
     s \<leftarrow> sp_add n s;
     if 0 < sint (extra_args s) then do {
       c \<leftarrow> Code_val (heap s) (accu s);
       p \<leftarrow> profile_return (prof s);
       Some (Next (s\<lparr>extra_args := extra_args s - 1, pc := c, env := accu s, prof := p\<rparr>)) }
     else do {
       p \<leftarrow> profile_return (prof s);
       do_return (s\<lparr>prof := p\<rparr>) } }"

text \<open>\<open>Field(v, i), ..., Field(v, i + n - 1)\<close>.\<close>

fun fields_from :: "heap \<Rightarrow> mlvalue \<Rightarrow> int \<Rightarrow> nat \<Rightarrow> mlvalue list option" where
  "fields_from h v i 0 = Some []"
| "fields_from h v i (Suc n) = do { x \<leftarrow> Field h v i; xs \<leftarrow> fields_from h v (i + 1) n; Some (x # xs) }"

definition Instruct_RESTART :: handler where
  "Instruct_RESTART hk s = do {
     wosize \<leftarrow> Wosize_val (heap s) (env s);
     let num_args = int wosize - 3;
     guard (0 \<le> num_args \<and> num_args < 2 ^ 31);
     vs \<leftarrow> fields_from (heap s) (env s) 3 (nat num_args);
     e \<leftarrow> Field (heap s) (env s) 2;
     Some (Next (s\<lparr>sp := vs @ sp s, env := e, extra_args := extra_args s + word_of_int num_args\<rparr>)) }"

definition Instruct_GRAB :: handler where
  "Instruct_GRAB hk s = do {
     (required, s) \<leftarrow> operand s;
     if required \<le> sint (extra_args s)
     then Some (Next (s\<lparr>extra_args := extra_args s - word_of_int required\<rparr>))
     else let num_args = unat (1 + extra_args s) in
       Alloc_small hk (num_args + 3) (int Closure_tag) s (\<lambda>a s. do {
         args \<leftarrow> take_opt num_args (sp s);
         h \<leftarrow> init_fields (heap s) a 0
           (Code (pc s - 3) # Word (Make_closinfo 0 2) # env s # args);
         s \<leftarrow> sp_add (int num_args) (s\<lparr>accu := a, heap := h\<rparr>);
         do_return s }) }"

section \<open>Closures\<close>

definition Instruct_CLOSURE :: handler where
  "Instruct_CLOSURE hk s = do {
     (nvars, s) \<leftarrow> operand s;
     let s = (if 0 < nvars then push (accu s) s else s);
     let rest = (\<lambda>a s. do {
       vars \<leftarrow> take_opt (nat nvars) (sp s);
       ofs \<leftarrow> pc_at s 0;
       h \<leftarrow> init_fields (heap s) a 2 vars;
       h \<leftarrow> init_fields h a 0 [Code (pc s + ofs), Word (Make_closinfo 0 2)];
       s \<leftarrow> sp_add (int (nat nvars)) (s\<lparr>accu := a, heap := h, pc := pc s + 1\<rparr>);
       Some (Next s) });
     guard (0 \<le> nvars);
     if nvars \<le> int Max_young_wosize - 2
     then Alloc_small hk (2 + nat nvars) (int Closure_tag) s rest
     else caml_alloc_shr hk (2 + nat nvars) (int Closure_tag) s rest }"

text \<open>
  The second loop of CLOSUREREC: function \<open>i\<close> gets an infix header, its code pointer and its info
  word at fields \<open>3 i - 1\<close>, \<open>3 i\<close> and \<open>3 i + 1\<close>, and its infix pointer is pushed.
\<close>

fun closurerec_fill :: "nat \<Rightarrow> nat \<Rightarrow> u64 \<Rightarrow> mlvalue \<Rightarrow> vm \<Rightarrow> vm option" where
  "closurerec_fill 0 i envofs a s = Some s"
| "closurerec_fill (Suc n) i envofs a s = do {
     ofs \<leftarrow> pc_at s (int i);
     h \<leftarrow> init_fields (heap s) a (3 * int i - 1)
       [Word (Make_header (i * 3) Infix_tag 0), Code (pc s + ofs), Word (Make_closinfo 0 (envofs - 3))];
     p \<leftarrow> ptr_add a (3 * int i);
     closurerec_fill n (Suc i) (envofs - 3) a (push p (s\<lparr>heap := h\<rparr>)) }"

text \<open>What CLOSUREREC stores in the block \<open>a\<close> it allocated: the free variables, the first function, the others.\<close>

definition closurerec_build :: "nat \<Rightarrow> nat \<Rightarrow> nat \<Rightarrow> mlvalue \<Rightarrow> vm \<Rightarrow> outcome option" where
  "closurerec_build nfuncs nvars envofs a s = do {
     vars \<leftarrow> take_opt nvars (sp s);
     h \<leftarrow> init_fields (heap s) a (int envofs) vars;
     s \<leftarrow> sp_add (int nvars) (s\<lparr>accu := a, heap := h\<rparr>);
     ofs \<leftarrow> pc_at s 0;
     h \<leftarrow> init_fields (heap s) a 0 [Code (pc s + ofs), Word (Make_closinfo 0 (of_nat envofs))];
     s \<leftarrow> closurerec_fill (nfuncs - 1) 1 (of_nat envofs) a (push a (s\<lparr>heap := h\<rparr>));
     Some (Next (s\<lparr>pc := pc s + int nfuncs\<rparr>)) }"

definition Instruct_CLOSUREREC :: handler where
  "Instruct_CLOSUREREC hk s = do {
     (nfuncs, s) \<leftarrow> operand s;
     (nvars, s) \<leftarrow> operand s;
     guard (1 \<le> nfuncs \<and> 0 \<le> nvars);
     let envofs = nat nfuncs * 3 - 1;
     let blksize = envofs + nat nvars;
     let s = (if 0 < nvars then push (accu s) s else s);
     let build = closurerec_build (nat nfuncs) (nat nvars) envofs;
     if blksize \<le> Max_young_wosize
     then Alloc_small hk blksize (int Closure_tag) s build
     else caml_alloc_shr hk blksize (int Closure_tag) s build }"

text \<open>OFFSETCLOSUREM3 and OFFSETCLOSURE3 have the offset in the opcode: \<open>n\<close> is -3 or 3 in the switch.\<close>

definition Instruct_OFFSETCLOSUREn :: "int \<Rightarrow> handler" where
  "Instruct_OFFSETCLOSUREn n hk s = do { v \<leftarrow> ptr_add (env s) n; Some (Next (s\<lparr>accu := v\<rparr>)) }"

definition Instruct_OFFSETCLOSURE :: handler where
  "Instruct_OFFSETCLOSURE hk s = do {
     (n, s) \<leftarrow> operand s;
     v \<leftarrow> ptr_add (env s) n;
     Some (Next (s\<lparr>accu := v\<rparr>)) }"

definition Instruct_OFFSETCLOSURE0 :: handler where
  "Instruct_OFFSETCLOSURE0 hk s = Some (Next (s\<lparr>accu := env s\<rparr>))"

definition Instruct_PUSHOFFSETCLOSURE :: handler where
  "Instruct_PUSHOFFSETCLOSURE hk s = Instruct_OFFSETCLOSURE hk (push (accu s) s)"

definition Instruct_PUSHOFFSETCLOSUREn :: "int \<Rightarrow> handler" where
  "Instruct_PUSHOFFSETCLOSUREn n hk s = Instruct_OFFSETCLOSUREn n hk (push (accu s) s)"

definition Instruct_PUSHOFFSETCLOSURE0 :: handler where
  "Instruct_PUSHOFFSETCLOSURE0 hk s = Instruct_OFFSETCLOSURE0 hk (push (accu s) s)"

end
