(* ===== verification/Sample_State.thy ===== *)
theory Sample_State
  imports Fibers
begin

text \<open>
  Concrete states on which the theorems are instantiated: surroundings in which nothing is pending
  and memory never runs out, and a machine with one main stack of 64 words.
\<close>

definition quiet_hooks :: hooks where
  "quiet_hooks = \<lparr>
     primitive = (\<lambda>n args r. Some (Returned (if args = [] then Val_unit else hd args) r)),
     something_pending = (\<lambda>r. False),
     gc_interrupt = (\<lambda>n r. False),
     process_pending_actions = (\<lambda>r. Some (Returned Val_unit r)),
     signals_before_raise = (\<lambda>v r. Some (v, r)),
     shared_try_alloc = (\<lambda>n r. True),
     alloc_for_stack = (\<lambda>n r. let a = 0x10000 * of_nat (Suc (length (stacks r))) in
       if n \<le> usable_words a n then Some a else None),
     malloc_ok = (\<lambda>p. True)\<rparr>"

definition main_stack :: stack_info where
  "main_stack = \<lparr>stk_live = True, stk_addr = 0x10000, stk_wosize = 64, stk_sp = [], stk_bucket = None,
     handle_value = Val_unit, handle_exn = Val_unit, handle_effect = Val_unit, stk_parent = None\<rparr>"

definition sample_func_stack :: function_stack_t where
  "sample_func_stack = \<lparr>stack_data = replicate 4 0, nr_items = 0, max_items = 4,
     cur_size_bytes = 0, top_idx = 0\<rparr>"

definition sample_profile :: profile where
  "sample_profile = profile_init sample_func_stack empty_ht"

lemma sample_profile_ok:
  "profile_inv sample_profile" "calls_of sample_profile = []" "fs_cap (local_func_stack sample_profile) = 4"
  "ht_room (func_hash_table sample_profile)" "opcount_arrays sample_profile = []"
  using empty_ht_inv
  by (simp_all add: sample_profile_def profile_init_def profile_inv_def fs_invar_def sample_func_stack_def
      fs_elems_def calls_of_def fs_cap_def)

definition sample_rt :: runtime where
  "sample_rt = \<lparr>heap = [], stacks = [main_stack], stack_cache = replicate 5 [], current_stack = 0,
     trap_sp_off = 1, external_raise = Some 0, backtrace_active = False, caml_global_data = Val_unit,
     raise_unhandled = Val_unit, caml_max_stack_size = 1024, caml_fiber_wsz = 32, code = [],
     code_base = 0x1000, caml_event_count = 0, event_points_table = []\<rparr>"

definition sample_vm :: vm where
  "sample_vm = runtime.extend sample_rt (vm.fields 0 [] Val_unit (Atom 0) 0 None 0 1 0 sample_profile)"

text \<open>The machine about to run a binary integer operation on \<open>a\<close> and \<open>b\<close>.\<close>

definition int_args :: "int \<Rightarrow> int \<Rightarrow> vm" where
  "int_args a b = sample_vm\<lparr>accu := Word (tag_int a), sp := [Word (tag_int b)]\<rparr>"

text \<open>Reading the registers of an outcome.\<close>

definition accu_of :: "outcome \<Rightarrow> mlvalue" where
  "accu_of res = (case outcome_state res of Some s \<Rightarrow> accu s | None \<Rightarrow> Val_unit)"

definition pc_of :: "outcome \<Rightarrow> int" where
  "pc_of res = (case outcome_state res of Some s \<Rightarrow> pc s | None \<Rightarrow> 0)"

lemma state_regs [simp]:
  "accu_of (Next s) = accu s" "accu_of (Check_stacks s) = accu s"
  "pc_of (Next s) = pc s" "pc_of (Check_stacks s) = pc s"
  by (simp_all add: accu_of_def pc_of_def)

lemma sample_vm_fields:
  "heap sample_vm = []" "stacks sample_vm = [main_stack]" "current_stack sample_vm = 0"
  "trap_sp_off sample_vm = 1" "external_raise sample_vm = Some 0" "code sample_vm = []"
  "backtrace_active sample_vm = False" "caml_global_data sample_vm = Val_unit"
  "pc sample_vm = 0" "sp sample_vm = []" "accu sample_vm = Val_unit" "env sample_vm = Atom 0"
  "extra_args sample_vm = 0" "exception_ctx sample_vm = 0" "prof sample_vm = sample_profile"
  "stack_cache sample_vm = replicate 5 []" "code_base sample_vm = 0x1000"
  "initial_stack_words sample_vm = 0" "initial_trap_sp_off sample_vm = 1"
  "initial_external_raise sample_vm = None" "caml_max_stack_size sample_vm = 1024"
  "caml_fiber_wsz sample_vm = 32" "raise_unhandled sample_vm = Val_unit"
  by (simp_all add: sample_vm_def sample_rt_def runtime.defs vm.defs)

end
