(* ===== verification/Apply_Props.thy ===== *)
theory Apply_Props
  imports Interp_Apply Sample_State
begin

text \<open>
  Function application: the specialised instructions agree with the general ones, a call and its
  return restore the caller, and a partial application delivers its arguments when it is resumed.
\<close>

section \<open>Applications\<close>

text \<open>APPLY1, APPLY2 and APPLY3 do what PUSH_RETADDR before the arguments and APPLY after them do:
  on the stack with the return frame under \<open>k\<close> arguments, APPLY \<open>k\<close> ends in the state in which
  \<open>APPLYk\<close> ends from the same arguments without the frame.\<close>

theorem apply_specialised:
  assumes "pc_at s 0 = Some (int (length args))"
    and "sp s = args @ Code ret # e # Word (Val_long x) # rest"
  shows "(length args = 1 \<longrightarrow> Instruct_APPLY hk s =
      Instruct_APPLY1 hk (s\<lparr>sp := args @ rest, pc := ret, env := e, extra_args := x\<rparr>)) \<and>
    (length args = 2 \<longrightarrow> Instruct_APPLY hk s =
      Instruct_APPLY2 hk (s\<lparr>sp := args @ rest, pc := ret, env := e, extra_args := x\<rparr>)) \<and>
    (length args = 3 \<longrightarrow> Instruct_APPLY hk s =
      Instruct_APPLY3 hk (s\<lparr>sp := args @ rest, pc := ret, env := e, extra_args := x\<rparr>))"
proof -
  have ci: "c_int 0 = 0" "c_int 1 = 1" "c_int 2 = 2" by (simp_all add: c_int_id)
  note unf = Instruct_APPLY_def Instruct_APPLY1_def Instruct_APPLY2_def Instruct_APPLY3_def
    profile_enter_def code_addr_def ci Let_def
  show ?thesis
  proof (intro conjI impI)
    assume "length args = 1"
    then obtain a where "args = [a]" by (auto simp: length_Suc_conv numeral_eq_Suc)
    with assms show "Instruct_APPLY hk s =
        Instruct_APPLY1 hk (s\<lparr>sp := args @ rest, pc := ret, env := e, extra_args := x\<rparr>)"
      by (cases s) (simp add: unf vm_simps)
  next
    assume "length args = 2"
    then obtain a b where "args = [a, b]" by (auto simp: length_Suc_conv numeral_eq_Suc)
    with assms show "Instruct_APPLY hk s =
        Instruct_APPLY2 hk (s\<lparr>sp := args @ rest, pc := ret, env := e, extra_args := x\<rparr>)"
      by (cases s) (simp add: unf vm_simps)
  next
    assume "length args = 3"
    then obtain a b c where "args = [a, b, c]" by (auto simp: length_Suc_conv numeral_eq_Suc)
    with assms show "Instruct_APPLY hk s =
        Instruct_APPLY3 hk (s\<lparr>sp := args @ rest, pc := ret, env := e, extra_args := x\<rparr>)"
      by (cases s) (simp add: unf vm_simps)
  qed
qed

theorem apply_specialised_witness:
  "Instruct_APPLY quiet_hooks (sample_vm\<lparr>code := [2], sp := [Val_int 4, Val_int 5, Code 9, Atom 0, Word 1]\<rparr>) =
   Instruct_APPLY2 quiet_hooks (sample_vm\<lparr>code := [2], sp := [Val_int 4, Val_int 5], pc := 9, env := Atom 0,
     extra_args := 0\<rparr>)"
  using apply_specialised [of "sample_vm\<lparr>code := [2], sp := [Val_int 4, Val_int 5, Code 9, Atom 0, Word 1]\<rparr>"
      "[Val_int 4, Val_int 5]" 9 "Atom 0" 0 "[]" quiet_hooks]
  by (simp add: pc_at_def int_nth_def sample_vm_fields)

section \<open>Tail calls\<close>

lemma slide_eq:
  "n + d \<le> length vs \<Longrightarrow> slide n (int d) vs = Some (take d vs @ take n vs @ drop (n + d) vs)"
proof (induction n arbitrary: vs)
  case 0
  then show ?case by simp
next
  case (Suc n)
  let ?vs = "vs[n + d := vs ! n]"
  have "slide (Suc n) (int d) vs = slide n (int d) ?vs"
    using Suc.prems by (simp add: nth_opt_def int_upd_def upd_opt_def nat_add_distrib)
  also have "\<dots> = Some (take d ?vs @ take n ?vs @ drop (n + d) ?vs)"
    using Suc.prems by (intro Suc.IH) simp
  also have "drop (n + d) ?vs = vs ! n # drop (Suc n + d) vs"
    using Suc.prems by (simp add: drop_update_swap Cons_nth_drop_Suc [symmetric])
  finally show ?case using Suc.prems by (simp add: take_Suc_conv_app_nth)
qed

lemma APPTERM_eq:
  assumes "pc_at s 0 = Some (int n)" "pc_at s 1 = Some (int m)" "n \<le> m" "m \<le> length (sp s)" "n < 2 ^ 31"
  shows "Instruct_APPTERM hk s = map_option (\<lambda>c. Check_stacks (s\<lparr>sp := take n (sp s) @ drop m (sp s),
    pc := c, env := accu s, extra_args := extra_args s + word_of_int (int n - 1)\<rparr>)) (Code_val (heap s) (accu s))"
proof -
  have "c_int (int n - 1) = int n - 1" using assms(5) by (intro c_int_id) simp_all
  moreover have "slide n (int m - int n) (sp s) = Some (take (m - n) (sp s) @ take n (sp s) @ drop m (sp s))"
    using slide_eq [of n "m - n" "sp s"] assms by (simp add: of_nat_diff)
  ultimately show ?thesis using assms
    by (cases "Code_val (heap s) (accu s)")
      (simp_all add: Instruct_APPTERM_def operand_eq sp_add_eq nat_diff_distrib)
qed

lemma drop_before:
  assumes "m \<le> length vs"
  shows "Suc 0 \<le> m \<Longrightarrow> drop (m - Suc 0) vs = vs ! (m - 1) # drop m vs"
    and "2 \<le> m \<Longrightarrow> drop (m - 2) vs = vs ! (m - 2) # vs ! (m - 1) # drop m vs"
    and "3 \<le> m \<Longrightarrow> drop (m - 3) vs = vs ! (m - 3) # vs ! (m - 2) # vs ! (m - 1) # drop m vs"
  using assms Cons_nth_drop_Suc [of "m - 1" vs] Cons_nth_drop_Suc [of "m - 2" vs]
    Cons_nth_drop_Suc [of "m - 3" vs]
  by (auto simp: Suc_diff_Suc numeral_eq_Suc simp flip: Cons_nth_drop_Suc)

text \<open>the tail calls APPTERM1, APPTERM2 and APPTERM3 behave as APPTERM with that number of
  arguments: the arguments slide to the end of the frame of \<open>m\<close> slots, whose rest is dropped.\<close>

theorem appterm_specialised:
  assumes "pc_at s 0 = Some (int n)" "pc_at s 1 = Some (int m)" "n \<le> m" "m \<le> length (sp s)"
  shows "(n = 1 \<longrightarrow> Instruct_APPTERM hk s = Instruct_APPTERM1 hk (s\<lparr>pc := pc s + 1\<rparr>)) \<and>
    (n = 2 \<longrightarrow> Instruct_APPTERM hk s = Instruct_APPTERM2 hk (s\<lparr>pc := pc s + 1\<rparr>)) \<and>
    (n = 3 \<longrightarrow> Instruct_APPTERM hk s = Instruct_APPTERM3 hk (s\<lparr>pc := pc s + 1\<rparr>))"
proof -
  have nth: "take 1 (sp s) = [sp s ! 0]" if "1 \<le> length (sp s)" using that by (cases "sp s") auto
  have nth2: "take 2 (sp s) = [sp s ! 0, sp s ! 1]" if "2 \<le> length (sp s)"
    using that by (auto simp: numeral_eq_Suc Suc_le_length_iff)
  have nth3: "take 3 (sp s) = [sp s ! 0, sp s ! 1, sp s ! 2]" if "3 \<le> length (sp s)"
    using that by (auto simp: numeral_eq_Suc Suc_le_length_iff)
  have m: "nat (int m - k) = m - nat k" if "0 \<le> k" for k using that by (simp add: nat_diff_distrib)
  note unf = Instruct_APPTERM1_def Instruct_APPTERM2_def Instruct_APPTERM3_def vm_simps nth_opt_def m
    drop_before [OF assms(4)]
  show ?thesis
    using assms APPTERM_eq [OF assms] nth nth2 nth3
    by (cases "Code_val (heap s) (accu s)") (auto simp: unf)
qed

theorem appterm_specialised_witness:
  "Instruct_APPTERM quiet_hooks (sample_vm\<lparr>code := [2, 3], sp := [Val_int 4, Val_int 5, Val_int 6]\<rparr>) =
   Instruct_APPTERM2 quiet_hooks (sample_vm\<lparr>code := [2, 3], sp := [Val_int 4, Val_int 5, Val_int 6], pc := 1\<rparr>)"
  using appterm_specialised [of "sample_vm\<lparr>code := [2, 3], sp := [Val_int 4, Val_int 5, Val_int 6]\<rparr>" 2 3 quiet_hooks]
  by (simp add: pc_at_def int_nth_def sample_vm_fields)

section \<open>Calls and returns\<close>

lemma profile_return_total: "profile_inv p \<Longrightarrow> \<exists>p'. profile_return p = Some p' \<and> profile_inv p'"
proof (cases "calls_of p")
  case Nil
  assume "profile_inv p"
  with Nil have "isEmpty (local_func_stack p)"
    using fs_empty [of "local_func_stack p"] by (simp add: profile_inv_def calls_of_def)
  with \<open>profile_inv p\<close> show ?thesis by (auto simp: profile_return_def func_stack_pop_def)
next
  case (Cons f fs)
  assume "profile_inv p"
  with profile_return_pops [OF this Cons] show ?thesis by blast
qed

lemma profile_enter_SomeD:
  "profile_enter hk s k = Some (Check_stacks s1) \<Longrightarrow> \<exists>p. k (s\<lparr>prof := p\<rparr>) = Some (Check_stacks s1)"
proof -
  assume "profile_enter hk s k = Some (Check_stacks s1)"
  then obtain res where "(case res of Done p \<Rightarrow> k (s\<lparr>prof := p\<rparr>)
     | Exit_failure \<Rightarrow> Some (Fatal ''exit'') | Assert_failure \<Rightarrow> Some (Fatal ''assertion failure'')) =
     Some (Check_stacks s1)" unfolding profile_enter_def bind_Some_iff by blast
  then show ?thesis by (cases res) auto
qed

text \<open>A call that the profiler can record goes through.\<close>

lemma profile_enter_ok:
  assumes "profile_inv (prof s)" "malloc_ok hk (prof s)" "code_addr s (pc s) \<noteq> 0"
    "length (calls_of (prof s)) < fs_cap (local_func_stack (prof s))" "ht_room (func_hash_table (prof s))"
    "Suc (length (opcount_arrays (prof s))) < 2 ^ 64"
  shows "\<exists>p. profile_enter hk s k = k (s\<lparr>prof := p\<rparr>) \<and> profile_inv p \<and>
    calls_of p = code_addr s (pc s) # calls_of (prof s)"
  using profile_call_pushes [OF assms(1,3-6)] assms(2) by (auto simp: profile_enter_def)

text \<open>C1: a call and its return restore the caller. When the callee of APPLY1, APPLY2 or APPLY3 reaches
  RETURN with the frame the call left under its \<open>n\<close> locals and no argument left over, execution goes on
  after the call with the caller's environment, extra arguments and stack without the arguments,
  and with the callee's result.\<close>

theorem call_return:
  assumes call: "Instruct_APPLY1 hk s = Some (Check_stacks s1) \<and> k = 1 \<or>
      Instruct_APPLY2 hk s = Some (Check_stacks s1) \<and> k = 2 \<or>
      Instruct_APPLY3 hk s = Some (Check_stacks s1) \<and> k = 3"
    and callee: "sp s2 = locals @ drop k (sp s1)" "pc_at s2 0 = Some (int (length locals))"
      "extra_args s2 = 0" "profile_inv (prof s2)" "fits63 (sint (extra_args s))"
  shows "\<exists>p. profile_return (prof s2) = Some p \<and> Instruct_RETURN hk s2 =
    Some (Next (s2\<lparr>sp := drop k (sp s), pc := pc s, env := env s, extra_args := extra_args s, prof := p\<rparr>))"
proof -
  have "drop k (sp s1) = Code (pc s) # env s # Word (Val_long (extra_args s)) # drop k (sp s)"
    using call
    by (auto simp: Instruct_APPLY1_def Instruct_APPLY2_def Instruct_APPLY3_def Let_def vm_simps
        bind_Some_iff dest!: profile_enter_SomeD split: if_splits)
  moreover obtain p where "profile_return (prof s2) = Some p" using profile_return_total [OF callee(4)] by blast
  ultimately show ?thesis using callee
    by (intro exI [of _ p]) (simp add: Instruct_RETURN_def operand_eq sp_add_eq do_return_def vm_simps Long_val_Val_long)
qed

text \<open>A caller with one argument and a closure over the code at 5.\<close>

definition sample_call :: vm where
  "sample_call = sample_vm\<lparr>heap := [\<lparr>block_tag = Closure_tag, block_fields = [Code 5, Word (Make_closinfo 0 2)]\<rparr>],
     accu := Ptr 0 0, sp := [Val_int 4, Val_int 8], code := [0, 1], pc := 7\<rparr>"

lemma sample_call_runs:
  "\<exists>s1. Instruct_APPLY1 quiet_hooks sample_call = Some (Check_stacks s1) \<and> profile_inv (prof s1) \<and>
     drop 1 (sp s1) = [Code 7, Atom 0, Val_int 0, Val_int 8] \<and> code s1 = [0, 1]"
proof -
  let ?s = "sample_call\<lparr>sp := [Val_int 4, Code 7, Atom 0, Val_int 0, Val_int 8], pc := 5\<rparr>"
  have "\<exists>p. profile_enter quiet_hooks ?s k = k (?s\<lparr>prof := p\<rparr>) \<and> profile_inv p \<and>
      calls_of p = code_addr ?s (pc ?s) # calls_of (prof ?s)" for k
    by (rule profile_enter_ok)
      (simp_all add: sample_call_def sample_vm_fields sample_profile_ok quiet_hooks_def code_addr_def)
  from this [of "\<lambda>s. Some (Check_stacks (s\<lparr>env := accu s, extra_args := 0\<rparr>))"] show ?thesis
    by (auto simp: Instruct_APPLY1_def sample_call_def vm_simps Code_val_def Field_def sample_vm_fields
        Let_def Val_int_def)
qed

theorem call_return_witness:
  "\<exists>s2 p. Instruct_RETURN quiet_hooks s2 =
     Some (Next (s2\<lparr>sp := [Val_int 8], pc := 7, env := Atom 0, extra_args := 0, prof := p\<rparr>))"
proof -
  obtain s1 where s1: "Instruct_APPLY1 quiet_hooks sample_call = Some (Check_stacks s1)"
    "profile_inv (prof s1)" "code s1 = [0, 1]" using sample_call_runs by blast
  let ?s2 = "s1\<lparr>sp := [Val_int 4] @ drop 1 (sp s1), pc := 1, extra_args := 0\<rparr>"
  have "\<exists>p. Instruct_RETURN quiet_hooks ?s2 =
      Some (Next (?s2\<lparr>sp := [Val_int 8], pc := 7, env := Atom 0, extra_args := 0, prof := p\<rparr>))"
    using call_return [of quiet_hooks sample_call s1 1 ?s2 "[Val_int 4]"] s1
    by (auto simp: pc_at_def int_nth_def sample_call_def sample_vm_fields fits63_def Max_long_def Min_long_def)
  then show ?thesis by blast
qed

section \<open>Partial applications\<close>

lemma fields_from_block:
  "nth_opt h b = Some blk \<Longrightarrow> i + n \<le> length (block_fields blk) \<Longrightarrow>
   fields_from h (Ptr b 0) (int i) n = Some (take n (drop i (block_fields blk)))"
proof (induction n arbitrary: i)
  case 0
  then show ?case by simp
next
  case (Suc n)
  from Suc.IH [of "Suc i"] Suc.prems
  have "fields_from h (Ptr b 0) (1 + int i) n = Some (take n (drop (Suc i) (block_fields blk)))" by simp
  with Suc.prems show ?case
    by (simp add: Field_def int_nth_def nth_opt_def add.commute Cons_nth_drop_Suc [symmetric])
qed

lemma GRAB_partial:
  assumes few: "pc_at s 0 = Some required" "0 \<le> sint (extra_args s)" "sint (extra_args s) < required"
    and room: "length args = nat (sint (extra_args s)) + 1" "sp s = args @ rest" "length args \<le> Max_young_wosize - 3"
    and mem: "\<not> gc_interrupt hk (length args + 3) (rt (s\<lparr>pc := pc s + 1\<rparr>))"
  shows "Instruct_GRAB hk s = do_return (s\<lparr>pc := pc s + 1, accu := Ptr (length (heap s)) 0,
    heap := heap s @ [\<lparr>block_tag = Closure_tag,
      block_fields = Code (pc s - 2) # Word (Make_closinfo 0 2) # env s # args\<rparr>], sp := rest\<rparr>)"
proof -
  have "1 + extra_args s = word_of_int (1 + sint (extra_args s))" by simp
  also have "1 + sint (extra_args s) = int (length args)" using few(2) room(1) by simp
  finally have "1 + extra_args s = of_nat (length args)" by simp
  moreover have "length args < 2 ^ 64" using room(3) by (simp add: Max_young_wosize_def)
  ultimately have n: "unat (1 + extra_args s) = length args"
    by (simp only: unat_of_nat) simp
  have alloc: "Alloc_small hk (length args + 3) (int Closure_tag) (s\<lparr>pc := pc s + 1\<rparr>) k =
      k (Ptr (length (heap s)) 0) (s\<lparr>pc := pc s + 1,
        heap := heap s @ [fresh_block (length args + 3) Closure_tag Debug_uninit_minor]\<rparr>)" for k
    using mem room by (subst Alloc_small_quiet) (auto simp: Closure_tag_def Max_young_wosize_def)
  show ?thesis using few room(2)
    by (simp add: Instruct_GRAB_def operand_eq n alloc Let_def init_fields_all sp_add_eq)
qed

text \<open>C14: a function that gets fewer arguments than GRAB requires returns a closure of them, and when that
  closure is applied its code, the RESTART before the GRAB, puts the same arguments back on the
  stack above the new ones, restores the function's environment and counts them as extra.\<close>

theorem grab_restart:
  assumes few: "pc_at s 0 = Some required" "0 \<le> sint (extra_args s)" "sint (extra_args s) < required"
    and room: "length args = nat (sint (extra_args s)) + 1" "sp s = args @ rest" "length args \<le> Max_young_wosize - 3"
    and mem: "\<not> gc_interrupt hk (length args + 3) (rt (s\<lparr>pc := pc s + 1\<rparr>))"
  shows "\<exists>s1. Instruct_GRAB hk s = do_return s1 \<and> sp s1 = rest \<and> accu s1 = Ptr (length (heap s)) 0 \<and>
    Code_val (heap s1) (accu s1) = Some (pc s - 2) \<and>
    (\<forall>s2. nth_opt (heap s2) (length (heap s)) = nth_opt (heap s1) (length (heap s)) \<longrightarrow> env s2 = accu s1 \<longrightarrow>
      Instruct_RESTART hk s2 = Some (Next (s2\<lparr>sp := args @ sp s2, env := env s,
        extra_args := extra_args s2 + of_nat (length args)\<rparr>)))"
proof -
  let ?blk = "\<lparr>block_tag = Closure_tag, block_fields = Code (pc s - 2) # Word (Make_closinfo 0 2) # env s # args\<rparr>"
  let ?s1 = "s\<lparr>pc := pc s + 1, accu := Ptr (length (heap s)) 0, heap := heap s @ [?blk], sp := rest\<rparr>"
  have "Instruct_RESTART hk s2 = Some (Next (s2\<lparr>sp := args @ sp s2, env := env s,
        extra_args := extra_args s2 + of_nat (length args)\<rparr>))"
    if blk: "nth_opt (heap s2) (length (heap s)) = Some ?blk" and e: "env s2 = Ptr (length (heap s)) 0" for s2
  proof -
    have "fields_from (heap s2) (Ptr (length (heap s)) 0) 3 (length args) = Some args"
      using fields_from_block [OF blk, of 3 "length args"] by simp
    moreover have "length args < 2 ^ 31" using room(3) by (simp add: Max_young_wosize_def)
    ultimately show ?thesis using blk e
      by (simp add: Instruct_RESTART_def Wosize_val_def Field_def int_nth_def Let_def nth_opt_def)
  qed
  then show ?thesis
    using GRAB_partial [OF few room mem]
    by (intro exI [of _ ?s1]) (simp add: Code_val_def Field_def int_nth_def)
qed

theorem grab_restart_witness:
  "\<exists>s1. Instruct_GRAB quiet_hooks (sample_vm\<lparr>code := [0, 0, 1], pc := 2, sp := [Val_int 4, Code 9, Atom 0, Val_int 0]\<rparr>) =
      do_return s1 \<and> Code_val (heap s1) (accu s1) = Some 0 \<and>
    Instruct_RESTART quiet_hooks (s1\<lparr>env := accu s1\<rparr>) =
      Some (Next (s1\<lparr>sp := [Val_int 4, Code 9, Atom 0, Val_int 0], env := Atom 0,
        extra_args := extra_args s1 + 1\<rparr>))"
  using grab_restart [of "sample_vm\<lparr>code := [0, 0, 1], pc := 2, sp := [Val_int 4, Code 9, Atom 0, Val_int 0]\<rparr>" 1
      "[Val_int 4]" "[Code 9, Atom 0, Val_int 0]" quiet_hooks]
  by (auto simp: pc_at_def int_nth_def sample_vm_fields quiet_hooks_def Max_young_wosize_def)

end
