(* ===== verification/Interp_Arith.thy ===== *)
theory Interp_Arith
  imports Interp_Base
begin

text \<open>
  Integer constants, arithmetic, comparisons and the object operations of \<open>caml_interprete\<close>. The
  integer instructions work on the tagged words directly, with the wrap-around of \<open>intnat\<close>.
\<close>

section \<open>Constants\<close>

definition Instruct_CONSTn :: "int \<Rightarrow> handler" where
  "Instruct_CONSTn n hk s = Some (Next (s\<lparr>accu := Val_int n\<rparr>))"

definition Instruct_PUSHCONSTn :: "int \<Rightarrow> handler" where
  "Instruct_PUSHCONSTn n hk s = Instruct_CONSTn n hk (push (accu s) s)"

definition Instruct_CONSTINT :: handler where
  "Instruct_CONSTINT hk s = do {
     n \<leftarrow> pc_at s 0;
     Some (Next (s\<lparr>accu := Val_int n, pc := pc s + 1\<rparr>)) }"

definition Instruct_PUSHCONSTINT :: handler where
  "Instruct_PUSHCONSTINT hk s = Instruct_CONSTINT hk (push (accu s) s)"

section \<open>Arithmetic\<close>

definition Instruct_NEGINT :: handler where
  "Instruct_NEGINT hk s = do {
     a \<leftarrow> word_of (accu s);
     Some (Next (s\<lparr>accu := Word (2 - a)\<rparr>)) }"

text \<open>The binary operations: \<open>accu = f(accu, *sp++)\<close>.\<close>

definition int_op :: "(u64 \<Rightarrow> u64 \<Rightarrow> u64 option) \<Rightarrow> handler" where
  "int_op f hk s = do {
     a \<leftarrow> word_of (accu s);
     (v, s) \<leftarrow> pop s;
     b \<leftarrow> word_of v;
     r \<leftarrow> f a b;
     Some (Next (s\<lparr>accu := Word r\<rparr>)) }"

definition Instruct_ADDINT :: handler where
  "Instruct_ADDINT = int_op (\<lambda>a b. Some (a + b - 1))"

definition Instruct_SUBINT :: handler where
  "Instruct_SUBINT = int_op (\<lambda>a b. Some (a - b + 1))"

definition Instruct_MULINT :: handler where
  "Instruct_MULINT = int_op (\<lambda>a b. Some (Val_long (Long_val a * Long_val b)))"

text \<open>DIVINT and MODINT: C's division truncates towards zero, as \<open>sdiv\<close> and \<open>smod\<close> do.\<close>

definition divide_op :: "(u64 \<Rightarrow> u64 \<Rightarrow> u64) \<Rightarrow> handler" where
  "divide_op f hk s = do {
     (v, s) \<leftarrow> pop s;
     b \<leftarrow> word_of v;
     let divisor = Long_val b;
     if divisor = 0 then do {
       s1 \<leftarrow> Setup_for_c_call s;
       c_call (caml_raise_zero_divide hk (rt s1)) s1 (\<lambda>_ s2. Some (Next s2)) }
     else do {
       a \<leftarrow> word_of (accu s);
       Some (Next (s\<lparr>accu := Word (Val_long (f (Long_val a) divisor))\<rparr>)) } }"

definition Instruct_DIVINT :: handler where
  "Instruct_DIVINT = divide_op (\<lambda>a b. word_of_int (sint a sdiv sint b))"

definition Instruct_MODINT :: handler where
  "Instruct_MODINT = divide_op (\<lambda>a b. word_of_int (sint a smod sint b))"

definition Instruct_ANDINT :: handler where
  "Instruct_ANDINT = int_op (\<lambda>a b. Some (a AND b))"

definition Instruct_ORINT :: handler where
  "Instruct_ORINT = int_op (\<lambda>a b. Some (a OR b))"

definition Instruct_XORINT :: handler where
  "Instruct_XORINT = int_op (\<lambda>a b. Some ((a XOR b) OR 1))"

text \<open>A shift by less than 0 or more than 63 has no result in C.\<close>

definition shift_amount :: "u64 \<Rightarrow> nat option" where
  "shift_amount b = (let n = sint (Long_val b) in if 0 \<le> n \<and> n < 64 then Some (nat n) else None)"

definition Instruct_LSLINT :: handler where
  "Instruct_LSLINT = int_op (\<lambda>a b. do { n \<leftarrow> shift_amount b; Some (push_bit n (a - 1) + 1) })"

definition Instruct_LSRINT :: handler where
  "Instruct_LSRINT = int_op (\<lambda>a b. do { n \<leftarrow> shift_amount b; Some (drop_bit n a OR 1) })"

definition Instruct_ASRINT :: handler where
  "Instruct_ASRINT = int_op (\<lambda>a b. do { n \<leftarrow> shift_amount b; Some (signed_drop_bit n a OR 1) })"

section \<open>Comparisons\<close>

text \<open>\<open>Integer_comparison\<close>: EQ and NEQ compare any two words, the others integers.\<close>

definition Integer_equality :: "(bool \<Rightarrow> bool) \<Rightarrow> handler" where
  "Integer_equality f hk s = do {
     (v, s) \<leftarrow> pop s;
     eq \<leftarrow> value_eq (accu s) v;
     Some (Next (s\<lparr>accu := Val_bool (f eq)\<rparr>)) }"

definition Integer_comparison :: "(u64 \<Rightarrow> u64 \<Rightarrow> bool) \<Rightarrow> handler" where
  "Integer_comparison tst = int_op (\<lambda>a b. Some (Val_long (if tst a b then 1 else 0)))"

definition Instruct_EQ :: handler where "Instruct_EQ = Integer_equality (\<lambda>eq. eq)"
definition Instruct_NEQ :: handler where "Instruct_NEQ = Integer_equality (\<lambda>eq. \<not> eq)"
definition Instruct_LTINT :: handler where "Instruct_LTINT = Integer_comparison (\<lambda>a b. sint a < sint b)"
definition Instruct_LEINT :: handler where "Instruct_LEINT = Integer_comparison (\<lambda>a b. sint a \<le> sint b)"
definition Instruct_GTINT :: handler where "Instruct_GTINT = Integer_comparison (\<lambda>a b. sint a > sint b)"
definition Instruct_GEINT :: handler where "Instruct_GEINT = Integer_comparison (\<lambda>a b. sint a \<ge> sint b)"
definition Instruct_ULTINT :: handler where "Instruct_ULTINT = Integer_comparison (\<lambda>a b. a < b)"
definition Instruct_UGEINT :: handler where "Instruct_UGEINT = Integer_comparison (\<lambda>a b. a \<ge> b)"

text \<open>\<open>Integer_branch_comparison\<close>: the operand on the left, the accumulator on the right.\<close>

definition Integer_branch_comparison :: "(u64 \<Rightarrow> u64 \<Rightarrow> bool) \<Rightarrow> handler" where
  "Integer_branch_comparison tst hk s = do {
     (n, s) \<leftarrow> operand s;
     a \<leftarrow> word_of (accu s);
     if tst (word_of_int n) (Long_val a)
     then do { ofs \<leftarrow> pc_at s 0; Some (Next (s\<lparr>pc := pc s + ofs\<rparr>)) }
     else Some (Next (s\<lparr>pc := pc s + 1\<rparr>)) }"

definition Instruct_BEQ :: handler where "Instruct_BEQ = Integer_branch_comparison (\<lambda>a b. a = b)"
definition Instruct_BNEQ :: handler where "Instruct_BNEQ = Integer_branch_comparison (\<lambda>a b. a \<noteq> b)"
definition Instruct_BLTINT :: handler where
  "Instruct_BLTINT = Integer_branch_comparison (\<lambda>a b. sint a < sint b)"
definition Instruct_BLEINT :: handler where
  "Instruct_BLEINT = Integer_branch_comparison (\<lambda>a b. sint a \<le> sint b)"
definition Instruct_BGTINT :: handler where
  "Instruct_BGTINT = Integer_branch_comparison (\<lambda>a b. sint a > sint b)"
definition Instruct_BGEINT :: handler where
  "Instruct_BGEINT = Integer_branch_comparison (\<lambda>a b. sint a \<ge> sint b)"
definition Instruct_BULTINT :: handler where
  "Instruct_BULTINT = Integer_branch_comparison (\<lambda>a b. a < b)"
definition Instruct_BUGEINT :: handler where
  "Instruct_BUGEINT = Integer_branch_comparison (\<lambda>a b. a \<ge> b)"

text \<open>\<open>*pc << 1\<close> is an \<open>int\<close>: it is computed on 32 bits before it is extended.\<close>

definition doubled :: "int \<Rightarrow> u64" where
  "doubled n = word_of_int (c_int (2 * n))"

definition Instruct_OFFSETINT :: handler where
  "Instruct_OFFSETINT hk s = do {
     n \<leftarrow> pc_at s 0;
     a \<leftarrow> word_of (accu s);
     Some (Next (s\<lparr>accu := Word (a + doubled n), pc := pc s + 1\<rparr>)) }"

definition Instruct_OFFSETREF :: handler where
  "Instruct_OFFSETREF hk s = do {
     n \<leftarrow> pc_at s 0;
     a \<leftarrow> Option.bind (Field (heap s) (accu s) 0) word_of;
     h \<leftarrow> caml_modify (heap s) (accu s) 0 (Word (a + doubled n));
     Some (Next (s\<lparr>heap := h, accu := Val_unit, pc := pc s + 1\<rparr>)) }"

definition Instruct_ISINT :: handler where
  "Instruct_ISINT hk s = Some (Next (s\<lparr>accu := Word (Val_long (low_bit (accu s)))\<rparr>))"

section \<open>Object-oriented operations\<close>

definition Instruct_GETMETHOD :: handler where
  "Instruct_GETMETHOD hk s = do {
     obj \<leftarrow> sp_at s 0;
     cls \<leftarrow> Field (heap s) obj 0;
     lab \<leftarrow> word_of (accu s);
     v \<leftarrow> Field (heap s) cls (sint (Int_val lab));
     Some (Next (s\<lparr>accu := v\<rparr>)) }"

text \<open>
  The binary search of GETPUBMET and GETDYNMET. A method table holds at field 0 the index of the
  last tag, at field 1 a mask, then alternately a method and its tag, the tags in order.
\<close>

definition middle :: "int \<Rightarrow> int \<Rightarrow> int" where
  "middle li hi = c_int (li + hi) div 2 OR 1"

partial_function (option) method_search :: "heap \<Rightarrow> mlvalue \<Rightarrow> u64 \<Rightarrow> int \<Rightarrow> int \<Rightarrow> int option" where
  "method_search h meths tag li hi =
     (if li < hi then do {
        t \<leftarrow> Option.bind (Field h meths (middle li hi)) word_of;
        if sint tag < sint t then method_search h meths tag li (middle li hi - 2)
        else method_search h meths tag (middle li hi) hi }
      else Some li)"

definition find_method :: "heap \<Rightarrow> mlvalue \<Rightarrow> u64 \<Rightarrow> int option" where
  "find_method h meths tag = do {
     n \<leftarrow> Option.bind (Field h meths 0) word_of;
     method_search h meths tag 3 (sint (ucast n :: u32)) }"

definition Instruct_GETDYNMET :: handler where
  "Instruct_GETDYNMET hk s = do {
     obj \<leftarrow> sp_at s 0;
     meths \<leftarrow> Field (heap s) obj 0;
     tag \<leftarrow> word_of (accu s);
     li \<leftarrow> find_method (heap s) meths tag;
     v \<leftarrow> Field (heap s) meths (li - 1);
     Some (Next (s\<lparr>accu := v\<rparr>)) }"

text \<open>The word \<open>ofs\<close> bytes after field \<open>i\<close>; a misaligned offset reads no field.\<close>

definition field_at_offset :: "heap \<Rightarrow> mlvalue \<Rightarrow> int \<Rightarrow> u64 \<Rightarrow> mlvalue option" where
  "field_at_offset h v i ofs =
     (if ofs AND 7 = 0 then Field h v (i + sint ofs div 8) else None)"

text \<open>GETPUBMET caches in its second operand the byte offset at which it found the tag.\<close>

definition Instruct_GETPUBMET :: handler where
  "Instruct_GETPUBMET hk s = do {
     meths \<leftarrow> Field (heap s) (accu s) 0;
     let s = push (accu s) s;
     (n, s) \<leftarrow> operand s;
     let tag = Val_long (word_of_int n);
     cache \<leftarrow> pc_at s 0;
     mask \<leftarrow> Option.bind (Field (heap s) meths 1) word_of;
     let ofs = word_of_int cache AND mask;
     cached \<leftarrow> field_at_offset (heap s) meths 3 ofs;
     hit \<leftarrow> value_eq cached (Word tag);
     if hit then do {
       v \<leftarrow> field_at_offset (heap s) meths 2 ofs;
       Some (Next (s\<lparr>accu := v, pc := pc s + 1\<rparr>)) }
     else do {
       li \<leftarrow> find_method (heap s) meths tag;
       c \<leftarrow> int_upd (code s) (pc s) (word_of_int ((li - 3) * 8));
       v \<leftarrow> Field (heap s) meths (li - 1);
       Some (Next (s\<lparr>code := c, accu := v, pc := pc s + 1\<rparr>)) } }"

end
