(* ===== verification/Arith_Props.thy ===== *)
theory Arith_Props
  imports Interp_Arith Sample_State
begin

text \<open>
  The integer instructions compute OCaml's integers: 63-bit two's complement arithmetic on the
  tagged words \<open>tag_int n\<close>.
\<close>

section \<open>Tagged words\<close>

lemma tag_int_add: "tag_int a + tag_int b - 1 = tag_int (a + b)"
  by (simp add: tag_int_def algebra_simps)

lemma tag_int_sub: "tag_int a - tag_int b + 1 = tag_int (a - b)"
  by (simp add: tag_int_def algebra_simps)

lemma tag_int_neg: "2 - tag_int a = tag_int (- a)"
  by (simp add: tag_int_def algebra_simps)

lemma tag_int_mult: "fits63 a \<Longrightarrow> fits63 b \<Longrightarrow> Val_long (Long_val (tag_int a) * Long_val (tag_int b)) = tag_int (a * b)"
  by (simp only: Long_val_tag_int) (simp add: Val_long_word_of_int [symmetric])

lemma bit_odd_iff: "bit (2 * a + 1 :: int) n \<longleftrightarrow> n = 0 \<or> bit a (n - 1)"
  by (cases n) (simp_all add: bit_0 bit_Suc)

lemma odd_bit_ops:
  "(2 * a + 1) AND (2 * b + 1) = 2 * (a AND b) + (1 :: int)"
  "(2 * a + 1) OR (2 * b + 1) = 2 * (a OR b) + (1 :: int)"
  "((2 * a + 1) XOR (2 * b + 1)) OR 1 = 2 * (a XOR b) + (1 :: int)"
  by (auto simp: bit_eq_iff bit_and_iff bit_or_iff bit_xor_iff bit_odd_iff bit_1_iff)

lemma tag_int_and: "tag_int a AND tag_int b = tag_int (a AND b)"
  unfolding tag_int_def odd_bit_ops(1) [symmetric] by (simp add: and_int_def [symmetric] of_int_and_eq)

lemma tag_int_or: "tag_int a OR tag_int b = tag_int (a OR b)"
  unfolding tag_int_def odd_bit_ops(2) [symmetric] by (simp add: of_int_or_eq)

lemma tag_int_xor: "(tag_int a XOR tag_int b) OR 1 = tag_int (a XOR b)"
  unfolding tag_int_def odd_bit_ops(3) [symmetric] by (simp add: of_int_xor_eq of_int_or_eq)

lemma tag_int_lsl: "push_bit n (tag_int a - 1) + 1 = tag_int (a * 2 ^ n)"
  by (simp add: tag_int_def push_bit_eq_mult algebra_simps)

lemma sint_or_1: "sint (w OR 1 :: u64) = sint w OR 1"
  by (simp add: signed_or_eq)

lemma sint_eqD: "sint (w :: 'a::len word) = n \<Longrightarrow> w = word_of_int n"
  by auto

lemma drop_bit_odd: "drop_bit n (2 * a + 1 :: int) OR 1 = 2 * (a div 2 ^ n) + 1"
proof (rule bit_eqI)
  fix m show "bit (drop_bit n (2 * a + 1) OR 1) m \<longleftrightarrow> bit (2 * (a div 2 ^ n) + 1) m"
    by (cases m) (simp_all add: bit_or_iff bit_odd_iff bit_1_iff bit_drop_bit_eq drop_bit_eq_div [symmetric])
qed

lemma tag_int_asr:
  assumes "fits63 a"
  shows "signed_drop_bit n (tag_int a) OR 1 = tag_int (a div 2 ^ n)"
proof -
  have "sint (signed_drop_bit n (tag_int a) OR 1) = drop_bit n (2 * a + 1) OR 1"
    by (simp only: sint_or_1 sint_signed_drop_bit_eq sint_tag_int [OF assms])
  also have "\<dots> = 2 * (a div 2 ^ n) + 1"
    by (rule drop_bit_odd)
  finally have "sint (signed_drop_bit n (tag_int a) OR 1) = 2 * (a div 2 ^ n) + 1" .
  then show ?thesis unfolding tag_int_def by (rule sint_eqD)
qed

lemma uint_tag_int: "uint (tag_int a) = 2 * (a mod 2 ^ 63) + 1"
proof -
  have "uint (tag_int a) = (2 * a + 1) mod (2 * 2 ^ 63)"
    unfolding tag_int_def unsigned_of_int take_bit_eq_mod by simp
  also have "\<dots> = 2 * (a mod 2 ^ 63) + 1"
    using pos_zmod_mult_2 [of "2 ^ 63" a] by (simp add: algebra_simps)
  finally show ?thesis .
qed

lemma tag_int_lsr: "drop_bit n (tag_int a) OR 1 = tag_int ((a mod 2 ^ 63) div 2 ^ n)"
proof -
  have "2 * (a mod 2 ^ 63) + 1 < (2 :: int) ^ 64" "0 \<le> 2 * (a mod 2 ^ 63) + (1 :: int)"
    using pos_mod_bound [of "2 ^ 63" a] by simp_all
  then have "take_bit 64 (2 * (a mod 2 ^ 63) + 1) = 2 * (a mod 2 ^ 63) + (1 :: int)"
    by (intro take_bit_int_eq_self)
  then have "uint (drop_bit n (tag_int a) OR 1) = drop_bit n (2 * (a mod 2 ^ 63) + 1) OR 1"
    by (simp only: unsigned_or_eq unsigned_drop_bit_eq uint_tag_int) simp
  also have "\<dots> = 2 * ((a mod 2 ^ 63) div 2 ^ n) + 1"
    by (rule drop_bit_odd)
  finally show ?thesis unfolding tag_int_def by (metis word_of_int_uint)
qed

lemma tag_int_eq_iff: "fits63 a \<Longrightarrow> fits63 b \<Longrightarrow> tag_int a = tag_int b \<longleftrightarrow> a = b"
proof
  assume "fits63 a" "fits63 b" "tag_int a = tag_int b"
  then have "2 * a + 1 = 2 * b + 1" by (metis sint_tag_int)
  then show "a = b" by simp
qed simp

lemma tag_int_less_iff: "tag_int a < tag_int b \<longleftrightarrow> a mod 2 ^ 63 < b mod 2 ^ 63"
  unfolding word_less_def uint_tag_int by linarith

lemma odd_less_iff: "2 * a + 1 \<le> 2 * b \<longleftrightarrow> a < (b :: int)"
  by linarith

lemma Val_bool_word: "Word (Val_long (if P then 1 else 0)) = Val_bool P"
  by (simp add: Val_bool_def)

lemma sint_word_of_int: "fits63 n \<Longrightarrow> sint (word_of_int n :: u64) = n"
  unfolding signed_of_int by (simp add: fits63_def Max_long_def Min_long_def signed_take_bit_int_eq_self)

lemma fits63_operand: "pc_at s i = Some n \<Longrightarrow> fits63 n"
proof -
  assume "pc_at s i = Some n"
  then obtain w :: u32 where "n = sint w" by (auto simp: pc_at_def)
  then show ?thesis using sint_ge [of w] sint_lt [of w] by (simp add: fits63_def Max_long_def Min_long_def)
qed

lemma word_of_int_operand_eq:
  "fits63 m \<Longrightarrow> fits63 n \<Longrightarrow> (word_of_int m :: u64) = word_of_int n \<longleftrightarrow> m = n"
  using sint_word_of_int [of m] sint_word_of_int [of n] by metis

section \<open>The instructions\<close>

lemma int_op_tagged:
  assumes "accu s = Word a" "sp s = Word b # vs" "f a b = Some r"
  shows "int_op f hk s = Some (Next (s\<lparr>sp := vs, accu := Word r\<rparr>))"
  using assms by (simp add: int_op_def pop_def)

text \<open>C37: addition, subtraction, multiplication and negation on tagged words give the tagged word of
  the exact result modulo \<open>2 ^ 63\<close>: OCaml's wrap-around arithmetic.\<close>

theorem arith_instructions:
  assumes "accu s = Word (tag_int a)" "sp s = Word (tag_int b) # vs" "fits63 a" "fits63 b"
  shows "Instruct_ADDINT hk s = Some (Next (s\<lparr>sp := vs, accu := Word (tag_int (a + b))\<rparr>)) \<and>
    Instruct_SUBINT hk s = Some (Next (s\<lparr>sp := vs, accu := Word (tag_int (a - b))\<rparr>)) \<and>
    Instruct_MULINT hk s = Some (Next (s\<lparr>sp := vs, accu := Word (tag_int (a * b))\<rparr>)) \<and>
    Instruct_NEGINT hk s = Some (Next (s\<lparr>accu := Word (tag_int (- a))\<rparr>))"
  unfolding Instruct_ADDINT_def Instruct_SUBINT_def Instruct_MULINT_def Instruct_NEGINT_def
  using assms int_op_tagged [OF assms(1,2)]
  by (simp add: tag_int_add tag_int_sub tag_int_neg tag_int_mult)

theorem arith_instructions_witness:
  "map_option accu_of (Instruct_ADDINT quiet_hooks (int_args (2 ^ 62 - 1) 1)) = Some (Word (tag_int (2 ^ 62)))"
  using arith_instructions [of "int_args (2 ^ 62 - 1) 1" "2 ^ 62 - 1" 1 "[]" quiet_hooks]
  by (simp add: int_args_def fits63_def Max_long_def Min_long_def)

text \<open>C38: Division and remainder truncate towards zero, and the one quotient that leaves the range,
  \<open>min_int / -1\<close>, wraps around instead of trapping.\<close>

theorem division_instructions:
  assumes "accu s = Word (tag_int a)" "sp s = Word (tag_int b) # vs" "fits63 a" "fits63 b" "b \<noteq> 0"
  shows "Instruct_DIVINT hk s = Some (Next (s\<lparr>sp := vs, accu := Word (tag_int (a sdiv b))\<rparr>)) \<and>
    Instruct_MODINT hk s = Some (Next (s\<lparr>sp := vs, accu := Word (tag_int (a smod b))\<rparr>)) \<and>
    a sdiv b * b + a smod b = a"
proof -
  have "Long_val (tag_int b) \<noteq> 0" using assms(4,5) word_of_int_operand_eq [of b 0]
    by (simp add: Long_val_tag_int fits63_def Min_long_def Max_long_def)
  then have "divide_op f hk s = Some (Next (s\<lparr>sp := vs,
      accu := Word (Val_long (f (word_of_int a) (word_of_int b)))\<rparr>))" for f
    using assms by (simp add: divide_op_def pop_def Long_val_tag_int)
  then show ?thesis using assms
    by (simp add: Instruct_DIVINT_def Instruct_MODINT_def sint_word_of_int Val_long_word_of_int
        sdiv_mult_smod_eq)
qed

theorem division_instructions_witness:
  "map_option accu_of (Instruct_DIVINT quiet_hooks (int_args (- 7) 2)) = Some (Word (tag_int (- 3))) \<and>
   map_option accu_of (Instruct_DIVINT quiet_hooks (int_args (- (2 ^ 62)) (- 1))) = Some (Word (tag_int (2 ^ 62)))"
  using division_instructions [of "int_args (- 7) 2" "- 7" 2 "[]" quiet_hooks]
    division_instructions [of "int_args (- (2 ^ 62)) (- 1)" "- (2 ^ 62)" "- 1" "[]" quiet_hooks]
  by (simp add: int_args_def fits63_def Max_long_def Min_long_def signed_divide_int_def)

text \<open>The bitwise instructions and the shifts act on the integers: \<open>land\<close>, \<open>lor\<close>, \<open>lxor\<close>, and for a
  shift count below 64 a left shift, a logical right shift of the 63-bit pattern, an arithmetic
  right shift.\<close>

theorem bitwise_instructions:
  assumes "accu s = Word (tag_int a)" "sp s = Word (tag_int b) # vs" "fits63 a" "fits63 b"
  shows "Instruct_ANDINT hk s = Some (Next (s\<lparr>sp := vs, accu := Word (tag_int (a AND b))\<rparr>)) \<and>
    Instruct_ORINT hk s = Some (Next (s\<lparr>sp := vs, accu := Word (tag_int (a OR b))\<rparr>)) \<and>
    Instruct_XORINT hk s = Some (Next (s\<lparr>sp := vs, accu := Word (tag_int (a XOR b))\<rparr>)) \<and>
    (0 \<le> b \<and> b < 64 \<longrightarrow>
      Instruct_LSLINT hk s = Some (Next (s\<lparr>sp := vs, accu := Word (tag_int (a * 2 ^ nat b))\<rparr>)) \<and>
      Instruct_LSRINT hk s = Some (Next (s\<lparr>sp := vs, accu := Word (tag_int ((a mod 2 ^ 63) div 2 ^ nat b))\<rparr>)) \<and>
      Instruct_ASRINT hk s = Some (Next (s\<lparr>sp := vs, accu := Word (tag_int (a div 2 ^ nat b))\<rparr>)))"
proof -
  have "shift_amount (tag_int b) = Some (nat b)" if "0 \<le> b \<and> b < 64"
    using that assms(4) by (simp add: shift_amount_def sint_Long_val_tag_int)
  then show ?thesis
    unfolding Instruct_ANDINT_def Instruct_ORINT_def Instruct_XORINT_def Instruct_LSLINT_def
      Instruct_LSRINT_def Instruct_ASRINT_def
    using int_op_tagged [OF assms(1,2)] assms(3)
    by (simp add: tag_int_and tag_int_or tag_int_xor tag_int_lsl tag_int_lsr tag_int_asr)
qed

theorem bitwise_instructions_witness:
  "map_option accu_of (Instruct_LSRINT quiet_hooks (int_args (- 1) 60)) = Some (Word (tag_int 7)) \<and>
   map_option accu_of (Instruct_ANDINT quiet_hooks (int_args (- 1) 60)) = Some (Word (tag_int 60))"
  using bitwise_instructions [of "int_args (- 1) 60" "- 1" 60 "[]" quiet_hooks]
  by (simp add: int_args_def fits63_def Max_long_def Min_long_def)

text \<open>the comparisons of two tagged integers put \<open>true\<close> or \<open>false\<close> in the accumulator according to
  the integers, the unsigned ones according to the 63-bit patterns.\<close>

theorem comparison_instructions:
  assumes "accu s = Word (tag_int a)" "sp s = Word (tag_int b) # vs" "fits63 a" "fits63 b"
  shows "Instruct_EQ hk s = Some (Next (s\<lparr>sp := vs, accu := Val_bool (a = b)\<rparr>)) \<and>
    Instruct_NEQ hk s = Some (Next (s\<lparr>sp := vs, accu := Val_bool (a \<noteq> b)\<rparr>)) \<and>
    Instruct_LTINT hk s = Some (Next (s\<lparr>sp := vs, accu := Val_bool (a < b)\<rparr>)) \<and>
    Instruct_LEINT hk s = Some (Next (s\<lparr>sp := vs, accu := Val_bool (a \<le> b)\<rparr>)) \<and>
    Instruct_GTINT hk s = Some (Next (s\<lparr>sp := vs, accu := Val_bool (a > b)\<rparr>)) \<and>
    Instruct_GEINT hk s = Some (Next (s\<lparr>sp := vs, accu := Val_bool (a \<ge> b)\<rparr>)) \<and>
    Instruct_ULTINT hk s = Some (Next (s\<lparr>sp := vs, accu := Val_bool (a mod 2 ^ 63 < b mod 2 ^ 63)\<rparr>)) \<and>
    Instruct_UGEINT hk s = Some (Next (s\<lparr>sp := vs, accu := Val_bool (a mod 2 ^ 63 \<ge> b mod 2 ^ 63)\<rparr>))"
proof -
  have cmp: "Integer_comparison tst hk s =
      Some (Next (s\<lparr>sp := vs, accu := Val_bool (tst (tag_int a) (tag_int b))\<rparr>))" for tst
    unfolding Integer_comparison_def using int_op_tagged [OF assms(1,2)] by (simp add: Val_bool_word)
  have uge: "tag_int b \<le> tag_int a \<longleftrightarrow> b mod 2 ^ 63 \<le> a mod 2 ^ 63"
    by (simp only: linorder_not_less [symmetric] tag_int_less_iff)
  show ?thesis
    unfolding Instruct_EQ_def Instruct_NEQ_def Instruct_LTINT_def Instruct_LEINT_def Instruct_GTINT_def
      Instruct_GEINT_def Instruct_ULTINT_def Instruct_UGEINT_def cmp tag_int_less_iff uge
    using assms by (simp add: sint_tag_int Integer_equality_def pop_def tag_int_eq_iff odd_less_iff)
qed

theorem comparison_instructions_witness:
  "map_option accu_of (Instruct_LTINT quiet_hooks (int_args (- 1) 1)) = Some Val_true \<and>
   map_option accu_of (Instruct_ULTINT quiet_hooks (int_args (- 1) 1)) = Some Val_false"
  using comparison_instructions [of "int_args (- 1) 1" "- 1" 1 "[]" quiet_hooks]
  by (simp add: int_args_def fits63_def Max_long_def Min_long_def Val_bool_def Val_true_def Val_false_def)

text \<open>a branch comparison tests the operand against the accumulator in that order, and goes to the
  target relative to its second operand or past both operands.\<close>

theorem branch_comparison_instructions:
  assumes "accu s = Word (tag_int a)" "fits63 a" "pc_at s 0 = Some n" "pc_at s 1 = Some ofs"
  shows "Instruct_BEQ hk s = Some (Next (s\<lparr>pc := pc s + (if n = a then 1 + ofs else 2)\<rparr>)) \<and>
    Instruct_BNEQ hk s = Some (Next (s\<lparr>pc := pc s + (if n \<noteq> a then 1 + ofs else 2)\<rparr>)) \<and>
    Instruct_BLTINT hk s = Some (Next (s\<lparr>pc := pc s + (if n < a then 1 + ofs else 2)\<rparr>)) \<and>
    Instruct_BLEINT hk s = Some (Next (s\<lparr>pc := pc s + (if n \<le> a then 1 + ofs else 2)\<rparr>)) \<and>
    Instruct_BGTINT hk s = Some (Next (s\<lparr>pc := pc s + (if n > a then 1 + ofs else 2)\<rparr>)) \<and>
    Instruct_BGEINT hk s = Some (Next (s\<lparr>pc := pc s + (if n \<ge> a then 1 + ofs else 2)\<rparr>)) \<and>
    Instruct_BULTINT hk s = Some (Next (s\<lparr>pc := pc s + (if n mod 2 ^ 64 < a mod 2 ^ 64 then 1 + ofs else 2)\<rparr>)) \<and>
    Instruct_BUGEINT hk s = Some (Next (s\<lparr>pc := pc s + (if n mod 2 ^ 64 \<ge> a mod 2 ^ 64 then 1 + ofs else 2)\<rparr>))"
proof -
  have br: "Integer_branch_comparison tst hk s =
      Some (Next (s\<lparr>pc := pc s + (if tst (word_of_int n) (word_of_int a) then 1 + ofs else 2)\<rparr>))" for tst
    using assms by (simp add: Integer_branch_comparison_def operand_eq Long_val_tag_int add.assoc)
  have n: "fits63 n" using assms(3) by (rule fits63_operand)
  have u: "(word_of_int x :: u64) < word_of_int y \<longleftrightarrow> x mod 2 ^ 64 < y mod 2 ^ 64" for x y
    unfolding word_less_def unsigned_of_int take_bit_eq_mod by simp
  have ule: "(word_of_int x :: u64) \<le> word_of_int y \<longleftrightarrow> x mod 2 ^ 64 \<le> y mod 2 ^ 64" for x y
    unfolding word_le_def unsigned_of_int take_bit_eq_mod by simp
  show ?thesis
    unfolding Instruct_BEQ_def Instruct_BNEQ_def Instruct_BLTINT_def Instruct_BLEINT_def Instruct_BGTINT_def
      Instruct_BGEINT_def Instruct_BULTINT_def Instruct_BUGEINT_def br u ule
    using n assms(2) by (simp only: sint_word_of_int word_of_int_operand_eq)
qed

theorem branch_comparison_instructions_witness:
  "map_option pc_of (Instruct_BLTINT quiet_hooks (int_args 9 0\<lparr>code := [4, 5]\<rparr>)) = Some 6"
  using branch_comparison_instructions [of "int_args 9 0\<lparr>code := [4, 5]\<rparr>" 9 4 5 quiet_hooks]
  by (simp add: int_args_def sample_vm_fields pc_at_def int_nth_def nth_opt_def fits63_def Max_long_def Min_long_def)

lemma doubled_eq: "- (2 ^ 30) \<le> n \<Longrightarrow> n < 2 ^ 30 \<Longrightarrow> doubled n = word_of_int (2 * n)"
  by (simp add: doubled_def c_int_id)

lemma doubled_big:
  assumes "2 ^ 30 \<le> n" "n < 2 ^ 31"
  shows "doubled n = word_of_int (2 * n - 2 ^ 32)"
proof -
  have "(word_of_int (2 * n) :: u32) = word_of_int (2 * n - 2 ^ 32)"
    by (simp add: word_of_int_eq_iff take_bit_eq_mod mod_eq_dvd_iff)
  then have "c_int (2 * n) = c_int (2 * n - 2 ^ 32)" by (simp only: c_int_def)
  also have "\<dots> = 2 * n - 2 ^ 32" using assms by (intro c_int_id) simp_all
  finally show ?thesis by (simp add: doubled_def)
qed

text \<open>OFFSETINT adds its operand to the accumulator as long as the operand fits 31 bits, the range
  of the compiler's immediates; from \<open>2 ^ 30\<close> on the 32-bit doubling wraps and \<open>2 ^ 31\<close> is lost.\<close>

theorem offsetint_range:
  assumes "accu s = Word (tag_int a)" "pc_at s 0 = Some n" "- (2 ^ 30) \<le> n"
  shows "Instruct_OFFSETINT hk s =
    Some (Next (s\<lparr>accu := Word (tag_int (a + (if n < 2 ^ 30 then n else n - 2 ^ 31))), pc := pc s + 1\<rparr>))"
proof -
  obtain w :: u32 where "n = sint w" using assms(2) by (auto simp: pc_at_def)
  then have "n < 2 ^ 31" using sint_lt [of w] by simp
  with assms show ?thesis
    by (cases "n < 2 ^ 30") (simp_all add: Instruct_OFFSETINT_def doubled_eq doubled_big tag_int_def algebra_simps)
qed

theorem offsetint_range_witness:
  "map_option accu_of (Instruct_OFFSETINT quiet_hooks (int_args 1 0\<lparr>code := [2 ^ 30]\<rparr>)) =
    Some (Word (tag_int (1 - 2 ^ 30)))"
  using offsetint_range [of "int_args 1 0\<lparr>code := [2 ^ 30]\<rparr>" 1 "2 ^ 30" quiet_hooks]
  by (simp add: int_args_def sample_vm_fields pc_at_def int_nth_def nth_opt_def)

end
