(* ===== verification/Closure_Props.thy ===== *)
theory Closure_Props
  imports Interp_Apply Sample_State
begin

text \<open>
  The layout of the closures that CLOSURE and CLOSUREREC build, and how OFFSETCLOSURE moves between
  the functions of one recursive definition.
\<close>

text \<open>The part of a recursive closure block after the first function.\<close>

fun rec_funcs :: "int \<Rightarrow> nat \<Rightarrow> u64 \<Rightarrow> int list \<Rightarrow> mlvalue list" where
  "rec_funcs c i envofs [] = []"
| "rec_funcs c i envofs (ofs # ofss) =
     Word (Make_header (i * 3) Infix_tag 0) # Code (c + ofs) # Word (Make_closinfo 0 envofs) #
     rec_funcs c (Suc i) (envofs - 3) ofss"

lemma length_rec_funcs [simp]: "length (rec_funcs c i e ofss) = 3 * length ofss"
  by (induction ofss arbitrary: i e) simp_all

lemma rec_funcs_nth:
  "j < length ofss \<Longrightarrow>
     rec_funcs c i e ofss ! (3 * j) = Word (Make_header ((i + j) * 3) Infix_tag 0) \<and>
     rec_funcs c i e ofss ! (3 * j + 1) = Code (c + ofss ! j) \<and>
     rec_funcs c i e ofss ! (3 * j + 2) = Word (Make_closinfo 0 (e - 3 * of_nat j))"
proof (induction ofss arbitrary: i e j)
  case Nil
  then show ?case by simp
next
  case (Cons ofs ofss)
  show ?case
  proof (cases j)
    case 0
    then show ?thesis by simp
  next
    case (Suc k)
    with Cons.IH [of k "Suc i" "e - 3"] Cons.prems show ?thesis by (simp add: algebra_simps)
  qed
qed

lemma drop_3_Cons: "drop (3 + n) (a # b # c # xs) = drop n xs"
  by (simp add: numeral_3_eq_3)

lemma closurerec_fill_eq:
  "heap s = h @ [blk] \<Longrightarrow> \<forall>j < length ofss. pc_at s (int (i + j)) = Some (ofss ! j) \<Longrightarrow> 1 \<le> i \<Longrightarrow>
   3 * i - 1 + 3 * length ofss \<le> length (block_fields blk) \<Longrightarrow>
   closurerec_fill (length ofss) i envofs (Ptr (length h) 0) s =
     Some (s\<lparr>heap := h @ [blk\<lparr>block_fields := take (3 * i - 1) (block_fields blk) @
         rec_funcs (pc s) i (envofs - 3) ofss @ drop (3 * i - 1 + 3 * length ofss) (block_fields blk)\<rparr>],
       sp := rev (map (\<lambda>j. Ptr (length h) (3 * int j)) [i..<i + length ofss]) @ sp s\<rparr>)"
proof (induction ofss arbitrary: s i envofs blk)
  case Nil
  then show ?case by simp
next
  case (Cons ofs ofss)
  let ?new = "[Word (Make_header (i * 3) Infix_tag 0), Code (pc s + ofs), Word (Make_closinfo 0 (envofs - 3))]"
  let ?F = "block_fields blk"
  let ?blk = "blk\<lparr>block_fields := take (3 * i - 1) ?F @ ?new @ drop (3 * i - 1 + 3) ?F\<rparr>"
  let ?s = "push (Ptr (length h) (3 * int i)) (s\<lparr>heap := h @ [?blk]\<rparr>)"
  have i: "int (3 * i - 1) = 3 * int i - 1" using Cons.prems(3) by simp
  have "init_fields (heap s) (Ptr (length h) 0) (3 * int i - 1) ?new = Some (h @ [?blk])"
    using init_fields_fresh [of "3 * i - 1" ?new blk h] Cons.prems by (simp add: i)
  moreover have "pc_at s (int i) = Some ofs" using Cons.prems(2) by force
  ultimately have "closurerec_fill (length (ofs # ofss)) i envofs (Ptr (length h) 0) s =
      closurerec_fill (length ofss) (Suc i) (envofs - 3) (Ptr (length h) 0) ?s" by simp
  also have "\<dots> = Some (?s\<lparr>heap := h @ [?blk\<lparr>block_fields := take (3 * Suc i - 1) (block_fields ?blk) @
         rec_funcs (pc ?s) (Suc i) (envofs - 3 - 3) ofss @ drop (3 * Suc i - 1 + 3 * length ofss) (block_fields ?blk)\<rparr>],
       sp := rev (map (\<lambda>j. Ptr (length h) (3 * int j)) [Suc i..<Suc i + length ofss]) @ sp ?s\<rparr>)"
  proof (rule Cons.IH)
    show "heap ?s = h @ [?blk]" by (simp add: push_def)
    show "\<forall>j < length ofss. pc_at ?s (int (Suc i + j)) = Some (ofss ! j)"
    proof (intro allI impI)
      fix j assume "j < length ofss"
      with Cons.prems(2) have "pc_at s (int (i + Suc j)) = Some ((ofs # ofss) ! Suc j)"
        by (metis Suc_less_eq length_Cons)
      then show "pc_at ?s (int (Suc i + j)) = Some (ofss ! j)" by simp
    qed
  qed (use Cons.prems in auto)
  also have "take (3 * Suc i - 1) (block_fields ?blk) = take (3 * i - 1) ?F @ ?new"
    using Cons.prems by simp
  also have "drop (3 * Suc i - 1 + 3 * length ofss) (block_fields ?blk) =
      drop (3 * i - 1 + 3 * length (ofs # ofss)) ?F"
    using Cons.prems by (simp add: drop_3_Cons add.commute)
  also have "rev (map (\<lambda>j. Ptr (length h) (3 * int j)) [Suc i..<Suc i + length ofss]) @ sp ?s =
      rev (map (\<lambda>j. Ptr (length h) (3 * int j)) [i..<i + length (ofs # ofss)]) @ sp s"
    by (simp add: upt_conv_Cons push_def del: upt_Suc)
  finally show ?case by (simp add: push_def del: upt_Suc)
qed

text \<open>The block of a recursive definition: \<open>ofss\<close> the code offsets, \<open>vars\<close> the shared free variables.\<close>

definition rec_block :: "int \<Rightarrow> int list \<Rightarrow> mlvalue list \<Rightarrow> block" where
  "rec_block c ofss vars = \<lparr>block_tag = Closure_tag, block_fields =
     [Code (c + hd ofss), Word (Make_closinfo 0 (of_nat (3 * length ofss - 1)))] @
     rec_funcs c 1 (of_nat (3 * length ofss - 1) - 3) (tl ofss) @ vars\<rparr>"

lemma closurerec_build_eq:
  assumes code: "\<forall>j < length ofss. pc_at s (int j) = Some (ofss ! j)" and funs: "ofss = ofs # ofss'"
    and e: "e = 3 * length ofss - 1" and args: "sp s = vars @ rest"
    and fresh: "heap s = h @ [fresh_block (e + length vars) Closure_tag fill]"
  shows "closurerec_build (length ofss) (length vars) e (Ptr (length h) 0) s =
    Some (Next (s\<lparr>accu := Ptr (length h) 0, heap := h @ [rec_block (pc s) ofss vars],
      sp := rev (map (\<lambda>j. Ptr (length h) (3 * int j)) [0..<length ofss]) @ rest,
      pc := pc s + int (length ofss)\<rparr>))"
proof -
  let ?a = "Ptr (length h) 0" and ?u = "Word fill" and ?info = "Word (Make_closinfo 0 (of_nat e))"
  let ?b1 = "\<lparr>block_tag = Closure_tag, block_fields = replicate e ?u @ vars\<rparr>"
  let ?b2 = "\<lparr>block_tag = Closure_tag, block_fields = [Code (pc s + ofs), ?info] @ replicate (e - 2) ?u @ vars\<rparr>"
  let ?s2 = "push ?a (s\<lparr>accu := ?a, heap := h @ [?b2], sp := rest\<rparr>)"
  have e2: "e = 2 + 3 * length ofss'" using e funs by simp
  have i1: "init_fields (heap s) ?a (int e) vars = Some (h @ [?b1])"
    unfolding fresh by (subst init_fields_fresh) (simp_all add: fresh_block_def)
  have i2: "init_fields (h @ [?b1]) ?a 0 [Code (pc s + ofs), ?info] = Some (h @ [?b2])"
    using init_fields_fresh [of 0 "[Code (pc s + ofs), ?info]" ?b1 h] e2 by simp
  have "\<forall>j < length ofss'. pc_at ?s2 (int (1 + j)) = Some (ofss' ! j)"
  proof (intro allI impI)
    fix j assume "j < length ofss'"
    with code funs have "pc_at s (int (Suc j)) = Some (ofss ! Suc j)" by (metis Suc_less_eq length_Cons)
    then show "pc_at ?s2 (int (1 + j)) = Some (ofss' ! j)" by (simp add: funs)
  qed
  then have "closurerec_fill (length ofss') 1 (of_nat e) ?a ?s2 =
      Some (?s2\<lparr>heap := h @ [?b2\<lparr>block_fields := take 2 (block_fields ?b2) @
         rec_funcs (pc ?s2) 1 (of_nat e - 3) ofss' @ drop (2 + 3 * length ofss') (block_fields ?b2)\<rparr>],
       sp := rev (map (\<lambda>j. Ptr (length h) (3 * int j)) [1..<1 + length ofss']) @ sp ?s2\<rparr>)"
    using closurerec_fill_eq [of ?s2 h ?b2 ofss' 1 "of_nat e"] e2 by (simp add: push_def)
  moreover have "take 2 (block_fields ?b2) = [Code (pc s + ofs), ?info]" by (simp add: numeral_2_eq_2)
  moreover have "drop (2 + 3 * length ofss') (block_fields ?b2) = vars" by (simp add: e2)
  moreover have "[0..<length ofss] = 0 # [1..<1 + length ofss']" by (simp add: funs upt_conv_Cons del: upt_Suc)
  moreover have "rec_block (pc s) ofss vars = ?b2\<lparr>block_fields := [Code (pc s + ofs), ?info] @
      rec_funcs (pc s) 1 (of_nat e - 3) ofss' @ vars\<rparr>" by (simp add: rec_block_def funs e2)
  ultimately have fill: "closurerec_fill (length ofss') 1 (of_nat e) ?a ?s2 =
      Some (?s2\<lparr>heap := h @ [rec_block (pc s) ofss vars],
        sp := rev (map (\<lambda>j. Ptr (length h) (3 * int j)) [0..<length ofss]) @ rest\<rparr>)"
    by (simp add: push_def)
  have "pc_at s 0 = Some ofs" using code funs by fastforce
  then show ?thesis
    using fill by (simp add: closurerec_build_def args i1 i2 sp_add_eq funs) (simp add: push_def)
qed

section \<open>Reading the layout back\<close>

lemma Start_env_closinfo_Make:
  assumes "d < 2 ^ 55"
  shows "Start_env_closinfo (Make_closinfo 0 (of_nat d)) = of_nat d"
proof -
  have "push_bit 8 (Make_closinfo 0 (of_nat d)) = (of_nat (512 * d + 256) :: u64)"
    by (simp add: Make_closinfo_def push_bit_eq_mult algebra_simps)
  moreover have "unat (of_nat (512 * d + 256) :: u64) = 512 * d + 256"
    using assms by (intro unat_of_nat_small) simp
  ultimately have "unat (Start_env_closinfo (Make_closinfo 0 (of_nat d))) = (512 * d + 256) div 512"
    by (simp only: Start_env_closinfo_def unat_drop_bit_div) simp
  also have "\<dots> = unat (of_nat d :: u64)" using assms by (subst unat_of_nat_small) simp_all
  finally show ?thesis by (simp add: word_unat_eq_iff)
qed

lemma infix_header:
  assumes "w < 2 ^ 54"
  shows "Tag_hd (Make_header w Infix_tag 0) = Infix_tag" "Wosize_hd (Make_header w Infix_tag 0) = w"
proof -
  have h: "Make_header w Infix_tag 0 = (of_nat (1024 * w + 249) :: u64)"
    by (simp add: Make_header_def Infix_tag_def push_bit_eq_mult)
  have u: "unat (Make_header w Infix_tag 0) = 1024 * w + 249"
    unfolding h using assms by (intro unat_of_nat_small) simp
  have "unat (Make_header w Infix_tag 0 AND 0xFF) = unat (take_bit 8 (Make_header w Infix_tag 0))"
    by (simp add: take_bit_eq_mask mask_eq_exp_minus_1)
  also have "\<dots> = (1024 * w + 249) mod 256"
    by (simp only: unat_take_bit_mod u) simp
  finally show "Tag_hd (Make_header w Infix_tag 0) = Infix_tag" by (simp add: Tag_hd_def Infix_tag_def) presburger
  have "unat (drop_bit 10 (Make_header w Infix_tag 0)) = (1024 * w + 249) div 1024"
    by (simp only: unat_drop_bit_div u) simp
  then show "Wosize_hd (Make_header w Infix_tag 0) = w" by (simp add: Wosize_hd_def)
qed

lemma rec_block_nth:
  assumes "i < length ofss"
  shows "block_fields (rec_block c ofss vars) ! (3 * i) = Code (c + ofss ! i)"
    and "block_fields (rec_block c ofss vars) ! (3 * i + 1) = Word (Make_closinfo 0 (of_nat (3 * (length ofss - i) - 1)))"
    and "0 < i \<Longrightarrow> block_fields (rec_block c ofss vars) ! (3 * i - 1) = Word (Make_header (i * 3) Infix_tag 0)"
proof -
  let ?F = "block_fields (rec_block c ofss vars)"
  obtain ofs ofss' where o: "ofss = ofs # ofss'" using assms by (cases ofss) auto
  have all: "?F ! (3 * i) = Code (c + ofss ! i) \<and>
    ?F ! (3 * i + 1) = Word (Make_closinfo 0 (of_nat (3 * (length ofss - i) - 1))) \<and>
    (0 < i \<longrightarrow> ?F ! (3 * i - 1) = Word (Make_header (i * 3) Infix_tag 0))"
  proof (cases i)
    case 0
    then show ?thesis by (simp add: rec_block_def o)
  next
    case (Suc j)
    let ?e = "of_nat (3 * length ofss - 1) - 3 :: u64"
    have j: "j < length ofss'" using assms Suc o by simp
    have R: "?F ! (2 + k) = rec_funcs c 1 ?e ofss' ! k" if "k < 3 * length ofss'" for k
      using that by (simp add: rec_block_def o nth_append)
    have "3 * (length ofss - i) - 1 + 3 * i = 3 * length ofss - 1" using assms by simp
    then have "of_nat (3 * length ofss - 1) = (of_nat (3 * (length ofss - i) - 1) + of_nat (3 * i) :: u64)"
      by (metis of_nat_add)
    then have e: "?e - 3 * of_nat j = of_nat (3 * (length ofss - i) - 1)" by (simp add: Suc algebra_simps)
    have k: "3 * i = 2 + (3 * j + 1)" "3 * i + 1 = 2 + (3 * j + 2)" "3 * i - 1 = 2 + 3 * j" "1 + j = i"
      using Suc by simp_all
    have "?F ! (3 * i) = rec_funcs c 1 ?e ofss' ! (3 * j + 1)" unfolding k(1) by (rule R) (use j in simp)
    moreover have "?F ! (3 * i + 1) = rec_funcs c 1 ?e ofss' ! (3 * j + 2)" unfolding k(2) by (rule R) (use j in simp)
    moreover have "?F ! (3 * i - 1) = rec_funcs c 1 ?e ofss' ! (3 * j)" unfolding k(3) by (rule R) (use j in simp)
    moreover have "ofss ! i = ofss' ! j" by (simp add: Suc o)
    ultimately show ?thesis using rec_funcs_nth [OF j, of c 1 ?e, unfolded e k(4)] by simp
  qed
  then show "?F ! (3 * i) = Code (c + ofss ! i)"
    "?F ! (3 * i + 1) = Word (Make_closinfo 0 (of_nat (3 * (length ofss - i) - 1)))"
    "0 < i \<Longrightarrow> ?F ! (3 * i - 1) = Word (Make_header (i * 3) Infix_tag 0)" by simp_all
qed

lemma length_rec_block: "ofss \<noteq> [] \<Longrightarrow> length (block_fields (rec_block c ofss vars)) = 3 * length ofss - 1 + length vars"
  by (cases ofss) (simp_all add: rec_block_def)

lemma rec_block_var:
  "ofss \<noteq> [] \<Longrightarrow> k < length vars \<Longrightarrow> block_fields (rec_block c ofss vars) ! (3 * length ofss - 1 + k) = vars ! k"
  by (cases ofss) (simp_all add: rec_block_def nth_append)

text \<open>What a client of the block sees of function \<open>i\<close>, at the infix pointer \<open>Ptr b (3 i)\<close>.\<close>

definition closure_view :: "heap \<Rightarrow> nat \<Rightarrow> nat \<Rightarrow> nat \<Rightarrow> int \<Rightarrow> mlvalue list \<Rightarrow> bool" where
  "closure_view h b n i c vars \<longleftrightarrow>
     Code_val h (Ptr b (3 * int i)) = Some c \<and>
     Field h (Ptr b (3 * int i)) 1 = Some (Word (Make_closinfo 0 (of_nat (3 * (n - i) - 1)))) \<and>
     Start_env_closinfo (Make_closinfo 0 (of_nat (3 * (n - i) - 1))) = of_nat (3 * (n - i) - 1) \<and>
     (\<forall>k < length vars. Field h (Ptr b (3 * int i)) (int (3 * (n - i) - 1) + int k) = Some (vars ! k)) \<and>
     Tag_val h (Ptr b (3 * int i)) = Some (if i = 0 then Closure_tag else Infix_tag) \<and>
     (0 < i \<longrightarrow> Wosize_val h (Ptr b (3 * int i)) = Some (3 * i))"

lemma rec_block_view:
  assumes blk: "nth_opt h b = Some (rec_block c ofss vars)" and i: "i < length ofss" and sz: "3 * length ofss < 2 ^ 54"
  shows "closure_view h b (length ofss) i (c + ofss ! i) vars"
proof -
  let ?F = "block_fields (rec_block c ofss vars)"
  have ne: "ofss \<noteq> []" using i by auto
  have F: "Field h (Ptr b (3 * int i)) m = (if 0 \<le> 3 * int i + m then nth_opt ?F (nat (3 * int i + m)) else None)" for m
    by (simp add: Field_def int_nth_def blk)
  have len: "length ?F = 3 * length ofss - 1 + length vars" using length_rec_block [OF ne] .
  have f0: "Field h (Ptr b (3 * int i)) 0 = Some (Code (c + ofss ! i))"
    using rec_block_nth(1) [OF i] i len by (simp add: F nth_opt_def nat_mult_distrib)
  have f1: "Field h (Ptr b (3 * int i)) 1 = Some (Word (Make_closinfo 0 (of_nat (3 * (length ofss - i) - 1))))"
    using rec_block_nth(2) [OF i] i len by (simp add: F nth_opt_def nat_add_distrib nat_mult_distrib)
  have fm: "Field h (Ptr b (3 * int i)) (- 1) = Some (Word (Make_header (i * 3) Infix_tag 0))" if "0 < i"
    using rec_block_nth(3) [OF i that] i len that by (simp add: F nth_opt_def nat_diff_distrib nat_mult_distrib)
  have fv: "Field h (Ptr b (3 * int i)) (int (3 * (length ofss - i) - 1) + int k) = Some (vars ! k)"
    if "k < length vars" for k
  proof -
    have "3 * int i + (int (3 * (length ofss - i) - 1) + int k) = int (3 * length ofss - 1 + k)" using i by simp
    then show ?thesis unfolding F using rec_block_var [OF ne that] len that by (simp only: nat_int) (simp add: nth_opt_def)
  qed
  have tag: "block_tag (rec_block c ofss vars) = Closure_tag" by (simp add: rec_block_def)
  show ?thesis
    unfolding closure_view_def
    using f0 f1 fm fv tag i sz infix_header [of "i * 3"]
      Start_env_closinfo_Make [of "3 * (length ofss - i) - 1"]
    by (auto simp: Code_val_def Tag_val_def Wosize_val_def mult.commute blk)
qed

section \<open>The instructions\<close>

lemma pc_at_range: "pc_at s k = Some n \<Longrightarrow> n < 2 ^ 31"
  using sint_lt [where 'a = 32] by (auto simp: pc_at_def bind_Some_iff)

lemma OFFSETCLOSURE_ptr:
  "pc_at t 0 = Some n \<Longrightarrow> env t = Ptr b i \<Longrightarrow>
   Instruct_OFFSETCLOSURE hk t = Some (Next (t\<lparr>pc := pc t + 1, accu := Ptr b (i + n)\<rparr>))"
  by (simp add: Instruct_OFFSETCLOSURE_def operand_eq)

text \<open>C13: CLOSUREREC builds one block for all the functions of a recursive definition, in the minor heap when it is small
  and in the shared heap otherwise, pushes a pointer to each, the last on top, and every function seen through
  its own pointer has its code, finds the shared free variables at the offset its info word gives, and has an
  infix header that leads back to the block. In function \<open>i\<close>, OFFSETCLOSURE with the operand \<open>3 (j - i)\<close> gives function \<open>j\<close>, and so do the
  instructions without operand for the neighbours and for \<open>i\<close> itself. There must be memory for the block without a
  collection.\<close>

theorem closurerec_layout:
  assumes code: "pc_at s 0 = Some (int (length ofss))" "pc_at s 1 = Some (int (length vars))"
      "\<forall>j < length ofss. pc_at s (2 + int j) = Some (ofss ! j)"
    and funs: "ofss \<noteq> []" and args: "(if vars = [] then sp s else accu s # sp s) = vars @ rest"
    and words: "words = 3 * length ofss - 1 + length vars"
    and mem: "if words \<le> Max_young_wosize then \<forall>r. \<not> gc_interrupt hk words r else \<forall>r. shared_try_alloc hk words r"
    and b: "b = length (heap s)"
  shows "\<exists>s'. Instruct_CLOSUREREC hk s = Some (Next s') \<and> pc s' = pc s + 2 + int (length ofss) \<and>
    sp s' = rev (map (\<lambda>i. Ptr b (3 * int i)) [0..<length ofss]) @ rest \<and>
    accu s' = Ptr b 0 \<and> take b (heap s') = heap s \<and>
    (\<forall>i < length ofss. closure_view (heap s') b (length ofss) i (pc s + 2 + ofss ! i) vars) \<and>
    (\<forall>t i j. env t = Ptr b (3 * int i) \<longrightarrow>
      (pc_at t 0 = Some (3 * (int j - int i)) \<longrightarrow>
        Instruct_OFFSETCLOSURE hk t = Some (Next (t\<lparr>pc := pc t + 1, accu := Ptr b (3 * int j)\<rparr>))) \<and>
      Instruct_OFFSETCLOSUREn 3 hk t = Some (Next (t\<lparr>accu := Ptr b (3 * int (Suc i))\<rparr>)) \<and>
      Instruct_OFFSETCLOSURE0 hk t = Some (Next (t\<lparr>accu := Ptr b (3 * int i)\<rparr>)) \<and>
      (0 < i \<longrightarrow> Instruct_OFFSETCLOSUREn (- 3) hk t = Some (Next (t\<lparr>accu := Ptr b (3 * int (i - 1))\<rparr>))))"
proof -
  obtain ofs ofss' where o: "ofss = ofs # ofss'" using funs by (cases ofss) auto
  define e where "e = 3 * length ofss - Suc 0"
  let ?s1 = "s\<lparr>pc := pc s + 2, sp := vars @ rest\<rparr>"
  have start: "(if 0 < int (length vars) then push (accu s) (s\<lparr>pc := pc s + 2\<rparr>) else s\<lparr>pc := pc s + 2\<rparr>) = ?s1"
    using args by (cases vars) (auto simp: push_def)
  have g: "guard (1 \<le> int (length ofss) \<and> 0 \<le> int (length vars)) = Some ()" by (simp add: o)
  have e_nat: "length ofss * 3 - 1 = e" and sz: "words = e + length vars"
    using words by (simp_all add: e_def mult.commute)
  have accu: "accu (s\<lparr>pc := pc s + 2\<rparr>) = accu s" by simp
  have n: "3 * length ofss < 2 ^ 54" using pc_at_range [OF code(1)] by simp
  have "Instruct_CLOSUREREC hk s =
      (if words \<le> Max_young_wosize then Alloc_small hk words (int Closure_tag) ?s1 (closurerec_build (length ofss) (length vars) e)
       else caml_alloc_shr hk words (int Closure_tag) ?s1 (closurerec_build (length ofss) (length vars) e))"
    by (simp only: Instruct_CLOSUREREC_def operand_eq [OF code(1)] operand_eq2 [OF code(2)] Option.bind.bind_lunit
        prod.case Let_def accu start nat_int g e_nat sz)
  then obtain fill where "Instruct_CLOSUREREC hk s = closurerec_build (length ofss) (length vars) e (Ptr b 0)
      (?s1\<lparr>heap := heap s @ [fresh_block (e + length vars) Closure_tag fill]\<rparr>)"
    using mem that [of Debug_uninit_minor] that [of Debug_uninit_major]
    by (auto simp: Alloc_small_quiet caml_alloc_shr_def Closure_tag_def sz e_def o b split: if_splits)
  also have "\<dots> = Some (Next (?s1\<lparr>accu := Ptr b 0, heap := heap s @ [rec_block (pc ?s1) ofss vars],
      sp := rev (map (\<lambda>j. Ptr b (3 * int j)) [0..<length ofss]) @ rest, pc := pc ?s1 + int (length ofss)\<rparr>))"
    using code(3) o unfolding b by (subst closurerec_build_eq) (simp_all add: e_def)
  finally show ?thesis
    using rec_block_view [of "heap s @ [rec_block (pc s + 2) ofss vars]" b "pc s + 2" ofss vars] n
    by (auto simp: b OFFSETCLOSURE_ptr Instruct_OFFSETCLOSUREn_def Instruct_OFFSETCLOSURE0_def of_nat_diff)
qed

theorem closurerec_layout_witness:
  "\<exists>s'. Instruct_CLOSUREREC quiet_hooks
      (sample_vm\<lparr>code := [2, 1, 10, 20], accu := Val_int 7\<rparr>) = Some (Next s') \<and>
    sp s' = [Ptr 0 3, Ptr 0 0] \<and> closure_view (heap s') 0 2 1 22 [Val_int 7] \<and>
    Instruct_OFFSETCLOSURE quiet_hooks (s'\<lparr>code := [3], pc := 0, env := Ptr 0 0\<rparr>) =
      Some (Next (s'\<lparr>code := [3], pc := 1, env := Ptr 0 0, accu := Ptr 0 3\<rparr>))"
proof -
  let ?s = "sample_vm\<lparr>code := [2, 1, 10, 20], accu := Val_int 7\<rparr>"
  have facts: "pc_at ?s 0 = Some (int (length [10, 20 :: int]))" "pc_at ?s 1 = Some (int (length [Val_int 7]))"
    "\<forall>j < length [10, 20]. pc_at ?s (2 + int j) = Some ([10, 20] ! j)" "[10, 20 :: int] \<noteq> []"
    "(if [Val_int 7] = [] then sp ?s else accu ?s # sp ?s) = [Val_int 7] @ []"
    "6 = 3 * length [10, 20 :: int] - 1 + length [Val_int 7]"
    "if 6 \<le> Max_young_wosize then \<forall>r. \<not> gc_interrupt quiet_hooks 6 r else \<forall>r. shared_try_alloc quiet_hooks 6 r"
    "0 = length (heap ?s)"
    by (simp_all add: pc_at_def int_nth_def nth_opt_def sample_vm_fields quiet_hooks_def Max_young_wosize_def
      numeral_2_eq_2 less_Suc_eq all_conj_distrib)
  from closurerec_layout [OF facts] show ?thesis
  proof (elim exE conjE, goal_cases)
    case (1 s')
    let ?t = "s'\<lparr>code := [3], pc := 0, env := Ptr 0 0\<rparr>"
    have "env ?t = Ptr 0 (3 * int 0)" "pc_at ?t 0 = Some (3 * (int 1 - int 0))" by (simp_all add: pc_at_def int_nth_def)
    from mp [OF conjunct1 [OF mp [OF spec [OF spec [OF spec [OF 1(7)]]] this(1)]] this(2)]
    have "Instruct_OFFSETCLOSURE quiet_hooks ?t = Some (Next (?t\<lparr>pc := pc ?t + 1, accu := Ptr 0 (3 * int 1)\<rparr>))" .
    moreover have "closure_view (heap s') 0 2 1 22 [Val_int 7]"
      using spec [OF 1(6), of 1] by (simp add: sample_vm_fields numeral_2_eq_2)
    ultimately show ?case using 1(1,3) by (intro exI [of _ s']) simp
  qed
qed

end
