(* ===== verification/Interp_Control.thy ===== *)
theory Interp_Control
  imports Interp_Base
begin

text \<open>
  The instructions of \<open>caml_interprete\<close> for branches, exceptions, C calls, the effect operations
  and the end of the program.
\<close>

section \<open>Branches\<close>

definition take_branch :: "bool \<Rightarrow> vm \<Rightarrow> outcome option" where
  "take_branch b s =
     (if b then do { ofs \<leftarrow> pc_at s 0; Some (Next (s\<lparr>pc := pc s + ofs\<rparr>)) }
      else Some (Next (s\<lparr>pc := pc s + 1\<rparr>)))"

definition Instruct_BRANCH :: handler where
  "Instruct_BRANCH hk s = take_branch True s"

definition Instruct_BRANCHIF :: handler where
  "Instruct_BRANCHIF hk s = do { eq \<leftarrow> value_eq (accu s) Val_false; take_branch (\<not> eq) s }"

definition Instruct_BRANCHIFNOT :: handler where
  "Instruct_BRANCHIFNOT hk s = do { eq \<leftarrow> value_eq (accu s) Val_false; take_branch eq s }"

text \<open>The operand packs the number of constant cases (low half) and block cases (high half).\<close>

definition Instruct_SWITCH :: handler where
  "Instruct_SWITCH hk s = do {
     sizes \<leftarrow> int_nth (code s) (pc s);
     let s = s\<lparr>pc := pc s + 1\<rparr>;
     if Is_block (accu s) then do {
       tag \<leftarrow> Tag_val (heap s) (accu s);
       if tag < unat (drop_bit 16 sizes) then do {
         ofs \<leftarrow> pc_at s (int (unat (sizes AND 0xFFFF) + tag));
         Some (Next (s\<lparr>pc := pc s + ofs\<rparr>)) }
       else Some (Fatal ''assertion failure'') }
     else do {
       w \<leftarrow> word_of (accu s);
       if unat (Long_val w) < unat (sizes AND 0xFFFF) then do {
         ofs \<leftarrow> pc_at s (int (unat (Long_val w)));
         Some (Next (s\<lparr>pc := pc s + ofs\<rparr>)) }
       else Some (Fatal ''assertion failure'') } }"

definition Instruct_BOOLNOT :: handler where
  "Instruct_BOOLNOT hk s = do {
     w \<leftarrow> word_of (accu s);
     Some (Next (s\<lparr>accu := Word (Val_long 0 + Val_long 1 - w)\<rparr>)) }"

section \<open>Exceptions\<close>

definition Instruct_PUSHTRAP :: handler where
  "Instruct_PUSHTRAP hk s = do {
     ofs \<leftarrow> pc_at s 0;
     let vs = Code (pc s + ofs) # Val_int (trap_sp_off s) # env s # Word (Val_long (extra_args s)) # sp s;
     Some (Next (s\<lparr>sp := vs, trap_sp_off := - int (length vs), pc := pc s + 1\<rparr>)) }"

definition Instruct_POPTRAP :: handler where
  "Instruct_POPTRAP hk s =
     (if something_pending hk (rt s) then process_signal hk (s\<lparr>pc := pc s - 1\<rparr>)
      else do {
        t \<leftarrow> Option.bind (sp_at s 1) long_of;
        s \<leftarrow> sp_add 4 (s\<lparr>trap_sp_off := t\<rparr>);
        Some (Next s) })"

definition Instruct_RAISE_NOTRACE :: handler where
  "Instruct_RAISE_NOTRACE hk s = raise_notrace s"

definition Instruct_RERAISE :: handler where
  "Instruct_RERAISE hk s = raise_exception s"

definition Instruct_RAISE :: handler where
  "Instruct_RAISE hk s = raise_exception s"

section \<open>Calling C functions\<close>

text \<open>\<open>Primitive(*pc)\<close> on the given arguments.\<close>

definition call_primitive ::
  "hooks \<Rightarrow> mlvalue list \<Rightarrow> int \<Rightarrow> vm \<Rightarrow> outcome option" where
  "call_primitive hk args discard s = do {
     n \<leftarrow> pc_at s 0;
     guard (0 \<le> n);
     c_call (primitive hk (nat n) args (rt s)) s (\<lambda>v s. do {
       s \<leftarrow> Restore_after_c_call (s\<lparr>accu := v\<rparr>);
       s \<leftarrow> sp_add discard s;
       Some (Next (s\<lparr>pc := pc s + 1\<rparr>)) }) }"

definition Instruct_C_CALL1 :: handler where
  "Instruct_C_CALL1 hk s = do {
     s \<leftarrow> Setup_for_c_call s;
     call_primitive hk [accu s] 0 s }"

definition Instruct_C_CALL2 :: handler where
  "Instruct_C_CALL2 hk s = do {
     s \<leftarrow> Setup_for_c_call s;
     a \<leftarrow> sp_at s 2;
     call_primitive hk [accu s, a] 1 s }"

definition Instruct_C_CALL3 :: handler where
  "Instruct_C_CALL3 hk s = do {
     s \<leftarrow> Setup_for_c_call s;
     a \<leftarrow> sp_at s 2;
     b \<leftarrow> sp_at s 3;
     call_primitive hk [accu s, a, b] 2 s }"

definition Instruct_C_CALL4 :: handler where
  "Instruct_C_CALL4 hk s = do {
     s \<leftarrow> Setup_for_c_call s;
     a \<leftarrow> sp_at s 2;
     b \<leftarrow> sp_at s 3;
     c \<leftarrow> sp_at s 4;
     call_primitive hk [accu s, a, b, c] 3 s }"

definition Instruct_C_CALL5 :: handler where
  "Instruct_C_CALL5 hk s = do {
     s \<leftarrow> Setup_for_c_call s;
     a \<leftarrow> sp_at s 2;
     b \<leftarrow> sp_at s 3;
     c \<leftarrow> sp_at s 4;
     d \<leftarrow> sp_at s 5;
     call_primitive hk [accu s, a, b, c, d] 4 s }"

text \<open>C_CALLN passes the address of its arguments on the stack and their number.\<close>

definition Instruct_C_CALLN :: handler where
  "Instruct_C_CALLN hk s = do {
     (nargs, s) \<leftarrow> operand s;
     s \<leftarrow> Setup_for_c_call (push (accu s) s);
     guard (0 \<le> nargs);
     args \<leftarrow> take_opt (nat nargs) (drop 2 (sp s));
     call_primitive hk args nargs s }"

section \<open>Machine control\<close>

definition Instruct_STOP :: handler where
  "Instruct_STOP hk s = do {
     rep \<leftarrow> stop_report (prof s);
     s \<leftarrow> save_sp (s\<lparr>external_raise := initial_external_raise s, trap_sp_off := initial_trap_sp_off s\<rparr>);
     Some (Finished (accu s) rep s) }"

text \<open>
  What EVENT and BREAK do before they restart the instruction they replaced, which is
  \<open>caml_debugger_saved_instruction(pc - 1)\<close>.
\<close>

definition Instruct_EVENT :: "vm \<Rightarrow> vm option" where
  "Instruct_EVENT s = (let s = s\<lparr>caml_event_count := caml_event_count s - 1\<rparr> in
     if caml_event_count s = 0
     then Option.bind (Setup_for_debugger s) Restore_after_debugger
     else Some s)"

definition Instruct_BREAK :: "vm \<Rightarrow> vm option" where
  "Instruct_BREAK s = Option.bind (Setup_for_debugger s) Restore_after_debugger"

definition caml_debugger_saved_instruction :: "vm \<Rightarrow> int \<Rightarrow> u32 option" where
  "caml_debugger_saved_instruction s c = map_of (event_points_table s) c"

section \<open>Context switching\<close>

definition Instruct_RESUME :: handler where
  "Instruct_RESUME hk s = do {
     resume_fn \<leftarrow> sp_at s 0;
     resume_arg \<leftarrow> sp_at s 1;
     s \<leftarrow> sp_add 2 s;
     do_resume resume_fn resume_arg (s\<lparr>sp := Val_int (trap_sp_off s) # Val_int 0 # Code (pc s) #
       env s # Word (Val_long (extra_args s)) # sp s\<rparr>) }"

definition Instruct_RESUMETERM :: handler where
  "Instruct_RESUMETERM hk s = do {
     resume_fn \<leftarrow> sp_at s 0;
     resume_arg \<leftarrow> sp_at s 1;
     n \<leftarrow> pc_at s 0;
     s \<leftarrow> sp_add (n - 2) s;
     vs \<leftarrow> int_upd (sp s) 0 (Val_int (trap_sp_off s));
     vs \<leftarrow> int_upd vs 1 (Word (Val_long (extra_args s)));
     do_resume resume_fn resume_arg (s\<lparr>sp := vs\<rparr>) }"

text \<open>
  Entering the effect handler of fiber \<open>old\<close> on its parent: the suspended parent's offset and extra
  arguments come off its stack, the effect, the continuation and the fiber go on it.
\<close>

definition enter_effect_handler :: "nat \<Rightarrow> nat \<Rightarrow> mlvalue \<Rightarrow> mlvalue \<Rightarrow> vm \<Rightarrow> outcome option" where
  "enter_effect_handler old parent eff cont s = do {
     sto \<leftarrow> get_stack s old;
     s \<leftarrow> load_sp (s\<lparr>current_stack := parent\<rparr>);
     t \<leftarrow> Option.bind (sp_at s 0) long_of;
     x \<leftarrow> Option.bind (sp_at s 1) word_of;
     s \<leftarrow> sp_add 2 (s\<lparr>trap_sp_off := t\<rparr>);
     let hdl = handle_effect sto;
     c \<leftarrow> Code_val (heap s) hdl;
     Some (Check_stacks (s\<lparr>sp := eff # cont # Val_ptr (Some old) # sp s, accu := hdl, pc := c,
       env := hdl, extra_args := Long_val x + 2\<rparr>)) }"

definition Instruct_PERFORM :: handler where
  "Instruct_PERFORM hk s = do {
     let old = current_stack s;
     st \<leftarrow> get_stack s old;
     case stk_parent st of
       None \<Rightarrow> do {
         exn \<leftarrow> Field (heap s) (caml_global_data s) UNHANDLED_EXN;
         raise_exception (s\<lparr>accu := exn\<rparr>) }
     | Some parent \<Rightarrow>
         Alloc_small hk 1 (int Cont_tag) s (\<lambda>cont s. do {
           st \<leftarrow> get_stack s old;
           let s = put_stack s old (st\<lparr>stk_parent := None, stk_sp := Val_int (trap_sp_off s) #
             Code (pc s) # env s # Word (Val_long (extra_args s)) # sp s\<rparr>);
           h \<leftarrow> init_fields (heap s) cont 0 [Val_ptr (Some old)];
           enter_effect_handler old parent (accu s) cont (s\<lparr>heap := h\<rparr>) }) }"

definition Instruct_REPERFORMTERM :: handler where
  "Instruct_REPERFORMTERM hk s = do {
     let eff = accu s;
     cont \<leftarrow> sp_at s 0;
     tail_ptr \<leftarrow> Option.bind (sp_at s 1) Ptr_val;
     let self = current_stack s;
     st \<leftarrow> get_stack s self;
     n \<leftarrow> pc_at s 0;
     s \<leftarrow> sp_add (n - 2) s;
     vs \<leftarrow> int_upd (sp s) 0 (Val_int (trap_sp_off s));
     vs \<leftarrow> int_upd vs 1 (Word (Val_long (extra_args s)));
     let s = s\<lparr>sp := vs\<rparr>;
     case stk_parent st of
       None \<Rightarrow> do {
         s1 \<leftarrow> save_sp s;
         c_call (caml_continuation_use hk cont (rt s1)) s1 (\<lambda>k s2. do {
           arg \<leftarrow> Field (heap s2) (caml_global_data s2) UNHANDLED_EXN;
           do_resume (raise_unhandled s2) arg (s2\<lparr>accu := k\<rparr>) }) }
     | Some parent \<Rightarrow> do {
         s \<leftarrow> save_sp s;
         cont_tail \<leftarrow> tail_ptr;
         stt \<leftarrow> get_stack s cont_tail;
         if stk_parent stt \<noteq> None then Some (Fatal ''assertion failure'')
         else do {
           sts \<leftarrow> get_stack s self;
           let s = put_stack s self (sts\<lparr>stk_parent := None\<rparr>);
           stt \<leftarrow> get_stack s cont_tail;
           let s = put_stack s cont_tail (stt\<lparr>stk_parent := Some self\<rparr>);
           enter_effect_handler self parent eff cont s } } }"

end
