(* ===== verification/Fiber_Props.thy ===== *)
theory Fiber_Props
  imports Interp_Base Sample_State
begin

text \<open>
  Fiber stacks: the alignment of their handler costs no usable word, growing keeps what the stack
  holds and makes the room asked for, and a continuation is resumed at most once.
\<close>

section \<open>Size of a stack\<close>

lemma and_high_mask: "x AND push_bit 4 (- 1) = push_bit 4 (drop_bit 4 (x :: u64))"
  by (rule bit_word_eqI) (auto simp: bit_simps)

lemma unat_and_high_mask: "unat (x AND push_bit 4 (- 1) :: u64) = unat x - unat x mod 16"
proof -
  have "unat (push_bit 4 (drop_bit 4 x)) = unat x div 16 * 16 mod 2 ^ 64"
    by (simp add: push_bit_eq_mult unat_word_ariths unat_drop_bit_div mult.commute)
  also have "\<dots> = unat x div 16 * 16"
  proof (rule mod_less)
    have "unat x < 2 ^ LENGTH(64)" by (rule unsigned_less)
    then show "unat x div 16 * 16 < 2 ^ 64" using div_times_less_eq_dividend [of "unat x" 16] by simp
  qed
  finally show ?thesis unfolding and_high_mask minus_mod_eq_div_mult .
qed

text \<open>the handler record of a stack is aligned to 16 bytes, and the words between the header and the
  handler are the number asked for or one more: the assertion of \<open>alloc_size_class_stack_noexc\<close>.\<close>

theorem usable_words_bounds:
  assumes "8 dvd unat a" "unat a + 48 + 8 * wosize < 2 ^ 64"
  shows "unat (handler_addr a wosize) mod 16 = 0 \<and>
    (usable_words a wosize = wosize \<or> usable_words a wosize = wosize + 1)"
proof -
  let ?N = "unat a + 48 + 8 * wosize"
  have w: "unat (8 * of_nat wosize :: u64) = 8 * wosize"
    using assms(2) unat_of_nat_small [of "8 * wosize"] by simp
  have x: "unat (a + Stack_ctx_bytes + 8 * of_nat wosize + 8) = ?N"
    using assms(2) w by (simp add: Stack_ctx_bytes_def unat_word_ariths)
  have h: "unat (handler_addr a wosize) = ?N - ?N mod 16"
    by (simp only: handler_addr_def unat_and_high_mask x)
  have b: "unat (a + Stack_ctx_bytes) = unat a + 40"
    using assms(2) by (simp add: Stack_ctx_bytes_def unat_word_ariths)
  have r: "?N mod 16 = 0 \<or> ?N mod 16 = 8" using assms(1) by presburger
  then have le: "unat a + 40 \<le> ?N - ?N mod 16" by auto
  then have "unat (handler_addr a wosize - (a + Stack_ctx_bytes)) = ?N - ?N mod 16 - (unat a + 40)"
    using h b by (subst unat_sub) (simp_all add: word_le_nat_alt)
  then have "usable_words a wosize = (8 + 8 * wosize - ?N mod 16) div 8" by (simp add: usable_words_def)
  with r have "usable_words a wosize = wosize \<or> usable_words a wosize = wosize + 1" by auto
  moreover have "unat (handler_addr a wosize) mod 16 = 0" unfolding h by (simp add: minus_mod_eq_mult_div)
  ultimately show ?thesis by blast
qed

theorem usable_words_bounds_witness:
  "unat (handler_addr 0x10000 33) mod 16 = 0 \<and> (usable_words 0x10000 33 = 33 \<or> usable_words 0x10000 33 = 34)"
  using usable_words_bounds [of "0x10000" 33] by simp

section \<open>Growing\<close>

lemma realloc_size_result:
  assumes "0 < unat sz" "unat max_size \<le> 2 ^ 63"
  shows "\<exists>res. realloc_size max_size needed sz = Some res \<and>
    (case res of None \<Rightarrow> True
     | Some n \<Rightarrow> needed \<le> n \<and> (\<exists>k \<ge> 1. unat n = unat sz * 2 ^ k) \<and> unat n < 2 * unat max_size)"
  using assms
proof (induction "unat max_size - unat sz" arbitrary: sz rule: less_induct)
  case less
  show ?case
  proof (cases "max_size \<le> sz")
    case True
    then show ?thesis by (simp add: realloc_size.simps)
  next
    case False
    then have lt: "unat sz < unat max_size" by (simp add: word_le_nat_alt)
    then have dbl: "unat (sz * 2) = 2 * unat sz" using less.prems(2) by (simp add: unat_word_ariths)
    show ?thesis
    proof (cases "sz * 2 < needed")
      case True
      have "unat max_size - unat (sz * 2) < unat max_size - unat sz" using dbl lt less.prems(1) by simp
      from less.hyps [OF this] dbl less.prems obtain res where
        res: "realloc_size max_size needed (sz * 2) = Some res"
        "case res of None \<Rightarrow> True
         | Some n \<Rightarrow> needed \<le> n \<and> (\<exists>k \<ge> 1. unat n = unat (sz * 2) * 2 ^ k) \<and> unat n < 2 * unat max_size" by auto
      have "\<exists>k \<ge> 1. unat n = unat sz * 2 ^ k" if "\<exists>k \<ge> 1. unat n = unat (sz * 2) * 2 ^ k" for n
        using that dbl by (metis le_SucI mult.assoc mult.commute power_Suc)
      with res False True show ?thesis
        by (subst realloc_size.simps) (auto simp: Let_def split: option.splits)
    next
      case False
      have "\<exists>k \<ge> 1. unat (sz * 2) = unat sz * 2 ^ k" by (rule exI [of _ 1]) (simp add: dbl)
      with False lt dbl \<open>\<not> max_size \<le> sz\<close> show ?thesis
        by (subst realloc_size.simps) (simp add: Let_def)
    qed
  qed
qed

text \<open>
  The cache holds freed stacks of the sizes of its classes, and the surroundings allocate stacks
  with the room asked for.
\<close>

definition cache_ok :: "runtime \<Rightarrow> bool" where
  "cache_ok r \<longleftrightarrow> length (stack_cache r) = NUM_STACK_SIZE_CLASSES \<and> caml_fiber_wsz r < 2 ^ 32 \<and>
     (\<forall>b < length (stack_cache r). \<forall>k \<in> set (stack_cache r ! b). k < length (stacks r) \<and>
        \<not> stk_live (stacks r ! k) \<and> caml_fiber_wsz r * 2 ^ b \<le> stk_wosize (stacks r ! k))"

definition stack_alloc_ok :: "hooks \<Rightarrow> bool" where
  "stack_alloc_ok hk \<longleftrightarrow> (\<forall>w r a. alloc_for_stack hk w r = Some a \<longrightarrow> w \<le> usable_words a w)"

lemma bucket_search_Some:
  "bucket_search n w sz b = Some b' \<Longrightarrow> b \<le> b' \<and> b' < b + n \<and> w = sz * 2 ^ (b' - b)"
proof (induction n w sz b rule: bucket_search.induct)
  case (1 wosize sz b)
  then show ?case by simp
next
  case (2 n w sz b)
  show ?case
  proof (cases "w = sz")
    case True
    with 2 show ?thesis by simp
  next
    case False
    with 2 have "Suc b \<le> b' \<and> b' < Suc b + n \<and> w = (sz + sz) * 2 ^ (b' - Suc b)" by simp
    moreover from this have "(2::u64) ^ (b' - b) = 2 * 2 ^ (b' - Suc b)" by (simp add: Suc_diff_Suc flip: power_Suc)
    ultimately show ?thesis by simp
  qed
qed

lemma stack_cache_bucket_size:
  assumes "stack_cache_bucket r w = Some b" "caml_fiber_wsz r < 2 ^ 32" "w < 2 ^ 64"
  shows "b < NUM_STACK_SIZE_CLASSES \<and> w = caml_fiber_wsz r * 2 ^ b"
proof -
  from bucket_search_Some [OF assms(1) [unfolded stack_cache_bucket_def]]
  have b: "b < 5" and w: "(of_nat w :: u64) = of_nat (caml_fiber_wsz r * 2 ^ b)"
    by (simp_all add: NUM_STACK_SIZE_CLASSES_def)
  have "(2::nat) ^ b \<le> 2 ^ 4" using b by (intro power_increasing) auto
  then have "caml_fiber_wsz r * 2 ^ b \<le> 2 ^ 32 * 2 ^ 4"
    using assms(2) by (intro mult_mono) auto
  then have "caml_fiber_wsz r * 2 ^ b < 2 ^ 64" by simp
  with w assms(3) have "w = caml_fiber_wsz r * 2 ^ b" by (metis unat_of_nat_small)
  with b show ?thesis by (simp add: NUM_STACK_SIZE_CLASSES_def)
qed

lemma alloc_stack_noexc_spec:
  assumes ok: "cache_ok r" "stack_alloc_ok hk" and w: "w < 2 ^ 64"
    and run: "alloc_stack_noexc hk w hval hexn heff r = Some (Some k, r')"
  shows "\<exists>st. get_stack r' k = Some st \<and> w \<le> stk_wosize st \<and> handle_value st = hval \<and> handle_exn st = hexn \<and>
    handle_effect st = heff \<and> get_stack r k = None \<and> (\<forall>j. j \<noteq> k \<longrightarrow> get_stack r' j = get_stack r j) \<and>
    heap r' = heap r \<and> current_stack r' = current_stack r"
proof (cases "stack_cache_bucket r w")
  case None
  with run obtain a where a: "alloc_for_stack hk w r = Some a" "k = length (stacks r)"
    "r' = r\<lparr>stacks := stacks r @ [init_stack hval hexn heff (raw_stack a w None)]\<rparr>"
    by (auto simp: alloc_stack_noexc_def alloc_size_class_stack_noexc_def split: option.splits)
  then show ?thesis using ok(2)
    by (auto simp: get_stack_def nth_opt_def init_stack_def raw_stack_def stack_alloc_ok_def nth_append)
next
  case (Some b)
  with stack_cache_bucket_size [OF Some _ w] ok(1)
  have b: "b < length (stack_cache r)" "w = caml_fiber_wsz r * 2 ^ b" by (auto simp: cache_ok_def)
  show ?thesis
  proof (cases "stack_cache r ! b")
    case Nil
    with run Some b(1) obtain a where a: "alloc_for_stack hk w r = Some a" "k = length (stacks r)"
      "r' = r\<lparr>stacks := stacks r @ [init_stack hval hexn heff (raw_stack a w (Some b))]\<rparr>"
      by (auto simp: alloc_stack_noexc_def alloc_size_class_stack_noexc_def nth_opt_def split: option.splits)
    then show ?thesis using ok(2)
      by (auto simp: get_stack_def nth_opt_def init_stack_def raw_stack_def stack_alloc_ok_def nth_append)
  next
    case (Cons j ks)
    have j: "j < length (stacks r)" "\<not> stk_live (stacks r ! j)" "w \<le> stk_wosize (stacks r ! j)"
      using ok(1) b Cons by (auto simp: cache_ok_def)
    with run Some b(1) Cons have "k = j"
      "r' = (put_stack r j (init_stack hval hexn heff (stacks r ! j)))\<lparr>stack_cache := (stack_cache r)[b := ks]\<rparr>"
      by (auto simp: alloc_stack_noexc_def alloc_size_class_stack_noexc_def nth_opt_def)
    then show ?thesis using j
      by (auto simp: get_stack_def nth_opt_def init_stack_def put_stack_def)
  qed
qed

lemma caml_free_stack_spec:
  "caml_free_stack k r = Some r' \<Longrightarrow> (\<forall>j. get_stack r' j = (if j = k then None else get_stack r j)) \<and>
     heap r' = heap r \<and> current_stack r' = current_stack r \<and> trap_sp_off r' = trap_sp_off r"
  by (auto simp: caml_free_stack_def bind_Some_iff Let_def get_stack_def put_stack_def nth_opt_def
      split: option.splits if_splits)

text \<open>C12: growing the current stack keeps everything it holds: the doubling loop ends, and when it
  succeeds the new current stack has the same words, handlers and parent, room for the required
  words, the old stack is freed, and no other stack and no heap block changes.\<close>

theorem realloc_keeps_stack:
  assumes ok: "cache_ok r" "stack_alloc_ok hk" and old: "get_stack r (current_stack r) = Some old" "0 < stk_wosize old"
    "stk_wosize old < 2 ^ 64" and max: "unat (caml_max_stack_size r) \<le> 2 ^ 63"
    and req: "length (stk_sp old) < 2 ^ 31" "unat req < 2 ^ 63"
  shows "(\<exists>sz. realloc_size (caml_max_stack_size r) (of_nat (length (stk_sp old)) + req) (of_nat (stk_wosize old)) = Some sz) \<and>
    (\<forall>r'. caml_try_realloc_stack hk req r = Some (True, r') \<longrightarrow>
      (\<exists>new. get_stack r' (current_stack r') = Some new \<and> stk_sp new = stk_sp old \<and>
        length (stk_sp old) + unat req \<le> stk_wosize new \<and> stk_parent new = stk_parent old \<and>
        handle_value new = handle_value old \<and> handle_exn new = handle_exn old \<and> handle_effect new = handle_effect old \<and>
        get_stack r' (current_stack r) = None \<and> heap r' = heap r \<and>
        (\<forall>j. j \<noteq> current_stack r \<longrightarrow> j \<noteq> current_stack r' \<longrightarrow> get_stack r' j = get_stack r j)))"
proof (intro conjI allI impI)
  let ?need = "of_nat (length (stk_sp old)) + req"
  have need: "unat ?need = length (stk_sp old) + unat req"
    using req unat_of_nat_small [of "length (stk_sp old)"] by (simp add: unat_word_ariths)
  have sz: "unat (of_nat (stk_wosize old) :: u64) = stk_wosize old" using old(3) by (rule unat_of_nat_small)
  from realloc_size_result [of "of_nat (stk_wosize old)" "caml_max_stack_size r" ?need] old(2) sz max
  obtain res where res: "realloc_size (caml_max_stack_size r) ?need (of_nat (stk_wosize old)) = Some res"
    "case res of None \<Rightarrow> True | Some n \<Rightarrow> ?need \<le> n" by (auto split: option.splits)
  then show "\<exists>sz. realloc_size (caml_max_stack_size r) ?need (of_nat (stk_wosize old)) = Some sz" by blast
  fix r' assume "caml_try_realloc_stack hk req r = Some (True, r')"
  with old res req(1) obtain n k r1 st r2 where n: "res = Some n"
    and al: "alloc_stack_noexc hk (unat n) (handle_value old) (handle_exn old) (handle_effect old) r = Some (Some k, r1)"
    and st: "get_stack r1 k = Some st"
    and fr: "caml_free_stack (current_stack r) (put_stack r1 k (st\<lparr>stk_sp := stk_sp old, stk_parent := stk_parent old\<rparr>)) = Some r2"
    and r': "r' = r2\<lparr>current_stack := k\<rparr>"
    by (auto simp: caml_try_realloc_stack_def bind_Some_iff split: option.splits)
  have "unat n < 2 ^ LENGTH(64)" by (rule unsigned_less)
  with alloc_stack_noexc_spec [OF ok _ al] st have spec: "unat n \<le> stk_wosize st" "handle_value st = handle_value old"
    "handle_exn st = handle_exn old" "handle_effect st = handle_effect old" "get_stack r k = None"
    "\<forall>j. j \<noteq> k \<longrightarrow> get_stack r1 j = get_stack r j" "heap r1 = heap r" by auto
  have ne: "k \<noteq> current_stack r" using spec(5) old(1) by auto
  have live: "stk_live st" using st by (rule get_stack_live)
  have "length (stk_sp old) + unat req \<le> unat n" using res(2) n need by (simp add: word_le_nat_alt)
  with spec ne live st caml_free_stack_spec [OF fr]
  show "\<exists>new. get_stack r' (current_stack r') = Some new \<and> stk_sp new = stk_sp old \<and>
        length (stk_sp old) + unat req \<le> stk_wosize new \<and> stk_parent new = stk_parent old \<and>
        handle_value new = handle_value old \<and> handle_exn new = handle_exn old \<and> handle_effect new = handle_effect old \<and>
        get_stack r' (current_stack r) = None \<and> heap r' = heap r \<and>
        (\<forall>j. j \<noteq> current_stack r \<longrightarrow> j \<noteq> current_stack r' \<longrightarrow> get_stack r' j = get_stack r j)"
    by (auto simp: r')
qed

lemma quiet_stack_alloc: "stack_alloc_ok quiet_hooks"
  by (auto simp: stack_alloc_ok_def quiet_hooks_def Let_def split: if_splits)

lemma sample_cache_ok: "cache_ok sample_rt"
  by (simp add: cache_ok_def sample_rt_def NUM_STACK_SIZE_CLASSES_def)

lemma sample_realloc: "\<exists>r'. caml_try_realloc_stack quiet_hooks 16 sample_rt = Some (True, r')"
proof -
  have "realloc_size 1024 16 64 = Some (Some 128)" by (simp add: realloc_size.simps)
  moreover have "bucket_search 5 128 32 0 = Some 2" by code_simp
  moreover have "usable_words 0x20000 128 = 129" by code_simp
  ultimately show ?thesis
    by (simp add: caml_try_realloc_stack_def sample_rt_def get_stack_def main_stack_def alloc_stack_noexc_def
        stack_cache_bucket_def NUM_STACK_SIZE_CLASSES_def alloc_size_class_stack_noexc_def quiet_hooks_def
        nth_opt_def init_stack_def raw_stack_def caml_free_stack_def put_stack_def Let_def)
qed

theorem realloc_keeps_stack_witness:
  "\<exists>r' new. caml_try_realloc_stack quiet_hooks 16 sample_rt = Some (True, r') \<and>
    get_stack r' (current_stack r') = Some new \<and> stk_sp new = [] \<and> 16 \<le> stk_wosize new \<and> get_stack r' 0 = None"
proof -
  have old: "get_stack sample_rt (current_stack sample_rt) = Some main_stack"
    by (simp add: get_stack_def sample_rt_def main_stack_def)
  have cur: "current_stack sample_rt = 0" by (simp add: sample_rt_def)
  have max: "unat (caml_max_stack_size sample_rt) \<le> 2 ^ 63" by (simp add: sample_rt_def)
  obtain r' where r': "caml_try_realloc_stack quiet_hooks 16 sample_rt = Some (True, r')"
    using sample_realloc by blast
  from realloc_keeps_stack [OF sample_cache_ok quiet_stack_alloc old _ _ max, of 16] r' cur
  show ?thesis by (auto simp: main_stack_def)
qed

end
