(* ===== verification/Exn_Props.thy ===== *)
theory Exn_Props
  imports Interp_Arith Interp_Control Sample_State
begin

text \<open>
  Exceptions: trap frames are entered and left as the source of \<open>try ... with\<close> means, and an
  exception that nothing traps leaves \<open>caml_interprete\<close> with the caller's state restored.
\<close>

section \<open>Reaching the handler\<close>

text \<open>The trap frame PUSHTRAP builds.\<close>

definition trap_frame :: "int \<Rightarrow> int \<Rightarrow> mlvalue \<Rightarrow> u64 \<Rightarrow> mlvalue list" where
  "trap_frame c t e x = [Code c, Val_int t, e, Word (Val_long x)]"

lemma raise_to_trap:
  assumes st: "get_stack s (current_stack s) = Some st"
    and sp: "sp s = locals @ trap_frame c t e x @ rest" and off: "trap_sp_off s = - int (length rest + 4)"
    and fits: "fits63 t" "fits63 (sint x)"
  shows "raise_notrace s =
    Some (Next (s\<lparr>sp := rest, pc := c, trap_sp_off := t, env := e, extra_args := x\<rparr>))"
proof -
  have n: "nat (- trap_sp_off s) = length rest + 4" "\<not> 0 < trap_sp_off s" using off by simp_all
  have sub: "length locals + (4 + length rest) - (length rest + 4) = length locals" by simp
  show ?thesis using st fits
    by (simp add: raise_notrace_def n sp trap_frame_def vm_simps long_of_Val_int Long_val_Val_long Let_def sub)
qed

lemma raise_exception_to_trap:
  assumes "get_stack s (current_stack s) = Some st" "sp s = locals @ trap_frame c t e x @ rest"
    "trap_sp_off s = - int (length rest + 4)" "fits63 t" "fits63 (sint x)"
  shows "raise_exception s =
    Some (Next (s\<lparr>sp := rest, pc := c, trap_sp_off := t, env := e, extra_args := x\<rparr>))"
  using raise_to_trap [OF assms]
    raise_to_trap [of "push (Code (pc s - 1)) s" st "Code (pc s - 1) # locals" c t e x rest] assms
  by (simp add: raise_exception_def push_def)

text \<open>C2: PUSHTRAP installs a handler for the code it guards: from any later state of that code on the
  same stack, RAISE, RERAISE and RAISE_NOTRACE continue at the handler with the exception in the
  accumulator, and with the stack, the environment, the extra arguments and the enclosing handler
  that were current at the PUSHTRAP.\<close>

theorem pushtrap_raise:
  assumes "Instruct_PUSHTRAP hk s = Some (Next s1)" "pc_at s 0 = Some ofs"
    and "sp s2 = locals @ sp s1" "trap_sp_off s2 = trap_sp_off s1" "get_stack s2 (current_stack s2) = Some st"
    and "fits63 (trap_sp_off s)" "fits63 (sint (extra_args s))"
    and "raise \<in> {Instruct_RAISE, Instruct_RERAISE, Instruct_RAISE_NOTRACE}"
  shows "raise hk2 s2 = Some (Next (s2\<lparr>sp := sp s, pc := pc s + ofs, trap_sp_off := trap_sp_off s,
    env := env s, extra_args := extra_args s\<rparr>))"
proof -
  from assms(1,2) have "sp s1 = trap_frame (pc s + ofs) (trap_sp_off s) (env s) (extra_args s) @ sp s"
    "trap_sp_off s1 = - int (length (sp s) + 4)"
    by (auto simp: Instruct_PUSHTRAP_def trap_frame_def Let_def)
  then show ?thesis
    using assms(3-8) raise_to_trap [of s2 st locals "pc s + ofs" "trap_sp_off s" "env s" "extra_args s" "sp s"]
      raise_exception_to_trap [of s2 st locals "pc s + ofs" "trap_sp_off s" "env s" "extra_args s" "sp s"]
    by (auto simp: Instruct_RAISE_def Instruct_RERAISE_def Instruct_RAISE_NOTRACE_def)
qed

theorem pushtrap_raise_witness:
  "\<exists>s1. Instruct_PUSHTRAP quiet_hooks (sample_vm\<lparr>code := [9], sp := [Val_int 3]\<rparr>) = Some (Next s1) \<and>
    Instruct_RAISE quiet_hooks (s1\<lparr>sp := Val_int 5 # sp s1, accu := Val_int 6\<rparr>) =
      Some (Next (s1\<lparr>accu := Val_int 6, sp := [Val_int 3], pc := 9, trap_sp_off := 1, env := Atom 0, extra_args := 0\<rparr>))"
proof -
  let ?s = "sample_vm\<lparr>code := [9], sp := [Val_int 3]\<rparr>"
  let ?s1 = "?s\<lparr>sp := trap_frame 9 1 (Atom 0) 0 @ [Val_int 3], trap_sp_off := - 5, pc := 1\<rparr>"
  have s1: "Instruct_PUSHTRAP quiet_hooks ?s = Some (Next ?s1)"
    by (simp add: Instruct_PUSHTRAP_def pc_at_def int_nth_def sample_vm_fields trap_frame_def Let_def)
  show ?thesis
    using pushtrap_raise [OF s1, of 9 "?s1\<lparr>sp := Val_int 5 # sp ?s1, accu := Val_int 6\<rparr>" "[Val_int 5]" main_stack
        Instruct_RAISE quiet_hooks]
    by (intro exI [of _ ?s1])
      (simp add: s1 pc_at_def int_nth_def sample_vm_fields get_stack_def main_stack_def fits63_def Max_long_def Min_long_def)
qed

section \<open>Exceptions raised by C code\<close>

text \<open>A predefined exception raised from C after the frame of a C call was pushed.\<close>

lemma raise_predefined_to_trap:
  assumes st: "get_stack s (current_stack s) = Some st"
    and sp: "sp s = locals @ trap_frame c t e x @ rest" and off: "trap_sp_off s = - int (length rest + 4)"
    and fits: "fits63 t" "fits63 (sint x)"
    and ctx: "external_raise s = Some (exception_ctx s)"
    and glob: "caml_global_data s = Ptr g 0" "Field (heap s) (Ptr g 0) n = Some exn"
    and sig: "\<forall>v r. signals_before_raise hk v r = Some (v, r)"
  shows "\<exists>s1. Setup_for_c_call s = Some s1 \<and>
    c_call (raise_predefined name n hk (rt s1)) s1 k =
      Some (Next (s1\<lparr>accu := exn, sp := rest, pc := c, trap_sp_off := t, env := e, extra_args := x\<rparr>)) \<and>
    heap s1 = heap s"
proof -
  let ?s0 = "s\<lparr>sp := env s # Code (pc s + 1) # sp s\<rparr>"
  let ?s1 = "put_stack ?s0 (current_stack s) (st\<lparr>stk_sp := sp ?s0\<rparr>)"
  have set: "Setup_for_c_call s = Some ?s1" using st by (simp add: Setup_for_c_call_def save_sp_def)
  have live: "stk_live st" using st by (rule get_stack_live)
  have st1: "get_stack ?s1 (current_stack s) = Some (st\<lparr>stk_sp := sp ?s0\<rparr>)"
    using st live get_put_stack [of ?s0 "current_stack s" st] by simp
  have load: "load_sp ?s1 = Some ?s1"
    using st1 by (simp add: load_sp_def)
  have "raise_notrace (?s1\<lparr>accu := exn\<rparr>) =
      Some (Next (?s1\<lparr>accu := exn, sp := rest, pc := c, trap_sp_off := t, env := e, extra_args := x\<rparr>))"
    using sp off fits st1
    by (intro raise_to_trap [where locals = "env s # Code (pc s + 1) # locals"]) simp_all
  then have "c_call (raise_predefined name n hk (rt ?s1)) ?s1 k =
      Some (Next (?s1\<lparr>accu := exn, sp := rest, pc := c, trap_sp_off := t, env := e, extra_args := x\<rparr>))"
    using glob sig ctx load
    by (simp add: c_call_def raise_predefined_def check_global_data_def caml_raise_constant_def caml_raise_def longjmp_def)
  with set show ?thesis by auto
qed

text \<open>C39: Dividing by zero raises \<open>Division_by_zero\<close>: DIVINT and MODINT with a zero divisor continue at the
  innermost handler of the stack with that exception in the accumulator, the heap untouched.\<close>

theorem divide_by_zero_raises:
  assumes "get_stack s (current_stack s) = Some st"
    and "sp s = Word (tag_int 0) # locals @ trap_frame c t e x @ rest" "trap_sp_off s = - int (length rest + 4)"
    and "fits63 t" "fits63 (sint x)" "external_raise s = Some (exception_ctx s)"
    and "caml_global_data s = Ptr g 0" "Field (heap s) (Ptr g 0) ZERO_DIVIDE_EXN = Some exn"
    and "\<forall>v r. signals_before_raise hk v r = Some (v, r)"
    and "op \<in> {Instruct_DIVINT, Instruct_MODINT}"
  shows "\<exists>s'. op hk s = Some (Next s') \<and> accu s' = exn \<and> pc s' = c \<and> sp s' = rest \<and> env s' = e \<and>
    extra_args s' = x \<and> trap_sp_off s' = t \<and> heap s' = heap s"
proof -
  let ?s = "s\<lparr>sp := locals @ trap_frame c t e x @ rest\<rparr>"
  have z: "Long_val (tag_int 0) = 0"
    by (simp add: Long_val_tag_int fits63_def Max_long_def Min_long_def)
  have "divide_op f hk s = Option.bind (Setup_for_c_call ?s)
      (\<lambda>s1. c_call (caml_raise_zero_divide hk (rt s1)) s1 (\<lambda>_ s2. Some (Next s2)))" for f
    using assms(2) z by (simp add: divide_op_def pop_def Let_def)
  moreover obtain s1 where "Setup_for_c_call ?s = Some s1"
    "c_call (raise_predefined ''Division_by_zero'' ZERO_DIVIDE_EXN hk (rt s1)) s1 (\<lambda>_ s2. Some (Next s2)) =
      Some (Next (s1\<lparr>accu := exn, sp := rest, pc := c, trap_sp_off := t, env := e, extra_args := x\<rparr>))"
    "heap s1 = heap s"
    using raise_predefined_to_trap [of ?s st locals c t e x rest g ZERO_DIVIDE_EXN exn hk
        "''Division_by_zero''" "\<lambda>_ s2. Some (Next s2)"] assms(1,3-9) by auto
  ultimately show ?thesis using assms(10)
    by (auto simp: Instruct_DIVINT_def Instruct_MODINT_def caml_raise_zero_divide_def)
qed

text \<open>A machine inside a \<open>try\<close> whose handler is at 40, about to divide by zero.\<close>

definition sample_division :: vm where
  "sample_division = sample_vm\<lparr>heap := [\<lparr>block_tag = 0, block_fields = map Val_int [100..113]\<rparr>],
     caml_global_data := Ptr 0 0, accu := Val_int 7, trap_sp_off := - 4,
     sp := Word (tag_int 0) # trap_frame 40 1 (Atom 0) 0\<rparr>"

theorem divide_by_zero_raises_witness:
  "\<exists>s'. Instruct_DIVINT quiet_hooks sample_division = Some (Next s') \<and> accu s' = Val_int 105 \<and> pc s' = 40 \<and> sp s' = []"
  using divide_by_zero_raises [of sample_division main_stack "[]" 40 1 "Atom 0" 0 "[]" 0 "Val_int 105" quiet_hooks
      Instruct_DIVINT]
  by (force simp: sample_division_def sample_vm_fields get_stack_def main_stack_def quiet_hooks_def
      fits63_def Max_long_def Min_long_def Field_def int_nth_def ZERO_DIVIDE_EXN_def upto.simps nth_opt_def)

section \<open>Leaving\<close>

text \<open>PUSHTRAP followed by POPTRAP, with the stack as PUSHTRAP left it, restores the stack and the
  enclosing handler.\<close>

theorem pushtrap_poptrap:
  assumes "Instruct_PUSHTRAP hk s = Some (Next s1)" "sp s2 = sp s1" "\<not> something_pending hk2 (rt s2)"
    "fits63 (trap_sp_off s)"
  shows "Instruct_POPTRAP hk2 s2 = Some (Next (s2\<lparr>sp := sp s, trap_sp_off := trap_sp_off s\<rparr>))"
  using assms
  by (auto simp: Instruct_PUSHTRAP_def Instruct_POPTRAP_def vm_simps Let_def long_of_Val_int bind_Some_iff)

theorem pushtrap_poptrap_witness:
  "\<exists>s1. Instruct_PUSHTRAP quiet_hooks (sample_vm\<lparr>code := [9], sp := [Val_int 3]\<rparr>) = Some (Next s1) \<and>
    Instruct_POPTRAP quiet_hooks s1 = Some (Next (s1\<lparr>sp := [Val_int 3], trap_sp_off := 1\<rparr>))"
proof -
  let ?s = "sample_vm\<lparr>code := [9], sp := [Val_int 3]\<rparr>"
  obtain s1 where s1: "Instruct_PUSHTRAP quiet_hooks ?s = Some (Next s1)"
    by (simp add: Instruct_PUSHTRAP_def pc_at_def int_nth_def sample_vm_fields Let_def)
  with pushtrap_poptrap [OF s1, of s1 quiet_hooks] show ?thesis
    by (simp add: sample_vm_fields quiet_hooks_def fits63_def Max_long_def Min_long_def)
qed

end
