(* ===== verification/Effect_Props.thy ===== *)
theory Effect_Props
  imports Interp_Control Apply_Props Fiber_Props Exn_Props
begin

text \<open>
  Effects: what a fiber suspends at PERFORM is what RESUME brings back, a fiber that returns goes to
  its resumer, and a continuation is used once.
\<close>

section \<open>One-shot continuations\<close>

text \<open>C11: a continuation is one-shot: once \<open>caml_continuation_use\<close> has returned its stack, using it again
  raises \<open>Continuation_already_taken\<close>.\<close>

theorem continuation_one_shot:
  assumes "caml_continuation_use hk cont r = Some (Returned v r1)"
    and "caml_global_data r1 = Ptr g 0" "external_raise r1 \<noteq> None"
    and "Field (heap r1) (Ptr g 0) CONTINUATION_ALREADY_TAKEN_EXN = Some exn"
    and "\<forall>v r. signals_before_raise hk v r = Some (v, r)" "cont = Ptr c 0"
  shows "v \<noteq> Val_ptr None \<and> caml_continuation_use hk cont r1 = Some (Raised exn r1)"
proof -
  from assms(1) obtain h where tag: "Tag_val (heap r) cont = Some Cont_tag"
    and v: "Field (heap r) cont 0 = Some v" and h: "caml_modify (heap r) cont 0 (Val_ptr None) = Some h"
    and r1: "r1 = r\<lparr>heap := h\<rparr>" and ne: "v \<noteq> Val_ptr None"
    by (auto simp: caml_continuation_use_def caml_continuation_use_noexc_def bind_Some_iff
        caml_raise_continuation_already_taken_def raise_predefined_def caml_raise_constant_def caml_raise_def
        split: if_splits)
  have f: "Field h cont 0 = Some (Val_ptr None)" using Field_caml_modify [OF h] by simp
  have tag': "Tag_val h cont = Some Cont_tag"
    using tag h assms(6) caml_modify_frame [of "heap r" c 0 0 "Val_ptr None" h]
    by (auto simp: Tag_val_def nth_opt_def split: if_splits)
  have same: "caml_modify h cont 0 (Val_ptr None) = Some h" using f by (rule caml_modify_same)
  show ?thesis
    using ne f tag' same assms(2-6)
    by (simp add: r1 caml_continuation_use_def caml_continuation_use_noexc_def
        caml_raise_continuation_already_taken_def raise_predefined_def check_global_data_def
        caml_raise_constant_def caml_raise_def)
qed

definition sample_cont :: runtime where
  "sample_cont = sample_rt\<lparr>heap := [\<lparr>block_tag = 0, block_fields = map Val_int [100..113]\<rparr>,
     \<lparr>block_tag = Cont_tag, block_fields = [Stk 0]\<rparr>], caml_global_data := Ptr 0 0\<rparr>"

theorem continuation_one_shot_witness:
  "\<exists>r1. caml_continuation_use quiet_hooks (Ptr 1 0) sample_cont = Some (Returned (Stk 0) r1) \<and>
    caml_continuation_use quiet_hooks (Ptr 1 0) r1 = Some (Raised (Val_int 113) r1)"
proof -
  let ?r1 = "sample_cont\<lparr>heap := [\<lparr>block_tag = 0, block_fields = map Val_int [100..113]\<rparr>,
     \<lparr>block_tag = Cont_tag, block_fields = [Word 1]\<rparr>]\<rparr>"
  have use: "caml_continuation_use quiet_hooks (Ptr 1 0) sample_cont = Some (Returned (Stk 0) ?r1)"
    by (simp add: caml_continuation_use_def caml_continuation_use_noexc_def sample_cont_def Tag_val_def nth_opt_def
        Field_def int_nth_def caml_modify_def int_upd_def upd_opt_def)
  have "Field (heap ?r1) (Ptr 0 0) CONTINUATION_ALREADY_TAKEN_EXN = Some (Val_int 113)"
    by (simp add: Field_def int_nth_def nth_opt_def CONTINUATION_ALREADY_TAKEN_EXN_def upto.simps)
  then show ?thesis
    using continuation_one_shot [OF use, of 0 "Val_int 113" 1] use
    by (simp add: sample_cont_def sample_rt_def quiet_hooks_def)
qed

section \<open>Suspending and resuming\<close>

lemma last_parent_root: "get_stack r k = Some st \<Longrightarrow> stk_parent st = None \<Longrightarrow> last_parent r k = Some k"
  by (simp add: last_parent.simps)

lemma get_stack_stacks: "stacks s1 = stacks s2 \<Longrightarrow> get_stack s1 k = get_stack s2 k"
  by (simp add: get_stack_def)

lemma enter_effect_handler_frame:
  assumes "enter_effect_handler old parent eff cont s = Some (Check_stacks s1)"
  shows "stacks s1 = stacks s \<and> heap s1 = heap s \<and> current_stack s1 = parent"
  using assms by (auto simp: enter_effect_handler_def load_sp_def sp_add_def Let_def bind_Some_iff)

text \<open>What a PERFORM under a handler leaves of the fiber it suspends.\<close>

lemma PERFORM_suspends:
  assumes "get_stack s (current_stack s) = Some st" "stk_parent st = Some parent" "parent \<noteq> current_stack s"
    and "\<not> gc_interrupt hk 1 (rt s)" "Instruct_PERFORM hk s = Some (Check_stacks s1)"
  shows "get_stack s1 (current_stack s) = Some (st\<lparr>stk_parent := None, stk_sp := Val_int (trap_sp_off s) #
      Code (pc s) # env s # Word (Val_long (extra_args s)) # sp s\<rparr>) \<and> current_stack s1 = parent \<and>
    (\<exists>t. nth_opt (heap s1) (length (heap s)) = Some \<lparr>block_tag = t, block_fields = [Stk (current_stack s)]\<rparr>)"
proof -
  let ?h = "heap s @ [fresh_block 1 Cont_tag Debug_uninit_minor]"
  let ?h' = "heap s @ [\<lparr>block_tag = Cont_tag, block_fields = [Stk (current_stack s)]\<rparr>]"
  let ?st = "st\<lparr>stk_parent := None, stk_sp := Val_int (trap_sp_off s) #
      Code (pc s) # env s # Word (Val_long (extra_args s)) # sp s\<rparr>"
  let ?s = "(put_stack (s\<lparr>heap := ?h\<rparr>) (current_stack s) ?st)\<lparr>heap := ?h'\<rparr>"
  have live: "stk_live st" using assms(1) by (rule get_stack_live)
  have i: "init_fields ?h (Ptr (length (heap s)) 0) 0 [Stk (current_stack s)] = Some ?h'"
    by (simp add: init_fields_all)
  have "Instruct_PERFORM hk s = enter_effect_handler (current_stack s) parent (accu s) (Ptr (length (heap s)) 0) ?s"
    using assms(1,2,4) i
    by (simp add: Instruct_PERFORM_def Let_def Alloc_small_quiet Cont_tag_def Max_young_wosize_def)
  with assms(5) have fr: "stacks s1 = stacks ?s \<and> heap s1 = heap ?s \<and> current_stack s1 = parent"
    by (intro enter_effect_handler_frame) simp
  then have "get_stack s1 (current_stack s) = get_stack ?s (current_stack s)"
    by (intro get_stack_stacks) simp
  also have "\<dots> = Some ?st" using assms(1) live by simp
  finally show ?thesis using fr by simp
qed

text \<open>C3: what a fiber suspends at PERFORM is what resuming it brings back. When the continuation is
  resumed with a function and an argument, the function runs on the fiber's stack with the handlers
  of the fiber, under a return frame of the PERFORM, and its return continues right after the
  PERFORM with the environment, the extra arguments and the stack the fiber had; the resumer is now
  the parent of the fiber.\<close>

theorem perform_resume:
  assumes perform: "get_stack s (current_stack s) = Some st" "stk_parent st = Some parent" "parent \<noteq> current_stack s"
      "\<not> gc_interrupt hk 1 (rt s)" "Instruct_PERFORM hk s = Some (Check_stacks s1)"
      "fits63 (trap_sp_off s)" "fits63 (sint (extra_args s))"
    and resume: "get_stack s2 (current_stack s) = get_stack s1 (current_stack s)" "current_stack s2 \<noteq> current_stack s"
      "get_stack s2 (current_stack s2) = Some st2" "accu s2 = Stk (current_stack s)"
      "sp s2 = fn # arg # rest" "Code_val (heap s2) fn = Some c"
  shows "\<exists>s3. Instruct_RESUME hk s2 = Some (Check_stacks s3) \<and> current_stack s3 = current_stack s \<and>
    trap_sp_off s3 = trap_sp_off s \<and> pc s3 = c \<and> env s3 = fn \<and> extra_args s3 = 0 \<and>
    map_option stk_parent (get_stack s3 (current_stack s)) = Some (Some (current_stack s2)) \<and>
    sp s3 = arg # Code (pc s) # env s # Word (Val_long (extra_args s)) # sp s \<and>
    (\<forall>s4 v. sp s4 = v # tl (sp s3) \<and> extra_args s4 = 0 \<and> pc_at s4 0 = Some 1 \<and> profile_inv (prof s4) \<longrightarrow>
      (\<exists>p. Instruct_RETURN hk s4 = Some (Next (s4\<lparr>sp := sp s, pc := pc s, env := env s,
        extra_args := extra_args s, prof := p\<rparr>))))"
proof -
  let ?f = "current_stack s" and ?g = "current_stack s2"
  let ?frame = "Code (pc s) # env s # Word (Val_long (extra_args s)) # sp s"
  let ?st = "st\<lparr>stk_parent := None, stk_sp := Val_int (trap_sp_off s) # ?frame\<rparr>"
  have f: "get_stack s2 ?f = Some ?st" using PERFORM_suspends [OF perform(1-5)] resume(1) by simp
  let ?s2 = "s2\<lparr>sp := Val_int (trap_sp_off s2) # Val_int 0 # Code (pc s2) # env s2 #
    Word (Val_long (extra_args s2)) # rest\<rparr>"
  let ?s2a = "put_stack ?s2 ?f (?st\<lparr>stk_parent := Some ?g\<rparr>)"
  let ?s2b = "put_stack ?s2a ?g (st2\<lparr>stk_sp := sp ?s2\<rparr>)"
  let ?s3 = "?s2b\<lparr>current_stack := ?f, trap_sp_off := trap_sp_off s, sp := arg # ?frame, accu := fn, pc := c,
    env := fn, extra_args := 0\<rparr>"
  have live: "stk_live ?st" using f by (rule get_stack_live)
  have ne: "?f \<noteq> ?g" using resume(2) by simp
  have live2: "stk_live st2" using resume(3) by (rule get_stack_live)
  have g: "get_stack ?s2a ?g = Some st2" using resume(3) ne by simp
  have fa: "get_stack ?s2a ?f = Some (?st\<lparr>stk_parent := Some ?g\<rparr>)"
    using f live get_put_stack [of ?s2 ?f ?st] by simp
  have fb: "get_stack ?s2b ?f = Some (?st\<lparr>stk_parent := Some ?g\<rparr>)"
    using fa get_put_stack_other [OF resume(2), of ?s2a] by simp
  have lp: "last_parent ?s2 ?f = Some ?f" using f by (simp add: last_parent.simps)
  have run: "Instruct_RESUME hk s2 = Some (Check_stacks ?s3)"
    using resume(4-6) lp f g fb perform(6)
    by (simp add: Instruct_RESUME_def vm_simps do_resume_def save_sp_def load_sp_def long_of_Val_int Let_def)
  have ret: "\<exists>p. Instruct_RETURN hk s4 = Some (Next (s4\<lparr>sp := sp s, pc := pc s, env := env s,
        extra_args := extra_args s, prof := p\<rparr>))"
    if s4: "sp s4 = v # ?frame" "extra_args s4 = 0" "pc_at s4 0 = Some 1" "profile_inv (prof s4)" for s4 v
  proof -
    obtain p where "profile_return (prof s4) = Some p" using profile_return_total [OF s4(4)] by blast
    with s4 perform(7) show ?thesis
      by (intro exI [of _ p]) (simp add: Instruct_RETURN_def operand_eq sp_add_eq do_return_def vm_simps Long_val_Val_long)
  qed
  show ?thesis using run ret fb by (intro exI [of _ ?s3]) auto
qed

text \<open>A fiber (stack 1) that performs an effect under the handler of the main stack.\<close>

definition sample_fiber :: vm where
  "sample_fiber = sample_vm\<lparr>heap := [\<lparr>block_tag = Closure_tag, block_fields = [Code 50, Word (Make_closinfo 0 2)]\<rparr>],
     stacks := [main_stack\<lparr>stk_sp := [Val_int 1, Val_int 0, Code 9, Atom 0, Val_int 0]\<rparr>,
       main_stack\<lparr>handle_effect := Ptr 0 0, stk_parent := Some 0\<rparr>],
     current_stack := 1, pc := 33, sp := [Val_int 77], accu := Val_int 5\<rparr>"

lemma sample_fiber_performs:
  "\<exists>s1. Instruct_PERFORM quiet_hooks sample_fiber = Some (Check_stacks s1) \<and> current_stack s1 = 0 \<and>
    get_stack s1 0 = Some (main_stack\<lparr>stk_sp := [Val_int 1, Val_int 0, Code 9, Atom 0, Val_int 0]\<rparr>) \<and>
    Code_val (heap s1) (Ptr 0 0) = Some 50"
proof -
  let ?main = "main_stack\<lparr>stk_sp := [Val_int 1, Val_int 0, Code 9, Atom 0, Val_int 0]\<rparr>"
  let ?fib = "main_stack\<lparr>handle_effect := Ptr 0 0, stk_parent := None,
    stk_sp := [Val_int 1, Code 33, Atom 0, Word (Val_long 0), Val_int 77]\<rparr>"
  let ?s1 = "sample_fiber\<lparr>heap := heap sample_fiber @ [\<lparr>block_tag = Cont_tag, block_fields = [Stk 1]\<rparr>],
     stacks := [?main, ?fib], current_stack := 0, trap_sp_off := 1,
     sp := [Val_int 5, Ptr 1 0, Stk 1, Code 9, Atom 0, Val_int 0], accu := Ptr 0 0, pc := 50,
     env := Ptr 0 0, extra_args := 2\<rparr>"
  have f: "fits63 0" "fits63 1" "fits63 (sint (0 :: u64))" by (simp_all add: fits63_def Max_long_def Min_long_def)
  have i: "init_fields (heap sample_fiber @ [fresh_block 1 Cont_tag Debug_uninit_minor]) (Ptr (length (heap sample_fiber)) 0) 0 [Stk 1] =
      Some (heap sample_fiber @ [\<lparr>block_tag = Cont_tag, block_fields = [Stk 1]\<rparr>])"
    by (rule init_fields_all) simp
  have "Long_val 1 = 0" using Long_val_Val_long [OF f(3)] by simp
  with i f(1,2) have "Instruct_PERFORM quiet_hooks sample_fiber = Some (Check_stacks ?s1)"
    by (simp add: Instruct_PERFORM_def sample_fiber_def get_stack_def main_stack_def Let_def
        Alloc_small_quiet quiet_hooks_def Cont_tag_def Max_young_wosize_def sample_vm_fields put_stack_def
        enter_effect_handler_def load_sp_def vm_simps long_of_Val_int Code_val_def Field_def)
  moreover have "Code_val (heap ?s1) (Ptr 0 0) = Some 50"
    by (simp add: sample_fiber_def Code_val_def Field_def int_nth_def nth_opt_def)
  ultimately show ?thesis by (intro exI [of _ ?s1]) (simp add: get_stack_def main_stack_def)
qed

theorem perform_resume_witness:
  "\<exists>s2 s3. Instruct_RESUME quiet_hooks s2 = Some (Check_stacks s3) \<and> current_stack s3 = 1 \<and> trap_sp_off s3 = 1 \<and>
    sp s3 = [Val_int 9, Code 33, Atom 0, Val_int 0, Val_int 77]"
proof -
  obtain s1 where s1: "Instruct_PERFORM quiet_hooks sample_fiber = Some (Check_stacks s1)" "current_stack s1 = 0"
    "get_stack s1 0 = Some (main_stack\<lparr>stk_sp := [Val_int 1, Val_int 0, Code 9, Atom 0, Val_int 0]\<rparr>)"
    "Code_val (heap s1) (Ptr 0 0) = Some 50" using sample_fiber_performs by blast
  let ?s2 = "s1\<lparr>accu := Stk 1, sp := [Ptr 0 0, Val_int 9]\<rparr>"
  let ?st = "main_stack\<lparr>handle_effect := Ptr 0 0, stk_parent := Some 0\<rparr>"
  have st: "get_stack sample_fiber (current_stack sample_fiber) = Some ?st"
    by (simp add: sample_fiber_def get_stack_def main_stack_def)
  have q: "\<not> gc_interrupt quiet_hooks 1 (rt sample_fiber)" by (simp add: quiet_hooks_def)
  have "\<exists>s3. Instruct_RESUME quiet_hooks ?s2 = Some (Check_stacks s3) \<and> current_stack s3 = 1 \<and> trap_sp_off s3 = 1 \<and>
      sp s3 = [Val_int 9, Code 33, Atom 0, Val_int 0, Val_int 77]"
    using perform_resume [OF st _ _ q s1(1), of 0 ?s2 _ "Ptr 0 0" "Val_int 9" "[]" 50] s1(2-4)
    by (auto simp: sample_fiber_def sample_vm_fields fits63_def Max_long_def Min_long_def Val_int_def)
  then show ?thesis by blast
qed

section \<open>The end of a fiber\<close>

text \<open>What RESUME leaves of the resumer: its trap offset and no extra arguments above the frame that returns after
  the RESUME; and of the fiber: the resumer is its parent, its handlers stay.\<close>

lemma RESUME_suspends:
  assumes "get_stack s2 k = Some st" "stk_parent st = None" "stk_sp st = Val_int t # words" "k \<noteq> current_stack s2"
    and "get_stack s2 (current_stack s2) = Some st2" "accu s2 = Stk k" "sp s2 = fn # arg # rest"
    and "Code_val (heap s2) fn = Some c" "fits63 t" "Instruct_RESUME hk s2 = Some (Check_stacks s3)"
  shows "get_stack s3 (current_stack s2) = Some (st2\<lparr>stk_sp := Val_int (trap_sp_off s2) # Val_int 0 #
      Code (pc s2) # env s2 # Word (Val_long (extra_args s2)) # rest\<rparr>)"
    and "get_stack s3 k = Some (st\<lparr>stk_parent := Some (current_stack s2)\<rparr>)" and "current_stack s3 = k"
    and "heap s3 = heap s2" "stack_cache s3 = stack_cache s2" "prof s3 = prof s2" "code s3 = code s2" "extra_args s3 = 0"
proof -
  let ?g = "current_stack s2"
  let ?s2 = "s2\<lparr>sp := Val_int (trap_sp_off s2) # Val_int 0 #
      Code (pc s2) # env s2 # Word (Val_long (extra_args s2)) # rest\<rparr>"
  let ?s2a = "put_stack ?s2 k (st\<lparr>stk_parent := Some ?g\<rparr>)"
  let ?s2b = "put_stack ?s2a ?g (st2\<lparr>stk_sp := sp ?s2\<rparr>)"
  have live: "stk_live st" "stk_live st2" using assms(1,5) by (auto dest: get_stack_live)
  have g: "get_stack ?s2a ?g = Some st2" using assms(4,5) by simp
  have fb: "get_stack ?s2b k = Some (st\<lparr>stk_parent := Some ?g\<rparr>)"
    using assms(1,4) live get_put_stack [of ?s2 k st] get_put_stack_other [of ?g k ?s2a] by simp
  have gb: "get_stack ?s2b ?g = Some (st2\<lparr>stk_sp := sp ?s2\<rparr>)" using get_put_stack [OF g] live(2) by simp
  have lp: "last_parent ?s2 k = Some k" using assms(1,2) by (simp add: last_parent.simps)
  have s3: "s3 = ?s2b\<lparr>current_stack := k, trap_sp_off := t, sp := arg # words, accu := fn, pc := c,
      env := fn, extra_args := 0\<rparr>"
    using assms(6-10) lp assms(1,3) g fb
    by (simp add: Instruct_RESUME_def vm_simps do_resume_def save_sp_def load_sp_def long_of_Val_int Let_def)
  have "stacks s3 = stacks ?s2b" by (simp add: s3)
  from get_stack_stacks [OF this] fb gb
  show "get_stack s3 ?g = Some (st2\<lparr>stk_sp := Val_int (trap_sp_off s2) # Val_int 0 #
      Code (pc s2) # env s2 # Word (Val_long (extra_args s2)) # rest\<rparr>)"
    "get_stack s3 k = Some (st\<lparr>stk_parent := Some ?g\<rparr>)" by simp_all
  show "current_stack s3 = k" "heap s3 = heap s2" "stack_cache s3 = stack_cache s2" "prof s3 = prof s2" "code s3 = code s2"
    "extra_args s3 = 0"
    by (simp_all add: s3)
qed

text \<open>Where a freed stack goes: to the cache of its size class, if it has one.\<close>

definition cache_after_free :: "nat option \<Rightarrow> nat \<Rightarrow> nat list list \<Rightarrow> nat list list" where
  "cache_after_free bucket k cache = (case bucket of None \<Rightarrow> cache | Some b \<Rightarrow> cache[b := k # cache ! b])"

text \<open>Leaving fiber \<open>k\<close> for its parent \<open>g\<close>.\<close>

lemma enter_parent_frees:
  assumes "current_stack s = k" "get_stack s k = Some fib" "g \<noteq> k"
    and "get_stack s g = Some (par\<lparr>stk_sp := Val_int t # Val_int 0 # rest\<rparr>)" "fits63 t"
    and "\<And>b. stk_bucket fib = Some b \<Longrightarrow> b < length (stack_cache s)" "Code_val (heap s) hdl = Some ch"
  shows "\<exists>s'. enter_parent hdl g s = Some (Check_stacks s') \<and> current_stack s' = g \<and> get_stack s' k = None \<and>
    (\<forall>j. j \<noteq> k \<longrightarrow> get_stack s' j = get_stack s j) \<and>
    stack_cache s' = cache_after_free (stk_bucket fib) k (stack_cache s) \<and> heap s' = heap s \<and>
    trap_sp_off s' = t \<and> extra_args s' = 0 \<and> pc s' = ch \<and> env s' = hdl \<and> accu s' = hdl \<and> sp s' = accu s # rest"
proof -
  let ?par = "par\<lparr>stk_sp := Val_int t # Val_int 0 # rest\<rparr>"
  let ?s = "s\<lparr>current_stack := g, sp := stk_sp ?par\<rparr>"
  let ?dead = "put_stack ?s k (fib\<lparr>stk_live := False\<rparr>)"
  let ?freed = "?dead\<lparr>stack_cache := cache_after_free (stk_bucket fib) k (stack_cache s)\<rparr>"
  have load: "load_sp (s\<lparr>current_stack := g\<rparr>) = Some ?s" using assms(4) by (simp add: load_sp_def)
  have free: "caml_free_stack k ?s = Some ?freed"
    using assms(2,6) by (cases "stk_bucket fib") (simp_all add: caml_free_stack_def cache_after_free_def nth_opt_def)
  have st: "get_stack ?freed k = None" "\<forall>j. j \<noteq> k \<longrightarrow> get_stack ?freed j = get_stack s j"
    using assms(2) get_put_stack [of ?s k] by simp_all
  have f0: "fits63 (sint (0 :: u64))" by (simp add: fits63_def Max_long_def Min_long_def)
  from Long_val_Val_long [OF this] have "Long_val 1 = 0" by simp
  with load free st assms(1,5,7) f0 show ?thesis
    by (simp add: enter_parent_def Let_def vm_simps long_of_Val_int)
qed

text \<open>C4: a fiber that returns goes to whoever resumed it last. Let RESUME start or continue a fiber, and let the fiber
  run, whatever it does to itself (it may be moved to a larger stack) and to other stacks, as long as the resumer's
  stack, and the fiber's parent and value handler, are those RESUME left. A RETURN that pops the last words of the fiber's stack
  then frees the fiber (into the cache of its size class if it has one) and no other stack, and
  applies the fiber's value handler to the result on the resumer's stack, above the frame that returns after the
  RESUME, with the resumer's exception handlers.\<close>

theorem fiber_return:
  assumes resume: "get_stack s2 k = Some st" "stk_parent st = None" "stk_sp st = Val_int t # words" "k \<noteq> current_stack s2"
      "get_stack s2 (current_stack s2) = Some st2" "accu s2 = Stk k" "sp s2 = fn # arg # rest"
      "Code_val (heap s2) fn = Some c" "fits63 t" "Instruct_RESUME hk s2 = Some (Check_stacks s3)" "fits63 (trap_sp_off s2)"
    and fiber: "get_stack s5 (current_stack s5) = Some fib" "stk_parent fib = Some (current_stack s2)"
      "handle_value fib = handle_value st" "current_stack s5 \<noteq> current_stack s2"
      "get_stack s5 (current_stack s2) = get_stack s3 (current_stack s2)"
      "\<And>b. stk_bucket fib = Some b \<Longrightarrow> b < length (stack_cache s5)"
    and return: "pc_at s5 0 = Some (int (length (sp s5)))" "extra_args s5 = 0" "profile_inv (prof s5)"
      "Code_val (heap s5) (handle_value st) = Some ch"
  shows "\<exists>s6. Instruct_RETURN hk s5 = Some (Check_stacks s6) \<and> current_stack s6 = current_stack s2 \<and>
    get_stack s6 (current_stack s5) = None \<and> (\<forall>j. j \<noteq> current_stack s5 \<longrightarrow> get_stack s6 j = get_stack s5 j) \<and>
    stack_cache s6 = cache_after_free (stk_bucket fib) (current_stack s5) (stack_cache s5) \<and>
    trap_sp_off s6 = trap_sp_off s2 \<and> extra_args s6 = 0 \<and> pc s6 = ch \<and> env s6 = handle_value st \<and>
    sp s6 = accu s5 # Code (pc s2) # env s2 # Word (Val_long (extra_args s2)) # rest"
proof -
  obtain p where p: "profile_return (prof s5) = Some p" using profile_return_total [OF return(3)] by blast
  let ?s5 = "s5\<lparr>pc := pc s5 + 1, sp := [], prof := p\<rparr>"
  have "Instruct_RETURN hk s5 = enter_parent (handle_value st) (current_stack s2) ?s5"
    using return(1,2) p fiber(1-3) by (simp add: Instruct_RETURN_def operand_eq sp_add_eq do_return_def)
  moreover have "get_stack ?s5 (current_stack s2) = Some (st2\<lparr>stk_sp := Val_int (trap_sp_off s2) # Val_int 0 #
      Code (pc s2) # env s2 # Word (Val_long (extra_args s2)) # rest\<rparr>)"
    using RESUME_suspends(1) [OF resume(1-10)] fiber(5) by simp
  ultimately show ?thesis
    using enter_parent_frees [where s = ?s5 and k = "current_stack s5" and fib = fib and g = "current_stack s2"
        and par = st2 and t = "trap_sp_off s2" and hdl = "handle_value st" and ch = ch]
      fiber(1,4,6) resume(11) return(4) by auto
qed

text \<open>A fiber of the first size class, as \<open>caml_alloc_stack\<close> makes them, and the main stack about to resume it.\<close>

definition sample_resume :: vm where
  "sample_resume = sample_vm\<lparr>heap := [\<lparr>block_tag = Closure_tag, block_fields = [Code 50, Word (Make_closinfo 0 2)]\<rparr>],
     stacks := [main_stack, main_stack\<lparr>handle_value := Ptr 0 0, handle_exn := Ptr 0 0, stk_sp := [Val_int 1], stk_bucket := Some 0\<rparr>],
     code := [0, 1], pc := 33, sp := [Ptr 0 0, Val_int 9, Val_int 77], accu := Stk 1\<rparr>"

abbreviation "fresh_fiber \<equiv>
  main_stack\<lparr>handle_value := Ptr 0 0, handle_exn := Ptr 0 0, stk_sp := [Val_int 1], stk_bucket := Some 0\<rparr>"

lemma sample_resumed:
  obtains s3 where "Instruct_RESUME quiet_hooks sample_resume = Some (Check_stacks s3)"
proof -
  have code: "Code_val (heap sample_resume) (Ptr 0 0) = Some 50"
    by (simp add: sample_resume_def Code_val_def Field_def int_nth_def)
  have "fits63 1" by (simp add: fits63_def Max_long_def Min_long_def)
  with code have "\<exists>s3. Instruct_RESUME quiet_hooks sample_resume = Some (Check_stacks s3)"
    by (simp add: Instruct_RESUME_def sample_resume_def vm_simps do_resume_def last_parent.simps get_stack_def main_stack_def
        save_sp_def load_sp_def put_stack_def long_of_Val_int sample_vm_fields Let_def)
  then show ?thesis using that by blast
qed

lemma sample_resume_facts:
  "get_stack sample_resume 1 = Some fresh_fiber" "stk_parent fresh_fiber = None" "stk_sp fresh_fiber = Val_int 1 # []"
  "1 \<noteq> current_stack sample_resume" "get_stack sample_resume (current_stack sample_resume) = Some main_stack"
  "accu sample_resume = Stk 1" "sp sample_resume = Ptr 0 0 # Val_int 9 # [Val_int 77]"
  "Code_val (heap sample_resume) (Ptr 0 0) = Some 50" "fits63 1"
  by (simp_all add: sample_resume_def get_stack_def main_stack_def sample_vm_fields Code_val_def Field_def int_nth_def
      fits63_def Max_long_def Min_long_def)

theorem fiber_return_witness:
  "\<exists>s5 s6. Instruct_RETURN quiet_hooks s5 = Some (Check_stacks s6) \<and> current_stack s6 = 0 \<and> get_stack s6 1 = None \<and>
    stack_cache s6 ! 0 = [1] \<and> pc s6 = 50 \<and> sp s6 = [Val_int 5, Code 33, Atom 0, Word (Val_long 0), Val_int 77]"
proof -
  obtain s3 where s3: "Instruct_RESUME quiet_hooks sample_resume = Some (Check_stacks s3)" by (rule sample_resumed)
  note r = RESUME_suspends [OF sample_resume_facts s3]
  let ?s5 = "s3\<lparr>sp := [Val_int 3], pc := 1, accu := Val_int 5\<rparr>"
  have "\<exists>s6. Instruct_RETURN quiet_hooks ?s5 = Some (Check_stacks s6) \<and> current_stack s6 = 0 \<and> get_stack s6 1 = None \<and>
      stack_cache s6 ! 0 = [1] \<and> pc s6 = 50 \<and> sp s6 = [Val_int 5, Code 33, Atom 0, Word (Val_long 0), Val_int 77]"
    using fiber_return [OF sample_resume_facts s3, of ?s5 "fresh_fiber\<lparr>stk_parent := Some (current_stack sample_resume)\<rparr>" 50]
      r sample_resume_facts(8,9) sample_profile_ok
    by (auto simp: sample_resume_def sample_vm_fields pc_at_def int_nth_def cache_after_free_def)
  then show ?thesis by blast
qed

text \<open>C5: an exception that a fiber does not handle goes to whoever resumed it last. Let RESUME start or continue a fiber, and let
  the fiber run, whatever it does to itself and to other stacks, as long as the resumer's stack, and the fiber's parent
  and exception handler, are those RESUME left. A RAISE, RERAISE or RAISE\_NOTRACE where no exception handler of the fiber is
  left then frees the fiber and no other stack, and applies the fiber's exception handler to the exception on the resumer's
  stack, above the frame that returns after the RESUME, with the resumer's exception handlers.\<close>

theorem fiber_raise:
  assumes resume: "get_stack s2 k = Some st" "stk_parent st = None" "stk_sp st = Val_int t # words" "k \<noteq> current_stack s2"
      "get_stack s2 (current_stack s2) = Some st2" "accu s2 = Stk k" "sp s2 = fn # arg # rest"
      "Code_val (heap s2) fn = Some c" "fits63 t" "Instruct_RESUME hk s2 = Some (Check_stacks s3)" "fits63 (trap_sp_off s2)"
    and fiber: "get_stack s5 (current_stack s5) = Some fib" "stk_parent fib = Some (current_stack s2)"
      "handle_exn fib = handle_exn st" "current_stack s5 \<noteq> current_stack s2"
      "get_stack s5 (current_stack s2) = get_stack s3 (current_stack s2)"
      "\<And>b. stk_bucket fib = Some b \<Longrightarrow> b < length (stack_cache s5)"
    and raise: "0 < trap_sp_off s5" "Code_val (heap s5) (handle_exn st) = Some ch"
      "instr \<in> {Instruct_RAISE, Instruct_RERAISE, Instruct_RAISE_NOTRACE}"
  shows "\<exists>s6. instr hk s5 = Some (Check_stacks s6) \<and> current_stack s6 = current_stack s2 \<and>
    get_stack s6 (current_stack s5) = None \<and> (\<forall>j. j \<noteq> current_stack s5 \<longrightarrow> get_stack s6 j = get_stack s5 j) \<and>
    stack_cache s6 = cache_after_free (stk_bucket fib) (current_stack s5) (stack_cache s5) \<and>
    trap_sp_off s6 = trap_sp_off s2 \<and> extra_args s6 = 0 \<and> pc s6 = ch \<and> env s6 = handle_exn st \<and>
    sp s6 = accu s5 # Code (pc s2) # env s2 # Word (Val_long (extra_args s2)) # rest"
proof -
  have same: "\<exists>vs. raise_notrace s5 = raise_notrace (s5\<lparr>sp := vs\<rparr>)" by (rule exI [of _ "sp s5"]) simp
  then have "\<exists>vs. raise_exception s5 = raise_notrace (s5\<lparr>sp := vs\<rparr>)" by (auto simp: raise_exception_def push_def)
  with same raise(3) obtain vs where vs: "instr hk s5 = raise_notrace (s5\<lparr>sp := vs\<rparr>)"
    by (auto simp: Instruct_RAISE_def Instruct_RERAISE_def Instruct_RAISE_NOTRACE_def)
  let ?s5 = "s5\<lparr>sp := vs\<rparr>"
  have "instr hk s5 = enter_parent (handle_exn st) (current_stack s2) ?s5"
    using vs raise(1) fiber(1-3) by (simp add: raise_notrace_def)
  moreover have "get_stack ?s5 (current_stack s2) = Some (st2\<lparr>stk_sp := Val_int (trap_sp_off s2) # Val_int 0 #
      Code (pc s2) # env s2 # Word (Val_long (extra_args s2)) # rest\<rparr>)"
    using RESUME_suspends(1) [OF resume(1-10)] fiber(5) by simp
  ultimately show ?thesis
    using enter_parent_frees [where s = ?s5 and k = "current_stack s5" and fib = fib and g = "current_stack s2"
        and par = st2 and t = "trap_sp_off s2" and hdl = "handle_exn st" and ch = ch]
      fiber(1,4,6) resume(11) raise(2) by auto
qed

theorem fiber_raise_witness:
  "\<exists>s5 s6. Instruct_RAISE quiet_hooks s5 = Some (Check_stacks s6) \<and> current_stack s6 = 0 \<and> get_stack s6 1 = None \<and>
    stack_cache s6 ! 0 = [1] \<and> pc s6 = 50 \<and> sp s6 = [Val_int 6, Code 33, Atom 0, Word (Val_long 0), Val_int 77]"
proof -
  obtain s3 where s3: "Instruct_RESUME quiet_hooks sample_resume = Some (Check_stacks s3)" by (rule sample_resumed)
  note r = RESUME_suspends [OF sample_resume_facts s3]
  let ?s5 = "s3\<lparr>sp := [Val_int 3], trap_sp_off := 1, accu := Val_int 6\<rparr>"
  have "\<exists>s6. Instruct_RAISE quiet_hooks ?s5 = Some (Check_stacks s6) \<and> current_stack s6 = 0 \<and> get_stack s6 1 = None \<and>
      stack_cache s6 ! 0 = [1] \<and> pc s6 = 50 \<and> sp s6 = [Val_int 6, Code 33, Atom 0, Word (Val_long 0), Val_int 77]"
    using fiber_raise [OF sample_resume_facts s3, of ?s5 "fresh_fiber\<lparr>stk_parent := Some (current_stack sample_resume)\<rparr>" 50 Instruct_RAISE]
      r sample_resume_facts(8,9)
    by (auto simp: sample_resume_def sample_vm_fields cache_after_free_def)
  then show ?thesis by blast
qed

end
