(* ===== verification/Interp_Heap.thy ===== *)
theory Interp_Heap
  imports Interp_Base
begin

text \<open>
  The instructions of \<open>caml_interprete\<close> on globals, blocks, arrays and strings.
\<close>

section \<open>Globals\<close>

definition Instruct_GETGLOBAL :: handler where
  "Instruct_GETGLOBAL hk s = do {
     n \<leftarrow> pc_at s 0;
     v \<leftarrow> Field (heap s) (caml_global_data s) n;
     Some (Next (s\<lparr>accu := v, pc := pc s + 1\<rparr>)) }"

definition Instruct_PUSHGETGLOBAL :: handler where
  "Instruct_PUSHGETGLOBAL hk s = Instruct_GETGLOBAL hk (push (accu s) s)"

definition Instruct_GETGLOBALFIELD :: handler where
  "Instruct_GETGLOBALFIELD hk s = do {
     n \<leftarrow> pc_at s 0;
     g \<leftarrow> Field (heap s) (caml_global_data s) n;
     m \<leftarrow> pc_at s 1;
     v \<leftarrow> Field (heap s) g m;
     Some (Next (s\<lparr>accu := v, pc := pc s + 2\<rparr>)) }"

definition Instruct_PUSHGETGLOBALFIELD :: handler where
  "Instruct_PUSHGETGLOBALFIELD hk s = Instruct_GETGLOBALFIELD hk (push (accu s) s)"

definition Instruct_SETGLOBAL :: handler where
  "Instruct_SETGLOBAL hk s = do {
     n \<leftarrow> pc_at s 0;
     h \<leftarrow> caml_modify (heap s) (caml_global_data s) n (accu s);
     Some (Next (s\<lparr>heap := h, accu := Val_unit, pc := pc s + 1\<rparr>)) }"

section \<open>Allocation of blocks\<close>

definition Instruct_ATOM0 :: handler where
  "Instruct_ATOM0 hk s = Some (Next (s\<lparr>accu := Atom 0\<rparr>))"

definition Instruct_PUSHATOM0 :: handler where
  "Instruct_PUSHATOM0 hk s = Instruct_ATOM0 hk (push (accu s) s)"

definition Instruct_ATOM :: handler where
  "Instruct_ATOM hk s = do {
     (n, s) \<leftarrow> operand s;
     guard (0 \<le> n \<and> n < 256);
     Some (Next (s\<lparr>accu := Atom (nat n)\<rparr>)) }"

definition Instruct_PUSHATOM :: handler where
  "Instruct_PUSHATOM hk s = Instruct_ATOM hk (push (accu s) s)"

definition Instruct_MAKEBLOCK :: handler where
  "Instruct_MAKEBLOCK hk s = do {
     (w, s) \<leftarrow> operand s;
     (tag, s) \<leftarrow> operand s;
     let wosize = unat (word_of_int w :: u64);
     let fill = (\<lambda>block s. do {
       vs \<leftarrow> take_opt (wosize - 1) (sp s);
       h \<leftarrow> init_fields (heap s) block 0 (accu s # vs);
       s \<leftarrow> sp_add (int (wosize - 1)) s;
       Some (Next (s\<lparr>heap := h, accu := block\<rparr>)) });
     if wosize \<le> Max_young_wosize then Alloc_small hk wosize tag s fill
     else caml_alloc_shr hk wosize tag s fill }"

definition Instruct_MAKEBLOCK1 :: handler where
  "Instruct_MAKEBLOCK1 hk s = do {
     (tag, s) \<leftarrow> operand s;
     Alloc_small hk 1 tag s (\<lambda>block s. do {
       h \<leftarrow> init_fields (heap s) block 0 [accu s];
       Some (Next (s\<lparr>heap := h, accu := block\<rparr>)) }) }"

definition Instruct_MAKEBLOCK2 :: handler where
  "Instruct_MAKEBLOCK2 hk s = do {
     (tag, s) \<leftarrow> operand s;
     Alloc_small hk 2 tag s (\<lambda>block s. do {
       x \<leftarrow> sp_at s 0;
       h \<leftarrow> init_fields (heap s) block 0 [accu s, x];
       s \<leftarrow> sp_add 1 s;
       Some (Next (s\<lparr>heap := h, accu := block\<rparr>)) }) }"

definition Instruct_MAKEBLOCK3 :: handler where
  "Instruct_MAKEBLOCK3 hk s = do {
     (tag, s) \<leftarrow> operand s;
     Alloc_small hk 3 tag s (\<lambda>block s. do {
       x \<leftarrow> sp_at s 0;
       y \<leftarrow> sp_at s 1;
       h \<leftarrow> init_fields (heap s) block 0 [accu s, x, y];
       s \<leftarrow> sp_add 2 s;
       Some (Next (s\<lparr>heap := h, accu := block\<rparr>)) }) }"

text \<open>A float array holds the bits of its floats; \<open>Double_val\<close> unboxes each operand.\<close>

fun unbox_all :: "heap \<Rightarrow> mlvalue list \<Rightarrow> mlvalue list option" where
  "unbox_all h [] = Some []"
| "unbox_all h (v # vs) = do { d \<leftarrow> Double_val h v; ds \<leftarrow> unbox_all h vs; Some (Word d # ds) }"

definition Instruct_MAKEFLOATBLOCK :: handler where
  "Instruct_MAKEFLOATBLOCK hk s = do {
     (n, s) \<leftarrow> operand s;
     let sz = unat (word_of_int n :: u64);
     let fill = (\<lambda>block s. do {
       vs \<leftarrow> take_opt (sz - 1) (sp s);
       ds \<leftarrow> unbox_all (heap s) (accu s # vs);
       h \<leftarrow> init_fields (heap s) block 0 ds;
       s \<leftarrow> sp_add (int (sz - 1)) s;
       Some (Next (s\<lparr>heap := h, accu := block\<rparr>)) });
     if sz \<le> Max_young_wosize div Double_wosize
     then Alloc_small hk (sz * Double_wosize) (int Double_array_tag) s fill
     else caml_alloc_shr hk (sz * Double_wosize) (int Double_array_tag) s fill }"

section \<open>Access to components of blocks\<close>

definition Instruct_GETFIELDn :: "int \<Rightarrow> handler" where
  "Instruct_GETFIELDn n hk s = do { v \<leftarrow> Field (heap s) (accu s) n; Some (Next (s\<lparr>accu := v\<rparr>)) }"

definition Instruct_GETFIELD :: handler where
  "Instruct_GETFIELD hk s = do {
     n \<leftarrow> pc_at s 0;
     v \<leftarrow> Field (heap s) (accu s) n;
     Some (Next (s\<lparr>accu := v, pc := pc s + 1\<rparr>)) }"

definition Instruct_GETFLOATFIELD :: handler where
  "Instruct_GETFLOATFIELD hk s = do {
     (n, s) \<leftarrow> operand s;
     d \<leftarrow> Option.bind (Field (heap s) (accu s) n) word_of;
     Alloc_small hk Double_wosize (int Double_tag) s (\<lambda>a s. do {
       h \<leftarrow> init_fields (heap s) a 0 [Word d];
       Some (Next (s\<lparr>heap := h, accu := a\<rparr>)) }) }"

definition Instruct_SETFIELDn :: "int \<Rightarrow> handler" where
  "Instruct_SETFIELDn n hk s = do {
     (v, s) \<leftarrow> pop s;
     h \<leftarrow> caml_modify (heap s) (accu s) n v;
     Some (Next (s\<lparr>heap := h, accu := Val_unit\<rparr>)) }"

definition Instruct_SETFIELD :: handler where
  "Instruct_SETFIELD hk s = do {
     n \<leftarrow> pc_at s 0;
     (v, s) \<leftarrow> pop s;
     h \<leftarrow> caml_modify (heap s) (accu s) n v;
     Some (Next (s\<lparr>heap := h, accu := Val_unit, pc := pc s + 1\<rparr>)) }"

definition Instruct_SETFLOATFIELD :: handler where
  "Instruct_SETFLOATFIELD hk s = do {
     n \<leftarrow> pc_at s 0;
     v \<leftarrow> sp_at s 0;
     d \<leftarrow> Double_val (heap s) v;
     h \<leftarrow> caml_modify (heap s) (accu s) n (Word d);
     s \<leftarrow> sp_add 1 s;
     Some (Next (s\<lparr>heap := h, accu := Val_unit, pc := pc s + 1\<rparr>)) }"

section \<open>Arrays and strings\<close>

definition Instruct_VECTLENGTH :: handler where
  "Instruct_VECTLENGTH hk s = do {
     wosize \<leftarrow> Wosize_val (heap s) (accu s);
     tag \<leftarrow> Tag_val (heap s) (accu s);
     let sz = (if tag = Double_array_tag then wosize div Double_wosize else wosize);
     Some (Next (s\<lparr>accu := Word (Val_long (of_nat sz))\<rparr>)) }"

definition Instruct_GETVECTITEM :: handler where
  "Instruct_GETVECTITEM hk s = do {
     i \<leftarrow> Option.bind (sp_at s 0) long_of;
     v \<leftarrow> Field (heap s) (accu s) i;
     s \<leftarrow> sp_add 1 s;
     Some (Next (s\<lparr>accu := v\<rparr>)) }"

definition Instruct_SETVECTITEM :: handler where
  "Instruct_SETVECTITEM hk s = do {
     i \<leftarrow> Option.bind (sp_at s 0) long_of;
     v \<leftarrow> sp_at s 1;
     h \<leftarrow> caml_modify (heap s) (accu s) i v;
     s \<leftarrow> sp_add 2 s;
     Some (Next (s\<lparr>heap := h, accu := Val_unit\<rparr>)) }"

definition Instruct_GETBYTESCHAR :: handler where
  "Instruct_GETBYTESCHAR hk s = do {
     i \<leftarrow> Option.bind (sp_at s 0) long_of;
     c \<leftarrow> Byte_u (heap s) (accu s) i;
     s \<leftarrow> sp_add 1 s;
     Some (Next (s\<lparr>accu := Word (Val_long (ucast c))\<rparr>)) }"

definition Instruct_SETBYTESCHAR :: handler where
  "Instruct_SETBYTESCHAR hk s = do {
     i \<leftarrow> Option.bind (sp_at s 0) long_of;
     x \<leftarrow> Option.bind (sp_at s 1) word_of;
     h \<leftarrow> Set_byte (heap s) (accu s) i (ucast (Int_val x));
     s \<leftarrow> sp_add 2 s;
     Some (Next (s\<lparr>heap := h, accu := Val_unit\<rparr>)) }"

end
