(* ===== verification/Heap_Props.thy ===== *)
theory Heap_Props
  imports Interp_Heap Sample_State
begin

text \<open>
  Blocks, arrays and strings: what is stored is what is read back, and nothing else changes.
\<close>

section \<open>Allocation\<close>

text \<open>MAKEBLOCK1, MAKEBLOCK2 and MAKEBLOCK3 are MAKEBLOCK with that size, whatever the collector does
  when it is polled.\<close>

theorem makeblock_specialised:
  assumes "pc_at s 0 = Some k" "pc_at s 1 = Some tag"
  shows "(k = 1 \<longrightarrow> Instruct_MAKEBLOCK hk s = Instruct_MAKEBLOCK1 hk (s\<lparr>pc := pc s + 1\<rparr>)) \<and>
    (k = 2 \<longrightarrow> Instruct_MAKEBLOCK hk s = Instruct_MAKEBLOCK2 hk (s\<lparr>pc := pc s + 1\<rparr>)) \<and>
    (k = 3 \<longrightarrow> Instruct_MAKEBLOCK hk s = Instruct_MAKEBLOCK3 hk (s\<lparr>pc := pc s + 1\<rparr>))"
proof -
  define fill where "fill n = (\<lambda>block s. do {
       vs \<leftarrow> take_opt (n - 1) (sp s);
       h \<leftarrow> init_fields (heap s) block 0 (accu s # vs);
       s \<leftarrow> sp_add (int (n - 1)) s;
       Some (Next (s\<lparr>heap := h, accu := block\<rparr>)) })" for n
  have gen: "Instruct_MAKEBLOCK hk s = Alloc_small hk (nat k) tag (s\<lparr>pc := pc s + 2\<rparr>) (fill (nat k))"
    if "k \<in> {1, 2, 3}"
    using that
    by (auto simp: Instruct_MAKEBLOCK_def operand_eq [OF assms(1)] operand_eq2 [OF assms(2)] Let_def fill_def Max_young_wosize_def)
  have t1: "fill 1 = (\<lambda>block s. do {
       h \<leftarrow> init_fields (heap s) block 0 [accu s];
       Some (Next (s\<lparr>heap := h, accu := block\<rparr>)) })"
    by (simp add: fill_def fun_eq_iff take_opt_def sp_add_def)
  have t2: "fill 2 = (\<lambda>block s. do {
       x \<leftarrow> sp_at s 0;
       h \<leftarrow> init_fields (heap s) block 0 [accu s, x];
       s \<leftarrow> sp_add 1 s;
       Some (Next (s\<lparr>heap := h, accu := block\<rparr>)) })"
  proof (intro ext)
    fix block s show "fill 2 block s = do {
       x \<leftarrow> sp_at s 0;
       h \<leftarrow> init_fields (heap s) block 0 [accu s, x];
       s \<leftarrow> sp_add 1 s;
       Some (Next (s\<lparr>heap := h, accu := block\<rparr>)) }"
      by (cases "sp s") (simp_all add: fill_def vm_simps)
  qed
  have t3: "fill 3 = (\<lambda>block s. do {
       x \<leftarrow> sp_at s 0;
       y \<leftarrow> sp_at s 1;
       h \<leftarrow> init_fields (heap s) block 0 [accu s, x, y];
       s \<leftarrow> sp_add 2 s;
       Some (Next (s\<lparr>heap := h, accu := block\<rparr>)) })"
  proof (intro ext)
    fix block s show "fill 3 block s = do {
       x \<leftarrow> sp_at s 0;
       y \<leftarrow> sp_at s 1;
       h \<leftarrow> init_fields (heap s) block 0 [accu s, x, y];
       s \<leftarrow> sp_add 2 s;
       Some (Next (s\<lparr>heap := h, accu := block\<rparr>)) }"
      by (cases "sp s"; cases "tl (sp s)") (auto simp: fill_def vm_simps numeral_2_eq_2)
  qed
  show ?thesis
    using assms gen t1 t2 t3
    by (auto simp: Instruct_MAKEBLOCK1_def Instruct_MAKEBLOCK2_def Instruct_MAKEBLOCK3_def operand_eq2 [OF assms(2)])
qed

theorem makeblock_specialised_witness:
  "Instruct_MAKEBLOCK quiet_hooks (sample_vm\<lparr>code := [2, 5]\<rparr>) =
    Instruct_MAKEBLOCK2 quiet_hooks (sample_vm\<lparr>code := [2, 5], pc := 1\<rparr>)"
  using makeblock_specialised [of "sample_vm\<lparr>code := [2, 5]\<rparr>" 2 5 quiet_hooks]
  by (simp add: pc_at_def int_nth_def sample_vm_fields)

text \<open>MAKEBLOCK takes its fields from the accumulator and the stack, in that order, and leaves the
  heap otherwise as it was: GETFIELD \<open>i\<close> of the new block gives the \<open>i\<close>-th of them and SWITCH and
  VECTLENGTH see its tag and size.\<close>

theorem makeblock_getfield:
  assumes "pc_at s 0 = Some (int (length vs + 1))" "pc_at s 1 = Some (int tag)" "sp s = vs @ rest"
    and "length vs < Max_young_wosize" "tag < 256" "\<not> gc_interrupt hk (length vs + 1) (rt (s\<lparr>pc := pc s + 2\<rparr>))"
  shows "\<exists>s'. Instruct_MAKEBLOCK hk s = Some (Next s') \<and> sp s' = rest \<and> pc s' = pc s + 2 \<and> env s' = env s \<and>
    take (length (heap s)) (heap s') = heap s \<and> length (heap s') = length (heap s) + 1 \<and>
    (\<forall>i < length vs + 1. Instruct_GETFIELDn (int i) hk s' = Some (Next (s'\<lparr>accu := (accu s # vs) ! i\<rparr>))) \<and>
    Tag_val (heap s') (accu s') = Some tag \<and> Wosize_val (heap s') (accu s') = Some (length vs + 1)"
proof -
  let ?n = "length vs + 1" and ?s = "s\<lparr>pc := pc s + 2\<rparr>" and ?b = "Ptr (length (heap s)) 0"
  let ?s1 = "?s\<lparr>heap := heap s @ [fresh_block ?n tag Debug_uninit_minor]\<rparr>"
  let ?s' = "?s\<lparr>sp := rest, heap := heap s @ [\<lparr>block_tag = tag, block_fields = accu s # vs\<rparr>], accu := ?b\<rparr>"
  have n: "unat (word_of_int (int ?n) :: u64) = ?n"
    using assms(4) unat_of_nat_small [of ?n] by (simp add: Max_young_wosize_def)
  have "Instruct_MAKEBLOCK hk s = Alloc_small hk ?n (int tag) ?s (\<lambda>block s. do {
       xs \<leftarrow> take_opt (length vs) (sp s);
       h \<leftarrow> init_fields (heap s) block 0 (accu s # xs);
       s \<leftarrow> sp_add (int (length vs)) s;
       Some (Next (s\<lparr>heap := h, accu := block\<rparr>)) })"
    using assms(4) n
    by (simp add: Instruct_MAKEBLOCK_def operand_eq [OF assms(1)] operand_eq2 [OF assms(2)] Let_def)
  also have "\<dots> = Some (Next ?s')"
    using assms(3-6) by (subst Alloc_small_quiet) (simp_all add: init_fields_all sp_add_eq)
  finally show ?thesis
    by (auto simp: Instruct_GETFIELDn_def Field_def int_nth_def Tag_val_def Wosize_val_def nth_opt_def)
qed

theorem makeblock_getfield_witness:
  "\<exists>s'. Instruct_MAKEBLOCK quiet_hooks (sample_vm\<lparr>code := [2, 5], accu := Val_int 1, sp := [Val_int 2, Val_int 3]\<rparr>) =
      Some (Next s') \<and> sp s' = [Val_int 3] \<and>
    Instruct_GETFIELDn 1 quiet_hooks s' = Some (Next (s'\<lparr>accu := Val_int 2\<rparr>))"
  using makeblock_getfield [of "sample_vm\<lparr>code := [2, 5], accu := Val_int 1, sp := [Val_int 2, Val_int 3]\<rparr>"
      "[Val_int 2]" 5 "[Val_int 3]" quiet_hooks]
  by (fastforce simp: pc_at_def int_nth_def sample_vm_fields quiet_hooks_def Max_young_wosize_def dest: spec [of _ 1])

section \<open>Strings\<close>

lemma bit_FF: "bit (0xFF :: int) n \<longleftrightarrow> n < 8"
proof -
  have "(0xFF :: int) = mask 8" by (simp add: mask_eq_exp_minus_1)
  then show ?thesis by (simp only: bit_mask_iff) simp
qed

lemma put_byte_read:
  assumes "j < 8" "k < 8"
  shows "(ucast (drop_bit (8 * j) (put_byte w k c)) :: u8) = (if j = k then c else ucast (drop_bit (8 * j) w))"
proof (rule bit_word_eqI)
  fix n assume "n < LENGTH(8)"
  then have n: "n < 8" by simp
  have out: "\<not> (8 * k \<le> 8 * j + n \<and> 8 * j + n - 8 * k < 8)" if "j \<noteq> k" using that n by linarith
  have c: "\<not> bit c (8 * j + n - 8 * k)" if "8 \<le> 8 * j + n - 8 * k"
    using that bit_imp_le_length [of c] by fastforce
  have len: "8 * j + n < 64" "8 * k + n < 64" using assms n by linarith+
  show "bit (ucast (drop_bit (8 * j) (put_byte w k c)) :: u8) n \<longleftrightarrow>
      bit (if j = k then c else ucast (drop_bit (8 * j) w) :: u8) n"
  proof (cases "j = k")
    case True
    then show ?thesis using n len
      by (simp add: put_byte_def bit_simps bit_FF)
  next
    case False
    show ?thesis using n len out [OF False] c
      by (cases "8 * k \<le> 8 * j + n")
        (auto simp: put_byte_def bit_simps bit_FF False not_less)
  qed
qed

lemma Byte_u_Set_byte:
  assumes "Set_byte h v i c = Some h'"
  shows "Byte_u h' v j = (if j = i then Some c else Byte_u h v j)"
proof -
  from assms obtain w where w: "Field h v (i div 8) = Some (Word w)"
    and m: "caml_modify h v (i div 8) (Word (put_byte w (nat (i mod 8)) c)) = Some h'"
    by (auto simp: Set_byte_def bind_Some_iff elim!: word_of.elims)
  show ?thesis
  proof (cases "j div 8 = i div 8")
    case True
    have "nat (j mod 8) = nat (i mod 8) \<longleftrightarrow> j = i"
      using True by (metis div_mult_mod_eq eq_nat_nat_iff pos_mod_sign zero_less_numeral)
    moreover have "nat (j mod 8) < 8" "nat (i mod 8) < 8" by (simp_all add: nat_less_iff)
    ultimately show ?thesis
      using True w by (simp add: Byte_u_def Field_caml_modify [OF m] put_byte_read)
  next
    case False
    then show ?thesis by (auto simp: Byte_u_def Field_caml_modify [OF m])
  qed
qed

text \<open>SETBYTESCHAR changes one byte of a string: reading any byte with GETBYTESCHAR afterwards gives
  the low eight bits of the stored character at that index and the old byte everywhere else.\<close>

theorem bytes_set_get:
  assumes "Instruct_SETBYTESCHAR hk s = Some (Next s1)"
    and "sp s = Word (tag_int i) # Word (tag_int c) # rest" "fits63 i" "fits63 c" "fits63 j"
    and "Byte_u (heap s) (accu s) j = Some old"
  shows "Instruct_GETBYTESCHAR hk (s1\<lparr>accu := accu s, sp := Word (tag_int j) # rest\<rparr>) =
    Some (Next (s1\<lparr>accu := Word (tag_int (if j = i then c mod 256 else uint old)), sp := rest\<rparr>))"
proof -
  from assms(1-3) obtain h where h: "Set_byte (heap s) (accu s) i (ucast (Int_val (tag_int c))) = Some h"
    and s1: "s1 = s\<lparr>sp := rest, heap := h, accu := Val_unit\<rparr>"
    by (auto simp: Instruct_SETBYTESCHAR_def vm_simps bind_Some_iff long_of_def sint_Long_val_tag_int split: if_splits)
  have "uint (ucast (Int_val (tag_int c)) :: u8) = c mod 256"
    using assms(4) by (simp add: Int_val_def Long_val_tag_int unsigned_ucast_eq unsigned_of_int take_bit_eq_mod mod_mod_cancel)
  moreover have "Val_long (ucast (b :: u8)) = tag_int (uint b)" for b
    using Val_long_word_of_int [of "uint b"] by (simp add: unsigned_of_int)
  ultimately show ?thesis
    using assms(5,6) Byte_u_Set_byte [OF h, of j]
    by (auto simp: Instruct_GETBYTESCHAR_def s1 vm_simps long_of_def sint_Long_val_tag_int)
qed

definition sample_string :: vm where
  "sample_string = sample_vm\<lparr>heap := [\<lparr>block_tag = 252, block_fields = [Word 0x0500000000616263]\<rparr>],
     accu := Ptr 0 0, sp := [Word (tag_int 1), Word (tag_int 321)]\<rparr>"

theorem bytes_set_get_witness:
  "\<exists>s1. Instruct_SETBYTESCHAR quiet_hooks sample_string = Some (Next s1) \<and>
    Instruct_GETBYTESCHAR quiet_hooks (s1\<lparr>accu := Ptr 0 0, sp := [Word (tag_int 1)]\<rparr>) =
      Some (Next (s1\<lparr>accu := Word (tag_int 65), sp := []\<rparr>))"
proof -
  have f: "fits63 1" "fits63 321" by (simp_all add: fits63_def Max_long_def Min_long_def)
  have "\<exists>s1. Instruct_SETBYTESCHAR quiet_hooks sample_string = Some (Next s1)"
    by (simp add: Instruct_SETBYTESCHAR_def sample_string_def vm_simps long_of_def sint_Long_val_tag_int f
        Set_byte_def Field_def caml_modify_def)
  then obtain s1 where s1: "Instruct_SETBYTESCHAR quiet_hooks sample_string = Some (Next s1)" by blast
  moreover have "Byte_u (heap sample_string) (accu sample_string) 1 = Some 0x62"
    by (simp add: sample_string_def Byte_u_def Field_def int_nth_def drop_bit_eq_div)
  ultimately show ?thesis
    using bytes_set_get [OF s1, of 1 321 "[]" 1] f by (simp add: sample_string_def)
qed

end
