(* ===== verification/Method_Props.thy ===== *)
theory Method_Props
  imports Interp_Arith Sample_State
begin

text \<open>
  Method lookup: the binary search of GETDYNMET and GETPUBMET ends and finds the method of a tag, and
  the inline cache of GETPUBMET never changes the answer.
\<close>

text \<open>
  A method table whose last tag is at the odd index \<open>hi\<close>: the tags \<open>T 3, T 5, ..., T hi\<close> increase, and
  no other slot that the cache can reach holds one of them. The mask in field 1 is that of \<open>CamlinternalOO\<close>: it keeps the byte
  offsets below \<open>16 * 2^e\<close>, of which there is one for every method. The offsets fit the 32 bits of a code word.
\<close>

definition method_table :: "heap \<Rightarrow> mlvalue \<Rightarrow> (int \<Rightarrow> u64) \<Rightarrow> int \<Rightarrow> bool" where
  "method_table h meths T hi \<longleftrightarrow> odd hi \<and> 3 \<le> hi \<and> hi < 2 ^ 28 \<and>
     (\<exists>n. Field h meths 0 = Some (Word n) \<and> sint (ucast n :: u32) = hi) \<and>
     (\<exists>e. Field h meths 1 = Some (Word (2 ^ (e + 4) - 1)) \<and> hi \<le> 2 * 2 ^ e + 1) \<and>
     (\<forall>i. odd i \<and> 3 \<le> i \<and> i \<le> hi \<longrightarrow> Field h meths i = Some (Word (T i))) \<and>
     (\<forall>i j. odd i \<and> odd j \<and> 3 \<le> i \<and> i < j \<and> j \<le> hi \<longrightarrow> sint (T i) < sint (T j)) \<and>
     (\<forall>i k. odd i \<and> 3 \<le> i \<and> odd k \<and> 3 \<le> k \<and> k \<le> hi \<and> Field h meths i = Some (Word (T k)) \<longrightarrow> i = k)"

text \<open>The cache word \<open>w\<close> leads to the tag slot \<open>i\<close> of the block; what is there need not be a tag of the table.\<close>

definition cache_at :: "heap \<Rightarrow> mlvalue \<Rightarrow> u32 \<Rightarrow> int \<Rightarrow> bool" where
  "cache_at h meths w i \<longleftrightarrow> odd i \<and> 3 \<le> i \<and> i < 2 ^ 28 \<and>
     (\<exists>msk. Field h meths 1 = Some (Word msk) \<and> scast w AND msk = word_of_int (8 * (i - 3))) \<and>
     (\<exists>cv. Field h meths i = Some cv \<and> (\<forall>f. cv \<noteq> Stk f))"

lemma middle_bounds:
  assumes "odd li" "odd hi" "3 \<le> li" "li < hi" "hi < 2 ^ 30"
  shows "odd (middle li hi)" "li < middle li hi" "middle li hi \<le> hi"
proof -
  have "c_int (li + hi) = li + hi" using assms by (intro c_int_id) auto
  then have mid: "middle li hi = ((li + hi) div 2) OR 1" by (simp add: middle_def)
  have o: "m OR 1 = (if odd m then m else m + 1)" for m :: int
    by (simp add: or_one_eq)
  have m: "li < (li + hi) div 2" "(li + hi) div 2 < hi" using assms by presburger+
  show "odd (middle li hi)" by (simp add: mid o)
  show "li < middle li hi" using m by (simp add: mid o)
  show "middle li hi \<le> hi" using m assms(2) by (simp add: mid o)
qed

lemma method_search_finds:
  assumes "odd li" "odd hi" "3 \<le> li" "li \<le> k" "k \<le> hi" "odd k" "hi \<le> hi0" "method_table h meths T hi0"
  shows "method_search h meths (T k) li hi = Some k"
  using assms(1-7)
proof (induction "nat (hi - li)" arbitrary: li hi rule: less_induct)
  case less
  note T = assms(8) [unfolded method_table_def]
  show ?case
  proof (cases "li < hi")
    case False
    with less.prems show ?thesis by (simp add: method_search.simps)
  next
    case True
    let ?m = "middle li hi"
    have top30: "hi < 2 ^ 30" using less.prems T by auto
    note mb = middle_bounds [OF less.prems(1-3) True top30]
    have f: "Field h meths ?m = Some (Word (T ?m))" using T mb less.prems by auto
    have lt: "sint (T k) < sint (T ?m) \<longleftrightarrow> k < ?m"
    proof
      assume "sint (T k) < sint (T ?m)"
      moreover have "sint (T ?m) \<le> sint (T k)" if "?m \<le> k" using that T mb less.prems
        by (cases "?m = k") (auto intro: less_imp_le)
      ultimately show "k < ?m" by linarith
    next
      assume "k < ?m" then show "sint (T k) < sint (T ?m)" using T mb less.prems by auto
    qed
    show ?thesis
    proof (cases "k < ?m")
      case True
      have "nat (?m - 2 - li) < nat (hi - li)" using mb \<open>li < hi\<close> by auto
      moreover have "k \<le> ?m - 2" using True mb(1) less.prems(6) by presburger
      ultimately have "method_search h meths (T k) li (?m - 2) = Some k"
        using less.prems mb by (intro less.hyps) auto
      then show ?thesis using f lt True \<open>li < hi\<close> by (subst method_search.simps) simp
    next
      case False
      have "nat (hi - ?m) < nat (hi - li)" using mb \<open>li < hi\<close> by auto
      then have "method_search h meths (T k) ?m hi = Some k"
        using less.prems mb False by (intro less.hyps) auto
      then show ?thesis using f lt False \<open>li < hi\<close> by (subst method_search.simps) simp
    qed
  qed
qed

lemma find_method_finds:
  assumes "method_table h meths T hi" "odd k" "3 \<le> k" "k \<le> hi"
  shows "find_method h meths (T k) = Some k"
proof -
  from assms(1) obtain n where "Field h meths 0 = Some (Word n)" "sint (ucast n :: u32) = hi" "odd hi" "3 \<le> hi"
    by (auto simp: method_table_def)
  then show ?thesis
    using method_search_finds [of 3 hi k hi h meths T] assms by (simp add: find_method_def)
qed

section \<open>The instructions\<close>

lemma offset_of_slot:
  assumes "odd i" "3 \<le> i" "i < 2 ^ 28"
  shows "(word_of_int (8 * (i - 3)) :: u64) AND 7 = 0" "sint (word_of_int (8 * (i - 3)) :: u64) div 8 = i - 3"
    "scast (word_of_int (8 * (i - 3)) :: u32) = (word_of_int (8 * (i - 3)) :: u64)"
proof -
  have s: "sint (word_of_int (8 * (i - 3)) :: u64) = 8 * (i - 3)" "sint (word_of_int (8 * (i - 3)) :: u32) = 8 * (i - 3)"
    unfolding signed_of_int using assms(2,3) by (simp_all add: signed_take_bit_int_eq_self)
  from s(1) show "sint (word_of_int (8 * (i - 3)) :: u64) div 8 = i - 3" by simp
  show "scast (word_of_int (8 * (i - 3)) :: u32) = (word_of_int (8 * (i - 3)) :: u64)"
    unfolding scast_eq s(2) ..
  have "(word_of_int (8 * (i - 3)) :: u64) = push_bit 3 (word_of_int (i - 3))" by (simp add: push_bit_eq_mult)
  moreover have "take_bit 3 (push_bit 3 (word_of_int (i - 3) :: u64)) = 0" by (simp only: take_bit_push_bit) simp
  moreover have "x AND 7 = take_bit 3 x" for x :: u64 by (simp add: take_bit_eq_mask mask_eq_exp_minus_1)
  ultimately show "(word_of_int (8 * (i - 3)) :: u64) AND 7 = 0" by (simp only:)
qed

lemma offset_below_mask:
  assumes "3 \<le> i" "i \<le> 2 * 2 ^ e + 1" "i < 2 ^ 28"
  shows "(word_of_int (8 * (i - 3)) :: u64) AND (2 ^ (e + 4) - 1) = word_of_int (8 * (i - 3))"
proof -
  have "8 * (i - 3) < 2 ^ (e + 4)" using assms(2) by (simp add: power_add)
  then have "take_bit (e + 4) (8 * (i - 3)) = 8 * (i - 3)" using assms(1) by (intro take_bit_int_eq_self) simp_all
  then have "take_bit (e + 4) (word_of_int (8 * (i - 3)) :: u64) = word_of_int (8 * (i - 3))"
    by (metis take_bit_of_int)
  then show ?thesis by (simp add: take_bit_eq_mask mask_eq_exp_minus_1)
qed

text \<open>The offset GETPUBMET writes leads to the slot of the method it found.\<close>

lemma cache_found:
  assumes "method_table h meths T hi" "odd k" "3 \<le> k" "k \<le> hi"
  shows "cache_at h meths (word_of_int (8 * (k - 3))) k"
proof -
  from assms obtain e where e: "Field h meths 1 = Some (Word (2 ^ (e + 4) - 1))" "k \<le> 2 * 2 ^ e + 1" "k < 2 ^ 28"
    and f: "Field h meths k = Some (Word (T k))"
    unfolding method_table_def by force
  note off = offset_of_slot(3) [OF assms(2,3) e(3)] offset_below_mask [OF assms(3) e(2,3)]
  show ?thesis
    unfolding cache_at_def off(1) using assms(2,3) e f off(2) by blast
qed

lemma int_upd_nth:
  assumes "int_nth xs i = Some x"
  shows "\<exists>ys. int_upd xs i y = Some ys \<and> int_nth ys i = Some y \<and> (\<forall>n. n \<noteq> i \<longrightarrow> int_nth ys n = int_nth xs n)"
proof -
  from assms have i: "0 \<le> i" "nat i < length xs" by simp_all
  have "int_nth (xs[nat i := y]) n = int_nth xs n" if "n \<noteq> i" for n
    using that i(1) by (auto simp: int_nth_def nth_opt_def nth_list_update)
  with i show ?thesis by (intro exI [of _ "xs[nat i := y]"]) simp
qed

text \<open>C26: the binary search ends and both method calls find the method. GETDYNMET answers the method stored
  below the tag it looks for. GETPUBMET answers the same whatever slot of the table's block its cache leads to; of the code it
  changes no word but the cache, and afterwards the cache leads to the slot of the tag, so that the next
  call with this table finds its cache in order, and the method at once. (A cache that leads outside the block is
  not covered.)\<close>

theorem method_lookup:
  assumes table: "method_table (heap s) meths T hi" "odd k" "3 \<le> k" "k \<le> hi" "Field (heap s) meths (k - 1) = Some m"
    and cls: "Field (heap s) obj 0 = Some meths"
    and pub: "pc_at s 0 = Some tag" "T k = Val_long (word_of_int tag)"
      "int_nth (code s) (pc s + 1) = Some w" "cache_at (heap s) meths w i"
  shows "(accu s = Word (T k) \<and> sp s = obj # rest \<longrightarrow>
      Instruct_GETDYNMET hk s = Some (Next (s\<lparr>accu := m\<rparr>))) \<and>
    (accu s = obj \<longrightarrow> (\<exists>g w'. Instruct_GETPUBMET hk s =
        Some (Next (s\<lparr>sp := obj # sp s, code := g, accu := m, pc := pc s + 2\<rparr>)) \<and>
      (\<forall>n. n \<noteq> pc s + 1 \<longrightarrow> int_nth g n = int_nth (code s) n) \<and>
      int_nth g (pc s + 1) = Some w' \<and> cache_at (heap s) meths w' k))"
proof (intro conjI impI)
  note fm = find_method_finds [OF table(1-4)]
  show "Instruct_GETDYNMET hk s = Some (Next (s\<lparr>accu := m\<rparr>))" if "accu s = Word (T k) \<and> sp s = obj # rest"
    using that cls fm table(5) by (simp add: Instruct_GETDYNMET_def vm_simps)
  assume obj: "accu s = obj"
  from pub(4) obtain msk cv where i: "odd i" "3 \<le> i" "i < 2 ^ 28"
    and msk: "Field (heap s) meths 1 = Some (Word msk)" "scast w AND msk = word_of_int (8 * (i - 3))"
    and cv: "Field (heap s) meths i = Some cv" "\<forall>f. cv \<noteq> Stk f" by (auto simp: cache_at_def)
  have cache: "pc_at s 1 = Some (sint w)" "word_of_int (sint w) AND msk = word_of_int (8 * (i - 3))"
  proof -
    show "pc_at s 1 = Some (sint w)" using pub(3) by (simp add: pc_at_def)
    show "word_of_int (sint w) AND msk = word_of_int (8 * (i - 3))" using msk(2) by (simp only: scast_eq)
  qed
  define ofs :: u64 where "ofs = word_of_int (8 * (i - 3))"
  note off = offset_of_slot(1,2) [OF i, folded ofs_def]
  have r3: "field_at_offset (heap s) meths 3 ofs = Some cv"
    and r2: "field_at_offset (heap s) meths 2 ofs = Field (heap s) meths (i - 1)"
    using off cv(1) by (simp_all add: field_at_offset_def)
  note cache' = cache(1) cache(2) [folded ofs_def] msk(2) [folded ofs_def]
  have odd_tag: "bit (Val_long x) 0" for x using bit0_tag_int [of "sint x"] Val_long_word_of_int [of "sint x"] by simp
  have hit: "value_eq cv (Word (T k)) = Some (cv = Word (T k))" using pub(2) cv(2) odd_tag by (cases cv) auto
  have eq: "cv = Word (T k) \<longleftrightarrow> i = k" using table i cv(1) unfolding method_table_def by auto
  note run = Instruct_GETPUBMET_def operand_eq push_def Let_def pc_at_pc pub(1) msk(1) cache' pub(2) [symmetric] obj cls r2 r3 hit
  show "\<exists>g w'. Instruct_GETPUBMET hk s = Some (Next (s\<lparr>sp := obj # sp s, code := g, accu := m, pc := pc s + 2\<rparr>)) \<and>
      (\<forall>n. n \<noteq> pc s + 1 \<longrightarrow> int_nth g n = int_nth (code s) n) \<and>
      int_nth g (pc s + 1) = Some w' \<and> cache_at (heap s) meths w' k"
  proof (cases "i = k")
    case True
    then have "Instruct_GETPUBMET hk s = Some (Next (s\<lparr>sp := obj # sp s, accu := m, pc := pc s + 2\<rparr>))"
      using table(5) eq by (simp add: run)
    with True pub(3,4) show ?thesis by (intro exI [of _ "code s"] exI [of _ w]) simp
  next
    case False
    let ?w = "word_of_int ((k - 3) * 8) :: u32"
    obtain g where g: "int_upd (code s) (pc s + 1) ?w = Some g" "int_nth g (pc s + 1) = Some ?w"
      "\<forall>n. n \<noteq> pc s + 1 \<longrightarrow> int_nth g n = int_nth (code s) n"
      using int_upd_nth [OF pub(3)] by blast
    have "Instruct_GETPUBMET hk s = Some (Next (s\<lparr>sp := obj # sp s, code := g, accu := m, pc := pc s + 2\<rparr>))"
      using False eq fm table(5) g(1) by (simp add: run add.commute [of 2]) (simp add: int_upd_def upd_opt_def)
    moreover have "cache_at (heap s) meths ?w k" using cache_found [OF table(1-4)] by (simp only: mult.commute)
    ultimately show ?thesis using g(2,3) by blast
  qed
qed

text \<open>An object of a class with the two methods of tags 11 and 22.\<close>

definition sample_object :: vm where
  "sample_object = sample_vm\<lparr>heap := [\<lparr>block_tag = 248, block_fields = [Ptr 1 0]\<rparr>,
     \<lparr>block_tag = 0, block_fields = [Word 5, Word 31, Ptr 2 0, Val_int 11, Ptr 3 0, Val_int 22]\<rparr>],
     accu := Ptr 0 0, code := [22, 0]\<rparr>"

lemma sample_method_table:
  "method_table (heap sample_object) (Ptr 1 0) (\<lambda>i. Val_long (word_of_int (if i = 3 then 11 else 22))) 5"
proof -
  have v: "Val_long 11 = 23" "Val_long 22 = 45" by (simp_all add: Val_long_def push_bit_eq_mult)
  have odd3: "i = 3 \<or> i = 5" if "odd i" "3 \<le> i" "i \<le> 5" for i :: int using that by presburger
  have F: "Values.Field (heap sample_object) (Ptr (Suc 0) 0) i = (if 0 \<le> i then nth_opt
      [Word 5, Word 31, Ptr 2 0, Val_int 11, Ptr 3 0, Val_int 22] (nat i) else None)" for i
    by (simp add: sample_object_def Field_def int_nth_def)
  have big: "i < 6" if "Values.Field (heap sample_object) (Ptr (Suc 0) 0) i = Some x" for i x
    using that unfolding F by (simp add: nth_opt_def split: if_splits)
  have only: "i = k" if "odd i" "3 \<le> i" "odd k" "3 \<le> k" "k \<le> 5"
    "Values.Field (heap sample_object) (Ptr (Suc 0) 0) i = Some (Word (Val_long (word_of_int (if k = 3 then 11 else 22))))" for i k
    using odd3 [of k] odd3 [of i] big [OF that(6)] that by (auto simp: F Val_int_def v)
  have ptr: "Ptr 1 0 = Ptr (Suc 0) 0" by simp
  have tags: "Field (heap sample_object) (Ptr (Suc 0) 0) i = Some (Word (Val_long (word_of_int (if i = 3 then 11 else 22))))"
    if "odd i" "3 \<le> i" "i \<le> 5" for i
    using odd3 [OF that] by (elim disjE) (simp_all add: F Val_int_def)
  have inc: "sint (Val_long (word_of_int (if i = 3 then 11 else 22))) < sint (Val_long (word_of_int (if j = 3 then 11 else 22)))"
    if "odd i" "odd j" "3 \<le> i" "i < j" "j \<le> 5" for i j :: int
  proof -
    have "i = 3" "j = 5" using that by presburger+
    then show ?thesis by (simp add: v)
  qed
  have size: "Field (heap sample_object) (Ptr (Suc 0) 0) 0 = Some (Word 5)"
    "Field (heap sample_object) (Ptr (Suc 0) 0) 1 = Some (Word (2 ^ (1 + 4) - 1))" by (simp_all add: F)
  show ?thesis
    unfolding method_table_def ptr
  proof (intro conjI)
    show "\<exists>n. Field (heap sample_object) (Ptr (Suc 0) 0) 0 = Some (Word n) \<and> sint (ucast n :: u32) = 5"
      unfolding size by (intro exI [of _ 5]) simp
    show "\<exists>e. Field (heap sample_object) (Ptr (Suc 0) 0) 1 = Some (Word (2 ^ (e + 4) - 1)) \<and> (5 :: int) \<le> 2 * 2 ^ e + 1"
      using size(2) by (intro exI [of _ 1] conjI) simp_all
  qed ((simp; fail), (simp; fail), (simp; fail), use tags in blast, use inc in blast, use only in blast)
qed

theorem method_lookup_witness:
  "\<exists>g. Instruct_GETPUBMET quiet_hooks sample_object =
     Some (Next (sample_object\<lparr>sp := [Ptr 0 0], code := g, accu := Ptr 3 0, pc := 2\<rparr>)) \<and> int_nth g 0 = Some 22"
proof -
  have "cache_at (heap sample_object) (Ptr 1 0) 0 3"
    by (simp add: cache_at_def sample_object_def Field_def int_nth_def Val_int_def)
  moreover have code: "int_nth (code sample_object) (pc sample_object) = Some 22" "int_nth (code sample_object) (pc sample_object + 1) = Some 0"
    by (simp_all add: sample_object_def int_nth_def sample_vm_fields)
  moreover have "Field (heap sample_object) (Ptr 1 0) (5 - 1) = Some (Ptr 3 0)" "Field (heap sample_object) (Ptr 0 0) 0 = Some (Ptr 1 0)"
    "pc_at sample_object 0 = Some 22" "accu sample_object = Ptr 0 0" "pc sample_object = 0" "sp sample_object = []"
    by (simp_all add: sample_object_def Field_def int_nth_def pc_at_def sample_vm_fields)
  ultimately obtain g w' where "Instruct_GETPUBMET quiet_hooks sample_object =
      Some (Next (sample_object\<lparr>sp := [Ptr 0 0], code := g, accu := Ptr 3 0, pc := 2\<rparr>))"
    "\<forall>n. n \<noteq> 1 \<longrightarrow> int_nth g n = int_nth (code sample_object) n"
    using method_lookup [OF sample_method_table, of 5 "Ptr 3 0" "Ptr 0 0" 22 0 3 "[]" quiet_hooks] by auto
  then show ?thesis using code(1) spec [of "\<lambda>n. n \<noteq> 1 \<longrightarrow> int_nth g n = int_nth (code sample_object) n" 0]
    by (intro exI [of _ g] conjI) (simp_all only: simp_thms, simp add: sample_object_def int_nth_def sample_vm_fields)
qed

end
