(* ===== verification/Interp.thy ===== *)
theory Interp
  imports Interp_Apply Interp_Heap Interp_Control Interp_Arith
begin

text \<open>
  The instruction table, the dispatch loop and the entry point of \<open>caml_interprete\<close>.
\<close>

section \<open>Dispatch\<close>

text \<open>\<open>enum instructions\<close>: an opcode is the position of its name.\<close>

definition instructions :: "string list" where
  "instructions = [
    ''ACC0'', ''ACC1'', ''ACC2'', ''ACC3'', ''ACC4'', ''ACC5'', ''ACC6'', ''ACC7'', ''ACC'',
    ''PUSH'', ''PUSHACC0'', ''PUSHACC1'', ''PUSHACC2'', ''PUSHACC3'', ''PUSHACC4'', ''PUSHACC5'',
    ''PUSHACC6'', ''PUSHACC7'', ''PUSHACC'', ''POP'', ''ASSIGN'', ''ENVACC1'', ''ENVACC2'',
    ''ENVACC3'', ''ENVACC4'', ''ENVACC'', ''PUSHENVACC1'', ''PUSHENVACC2'', ''PUSHENVACC3'',
    ''PUSHENVACC4'', ''PUSHENVACC'', ''PUSH_RETADDR'', ''APPLY'', ''APPLY1'', ''APPLY2'',
    ''APPLY3'', ''APPTERM'', ''APPTERM1'', ''APPTERM2'', ''APPTERM3'', ''RETURN'', ''RESTART'',
    ''GRAB'', ''CLOSURE'', ''CLOSUREREC'', ''OFFSETCLOSUREM3'', ''OFFSETCLOSURE0'',
    ''OFFSETCLOSURE3'', ''OFFSETCLOSURE'', ''PUSHOFFSETCLOSUREM3'', ''PUSHOFFSETCLOSURE0'',
    ''PUSHOFFSETCLOSURE3'', ''PUSHOFFSETCLOSURE'', ''GETGLOBAL'', ''PUSHGETGLOBAL'',
    ''GETGLOBALFIELD'', ''PUSHGETGLOBALFIELD'', ''SETGLOBAL'', ''ATOM0'', ''ATOM'', ''PUSHATOM0'',
    ''PUSHATOM'', ''MAKEBLOCK'', ''MAKEBLOCK1'', ''MAKEBLOCK2'', ''MAKEBLOCK3'',
    ''MAKEFLOATBLOCK'', ''GETFIELD0'', ''GETFIELD1'', ''GETFIELD2'', ''GETFIELD3'', ''GETFIELD'',
    ''GETFLOATFIELD'', ''SETFIELD0'', ''SETFIELD1'', ''SETFIELD2'', ''SETFIELD3'', ''SETFIELD'',
    ''SETFLOATFIELD'', ''VECTLENGTH'', ''GETVECTITEM'', ''SETVECTITEM'', ''GETBYTESCHAR'',
    ''SETBYTESCHAR'', ''BRANCH'', ''BRANCHIF'', ''BRANCHIFNOT'', ''SWITCH'', ''BOOLNOT'',
    ''PUSHTRAP'', ''POPTRAP'', ''RAISE'', ''CHECK_SIGNALS'', ''C_CALL1'', ''C_CALL2'', ''C_CALL3'',
    ''C_CALL4'', ''C_CALL5'', ''C_CALLN'', ''CONST0'', ''CONST1'', ''CONST2'', ''CONST3'',
    ''CONSTINT'', ''PUSHCONST0'', ''PUSHCONST1'', ''PUSHCONST2'', ''PUSHCONST3'', ''PUSHCONSTINT'',
    ''NEGINT'', ''ADDINT'', ''SUBINT'', ''MULINT'', ''DIVINT'', ''MODINT'', ''ANDINT'', ''ORINT'',
    ''XORINT'', ''LSLINT'', ''LSRINT'', ''ASRINT'', ''EQ'', ''NEQ'', ''LTINT'', ''LEINT'',
    ''GTINT'', ''GEINT'', ''OFFSETINT'', ''OFFSETREF'', ''ISINT'', ''GETMETHOD'', ''BEQ'',
    ''BNEQ'', ''BLTINT'', ''BLEINT'', ''BGTINT'', ''BGEINT'', ''ULTINT'', ''UGEINT'', ''BULTINT'',
    ''BUGEINT'', ''GETPUBMET'', ''GETDYNMET'', ''STOP'', ''EVENT'', ''BREAK'', ''RERAISE'',
    ''RAISE_NOTRACE'', ''GETSTRINGCHAR'', ''PERFORM'', ''RESUME'', ''RESUMETERM'',
    ''REPERFORMTERM'']"

text \<open>The \<open>switch\<close>: EVENT and BREAK end by dispatching the instruction they stand for.\<close>

datatype switch_case = Handler handler | Restart "vm \<Rightarrow> vm option"

definition switch_table :: "(string \<times> switch_case) list" where
  "switch_table = [
    (''ACC0'', Handler (Instruct_ACCn 0)), (''ACC1'', Handler (Instruct_ACCn 1)),
    (''ACC2'', Handler (Instruct_ACCn 2)), (''ACC3'', Handler (Instruct_ACCn 3)),
    (''ACC4'', Handler (Instruct_ACCn 4)), (''ACC5'', Handler (Instruct_ACCn 5)),
    (''ACC6'', Handler (Instruct_ACCn 6)), (''ACC7'', Handler (Instruct_ACCn 7)),
    (''ACC'', Handler Instruct_ACC), (''PUSH'', Handler Instruct_PUSH),
    (''PUSHACC0'', Handler Instruct_PUSH), (''PUSHACC1'', Handler (Instruct_PUSHACCn 1)),
    (''PUSHACC2'', Handler (Instruct_PUSHACCn 2)), (''PUSHACC3'', Handler (Instruct_PUSHACCn 3)),
    (''PUSHACC4'', Handler (Instruct_PUSHACCn 4)), (''PUSHACC5'', Handler (Instruct_PUSHACCn 5)),
    (''PUSHACC6'', Handler (Instruct_PUSHACCn 6)), (''PUSHACC7'', Handler (Instruct_PUSHACCn 7)),
    (''PUSHACC'', Handler Instruct_PUSHACC), (''POP'', Handler Instruct_POP),
    (''ASSIGN'', Handler Instruct_ASSIGN), (''ENVACC1'', Handler (Instruct_ENVACCn 1)),
    (''ENVACC2'', Handler (Instruct_ENVACCn 2)), (''ENVACC3'', Handler (Instruct_ENVACCn 3)),
    (''ENVACC4'', Handler (Instruct_ENVACCn 4)), (''ENVACC'', Handler Instruct_ENVACC),
    (''PUSHENVACC1'', Handler (Instruct_PUSHENVACCn 1)),
    (''PUSHENVACC2'', Handler (Instruct_PUSHENVACCn 2)),
    (''PUSHENVACC3'', Handler (Instruct_PUSHENVACCn 3)),
    (''PUSHENVACC4'', Handler (Instruct_PUSHENVACCn 4)),
    (''PUSHENVACC'', Handler Instruct_PUSHENVACC),
    (''PUSH_RETADDR'', Handler Instruct_PUSH_RETADDR), (''APPLY'', Handler Instruct_APPLY),
    (''APPLY1'', Handler Instruct_APPLY1), (''APPLY2'', Handler Instruct_APPLY2),
    (''APPLY3'', Handler Instruct_APPLY3), (''APPTERM'', Handler Instruct_APPTERM),
    (''APPTERM1'', Handler Instruct_APPTERM1), (''APPTERM2'', Handler Instruct_APPTERM2),
    (''APPTERM3'', Handler Instruct_APPTERM3), (''RETURN'', Handler Instruct_RETURN),
    (''RESTART'', Handler Instruct_RESTART), (''GRAB'', Handler Instruct_GRAB),
    (''CLOSURE'', Handler Instruct_CLOSURE), (''CLOSUREREC'', Handler Instruct_CLOSUREREC),
    (''OFFSETCLOSUREM3'', Handler (Instruct_OFFSETCLOSUREn (- 3))),
    (''OFFSETCLOSURE0'', Handler Instruct_OFFSETCLOSURE0),
    (''OFFSETCLOSURE3'', Handler (Instruct_OFFSETCLOSUREn 3)),
    (''OFFSETCLOSURE'', Handler Instruct_OFFSETCLOSURE),
    (''PUSHOFFSETCLOSUREM3'', Handler (Instruct_PUSHOFFSETCLOSUREn (- 3))),
    (''PUSHOFFSETCLOSURE0'', Handler Instruct_PUSHOFFSETCLOSURE0),
    (''PUSHOFFSETCLOSURE3'', Handler (Instruct_PUSHOFFSETCLOSUREn 3)),
    (''PUSHOFFSETCLOSURE'', Handler Instruct_PUSHOFFSETCLOSURE),
    (''GETGLOBAL'', Handler Instruct_GETGLOBAL),
    (''PUSHGETGLOBAL'', Handler Instruct_PUSHGETGLOBAL),
    (''GETGLOBALFIELD'', Handler Instruct_GETGLOBALFIELD),
    (''PUSHGETGLOBALFIELD'', Handler Instruct_PUSHGETGLOBALFIELD),
    (''SETGLOBAL'', Handler Instruct_SETGLOBAL), (''ATOM0'', Handler Instruct_ATOM0),
    (''ATOM'', Handler Instruct_ATOM), (''PUSHATOM0'', Handler Instruct_PUSHATOM0),
    (''PUSHATOM'', Handler Instruct_PUSHATOM), (''MAKEBLOCK'', Handler Instruct_MAKEBLOCK),
    (''MAKEBLOCK1'', Handler Instruct_MAKEBLOCK1), (''MAKEBLOCK2'', Handler Instruct_MAKEBLOCK2),
    (''MAKEBLOCK3'', Handler Instruct_MAKEBLOCK3),
    (''MAKEFLOATBLOCK'', Handler Instruct_MAKEFLOATBLOCK),
    (''GETFIELD0'', Handler (Instruct_GETFIELDn 0)),
    (''GETFIELD1'', Handler (Instruct_GETFIELDn 1)),
    (''GETFIELD2'', Handler (Instruct_GETFIELDn 2)),
    (''GETFIELD3'', Handler (Instruct_GETFIELDn 3)), (''GETFIELD'', Handler Instruct_GETFIELD),
    (''GETFLOATFIELD'', Handler Instruct_GETFLOATFIELD),
    (''SETFIELD0'', Handler (Instruct_SETFIELDn 0)),
    (''SETFIELD1'', Handler (Instruct_SETFIELDn 1)),
    (''SETFIELD2'', Handler (Instruct_SETFIELDn 2)),
    (''SETFIELD3'', Handler (Instruct_SETFIELDn 3)), (''SETFIELD'', Handler Instruct_SETFIELD),
    (''SETFLOATFIELD'', Handler Instruct_SETFLOATFIELD),
    (''VECTLENGTH'', Handler Instruct_VECTLENGTH), (''GETVECTITEM'', Handler Instruct_GETVECTITEM),
    (''SETVECTITEM'', Handler Instruct_SETVECTITEM),
    (''GETBYTESCHAR'', Handler Instruct_GETBYTESCHAR),
    (''SETBYTESCHAR'', Handler Instruct_SETBYTESCHAR), (''BRANCH'', Handler Instruct_BRANCH),
    (''BRANCHIF'', Handler Instruct_BRANCHIF), (''BRANCHIFNOT'', Handler Instruct_BRANCHIFNOT),
    (''SWITCH'', Handler Instruct_SWITCH), (''BOOLNOT'', Handler Instruct_BOOLNOT),
    (''PUSHTRAP'', Handler Instruct_PUSHTRAP), (''POPTRAP'', Handler Instruct_POPTRAP),
    (''RAISE'', Handler Instruct_RAISE), (''CHECK_SIGNALS'', Handler Instruct_CHECK_SIGNALS),
    (''C_CALL1'', Handler Instruct_C_CALL1), (''C_CALL2'', Handler Instruct_C_CALL2),
    (''C_CALL3'', Handler Instruct_C_CALL3), (''C_CALL4'', Handler Instruct_C_CALL4),
    (''C_CALL5'', Handler Instruct_C_CALL5), (''C_CALLN'', Handler Instruct_C_CALLN),
    (''CONST0'', Handler (Instruct_CONSTn 0)), (''CONST1'', Handler (Instruct_CONSTn 1)),
    (''CONST2'', Handler (Instruct_CONSTn 2)), (''CONST3'', Handler (Instruct_CONSTn 3)),
    (''CONSTINT'', Handler Instruct_CONSTINT), (''PUSHCONST0'', Handler (Instruct_PUSHCONSTn 0)),
    (''PUSHCONST1'', Handler (Instruct_PUSHCONSTn 1)),
    (''PUSHCONST2'', Handler (Instruct_PUSHCONSTn 2)),
    (''PUSHCONST3'', Handler (Instruct_PUSHCONSTn 3)),
    (''PUSHCONSTINT'', Handler Instruct_PUSHCONSTINT), (''NEGINT'', Handler Instruct_NEGINT),
    (''ADDINT'', Handler Instruct_ADDINT), (''SUBINT'', Handler Instruct_SUBINT),
    (''MULINT'', Handler Instruct_MULINT), (''DIVINT'', Handler Instruct_DIVINT),
    (''MODINT'', Handler Instruct_MODINT), (''ANDINT'', Handler Instruct_ANDINT),
    (''ORINT'', Handler Instruct_ORINT), (''XORINT'', Handler Instruct_XORINT),
    (''LSLINT'', Handler Instruct_LSLINT), (''LSRINT'', Handler Instruct_LSRINT),
    (''ASRINT'', Handler Instruct_ASRINT), (''EQ'', Handler Instruct_EQ),
    (''NEQ'', Handler Instruct_NEQ), (''LTINT'', Handler Instruct_LTINT),
    (''LEINT'', Handler Instruct_LEINT), (''GTINT'', Handler Instruct_GTINT),
    (''GEINT'', Handler Instruct_GEINT), (''OFFSETINT'', Handler Instruct_OFFSETINT),
    (''OFFSETREF'', Handler Instruct_OFFSETREF), (''ISINT'', Handler Instruct_ISINT),
    (''GETMETHOD'', Handler Instruct_GETMETHOD), (''BEQ'', Handler Instruct_BEQ),
    (''BNEQ'', Handler Instruct_BNEQ), (''BLTINT'', Handler Instruct_BLTINT),
    (''BLEINT'', Handler Instruct_BLEINT), (''BGTINT'', Handler Instruct_BGTINT),
    (''BGEINT'', Handler Instruct_BGEINT), (''ULTINT'', Handler Instruct_ULTINT),
    (''UGEINT'', Handler Instruct_UGEINT), (''BULTINT'', Handler Instruct_BULTINT),
    (''BUGEINT'', Handler Instruct_BUGEINT), (''GETPUBMET'', Handler Instruct_GETPUBMET),
    (''GETDYNMET'', Handler Instruct_GETDYNMET), (''STOP'', Handler Instruct_STOP),
    (''EVENT'', Restart Instruct_EVENT), (''BREAK'', Restart Instruct_BREAK),
    (''RERAISE'', Handler Instruct_RERAISE), (''RAISE_NOTRACE'', Handler Instruct_RAISE_NOTRACE),
    (''GETSTRINGCHAR'', Handler Instruct_GETBYTESCHAR), (''PERFORM'', Handler Instruct_PERFORM),
    (''RESUME'', Handler Instruct_RESUME), (''RESUMETERM'', Handler Instruct_RESUMETERM),
    (''REPERFORMTERM'', Handler Instruct_REPERFORMTERM)]"

partial_function (option) dispatch_instr :: "hooks \<Rightarrow> u32 \<Rightarrow> vm \<Rightarrow> outcome option" where
  "dispatch_instr hk curr_instr s =
     (if 0 \<le> sint curr_instr \<and> nat (sint curr_instr) < length switch_table then
        (case snd (switch_table ! nat (sint curr_instr)) of
           Handler f \<Rightarrow> f hk s
         | Restart f \<Rightarrow> Option.bind (f s) (\<lambda>s.
             Option.bind (caml_debugger_saved_instruction s (pc s - 1)) (\<lambda>op. dispatch_instr hk op s)))
      else Some (Fatal ''bad opcode''))"

section \<open>The loop\<close>

text \<open>
  One turn of \<open>while(1)\<close>: the assertion that the stack has not overflowed, the profile, the fetch,
  the instruction, and the stack and signal checks it ends with.
\<close>

definition step :: "hooks \<Rightarrow> vm \<Rightarrow> outcome option" where
  "step hk s = do {
     st \<leftarrow> get_stack s (current_stack s);
     if \<not> length (sp s) \<le> stk_wosize st then Some (Fatal ''assertion failure'')
     else do {
       curr_instr \<leftarrow> int_nth (code s) (pc s);
       counted \<leftarrow> profile_count (prof s) curr_instr;
       case counted of
         Done p \<Rightarrow> do {
           res \<leftarrow> dispatch_instr hk curr_instr (s\<lparr>prof := p, pc := pc s + 1\<rparr>);
           settle hk res }
       | _ \<Rightarrow> Some (Fatal ''assertion failure'') } }"

partial_function (option) exec :: "hooks \<Rightarrow> vm \<Rightarrow> outcome option" where
  "exec hk s = Option.bind (step hk s) (\<lambda>res.
     case res of Next s' \<Rightarrow> exec hk s' | other \<Rightarrow> Some other)"

text \<open>At most \<open>n\<close> turns; the state reached when they were not enough.\<close>

fun exec_n :: "nat \<Rightarrow> hooks \<Rightarrow> vm \<Rightarrow> outcome option" where
  "exec_n 0 hk s = Some (Next s)"
| "exec_n (Suc n) hk s = do {
     res \<leftarrow> step hk s;
     case res of Next s' \<Rightarrow> exec_n n hk s' | other \<Rightarrow> Some other }"

section \<open>Entry\<close>

text \<open>
  \<open>caml_interprete(NULL, 0)\<close>: the code \<open>ACC 0; RAISE\<close> and the closure over it that raises
  \<open>Unhandled\<close> at the place of a perform without handler.
\<close>

definition interp_init :: "runtime \<Rightarrow> runtime option" where
  "interp_init r = do {
     let c = int (length (code r));
     let clos = Ptr (length (heap r)) 0;
     h \<leftarrow> init_fields (heap r @ [fresh_block 2 Closure_tag Debug_uninit_minor]) clos 0
       [Code c, Word (Make_closinfo 0 2)];
     Some (r\<lparr>code := code r @ [8, 0, 91], heap := h, raise_unhandled := clos,
       caml_global_data := Val_unit\<rparr>) }"

text \<open>
  The registers on entry. \<open>ctx\<close> identifies the \<open>exception_ctx\<close> of this activation.
\<close>

definition interp_enter :: "nat \<Rightarrow> profile \<Rightarrow> int \<Rightarrow> runtime \<Rightarrow> vm option" where
  "interp_enter ctx p prog r = do {
     st \<leftarrow> get_stack r (current_stack r);
     Some (runtime.extend (r\<lparr>external_raise := Some ctx, trap_sp_off := 1\<rparr>)
       (vm.fields prog (stk_sp st) (Val_int 0) (Atom 0) 0
         (external_raise r) (length (stk_sp st)) (trap_sp_off r) ctx p)) }"

definition interp_profile :: "bool \<Rightarrow> profile alloc_result option" where
  "interp_profile mem_ok =
     (if \<not> mem_ok then Some Exited
      else (case create_func_stack mem_ok mem_ok 1024 of
        Allocated fs \<Rightarrow> do { t \<leftarrow> ht_create mem_ok mem_ok; Some (Allocated (profile_init fs t)) }
      | _ \<Rightarrow> Some Exited))"

definition caml_interprete :: "hooks \<Rightarrow> bool \<Rightarrow> nat \<Rightarrow> int \<Rightarrow> runtime \<Rightarrow> outcome option" where
  "caml_interprete hk mem_ok ctx prog r = do {
     p \<leftarrow> interp_profile mem_ok;
     case p of
       Allocated p \<Rightarrow> do { s \<leftarrow> interp_enter ctx p prog r; exec hk s }
     | _ \<Rightarrow> Some (Fatal ''exit'') }"

end
