(* ===== verification/Machine_Frame.thy ===== *)
theory Machine_Frame
  imports Interp
begin

text \<open>
  What one instruction can do to the lasting part of the state: the heap, the code, the profile, the
  number of stacks and the activation record of \<open>caml_interprete\<close>. The locale \<open>vm_frame\<close> asks of a
  preorder on that part that it contains the elementary effects (a store, an allocation, an inline
  cache update, the profiler's calls, what C code does) and gives that every instruction, every turn
  of the loop and every run respects it.
\<close>

section \<open>The lasting part of the state\<close>

record vm_core =
  c_heap :: heap
  c_code :: "u32 list"
  c_prof :: profile
  c_nstacks :: nat
  c_activation :: "nat option \<times> nat \<times> int \<times> nat"

definition core :: "vm \<Rightarrow> vm_core" where
  "core s = \<lparr>c_heap = heap s, c_code = code s, c_prof = prof s, c_nstacks = length (stacks s),
     c_activation = (initial_external_raise s, initial_stack_words s, initial_trap_sp_off s, exception_ctx s)\<rparr>"

lemma core_sel [simp]:
  "c_heap (core s) = heap s" "c_code (core s) = code s" "c_prof (core s) = prof s"
  "c_nstacks (core s) = length (stacks s)"
  by (simp_all add: core_def)

lemma core_upd [simp]:
  "core (s\<lparr>pc := a\<rparr>) = core s" "core (s\<lparr>sp := b\<rparr>) = core s" "core (s\<lparr>accu := c\<rparr>) = core s"
  "core (s\<lparr>env := c\<rparr>) = core s" "core (s\<lparr>extra_args := d\<rparr>) = core s"
  "core (s\<lparr>trap_sp_off := a\<rparr>) = core s" "core (s\<lparr>current_stack := n\<rparr>) = core s"
  "core (s\<lparr>external_raise := e\<rparr>) = core s" "core (s\<lparr>stack_cache := f\<rparr>) = core s"
  "core (s\<lparr>caml_event_count := d\<rparr>) = core s"
  "core (s\<lparr>heap := h\<rparr>) = (core s)\<lparr>c_heap := h\<rparr>" "core (s\<lparr>code := g\<rparr>) = (core s)\<lparr>c_code := g\<rparr>"
  "core (s\<lparr>prof := p\<rparr>) = (core s)\<lparr>c_prof := p\<rparr>" "core (push c s) = core s"
  by (simp_all add: core_def push_def)

lemma core_put_stack [simp]: "core (put_stack s k st) = core s"
  by (simp add: core_def put_stack_def)

lemma core_put_rt: "core (put_rt s r) = (core s)\<lparr>c_heap := heap r, c_code := code r, c_nstacks := length (stacks r)\<rparr>"
  by (cases s) (simp add: core_def put_rt_def runtime.defs)

text \<open>
  How \<open>caml_interprete\<close> leaves the state to its caller: the caller's exception context and trap offset
  are back, an uncaught exception cuts the stack to its height at the entry, and the report of STOP
  has the number of instructions counted.
\<close>

fun leaves_clean :: "outcome \<Rightarrow> bool" where
  "leaves_clean (Finished v rep s) = (external_raise s = initial_external_raise s \<and>
     trap_sp_off s = initial_trap_sp_off s \<and> fst rep = total_op_count (prof s) \<and>
     map_option stk_sp (get_stack s (current_stack s)) = Some (sp s))"
| "leaves_clean (Uncaught v s) = (external_raise s = initial_external_raise s \<and>
     trap_sp_off s = initial_trap_sp_off s \<and>
     map_option (length \<circ> stk_sp) (get_stack s (current_stack s)) = Some (initial_stack_words s))"
| "leaves_clean (Next s) = True"
| "leaves_clean (Check_stacks s) = True"
| "leaves_clean (Fatal msg) = True"

definition keeps :: "(vm_core \<Rightarrow> vm_core \<Rightarrow> bool) \<Rightarrow> vm \<Rightarrow> outcome option \<Rightarrow> bool" where
  "keeps R s m \<longleftrightarrow> (\<forall>r. m = Some r \<longrightarrow> leaves_clean r \<and> (\<forall>s'. outcome_state r = Some s' \<longrightarrow> R (core s) (core s')))"

fun result_rt :: "runtime c_result \<Rightarrow> runtime option" where
  "result_rt (Returned v r) = Some r"
| "result_rt (Raised v r) = Some r"
| "result_rt (Aborted msg) = None"

text \<open>The effects of code outside the interpreter: a primitive, the pending actions, the signal handlers.\<close>

inductive hook_step :: "hooks \<Rightarrow> runtime \<Rightarrow> runtime \<Rightarrow> bool" for hk where
  prim: "primitive hk n args r = Some res \<Longrightarrow> result_rt res = Some r' \<Longrightarrow> hook_step hk r r'"
| pending: "process_pending_actions hk r = Some res \<Longrightarrow> result_rt res = Some r' \<Longrightarrow> hook_step hk r r'"
| signals: "signals_before_raise hk v r = Some (v', r') \<Longrightarrow> hook_step hk r r'"

section \<open>Steps that change nothing lasting\<close>

lemma save_sp_core: "save_sp s = Some s' \<Longrightarrow> core s' = core s"
  by (auto simp: save_sp_def bind_Some_iff)

lemma load_sp_core: "load_sp s = Some s' \<Longrightarrow> core s' = core s"
  by (auto simp: load_sp_def bind_Some_iff)

lemma sp_add_core: "sp_add n s = Some s' \<Longrightarrow> core s' = core s"
  by (auto simp: sp_add_def bind_Some_iff)

lemma pop_core: "pop s = Some (v, s') \<Longrightarrow> core s' = core s"
  by (auto simp: pop_def split: list.splits)

lemma operand_core: "operand s = Some (n, s') \<Longrightarrow> core s' = core s"
  by (auto simp: operand_def bind_Some_iff)

lemma caml_free_stack_core: "caml_free_stack k s = Some s' \<Longrightarrow> core s' = core s"
  by (auto simp: caml_free_stack_def bind_Some_iff Let_def split: option.splits)

lemma frames_core:
  "Setup_for_gc s = Some s' \<Longrightarrow> core s' = core s" "Restore_after_gc s = Some s' \<Longrightarrow> core s' = core s"
  "Setup_for_c_call s = Some s' \<Longrightarrow> core s' = core s" "Restore_after_c_call s = Some s' \<Longrightarrow> core s' = core s"
  "Setup_for_event s = Some s' \<Longrightarrow> core s' = core s" "Restore_after_event s = Some s' \<Longrightarrow> core s' = core s"
  "Setup_for_debugger s = Some s' \<Longrightarrow> core s' = core s" "Restore_after_debugger s = Some s' \<Longrightarrow> core s' = core s"
  by (auto simp: Setup_for_gc_def Setup_for_c_call_def Setup_for_event_def Setup_for_debugger_def
      Restore_after_gc_def Restore_after_c_call_def Restore_after_event_def Restore_after_debugger_def bind_Some_iff
      dest!: save_sp_core load_sp_core sp_add_core)

lemmas core_dests = save_sp_core load_sp_core sp_add_core pop_core operand_core caml_free_stack_core frames_core

section \<open>Rules for \<open>keeps\<close>\<close>

lemma keeps_None [simp]: "keeps R s None"
  by (simp add: keeps_def)

lemma keeps_Some: "keeps R s (Some r) \<longleftrightarrow> leaves_clean r \<and> (\<forall>s'. outcome_state r = Some s' \<longrightarrow> R (core s) (core s'))"
  by (simp add: keeps_def)

lemma keeps_bind: "(\<And>x. m = Some x \<Longrightarrow> keeps R s (f x)) \<Longrightarrow> keeps R s (Option.bind m f)"
  by (cases m) simp_all

lemma keeps_case_prod: "(\<And>a b. x = (a, b) \<Longrightarrow> keeps R s (f a b)) \<Longrightarrow> keeps R s (case x of (a, b) \<Rightarrow> f a b)"
  by (cases x) simp

lemma keeps_if: "(b \<Longrightarrow> keeps R s m) \<Longrightarrow> (\<not> b \<Longrightarrow> keeps R s m') \<Longrightarrow> keeps R s (if b then m else m')"
  by simp

lemma keeps_case_option:
  "(x = None \<Longrightarrow> keeps R s m) \<Longrightarrow> (\<And>a. x = Some a \<Longrightarrow> keeps R s (f a)) \<Longrightarrow>
   keeps R s (case x of None \<Rightarrow> m | Some a \<Rightarrow> f a)"
  by (cases x) simp_all

lemma keeps_cong: "core s1 = core s \<Longrightarrow> keeps R s1 m \<Longrightarrow> keeps R s m"
  by (simp add: keeps_def)

lemmas keeps_intros = keeps_bind keeps_case_prod keeps_if keeps_case_option

lemma alloc_size_class_frame:
  "alloc_size_class_stack_noexc hk w bucket a b c r = Some (k, r') \<Longrightarrow>
   heap r' = heap r \<and> code r' = code r \<and> length (stacks r) \<le> length (stacks r')"
  unfolding alloc_size_class_stack_noexc_def
  by (auto simp: bind_Some_iff split: option.splits list.splits)

lemma caml_free_stack_frame:
  "caml_free_stack k r = Some r' \<Longrightarrow> heap r' = heap r \<and> code r' = code r \<and> length (stacks r') = length (stacks r)"
  by (auto simp: caml_free_stack_def bind_Some_iff Let_def split: option.splits)

lemma caml_try_realloc_stack_frame:
  "caml_try_realloc_stack hk n r = Some (ok, r') \<Longrightarrow>
   heap r' = heap r \<and> code r' = code r \<and> length (stacks r) \<le> length (stacks r')"
  unfolding caml_try_realloc_stack_def alloc_stack_noexc_def
  by (auto simp: bind_Some_iff split: option.splits dest!: alloc_size_class_frame caml_free_stack_frame)

section \<open>The frame\<close>

locale vm_frame =
  fixes hk :: hooks and R :: "vm_core \<Rightarrow> vm_core \<Rightarrow> bool"
  assumes R_refl: "R c c"
    and R_trans: "R c d \<Longrightarrow> R d e \<Longrightarrow> R c e"
    and R_modify: "caml_modify (c_heap c) v i x = Some h \<Longrightarrow> R c (c\<lparr>c_heap := h\<rparr>)"
    and R_alloc: "R c (c\<lparr>c_heap := c_heap c @ [b]\<rparr>)"
    and R_code: "int_upd (c_code c) k y = Some g \<Longrightarrow> R c (c\<lparr>c_code := g\<rparr>)"
    and R_call: "profile_call m (c_prof c) a = Some (Done p) \<Longrightarrow> R c (c\<lparr>c_prof := p\<rparr>)"
    and R_return: "profile_return (c_prof c) = Some p \<Longrightarrow> R c (c\<lparr>c_prof := p\<rparr>)"
    and R_stacks: "c_nstacks c \<le> n \<Longrightarrow> R c (c\<lparr>c_nstacks := n\<rparr>)"
    and R_hook: "hook_step hk (rt s) r \<Longrightarrow> R (core s) (core (put_rt s r))"
begin

lemma keeps_trans: "R (core s) (core s1) \<Longrightarrow> keeps R s1 m \<Longrightarrow> keeps R s m"
  by (auto simp: keeps_def intro: R_trans)

lemma keeps_end:
  "core s1 = core s \<Longrightarrow> keeps R s (Some (Next s1))"
  "core s1 = core s \<Longrightarrow> keeps R s (Some (Check_stacks s1))"
  "core s1 = core s \<Longrightarrow> leaves_clean (Finished v rep s1) \<Longrightarrow> keeps R s (Some (Finished v rep s1))"
  "core s1 = core s \<Longrightarrow> leaves_clean (Uncaught v s1) \<Longrightarrow> keeps R s (Some (Uncaught v s1))"
  "keeps R s (Some (Fatal msg))"
  by (auto simp: keeps_Some intro: R_refl)

lemma R_init_fields: "init_fields (c_heap c) v i xs = Some h \<Longrightarrow> R c (c\<lparr>c_heap := h\<rparr>)"
proof (induction xs arbitrary: c i)
  case Nil
  then have "c\<lparr>c_heap := h\<rparr> = c" by (cases c) (simp add: init_fields.simps)
  then show ?case by (simp add: R_refl)
next
  case (Cons x xs)
  then obtain g where g: "caml_modify (c_heap c) v i x = Some g" "init_fields g v (i + 1) xs = Some h"
    by (auto simp: init_fields.simps bind_Some_iff)
  then have "R (c\<lparr>c_heap := g\<rparr>) (c\<lparr>c_heap := g\<rparr>\<lparr>c_heap := h\<rparr>)" by (intro Cons.IH) simp
  with R_modify [OF g(1)] show ?case by (auto intro: R_trans)
qed

lemma init_fields_core: "init_fields (heap s) v i xs = Some h \<Longrightarrow> R (core s) ((core s)\<lparr>c_heap := h\<rparr>)"
  using R_init_fields [of "core s"] by simp

lemma modify_core: "caml_modify (heap s) v i x = Some h \<Longrightarrow> core s = c \<Longrightarrow> R c (c\<lparr>c_heap := h\<rparr>)"
  using R_modify [of "core s"] by auto

subsection \<open>The shared labels\<close>

lemma keeps_enter_parent: "keeps R s (enter_parent hdl parent s)"
  unfolding enter_parent_def Let_def by (auto intro!: keeps_intros keeps_end dest!: core_dests)

lemma keeps_raise_notrace: "keeps R s (raise_notrace s)"
  unfolding raise_notrace_def Let_def
  by (intro keeps_intros keeps_enter_parent)
    (auto intro!: keeps_end simp: get_stack_live dest!: core_dests)

lemma keeps_raise_exception: "keeps R s (raise_exception s)"
  unfolding raise_exception_def by (auto intro: keeps_raise_notrace keeps_cong [OF _ keeps_raise_notrace])

lemma keeps_longjmp: "keeps R s (longjmp e s)"
  unfolding longjmp_def
  by (intro keeps_intros keeps_cong [OF _ keeps_raise_notrace]) (auto dest!: core_dests)

lemma keeps_do_return: "keeps R s (do_return s)"
  unfolding do_return_def
  by (auto split: list.splits intro!: keeps_intros keeps_enter_parent keeps_end dest!: core_dests)

lemma keeps_do_resume: "keeps R s (do_resume f a s)"
  unfolding do_resume_def Let_def
  by (auto intro!: keeps_intros keeps_end keeps_cong [OF _ keeps_raise_exception] dest!: core_dests)

lemma keeps_c_call:
  assumes "\<And>res r. m = Some res \<Longrightarrow> result_rt res = Some r \<Longrightarrow> R (core s) (core (put_rt s r))"
    and "\<And>v r. m = Some (Returned v r) \<Longrightarrow> keeps R (put_rt s r) (k v (put_rt s r))"
  shows "keeps R s (c_call m s k)"
proof -
  have "keeps R s (case res of Returned v r \<Rightarrow> k v (put_rt s r) | Raised e r \<Rightarrow> longjmp e (put_rt s r)
      | Aborted msg \<Rightarrow> Some (Fatal msg))" if res: "m = Some res" for res
    using assms(1) [of res] assms(2) res
    by (cases res) (auto intro: keeps_trans keeps_longjmp keeps_end)
  then show ?thesis unfolding c_call_def by (intro keeps_bind) auto
qed

lemma caml_raise_frame:
  "caml_raise hk v (rt s) = Some res \<Longrightarrow> result_rt res = Some r \<Longrightarrow> R (core s) (core (put_rt s r))"
  unfolding caml_raise_def
  by (auto simp: bind_Some_iff split: if_splits intro!: R_hook intro: hook_step.signals)

lemma raise_predefined_frame:
  "raise_predefined name n hk (rt s) = Some res \<Longrightarrow> result_rt res = Some r \<Longrightarrow> R (core s) (core (put_rt s r))"
  unfolding raise_predefined_def caml_raise_constant_def
  by (auto simp: bind_Some_iff split: if_splits intro: caml_raise_frame)

lemma keeps_process_signal: "keeps R s (process_signal hk s)"
  unfolding process_signal_def
proof (intro keeps_bind)
  fix s1 assume s1: "Setup_for_event s = Some s1"
  show "keeps R s (c_call (process_pending_actions hk (rt s1)) s1
      (\<lambda>_ s2. Option.bind (Restore_after_event s2) (\<lambda>s3. Some (Next s3))))"
    by (rule keeps_cong [OF frames_core(5) [OF s1]], rule keeps_c_call)
      (auto intro!: keeps_intros keeps_end R_hook intro: hook_step.pending dest!: core_dests)
qed

lemma keeps_CHECK_SIGNALS: "keeps R s (Instruct_CHECK_SIGNALS hk s)"
  unfolding Instruct_CHECK_SIGNALS_def by (auto intro: keeps_process_signal keeps_end)

lemma realloc_frame:
  assumes "caml_try_realloc_stack hk n (rt s) = Some (ok, r)"
  shows "R (core s) (core (put_rt s r))"
proof -
  note fr = caml_try_realloc_stack_frame [OF assms]
  then have "core (put_rt s r) = (core s)\<lparr>c_nstacks := length (stacks r)\<rparr>"
    unfolding core_put_rt by (simp add: core_def)
  moreover have "R (core s) ((core s)\<lparr>c_nstacks := length (stacks r)\<rparr>)"
    using fr by (intro R_stacks) simp
  ultimately show ?thesis by simp
qed

lemma keeps_check_stacks: "keeps R s (check_stacks hk s)"
  unfolding check_stacks_def Let_def
proof (intro keeps_bind keeps_if keeps_CHECK_SIGNALS keeps_case_prod)
  fix st s1 x ok r
  assume s1: "save_sp s = Some s1" and x: "caml_try_realloc_stack hk (of_nat Stack_threshold_words) (rt s1) = Some x" "x = (ok, r)"
  have s2: "R (core s) (core (put_rt s1 r))" using realloc_frame [of _ s1 ok r] x save_sp_core [OF s1] by simp
  show "keeps R s (Instruct_CHECK_SIGNALS hk s3)" if "load_sp (put_rt s1 r) = Some s3" for s3
    using load_sp_core [OF that] s2 by (intro keeps_trans [OF _ keeps_CHECK_SIGNALS]) simp
  show "keeps R s (c_call (caml_raise_stack_overflow hk (rt s3)) s3
       (\<lambda>_ s4. Option.bind (load_sp s4) (Instruct_CHECK_SIGNALS hk)))"
    if s3: "Setup_for_c_call (put_rt s1 r) = Some s3" for s3
  proof (rule keeps_trans [of s s3])
    show "R (core s) (core s3)" using s2 frames_core(3) [OF s3] by simp
    show "keeps R s3 (c_call (caml_raise_stack_overflow hk (rt s3)) s3
       (\<lambda>_ s4. Option.bind (load_sp s4) (Instruct_CHECK_SIGNALS hk)))"
      by (rule keeps_c_call)
        (auto simp: caml_raise_stack_overflow_def intro: raise_predefined_frame
          intro!: keeps_bind keeps_cong [OF _ keeps_CHECK_SIGNALS] dest!: core_dests)
  qed
qed

lemma keeps_settle:
  assumes r: "keeps R s (Some r)"
  shows "keeps R s (settle hk r)"
proof -
  have "keeps R s (Some q)" if "settle hk' r = Some q" "hk' = hk" "keeps R s (Some r)" for hk' r q
    using that
  proof (induction hk' r q rule: settle.raw_induct [rotated, consumes 1])
    case (1 settle hk' r q)
    show ?case
    proof (cases "\<exists>t. r = Check_stacks t")
      case True
      then obtain t u where t: "r = Check_stacks t" "check_stacks hk t = Some u" "settle hk u = Some q"
        using 1(2,3) by (auto simp: bind_Some_iff)
      have "keeps R s (Some u)"
        using keeps_check_stacks [of t] t(1,2) 1(4) by (auto simp: keeps_def intro: R_trans)
      with 1(1) [OF t(3)] show ?thesis by blast
    next
      case False
      with 1(2,4) show ?thesis by (cases r) auto
    qed
  qed
  with r show ?thesis by (cases "settle hk r") auto
qed

subsection \<open>Allocation\<close>

lemma keeps_gc_poll:
  assumes k: "\<And>t. R (core s) (core t) \<Longrightarrow> keeps R t (k t)"
  shows "keeps R s (gc_poll hk w k s)"
proof -
  have "keeps R s (Some q)"
    if "gc_poll hk' w' k' t = Some q" "hk' = hk" "k' = k" "R (core s) (core t)" for hk' w' k' t q
    using that
  proof (induction hk' w' k' t q rule: gc_poll.raw_induct [rotated, consumes 1])
    case (1 gc_poll hk' w' k' t q)
    show ?case
    proof (cases "gc_interrupt hk w' (rt t)")
      case False
      with 1 k [of t] show ?thesis by (auto simp: keeps_def intro: R_trans)
    next
      case True
      with 1(2-4) obtain t1 res where t1: "Setup_for_gc t = Some t1"
        and res: "process_pending_actions hk (rt t1) = Some res"
        and rest: "(case res of Returned _ r \<Rightarrow> Option.bind (Restore_after_gc (put_rt t1 r)) (gc_poll hk w' k)
          | Raised e r \<Rightarrow> longjmp e (put_rt t1 r) | Aborted msg \<Rightarrow> Some (Fatal msg)) = Some q"
        by (auto simp: bind_Some_iff)
      have eff: "R (core s) (core (put_rt t1 r))" if "result_rt res = Some r" for r
        using R_hook [of t1 r] hook_step.pending [OF res that] frames_core(1) [OF t1] 1(5) by (auto intro: R_trans)
      show ?thesis
      proof (cases res)
        case (Returned v r)
        with rest obtain t2 where t2: "Restore_after_gc (put_rt t1 r) = Some t2" "gc_poll hk w' k t2 = Some q"
          by (auto simp: bind_Some_iff)
        with 1(1) [OF t2(2)] eff Returned frames_core(2) [OF t2(1)] show ?thesis by simp
      next
        case (Raised e r)
        with rest eff keeps_longjmp [of "put_rt t1 r" e] show ?thesis
          by (auto simp: keeps_def intro: R_trans)
      next
        case (Aborted msg)
        with rest show ?thesis by (auto intro: keeps_end)
      qed
    qed
  qed
  with R_refl show ?thesis by (cases "gc_poll hk w k s") auto
qed

lemma keeps_Alloc_small:
  assumes "\<And>v t. R (core s) (core t) \<Longrightarrow> keeps R t (k v t)"
  shows "keeps R s (Alloc_small hk w tag s k)"
  unfolding Alloc_small_def
proof (intro keeps_if keeps_end keeps_gc_poll)
  fix t assume t: "R (core s) (core t)"
  have "R (core t) (core (t\<lparr>heap := heap t @ [fresh_block w (nat tag) Debug_uninit_minor]\<rparr>))"
    using R_alloc [of "core t"] by simp
  with t assms show "keeps R t (k (Ptr (length (heap t)) 0)
      (t\<lparr>heap := heap t @ [fresh_block w (nat tag) Debug_uninit_minor]\<rparr>))"
    by (blast intro: keeps_trans R_trans)
qed

lemma keeps_caml_alloc_shr:
  assumes k: "\<And>v t. R (core s) (core t) \<Longrightarrow> keeps R t (k v t)"
  shows "keeps R s (caml_alloc_shr hk w tag s k)"
  unfolding caml_alloc_shr_def
proof (intro keeps_if keeps_bind)
  show "keeps R s (k (Ptr (length (heap s)) 0) (s\<lparr>heap := heap s @ [fresh_block w (nat tag) Debug_uninit_major]\<rparr>))"
    using R_alloc [of "core s"] k
    by (intro keeps_trans [of s "s\<lparr>heap := heap s @ [fresh_block w (nat tag) Debug_uninit_major]\<rparr>"]) simp_all
  fix s1 assume s1: "save_sp s = Some s1"
  have "keeps R s1 (c_call (caml_raise_out_of_memory hk (rt s1)) s1 k)"
    unfolding caml_raise_out_of_memory_def
  proof (rule keeps_c_call)
    show "R (core s1) (core (put_rt s1 r))" if "raise_predefined ''Out_of_memory'' OUT_OF_MEMORY_EXN hk (rt s1) = Some res"
      "result_rt res = Some r" for res r using raise_predefined_frame [OF that] .
    show "keeps R (put_rt s1 r) (k v (put_rt s1 r))"
      if "raise_predefined ''Out_of_memory'' OUT_OF_MEMORY_EXN hk (rt s1) = Some (Returned v r)" for v r
      using raise_predefined_frame [OF that] save_sp_core [OF s1] by (intro k) simp
  qed
  then show "keeps R s (c_call (caml_raise_out_of_memory hk (rt s1)) s1 k)" by (rule keeps_cong [OF save_sp_core [OF s1]])
qed

end

end
