(* ===== verification/Machine_Instrs.thy ===== *)
theory Machine_Instrs
  imports Machine_Frame
begin

text \<open>
  Every instruction respects a frame: the lemmas of the locale \<open>vm_frame\<close> for the handlers of the
  switch, then for a turn of the loop and for runs.
\<close>

named_theorems quiet_defs \<open>instructions that touch the registers and the stack only\<close>

lemmas [quiet_defs] = Instruct_ACCn_def Instruct_PUSH_def Instruct_PUSHACCn_def Instruct_ACC_def
  Instruct_PUSHACC_def Instruct_POP_def Instruct_ASSIGN_def Instruct_ENVACCn_def Instruct_PUSHENVACCn_def
  Instruct_ENVACC_def Instruct_PUSHENVACC_def Instruct_PUSH_RETADDR_def Instruct_APPTERM_def
  Instruct_APPTERM1_def Instruct_APPTERM2_def Instruct_APPTERM3_def Instruct_RESTART_def
  Instruct_OFFSETCLOSUREn_def Instruct_OFFSETCLOSURE_def Instruct_OFFSETCLOSURE0_def
  Instruct_PUSHOFFSETCLOSURE_def Instruct_PUSHOFFSETCLOSUREn_def Instruct_PUSHOFFSETCLOSURE0_def

context vm_frame
begin

lemma keeps_stack_instructions:
  "keeps R s (Instruct_ACCn n hk s)" "keeps R s (Instruct_PUSH hk s)" "keeps R s (Instruct_PUSHACCn n hk s)"
  "keeps R s (Instruct_ACC hk s)" "keeps R s (Instruct_PUSHACC hk s)" "keeps R s (Instruct_POP hk s)"
  "keeps R s (Instruct_ASSIGN hk s)" "keeps R s (Instruct_ENVACCn n hk s)" "keeps R s (Instruct_PUSHENVACCn n hk s)"
  "keeps R s (Instruct_ENVACC hk s)" "keeps R s (Instruct_PUSHENVACC hk s)" "keeps R s (Instruct_PUSH_RETADDR hk s)"
  "keeps R s (Instruct_APPTERM hk s)" "keeps R s (Instruct_APPTERM1 hk s)" "keeps R s (Instruct_APPTERM2 hk s)"
  "keeps R s (Instruct_APPTERM3 hk s)" "keeps R s (Instruct_RESTART hk s)"
  "keeps R s (Instruct_OFFSETCLOSUREn k hk s)" "keeps R s (Instruct_OFFSETCLOSURE hk s)"
  "keeps R s (Instruct_OFFSETCLOSURE0 hk s)" "keeps R s (Instruct_PUSHOFFSETCLOSURE hk s)"
  "keeps R s (Instruct_PUSHOFFSETCLOSUREn k hk s)" "keeps R s (Instruct_PUSHOFFSETCLOSURE0 hk s)"
  unfolding quiet_defs Let_def
  by ((intro keeps_intros keeps_end; auto dest!: core_dests)+)

lemma keeps_profile_enter:
  assumes "\<And>t. R (core s) (core t) \<Longrightarrow> keeps R t (k t)"
  shows "keeps R s (profile_enter hk s k)"
  unfolding profile_enter_def
proof (intro keeps_bind)
  fix res assume res: "profile_call (malloc_ok hk (prof s)) (prof s) (code_addr s (pc s)) = Some res"
  have "R (core s) (core (s\<lparr>prof := p\<rparr>))" if "res = Done p" for p
    using R_call [of _ "core s" _ p] res that by simp
  then show "keeps R s (case res of Done p \<Rightarrow> k (s\<lparr>prof := p\<rparr>) | Exit_failure \<Rightarrow> Some (Fatal ''exit'')
      | Assert_failure \<Rightarrow> Some (Fatal ''assertion failure''))"
    using assms by (cases res) (auto simp del: core_upd intro: keeps_trans keeps_end)
qed

text \<open>The form the call instructions use: registers change before and after the profiler runs.\<close>

lemma keeps_enter_call:
  "core s1 = core s \<Longrightarrow> (\<And>t. core (f t) = core t) \<Longrightarrow> keeps R s (profile_enter hk s1 (\<lambda>t. Some (Check_stacks (f t))))"
  by (rule keeps_cong [of s1], assumption, rule keeps_profile_enter, rule keeps_end) simp

lemma keeps_APPLY: "keeps R s (Instruct_APPLY hk s)"
  unfolding Instruct_APPLY_def by (intro keeps_intros keeps_enter_call) simp_all

lemma keeps_APPLYk:
  "keeps R s (Instruct_APPLY1 hk s)" "keeps R s (Instruct_APPLY2 hk s)" "keeps R s (Instruct_APPLY3 hk s)"
  unfolding Instruct_APPLY1_def Instruct_APPLY2_def Instruct_APPLY3_def Let_def
  by (intro keeps_intros keeps_enter_call; auto dest!: core_dests)+

lemma profile_return_core: "profile_return (prof s) = Some p \<Longrightarrow> R (core s) (core (s\<lparr>prof := p\<rparr>))"
  using R_return [of "core s"] by simp

lemma keeps_RETURN: "keeps R s (Instruct_RETURN hk s)"
  unfolding Instruct_RETURN_def
proof (intro keeps_intros)
  fix x n s1 s2 c p
  assume 1: "operand s = Some x" "x = (n, s1)" "sp_add n s1 = Some s2"
  then have c: "core s2 = core s" by (auto dest!: core_dests)
  show "keeps R s (Some (Next (s2\<lparr>extra_args := extra_args s2 - 1, pc := c, env := accu s2, prof := p\<rparr>)))"
    if "profile_return (prof s2) = Some p"
    using profile_return_core [OF that] c by (auto simp: keeps_Some)
  show "keeps R s (do_return (s2\<lparr>prof := p\<rparr>))" if "profile_return (prof s2) = Some p"
    using profile_return_core [OF that] c by (intro keeps_trans [OF _ keeps_do_return]) simp
qed

text \<open>An allocation followed by initialising stores and register changes.\<close>

lemma keeps_fill:
  "init_fields (heap t) v i xs = Some h \<Longrightarrow> core s1 = (core t)\<lparr>c_heap := h\<rparr> \<Longrightarrow> keeps R t (Some (Next s1))"
  using init_fields_core by (auto simp: keeps_Some)

lemma keeps_GRAB: "keeps R s (Instruct_GRAB hk s)"
  unfolding Instruct_GRAB_def Let_def
proof (intro keeps_intros)
  fix x n s1 assume "operand s = Some x" "x = (n, s1)"
  then have c: "core s1 = core s" by (auto dest!: core_dests)
  show "keeps R s (Some (Next (s1\<lparr>extra_args := extra_args s1 - word_of_int n\<rparr>)))"
    using c by (intro keeps_end) simp
  show "keeps R s (Alloc_small hk (unat (1 + extra_args s1) + 3) (int Closure_tag) s1 (\<lambda>a s. do {
         args \<leftarrow> take_opt (unat (1 + extra_args s1)) (sp s);
         h \<leftarrow> init_fields (heap s) a 0 (Code (pc s - 3) # Word (Make_closinfo 0 2) # env s # args);
         s \<leftarrow> sp_add (int (unat (1 + extra_args s1))) (s\<lparr>accu := a, heap := h\<rparr>);
         do_return s }))"
    by (rule keeps_cong [OF c], rule keeps_Alloc_small, intro keeps_bind)
      (auto intro!: keeps_trans [OF _ keeps_do_return] intro: init_fields_core dest!: core_dests)
qed

lemma init_fields_twice:
  "init_fields (heap t) v i xs = Some g \<Longrightarrow> init_fields g v j ys = Some h \<Longrightarrow> R (core t) ((core t)\<lparr>c_heap := h\<rparr>)"
  using init_fields_core [of t v i xs g] init_fields_core [of "t\<lparr>heap := g\<rparr>" v j ys h] by (auto intro: R_trans)

lemma keeps_CLOSURE: "keeps R s (Instruct_CLOSURE hk s)"
  unfolding Instruct_CLOSURE_def Let_def
  by (intro keeps_intros keeps_cong [OF _ keeps_Alloc_small] keeps_cong [OF _ keeps_caml_alloc_shr])
    (auto simp: keeps_Some intro: init_fields_twice dest!: core_dests)

lemma closurerec_fill_core: "closurerec_fill n i e a s = Some s' \<Longrightarrow> R (core s) (core s')"
proof (induction n i e a s rule: closurerec_fill.induct)
  case (1 i e a s)
  then show ?case by (simp add: R_refl)
next
  case (2 n i e a s)
  from 2(2) obtain ofs h p where *: "pc_at s (int i) = Some ofs"
    "init_fields (heap s) a (3 * int i - 1)
       [Word (Make_header (i * 3) Infix_tag 0), Code (pc s + ofs), Word (Make_closinfo 0 (e - 3))] = Some h"
    "ptr_add a (3 * int i) = Some p"
    "closurerec_fill n (Suc i) (e - 3) a (push p (s\<lparr>heap := h\<rparr>)) = Some s'"
    by (auto simp: bind_Some_iff)
  then have "R (core (push p (s\<lparr>heap := h\<rparr>))) (core s')" by (rule 2(1))
  with init_fields_core [OF *(2)] show ?case by (auto intro: R_trans)
qed

lemma keeps_closurerec_build: "keeps R t (closurerec_build nf nv eo a t)"
  unfolding closurerec_build_def
proof (intro keeps_bind)
  fix vars h1 s1 ofs h2 s2
  assume *: "init_fields (heap t) a (int eo) vars = Some h1" "sp_add (int nv) (t\<lparr>accu := a, heap := h1\<rparr>) = Some s1"
    "init_fields (heap s1) a 0 [Code (pc s1 + ofs), Word (Make_closinfo 0 (of_nat eo))] = Some h2"
    "closurerec_fill (nf - 1) 1 (of_nat eo) a (push a (s1\<lparr>heap := h2\<rparr>)) = Some s2"
  have "core s1 = (core t)\<lparr>c_heap := h1\<rparr>" using sp_add_core [OF *(2)] by simp
  then have "R (core t) (core s1)" using init_fields_core [OF *(1)] by simp
  moreover have "R (core s1) (core (push a (s1\<lparr>heap := h2\<rparr>)))" using init_fields_core [OF *(3)] by simp
  moreover have "R (core (push a (s1\<lparr>heap := h2\<rparr>))) (core s2)" by (rule closurerec_fill_core [OF *(4)])
  ultimately show "keeps R t (Some (Next (s2\<lparr>pc := pc s2 + int nf\<rparr>)))" by (auto simp: keeps_Some intro: R_trans)
qed

lemma keeps_CLOSUREREC: "keeps R s (Instruct_CLOSUREREC hk s)"
  unfolding Instruct_CLOSUREREC_def Let_def
  by (intro keeps_intros keeps_cong [OF _ keeps_Alloc_small] keeps_cong [OF _ keeps_caml_alloc_shr])
    (auto intro: keeps_closurerec_build dest!: core_dests)

lemmas keeps_apply_instructions = keeps_APPLY keeps_APPLYk keeps_RETURN keeps_GRAB keeps_CLOSURE keeps_CLOSUREREC

subsection \<open>Heap instructions\<close>

lemma keeps_field_reads:
  "keeps R s (Instruct_GETGLOBAL hk s)" "keeps R s (Instruct_PUSHGETGLOBAL hk s)"
  "keeps R s (Instruct_GETGLOBALFIELD hk s)" "keeps R s (Instruct_PUSHGETGLOBALFIELD hk s)"
  "keeps R s (Instruct_ATOM0 hk s)" "keeps R s (Instruct_PUSHATOM0 hk s)" "keeps R s (Instruct_ATOM hk s)"
  "keeps R s (Instruct_PUSHATOM hk s)" "keeps R s (Instruct_GETFIELDn i hk s)" "keeps R s (Instruct_GETFIELD hk s)"
  "keeps R s (Instruct_VECTLENGTH hk s)" "keeps R s (Instruct_GETVECTITEM hk s)" "keeps R s (Instruct_GETBYTESCHAR hk s)"
  unfolding Instruct_GETGLOBAL_def Instruct_PUSHGETGLOBAL_def Instruct_GETGLOBALFIELD_def
    Instruct_PUSHGETGLOBALFIELD_def Instruct_ATOM0_def Instruct_PUSHATOM0_def Instruct_ATOM_def Instruct_PUSHATOM_def
    Instruct_GETFIELDn_def Instruct_GETFIELD_def Instruct_VECTLENGTH_def Instruct_GETVECTITEM_def
    Instruct_GETBYTESCHAR_def Let_def
  by (intro keeps_intros keeps_end; auto dest!: core_dests)+

lemma keeps_blocks:
  "keeps R s (Instruct_MAKEBLOCK hk s)" "keeps R s (Instruct_MAKEBLOCK1 hk s)" "keeps R s (Instruct_MAKEBLOCK2 hk s)"
  "keeps R s (Instruct_MAKEBLOCK3 hk s)" "keeps R s (Instruct_MAKEFLOATBLOCK hk s)" "keeps R s (Instruct_GETFLOATFIELD hk s)"
  unfolding Instruct_MAKEBLOCK_def Instruct_MAKEBLOCK1_def Instruct_MAKEBLOCK2_def Instruct_MAKEBLOCK3_def
    Instruct_MAKEFLOATBLOCK_def Instruct_GETFLOATFIELD_def Let_def
  by (intro keeps_intros keeps_cong [OF _ keeps_Alloc_small] keeps_cong [OF _ keeps_caml_alloc_shr];
      auto intro!: keeps_fill dest!: core_dests)+

lemma Set_byte_core: "Set_byte (heap s) v i c = Some h \<Longrightarrow> core s = d \<Longrightarrow> R d (d\<lparr>c_heap := h\<rparr>)"
  by (auto simp: Set_byte_def bind_Some_iff intro: modify_core)

lemma keeps_stores:
  "keeps R s (Instruct_SETGLOBAL hk s)" "keeps R s (Instruct_SETFIELDn i hk s)" "keeps R s (Instruct_SETFIELD hk s)"
  "keeps R s (Instruct_SETFLOATFIELD hk s)" "keeps R s (Instruct_SETVECTITEM hk s)" "keeps R s (Instruct_SETBYTESCHAR hk s)"
  "keeps R s (Instruct_OFFSETREF hk s)"
  unfolding Instruct_SETGLOBAL_def Instruct_SETFIELDn_def Instruct_SETFIELD_def Instruct_SETFLOATFIELD_def
    Instruct_SETVECTITEM_def Instruct_SETBYTESCHAR_def Instruct_OFFSETREF_def Let_def
  by (intro keeps_intros; auto simp: keeps_Some intro: modify_core Set_byte_core dest!: core_dests)+

lemmas keeps_heap_instructions = keeps_field_reads keeps_blocks keeps_stores

subsection \<open>Control instructions\<close>

lemma keeps_branches:
  "keeps R s (Instruct_BRANCH hk s)" "keeps R s (Instruct_BRANCHIF hk s)" "keeps R s (Instruct_BRANCHIFNOT hk s)"
  "keeps R s (Instruct_SWITCH hk s)" "keeps R s (Instruct_BOOLNOT hk s)" "keeps R s (Instruct_PUSHTRAP hk s)"
  unfolding Instruct_BRANCH_def Instruct_BRANCHIF_def Instruct_BRANCHIFNOT_def take_branch_def Instruct_SWITCH_def
    Instruct_BOOLNOT_def Instruct_PUSHTRAP_def Let_def
  by (intro keeps_intros keeps_end; auto dest!: core_dests)+

lemma keeps_STOP: "keeps R s (Instruct_STOP hk s)"
  unfolding Instruct_STOP_def save_sp_def
  by (intro keeps_intros) (auto simp: bind_Some_iff stop_report_def get_stack_live intro!: keeps_end)

lemma keeps_POPTRAP: "keeps R s (Instruct_POPTRAP hk s)"
  unfolding Instruct_POPTRAP_def
  by (intro keeps_intros keeps_end keeps_cong [OF _ keeps_process_signal]) (auto dest!: core_dests)

lemma keeps_raises:
  "keeps R s (Instruct_RAISE_NOTRACE hk s)" "keeps R s (Instruct_RERAISE hk s)" "keeps R s (Instruct_RAISE hk s)"
  by (simp_all add: Instruct_RAISE_NOTRACE_def Instruct_RERAISE_def Instruct_RAISE_def keeps_raise_notrace
      keeps_raise_exception)

lemma keeps_call_primitive: "keeps R s (call_primitive hk args d s)"
  unfolding call_primitive_def
  by (intro keeps_intros keeps_c_call)
    (auto intro!: R_hook keeps_intros keeps_end intro: hook_step.prim dest!: core_dests)

lemma keeps_c_calls:
  "keeps R s (Instruct_C_CALL1 hk s)" "keeps R s (Instruct_C_CALL2 hk s)" "keeps R s (Instruct_C_CALL3 hk s)"
  "keeps R s (Instruct_C_CALL4 hk s)" "keeps R s (Instruct_C_CALL5 hk s)" "keeps R s (Instruct_C_CALLN hk s)"
  unfolding Instruct_C_CALL1_def Instruct_C_CALL2_def Instruct_C_CALL3_def Instruct_C_CALL4_def
    Instruct_C_CALL5_def Instruct_C_CALLN_def
  by (intro keeps_intros keeps_cong [OF _ keeps_call_primitive]; auto dest!: core_dests)+

lemma keeps_resume: "keeps R s (Instruct_RESUME hk s)" "keeps R s (Instruct_RESUMETERM hk s)"
  unfolding Instruct_RESUME_def Instruct_RESUMETERM_def
  by (intro keeps_intros keeps_cong [OF _ keeps_do_resume]; auto dest!: core_dests)+

lemma keeps_enter_effect_handler: "keeps R s (enter_effect_handler old parent eff cont s)"
  unfolding enter_effect_handler_def Let_def
  by (intro keeps_intros keeps_end) (auto dest!: core_dests)

lemma keeps_PERFORM: "keeps R s (Instruct_PERFORM hk s)"
  unfolding Instruct_PERFORM_def Let_def
proof (intro keeps_intros keeps_Alloc_small)
  fix exn show "keeps R s (raise_exception (s\<lparr>accu := exn\<rparr>))"
    by (rule keeps_cong [OF _ keeps_raise_exception]) simp
next
  fix p cont and t :: vm and st h
  assume "init_fields (heap (put_stack t (current_stack s) (st\<lparr>stk_parent := None, stk_sp := Val_int (trap_sp_off t) #
      Code (pc t) # env t # Word (Val_long (extra_args t)) # sp t\<rparr>))) cont 0 [Val_ptr (Some (current_stack s))] = Some h"
  then have "R (core t) ((core t)\<lparr>c_heap := h\<rparr>)" by (intro init_fields_core) simp
  then show "keeps R t (enter_effect_handler (current_stack s) p
      (accu (put_stack t (current_stack s) (st\<lparr>stk_parent := None, stk_sp := Val_int (trap_sp_off t) #
        Code (pc t) # env t # Word (Val_long (extra_args t)) # sp t\<rparr>))) cont
      ((put_stack t (current_stack s) (st\<lparr>stk_parent := None, stk_sp := Val_int (trap_sp_off t) #
        Code (pc t) # env t # Word (Val_long (extra_args t)) # sp t\<rparr>))\<lparr>heap := h\<rparr>))"
    by (intro keeps_trans [OF _ keeps_enter_effect_handler]) simp
qed

lemma continuation_use_frame:
  assumes "caml_continuation_use hk cont (rt s) = Some res" "result_rt res = Some r"
  shows "R (core s) (core (put_rt s r))"
proof -
  have step: "R (core s) (core (put_rt s q))"
    if m: "caml_modify (heap s) cont 0 (Val_ptr None) = Some h" "q = (rt s)\<lparr>heap := h\<rparr>" for h q
  proof -
    have "core (put_rt s q) = (core s)\<lparr>c_heap := h\<rparr>" unfolding core_put_rt using m(2) by (simp add: core_def)
    then show ?thesis using modify_core [OF m(1) refl] by simp
  qed
  obtain v h where h: "caml_modify (heap s) cont 0 (Val_ptr None) = Some h"
    and res: "(if v = Val_ptr None then caml_raise_continuation_already_taken hk ((rt s)\<lparr>heap := h\<rparr>)
      else Some (Returned v ((rt s)\<lparr>heap := h\<rparr>))) = Some res"
    using assms by (auto simp: caml_continuation_use_def caml_continuation_use_noexc_def bind_Some_iff split: if_splits)
  show ?thesis
  proof (cases "v = Val_ptr None")
    case False
    with res assms(2) step [OF h] show ?thesis by auto
  next
    case True
    let ?t = "put_rt s ((rt s)\<lparr>heap := h\<rparr>)"
    have "rt ?t = (rt s)\<lparr>heap := h\<rparr>" by (simp add: rt_put_rt)
    with True res have "raise_predefined ''Continuation_already_taken'' CONTINUATION_ALREADY_TAKEN_EXN hk (rt ?t) = Some res"
      by (simp add: caml_raise_continuation_already_taken_def)
    from raise_predefined_frame [OF this assms(2)] step [OF h refl] show ?thesis
      by (simp add: put_rt_put_rt) (blast intro: R_trans)
  qed
qed

lemma keeps_REPERFORMTERM: "keeps R s (Instruct_REPERFORMTERM hk s)"
  unfolding Instruct_REPERFORMTERM_def Let_def
  by (intro keeps_intros keeps_end keeps_cong [OF _ keeps_c_call] keeps_cong [OF _ keeps_enter_effect_handler]
      keeps_cong [OF _ keeps_do_resume] continuation_use_frame)
    (auto dest!: core_dests)

lemmas keeps_control_instructions = keeps_branches keeps_STOP keeps_POPTRAP keeps_raises keeps_c_calls keeps_resume
  keeps_PERFORM keeps_REPERFORMTERM keeps_CHECK_SIGNALS

subsection \<open>Integer and object instructions\<close>

lemma keeps_int_op: "keeps R s (int_op f hk s)"
  unfolding int_op_def by (intro keeps_intros keeps_end) (auto dest!: core_dests)

lemma keeps_divide_op: "keeps R s (divide_op f hk s)"
  unfolding divide_op_def Let_def caml_raise_zero_divide_def
  by (intro keeps_intros keeps_end keeps_cong [OF _ keeps_c_call] raise_predefined_frame) (auto dest!: core_dests)

lemma keeps_Integer_equality: "keeps R s (Integer_equality g hk s)"
  unfolding Integer_equality_def by (intro keeps_intros keeps_end) (auto dest!: core_dests)

lemma keeps_Integer_branch_comparison: "keeps R s (Integer_branch_comparison tst hk s)"
  unfolding Integer_branch_comparison_def by (intro keeps_intros keeps_end) (auto dest!: core_dests)

lemma keeps_GETPUBMET: "keeps R s (Instruct_GETPUBMET hk s)"
  unfolding Instruct_GETPUBMET_def Let_def
proof (intro keeps_intros)
  fix meths x n s1 cache hit v c
  assume "operand (push (accu s) s) = Some x" "x = (n, s1)"
  then have s1: "core s1 = core s" by (auto dest!: core_dests)
  show "keeps R s (Some (Next (s1\<lparr>accu := v, pc := pc s1 + 1\<rparr>)))" using s1 by (intro keeps_end) simp
  fix li assume "int_upd (code s1) (pc s1) (word_of_int ((li - 3) * 8)) = Some c"
  then have "R (core s1) ((core s1)\<lparr>c_code := c\<rparr>)" using R_code [of "core s1"] by simp
  with s1 show "keeps R s (Some (Next (s1\<lparr>code := c, accu := v, pc := pc s1 + 1\<rparr>)))" by (simp add: keeps_Some)
qed

lemma keeps_scalar_instructions:
  "keeps R s (Instruct_CONSTn n hk s)" "keeps R s (Instruct_PUSHCONSTn n hk s)" "keeps R s (Instruct_CONSTINT hk s)"
  "keeps R s (Instruct_PUSHCONSTINT hk s)" "keeps R s (Instruct_NEGINT hk s)" "keeps R s (Instruct_OFFSETINT hk s)"
  "keeps R s (Instruct_ISINT hk s)" "keeps R s (Instruct_GETMETHOD hk s)" "keeps R s (Instruct_GETDYNMET hk s)"
  unfolding Instruct_CONSTn_def Instruct_PUSHCONSTn_def Instruct_CONSTINT_def Instruct_PUSHCONSTINT_def
    Instruct_NEGINT_def Instruct_OFFSETINT_def Instruct_ISINT_def Instruct_GETMETHOD_def Instruct_GETDYNMET_def
  by (intro keeps_intros keeps_end; auto dest!: core_dests)+

lemmas int_op_defs = Instruct_ADDINT_def Instruct_SUBINT_def Instruct_MULINT_def Instruct_DIVINT_def
  Instruct_MODINT_def Instruct_ANDINT_def Instruct_ORINT_def Instruct_XORINT_def Instruct_LSLINT_def
  Instruct_LSRINT_def Instruct_ASRINT_def Integer_comparison_def Instruct_EQ_def Instruct_NEQ_def
  Instruct_LTINT_def Instruct_LEINT_def Instruct_GTINT_def Instruct_GEINT_def Instruct_ULTINT_def
  Instruct_UGEINT_def Instruct_BEQ_def Instruct_BNEQ_def Instruct_BLTINT_def Instruct_BLEINT_def
  Instruct_BGTINT_def Instruct_BGEINT_def Instruct_BULTINT_def Instruct_BUGEINT_def

lemmas keeps_arith_instructions = keeps_int_op keeps_divide_op keeps_Integer_equality
  keeps_Integer_branch_comparison keeps_GETPUBMET keeps_scalar_instructions

subsection \<open>The switch, the loop and runs\<close>

lemma keeps_switch_table:
  "\<forall>e \<in> set switch_table. case snd e of Handler f \<Rightarrow> \<forall>s. keeps R s (f hk s) | Restart f \<Rightarrow> f \<in> {Instruct_EVENT, Instruct_BREAK}"
  unfolding switch_table_def int_op_defs
  by (simp add: keeps_stack_instructions keeps_apply_instructions keeps_heap_instructions
      keeps_control_instructions keeps_arith_instructions)

lemma restart_core: "f \<in> {Instruct_EVENT, Instruct_BREAK} \<Longrightarrow> f s = Some s' \<Longrightarrow> core s' = core s"
  by (auto simp: Instruct_EVENT_def Instruct_BREAK_def Let_def bind_Some_iff split: if_splits dest!: frames_core(7,8))

lemma keeps_dispatch_instr: "keeps R s (dispatch_instr hk op s)"
proof -
  have "keeps R s (Some q)" if "dispatch_instr hk' op s = Some q" "hk' = hk" for hk' op s q
    using that
  proof (induction hk' op s q rule: dispatch_instr.raw_induct [rotated, consumes 1])
    case (1 dispatch_instr hk' op s q)
    show ?case
    proof (cases "0 \<le> sint op \<and> nat (sint op) < length switch_table")
      case False
      with 1(2) show ?thesis by (auto simp: keeps_Some)
    next
      case True
      let ?e = "switch_table ! nat (sint op)"
      have e: "?e \<in> set switch_table" using True by simp
      show ?thesis
      proof (cases "snd ?e")
        case (Handler f)
        with keeps_switch_table e have "keeps R s (f hk s)" by fastforce
        with 1(2,3) True Handler show ?thesis by simp
      next
        case (Restart f)
        with keeps_switch_table e have f: "f \<in> {Instruct_EVENT, Instruct_BREAK}" by fastforce
        from 1(2,3) True Restart obtain s1 op' where s1: "f s = Some s1" "dispatch_instr hk op' s1 = Some q"
          by (auto simp: bind_Some_iff)
        from 1(1) [OF s1(2) refl] restart_core [OF f s1(1)] show ?thesis by (simp add: keeps_def)
      qed
    qed
  qed
  then show ?thesis by (cases "dispatch_instr hk op s") auto
qed

lemma stepE:
  assumes "step hk s = Some r" "outcome_state r = Some s'"
  obtains op p res where "int_nth (code s) (pc s) = Some op" "profile_count (prof s) op = Some (Done p)"
    "dispatch_instr hk op (s\<lparr>prof := p, pc := pc s + 1\<rparr>) = Some res" "settle hk res = Some r"
proof -
  from assms obtain op counted where op: "int_nth (code s) (pc s) = Some op" "profile_count (prof s) op = Some counted"
    and rest: "(case counted of Done p \<Rightarrow> Option.bind (dispatch_instr hk op (s\<lparr>prof := p, pc := pc s + 1\<rparr>)) (settle hk)
      | _ \<Rightarrow> Some (Fatal ''assertion failure'')) = Some r"
    unfolding step_def by (auto simp only: bind_Some_iff split: if_splits) auto
  show thesis
  proof (cases counted)
    case (Done p)
    with rest op that show ?thesis by (auto simp: bind_Some_iff)
  qed (use rest assms(2) in auto)
qed

lemma step_frame:
  assumes "step hk s = Some r" "outcome_state r = Some s'"
  shows "leaves_clean r \<and> (\<exists>p op. int_nth (code s) (pc s) = Some op \<and> profile_count (prof s) op = Some (Done p) \<and>
    R ((core s)\<lparr>c_prof := p\<rparr>) (core s'))"
proof -
  from assms obtain op p res where *: "int_nth (code s) (pc s) = Some op" "profile_count (prof s) op = Some (Done p)"
    "dispatch_instr hk op (s\<lparr>prof := p, pc := pc s + 1\<rparr>) = Some res" "settle hk res = Some r"
    by (rule stepE)
  let ?s = "s\<lparr>prof := p, pc := pc s + 1\<rparr>"
  have "keeps R ?s (Some res)" using keeps_dispatch_instr [of ?s op] *(3) by simp
  then have "keeps R ?s (settle hk res)" by (rule keeps_settle)
  with *(4) assms(2) have "leaves_clean r" "R (core ?s) (core s')" by (auto simp: keeps_def)
  with * show ?thesis by auto
qed

end

end
