(* ===== verification/Machine_Props.thy ===== *)
theory Machine_Props
  imports Machine_Instrs Sample_State
begin

text \<open>
  Invariants of whole runs of the interpreter, from two interpretations of \<open>vm_frame\<close>: memory only
  grows, and the profile counts the instructions that were executed.
\<close>

section \<open>Runs\<close>

inductive steps :: "hooks \<Rightarrow> nat \<Rightarrow> vm \<Rightarrow> vm \<Rightarrow> bool" for hk where
  start: "steps hk 0 s s"
| more: "step hk s = Some (Next s1) \<Longrightarrow> steps hk n s1 s2 \<Longrightarrow> steps hk (Suc n) s s2"

inductive_cases steps_SucE: "steps hk (Suc n) s s'"
inductive_cases steps_0E: "steps hk 0 s s'"

text \<open>The runs of the relation are those of the bounded loop.\<close>

lemma steps_exec_n: "steps hk n s s' \<longleftrightarrow> exec_n n hk s = Some (Next s')"
proof (induction n arbitrary: s)
  case 0
  then show ?case by (auto intro: steps.start elim: steps_0E)
next
  case (Suc n)
  show ?case
  proof
    assume "steps hk (Suc n) s s'"
    then show "exec_n (Suc n) hk s = Some (Next s')" using Suc by (auto elim!: steps_SucE)
  next
    assume run: "exec_n (Suc n) hk s = Some (Next s')"
    then obtain r where r: "step hk s = Some r" "(case r of Next t \<Rightarrow> exec_n n hk t | other \<Rightarrow> Some other) = Some (Next s')"
      by (auto simp: bind_Some_iff)
    then obtain t where "r = Next t" "exec_n n hk t = Some (Next s')" by (cases r) auto
    with r(1) Suc show "steps hk (Suc n) s s'" by (auto intro: steps.more)
  qed
qed

section \<open>Memory only grows\<close>

definition heap_le :: "heap \<Rightarrow> heap \<Rightarrow> bool" where
  "heap_le h h' \<longleftrightarrow> length h \<le> length h' \<and> (\<forall>b < length h. block_tag (h' ! b) = block_tag (h ! b) \<and>
     length (block_fields (h' ! b)) = length (block_fields (h ! b)))"

text \<open>C code that allocates and stores but never drops or reshapes a block, a stack or the code.\<close>

definition tame :: "hooks \<Rightarrow> bool" where
  "tame hk \<longleftrightarrow> (\<forall>r r'. hook_step hk r r' \<longrightarrow> heap_le (heap r) (heap r') \<and> length (code r') = length (code r) \<and>
     length (stacks r) \<le> length (stacks r'))"

definition memory_le :: "vm_core \<Rightarrow> vm_core \<Rightarrow> bool" where
  "memory_le c d \<longleftrightarrow> heap_le (c_heap c) (c_heap d) \<and> length (c_code d) = length (c_code c) \<and>
     c_nstacks c \<le> c_nstacks d"

lemma heap_le_modify: "caml_modify h v i x = Some h' \<Longrightarrow> heap_le h h'"
  by (auto simp: caml_modify_def heap_le_def bind_Some_iff int_upd_def nth_list_update split: mlvalue.splits if_splits)

lemma heap_le_refl: "heap_le h h"
  by (simp add: heap_le_def)

lemma heap_le_append: "heap_le h (h @ [b])"
  by (simp add: heap_le_def nth_append)

lemma heap_le_trans: "heap_le h h1 \<Longrightarrow> heap_le h1 h2 \<Longrightarrow> heap_le h h2"
  by (auto simp: heap_le_def)

interpretation memory: vm_frame hk "\<lambda>c d. tame hk \<longrightarrow> memory_le c d" for hk
proof
  fix c d e assume "tame hk \<longrightarrow> memory_le c d" "tame hk \<longrightarrow> memory_le d e"
  then show "tame hk \<longrightarrow> memory_le c e" by (auto simp: memory_le_def intro: heap_le_trans)
next
  fix s r assume "hook_step hk (rt s) r"
  then show "tame hk \<longrightarrow> memory_le (core s) (core (put_rt s r))"
    unfolding core_put_rt by (fastforce simp: tame_def memory_le_def)
qed (auto simp: memory_le_def heap_le_refl heap_le_append int_upd_def split: if_splits intro: heap_le_modify)

section \<open>The profile counts instructions\<close>

definition counts_kept :: "vm_core \<Rightarrow> vm_core \<Rightarrow> bool" where
  "counts_kept c d \<longleftrightarrow> op_counts (c_prof d) = op_counts (c_prof c) \<and>
     total_op_count (c_prof d) = total_op_count (c_prof c) \<and> c_activation d = c_activation c"

lemma c_outcome_case_Done:
  "(case r of Done x \<Rightarrow> f x | Exit_failure \<Rightarrow> Some Exit_failure | Assert_failure \<Rightarrow> Some Assert_failure) = Some (Done y) \<longleftrightarrow>
   (\<exists>x. r = Done x \<and> f x = Some (Done y))"
  by (cases r) auto

lemma profile_call_counts:
  "profile_call m p a = Some (Done q) \<Longrightarrow> op_counts q = op_counts p \<and> total_op_count q = total_op_count p"
  unfolding profile_call_def array_alloc_op_counts_def
  by (auto simp: bind_Some_iff c_outcome_case_Done split: if_splits)

lemma profile_return_counts:
  "profile_return p = Some q \<Longrightarrow> op_counts q = op_counts p \<and> total_op_count q = total_op_count p"
  by (auto simp: profile_return_def bind_Some_iff)

interpretation counted: vm_frame hk counts_kept for hk
proof
  fix s r show "counts_kept (core s) (core (put_rt s r))"
    unfolding core_put_rt by (simp add: counts_kept_def)
qed (auto simp: counts_kept_def dest: profile_call_counts profile_return_counts)

lemma sum_list_bump: "bump xs i = Some ys \<Longrightarrow> sum_list ys = sum_list xs + 1 \<and> length ys = length xs"
proof -
  have "i < length xs \<Longrightarrow> sum_list (xs[i := xs ! i + 1]) = sum_list xs + (1 :: u64)" for i
    by (induction xs arbitrary: i) (auto simp: nth_Cons split: nat.splits)
  then show "bump xs i = Some ys \<Longrightarrow> sum_list ys = sum_list xs + 1 \<and> length ys = length xs"
    by (auto simp: bump_def bind_Some_iff)
qed

lemma profile_count_counts:
  assumes "profile_count p op = Some (Done q)" "sint op < int FIRST_UNIMPLEMENTED_OP"
  shows "total_op_count q = total_op_count p + 1 \<and> sum_list (op_counts q) = sum_list (op_counts p) + 1"
proof -
  obtain c where c: "bump (op_counts p) (nat (sint op)) = Some c"
    and rest: "(let p' = p\<lparr>op_counts := c, total_op_count := total_op_count p + 1\<rparr> in
      if \<not> isEmpty (local_func_stack p') then ht_curr_inc_opcount p' (nat (sint op)) else Some (Done p')) = Some (Done q)"
    using assms by (auto simp: profile_count_def bind_Some_iff)
  have "op_counts q = c \<and> total_op_count q = total_op_count p + 1"
    using rest by (auto simp: Let_def ht_curr_inc_opcount_def bind_Some_iff split: if_splits)
  with sum_list_bump [OF c] show ?thesis by simp
qed

lemma length_switch_table: "length switch_table = FIRST_UNIMPLEMENTED_OP"
  by (simp add: switch_table_def FIRST_UNIMPLEMENTED_OP_def)

text \<open>An instruction that ends in a state has one of the 153 opcodes, and was counted.\<close>

lemma step_counts:
  assumes "step hk s = Some r" "outcome_state r = Some s'"
  shows "total_op_count (prof s') = total_op_count (prof s) + 1 \<and>
    sum_list (op_counts (prof s')) = sum_list (op_counts (prof s)) + 1 \<and>
    c_activation (core s') = c_activation (core s)"
proof -
  from assms obtain op p res where *: "int_nth (code s) (pc s) = Some op" "profile_count (prof s) op = Some (Done p)"
    "dispatch_instr hk op (s\<lparr>prof := p, pc := pc s + 1\<rparr>) = Some res" "settle hk res = Some r"
    by (rule counted.stepE)
  have "sint op < int FIRST_UNIMPLEMENTED_OP"
  proof (rule ccontr)
    assume "\<not> ?thesis"
    then have "\<not> nat (sint op) < length switch_table" unfolding length_switch_table by linarith
    then have "res = Fatal ''bad opcode''" using *(3) by (subst (asm) dispatch_instr.simps) simp
    with *(4) assms(2) show False by (subst (asm) settle.simps) auto
  qed
  from profile_count_counts [OF *(2) this] counted.step_frame [OF assms] *(1,2) show ?thesis
    by (auto simp: counts_kept_def)
qed

lemma steps_counts:
  "steps hk n s s' \<Longrightarrow> total_op_count (prof s') = total_op_count (prof s) + of_nat n \<and>
    sum_list (op_counts (prof s')) = sum_list (op_counts (prof s)) + of_nat n \<and>
    c_activation (core s') = c_activation (core s)"
proof (induction rule: steps.induct)
  case (more s s1 n s2)
  with step_counts [OF more(1)] show ?case by simp
qed simp

section \<open>Properties of runs\<close>

text \<open>The lists of blocks and stacks of the model only get longer along a run, blocks keep their tag and their
  number of fields and the code its length, provided the C primitives, the signal handlers and the pending
  actions do the same. A stack that is freed stays in the list, with \<open>stk_live\<close> false: identities are not
  used again, and nothing is said here of the lifetime of stacks.\<close>

lemma memory_grows:
  assumes "steps hk n s s'" "tame hk"
  shows "heap_le (heap s) (heap s') \<and> length (code s') = length (code s) \<and> length (stacks s) \<le> length (stacks s')"
  using assms(1)
proof (induction rule: steps.induct)
  case (start s)
  then show ?case by (simp add: heap_le_refl)
next
  case (more s s1 n s2)
  from memory.step_frame [OF more(1)] assms(2)
  have "heap_le (heap s) (heap s1) \<and> length (code s1) = length (code s) \<and> length (stacks s) \<le> length (stacks s1)"
    by (auto simp: memory_le_def)
  with more(3) show ?case by (auto intro: heap_le_trans)
qed

text \<open>C9: the profile counts what is executed: after \<open>n\<close> instructions the total has grown by \<open>n\<close> and so has the
  sum of the counters per opcode, both modulo \<open>2 ^ 64\<close>, whatever was called, raised or resumed.\<close>

theorem profile_counts_instructions:
  assumes "exec_n n hk s = Some (Next s')"
  shows "total_op_count (prof s') = total_op_count (prof s) + of_nat n \<and>
    sum_list (op_counts (prof s')) = sum_list (op_counts (prof s)) + of_nat n"
  using steps_counts assms by (simp add: steps_exec_n)

text \<open>C6: when the interpreter leaves, by STOP or by an uncaught exception, the exception context and the trap
  offset its caller had are back. STOP reports the number of instructions executed, itself included,
  and saves the stack; an uncaught exception cuts the stack to its height at the entry.\<close>

theorem interpreter_leaves_clean:
  assumes "interp_enter ctx (profile_init fs t) prog r = Some s0" "exec_n n hk s0 = Some (Next s)"
    and "step hk s = Some res" "res = Finished v rep s' \<or> res = Uncaught v s'"
  shows "external_raise s' = external_raise r \<and> trap_sp_off s' = trap_sp_off r \<and>
    (res = Finished v rep s' \<longrightarrow> fst rep = of_nat (Suc n) \<and>
       map_option stk_sp (get_stack s' (current_stack s')) = Some (sp s')) \<and>
    (res = Uncaught v s' \<longrightarrow> map_option (length \<circ> stk_sp) (get_stack s' (current_stack s')) =
       map_option (length \<circ> stk_sp) (get_stack r (current_stack r)))"
proof -
  have st: "outcome_state res = Some s'" using assms(4) by auto
  obtain st where st0: "get_stack r (current_stack r) = Some st"
    and s0: "s0 = runtime.extend (r\<lparr>external_raise := Some ctx, trap_sp_off := 1\<rparr>)
      (vm.fields prog (stk_sp st) (Val_int 0) (Atom 0) 0 (external_raise r) (length (stk_sp st)) (trap_sp_off r) ctx
        (profile_init fs t))"
    using assms(1) by (auto simp: interp_enter_def bind_Some_iff)
  have act: "c_activation (core s0) = (external_raise r, length (stk_sp st), trap_sp_off r, ctx)"
    and zero: "total_op_count (prof s0) = 0"
    unfolding s0 core_def profile_init_def by (simp_all add: runtime.defs vm.defs)
  from assms(2) have "steps hk n s0 s" by (simp add: steps_exec_n)
  from steps_counts [OF this] step_counts [OF assms(3) st] act zero
  have "c_activation (core s') = (external_raise r, length (stk_sp st), trap_sp_off r, ctx)"
    and "total_op_count (prof s') = of_nat (Suc n)" by simp_all
  moreover have "leaves_clean res" using memory.step_frame [OF assms(3) st] by blast
  ultimately show ?thesis using assms(4) st0 by (auto simp: core_def)
qed

section \<open>A run\<close>

text \<open>\<open>CONST1; MAKEBLOCK1 0; STOP\<close>: allocates \<open>ref 1\<close>.\<close>

definition sample_code :: "u32 list" where
  "sample_code = [100, 63, 0, 143]"

definition blank_profile :: profile where
  "blank_profile = profile_init sample_func_stack \<lparr>entries = [], capacity = 0, ht_len = 0\<rparr>"

definition run_vm :: vm where
  "run_vm = runtime.extend (sample_rt\<lparr>code := sample_code, external_raise := Some 7, trap_sp_off := 1\<rparr>)
     (vm.fields 0 [] (Val_int 0) (Atom 0) 0 (Some 0) 0 1 7 blank_profile)"

definition counted_profile :: "nat list \<Rightarrow> profile" where
  "counted_profile ops = blank_profile\<lparr>op_counts := fold (\<lambda>i xs. xs[i := xs ! i + 1]) ops (op_counts blank_profile),
     total_op_count := of_nat (length ops)\<rparr>"

lemma run_vm_fields:
  "heap run_vm = []" "stacks run_vm = [main_stack]" "current_stack run_vm = 0" "code run_vm = sample_code"
  "pc run_vm = 0" "sp run_vm = []" "accu run_vm = Val_int 0" "prof run_vm = blank_profile"
  "initial_external_raise run_vm = Some 0" "initial_trap_sp_off run_vm = 1"
  by (simp_all add: run_vm_def sample_rt_def runtime.defs vm.defs)

lemma blank_not_counting [simp]: "isEmpty (local_func_stack (counted_profile ops))"
  by (simp add: counted_profile_def blank_profile_def profile_init_def sample_func_stack_def isEmpty_def)

lemma profile_count_counted:
  assumes "0 \<le> sint op" "sint op < 153"
  shows "profile_count (counted_profile ops) op = Some (Done (counted_profile (ops @ [nat (sint op)])))"
proof -
  have len: "length (fold (\<lambda>i xs. xs[i := xs ! i + 1]) is (xs :: u64 list)) = length xs" for "is" xs
    by (induction "is" arbitrary: xs) simp_all
  have "isEmpty (local_func_stack blank_profile)"
    by (simp add: blank_profile_def profile_init_def sample_func_stack_def isEmpty_def)
  moreover have "length (op_counts blank_profile) = 153"
    by (simp add: blank_profile_def profile_init_def FIRST_UNIMPLEMENTED_OP_def)
  ultimately show ?thesis using assms
    by (simp add: profile_count_def FIRST_UNIMPLEMENTED_OP_def counted_profile_def bump_ok len Let_def)
qed

lemma dispatch_handler:
  "0 \<le> sint op \<Longrightarrow> nat (sint op) < length switch_table \<Longrightarrow> snd (switch_table ! nat (sint op)) = Handler f \<Longrightarrow>
   dispatch_instr hk op s = f hk s"
  by (simp add: dispatch_instr.simps)

lemma step_handler:
  assumes "get_stack s (current_stack s) = Some st" "length (sp s) \<le> stk_wosize st"
    "int_nth (code s) (pc s) = Some op" "prof s = counted_profile ops" "0 \<le> sint op" "sint op < 153"
    "snd (switch_table ! nat (sint op)) = Handler f"
    "f hk (s\<lparr>prof := counted_profile (ops @ [nat (sint op)]), pc := pc s + 1\<rparr>) = Some res"
    "\<forall>t. res \<noteq> Check_stacks t"
  shows "step hk s = Some res"
proof -
  have op: "nat (sint op) < length switch_table" using assms(5,6) length_switch_table
    by (simp add: FIRST_UNIMPLEMENTED_OP_def)
  have "settle hk res = Some res" using assms(9) by (subst settle.simps) (cases res, auto)
  then show ?thesis
    unfolding step_def using assms(1,2,8) profile_count_counted [OF assms(5,6)] dispatch_handler [OF assms(5) op assms(7)]
    by (simp add: assms(3,4))
qed

definition run_state :: "nat \<Rightarrow> vm" where
  "run_state n = [run_vm,
     run_vm\<lparr>prof := counted_profile [100], pc := 1, accu := Val_int 1\<rparr>,
     run_vm\<lparr>prof := counted_profile [100, 63], pc := 3, accu := Ptr 0 0,
       heap := [\<lparr>block_tag = 0, block_fields = [Val_int 1]\<rparr>]\<rparr>] ! n"

lemma run_first: "step quiet_hooks run_vm = Some (Next (run_state 1))"
  by (rule step_handler [where st = main_stack and op = 100 and ops = "[]" and f = "Instruct_CONSTn 1"])
    (simp_all add: run_vm_fields get_stack_def main_stack_def sample_code_def int_nth_def counted_profile_def
      blank_profile_def profile_init_def run_state_def switch_table_def Instruct_CONSTn_def)

lemma run_second: "step quiet_hooks (run_state 1) = Some (Next (run_state 2))"
  by (rule step_handler [where st = main_stack and op = 63 and ops = "[100]" and f = Instruct_MAKEBLOCK1])
    (simp_all add: run_vm_fields get_stack_def main_stack_def sample_code_def int_nth_def run_state_def
      switch_table_def Instruct_MAKEBLOCK1_def operand_def pc_at_def Alloc_small_quiet quiet_hooks_def
      Max_young_wosize_def init_fields_all)

lemma run_two: "exec_n 2 quiet_hooks run_vm = Some (Next (run_state 2))"
proof -
  have "exec_n (Suc (Suc 0)) quiet_hooks run_vm = Some (Next (run_state 2))"
    using run_second by (simp add: run_first)
  then show ?thesis by (simp only: numeral_2_eq_2)
qed

definition run_report :: report where
  "run_report = (3, [], 0, [Meta ''Stack occupancy'' 0, Meta ''Stack cur size bytes'' 0,
     Meta ''Stack max items'' 4, Meta ''Stack top idx'' 0])"

definition run_end :: vm where
  "run_end = (run_state 2)\<lparr>prof := counted_profile [100, 63, 143], pc := 4, external_raise := Some 0, trap_sp_off := 1,
     stacks := [main_stack]\<rparr>"

lemma run_stop: "step quiet_hooks (run_state 2) = Some (Finished (Ptr 0 0) run_report run_end)"
  by (rule step_handler [where st = main_stack and op = 143 and ops = "[100, 63]" and f = Instruct_STOP])
    (simp_all add: run_vm_fields get_stack_def main_stack_def sample_code_def int_nth_def run_state_def
      switch_table_def Instruct_STOP_def stop_report_def counted_profile_def blank_profile_def profile_init_def
      dump_func_stack_def dump_func_stack_meta_def sample_func_stack_def ht_length_def save_sp_def put_stack_def
      run_report_def run_end_def take_opt_def)

lemma tame_quiet: "tame quiet_hooks"
  by (auto simp: tame_def quiet_hooks_def heap_le_refl elim!: hook_step.cases)

theorem profile_counts_instructions_witness:
  "total_op_count (prof (run_state 2)) = 2 \<and> sum_list (op_counts (prof (run_state 2))) = 2"
  using profile_counts_instructions [OF run_two]
  by (simp add: run_vm_fields blank_profile_def profile_init_def sum_list_replicate)

lemma run_enter:
  "interp_enter 7 (profile_init sample_func_stack \<lparr>entries = [], capacity = 0, ht_len = 0\<rparr>) 0
     (sample_rt\<lparr>code := sample_code\<rparr>) = Some run_vm"
  by (simp add: interp_enter_def run_vm_def get_stack_def main_stack_def sample_rt_def blank_profile_def)

theorem interpreter_leaves_clean_witness:
  "external_raise run_end = Some 0 \<and> trap_sp_off run_end = 1 \<and> fst run_report = 3"
  using interpreter_leaves_clean [OF run_enter run_two run_stop, of "Ptr 0 0" run_report run_end]
  by (simp add: sample_rt_def)

section \<open>The unbounded loop\<close>

text \<open>How the loop and the bounded runs are related: the loop returns exactly when some number of instructions leads to one that leaves it, and
  then with the outcome of that instruction; a loop with no such instruction never returns.\<close>

lemma exec_returns_iff:
  "exec hk s = Some r \<longleftrightarrow> (\<exists>n s'. exec_n n hk s = Some (Next s') \<and> step hk s' = Some r \<and> (\<nexists>t. r = Next t))"
  (is "_ \<longleftrightarrow> ?bounded s r")
proof
  have "?bounded s r" if "exec hk' s = Some r" "hk' = hk" for hk' s r
    using that
  proof (induction hk' s r rule: exec.raw_induct [rotated, consumes 1])
    case (1 exec hk' s r)
    then obtain u where u: "step hk s = Some u" "(case u of Next s' \<Rightarrow> exec hk s' | other \<Rightarrow> Some other) = Some r"
      by (auto simp: bind_Some_iff)
    show ?case
    proof (cases "\<exists>t. u = Next t")
      case True
      then obtain t where t: "u = Next t" "exec hk t = Some r" using u(2) by auto
      from 1(1) [OF t(2) refl] obtain n s' where "exec_n n hk t = Some (Next s') \<and> step hk s' = Some r \<and> (\<nexists>t. r = Next t)"
        by blast
      with u(1) t(1) show ?thesis by (intro exI [of _ "Suc n"] exI [of _ s']) simp
    next
      case False
      with u have "r = u" by (cases u) auto
      with u False show ?thesis by (intro exI [of _ 0] exI [of _ s]) simp
    qed
  qed
  from this [OF _ refl] show "exec hk s = Some r \<Longrightarrow> ?bounded s r" .
next
  assume "?bounded s r"
  then obtain n s' where n: "steps hk n s s'" and fin: "step hk s' = Some r" "\<nexists>t. r = Next t"
    by (auto simp: steps_exec_n)
  from n fin show "exec hk s = Some r"
  proof (induction rule: steps.induct)
    case (start s)
    then show ?case by (subst exec.simps) (cases r, auto)
  next
    case (more s s1 n s2)
    then show ?case by (subst exec.simps) simp
  qed
qed

end
