(* ===== verification/Machine_Types.thy ===== *)
theory Machine_Types
  imports Machine_Props
begin

text \<open>
  The typing invariant of the machine: every pointer in the registers, on the stacks, in the fibers' handlers, in
  the globals and in the heap goes to a block or a stack that was allocated. Every instruction keeps it, whatever
  the bytecode, if the code called through C does. The invariant does not speak of lifetimes (a stack that
  was freed counts as allocated) nor of the offset of a pointer inside its block; accesses through such a
  pointer are undefined in the instructions themselves.
\<close>

section \<open>The invariant\<close>

definition val_ok :: "'a runtime_scheme \<Rightarrow> mlvalue \<Rightarrow> bool" where
  "val_ok r v = (case v of Ptr b i \<Rightarrow> b < length (heap r) | Stk k \<Rightarrow> k < length (stacks r) | _ \<Rightarrow> True)"

definition stack_ok :: "'a runtime_scheme \<Rightarrow> stack_info \<Rightarrow> bool" where
  "stack_ok r st \<longleftrightarrow> (\<forall>v \<in> set (stk_sp st). val_ok r v) \<and> val_ok r (handle_value st) \<and> val_ok r (handle_exn st) \<and>
     val_ok r (handle_effect st) \<and> (\<forall>p. stk_parent st = Some p \<longrightarrow> p < length (stacks r))"

definition rt_typed :: "'a runtime_scheme \<Rightarrow> bool" where
  "rt_typed r \<longleftrightarrow> (\<forall>b \<in> set (heap r). \<forall>v \<in> set (block_fields b). val_ok r v) \<and>
     (\<forall>st \<in> set (stacks r). stack_ok r st) \<and> current_stack r < length (stacks r) \<and>
     val_ok r (caml_global_data r) \<and> val_ok r (raise_unhandled r)"

definition typed :: "vm \<Rightarrow> bool" where
  "typed s \<longleftrightarrow> rt_typed s \<and> (\<forall>v \<in> set (sp s). val_ok s v) \<and> val_ok s (accu s) \<and> val_ok s (env s)"

fun outcome_typed :: "outcome \<Rightarrow> bool" where
  "outcome_typed (Next s) = typed s"
| "outcome_typed (Check_stacks s) = typed s"
| "outcome_typed (Finished v rep s) = (typed s \<and> val_ok s v)"
| "outcome_typed (Uncaught v s) = (typed s \<and> val_ok s v)"
| "outcome_typed (Fatal msg) = True"

definition ok :: "outcome option \<Rightarrow> bool" where
  "ok m \<longleftrightarrow> (\<forall>r. m = Some r \<longrightarrow> outcome_typed r)"

text \<open>What is asked of C code: it drops nothing, and makes no pointer to a block or stack that was never allocated.\<close>

fun result_typed :: "runtime c_result \<Rightarrow> bool" where
  "result_typed (Returned v r) = (rt_typed r \<and> val_ok r v)"
| "result_typed (Raised v r) = (rt_typed r \<and> val_ok r v)"
| "result_typed (Aborted msg) = True"

definition typed_hooks :: "hooks \<Rightarrow> bool" where
  "typed_hooks hk \<longleftrightarrow> tame hk \<and> (\<forall>r. rt_typed r \<longrightarrow>
     (\<forall>n args res. primitive hk n args r = Some res \<and> (\<forall>a \<in> set args. val_ok r a) \<longrightarrow> result_typed res) \<and>
     (\<forall>res. process_pending_actions hk r = Some res \<longrightarrow> result_typed res) \<and>
     (\<forall>v v' r'. signals_before_raise hk v r = Some (v', r') \<and> val_ok r v \<longrightarrow> rt_typed r' \<and> val_ok r' v'))"

section \<open>Values\<close>

lemma val_ok_simps [simp]:
  "val_ok r (Word w)" "val_ok r (Atom t)" "val_ok r (Code c)" "val_ok r (Val_int n)" "val_ok r (Val_bool t2)" "val_ok r Val_unit"
  "val_ok r (Ptr b i) \<longleftrightarrow> b < length (heap r)" "val_ok r (Stk k) \<longleftrightarrow> k < length (stacks r)"
  by (simp_all add: val_ok_def Val_int_def Val_bool_def Val_unit_def)

lemma val_ok_cong: "length (heap r') = length (heap r) \<Longrightarrow> length (stacks r') = length (stacks r) \<Longrightarrow> val_ok r' v = val_ok r v"
  by (auto simp: val_ok_def split: mlvalue.splits)

lemma val_ok_mono: "val_ok r v \<Longrightarrow> length (heap r) \<le> length (heap r') \<Longrightarrow> length (stacks r) \<le> length (stacks r') \<Longrightarrow> val_ok r' v"
  by (auto simp: val_ok_def split: mlvalue.splits)

lemma val_ok_upd [simp]:
  "val_ok (s\<lparr>pc := a\<rparr>) v = val_ok s v" "val_ok (s\<lparr>sp := b\<rparr>) v = val_ok s v" "val_ok (s\<lparr>accu := c\<rparr>) v = val_ok s v"
  "val_ok (s\<lparr>env := c\<rparr>) v = val_ok s v" "val_ok (s\<lparr>extra_args := d\<rparr>) v = val_ok s v" "val_ok (s\<lparr>prof := p\<rparr>) v = val_ok s v"
  "val_ok (r\<lparr>trap_sp_off := a\<rparr>) v = val_ok r v" "val_ok (r\<lparr>current_stack := n\<rparr>) v = val_ok r v"
  "val_ok (r\<lparr>external_raise := e\<rparr>) v = val_ok r v" "val_ok (r\<lparr>stack_cache := f\<rparr>) v = val_ok r v"
  "val_ok (r\<lparr>caml_event_count := d\<rparr>) v = val_ok r v" "val_ok (r\<lparr>code := g\<rparr>) v = val_ok r v"
  "val_ok (push c s) v = val_ok s v" "val_ok (put_stack r k st) v = val_ok r v" "val_ok (rt s) v = val_ok s v"
  "val_ok (put_rt s q) v = val_ok q v"
  by (simp_all add: val_ok_def push_def put_stack_def split: mlvalue.splits)

lemma stack_ok_upd [simp]:
  "stack_ok (s\<lparr>pc := a\<rparr>) st = stack_ok s st" "stack_ok (s\<lparr>sp := b\<rparr>) st = stack_ok s st"
  "stack_ok (s\<lparr>accu := c\<rparr>) st = stack_ok s st" "stack_ok (s\<lparr>env := c\<rparr>) st = stack_ok s st"
  "stack_ok (s\<lparr>extra_args := d\<rparr>) st = stack_ok s st" "stack_ok (s\<lparr>prof := p\<rparr>) st = stack_ok s st"
  "stack_ok (r\<lparr>trap_sp_off := a\<rparr>) st = stack_ok r st" "stack_ok (r\<lparr>current_stack := n\<rparr>) st = stack_ok r st"
  "stack_ok (r\<lparr>external_raise := e\<rparr>) st = stack_ok r st" "stack_ok (r\<lparr>stack_cache := f\<rparr>) st = stack_ok r st"
  "stack_ok (r\<lparr>caml_event_count := d\<rparr>) st = stack_ok r st" "stack_ok (r\<lparr>code := g\<rparr>) st = stack_ok r st"
  "stack_ok (push c s) st = stack_ok s st" "stack_ok (put_stack r k st') st = stack_ok r st" "stack_ok (rt s) st = stack_ok s st"
  "stack_ok (put_rt s q) st = stack_ok q st"
  by (simp_all add: stack_ok_def) (simp_all add: push_def put_stack_def)

lemma rt_typed_upd [simp]:
  "rt_typed (s\<lparr>pc := a\<rparr>) = rt_typed s" "rt_typed (s\<lparr>sp := b\<rparr>) = rt_typed s" "rt_typed (s\<lparr>accu := c\<rparr>) = rt_typed s"
  "rt_typed (s\<lparr>env := c\<rparr>) = rt_typed s" "rt_typed (s\<lparr>extra_args := d\<rparr>) = rt_typed s" "rt_typed (s\<lparr>prof := p\<rparr>) = rt_typed s"
  "rt_typed (r\<lparr>trap_sp_off := a\<rparr>) = rt_typed r" "rt_typed (r\<lparr>external_raise := e\<rparr>) = rt_typed r"
  "rt_typed (r\<lparr>stack_cache := f\<rparr>) = rt_typed r" "rt_typed (r\<lparr>caml_event_count := d\<rparr>) = rt_typed r"
  "rt_typed (r\<lparr>code := g\<rparr>) = rt_typed r" "rt_typed (push c s) = rt_typed s"
  by (simp_all add: rt_typed_def) (simp_all add: push_def)

lemma raise_unhandled_rt [simp]: "raise_unhandled (rt s) = raise_unhandled s" "raise_unhandled (put_rt s r) = raise_unhandled r"
  by (cases s, simp add: rt_def put_rt_def runtime.defs)+

lemma rt_typed_rt [simp]: "rt_typed (rt s) = rt_typed s" "rt_typed (put_rt s r) = rt_typed r"
  by (simp_all add: rt_typed_def)

lemma rt_typed_current: "rt_typed r \<Longrightarrow> k < length (stacks r) \<Longrightarrow> rt_typed (r\<lparr>current_stack := k\<rparr>)"
  by (simp add: rt_typed_def)

lemma rt_typed_put_stack: "rt_typed r \<Longrightarrow> stack_ok r st \<Longrightarrow> rt_typed (put_stack r k st)"
  by (auto simp: rt_typed_def) (auto simp: put_stack_def dest!: set_update_subset_insert [THEN subsetD])

text \<open>Stores and loads.\<close>

lemma Field_ok: "Field (heap r) v i = Some x \<Longrightarrow> rt_typed r \<Longrightarrow> val_ok r x"
  by (auto simp: Field_def rt_typed_def bind_Some_iff split: mlvalue.splits) (meson nth_mem)

lemma rt_typed_heap:
  assumes "rt_typed r" "length (heap r) \<le> length h" "\<forall>b \<in> set h. \<forall>v \<in> set (block_fields b). val_ok (r\<lparr>heap := h\<rparr>) v"
  shows "rt_typed (r\<lparr>heap := h\<rparr>)"
proof -
  have "val_ok r v \<Longrightarrow> val_ok (r\<lparr>heap := h\<rparr>) v" for v using assms(2) val_ok_mono [of r v "r\<lparr>heap := h\<rparr>"] by simp
  then show ?thesis using assms(1,3) by (auto simp: rt_typed_def stack_ok_def)
qed

lemma caml_modify_length: "caml_modify h v i x = Some h' \<Longrightarrow> length h' = length h"
  by (auto simp: caml_modify_def bind_Some_iff split: mlvalue.splits)

lemma rt_typed_modify:
  assumes "caml_modify (heap r) v i x = Some h" "rt_typed r" "val_ok r x"
  shows "rt_typed (r\<lparr>heap := h\<rparr>)"
proof (rule rt_typed_heap [OF assms(2)])
  have len: "length h = length (heap r)" by (rule caml_modify_length [OF assms(1)])
  then show "length (heap r) \<le> length h" by simp
  have "val_ok (r\<lparr>heap := h\<rparr>) u = val_ok r u" for u using len by (intro val_ok_cong) simp_all
  moreover have "\<forall>b \<in> set h. \<forall>u \<in> set (block_fields b). val_ok r u"
    using assms by (auto simp: caml_modify_def bind_Some_iff rt_typed_def int_upd_def upd_opt_def
        split: mlvalue.splits if_splits dest!: set_update_subset_insert [THEN subsetD]) (meson nth_mem)
  ultimately show "\<forall>b \<in> set h. \<forall>u \<in> set (block_fields b). val_ok (r\<lparr>heap := h\<rparr>) u" by simp
qed

lemma init_fields_length: "init_fields h v i xs = Some h' \<Longrightarrow> length h' = length h"
  by (induction xs arbitrary: h i) (auto simp: init_fields.simps bind_Some_iff dest: caml_modify_length)

lemma val_ok_heap: "length h = length (heap r) \<Longrightarrow> val_ok (r\<lparr>heap := h\<rparr>) v = val_ok r v"
  by (rule val_ok_cong) simp_all

lemma rt_typed_init_fields:
  "init_fields (heap r) v i xs = Some h \<Longrightarrow> rt_typed r \<Longrightarrow> \<forall>x \<in> set xs. val_ok r x \<Longrightarrow> rt_typed (r\<lparr>heap := h\<rparr>)"
proof (induction xs arbitrary: r i)
  case (Cons x xs)
  then obtain g where g: "caml_modify (heap r) v i x = Some g" "init_fields g v (i + 1) xs = Some h"
    by (auto simp: init_fields.simps bind_Some_iff)
  have "rt_typed (r\<lparr>heap := g\<rparr>\<lparr>heap := h\<rparr>)"
    by (rule Cons.IH) (use g Cons rt_typed_modify caml_modify_length [OF g(1)] in \<open>auto simp: val_ok_heap\<close>)
  then show ?case by simp
qed (auto simp: init_fields.simps)

lemma rt_typed_alloc:
  assumes "rt_typed r"
  shows "rt_typed (r\<lparr>heap := heap r @ [fresh_block w t fill]\<rparr>)"
proof (rule rt_typed_heap [OF assms])
  have "val_ok r v \<Longrightarrow> val_ok (r\<lparr>heap := heap r @ [fresh_block w t fill]\<rparr>) v" for v by (erule val_ok_mono) simp_all
  then show "\<forall>b \<in> set (heap r @ [fresh_block w t fill]). \<forall>v \<in> set (block_fields b).
      val_ok (r\<lparr>heap := heap r @ [fresh_block w t fill]\<rparr>) v"
    using assms by (auto simp: rt_typed_def fresh_block_def)
qed simp

lemma typed_alloc: "typed s \<Longrightarrow> typed (s\<lparr>heap := heap s @ [fresh_block w t fill]\<rparr>)"
  unfolding typed_def by (auto simp: rt_typed_alloc intro: val_ok_mono)

section \<open>Sequencing\<close>

lemma ok_simps [simp]: "ok None" "ok (Some r) = outcome_typed r"
  by (simp_all add: ok_def)

lemma ok_bind: "(\<And>x. m = Some x \<Longrightarrow> ok (f x)) \<Longrightarrow> ok (Option.bind m f)"
  by (cases m) simp_all

lemma ok_case_prod: "(\<And>a b. x = (a, b) \<Longrightarrow> ok (f a b)) \<Longrightarrow> ok (case x of (a, b) \<Rightarrow> f a b)"
  by (cases x) simp

lemma ok_if: "(b \<Longrightarrow> ok m) \<Longrightarrow> (\<not> b \<Longrightarrow> ok m') \<Longrightarrow> ok (if b then m else m')"
  by simp

lemma ok_case_option:
  "(x = None \<Longrightarrow> ok m) \<Longrightarrow> (\<And>a. x = Some a \<Longrightarrow> ok (f a)) \<Longrightarrow> ok (case x of None \<Rightarrow> m | Some a \<Rightarrow> f a)"
  by (cases x) simp_all

lemmas ok_intros = ok_bind ok_case_prod ok_if ok_case_option

lemma get_stack_ok: "get_stack r k = Some st \<Longrightarrow> rt_typed r \<Longrightarrow> stack_ok r st \<and> k < length (stacks r)"
  by (auto simp: get_stack_def rt_typed_def bind_Some_iff)

text \<open>How the accesses change the state.\<close>

lemma sp_add_upd: "sp_add n s = Some s' \<Longrightarrow> \<exists>vs. s' = s\<lparr>sp := vs\<rparr> \<and> set vs \<subseteq> set (sp s)"
  by (auto simp: sp_add_def bind_Some_iff dest: in_set_dropD)

lemma pop_upd: "pop s = Some (v, s') \<Longrightarrow> \<exists>vs. s' = s\<lparr>sp := vs\<rparr> \<and> set (sp s) = insert v (set vs)"
  by (auto simp: pop_def split: list.splits)

lemma operand_upd: "operand s = Some (n, s') \<Longrightarrow> s' = s\<lparr>pc := pc s + 1\<rparr>"
  by (auto simp: operand_def bind_Some_iff)

lemma sp_at_mem: "sp_at s i = Some v \<Longrightarrow> v \<in> set (sp s)"
  by (auto simp: sp_at_def)

lemma take_opt_subset: "take_opt n xs = Some ys \<Longrightarrow> set ys \<subseteq> set xs"
  by (auto dest: in_set_takeD)

lemma int_upd_subset: "int_upd xs i v = Some ys \<Longrightarrow> set ys \<subseteq> insert v (set xs)"
  by (auto dest!: set_update_subset_insert [THEN subsetD])

lemma save_sp_typed: "save_sp s = Some s' \<Longrightarrow> typed s \<Longrightarrow> typed s'"
  by (auto simp: save_sp_def typed_def bind_Some_iff dest!: get_stack_ok intro!: rt_typed_put_stack)
    (simp add: stack_ok_def)

lemma load_sp_typed: "load_sp s = Some s' \<Longrightarrow> rt_typed s \<Longrightarrow> val_ok s (accu s) \<Longrightarrow> val_ok s (env s) \<Longrightarrow> typed s'"
  by (auto simp: load_sp_def typed_def bind_Some_iff stack_ok_def dest!: get_stack_ok)

lemma ptr_add_ok: "ptr_add v n = Some u \<Longrightarrow> val_ok r v \<Longrightarrow> val_ok r u"
  by (cases v) auto

lemma fields_from_ok: "fields_from (heap r) v i n = Some vs \<Longrightarrow> rt_typed r \<Longrightarrow> x \<in> set vs \<Longrightarrow> val_ok r x"
  by (induction n arbitrary: i vs) (auto simp: bind_Some_iff dest: Field_ok)

lemma slide_subset: "slide n d vs = Some ws \<Longrightarrow> set ws \<subseteq> set vs"
proof (induction n d vs rule: slide.induct)
  case (2 i d vs)
  then obtain v us where v: "nth_opt vs i = Some v" "int_upd vs (int i + d) v = Some us" "slide i d us = Some ws"
    by (auto simp only: slide.simps bind_Some_iff)
  then show ?case using 2(1) [OF v] int_upd_subset [OF v(2)] by (auto simp: nth_opt_Some_iff)
qed simp

lemmas upd_dests = sp_add_upd pop_upd operand_upd sp_at_mem take_opt_subset int_upd_subset slide_subset

lemma typed_upd [simp]:
  "typed (s\<lparr>pc := a\<rparr>) = typed s" "typed (s\<lparr>extra_args := d\<rparr>) = typed s" "typed (s\<lparr>prof := p\<rparr>) = typed s"
  "typed (s\<lparr>trap_sp_off := a\<rparr>) = typed s" "typed (s\<lparr>external_raise := e\<rparr>) = typed s"
  "typed (s\<lparr>caml_event_count := d\<rparr>) = typed s" "typed (s\<lparr>code := g\<rparr>) = typed s" "typed (s\<lparr>stack_cache := f\<rparr>) = typed s"
  by (simp_all add: typed_def)

section \<open>Registers, stack and environment\<close>

lemma ok_stack_instructions:
  assumes "typed s"
  shows "ok (Instruct_ACCn n hk s)" "ok (Instruct_PUSH hk s)" "ok (Instruct_PUSHACCn n hk s)"
    "ok (Instruct_ACC hk s)" "ok (Instruct_PUSHACC hk s)" "ok (Instruct_POP hk s)" "ok (Instruct_ASSIGN hk s)"
    "ok (Instruct_ENVACCn n hk s)" "ok (Instruct_PUSHENVACCn n hk s)" "ok (Instruct_ENVACC hk s)"
    "ok (Instruct_PUSHENVACC hk s)" "ok (Instruct_PUSH_RETADDR hk s)" "ok (Instruct_APPTERM hk s)"
    "ok (Instruct_APPTERM1 hk s)" "ok (Instruct_APPTERM2 hk s)" "ok (Instruct_APPTERM3 hk s)" "ok (Instruct_RESTART hk s)"
    "ok (Instruct_OFFSETCLOSUREn k hk s)" "ok (Instruct_OFFSETCLOSURE hk s)" "ok (Instruct_OFFSETCLOSURE0 hk s)"
    "ok (Instruct_PUSHOFFSETCLOSURE hk s)" "ok (Instruct_PUSHOFFSETCLOSUREn k hk s)" "ok (Instruct_PUSHOFFSETCLOSURE0 hk s)"
  using assms unfolding quiet_defs Let_def typed_def
  by (((intro ok_intros)?; fastforce simp: typed_def push_def dest!: upd_dests dest: Field_ok ptr_add_ok fields_from_ok)+)

section \<open>The shared labels\<close>

lemma caml_free_stack_typed:
  assumes "caml_free_stack k s = Some s'" "rt_typed s"
  shows "rt_typed s' \<and> length (heap s') = length (heap s) \<and> length (stacks s') = length (stacks s)"
proof -
  from assms(1) obtain st where st: "get_stack s k = Some st"
    and s': "s' = put_stack s k (st\<lparr>stk_live := False\<rparr>) \<or> (\<exists>c. s' = put_stack s k (st\<lparr>stk_live := False\<rparr>)\<lparr>stack_cache := c\<rparr>)"
    by (auto simp: caml_free_stack_def bind_Some_iff Let_def split: option.splits)
  have "stack_ok s (st\<lparr>stk_live := False\<rparr>)" using get_stack_ok [OF st assms(2)] by (simp add: stack_ok_def)
  then show ?thesis using s' rt_typed_put_stack [OF assms(2)] by auto
qed

lemma free_stack_regs: "caml_free_stack k s = Some s' \<Longrightarrow> sp s' = sp s \<and> accu s' = accu s \<and> env s' = env s"
  by (auto simp: caml_free_stack_def bind_Some_iff Let_def split: option.splits)

lemma typed_free_stack: "caml_free_stack k s = Some s' \<Longrightarrow> typed s \<Longrightarrow> typed s' \<and> (\<forall>v. val_ok s' v = val_ok s v)"
  using caml_free_stack_typed [of k s s'] free_stack_regs [of k s s'] val_ok_cong [of s' s] by (auto simp: typed_def)

lemma typed_current: "typed s \<Longrightarrow> k < length (stacks s) \<Longrightarrow> typed (s\<lparr>current_stack := k\<rparr>)"
  by (simp add: typed_def rt_typed_current)

lemma load_sp_upd: "load_sp s = Some s' \<Longrightarrow> \<exists>vs. s' = s\<lparr>sp := vs\<rparr>"
  by (auto simp: load_sp_def bind_Some_iff)

lemma typed_load_sp: "load_sp s = Some s' \<Longrightarrow> typed s \<Longrightarrow> typed s' \<and> (\<forall>v. val_ok s' v = val_ok s v)"
  using load_sp_typed [of s s'] load_sp_upd [of s s'] by (auto simp: typed_def)

lemma ok_enter_parent:
  assumes "typed s" "val_ok s hdl" "parent < length (stacks s)"
  shows "ok (enter_parent hdl parent s)"
  unfolding enter_parent_def Let_def
proof (intro ok_bind)
  fix s1 s2 t x s3 c
  assume *: "load_sp (s\<lparr>current_stack := parent\<rparr>) = Some s1" "caml_free_stack (current_stack s) s1 = Some s2"
    "sp_add 2 (s2\<lparr>trap_sp_off := t, extra_args := Long_val x\<rparr>) = Some s3"
  have "typed s1" "val_ok s1 hdl" using typed_load_sp [OF *(1) typed_current] assms by auto
  then have "typed s2" "val_ok s2 hdl" using typed_free_stack [OF *(2)] by auto
  then show "ok (Some (Check_stacks (push (accu s3) s3\<lparr>accu := hdl, pc := c, env := hdl\<rparr>)))"
    using sp_add_upd [OF *(3)] by (auto simp: typed_def push_def)
qed

lemma ok_raise_notrace:
  assumes "typed s"
  shows "ok (raise_notrace s)"
  unfolding raise_notrace_def Let_def
proof (intro ok_intros)
  fix st assume st: "get_stack s (current_stack s) = Some st"
  then have sto: "stack_ok s st" using get_stack_ok assms by (auto simp: typed_def)
  then show "ok (enter_parent (handle_exn st) p s)" if "stk_parent st = Some p" for p
    using that assms by (intro ok_enter_parent) (auto simp: stack_ok_def)
  have "stack_ok s (st\<lparr>stk_sp := drop n (sp s)\<rparr>)" for n
    using sto assms by (auto simp: stack_ok_def typed_def dest: in_set_dropD)
  then show "ok (Some (Uncaught (accu s) (put_stack s (current_stack s)
      (st\<lparr>stk_sp := drop (length (sp s) - initial_stack_words s) (sp s)\<rparr>)
      \<lparr>external_raise := initial_external_raise s, trap_sp_off := initial_trap_sp_off s\<rparr>)))"
    using assms by (auto simp: typed_def rt_typed_put_stack)
qed (use assms in \<open>fastforce simp: typed_def dest!: upd_dests\<close>)

lemma ok_raise_exception: "typed s \<Longrightarrow> ok (raise_exception s)"
  unfolding raise_exception_def by (intro ok_raise_notrace) (auto simp: typed_def push_def)

lemma ok_longjmp: "typed s \<Longrightarrow> val_ok s e \<Longrightarrow> ok (longjmp e s)"
  unfolding longjmp_def by (intro ok_bind ok_raise_notrace) (auto simp: typed_def dest!: typed_load_sp)

lemma ok_do_return: "typed s \<Longrightarrow> ok (do_return s)"
  unfolding do_return_def
  by (cases "sp s") (fastforce intro!: ok_intros ok_enter_parent simp: typed_def stack_ok_def dest!: get_stack_ok upd_dests)+

lemma ok_do_resume:
  assumes "typed s" "val_ok s f" "val_ok s a"
  shows "ok (do_resume f a s)"
  unfolding do_resume_def Let_def
proof (intro ok_intros)
  fix exn assume "Field (heap s) (caml_global_data s) CONTINUATION_ALREADY_TAKEN_EXN = Some exn"
  then show "ok (raise_exception (s\<lparr>accu := exn\<rparr>))"
    using assms Field_ok [of s] by (intro ok_raise_exception) (auto simp: typed_def)
next
  fix stk k b stb s1 s2 t s3 c
  assume *: "Ptr_val (accu s) = Some stk" "stk = Some k" "get_stack s b = Some stb"
    "save_sp (put_stack s b (stb\<lparr>stk_parent := Some (current_stack s)\<rparr>)) = Some s1"
    "load_sp (s1\<lparr>current_stack := k\<rparr>) = Some s2" "sp_add 1 (s2\<lparr>trap_sp_off := t\<rparr>) = Some s3"
  have k: "k < length (stacks s)" using assms(1) *(1,2) by (cases "accu s") (auto simp: typed_def split: if_splits)
  have "stack_ok s (stb\<lparr>stk_parent := Some (current_stack s)\<rparr>)"
  proof -
    have "rt_typed s" using assms(1) by (simp add: typed_def)
    moreover from this have "current_stack s < length (stacks s)" by (simp add: rt_typed_def)
    ultimately show ?thesis using get_stack_ok [OF *(3)] by (simp add: stack_ok_def)
  qed
  then have 1: "typed (put_stack s b (stb\<lparr>stk_parent := Some (current_stack s)\<rparr>))"
    using assms(1) by (auto simp: typed_def rt_typed_put_stack)
  have v: "val_ok s1 v = val_ok s v" "length (stacks s1) = length (stacks s)" for v
    using *(4) by (auto simp: save_sp_def bind_Some_iff)
  have "typed (s1\<lparr>current_stack := k\<rparr>)" using save_sp_typed [OF *(4) 1] v(2) k by (intro typed_current) simp_all
  from typed_load_sp [OF *(5) this] have "typed s2" "val_ok s2 f" "val_ok s2 a" using assms v by simp_all
  then show "ok (Some (Check_stacks (push a s3\<lparr>accu := f, pc := c, env := f, extra_args := 0\<rparr>)))"
    using sp_add_upd [OF *(6)] by (auto simp: typed_def push_def)
qed

section \<open>C code\<close>

definition grows :: "'a runtime_scheme \<Rightarrow> 'b runtime_scheme \<Rightarrow> bool" where
  "grows r r' \<longleftrightarrow> length (heap r) \<le> length (heap r') \<and> length (stacks r) \<le> length (stacks r')"

definition c_ok :: "vm \<Rightarrow> runtime c_result option \<Rightarrow> bool" where
  "c_ok s m \<longleftrightarrow> (\<forall>res. m = Some res \<longrightarrow> result_typed res \<and> (\<forall>r. result_rt res = Some r \<longrightarrow> grows s r))"

lemma grows_trans: "grows r r1 \<Longrightarrow> grows r1 r2 \<Longrightarrow> grows r r2"
  by (auto simp: grows_def)

lemma grows_ok: "grows r r' \<Longrightarrow> val_ok r v \<Longrightarrow> val_ok r' v"
  by (auto simp: grows_def intro: val_ok_mono)

lemma typed_put_rt: "typed s \<Longrightarrow> rt_typed r \<Longrightarrow> grows s r \<Longrightarrow> typed (put_rt s r)"
  by (auto simp: typed_def intro: grows_ok)

lemma ok_c_call:
  assumes "typed s" "c_ok s m" "\<And>v r. grows s r \<Longrightarrow> typed (put_rt s r) \<Longrightarrow> val_ok r v \<Longrightarrow> ok (k v (put_rt s r))"
  shows "ok (c_call m s k)"
  unfolding c_call_def
proof (intro ok_bind)
  fix res assume "m = Some res"
  then show "ok (case res of Returned v r \<Rightarrow> k v (put_rt s r) | Raised e r \<Rightarrow> longjmp e (put_rt s r)
      | Aborted msg \<Rightarrow> Some (Fatal msg))"
    using assms typed_put_rt [OF assms(1)] by (cases res) (auto simp: c_ok_def intro!: ok_longjmp)
qed

lemma hook_grows: "typed_hooks hk \<Longrightarrow> hook_step hk (rt s) r \<Longrightarrow> grows s r"
  unfolding typed_hooks_def tame_def heap_le_def by (fastforce simp: grows_def)

lemma hook_typed:
  assumes "typed_hooks hk" "rt_typed r"
  shows "primitive hk n args r = Some res \<Longrightarrow> \<forall>a \<in> set args. val_ok r a \<Longrightarrow> result_typed res"
    "process_pending_actions hk r = Some res \<Longrightarrow> result_typed res"
    "signals_before_raise hk v r = Some (v', r') \<Longrightarrow> val_ok r v \<Longrightarrow> rt_typed r' \<and> val_ok r' v'"
  using assms unfolding typed_hooks_def by blast+

lemma pending_ok: "typed_hooks hk \<Longrightarrow> typed s \<Longrightarrow> c_ok s (process_pending_actions hk (rt s))"
  using hook_typed(2) [of hk "rt s"] by (auto simp: c_ok_def typed_def intro: hook_grows hook_step.pending)

lemma primitive_ok:
  "typed_hooks hk \<Longrightarrow> typed s \<Longrightarrow> \<forall>a \<in> set args. val_ok s a \<Longrightarrow> c_ok s (primitive hk n args (rt s))"
  using hook_typed(1) [of hk "rt s"] by (auto simp: c_ok_def typed_def intro: hook_grows hook_step.prim)

lemma raise_ok:
  assumes "typed_hooks hk" "rt_typed s" "val_ok s v"
  shows "c_ok s (caml_raise hk v (rt s))"
proof -
  have "rt_typed r \<and> val_ok r u \<and> grows s r" if "signals_before_raise hk v (rt s) = Some (u, r)" for u r
    using hook_typed(3) [OF assms(1), of "rt s"] hook_grows [OF assms(1) hook_step.signals] that assms by auto
  then show ?thesis by (auto simp: caml_raise_def c_ok_def bind_Some_iff split: if_splits)
qed

lemma raise_predefined_ok:
  assumes "typed_hooks hk" "rt_typed s"
  shows "c_ok s (raise_predefined name n hk (rt s))"
proof (cases "check_global_data (rt s)")
  case True
  show ?thesis
  proof (cases "Field (heap s) (caml_global_data s) n")
    case (Some e)
    then show ?thesis using raise_ok [OF assms Field_ok [OF Some assms(2)]] True
      by (simp add: raise_predefined_def caml_raise_constant_def)
  qed (use True in \<open>simp add: raise_predefined_def c_ok_def\<close>)
qed (simp add: raise_predefined_def c_ok_def)

lemma frames_typed:
  assumes "typed s"
  shows "Setup_for_gc s = Some s' \<Longrightarrow> typed s'" "Restore_after_gc s = Some s' \<Longrightarrow> typed s'"
    "Setup_for_c_call s = Some s' \<Longrightarrow> typed s'" "Restore_after_c_call s = Some s' \<Longrightarrow> typed s'"
    "Setup_for_event s = Some s' \<Longrightarrow> typed s'" "Restore_after_event s = Some s' \<Longrightarrow> typed s'"
    "Setup_for_debugger s = Some s' \<Longrightarrow> typed s'" "Restore_after_debugger s = Some s' \<Longrightarrow> typed s'"
proof -
  show "Setup_for_gc s = Some s' \<Longrightarrow> typed s'" "Setup_for_c_call s = Some s' \<Longrightarrow> typed s'"
    "Setup_for_event s = Some s' \<Longrightarrow> typed s'" "Setup_for_debugger s = Some s' \<Longrightarrow> typed s'"
    unfolding Setup_for_gc_def Setup_for_c_call_def Setup_for_event_def Setup_for_debugger_def
    by (erule save_sp_typed; use assms in \<open>simp add: typed_def\<close>)+
  show "Restore_after_gc s = Some s' \<Longrightarrow> typed s'" "Restore_after_c_call s = Some s' \<Longrightarrow> typed s'"
    "Restore_after_event s = Some s' \<Longrightarrow> typed s'" "Restore_after_debugger s = Some s' \<Longrightarrow> typed s'"
    using assms unfolding Restore_after_gc_def Restore_after_c_call_def Restore_after_event_def Restore_after_debugger_def
    by (fastforce simp: bind_Some_iff typed_def dest!: typed_load_sp upd_dests)+
qed

lemma ok_process_signal:
  assumes "typed_hooks hk" "typed s"
  shows "ok (process_signal hk s)"
  unfolding process_signal_def
proof (intro ok_bind ok_c_call pending_ok assms)
  fix s1 v r s3 assume "Setup_for_event s = Some s1"
  then show "typed s1" "typed s1" by (rule frames_typed(5) [OF assms(2)])+
  show "ok (Some (Next s3))" if "typed (put_rt s1 r)" "Restore_after_event (put_rt s1 r) = Some s3"
    using frames_typed(6) [OF that] by simp
qed

lemma ok_CHECK_SIGNALS: "typed_hooks hk \<Longrightarrow> typed s \<Longrightarrow> ok (Instruct_CHECK_SIGNALS hk s)"
  by (simp add: Instruct_CHECK_SIGNALS_def ok_process_signal)

section \<open>Growing the stack\<close>

lemma rt_typed_stacks:
  assumes "rt_typed r" "stack_ok r st"
  shows "rt_typed (r\<lparr>stacks := stacks r @ [st]\<rparr>)"
proof -
  let ?r = "r\<lparr>stacks := stacks r @ [st]\<rparr>"
  have v: "val_ok r v \<Longrightarrow> val_ok ?r v" for v by (erule val_ok_mono) simp_all
  then have "stack_ok r st' \<Longrightarrow> stack_ok ?r st'" for st' by (fastforce simp: stack_ok_def)
  with v assms show ?thesis by (auto simp: rt_typed_def)
qed

lemma alloc_stack_typed:
  assumes "alloc_stack_noexc hk w a b c r = Some (k, r')" "rt_typed r" "val_ok r a" "val_ok r b" "val_ok r c"
  shows "rt_typed r' \<and> grows r r' \<and> current_stack r' = current_stack r \<and> (\<forall>j. k = Some j \<longrightarrow> j < length (stacks r'))"
proof -
  have st: "stack_ok r (init_stack a b c st)" for st using assms by (simp add: stack_ok_def init_stack_def)
  show ?thesis
    using assms(1,2) rt_typed_stacks [OF assms(2) st] rt_typed_put_stack [OF assms(2) st]
    unfolding alloc_stack_noexc_def alloc_size_class_stack_noexc_def
    by (auto simp: bind_Some_iff grows_def split: option.splits list.splits)
qed

lemma stack_ok_grows: "grows r r' \<Longrightarrow> stack_ok r st \<Longrightarrow> stack_ok r' st"
  by (auto simp: stack_ok_def intro: grows_ok) (auto simp: grows_def)

lemma realloc_cases:
  assumes "caml_try_realloc_stack hk n r = Some (b, r')"
  obtains (full) "r' = r"
  | (none) old w where "get_stack r (current_stack r) = Some old"
      "alloc_stack_noexc hk w (handle_value old) (handle_exn old) (handle_effect old) r = Some (None, r')"
  | (new) old w j r1 st r2 where "get_stack r (current_stack r) = Some old"
      "alloc_stack_noexc hk w (handle_value old) (handle_exn old) (handle_effect old) r = Some (Some j, r1)"
      "get_stack r1 j = Some st"
      "caml_free_stack (current_stack r) (put_stack r1 j (st\<lparr>stk_sp := stk_sp old, stk_parent := stk_parent old\<rparr>)) = Some r2"
      "r' = r2\<lparr>current_stack := j\<rparr>"
  using assms unfolding caml_try_realloc_stack_def by (auto simp: bind_Some_iff split: option.splits)

lemma realloc_typed:
  assumes "caml_try_realloc_stack hk n r = Some (b, r')" "rt_typed r"
  shows "rt_typed r' \<and> grows r r'"
  using assms(1)
proof (cases rule: realloc_cases)
  case (new old w j r1 st r2)
  have ook: "stack_ok r old" using get_stack_ok [OF new(1) assms(2)] ..
  have 1: "rt_typed r1" "grows r r1" "j < length (stacks r1)"
    using alloc_stack_typed [OF new(2) assms(2)] ook by (auto simp: stack_ok_def)
  have "stack_ok r1 (st\<lparr>stk_sp := stk_sp old, stk_parent := stk_parent old\<rparr>)"
    using get_stack_ok [OF new(3) 1(1)] stack_ok_grows [OF 1(2) ook] by (simp add: stack_ok_def)
  from caml_free_stack_typed [OF new(4) rt_typed_put_stack [OF 1(1) this]]
  have "rt_typed r2" "length (heap r2) = length (heap r1)" "length (stacks r2) = length (stacks r1)" by simp_all
  then show ?thesis using 1 new(5) by (auto simp: grows_def intro: rt_typed_current)
next
  case (none old w)
  with alloc_stack_typed [OF none(2) assms(2)] get_stack_ok [OF none(1) assms(2)] show ?thesis by (auto simp: stack_ok_def)
qed (use assms(2) in \<open>simp add: grows_def\<close>)

lemma ok_check_stacks:
  assumes hk: "typed_hooks hk" and "typed s"
  shows "ok (check_stacks hk s)"
  unfolding check_stacks_def Let_def
proof (intro ok_intros ok_CHECK_SIGNALS hk assms(2) ok_c_call)
  fix s1 x b r s3
  assume s1: "save_sp s = Some s1" and x: "caml_try_realloc_stack hk (of_nat Stack_threshold_words) (rt s1) = Some x" "x = (b, r)"
  have "typed s1" by (rule save_sp_typed [OF s1 assms(2)])
  moreover have "rt_typed r" "grows s1 r"
    using realloc_typed [of hk _ "rt s1" b r] x \<open>typed s1\<close> by (auto simp: typed_def grows_def)
  ultimately have t: "typed (put_rt s1 r)" by (rule typed_put_rt)
  show "typed s3" if "load_sp (put_rt s1 r) = Some s3" using typed_load_sp [OF that t] by simp
  assume s3: "Setup_for_c_call (put_rt s1 r) = Some s3"
  show "typed s3" by (rule frames_typed(3) [OF t s3])
  then show "c_ok s3 (caml_raise_stack_overflow hk (rt s3))"
    unfolding caml_raise_stack_overflow_def by (intro raise_predefined_ok hk) (simp add: typed_def)
  show "typed s5" if "typed (put_rt s3 q)" "load_sp (put_rt s3 q) = Some s5" for q s5 using typed_load_sp that by blast
qed

lemma ok_settle:
  assumes hk: "typed_hooks hk" and r: "outcome_typed r"
  shows "ok (settle hk r)"
proof -
  have "outcome_typed q" if "settle hk' r = Some q" "hk' = hk" "outcome_typed r" for hk' r q
    using that
  proof (induction hk' r q rule: settle.raw_induct [rotated, consumes 1])
    case (1 settle hk' r q)
    show ?case
    proof (cases "\<exists>t. r = Check_stacks t")
      case True
      then obtain t u where t: "r = Check_stacks t" "check_stacks hk t = Some u" "settle hk u = Some q"
        using 1(2,3) by (auto simp: bind_Some_iff)
      then have "outcome_typed u" using ok_check_stacks [OF hk, of t] 1(4) by simp
      with 1(1) [OF t(3)] show ?thesis by blast
    next
      case False
      with 1(2,4) show ?thesis by (cases r) auto
    qed
  qed
  with r show ?thesis by (cases "settle hk r") auto
qed

section \<open>Allocation\<close>

lemma ok_gc_poll:
  assumes hk: "typed_hooks hk" and k: "\<And>t. typed t \<Longrightarrow> ok (k t)" and s: "typed s"
  shows "ok (gc_poll hk w k s)"
proof -
  have "outcome_typed q" if "gc_poll hk' w' k' t = Some q" "hk' = hk" "k' = k" "typed t" for hk' w' k' t q
    using that
  proof (induction hk' w' k' t q rule: gc_poll.raw_induct [rotated, consumes 1])
    case (1 gc_poll hk' w' k' t q)
    show ?case
    proof (cases "gc_interrupt hk w' (rt t)")
      case False
      with 1 k [of t] show ?thesis by auto
    next
      case True
      with 1(2-4) obtain t1 res where t1: "Setup_for_gc t = Some t1"
        and res: "process_pending_actions hk (rt t1) = Some res"
        and rest: "(case res of Returned _ r \<Rightarrow> Option.bind (Restore_after_gc (put_rt t1 r)) (gc_poll hk w' k)
          | Raised e r \<Rightarrow> longjmp e (put_rt t1 r) | Aborted msg \<Rightarrow> Some (Fatal msg)) = Some q"
        by (auto simp: bind_Some_iff)
      have ty: "typed t1" by (rule frames_typed(1) [OF 1(5) t1])
      note p = pending_ok [OF hk ty, unfolded c_ok_def, rule_format, OF res]
      show ?thesis
      proof (cases res)
        case (Returned v r)
        with p have "typed (put_rt t1 r)" by (auto intro: typed_put_rt [OF ty])
        with rest Returned obtain t2 where t2: "Restore_after_gc (put_rt t1 r) = Some t2" "gc_poll hk w' k t2 = Some q" "typed t2"
          by (auto simp: bind_Some_iff dest: frames_typed(2))
        with 1(1) [OF t2(2)] show ?thesis by simp
      next
        case (Raised e r)
        with p rest ok_longjmp [of "put_rt t1 r" e] show ?thesis by (auto intro: typed_put_rt [OF ty])
      next
        case (Aborted msg)
        with rest show ?thesis by auto
      qed
    qed
  qed
  with s show ?thesis by (cases "gc_poll hk w k s") auto
qed

text \<open>A continuation that is correct with any new block is correct after the allocation.\<close>

definition fills :: "(mlvalue \<Rightarrow> vm \<Rightarrow> outcome option) \<Rightarrow> bool" where
  "fills k \<longleftrightarrow> (\<forall>v t. typed t \<longrightarrow> val_ok t v \<longrightarrow> ok (k v t))"

lemma ok_Alloc_small:
  assumes hk: "typed_hooks hk" and "typed s" "fills k"
  shows "ok (Alloc_small hk w tag s k)"
  unfolding Alloc_small_def using assms
  by (intro ok_if ok_gc_poll) (simp_all add: fills_def typed_alloc)

lemma ok_caml_alloc_shr:
  assumes hk: "typed_hooks hk" and "typed s" "fills k"
  shows "ok (caml_alloc_shr hk w tag s k)"
  unfolding caml_alloc_shr_def
proof (intro ok_if ok_bind ok_c_call)
  show "ok (k (Ptr (length (heap s)) 0) (s\<lparr>heap := heap s @ [fresh_block w (nat tag) Debug_uninit_major]\<rparr>))"
    using assms(3) typed_alloc [OF assms(2)] by (simp add: fills_def)
  fix s1 assume "save_sp s = Some s1"
  then show t: "typed s1" by (rule save_sp_typed [OF _ assms(2)])
  then show "c_ok s1 (caml_raise_out_of_memory hk (rt s1))"
    unfolding caml_raise_out_of_memory_def by (intro raise_predefined_ok hk) (simp add: typed_def)
  show "ok (k v (put_rt s1 r))" if "typed (put_rt s1 r)" "val_ok r v" for v r using that assms(3) by (simp add: fills_def)
qed

end
