(* ===== verification/Type_Safety.thy ===== *)
theory Type_Safety
  imports Machine_Types
begin

text \<open>
  Every instruction keeps the typing invariant, and so does a run of the interpreter.
\<close>

section \<open>Calls and closures\<close>

lemma ok_profile_enter:
  assumes "typed s" "\<And>p. typed (s\<lparr>prof := p\<rparr>) \<Longrightarrow> ok (k (s\<lparr>prof := p\<rparr>))"
  shows "ok (profile_enter hk s k)"
  unfolding profile_enter_def using assms by (intro ok_bind) (auto split: c_outcome.splits)

lemma ok_calls:
  assumes "typed s"
  shows "ok (Instruct_APPLY hk s)" "ok (Instruct_APPLY1 hk s)" "ok (Instruct_APPLY2 hk s)" "ok (Instruct_APPLY3 hk s)"
  using assms unfolding Instruct_APPLY_def Instruct_APPLY1_def Instruct_APPLY2_def Instruct_APPLY3_def Let_def
  by (intro ok_intros ok_profile_enter; fastforce simp: typed_def dest!: upd_dests)+

lemma ok_RETURN: "typed s \<Longrightarrow> ok (Instruct_RETURN hk s)"
  unfolding Instruct_RETURN_def
  by (intro ok_intros ok_do_return) (fastforce simp: typed_def dest!: upd_dests)+

text \<open>Stores before register changes.\<close>

lemma heap_first [simp]:
  "s\<lparr>pc := a, heap := h\<rparr> = s\<lparr>heap := h, pc := a\<rparr>" "s\<lparr>sp := b, heap := h\<rparr> = s\<lparr>heap := h, sp := b\<rparr>"
  "s\<lparr>accu := c, heap := h\<rparr> = s\<lparr>heap := h, accu := c\<rparr>" "s\<lparr>env := c, heap := h\<rparr> = s\<lparr>heap := h, env := c\<rparr>"
  "(push c s)\<lparr>heap := h\<rparr> = push c (s\<lparr>heap := h\<rparr>)"
  by (simp_all add: push_def)

lemma typed_filled:
  assumes "init_fields (heap s) v i xs = Some h" "typed s" "\<forall>x \<in> set xs. val_ok s x"
  shows "typed (s\<lparr>heap := h\<rparr>) \<and> (\<forall>v. val_ok (s\<lparr>heap := h\<rparr>) v = val_ok s v)"
  using rt_typed_init_fields [OF assms(1)] val_ok_heap [OF init_fields_length [OF assms(1)]] assms(2,3)
  by (simp add: typed_def)

lemma fills_finish:
  assumes "init_fields (heap t) v i xs = Some h" "typed t" "\<forall>x \<in> set xs. val_ok t x" "val_ok t v"
    "sp_add n t = Some t'"
  shows "typed (t'\<lparr>heap := h, accu := v\<rparr>)"
  using typed_filled [OF assms(1-3)] sp_add_upd [OF assms(5)] assms(4) by (auto simp: typed_def val_ok_heap)

lemma ok_GRAB: "typed_hooks hk \<Longrightarrow> typed s \<Longrightarrow> ok (Instruct_GRAB hk s)"
  unfolding Instruct_GRAB_def Let_def
proof (intro ok_intros ok_Alloc_small)
  fix x n s1 assume "operand s = Some x" "x = (n, s1)" "typed s"
  then show "typed s1" "ok (Some (Next (s1\<lparr>extra_args := extra_args s1 - word_of_int n\<rparr>)))" by (auto dest!: operand_upd)
  show "fills (\<lambda>a s. do {
         args \<leftarrow> take_opt (unat (1 + extra_args s1)) (sp s);
         h \<leftarrow> init_fields (heap s) a 0 (Code (pc s - 3) # Word (Make_closinfo 0 2) # env s # args);
         s \<leftarrow> sp_add (int (unat (1 + extra_args s1))) (s\<lparr>accu := a, heap := h\<rparr>);
         do_return s })"
    unfolding fills_def
  proof (intro allI impI ok_bind ok_do_return)
    fix v t args h t' assume *: "typed t" "val_ok t v" "take_opt (unat (1 + extra_args s1)) (sp t) = Some args"
      "init_fields (heap t) v 0 (Code (pc t - 3) # Word (Make_closinfo 0 2) # env t # args) = Some h"
      "sp_add (int (unat (1 + extra_args s1))) (t\<lparr>accu := v, heap := h\<rparr>) = Some t'"
    have "\<forall>x \<in> set args. val_ok t x" using take_opt_subset [OF *(3)] *(1) by (auto simp: typed_def)
    then have "typed (t\<lparr>heap := h\<rparr>)" "\<And>u. val_ok (t\<lparr>heap := h\<rparr>) u = val_ok t u"
      using typed_filled [OF *(4,1)] *(1) by (auto simp: typed_def)
    then show "typed t'" using sp_add_upd [OF *(5)] *(2) by (auto simp: typed_def)
  qed
qed

lemma ok_CLOSURE:
  assumes "typed_hooks hk" "typed s"
  shows "ok (Instruct_CLOSURE hk s)"
  unfolding Instruct_CLOSURE_def Let_def
proof (intro ok_intros ok_Alloc_small ok_caml_alloc_shr assms(1))
  fix x n s1 assume "operand s = Some x" "x = (n, s1)"
  then show "typed (if 0 < n then push (accu s1) s1 else s1)" "typed (if 0 < n then push (accu s1) s1 else s1)"
    using assms(2) by (auto simp: typed_def push_def dest!: operand_upd)
  show "fills (\<lambda>a s. do {
       vars \<leftarrow> take_opt (nat n) (sp s);
       ofs \<leftarrow> pc_at s 0;
       h \<leftarrow> init_fields (heap s) a 2 vars;
       h \<leftarrow> init_fields h a 0 [Code (pc s + ofs), Word (Make_closinfo 0 2)];
       s \<leftarrow> sp_add (int (nat n)) (s\<lparr>accu := a, heap := h, pc := pc s + 1\<rparr>);
       Some (Next s) })" (is "fills ?k")
    unfolding fills_def
  proof (intro allI impI ok_bind)
    fix v t vars ofs h h' t' assume *: "typed t" "val_ok t v" "take_opt (nat n) (sp t) = Some vars"
      "init_fields (heap t) v 2 vars = Some h" "init_fields h v 0 [Code (pc t + ofs), Word (Make_closinfo 0 2)] = Some h'"
      "sp_add (int (nat n)) (t\<lparr>accu := v, heap := h', pc := pc t + 1\<rparr>) = Some t'"
    have "\<forall>x \<in> set vars. val_ok t x" using take_opt_subset [OF *(3)] *(1) by (auto simp: typed_def)
    then have h: "typed (t\<lparr>heap := h\<rparr>)" "\<And>u. val_ok (t\<lparr>heap := h\<rparr>) u = val_ok t u" using typed_filled [OF *(4,1)] by auto
    then have "typed (t\<lparr>heap := h'\<rparr>)" "\<And>u. val_ok (t\<lparr>heap := h'\<rparr>) u = val_ok t u"
      using typed_filled [of "t\<lparr>heap := h\<rparr>" v 0 _ h'] *(5) by auto
    then show "ok (Some (Next t'))" using sp_add_upd [OF *(6)] *(2) by (auto simp: typed_def)
  qed
  then show "fills ?k" .
qed

lemma typed_closurerec_fill:
  "closurerec_fill n i e a s = Some s' \<Longrightarrow> typed s \<Longrightarrow> val_ok s a \<Longrightarrow> typed s'"
proof (induction n i e a s rule: closurerec_fill.induct)
  case (2 n i e a s)
  from 2(2) obtain ofs h p where *: "pc_at s (int i) = Some ofs"
    "init_fields (heap s) a (3 * int i - 1)
       [Word (Make_header (i * 3) Infix_tag 0), Code (pc s + ofs), Word (Make_closinfo 0 (e - 3))] = Some h"
    "ptr_add a (3 * int i) = Some p"
    "closurerec_fill n (Suc i) (e - 3) a (push p (s\<lparr>heap := h\<rparr>)) = Some s'"
    by (auto simp: bind_Some_iff)
  have "typed (s\<lparr>heap := h\<rparr>)" "\<And>u. val_ok (s\<lparr>heap := h\<rparr>) u = val_ok s u" using typed_filled [OF *(2) 2(3)] by auto
  then have "typed (push p (s\<lparr>heap := h\<rparr>))" "val_ok (push p (s\<lparr>heap := h\<rparr>)) a"
    using ptr_add_ok [OF *(3) 2(4)] 2(4) by (auto simp: typed_def push_def)
  with 2(1) [OF *] show ?case by blast
qed simp

lemma fills_closurerec_build: "fills (closurerec_build nf nv eo)"
  unfolding fills_def closurerec_build_def
proof (intro allI impI ok_bind)
  fix v t vars h s1 ofs h' s2
  assume *: "typed t" "val_ok t v" "take_opt nv (sp t) = Some vars" "init_fields (heap t) v (int eo) vars = Some h"
    "sp_add (int nv) (t\<lparr>accu := v, heap := h\<rparr>) = Some s1"
    "init_fields (heap s1) v 0 [Code (pc s1 + ofs), Word (Make_closinfo 0 (of_nat eo))] = Some h'"
    "closurerec_fill (nf - 1) 1 (of_nat eo) v (push v (s1\<lparr>heap := h'\<rparr>)) = Some s2"
  have "\<forall>x \<in> set vars. val_ok t x" using take_opt_subset [OF *(3)] *(1) by (auto simp: typed_def)
  then have "typed (t\<lparr>heap := h\<rparr>)" "\<And>u. val_ok (t\<lparr>heap := h\<rparr>) u = val_ok t u" using typed_filled [OF *(4,1)] by auto
  then have s1: "typed s1" "val_ok s1 v" using sp_add_upd [OF *(5)] *(2) by (auto simp: typed_def)
  have "typed (s1\<lparr>heap := h'\<rparr>)" "\<And>u. val_ok (s1\<lparr>heap := h'\<rparr>) u = val_ok s1 u" using typed_filled [OF *(6) s1(1)] by auto
  then have "typed s2" using s1(2) by (intro typed_closurerec_fill [OF *(7)]) (auto simp: typed_def push_def)
  then show "ok (Some (Next (s2\<lparr>pc := pc s2 + int nf\<rparr>)))" by simp
qed

lemma ok_CLOSUREREC:
  assumes "typed_hooks hk" "typed s"
  shows "ok (Instruct_CLOSUREREC hk s)"
  unfolding Instruct_CLOSUREREC_def Let_def
  by (intro ok_intros ok_Alloc_small ok_caml_alloc_shr fills_closurerec_build assms(1))
    (use assms(2) in \<open>auto simp: typed_def push_def dest!: operand_upd\<close>)

section \<open>Heap instructions\<close>

lemma typed_stored:
  assumes "caml_modify (heap s) v i x = Some h" "typed s" "val_ok s x"
  shows "typed (s\<lparr>heap := h\<rparr>) \<and> (\<forall>v. val_ok (s\<lparr>heap := h\<rparr>) v = val_ok s v)"
  using rt_typed_modify [OF assms(1)] val_ok_heap [OF caml_modify_length [OF assms(1)]] assms(2,3)
  by (simp add: typed_def)

lemma Set_byte_stores: "Set_byte h v i c = Some h' \<Longrightarrow> \<exists>w. caml_modify h v (i div 8) (Word w) = Some h'"
  by (auto simp: Set_byte_def bind_Some_iff)

lemma unbox_all_words: "unbox_all h vs = Some ds \<Longrightarrow> d \<in> set ds \<Longrightarrow> val_ok r d"
  by (induction vs arbitrary: ds) (auto simp: bind_Some_iff)

lemma ok_field_reads:
  assumes "typed s"
  shows "ok (Instruct_GETGLOBAL hk s)" "ok (Instruct_PUSHGETGLOBAL hk s)" "ok (Instruct_GETGLOBALFIELD hk s)"
    "ok (Instruct_PUSHGETGLOBALFIELD hk s)" "ok (Instruct_ATOM0 hk s)" "ok (Instruct_PUSHATOM0 hk s)" "ok (Instruct_ATOM hk s)"
    "ok (Instruct_PUSHATOM hk s)" "ok (Instruct_GETFIELDn i hk s)" "ok (Instruct_GETFIELD hk s)"
    "ok (Instruct_VECTLENGTH hk s)" "ok (Instruct_GETVECTITEM hk s)" "ok (Instruct_GETBYTESCHAR hk s)"
  using assms unfolding Instruct_GETGLOBAL_def Instruct_PUSHGETGLOBAL_def Instruct_GETGLOBALFIELD_def
    Instruct_PUSHGETGLOBALFIELD_def Instruct_ATOM0_def Instruct_PUSHATOM0_def Instruct_ATOM_def Instruct_PUSHATOM_def
    Instruct_GETFIELDn_def Instruct_GETFIELD_def Instruct_VECTLENGTH_def Instruct_GETVECTITEM_def
    Instruct_GETBYTESCHAR_def Let_def typed_def
  by (((intro ok_intros)?; fastforce simp: typed_def push_def dest!: upd_dests dest: Field_ok)+)

text \<open>A block filled with values of the state, possibly popping some of them.\<close>

lemma ok_filled:
  assumes "init_fields (heap t) v i xs = Some h" "typed t" "\<forall>x \<in> set xs. val_ok t x" "val_ok t v"
  shows "sp_add n t = Some t' \<Longrightarrow> ok (Some (Next (t'\<lparr>heap := h, accu := v\<rparr>)))" "ok (Some (Next (t\<lparr>heap := h, accu := v\<rparr>)))"
  using fills_finish [OF assms] typed_filled [OF assms(1-3)] assms(2,4) by (simp, simp add: typed_def)

lemma regs_ok: "typed s \<Longrightarrow> val_ok s (accu s)" "typed s \<Longrightarrow> v \<in> set (sp s) \<Longrightarrow> val_ok s v"
  by (simp_all add: typed_def)

lemma fills_blocks:
  "fills (\<lambda>block s. do {
     vs \<leftarrow> take_opt n (sp s);
     h \<leftarrow> init_fields (heap s) block 0 (accu s # vs);
     s \<leftarrow> sp_add m s;
     Some (Next (s\<lparr>heap := h, accu := block\<rparr>)) })"
  "fills (\<lambda>block s. do {
     h \<leftarrow> init_fields (heap s) block 0 [accu s];
     Some (Next (s\<lparr>heap := h, accu := block\<rparr>)) })"
  "fills (\<lambda>block s. do {
     x \<leftarrow> sp_at s 0;
     h \<leftarrow> init_fields (heap s) block 0 [accu s, x];
     s \<leftarrow> sp_add m s;
     Some (Next (s\<lparr>heap := h, accu := block\<rparr>)) })"
  "fills (\<lambda>block s. do {
     x \<leftarrow> sp_at s 0;
     y \<leftarrow> sp_at s 1;
     h \<leftarrow> init_fields (heap s) block 0 [accu s, x, y];
     s \<leftarrow> sp_add m s;
     Some (Next (s\<lparr>heap := h, accu := block\<rparr>)) })"
  "fills (\<lambda>block s. do {
     vs \<leftarrow> take_opt n (sp s);
     ds \<leftarrow> unbox_all (heap s) (accu s # vs);
     h \<leftarrow> init_fields (heap s) block 0 ds;
     s \<leftarrow> sp_add m s;
     Some (Next (s\<lparr>heap := h, accu := block\<rparr>)) })"
  "fills (\<lambda>a s. do {
     h \<leftarrow> init_fields (heap s) a 0 [Word d];
     Some (Next (s\<lparr>heap := h, accu := a\<rparr>)) })"
  unfolding fills_def
  by (intro allI impI ok_bind, (erule ok_filled;
      auto dest!: sp_at_mem intro: regs_ok simp del: unbox_all.simps dest: unbox_all_words in_set_takeD))+

lemma ok_blocks:
  assumes "typed_hooks hk" "typed s"
  shows "ok (Instruct_MAKEBLOCK hk s)" "ok (Instruct_MAKEBLOCK1 hk s)" "ok (Instruct_MAKEBLOCK2 hk s)"
    "ok (Instruct_MAKEBLOCK3 hk s)" "ok (Instruct_MAKEFLOATBLOCK hk s)" "ok (Instruct_GETFLOATFIELD hk s)"
  unfolding Instruct_MAKEBLOCK_def Instruct_MAKEBLOCK1_def Instruct_MAKEBLOCK2_def Instruct_MAKEBLOCK3_def
    Instruct_MAKEFLOATBLOCK_def Instruct_GETFLOATFIELD_def Let_def
  by (intro ok_intros ok_Alloc_small ok_caml_alloc_shr fills_blocks assms(1); use assms(2) in \<open>auto dest!: operand_upd\<close>)+

lemma ok_stores:
  assumes "typed s"
  shows "ok (Instruct_SETGLOBAL hk s)" "ok (Instruct_SETFIELDn i hk s)" "ok (Instruct_SETFIELD hk s)"
    "ok (Instruct_SETFLOATFIELD hk s)" "ok (Instruct_SETVECTITEM hk s)" "ok (Instruct_SETBYTESCHAR hk s)"
    "ok (Instruct_OFFSETREF hk s)"
  using assms unfolding Instruct_SETGLOBAL_def Instruct_SETFIELDn_def Instruct_SETFIELD_def Instruct_SETFLOATFIELD_def
    Instruct_SETVECTITEM_def Instruct_SETBYTESCHAR_def Instruct_OFFSETREF_def Let_def
  by (intro ok_intros; fastforce simp: typed_def dest!: upd_dests Set_byte_stores dest: typed_stored)+

section \<open>Control and effects\<close>

lemma ok_branches:
  assumes "typed s"
  shows "ok (Instruct_BRANCH hk s)" "ok (Instruct_BRANCHIF hk s)" "ok (Instruct_BRANCHIFNOT hk s)" "ok (Instruct_SWITCH hk s)"
    "ok (Instruct_BOOLNOT hk s)" "ok (Instruct_PUSHTRAP hk s)"
  using assms unfolding Instruct_BRANCH_def Instruct_BRANCHIF_def Instruct_BRANCHIFNOT_def take_branch_def Instruct_SWITCH_def
    Instruct_BOOLNOT_def Instruct_PUSHTRAP_def Let_def
  by (intro ok_intros; auto simp: typed_def)+

lemma ok_STOP: "typed s \<Longrightarrow> ok (Instruct_STOP hk s)"
  unfolding Instruct_STOP_def by (intro ok_bind) (auto dest!: save_sp_typed intro: regs_ok)

lemma ok_POPTRAP: "typed_hooks hk \<Longrightarrow> typed s \<Longrightarrow> ok (Instruct_POPTRAP hk s)"
  unfolding Instruct_POPTRAP_def
  by (intro ok_intros ok_process_signal) (fastforce simp: typed_def dest!: upd_dests)+

lemma ok_raises:
  assumes "typed s"
  shows "ok (Instruct_RAISE_NOTRACE hk s)" "ok (Instruct_RERAISE hk s)" "ok (Instruct_RAISE hk s)"
  using assms by (simp_all add: Instruct_RAISE_NOTRACE_def Instruct_RERAISE_def Instruct_RAISE_def ok_raise_notrace ok_raise_exception)

lemma ok_call_primitive:
  assumes "typed_hooks hk" "typed s" "\<forall>a \<in> set args. val_ok s a"
  shows "ok (call_primitive hk args d s)"
  unfolding call_primitive_def
proof (intro ok_bind ok_c_call primitive_ok assms)
  fix n v r t t' assume t: "typed (put_rt s r)" "val_ok r v" "Restore_after_c_call ((put_rt s r)\<lparr>accu := v\<rparr>) = Some t"
    "sp_add d t = Some t'"
  have "typed ((put_rt s r)\<lparr>accu := v\<rparr>)" using t(1,2) by (simp add: typed_def)
  from frames_typed(4) [OF this t(3)] have "typed t" .
  with sp_add_upd [OF t(4)] show "ok (Some (Next (t'\<lparr>pc := pc t' + 1\<rparr>)))" by (auto simp: typed_def)
qed

lemma typed_push: "typed s \<Longrightarrow> val_ok s v \<Longrightarrow> typed (push v s)"
  by (simp add: typed_def push_def)

lemma ok_c_calls:
  assumes "typed_hooks hk" "typed s"
  shows "ok (Instruct_C_CALL1 hk s)" "ok (Instruct_C_CALL2 hk s)" "ok (Instruct_C_CALL3 hk s)"
    "ok (Instruct_C_CALL4 hk s)" "ok (Instruct_C_CALL5 hk s)" "ok (Instruct_C_CALLN hk s)"
proof -
  show "ok (Instruct_C_CALL1 hk s)" "ok (Instruct_C_CALL2 hk s)" "ok (Instruct_C_CALL3 hk s)"
    "ok (Instruct_C_CALL4 hk s)" "ok (Instruct_C_CALL5 hk s)"
    unfolding Instruct_C_CALL1_def Instruct_C_CALL2_def Instruct_C_CALL3_def Instruct_C_CALL4_def Instruct_C_CALL5_def
    by (intro ok_intros ok_call_primitive assms(1);
        auto dest!: frames_typed(3) [OF assms(2)] sp_at_mem intro: regs_ok)+
  show "ok (Instruct_C_CALLN hk s)"
    unfolding Instruct_C_CALLN_def
  proof (intro ok_intros ok_call_primitive assms(1))
    fix x n s1 s2 args assume *: "operand s = Some x" "x = (n, s1)" "Setup_for_c_call (push (accu s1) s1) = Some s2"
      "take_opt (nat n) (drop 2 (sp s2)) = Some args"
    have "typed s1" using * assms(2) by (auto dest!: operand_upd)
    then show "typed s2" using frames_typed(3) [OF typed_push *(3)] regs_ok(1) by simp
    then show "\<forall>a \<in> set args. val_ok s2 a" using take_opt_subset [OF *(4)] by (auto intro: regs_ok dest: in_set_dropD)
  qed
qed

lemma ok_resume:
  assumes "typed s"
  shows "ok (Instruct_RESUME hk s)" "ok (Instruct_RESUMETERM hk s)"
  using assms unfolding Instruct_RESUME_def Instruct_RESUMETERM_def
  by (intro ok_intros ok_do_resume; auto simp: typed_def dest!: upd_dests set_update_subset_insert [THEN subsetD])+

lemma ok_enter_effect_handler:
  assumes "typed s" "val_ok s eff" "val_ok s cont" "parent < length (stacks s)"
  shows "ok (enter_effect_handler old parent eff cont s)"
  unfolding enter_effect_handler_def Let_def
proof (intro ok_bind)
  fix sto s1 t x s2 c
  assume *: "get_stack s old = Some sto" "load_sp (s\<lparr>current_stack := parent\<rparr>) = Some s1"
    "sp_add 2 (s1\<lparr>trap_sp_off := t\<rparr>) = Some s2"
  have o: "val_ok s (handle_effect sto)" "old < length (stacks s)"
    using get_stack_ok [OF *(1)] assms(1) by (auto simp: typed_def stack_ok_def)
  note s1 = typed_load_sp [OF *(2) typed_current [OF assms(1,4)]]
  have "length (stacks s1) = length (stacks s)" using load_sp_upd [OF *(2)] by auto
  then show "ok (Some (Check_stacks (s2\<lparr>sp := eff # cont # Val_ptr (Some old) # sp s2, accu := handle_effect sto, pc := c,
      env := handle_effect sto, extra_args := Long_val x + 2\<rparr>)))"
    using sp_add_upd [OF *(3)] s1 o assms(2,3) by (auto simp: typed_def)
qed

lemma ok_PERFORM:
  assumes hk: "typed_hooks hk" and s: "typed s"
  shows "ok (Instruct_PERFORM hk s)"
  unfolding Instruct_PERFORM_def Let_def
proof (intro ok_intros ok_Alloc_small hk s)
  fix exn assume "Field (heap s) (caml_global_data s) UNHANDLED_EXN = Some exn"
  then show "ok (raise_exception (s\<lparr>accu := exn\<rparr>))"
    using s Field_ok [of s] by (intro ok_raise_exception) (auto simp: typed_def)
next
  fix p
  let ?u = "\<lambda>t st. put_stack t (current_stack s) (st\<lparr>stk_parent := None, stk_sp := Val_int (trap_sp_off t) #
      Code (pc t) # env t # Word (Val_long (extra_args t)) # sp t\<rparr>)"
  show "fills (\<lambda>cont t. get_stack t (current_stack s) \<bind> (\<lambda>st.
      init_fields (heap (?u t st)) cont 0 [Val_ptr (Some (current_stack s))] \<bind>
      (\<lambda>h. enter_effect_handler (current_stack s) p (accu (?u t st)) cont ((?u t st)\<lparr>heap := h\<rparr>))))"
    unfolding fills_def
  proof (intro allI impI ok_bind)
    fix cont t st h assume t: "typed t" "val_ok t cont" "get_stack t (current_stack s) = Some st"
      and h: "init_fields (heap (?u t st)) cont 0 [Val_ptr (Some (current_stack s))] = Some h"
    have st: "stack_ok t st" "current_stack s < length (stacks t)" using get_stack_ok t by (auto simp: typed_def)
    then have u: "typed (?u t st)" using t(1) by (auto simp: typed_def stack_ok_def intro!: rt_typed_put_stack)
    have f: "typed ((?u t st)\<lparr>heap := h\<rparr>)" "\<And>v. val_ok ((?u t st)\<lparr>heap := h\<rparr>) v = val_ok t v"
      using typed_filled [OF h u] st(2) by auto
    show "ok (enter_effect_handler (current_stack s) p (accu (?u t st)) cont ((?u t st)\<lparr>heap := h\<rparr>))"
    proof (cases "p < length (stacks t)")
      case True
      with f t show ?thesis by (intro ok_enter_effect_handler) (auto intro: regs_ok)
    next
      case False
      then have "load_sp ((?u t st)\<lparr>heap := h, current_stack := p\<rparr>) = None"
        by (simp add: load_sp_def get_stack_def nth_opt_def put_stack_def)
      then show ?thesis by (simp add: enter_effect_handler_def ok_bind)
    qed
  qed
qed

lemma continuation_use_ok:
  assumes "typed_hooks hk" "rt_typed s"
  shows "c_ok s (caml_continuation_use hk cont (rt s))"
  unfolding c_ok_def
proof (intro allI impI)
  fix res assume "caml_continuation_use hk cont (rt s) = Some res"
  then obtain u where u: "caml_continuation_use_noexc cont (rt s) = Some u"
    and rest: "(case u of Done (v, r') \<Rightarrow> if v = Val_ptr None then caml_raise_continuation_already_taken hk r' else Some (Returned v r')
      | _ \<Rightarrow> Some (Aborted ''assertion failure'')) = Some res"
    by (auto simp: caml_continuation_use_def bind_Some_iff)
  show "result_typed res \<and> (\<forall>r. result_rt res = Some r \<longrightarrow> grows s r)"
  proof (cases u)
    case (Done w)
    obtain v q where w: "w = (v, q)" by (cases w)
    with u Done obtain h where h: "Field (heap s) cont 0 = Some v" "caml_modify (heap s) cont 0 (Val_ptr None) = Some h"
      "q = (rt s)\<lparr>heap := h\<rparr>"
      by (auto simp: caml_continuation_use_noexc_def bind_Some_iff split: if_splits)
    have q: "rt_typed q" using rt_typed_modify [of "rt s" cont 0 "Val_ptr None" h] h(2,3) assms(2) by simp
    have g: "grows s q" and v: "val_ok q v"
      using caml_modify_length [OF h(2)] Field_ok [OF h(1) assms(2)] val_ok_cong [of q s v] h(3) by (simp_all add: grows_def)
    let ?t = "put_rt s q"
    have t: "rt_typed ?t" "rt ?t = q" using q by simp_all
    have "grows s ?t" using g by (simp add: grows_def)
    then show ?thesis
      using rest Done w q g v raise_predefined_ok [OF assms(1) t(1), of "''Continuation_already_taken''" CONTINUATION_ALREADY_TAKEN_EXN] t(2)
      by (auto simp: caml_raise_continuation_already_taken_def c_ok_def split: if_splits intro: grows_trans)
  qed (use rest in auto)
qed

lemma stacks_save_sp: "save_sp s = Some s' \<Longrightarrow> length (stacks s') = length (stacks s) \<and> length (heap s') = length (heap s)"
  by (auto simp: save_sp_def bind_Some_iff)

lemma ok_REPERFORMTERM:
  assumes hk: "typed_hooks hk" and s: "typed s"
  shows "ok (Instruct_REPERFORMTERM hk s)"
  unfolding Instruct_REPERFORMTERM_def Let_def
proof (intro ok_intros ok_c_call)
  fix cont tp st n s1 vs vs' s2
  assume *: "sp_at s 0 = Some cont" "get_stack s (current_stack s) = Some st" "sp_add (n - 2) s = Some s1"
    "int_upd (sp s1) 0 (Val_int (trap_sp_off s1)) = Some vs" "int_upd vs 1 (Word (Val_long (extra_args s1))) = Some vs'"
    "save_sp (s1\<lparr>sp := vs'\<rparr>) = Some s2"
  have c: "val_ok s cont" using sp_at_mem [OF *(1)] s by (auto intro: regs_ok)
  have s1: "typed s1" using sp_add_upd [OF *(3)] s by (auto simp: typed_def)
  then have "\<forall>v \<in> set vs. val_ok s1 v" using int_upd_subset [OF *(4)] by (fastforce simp: typed_def)
  then have "\<forall>v \<in> set vs'. val_ok s1 v" using int_upd_subset [OF *(5)] by fastforce
  with s1 have "typed (s1\<lparr>sp := vs'\<rparr>)" by (simp add: typed_def)
  then show t2: "typed s2" by (rule save_sp_typed [OF *(6)])
  then show "c_ok s2 (caml_continuation_use hk cont (rt s2))" by (intro continuation_use_ok hk) (simp add: typed_def)
  show "ok (do_resume (raise_unhandled (put_rt s2 r)) arg ((put_rt s2 r)\<lparr>accu := v\<rparr>))"
    if "typed (put_rt s2 r)" "val_ok r v" "Field (heap (put_rt s2 r)) (caml_global_data (put_rt s2 r)) UNHANDLED_EXN = Some arg" for v r arg
    using that Field_ok [OF that(3)] by (intro ok_do_resume) (auto simp: typed_def rt_typed_def)
  have len: "length (stacks s2) = length (stacks s)" "length (heap s2) = length (heap s)"
    using stacks_save_sp [OF *(6)] sp_add_upd [OF *(3)] by auto
  have v2: "val_ok s2 v = val_ok s v" for v using len by (intro val_ok_cong) simp_all
  fix parent k stt sts stt'
  assume p: "stk_parent st = Some parent" "get_stack s2 (current_stack s) = Some sts"
  let ?s3 = "put_stack s2 (current_stack s) (sts\<lparr>stk_parent := None\<rparr>)"
  assume k: "get_stack ?s3 k = Some stt'"
  have "stack_ok s2 (sts\<lparr>stk_parent := None\<rparr>)" and cur: "current_stack s < length (stacks s2)"
    using get_stack_ok [OF p(2)] t2 by (auto simp: typed_def stack_ok_def)
  then have t3: "typed ?s3" using t2 by (auto simp: typed_def intro: rt_typed_put_stack)
  have "stack_ok ?s3 (stt'\<lparr>stk_parent := Some (current_stack s)\<rparr>)"
    using get_stack_ok [OF k] t3 cur by (auto simp: typed_def stack_ok_def)
  then have "typed (put_stack ?s3 k (stt'\<lparr>stk_parent := Some (current_stack s)\<rparr>))"
    using t3 by (auto simp: typed_def intro: rt_typed_put_stack)
  moreover have "parent < length (stacks s)" using get_stack_ok [OF *(2)] s p(1) by (auto simp: typed_def stack_ok_def)
  ultimately show "ok (enter_effect_handler (current_stack s) parent (accu s) cont
      (put_stack ?s3 k (stt'\<lparr>stk_parent := Some (current_stack s)\<rparr>)))"
    using s c v2 len(1) by (intro ok_enter_effect_handler) (auto intro: regs_ok)
qed auto

section \<open>Integers and objects\<close>

lemma ok_int_ops:
  assumes "typed s"
  shows "ok (int_op f hk s)" "ok (Integer_equality g hk s)" "ok (Integer_branch_comparison tst hk s)"
    "ok (Instruct_CONSTn n hk s)" "ok (Instruct_PUSHCONSTn n hk s)" "ok (Instruct_CONSTINT hk s)"
    "ok (Instruct_PUSHCONSTINT hk s)" "ok (Instruct_NEGINT hk s)" "ok (Instruct_OFFSETINT hk s)"
    "ok (Instruct_ISINT hk s)" "ok (Instruct_GETMETHOD hk s)" "ok (Instruct_GETDYNMET hk s)"
  using assms unfolding int_op_def Integer_equality_def Integer_branch_comparison_def Instruct_CONSTn_def Instruct_PUSHCONSTn_def
    Instruct_CONSTINT_def Instruct_PUSHCONSTINT_def Instruct_NEGINT_def Instruct_OFFSETINT_def Instruct_ISINT_def
    Instruct_GETMETHOD_def Instruct_GETDYNMET_def typed_def
  by (((intro ok_intros)?; fastforce simp: typed_def push_def dest!: upd_dests dest: Field_ok)+)

lemma ok_divide_op:
  assumes hk: "typed_hooks hk" and s: "typed s"
  shows "ok (divide_op f hk s)"
  unfolding divide_op_def Let_def caml_raise_zero_divide_def
proof (intro ok_intros ok_c_call raise_predefined_ok hk)
  fix x v s1 b s2 assume "pop s = Some x" "x = (v, s1)"
  then have t: "typed s1" using s by (auto simp: typed_def dest!: pop_upd)
  show "typed s2" "rt_typed s2" if "Setup_for_c_call s1 = Some s2" using frames_typed(3) [OF t that] by (simp_all add: typed_def)
  show "ok (Some (Next (s1\<lparr>accu := Word (Val_long (f (Long_val a) (Long_val b)))\<rparr>)))" for a using t by (simp add: typed_def)
qed simp

lemma ok_GETPUBMET: "typed s \<Longrightarrow> ok (Instruct_GETPUBMET hk s)"
  unfolding Instruct_GETPUBMET_def Let_def field_at_offset_def
  by (intro ok_intros) (auto simp: typed_def push_def split: if_splits dest!: operand_upd dest: Field_ok)

section \<open>The switch, the loop and the entry\<close>

lemma ok_switch_table:
  assumes "typed_hooks hk"
  shows "\<forall>e \<in> set switch_table. case snd e of Handler f \<Rightarrow> \<forall>s. typed s \<longrightarrow> ok (f hk s)
    | Restart f \<Rightarrow> f \<in> {Instruct_EVENT, Instruct_BREAK}"
  unfolding switch_table_def memory.int_op_defs
  by (simp add: assms ok_stack_instructions ok_calls ok_RETURN ok_GRAB ok_CLOSURE ok_CLOSUREREC ok_field_reads ok_blocks ok_stores
      ok_branches ok_STOP ok_POPTRAP ok_raises ok_c_calls ok_resume ok_PERFORM ok_REPERFORMTERM ok_CHECK_SIGNALS
      ok_int_ops ok_divide_op ok_GETPUBMET)

lemma debugger_typed: "Setup_for_debugger s = Some s1 \<Longrightarrow> Restore_after_debugger s1 = Some s' \<Longrightarrow> typed s \<Longrightarrow> typed s'"
  by (rule frames_typed(8) [OF frames_typed(7)])

lemma restart_typed: "f \<in> {Instruct_EVENT, Instruct_BREAK} \<Longrightarrow> f s = Some s' \<Longrightarrow> typed s \<Longrightarrow> typed s'"
  by (auto simp: Instruct_EVENT_def Instruct_BREAK_def Let_def bind_Some_iff split: if_splits dest!: debugger_typed)

lemma ok_dispatch_instr:
  assumes hk: "typed_hooks hk" and "typed s"
  shows "ok (dispatch_instr hk op s)"
proof -
  have "outcome_typed q" if "dispatch_instr hk' op s = Some q" "hk' = hk" "typed s" for hk' op s q
    using that
  proof (induction hk' op s q rule: dispatch_instr.raw_induct [rotated, consumes 1])
    case (1 dispatch_instr hk' op s q)
    show ?case
    proof (cases "0 \<le> sint op \<and> nat (sint op) < length switch_table")
      case False
      with 1(2) show ?thesis by auto
    next
      case True
      let ?e = "switch_table ! nat (sint op)"
      have e: "?e \<in> set switch_table" using True by simp
      show ?thesis
      proof (cases "snd ?e")
        case (Handler f)
        with ok_switch_table [OF hk] e 1(4) have "ok (f hk s)" by fastforce
        with 1(2,3) True Handler show ?thesis by simp
      next
        case (Restart f)
        with ok_switch_table [OF hk] e have f: "f \<in> {Instruct_EVENT, Instruct_BREAK}" by fastforce
        from 1(2,3) True Restart obtain s1 op' where s1: "f s = Some s1" "dispatch_instr hk op' s1 = Some q"
          by (auto simp: bind_Some_iff)
        from 1(1) [OF s1(2) refl] restart_typed [OF f s1(1) 1(4)] show ?thesis by simp
      qed
    qed
  qed
  with assms(2) show ?thesis by (cases "dispatch_instr hk op s") auto
qed

lemma step_typed:
  assumes hk: "typed_hooks hk" and s: "typed s"
  shows "ok (step hk s)"
  unfolding step_def
proof (intro ok_intros)
  fix counted show "ok (case counted of Done p \<Rightarrow> dispatch_instr hk op (s\<lparr>prof := p, pc := pc s + 1\<rparr>) \<bind> settle hk
      | _ \<Rightarrow> Some (Fatal ''assertion failure''))" for op
  proof (cases counted)
    case (Done p)
    have "ok (dispatch_instr hk op (s\<lparr>prof := p, pc := pc s + 1\<rparr>))" using s by (intro ok_dispatch_instr hk) simp
    with Done show ?thesis by (auto intro!: ok_bind ok_settle hk)
  qed simp_all
qed simp

lemma exec_typed:
  assumes hk: "typed_hooks hk" and "typed s"
  shows "ok (exec hk s)"
proof -
  have "outcome_typed r" if "exec hk' s = Some r" "hk' = hk" "typed s" for hk' s r
    using that
  proof (induction hk' s r rule: exec.raw_induct [rotated, consumes 1])
    case (1 exec hk' s r)
    then obtain u where u: "step hk s = Some u" "(case u of Next s' \<Rightarrow> exec hk s' | other \<Rightarrow> Some other) = Some r"
      by (auto simp: bind_Some_iff)
    with step_typed [OF hk 1(4)] have "outcome_typed u" by simp
    with u(2) 1(1) show ?case by (cases u) auto
  qed
  with assms(2) show ?thesis by (cases "exec hk s") auto
qed

lemma enter_typed:
  assumes "interp_enter ctx p prog r = Some s" "rt_typed r"
  shows "typed s"
proof -
  obtain st where st: "get_stack r (current_stack r) = Some st"
    and s: "s = runtime.extend (r\<lparr>external_raise := Some ctx, trap_sp_off := 1\<rparr>)
      (vm.fields prog (stk_sp st) (Val_int 0) (Atom 0) 0 (external_raise r) (length (stk_sp st)) (trap_sp_off r) ctx p)"
    using assms(1) by (auto simp: interp_enter_def bind_Some_iff)
  have "heap s = heap r" "stacks s = stacks r" "current_stack s = current_stack r" "caml_global_data s = caml_global_data r"
    "raise_unhandled s = raise_unhandled r" "sp s = stk_sp st" "accu s = Val_int 0" "env s = Atom 0"
    unfolding s by (simp_all add: runtime.defs vm.defs)
  then show ?thesis
    using get_stack_ok [OF st assms(2)] assms(2) val_ok_cong [of s r] by (simp add: typed_def rt_typed_def stack_ok_def)
qed

text \<open>The invariant for the interpreter as a whole. On any bytecode, from a runtime in which every pointer in
  the heap, the stacks, the fibers' handlers and the globals goes to an allocated block or stack, and with C
  code that keeps that, whatever state the interpreter hands back has the property again, and so does the
  value or exception it answers.\<close>

lemma interpreter_type_safe:
  assumes "interp_enter ctx p prog r = Some s" "exec hk s = Some res" "rt_typed r" "typed_hooks hk"
  shows "outcome_typed res"
  using exec_typed [OF assms(4) enter_typed [OF assms(1,3)]] assms(2) by simp

lemma typed_quiet: "typed_hooks quiet_hooks"
  unfolding typed_hooks_def by (auto simp: tame_quiet) (auto simp: quiet_hooks_def)

lemma interpreter_type_safe_example:
  "exec quiet_hooks run_vm = Some (Finished (Ptr 0 0) run_report run_end) \<and> typed run_end \<and> val_ok run_end (Ptr 0 0)"
proof -
  have e: "exec quiet_hooks run_vm = Some (Finished (Ptr 0 0) run_report run_end)"
    using run_first run_second run_stop by (simp add: exec.simps [of _ run_vm] exec.simps [of _ "run_state (Suc 0)"] exec.simps [of _ "run_state 2"])
  have "rt_typed (sample_rt\<lparr>code := sample_code\<rparr>)"
    by (simp add: sample_rt_def rt_typed_def stack_ok_def main_stack_def)
  with interpreter_type_safe [OF run_enter e] typed_quiet e show ?thesis by simp
qed

end
