(* ===== verification/Profile_Props.thy ===== *)
theory Profile_Props
  imports Apply_Props
begin

text \<open>
  What the profile of the \<open>DEBUG\<close> build says about a program: an instruction is attributed to the
  function on top of the profiler's stack, calls and returns keep that stack in step with the
  program's, and where they do not.
\<close>

section \<open>Attribution\<close>

text \<open>C27: an instruction executed while \<open>f\<close> is the innermost active function adds one to the total, to the
  counter of its opcode, and to that opcode's counter in the array of \<open>f\<close>; no other function's array
  and not the stack of active functions changes, and the invariant of the profile is kept.\<close>

theorem profile_attribution:
  assumes "profile_inv p" "0 \<le> sint opcode" "sint opcode < int FIRST_UNIMPLEMENTED_OP" "calls_of p = f # fs"
  shows "\<exists>p' c. profile_count p opcode = Some (Done p') \<and> profile_inv p' \<and> calls_of p' = f # fs \<and>
    op_counts p' = (op_counts p)[nat (sint opcode) := op_counts p ! nat (sint opcode) + 1] \<and>
    total_op_count p' = total_op_count p + 1 \<and> counts_of p f = Some c \<and>
    counts_of p' = (counts_of p)(f \<mapsto> c[nat (sint opcode) := c ! nat (sint opcode) + 1])"
  using profile_count_active [OF assms] assms(4) by auto

lemma sample_profile_call:
  "\<exists>p. profile_call True sample_profile 4096 = Some (Done p) \<and> profile_inv p \<and> calls_of p = [4096] \<and>
     counts_of p 4096 = Some (replicate FIRST_UNIMPLEMENTED_OP 0)"
proof -
  have "ht_map (func_hash_table sample_profile) = Map.empty"
    using empty_ht_inv by (simp add: sample_profile_def profile_init_def)
  then have "counts_of sample_profile 4096 = None" by (simp add: counts_of_def)
  with profile_call_pushes [of sample_profile 4096] show ?thesis by (auto simp: sample_profile_ok)
qed

theorem profile_attribution_witness:
  "\<exists>p p'. profile_call True sample_profile 4096 = Some (Done p) \<and> profile_count p 9 = Some (Done p') \<and>
     counts_of p' 4096 = Some ((replicate FIRST_UNIMPLEMENTED_OP 0)[9 := 1])"
proof -
  obtain p where p: "profile_call True sample_profile 4096 = Some (Done p)" "profile_inv p" "calls_of p = [4096]"
    "counts_of p 4096 = Some (replicate FIRST_UNIMPLEMENTED_OP 0)" using sample_profile_call by blast
  from profile_attribution [OF p(2) _ _ p(3), of 9] obtain p' where "profile_count p 9 = Some (Done p')"
    "counts_of p' 4096 = Some ((replicate FIRST_UNIMPLEMENTED_OP 0)[9 := replicate FIRST_UNIMPLEMENTED_OP 0 ! 9 + 1])"
    using p(4) by (auto simp: FIRST_UNIMPLEMENTED_OP_def)
  then have "counts_of p' 4096 = Some ((replicate FIRST_UNIMPLEMENTED_OP 0)[9 := 1])"
    by (simp add: FIRST_UNIMPLEMENTED_OP_def)
  with p(1) \<open>profile_count p 9 = Some (Done p')\<close> show ?thesis by blast
qed

section \<open>Calls and returns\<close>

text \<open>The bookkeeping of a call and of the matching return leave the stack of active functions as it was,
  the invariant holds throughout, the callee has a counter array from the call on, all zero when it is
  new, and no other function's counters change.\<close>

theorem profile_call_return:
  assumes "profile_inv p" "f \<noteq> 0" "length (calls_of p) < fs_cap (local_func_stack p)"
    and "ht_room (func_hash_table p)" "Suc (length (opcount_arrays p)) < 2 ^ 64"
  shows "\<exists>p1 p2. profile_call True p f = Some (Done p1) \<and> calls_of p1 = f # calls_of p \<and> profile_inv p1 \<and>
    profile_return p1 = Some p2 \<and> profile_inv p2 \<and> calls_of p2 = calls_of p \<and>
    counts_of p2 = (counts_of p)(f \<mapsto>
      (case counts_of p f of None \<Rightarrow> replicate FIRST_UNIMPLEMENTED_OP 0 | Some c \<Rightarrow> c))"
proof -
  obtain p1 where p1: "profile_call True p f = Some (Done p1)" "profile_inv p1" "calls_of p1 = f # calls_of p"
    "counts_of p1 = (counts_of p)(f \<mapsto>
      (case counts_of p f of None \<Rightarrow> replicate FIRST_UNIMPLEMENTED_OP 0 | Some c \<Rightarrow> c))"
    using profile_call_pushes [OF assms] by blast
  with profile_return_pops [OF p1(2,3)] show ?thesis by auto
qed

theorem profile_call_return_witness:
  "\<exists>p1 p2. profile_call True sample_profile 4096 = Some (Done p1) \<and> profile_return p1 = Some p2 \<and>
     calls_of p2 = calls_of sample_profile"
  using profile_call_return [of sample_profile 4096] by (auto simp: sample_profile_ok)

text \<open>the profiler's stack is last in, first out: functions pushed while there is room are popped in the
  reverse order and the stack below them is untouched.\<close>

theorem func_stack_lifo:
  assumes "fs_invar st" "length (fs_elems st) + 2 \<le> fs_cap st"
  shows "\<exists>st1 st2 st3 st4. func_stack_push st f = Some (0, st1) \<and> func_stack_push st1 g = Some (0, st2) \<and>
    func_stack_pop st2 = Some (g, st3) \<and> func_stack_pop st3 = Some (f, st4) \<and> fs_invar st4 \<and> fs_elems st4 = fs_elems st"
proof -
  obtain st1 where st1: "func_stack_push st f = Some (0, st1)" "fs_invar st1" "fs_elems st1 = f # fs_elems st"
    "fs_cap st1 = fs_cap st" using func_stack_push_ok [OF assms(1), of f] assms(2) by auto
  obtain st2 where st2: "func_stack_push st1 g = Some (0, st2)" "fs_invar st2" "fs_elems st2 = g # f # fs_elems st"
    using func_stack_push_ok [OF st1(2), of g] st1(3,4) assms(2) by auto
  from fstack.pop_n_spec [OF st2(2), of "[g, f]" "fs_elems st"] st2(3) st1(1) st2(1) show ?thesis
    by (auto simp: bind_Some_iff)
qed

theorem func_stack_lifo_witness:
  "\<exists>st1 st2 st3 st4. func_stack_push sample_func_stack 8 = Some (0, st1) \<and> func_stack_push st1 16 = Some (0, st2) \<and>
    func_stack_pop st2 = Some (16, st3) \<and> func_stack_pop st3 = Some (8, st4) \<and> fs_elems st4 = []"
  using func_stack_lifo [of sample_func_stack 8 16]
  by (auto simp: sample_func_stack_def fs_invar_def fs_elems_def fs_cap_def)

section \<open>Where the two stacks part\<close>

text \<open>C28: a partial application leaves its function on the profiler's stack. When the callee of APPLY1 starts
  with a GRAB that asks for more arguments than the one given, control is back in the caller after the
  GRAB, with the caller's stack and environment, but the callee is still the innermost active function
  of the profile, and the caller's instructions will be attributed to it.\<close>

theorem partial_call_stays_active:
  assumes call: "Instruct_APPLY1 hk s = Some (Check_stacks s1)"
    and prof: "profile_inv (prof s)" "malloc_ok hk (prof s)" "code_addr s (pc s1) \<noteq> 0"
      "length (calls_of (prof s)) < fs_cap (local_func_stack (prof s))" "ht_room (func_hash_table (prof s))"
      "Suc (length (opcount_arrays (prof s))) < 2 ^ 64"
    and grab: "pc_at s1 1 = Some required" "0 < required" "\<not> gc_interrupt hk 4 (rt (s1\<lparr>pc := pc s1 + 2\<rparr>))"
    and args: "fits63 (sint (extra_args s))"
  shows "\<exists>s2. Instruct_GRAB hk (s1\<lparr>pc := pc s1 + 1\<rparr>) = Some (Next s2) \<and> pc s2 = pc s \<and> env s2 = env s \<and>
    sp s2 = tl (sp s) \<and> calls_of (prof s2) = code_addr s (pc s1) # calls_of (prof s)"
proof -
  obtain arg rest c where sp: "sp s = arg # rest" and c: "Code_val (heap s) (accu s) = Some c"
    and enter: "profile_enter hk (s\<lparr>sp := arg # Code (pc s) # env s # Word (Val_long (extra_args s)) # rest, pc := c\<rparr>)
       (\<lambda>s. Some (Check_stacks (s\<lparr>env := accu s, extra_args := 0\<rparr>))) = Some (Check_stacks s1)"
    using call by (cases "sp s") (auto simp: Instruct_APPLY1_def vm_simps Let_def bind_Some_iff)
  let ?t = "s\<lparr>sp := arg # Code (pc s) # env s # Word (Val_long (extra_args s)) # rest, pc := c\<rparr>"
  let ?k = "\<lambda>s. Some (Check_stacks (s\<lparr>env := accu s, extra_args := 0\<rparr>))"
  from profile_enter_SomeD [OF enter] have pc1: "pc s1 = c" by auto
  have "\<exists>p. profile_enter hk ?t ?k = ?k (?t\<lparr>prof := p\<rparr>) \<and> profile_inv p \<and>
      calls_of p = code_addr ?t (pc ?t) # calls_of (prof ?t)"
    by (rule profile_enter_ok) (use prof pc1 in \<open>simp_all add: code_addr_def\<close>)
  with enter pc1 obtain p where s1: "s1 = ?t\<lparr>prof := p, env := accu s, extra_args := 0\<rparr>"
    and calls: "calls_of p = code_addr s (pc s1) # calls_of (prof s)" by (auto simp: code_addr_def)
  let ?u = "s1\<lparr>pc := pc s1 + 1\<rparr>"
  have gc: "\<not> gc_interrupt hk 4 (rt (s1\<lparr>pc := 2 + pc s1\<rparr>))" using grab(3) by (simp add: add.commute)
  have "Instruct_GRAB hk ?u = do_return (?u\<lparr>pc := pc ?u + 1, accu := Ptr (length (heap ?u)) 0,
    heap := heap ?u @ [\<lparr>block_tag = Closure_tag,
      block_fields = Code (pc ?u - 2) # Word (Make_closinfo 0 2) # env ?u # [arg]\<rparr>],
    sp := Code (pc s) # env s # Word (Val_long (extra_args s)) # rest\<rparr>)"
    by (rule GRAB_partial) (use grab(1,2) gc s1 in \<open>simp_all add: Max_young_wosize_def pc_at_def\<close>)
  then show ?thesis using calls sp args s1
    by (simp add: do_return_def vm_simps Long_val_Val_long)
qed

text \<open>A function of two arguments called with one: its code is \<open>RESTART; GRAB 1\<close>, entered at the GRAB.\<close>

definition sample_partial :: vm where
  "sample_partial = sample_vm\<lparr>heap := [\<lparr>block_tag = Closure_tag, block_fields = [Code 1, Word (Make_closinfo 0 2)]\<rparr>],
     accu := Ptr 0 0, sp := [Val_int 4, Val_int 8], code := [41, 42, 1], pc := 7\<rparr>"

theorem partial_call_stays_active_witness:
  "\<exists>s1 s2. Instruct_APPLY1 quiet_hooks sample_partial = Some (Check_stacks s1) \<and>
     Instruct_GRAB quiet_hooks (s1\<lparr>pc := pc s1 + 1\<rparr>) = Some (Next s2) \<and> pc s2 = 7 \<and> sp s2 = [Val_int 8] \<and>
     calls_of (prof s2) = [0x1004]"
proof -
  let ?s = "sample_partial\<lparr>sp := [Val_int 4, Code 7, Atom 0, Val_int 0, Val_int 8], pc := 1\<rparr>"
  have "\<exists>p. profile_enter quiet_hooks ?s k = k (?s\<lparr>prof := p\<rparr>) \<and> profile_inv p \<and>
      calls_of p = code_addr ?s (pc ?s) # calls_of (prof ?s)" for k
    by (rule profile_enter_ok)
      (simp_all add: sample_partial_def sample_vm_fields sample_profile_ok quiet_hooks_def code_addr_def)
  from this [of "\<lambda>s. Some (Check_stacks (s\<lparr>env := accu s, extra_args := 0\<rparr>))"]
  obtain p where s1: "Instruct_APPLY1 quiet_hooks sample_partial =
      Some (Check_stacks (?s\<lparr>prof := p, env := Ptr 0 0, extra_args := 0\<rparr>))" (is "_ = Some (Check_stacks ?s1)")
    by (auto simp: Instruct_APPLY1_def sample_partial_def vm_simps Code_val_def Field_def sample_vm_fields
        Let_def Val_int_def)
  have "\<exists>s2. Instruct_GRAB quiet_hooks (?s1\<lparr>pc := pc ?s1 + 1\<rparr>) = Some (Next s2) \<and> pc s2 = pc sample_partial \<and>
      env s2 = env sample_partial \<and> sp s2 = tl (sp sample_partial) \<and>
      calls_of (prof s2) = code_addr sample_partial (pc ?s1) # calls_of (prof sample_partial)"
    by (rule partial_call_stays_active [OF s1, of 1])
      (simp_all add: sample_partial_def sample_vm_fields sample_profile_ok quiet_hooks_def code_addr_def pc_at_def
        int_nth_def fits63_def Max_long_def Min_long_def)
  moreover have "pc sample_partial = 7" "tl (sp sample_partial) = [Val_int 8]" "calls_of (prof sample_partial) = []"
    "code_addr sample_partial (pc ?s1) = 0x1004"
    by (simp_all add: sample_partial_def sample_vm_fields sample_profile_ok code_addr_def)
  ultimately show ?thesis using s1 by metis
qed

end
