(* ===== verification/Callback.thy ===== *)
theory Callback
  imports Machine_Props
begin

text \<open>
  \<open>ocaml/runtime/callback.c\<close>, bytecode half: how C code applies an OCaml closure. The arguments, a
  return frame and the closure go on the current stack, the stack is cut from its parent so that no
  effect passes over the callback, and \<open>caml_interprete\<close> runs \<open>ACC n+3; APPLY n; POP 1; STOP\<close>.
\<close>

section \<open>Operations\<close>

text \<open>\<open>caml_alloc_1(Cont_tag, Val_ptr(parent))\<close>, and the parent cleared.\<close>

definition save_and_clear_stack_parent :: "runtime \<Rightarrow> (mlvalue \<times> runtime) option" where
  "save_and_clear_stack_parent r = do {
     st \<leftarrow> get_stack r (current_stack r);
     Some (Ptr (length (heap r)) 0,
       put_stack (r\<lparr>heap := heap r @ [\<lparr>block_tag = Cont_tag, block_fields = [Val_ptr (stk_parent st)]\<rparr>]\<rparr>)
         (current_stack r) (st\<lparr>stk_parent := None\<rparr>)) }"

definition restore_stack_parent :: "mlvalue \<Rightarrow> runtime \<Rightarrow> runtime c_outcome option" where
  "restore_stack_parent cont r = do {
     parent_stack \<leftarrow> Option.bind (Field (heap r) cont 0) Ptr_val;
     st \<leftarrow> get_stack r (current_stack r);
     if stk_parent st \<noteq> None then Some Assert_failure
     else Some (Done (put_stack r (current_stack r) (st\<lparr>stk_parent := parent_stack\<rparr>))) }"

text \<open>\<open>{ ACC, 0, APPLY, 0, POP, 1, STOP }\<close>, registered as a code fragment on first use.\<close>

definition callback_code :: "u32 list" where
  "callback_code = [8, 0, 32, 0, 19, 1, 143]"

definition init_callback_code :: "runtime \<Rightarrow> int \<times> runtime" where
  "init_callback_code r = (int (length (code r)), r\<lparr>code := code r @ callback_code\<rparr>)"

text \<open>
  The value of \<open>caml_callbackN_exn\<close>: a result or an exception result. The location of the code, once
  it is initialised, is part of what the call leaves. \<open>ctx\<close> and \<open>mem_ok\<close> are those of the nested
  \<open>caml_interprete\<close>. Words written below the base of the stack have no meaning.
\<close>

datatype callback_result = Result mlvalue runtime | Exception_result mlvalue runtime | Stopped string

definition finish_callback ::
  "(mlvalue \<Rightarrow> runtime \<Rightarrow> callback_result) \<Rightarrow> mlvalue \<Rightarrow> mlvalue \<Rightarrow> runtime \<Rightarrow> callback_result option" where
  "finish_callback f v cont r = do {
     res \<leftarrow> restore_stack_parent cont r;
     case res of Done r' \<Rightarrow> Some (f v r') | _ \<Rightarrow> Some (Stopped ''assertion failure'') }"

text \<open>Everything up to the call of \<open>caml_interprete\<close>: the code, the frame, and the stack without its parent.\<close>

definition callback_setup ::
  "int option \<Rightarrow> mlvalue \<Rightarrow> mlvalue list \<Rightarrow> runtime \<Rightarrow> (int \<times> mlvalue \<times> runtime) option" where
  "callback_setup inited closure args r = do {
     let (cb, r) = (case inited of None \<Rightarrow> init_callback_code r | Some cb \<Rightarrow> (cb, r));
     st \<leftarrow> get_stack r (current_stack r);
     guard (length (stk_sp st) + length args + 4 \<le> stk_wosize st);
     c \<leftarrow> int_upd (code r) (cb + 1) (of_nat (length args + 3));
     c \<leftarrow> int_upd c (cb + 3) (of_nat (length args));
     let r = put_stack (r\<lparr>code := c\<rparr>) (current_stack r) (st\<lparr>stk_sp :=
       args @ [Code (cb + 4), Val_unit, Val_int 0, closure] @ stk_sp st\<rparr>);
     (cont, r) \<leftarrow> save_and_clear_stack_parent r;
     Some (cb, cont, r) }"

definition caml_callbackN_exn ::
  "hooks \<Rightarrow> bool \<Rightarrow> nat \<Rightarrow> int option \<Rightarrow> mlvalue \<Rightarrow> mlvalue list \<Rightarrow> runtime \<Rightarrow> (int option \<times> callback_result) option" where
  "caml_callbackN_exn hk mem_ok ctx inited closure args r =
     (let narg = length args in
      if 256 < narg + 4 then Some (inited, Stopped ''assertion failure'')
      else do {
        (cb, cont, r) \<leftarrow> callback_setup inited closure args r;
        res \<leftarrow> caml_interprete hk mem_ok ctx cb r;
        out \<leftarrow> (case res of
            Finished v rep s \<Rightarrow> finish_callback Result v cont (rt s)
          | Uncaught e s \<Rightarrow> do {
              st \<leftarrow> get_stack s (current_stack s);
              vs \<leftarrow> drop_opt (narg + 4) (stk_sp st);
              finish_callback Exception_result e cont (put_stack (rt s) (current_stack s) (st\<lparr>stk_sp := vs\<rparr>)) }
          | Fatal msg \<Rightarrow> Some (Stopped msg)
          | _ \<Rightarrow> None);
        Some (Some cb, out) })"

definition caml_callback_exn where
  "caml_callback_exn hk mem_ok ctx inited closure arg1 = caml_callbackN_exn hk mem_ok ctx inited closure [arg1]"

definition caml_callback2_exn where
  "caml_callback2_exn hk mem_ok ctx inited closure arg1 arg2 =
     caml_callbackN_exn hk mem_ok ctx inited closure [arg1, arg2]"

definition caml_callback3_exn where
  "caml_callback3_exn hk mem_ok ctx inited closure arg1 arg2 arg3 =
     caml_callbackN_exn hk mem_ok ctx inited closure [arg1, arg2, arg3]"

section \<open>The profile never gets in the way\<close>

lemma profile_count_ok:
  assumes "profile_inv p" "0 \<le> sint opcode" "sint opcode < int FIRST_UNIMPLEMENTED_OP"
  shows "\<exists>q. profile_count p opcode = Some (Done q) \<and> profile_inv q \<and> calls_of q = calls_of p \<and>
    local_func_stack q = local_func_stack p \<and> func_hash_table q = func_hash_table p \<and>
    length (opcount_arrays q) = length (opcount_arrays p)"
proof -
  obtain q where q: "profile_count p opcode = Some (Done q)" "profile_inv q"
  proof (cases "calls_of p")
    case Nil
    have "profile_inv (p\<lparr>op_counts := (op_counts p)[nat (sint opcode) := x], total_op_count := y\<rparr>)" for x y
      using assms(1) by (simp add: profile_inv_def)
    with profile_count_idle [OF assms Nil] show ?thesis using that by blast
  next
    case (Cons f fs)
    from profile_count_active [OF assms Cons] show ?thesis using that by blast
  qed
  moreover from q(1) have "local_func_stack q = local_func_stack p" "func_hash_table q = func_hash_table p"
    "length (opcount_arrays q) = length (opcount_arrays p)"
    by (auto simp: profile_count_def ht_curr_inc_opcount_def Let_def bind_Some_iff split: if_splits)
  ultimately show ?thesis by (auto simp: calls_of_def)
qed

lemma es_map_entry:
  assumes "ht_inv t" "i < length (entries t)" "ht_key (entries t ! i) \<noteq> 0"
  shows "ht_map t (ht_key (entries t ! i)) = Some (ht_value (entries t ! i))"
  using assms es_map_Some_iff [of "entries t"] by (auto simp: ht_map_def ht_inv_def)

lemma report_slots_ok:
  assumes "profile_inv p" "\<forall>i \<in> set is. i < length (entries (func_hash_table p))"
  shows "\<exists>rows. report_slots p is = Some rows"
  using assms(2)
proof (induction "is")
  case (Cons i "is")
  let ?e = "entries (func_hash_table p) ! i"
  have "\<exists>row. report_slot p i = Some row"
  proof (cases "ht_key ?e = 0")
    case False
    then have "ht_map (func_hash_table p) (ht_key ?e) = Some (ht_value ?e)"
      using assms(1) Cons.prems by (intro es_map_entry) (auto simp: profile_inv_def)
    then have u: "1 \<le> unat (ht_value ?e)" "unat (ht_value ?e) \<le> length (opcount_arrays p)"
      using assms(1) by (auto simp: profile_inv_def)
    then have "unat (ht_value ?e - 1) < length (opcount_arrays p)"
      by (subst unat_minus_one_word) auto
    with assms(1) False Cons.prems show ?thesis by (auto simp: report_slot_def nth_opt_def profile_inv_def)
  qed (use Cons.prems in \<open>simp add: report_slot_def nth_opt_def\<close>)
  with Cons show ?case by auto
qed simp

lemma stop_report_ok:
  assumes "profile_inv p"
  shows "\<exists>rep. stop_report p = Some rep"
proof -
  have "length (entries (func_hash_table p)) = unat (capacity (func_hash_table p))"
    using assms by (auto simp: profile_inv_def ht_inv_def)
  then obtain rows where "report_slots p [0..<unat (capacity (func_hash_table p))] = Some rows"
    using report_slots_ok [OF assms, of "[0..<unat (capacity (func_hash_table p))]"] by auto
  moreover have "unat (nr_items (local_func_stack p)) \<le> length (stack_data (local_func_stack p))"
    using assms by (auto simp: profile_inv_def fs_invar_def word_le_nat_alt)
  ultimately show ?thesis by (simp add: stop_report_def dump_func_stack_def take_opt_def)
qed

text \<open>One turn of the loop on a state with a well-formed profile: the instruction runs.\<close>

lemma step_at:
  assumes "get_stack s (current_stack s) = Some st" "length (sp s) \<le> stk_wosize st"
    "int_nth (code s) (pc s) = Some op" "profile_inv (prof s)" "0 \<le> sint op" "sint op < 153"
    "snd (switch_table ! nat (sint op)) = Handler f"
  shows "\<exists>p. profile_inv p \<and> calls_of p = calls_of (prof s) \<and> local_func_stack p = local_func_stack (prof s) \<and>
    func_hash_table p = func_hash_table (prof s) \<and> length (opcount_arrays p) = length (opcount_arrays (prof s)) \<and>
    step hk s = Option.bind (f hk (s\<lparr>prof := p, pc := pc s + 1\<rparr>)) (settle hk)"
proof -
  obtain p where p: "profile_count (prof s) op = Some (Done p)" "profile_inv p" "calls_of p = calls_of (prof s)"
    "local_func_stack p = local_func_stack (prof s)" "func_hash_table p = func_hash_table (prof s)"
    "length (opcount_arrays p) = length (opcount_arrays (prof s))"
    using profile_count_ok [OF assms(4,5)] assms(6) by (auto simp: FIRST_UNIMPLEMENTED_OP_def)
  have "nat (sint op) < length switch_table" using assms(5,6) length_switch_table
    by (simp add: FIRST_UNIMPLEMENTED_OP_def)
  then have "step hk s = Option.bind (f hk (s\<lparr>prof := p, pc := pc s + 1\<rparr>)) (settle hk)"
    unfolding step_def using assms(1,2) p(1) dispatch_handler [OF assms(5) _ assms(7)] by (simp add: assms(3))
  with p show ?thesis by auto
qed

lemma settle_Next [simp]: "settle hk (Next s) = Some (Next s)" "settle hk (Finished v rep s) = Some (Finished v rep s)"
  by (simp_all add: settle.simps)

end
