(* ===== verification/Callback_Props.thy ===== *)
theory Callback_Props
  imports Callback
begin

text \<open>
  Callbacks from C code: a closure that returns gives its value to the C caller and leaves the stack,
  the parent and the exception context as they were.
\<close>

section \<open>The code of a callback\<close>

definition callback_code_at :: "u32 list \<Rightarrow> int \<Rightarrow> nat \<Rightarrow> bool" where
  "callback_code_at c cb narg \<longleftrightarrow>
     (\<exists>xs ys. c = xs @ [8, of_nat (narg + 3), 32, of_nat narg, 19, 1, 143] @ ys \<and> cb = int (length xs))"

text \<open>Where the code of callbacks is, once it is there, operands aside.\<close>

definition callback_inited :: "int option \<Rightarrow> runtime \<Rightarrow> bool" where
  "callback_inited inited r \<longleftrightarrow> (case inited of None \<Rightarrow> True
     | Some cb \<Rightarrow> \<exists>xs a b ys. code r = xs @ [8, a, 32, b, 19, 1, 143] @ ys \<and> cb = int (length xs))"

lemma callback_code_words:
  assumes "callback_code_at c cb narg"
  shows "int_nth c cb = Some 8" "int_nth c (cb + 1) = Some (of_nat (narg + 3))" "int_nth c (cb + 2) = Some 32"
    "int_nth c (cb + 3) = Some (of_nat narg)" "int_nth c (cb + 4) = Some 19" "int_nth c (cb + 5) = Some 1"
    "int_nth c (cb + 6) = Some 143"
  using assms by (auto simp: callback_code_at_def int_nth_def nth_opt_def nth_append nat_add_distrib nth_Cons')

lemma sint_of_nat_small: "n < 256 \<Longrightarrow> sint (of_nat n :: u32) = int n"
  by (subst of_int_of_nat_eq [symmetric], subst signed_of_int) (simp add: signed_take_bit_int_eq_self)

section \<open>Runs of the unbounded loop\<close>

lemma exec_steps: "steps hk n s s' \<Longrightarrow> exec hk s = exec hk s'"
proof (induction rule: steps.induct)
  case (more s s1 n s2)
  then show ?case by (subst exec.simps) simp
qed simp

lemma steps_trans: "steps hk n s1 s2 \<Longrightarrow> steps hk m s2 s3 \<Longrightarrow> steps hk (n + m) s1 s3"
  by (induction rule: steps.induct) (auto intro: steps.more)

section \<open>Entering and leaving the closure\<close>

text \<open>The stack of a callback, and the state in which its closure starts.\<close>

definition callback_stack :: "int \<Rightarrow> mlvalue \<Rightarrow> mlvalue list \<Rightarrow> mlvalue list \<Rightarrow> mlvalue list" where
  "callback_stack cb closure args old = args @ [Code (cb + 4), Val_unit, Val_int 0, closure] @ old"

definition applied :: "runtime \<Rightarrow> nat \<Rightarrow> mlvalue \<Rightarrow> mlvalue list \<Rightarrow> mlvalue list \<Rightarrow> vm \<Rightarrow> bool" where
  "applied r ctx closure args stk s \<longleftrightarrow> rt s = r\<lparr>external_raise := Some ctx, trap_sp_off := 1\<rparr> \<and>
     Code_val (heap r) closure = Some (pc s) \<and> env s = closure \<and> accu s = closure \<and> exception_ctx s = ctx \<and>
     extra_args s = of_nat (length args) - 1 \<and> sp s = stk \<and> profile_inv (prof s) \<and> length (calls_of (prof s)) = 1"

lemma applied_fields:
  assumes "applied r ctx closure args stk s"
  shows "code s = code r" "heap s = heap r" "current_stack s = current_stack r" "stacks s = stacks r"
proof -
  have "rt s = r\<lparr>external_raise := Some ctx, trap_sp_off := 1\<rparr>" using assms by (simp add: applied_def)
  then show "code s = code r" "heap s = heap r" "current_stack s = current_stack r" "stacks s = stacks r"
    by (simp_all flip: rt_fields)
qed

lemma fresh_profile:
  assumes "interp_profile True = Some (Allocated p)"
  shows "profile_inv p" "calls_of p = []" "fs_cap (local_func_stack p) = 1024" "ht_room (func_hash_table p)"
    "opcount_arrays p = []"
proof -
  have "p = profile_init \<lparr>stack_data = replicate 1024 0, nr_items = 0, max_items = 1024, cur_size_bytes = 0, top_idx = 0\<rparr> empty_ht"
    using assms by (simp add: interp_profile_def create_func_stack_def ht_create_def empty_ht_def sizeof_code_t_def)
  then show "profile_inv p" "calls_of p = []" "fs_cap (local_func_stack p) = 1024" "ht_room (func_hash_table p)"
    "opcount_arrays p = []"
    using empty_ht_inv
    by (simp_all add: profile_init_def profile_inv_def fs_invar_def fs_elems_def calls_of_def fs_cap_def)
qed

text \<open>ACC finds the closure below the arguments and the return frame.\<close>

lemma callback_acc:
  assumes s: "get_stack s (current_stack s) = Some st" "sp s = callback_stack cb closure args old"
      "length (sp s) \<le> stk_wosize st" "callback_code_at (code s) cb (length args)" "length args + 4 \<le> 256"
      "pc s = cb" "profile_inv (prof s)"
  shows "\<exists>p. profile_inv p \<and> calls_of p = calls_of (prof s) \<and> local_func_stack p = local_func_stack (prof s) \<and>
    func_hash_table p = func_hash_table (prof s) \<and> length (opcount_arrays p) = length (opcount_arrays (prof s)) \<and>
    step hk s = Some (Next (s\<lparr>prof := p, pc := cb + 2, accu := closure\<rparr>))"
proof -
  note words = callback_code_words [OF s(4)]
  have "sint (of_nat (length args + 3) :: u32) = int (length args + 3)"
    using s(5) by (intro sint_of_nat_small) simp
  moreover have at: "int_nth (callback_stack cb closure args old) (int (length args + 3)) = Some closure"
    by (simp add: callback_stack_def int_nth_def nth_opt_def nth_append nat_add_distrib)
  ultimately have "Instruct_ACC hk (s\<lparr>prof := p, pc := cb + 1\<rparr>) = Some (Next (s\<lparr>prof := p, pc := cb + 2, accu := closure\<rparr>))" for p
    using s(2) by (simp add: Instruct_ACC_def operand_def pc_at_def sp_at_def words(2) at add.commute [of 2 cb] del: of_nat_add)
  then show ?thesis
    using step_at [OF s(1,3) _ s(7), of 8 Instruct_ACC hk] s(6) words(1) by (auto simp: switch_table_def)
qed

text \<open>APPLY enters the closure with its arguments on the stack.\<close>

lemma callback_apply:
  assumes s: "get_stack s (current_stack s) = Some st" "length (sp s) + Stack_threshold_words \<le> stk_wosize st"
      "callback_code_at (code s) cb narg" "narg + 4 \<le> 256" "pc s = cb + 2" "Code_val (heap s) (accu s) = Some c"
    and p: "profile_inv (prof s)" "calls_of (prof s) = []" "0 < fs_cap (local_func_stack (prof s))"
      "ht_room (func_hash_table (prof s))" "opcount_arrays (prof s) = []" "code_base s + 4 * word_of_int c \<noteq> 0"
    and hk: "\<And>q. malloc_ok hk q" "\<And>q. \<not> something_pending hk q"
  shows "\<exists>p. profile_inv p \<and> length (calls_of p) = 1 \<and> step hk s = Some (Next (s\<lparr>prof := p, pc := c,
    extra_args := of_nat narg - 1, env := accu s\<rparr>))"
proof -
  note words = callback_code_words [OF s(3)]
  obtain p2 where p2: "profile_inv p2" "calls_of p2 = []" "local_func_stack p2 = local_func_stack (prof s)"
     "func_hash_table p2 = func_hash_table (prof s)" "length (opcount_arrays p2) = 0"
    and step: "step hk s = Option.bind (Instruct_APPLY hk (s\<lparr>prof := p2, pc := cb + 3\<rparr>)) (settle hk)"
    using step_at [OF s(1) _ _ p(1), of 32 Instruct_APPLY hk] s words(3) p
    by (auto simp: switch_table_def add.commute [of 3 cb])
  let ?u = "s\<lparr>prof := p2, pc := c, extra_args := of_nat narg - 1, env := accu s\<rparr>"
  obtain p3 where p3: "profile_call True p2 (code_base s + 4 * word_of_int c) = Some (Done p3)" "profile_inv p3"
    "length (calls_of p3) = 1"
    using profile_call_pushes [OF p2(1) p(6)] p p2 by auto
  have "sint (of_nat narg :: u32) = int narg" using s(4) by (intro sint_of_nat_small) simp
  moreover have "word_of_int (c_int (int narg - 1)) = (of_nat narg - 1 :: u64)"
    using s(4) by (subst c_int_id) simp_all
  ultimately have "Instruct_APPLY hk (s\<lparr>prof := p2, pc := cb + 3\<rparr>) = Some (Check_stacks (?u\<lparr>prof := p3\<rparr>))"
    using s p3(1) hk(1)
    by (simp add: Instruct_APPLY_def pc_at_def profile_enter_def code_addr_def words(4))
  moreover have "check_stacks hk (?u\<lparr>prof := p3\<rparr>) = Some (Next (?u\<lparr>prof := p3\<rparr>))"
    using s hk(2) by (intro check_stacks_room) simp_all
  ultimately have "step hk s = Some (Next (?u\<lparr>prof := p3\<rparr>))"
    unfolding step by (simp add: settle.simps [of hk "Check_stacks _"])
  with p3 show ?thesis by auto
qed

lemma callback_enters:
  assumes r: "get_stack r (current_stack r) = Some st" "stk_sp st = callback_stack cb closure args old"
      "length (stk_sp st) + Stack_threshold_words \<le> stk_wosize st" "callback_code_at (code r) cb (length args)"
      "length args + 4 \<le> 256"
    and c: "Code_val (heap r) closure = Some c" "code_base r + 4 * word_of_int c \<noteq> 0"
    and hk: "\<And>q. malloc_ok hk q" "\<And>q. \<not> something_pending hk q"
    and p: "interp_profile True = Some (Allocated p)" "interp_enter ctx p cb r = Some s0"
  shows "\<exists>s1. steps hk 2 s0 s1 \<and> applied r ctx closure args (callback_stack cb closure args old) s1 \<and>
    c_activation (core s1) = (external_raise r, length (stk_sp st), trap_sp_off r, ctx)"
proof -
  have s0: "s0 = runtime.extend (r\<lparr>external_raise := Some ctx, trap_sp_off := 1\<rparr>)
       (vm.fields cb (stk_sp st) (Val_int 0) (Atom 0) 0 (external_raise r) (length (stk_sp st)) (trap_sp_off r) ctx p)"
    using p(2) r(1) by (simp add: interp_enter_def)
  note inv = fresh_profile [OF p(1)]
  have f0: "get_stack s0 (current_stack s0) = Some st" "sp s0 = stk_sp st" "code s0 = code r" "pc s0 = cb" "prof s0 = p"
    "heap s0 = heap r" "exception_ctx s0 = ctx" "rt s0 = r\<lparr>external_raise := Some ctx, trap_sp_off := 1\<rparr>"
    "c_activation (core s0) = (external_raise r, length (stk_sp st), trap_sp_off r, ctx)" "code_base s0 = code_base r"
    using r(1) unfolding s0 by (simp_all add: runtime.defs vm.defs get_stack_def rt_def core_def)
  obtain p1 where p1: "profile_inv p1" "calls_of p1 = []" "local_func_stack p1 = local_func_stack p"
     "func_hash_table p1 = func_hash_table p" "length (opcount_arrays p1) = 0"
    and step0: "step hk s0 = Some (Next (s0\<lparr>prof := p1, pc := cb + 2, accu := closure\<rparr>))" (is "_ = Some (Next ?t)")
    using callback_acc [OF f0(1), of cb closure args old hk] r inv f0 by auto
  obtain p2 where p2: "profile_inv p2" "length (calls_of p2) = 1"
    and step1: "step hk ?t = Some (Next (?t\<lparr>prof := p2, pc := c, extra_args := of_nat (length args) - 1, env := closure\<rparr>))"
    using callback_apply [of ?t st cb "length args" c hk] r c hk inv f0 p1 by auto
  let ?s1 = "?t\<lparr>prof := p2, pc := c, extra_args := of_nat (length args) - 1, env := closure\<rparr>"
  have "steps hk (Suc (Suc 0)) s0 ?s1" using step0 step1 by (blast intro: steps.intros)
  moreover have "applied r ctx closure args (callback_stack cb closure args old) ?s1"
    using p2 c f0 r(2) by (simp add: applied_def rt_def runtime.defs)
  moreover have "c_activation (core ?s1) = c_activation (core s0)" by simp
  ultimately show ?thesis using f0(9) by (metis numeral_2_eq_2)
qed

text \<open>The state in which a closure has returned \<open>v\<close> to the code of the callback.\<close>

definition came_back :: "int \<Rightarrow> mlvalue \<Rightarrow> mlvalue list \<Rightarrow> mlvalue \<Rightarrow> vm \<Rightarrow> bool" where
  "came_back cb closure old v s \<longleftrightarrow> pc s = cb + 4 \<and> sp s = closure # old \<and> accu s = v \<and> profile_inv (prof s)"

lemma callback_leaves:
  assumes s: "came_back cb closure old v s" "get_stack s (current_stack s) = Some st" "length old < stk_wosize st"
      "callback_code_at (code s) cb narg"
  shows "\<exists>rep s'. exec hk s = Some (Finished v rep s') \<and> heap s' = heap s \<and> current_stack s' = current_stack s \<and>
    get_stack s' (current_stack s') = Some (st\<lparr>stk_sp := old\<rparr>) \<and> external_raise s' = initial_external_raise s \<and>
    trap_sp_off s' = initial_trap_sp_off s"
proof -
  note words = callback_code_words [OF s(4)]
  have regs: "pc s = cb + 4" "sp s = closure # old" "accu s = v" "profile_inv (prof s)" using s(1) by (simp_all add: came_back_def)
  have "Instruct_POP hk (s\<lparr>prof := p, pc := cb + 5\<rparr>) = Some (Next (s\<lparr>prof := p, pc := cb + 6, sp := old\<rparr>))" for p
    by (simp add: Instruct_POP_def operand_def pc_at_def sp_add_def drop_opt_def words(6) regs add.commute [of 6 cb])
  then obtain p where p: "profile_inv p" "step hk s = Some (Next (s\<lparr>prof := p, pc := cb + 6, sp := old\<rparr>))"
    using step_at [OF s(2) _ _ regs(4), of 19 Instruct_POP hk] s(3) words(5) regs
    by (auto simp: switch_table_def add.commute [of 5 cb])
  let ?t = "s\<lparr>prof := p, pc := cb + 6, sp := old\<rparr>"
  obtain q where q: "profile_inv q" "step hk ?t = Option.bind (Instruct_STOP hk (?t\<lparr>prof := q, pc := cb + 7\<rparr>)) (settle hk)"
    using step_at [of ?t st 143 Instruct_STOP hk] s(2,3) words(7) p(1) by (auto simp: switch_table_def add.commute [of 7 cb])
  obtain rep where "stop_report q = Some rep" using stop_report_ok [OF q(1)] by blast
  moreover have "stk_live st" using s(2) by (rule get_stack_live)
  ultimately obtain s' where stop: "step hk ?t = Some (Finished v rep s')"
    and s': "heap s' = heap s" "current_stack s' = current_stack s" "external_raise s' = initial_external_raise s"
      "trap_sp_off s' = initial_trap_sp_off s" "get_stack s' (current_stack s') = Some (st\<lparr>stk_sp := old\<rparr>)"
    using q(2) s(2) regs(3) by (simp add: Instruct_STOP_def save_sp_def)
  have "exec hk s = Some (Finished v rep s')" using p(2) stop by (simp add: exec.simps)
  with s' show ?thesis by blast
qed

section \<open>A whole callback\<close>

lemma callback_setup_ok:
  assumes "callback_setup inited closure args r = Some (cb, cont, r1)" "callback_inited inited r"
    "get_stack r (current_stack r) = Some st"
  shows "callback_code_at (code r1) cb (length args)" "current_stack r1 = current_stack r"
    "cont = Ptr (length (heap r)) 0"
    "heap r1 = heap r @ [\<lparr>block_tag = Cont_tag, block_fields = [Val_ptr (stk_parent st)]\<rparr>]"
    "get_stack r1 (current_stack r1) = Some (st\<lparr>stk_sp := callback_stack cb closure args (stk_sp st), stk_parent := None\<rparr>)"
    "external_raise r1 = external_raise r" "trap_sp_off r1 = trap_sp_off r" "code_base r1 = code_base r"
proof -
  obtain xs a b ys where code: "(case inited of None \<Rightarrow> init_callback_code r | Some cb \<Rightarrow> (cb, r)) =
      (int (length xs), r\<lparr>code := xs @ [8, a, 32, b, 19, 1, 143] @ ys\<rparr>)"
  proof (cases inited)
    case None
    then show ?thesis using that [of "code r" 0 0 "[]"] by (simp add: init_callback_code_def callback_code_def)
  next
    case (Some cb)
    then obtain xs a b ys where "code r = xs @ [8, a, 32, b, 19, 1, 143] @ ys" "cb = int (length xs)"
      using assms(2) by (auto simp: callback_inited_def)
    with Some show ?thesis using that [of xs a b ys] by (simp flip: append_assoc)
  qed
  let ?code = "xs @ [8, of_nat (length args + 3), 32, of_nat (length args), 19, 1, 143] @ ys"
  have upd: "int_upd (xs @ [8, a, 32, b, 19, 1, 143] @ ys) (int (length xs) + 1) v =
      Some (xs @ [8, v, 32, b, 19, 1, 143] @ ys)"
    "int_upd (xs @ [8, v, 32, b, 19, 1, 143] @ ys) (int (length xs) + 3) w = Some (xs @ [8, v, 32, w, 19, 1, 143] @ ys)" for v w
    by (simp_all add: int_upd_def upd_opt_def nat_add_distrib list_update_append eval_nat_numeral)
  have live: "stk_live st" using assms(3) by (rule get_stack_live)
  have st: "get_stack (r\<lparr>code := d\<rparr>) (current_stack r) = Some st" for d
    using assms(3) by (simp add: get_stack_def)
  have eq: "cb = int (length xs) \<and> cont = Ptr (length (heap r)) 0 \<and>
    r1 = put_stack ((put_stack (r\<lparr>code := ?code\<rparr>) (current_stack r)
        (st\<lparr>stk_sp := callback_stack cb closure args (stk_sp st)\<rparr>))
      \<lparr>heap := heap r @ [\<lparr>block_tag = Cont_tag, block_fields = [Val_ptr (stk_parent st)]\<rparr>]\<rparr>) (current_stack r)
      (st\<lparr>stk_sp := callback_stack cb closure args (stk_sp st), stk_parent := None\<rparr>)"
    using assms(1) st live unfolding callback_setup_def code save_and_clear_stack_parent_def
    by (auto simp: upd callback_stack_def bind_Some_iff simp del: append_Cons)
  show "callback_code_at (code r1) cb (length args)" "current_stack r1 = current_stack r"
    "cont = Ptr (length (heap r)) 0"
    "heap r1 = heap r @ [\<lparr>block_tag = Cont_tag, block_fields = [Val_ptr (stk_parent st)]\<rparr>]"
    "get_stack r1 (current_stack r1) = Some (st\<lparr>stk_sp := callback_stack cb closure args (stk_sp st), stk_parent := None\<rparr>)"
    "external_raise r1 = external_raise r" "trap_sp_off r1 = trap_sp_off r" "code_base r1 = code_base r"
    using eq st live by (auto simp: callback_code_at_def, simp_all add: put_stack_def)
qed

text \<open>
  The closure returns \<open>v\<close> when it is applied: from the state in which it starts it comes back to the
  code of the callback, on a stack without parent and with the saved parent untouched.
\<close>

definition closure_returns ::
  "hooks \<Rightarrow> nat \<Rightarrow> int \<Rightarrow> mlvalue \<Rightarrow> runtime \<Rightarrow> mlvalue \<Rightarrow> mlvalue list \<Rightarrow> mlvalue list \<Rightarrow> nat option \<Rightarrow> mlvalue \<Rightarrow> bool" where
  "closure_returns hk ctx cb cont r closure args old parent v \<longleftrightarrow>
     (\<forall>s. applied r ctx closure args (callback_stack cb closure args old) s \<longrightarrow>
       (\<exists>n s' st'. steps hk n s s' \<and> came_back cb closure old v s' \<and> code s' = code s \<and>
         get_stack s' (current_stack s') = Some st' \<and> stk_parent st' = None \<and> length old < stk_wosize st' \<and>
         Field (heap s') cont 0 = Some (Val_ptr parent)))"

text \<open>C7:
  A callback whose closure returns \<open>v\<close> ends with \<open>v\<close> as its result, whether or not it is the first one. The
  words of the stack, its parent, the exception context and the trap offset are those of before the
  call: the arguments, the frame and the closure that were pushed are gone.
\<close>

theorem callback_returns:
  assumes prep: "callback_setup inited closure args r = Some (cb, cont, r1)" "callback_inited inited r"
    and st: "get_stack r (current_stack r) = Some st" "length args + 4 \<le> 256"
      "length (stk_sp st) + length args + 4 + Stack_threshold_words \<le> stk_wosize st"
    and clos: "Code_val (heap r1) closure = Some c" "code_base r + 4 * word_of_int c \<noteq> 0"
    and hk: "\<forall>q. malloc_ok hk q" "\<forall>q. \<not> something_pending hk q"
    and body: "closure_returns hk ctx cb cont r1 closure args (stk_sp st) (stk_parent st) v"
  shows "\<exists>r' st'. caml_callbackN_exn hk True ctx inited closure args r = Some (Some cb, Result v r') \<and>
    get_stack r' (current_stack r') = Some st' \<and> stk_sp st' = stk_sp st \<and> stk_parent st' = stk_parent st \<and>
    external_raise r' = external_raise r \<and> trap_sp_off r' = trap_sp_off r"
proof -
  note r1 = callback_setup_ok [OF prep st(1)]
  let ?stk = "callback_stack cb closure args (stk_sp st)"
  obtain p where p: "interp_profile True = Some (Allocated p)"
    by (simp add: interp_profile_def create_func_stack_def ht_create_def)
  obtain s0 where s0: "interp_enter ctx p cb r1 = Some s0" using r1(5) by (simp add: interp_enter_def)
  have len: "length ?stk + Stack_threshold_words \<le> stk_wosize st" using st(3) by (simp add: callback_stack_def)
  obtain s1 where s1: "steps hk 2 s0 s1" "applied r1 ctx closure args ?stk s1"
    "c_activation (core s1) = (external_raise r1, length ?stk, trap_sp_off r1, ctx)"
    using callback_enters [OF r1(5) _ _ r1(1) st(2) clos(1) _ _ _ p s0, of "stk_sp st" hk] len clos(2) r1(8) hk by auto
  obtain n s2 st2 where s2: "steps hk n s1 s2" "came_back cb closure (stk_sp st) v s2" "code s2 = code s1"
    "get_stack s2 (current_stack s2) = Some st2" "stk_parent st2 = None" "length (stk_sp st) < stk_wosize st2"
    "Field (heap s2) cont 0 = Some (Val_ptr (stk_parent st))"
    using body s1(2) unfolding closure_returns_def by blast
  have "code s1 = code r1" using applied_fields [OF s1(2)] by simp
  then obtain rep s' where s': "exec hk s2 = Some (Finished v rep s')" "heap s' = heap s2" "current_stack s' = current_stack s2"
    "get_stack s' (current_stack s') = Some (st2\<lparr>stk_sp := stk_sp st\<rparr>)" "external_raise s' = initial_external_raise s2"
    "trap_sp_off s' = initial_trap_sp_off s2"
    using callback_leaves [OF s2(2,4,6), of "length args" hk] r1(1) s2(3) by auto
  have "c_activation (core s2) = c_activation (core s1)" using steps_counts [OF s2(1)] by simp
  with s1(3) s'(5,6) r1 have same: "external_raise s' = external_raise r" "trap_sp_off s' = trap_sp_off r"
    by (simp_all add: core_def)
  have "exec hk s0 = Some (Finished v rep s')" using exec_steps [OF s1(1)] exec_steps [OF s2(1)] s'(1) by simp
  then have run: "caml_interprete hk True ctx cb r1 = Some (Finished v rep s')" using p s0 by (simp add: caml_interprete_def)
  let ?r = "put_stack (rt s') (current_stack s') (st2\<lparr>stk_sp := stk_sp st, stk_parent := stk_parent st\<rparr>)"
  have lv: "get_stack (rt s') (current_stack s') = Some (st2\<lparr>stk_sp := stk_sp st\<rparr>)" "stk_live st2"
    using s'(4) get_stack_live [OF s2(4)] by (simp_all add: get_stack_def)
  have "finish_callback Result v cont (rt s') = Some (Result v ?r)"
    using s2(5) s'(2) lv by (cases "stk_parent st") (simp_all add: finish_callback_def restore_stack_parent_def s2(7))
  then have "caml_callbackN_exn hk True ctx inited closure args r = Some (Some cb, Result v ?r)"
    using st(2) prep(1) run by (simp add: caml_callbackN_exn_def)
  then show ?thesis using lv same by auto
qed

text \<open>The identity function, \<open>ACC0; RETURN 1\<close>, called back on 42.\<close>

definition callback_rt :: runtime where
  "callback_rt = sample_rt\<lparr>code := [0, 40, 1], heap := [\<lparr>block_tag = Closure_tag, block_fields = [Code 0, Val_unit]\<rparr>]\<rparr>"

definition callback_rt1 :: runtime where
  "callback_rt1 = callback_rt\<lparr>code := [0, 40, 1, 8, 4, 32, 1, 19, 1, 143],
     heap := heap callback_rt @ [\<lparr>block_tag = Cont_tag, block_fields = [Val_ptr None]\<rparr>],
     stacks := [main_stack\<lparr>stk_sp := callback_stack 3 (Ptr 0 0) [Val_int 42] [], stk_parent := None\<rparr>]\<rparr>"

lemma callback_rt_prepared: "callback_setup None (Ptr 0 0) [Val_int 42] callback_rt = Some (3, Ptr 1 0, callback_rt1)"
  by (simp add: callback_setup_def callback_rt_def callback_rt1_def sample_rt_def init_callback_code_def get_stack_def
      main_stack_def callback_code_def int_upd_def upd_opt_def put_stack_def save_and_clear_stack_parent_def callback_stack_def)

lemma identity_returns:
  "closure_returns quiet_hooks 5 3 (Ptr 1 0) callback_rt1 (Ptr 0 0) [Val_int 42] [] None (Val_int 42)"
  unfolding closure_returns_def
proof (intro allI impI)
  let ?st = "main_stack\<lparr>stk_sp := callback_stack 3 (Ptr 0 0) [Val_int 42] [], stk_parent := None\<rparr>"
  fix s assume s: "applied callback_rt1 5 (Ptr 0 0) [Val_int 42] (callback_stack 3 (Ptr 0 0) [Val_int 42] []) s"
  note f = applied_fields [OF s]
  have st: "get_stack s (current_stack s) = Some ?st"
    using f(3,4) by (simp add: get_stack_def callback_rt1_def callback_rt_def sample_rt_def main_stack_def)
  have regs: "pc s = 0" "extra_args s = 0" "sp s = [Val_int 42, Code 7, Val_unit, Val_int 0, Ptr 0 0]"
    "profile_inv (prof s)" "length (calls_of (prof s)) = 1" "code s = [0, 40, 1, 8, 4, 32, 1, 19, 1, 143]"
    using s f(1) by (simp_all add: applied_def callback_stack_def callback_rt1_def callback_rt_def Code_val_def Field_def nth_opt_def int_nth_def)
  obtain p where p: "profile_inv p" "length (calls_of p) = 1"
    "step quiet_hooks s = Some (Next (s\<lparr>prof := p, pc := 1, accu := Val_int 42\<rparr>))" (is "_ = Some (Next ?t)")
    using step_at [OF st, of 0 "Instruct_ACCn 0" quiet_hooks] regs
    by (auto simp: switch_table_def Instruct_ACCn_def sp_at_def int_nth_def main_stack_def)
  obtain q where q: "profile_inv q" "calls_of q = calls_of p"
    "step quiet_hooks ?t = Option.bind (Instruct_RETURN quiet_hooks (?t\<lparr>prof := q, pc := 2\<rparr>)) (settle quiet_hooks)"
    using step_at [of ?t ?st 40 Instruct_RETURN quiet_hooks] st p(1) regs
    by (auto simp: switch_table_def int_nth_def main_stack_def)
  obtain f where "calls_of q = [f]" using p(2) q(2) by (auto simp: length_Suc_conv)
  then obtain q' where q': "profile_return q = Some q'" "profile_inv q'" using profile_return_pops [OF q(1)] by blast
  let ?u = "?t\<lparr>prof := q', pc := 7, sp := [Ptr 0 0], env := Val_unit, extra_args := Long_val 1\<rparr>"
  have "step quiet_hooks ?t = Some (Next ?u)"
    using q(3) q'(1) regs
    by (simp add: Instruct_RETURN_def operand_def pc_at_def int_nth_def sp_add_def drop_opt_def do_return_def sp_at_def)
  then have "steps quiet_hooks (Suc (Suc 0)) s ?u" using p(3) by (blast intro: steps.intros)
  moreover have "came_back 3 (Ptr 0 0) [] (Val_int 42) ?u" using q'(2) by (simp add: came_back_def)
  moreover have "Field (heap s) (Ptr 1 0) 0 = Some (Val_ptr None)"
    using \<open>heap s = heap callback_rt1\<close> by (simp add: Field_def callback_rt1_def callback_rt_def nth_opt_def int_nth_def)
  moreover have "get_stack ?u (current_stack ?u) = Some ?st" using st by simp
  ultimately show "\<exists>n s' st'. steps quiet_hooks n s s' \<and> came_back 3 (Ptr 0 0) [] (Val_int 42) s' \<and> code s' = code s \<and>
      get_stack s' (current_stack s') = Some st' \<and> stk_parent st' = None \<and> length ([] :: mlvalue list) < stk_wosize st' \<and>
      Field (heap s') (Ptr 1 0) 0 = Some (Val_ptr None)"
    by (intro exI [of _ "Suc (Suc 0)"] exI [of _ ?u] exI [of _ ?st]) (simp add: main_stack_def)
qed

theorem callback_returns_witness:
  "\<exists>r' st'. caml_callbackN_exn quiet_hooks True 5 None (Ptr 0 0) [Val_int 42] callback_rt = Some (Some 3, Result (Val_int 42) r') \<and>
     get_stack r' (current_stack r') = Some st' \<and> stk_sp st' = [] \<and> stk_parent st' = None"
proof -
  have "get_stack callback_rt (current_stack callback_rt) = Some main_stack"
    by (simp add: get_stack_def callback_rt_def sample_rt_def main_stack_def)
  moreover have "Code_val (heap callback_rt1) (Ptr 0 0) = Some 0" "code_base callback_rt = 0x1000"
    by (simp_all add: Code_val_def Field_def callback_rt1_def callback_rt_def sample_rt_def nth_opt_def int_nth_def)
  moreover have "callback_inited None callback_rt" by (simp add: callback_inited_def)
  moreover have "\<forall>q. malloc_ok quiet_hooks q" "\<forall>q. \<not> something_pending quiet_hooks q" by (simp_all add: quiet_hooks_def)
  moreover have "stk_sp main_stack = []" "stk_parent main_stack = None" "stk_wosize main_stack = 64"
    by (simp_all add: main_stack_def)
  ultimately show ?thesis
    using callback_returns [OF callback_rt_prepared, of main_stack 0 quiet_hooks 5 "Val_int 42"] identity_returns
    by (auto simp: Stack_threshold_words_def)
qed

end
