(* ===== verification/Fix_Code.thy ===== *)
theory Fix_Code
  imports Interp Sample_State
begin

text \<open>
  \<open>ocaml/runtime/fix_code.c\<close>: the operand counts of the instructions and the pass that prepares code for
  the threaded build, replacing each opcode by the offset of its handler. The pass has to know where
  every instruction ends; here and in \<open>Operand_Counts\<close> it is shown to agree with the interpreter on that.
\<close>

section \<open>Operand counts\<close>

definition one_operand :: "string list" where
  "one_operand = [''PUSHACC'', ''ACC'', ''POP'', ''ASSIGN'', ''PUSHENVACC'', ''ENVACC'', ''PUSH_RETADDR'', ''APPLY'',
     ''APPTERM1'', ''APPTERM2'', ''APPTERM3'', ''RETURN'', ''GRAB'', ''PUSHGETGLOBAL'', ''GETGLOBAL'', ''SETGLOBAL'',
     ''PUSHATOM'', ''ATOM'', ''MAKEBLOCK1'', ''MAKEBLOCK2'', ''MAKEBLOCK3'', ''MAKEFLOATBLOCK'', ''GETFIELD'',
     ''GETFLOATFIELD'', ''SETFIELD'', ''SETFLOATFIELD'', ''BRANCH'', ''BRANCHIF'', ''BRANCHIFNOT'', ''PUSHTRAP'',
     ''C_CALL1'', ''C_CALL2'', ''C_CALL3'', ''C_CALL4'', ''C_CALL5'', ''CONSTINT'', ''PUSHCONSTINT'', ''OFFSETINT'',
     ''OFFSETREF'', ''OFFSETCLOSURE'', ''PUSHOFFSETCLOSURE'', ''RESUMETERM'', ''REPERFORMTERM'']"

definition two_operands :: "string list" where
  "two_operands = [''APPTERM'', ''CLOSURE'', ''PUSHGETGLOBALFIELD'', ''GETGLOBALFIELD'', ''MAKEBLOCK'', ''C_CALLN'',
     ''BEQ'', ''BNEQ'', ''BLTINT'', ''BLEINT'', ''BGTINT'', ''BGEINT'', ''BULTINT'', ''BUGEINT'', ''GETPUBMET'']"

definition caml_init_opcode_nargs :: "nat list" where
  "caml_init_opcode_nargs = map (\<lambda>name. if name \<in> set two_operands then 2
     else if name \<in> set one_operand then 1 else 0) instructions"

definition CLOSUREREC :: nat where "CLOSUREREC = 44"
definition SWITCH :: nat where "SWITCH = 87"
definition STOP :: nat where "STOP = 143"

section \<open>Preparing code\<close>

text \<open>A bad opcode is treated as STOP.\<close>

definition thread_opcode :: "u32 \<Rightarrow> nat" where
  "thread_opcode w = (if sint w < 0 \<or> int FIRST_UNIMPLEMENTED_OP \<le> sint w then STOP else nat (sint w))"

text \<open>The words of the instruction at \<open>p\<close> after its opcode.\<close>

definition thread_skip :: "u32 list \<Rightarrow> nat \<Rightarrow> nat \<Rightarrow> nat option" where
  "thread_skip prog p instr =
     (if instr = SWITCH then do {
        sizes \<leftarrow> nth_opt prog (p + 1);
        Some (1 + unat (sizes AND 0xFFFF) + unat (drop_bit 16 sizes)) }
      else if instr = CLOSUREREC then do {
        nfuncs \<leftarrow> nth_opt prog (p + 1);
        Some (2 + unat nfuncs) }
      else nth_opt caml_init_opcode_nargs instr)"

text \<open>\<open>caml_thread_code\<close>; \<open>tbl\<close> is \<open>caml_instr_table[instr] - caml_instr_base\<close>.\<close>

function thread_loop :: "(nat \<Rightarrow> u32) \<Rightarrow> u32 list \<Rightarrow> nat \<Rightarrow> u32 list c_outcome option" where
  "thread_loop tbl prog p =
     (if p < length prog then
        let instr = thread_opcode (prog ! p); prog = prog[p := tbl instr] in
        case thread_skip prog p instr of
          None \<Rightarrow> None
        | Some k \<Rightarrow> thread_loop tbl prog (p + 1 + k)
      else Some (if p = length prog then Done prog else Assert_failure))"
  by pat_completeness auto
termination
  by (relation "measure (\<lambda>(tbl, prog, p). length prog - p)") auto

declare thread_loop.simps [simp del]

definition caml_thread_code :: "(nat \<Rightarrow> u32) \<Rightarrow> u32 list \<Rightarrow> u32 list c_outcome option" where
  "caml_thread_code tbl prog = thread_loop tbl prog 0"

text \<open>The two accessors, in the build without threaded code and with it.\<close>

definition caml_set_instruction :: "(nat \<Rightarrow> u32) option \<Rightarrow> u32 list \<Rightarrow> int \<Rightarrow> nat \<Rightarrow> u32 list option" where
  "caml_set_instruction tbl prog pos instr = int_upd prog pos (case tbl of None \<Rightarrow> of_nat instr | Some t \<Rightarrow> t instr)"

definition caml_is_instruction :: "(nat \<Rightarrow> u32) option \<Rightarrow> u32 \<Rightarrow> nat \<Rightarrow> bool" where
  "caml_is_instruction tbl instr1 instr2 = (instr1 = (case tbl of None \<Rightarrow> of_nat instr2 | Some t \<Rightarrow> t instr2))"

section \<open>The table of operand counts\<close>

lemma opcode_nargs_table:
  "caml_init_opcode_nargs =
    [0, 0, 0, 0, 0, 0, 0, 0, 1, 0, 0, 0, 0, 0, 0, 0, 0, 0, 1, 1, 1, 0, 0, 0, 0, 1, 0, 0, 0, 0,
     1, 1, 1, 0, 0, 0, 2, 1, 1, 1, 1, 0, 1, 2, 0, 0, 0, 0, 1, 0, 0, 0, 1, 1, 1, 2, 2, 1, 0, 1,
     0, 1, 2, 1, 1, 1, 1, 0, 0, 0, 0, 1, 1, 0, 0, 0, 0, 1, 1, 0, 0, 0, 0, 0, 1, 1, 1, 0, 0, 1,
     0, 0, 0, 1, 1, 1, 1, 1, 2, 0, 0, 0, 0, 1, 0, 0, 0, 0, 1, 0, 0, 0, 0, 0, 0, 0, 0, 0, 0, 0,
     0, 0, 0, 0, 0, 0, 0, 1, 1, 0, 0, 2, 2, 2, 2, 2, 2, 0, 0, 2, 2, 2, 0, 0, 0, 0, 0, 0, 0, 0,
     0, 1, 1]"
  by code_simp

text \<open>The opcodes that may leave the sequence: calls, returns, branches, raises, effects, the end, CLOSUREREC.\<close>

definition jump_instructions :: "string list" where
  "jump_instructions = [''APPLY'', ''APPLY1'', ''APPLY2'', ''APPLY3'', ''APPTERM'', ''APPTERM1'', ''APPTERM2'', ''APPTERM3'',
     ''RETURN'', ''GRAB'', ''CLOSUREREC'', ''BRANCH'', ''BRANCHIF'', ''BRANCHIFNOT'', ''SWITCH'', ''RAISE'', ''DIVINT'', ''MODINT'',
     ''BEQ'', ''BNEQ'', ''BLTINT'', ''BLEINT'', ''BGTINT'', ''BGEINT'', ''BULTINT'', ''BUGEINT'', ''STOP'', ''EVENT'', ''BREAK'',
     ''RERAISE'', ''RAISE_NOTRACE'', ''PERFORM'', ''RESUME'', ''RESUMETERM'', ''REPERFORMTERM'']"

definition jump_opcodes :: "nat list" where
  "jump_opcodes = filter (\<lambda>i. instructions ! i \<in> set jump_instructions) [0..<length instructions]"

lemma jump_opcodes_eq:
  "jump_opcodes = [32, 33, 34, 35, 36, 37, 38, 39, 40, 42, 44, 84, 85, 86, 87, 91, 113, 114, 131, 132, 133, 134, 135, 136,
     139, 140, 143, 144, 145, 146, 147, 149, 150, 151, 152]"
  by code_simp

section \<open>Falling through\<close>

text \<open>Surroundings in which nothing interrupts: no signal or collection is pending, no allocation and no primitive raises.\<close>

definition calm :: "hooks \<Rightarrow> bool" where
  "calm hk \<longleftrightarrow> (\<forall>n r. \<not> gc_interrupt hk n r) \<and> (\<forall>r. \<not> something_pending hk r) \<and> (\<forall>n r. shared_try_alloc hk n r) \<and>
     (\<forall>n args r res. primitive hk n args r = Some res \<longrightarrow> (\<exists>v r'. res = Returned v r'))"

definition advances :: "int \<Rightarrow> outcome option \<Rightarrow> bool" where
  "advances p m \<longleftrightarrow> (\<forall>s'. m = Some (Next s') \<longrightarrow> pc s' = p)"

lemma advances_Next [simp]: "advances p (Some (Next s)) \<longleftrightarrow> pc s = p"
  by (auto simp: advances_def)

lemma advances_Fatal [simp]: "advances p (Some (Fatal msg))" "advances p None"
  by (simp_all add: advances_def)

lemma advances_bind: "(\<And>x. m = Some x \<Longrightarrow> advances p (f x)) \<Longrightarrow> advances p (Option.bind m f)"
  by (cases m) simp_all

lemma advances_case_prod: "(\<And>a b. x = (a, b) \<Longrightarrow> advances p (f a b)) \<Longrightarrow> advances p (case x of (a, b) \<Rightarrow> f a b)"
  by (cases x) simp

lemma advances_if: "(b \<Longrightarrow> advances p m) \<Longrightarrow> (\<not> b \<Longrightarrow> advances p m') \<Longrightarrow> advances p (if b then m else m')"
  by simp

lemma advances_end: "pc s = p \<Longrightarrow> advances p (Some (Next s))"
  by simp

lemmas advances_intros = advances_end advances_bind advances_case_prod advances_if

lemma advances_Alloc_small:
  assumes "calm hk" "\<And>v t. pc t = pc s \<Longrightarrow> advances p (k v t)"
  shows "advances p (Alloc_small hk w tag s k)"
  using assms by (simp add: Alloc_small_def gc_poll.simps calm_def)

lemma advances_caml_alloc_shr:
  assumes "calm hk" "\<And>v t. pc t = pc s \<Longrightarrow> advances p (k v t)"
  shows "advances p (caml_alloc_shr hk w tag s k)"
  using assms by (auto simp: caml_alloc_shr_def calm_def intro!: advances_bind)

lemma pc_push [simp]: "pc (push v s) = pc s"
  by (simp add: push_def)

lemma sp_add_pc: "sp_add n s = Some s' \<Longrightarrow> pc s' = pc s"
  by (auto simp: sp_add_def bind_Some_iff)

lemma operand_pc: "operand s = Some (n, s') \<Longrightarrow> pc s' = pc s + 1"
  by (auto simp: operand_def bind_Some_iff)

lemma pop_pc: "pop s = Some (v, s') \<Longrightarrow> pc s' = pc s"
  by (auto simp: pop_def split: list.splits)

lemma c_call_frame_pc:
  "Setup_for_c_call s = Some s' \<Longrightarrow> pc s' = pc s" "Restore_after_c_call s = Some s' \<Longrightarrow> pc s' = pc s"
  by (auto simp: Setup_for_c_call_def Restore_after_c_call_def save_sp_def load_sp_def bind_Some_iff dest!: sp_add_pc)

lemmas pc_dests = sp_add_pc operand_pc pop_pc c_call_frame_pc

lemma advances_stack_instructions:
  "advances (pc s) (Instruct_ACCn n hk s)" "advances (pc s) (Instruct_PUSH hk s)" "advances (pc s) (Instruct_PUSHACCn n hk s)"
  "advances (pc s + 1) (Instruct_ACC hk s)" "advances (pc s + 1) (Instruct_PUSHACC hk s)" "advances (pc s + 1) (Instruct_POP hk s)"
  "advances (pc s + 1) (Instruct_ASSIGN hk s)" "advances (pc s) (Instruct_ENVACCn n hk s)"
  "advances (pc s) (Instruct_PUSHENVACCn n hk s)" "advances (pc s + 1) (Instruct_ENVACC hk s)"
  "advances (pc s + 1) (Instruct_PUSHENVACC hk s)" "advances (pc s + 1) (Instruct_PUSH_RETADDR hk s)"
  "advances (pc s) (Instruct_RESTART hk s)" "advances (pc s) (Instruct_OFFSETCLOSUREn k hk s)"
  "advances (pc s + 1) (Instruct_OFFSETCLOSURE hk s)" "advances (pc s) (Instruct_OFFSETCLOSURE0 hk s)"
  "advances (pc s + 1) (Instruct_PUSHOFFSETCLOSURE hk s)" "advances (pc s) (Instruct_PUSHOFFSETCLOSUREn k hk s)"
  "advances (pc s) (Instruct_PUSHOFFSETCLOSURE0 hk s)"
  unfolding Instruct_ACCn_def Instruct_PUSH_def Instruct_PUSHACCn_def Instruct_ACC_def
    Instruct_PUSHACC_def Instruct_POP_def Instruct_ASSIGN_def Instruct_ENVACCn_def Instruct_PUSHENVACCn_def
    Instruct_ENVACC_def Instruct_PUSHENVACC_def Instruct_PUSH_RETADDR_def Instruct_RESTART_def
    Instruct_OFFSETCLOSUREn_def Instruct_OFFSETCLOSURE_def Instruct_OFFSETCLOSURE0_def
    Instruct_PUSHOFFSETCLOSURE_def Instruct_PUSHOFFSETCLOSUREn_def Instruct_PUSHOFFSETCLOSURE0_def Let_def
  by (intro advances_intros; auto dest!: pc_dests)+

lemma advances_CLOSURE: "calm hk \<Longrightarrow> advances (pc s + 2) (Instruct_CLOSURE hk s)"
  unfolding Instruct_CLOSURE_def Let_def
  by (intro advances_intros advances_Alloc_small advances_caml_alloc_shr; auto dest!: pc_dests)

lemma advances_heap_instructions:
  "advances (pc s + 1) (Instruct_GETGLOBAL hk s)" "advances (pc s + 1) (Instruct_PUSHGETGLOBAL hk s)"
  "advances (pc s + 2) (Instruct_GETGLOBALFIELD hk s)" "advances (pc s + 2) (Instruct_PUSHGETGLOBALFIELD hk s)"
  "advances (pc s + 1) (Instruct_SETGLOBAL hk s)"
  "advances (pc s) (Instruct_ATOM0 hk s)" "advances (pc s) (Instruct_PUSHATOM0 hk s)" "advances (pc s + 1) (Instruct_ATOM hk s)"
  "advances (pc s + 1) (Instruct_PUSHATOM hk s)" "advances (pc s) (Instruct_GETFIELDn i hk s)"
  "advances (pc s + 1) (Instruct_GETFIELD hk s)" "advances (pc s) (Instruct_SETFIELDn i hk s)"
  "advances (pc s + 1) (Instruct_SETFIELD hk s)" "advances (pc s + 1) (Instruct_SETFLOATFIELD hk s)"
  "advances (pc s) (Instruct_VECTLENGTH hk s)" "advances (pc s) (Instruct_GETVECTITEM hk s)"
  "advances (pc s) (Instruct_SETVECTITEM hk s)" "advances (pc s) (Instruct_GETBYTESCHAR hk s)"
  "advances (pc s) (Instruct_SETBYTESCHAR hk s)"
  unfolding Instruct_GETGLOBAL_def Instruct_PUSHGETGLOBAL_def Instruct_GETGLOBALFIELD_def
    Instruct_PUSHGETGLOBALFIELD_def Instruct_SETGLOBAL_def Instruct_ATOM0_def Instruct_PUSHATOM0_def Instruct_ATOM_def
    Instruct_PUSHATOM_def Instruct_GETFIELDn_def Instruct_GETFIELD_def Instruct_SETFIELDn_def Instruct_SETFIELD_def
    Instruct_SETFLOATFIELD_def Instruct_VECTLENGTH_def Instruct_GETVECTITEM_def Instruct_SETVECTITEM_def
    Instruct_GETBYTESCHAR_def Instruct_SETBYTESCHAR_def Let_def
  by (intro advances_intros; auto dest!: pc_dests)+

lemma advances_blocks:
  assumes "calm hk"
  shows "advances (pc s + 2) (Instruct_MAKEBLOCK hk s)" "advances (pc s + 1) (Instruct_MAKEBLOCK1 hk s)"
    "advances (pc s + 1) (Instruct_MAKEBLOCK2 hk s)" "advances (pc s + 1) (Instruct_MAKEBLOCK3 hk s)"
    "advances (pc s + 1) (Instruct_MAKEFLOATBLOCK hk s)" "advances (pc s + 1) (Instruct_GETFLOATFIELD hk s)"
  unfolding Instruct_MAKEBLOCK_def Instruct_MAKEBLOCK1_def Instruct_MAKEBLOCK2_def Instruct_MAKEBLOCK3_def
    Instruct_MAKEFLOATBLOCK_def Instruct_GETFLOATFIELD_def Let_def
  by (intro advances_intros advances_Alloc_small [OF assms] advances_caml_alloc_shr [OF assms]; auto dest!: pc_dests)+

lemma advances_call_primitive:
  assumes "calm hk" "p = pc s + 1"
  shows "advances p (call_primitive hk args n s)"
  unfolding call_primitive_def
proof (intro advances_bind)
  fix k u
  show "advances p (c_call (primitive hk (nat k) args (rt s)) s (\<lambda>v s. do {
       s \<leftarrow> Restore_after_c_call (s\<lparr>accu := v\<rparr>);
       s \<leftarrow> sp_add n s;
       Some (Next (s\<lparr>pc := pc s + 1\<rparr>)) }))"
    unfolding c_call_def
  proof (intro advances_bind)
    fix res assume "primitive hk (nat k) args (rt s) = Some res"
    with assms(1) obtain v r where "res = Returned v r" unfolding calm_def by blast
    then show "advances p (case res of Returned v r \<Rightarrow> do {
         s \<leftarrow> Restore_after_c_call (put_rt s r\<lparr>accu := v\<rparr>);
         s \<leftarrow> sp_add n s;
         Some (Next (s\<lparr>pc := pc s + 1\<rparr>)) }
       | Raised e r \<Rightarrow> longjmp e (put_rt s r) | Aborted msg \<Rightarrow> Some (Fatal msg))"
      using assms(2) by (auto intro!: advances_intros dest!: pc_dests)
  qed
qed

lemma advances_control_instructions:
  assumes "calm hk"
  shows "advances (pc s) (Instruct_BOOLNOT hk s)" "advances (pc s + 1) (Instruct_PUSHTRAP hk s)"
    "advances (pc s) (Instruct_POPTRAP hk s)" "advances (pc s) (Instruct_CHECK_SIGNALS hk s)"
  using assms unfolding Instruct_BOOLNOT_def Instruct_PUSHTRAP_def Instruct_POPTRAP_def Instruct_CHECK_SIGNALS_def Let_def
  by ((intro advances_intros)?; auto simp: calm_def dest!: pc_dests)+

lemma advances_c_calls:
  assumes "calm hk"
  shows "advances (pc s + 1) (Instruct_C_CALL1 hk s)" "advances (pc s + 1) (Instruct_C_CALL2 hk s)"
    "advances (pc s + 1) (Instruct_C_CALL3 hk s)" "advances (pc s + 1) (Instruct_C_CALL4 hk s)"
    "advances (pc s + 1) (Instruct_C_CALL5 hk s)" "advances (pc s + 2) (Instruct_C_CALLN hk s)"
  unfolding Instruct_C_CALL1_def Instruct_C_CALL2_def Instruct_C_CALL3_def Instruct_C_CALL4_def Instruct_C_CALL5_def
    Instruct_C_CALLN_def
  by (intro advances_bind advances_case_prod advances_call_primitive [OF assms]; auto dest!: pc_dests)+

lemma advances_arith_instructions:
  "advances (pc s) (Instruct_CONSTn n hk s)" "advances (pc s) (Instruct_PUSHCONSTn n hk s)"
  "advances (pc s + 1) (Instruct_CONSTINT hk s)" "advances (pc s + 1) (Instruct_PUSHCONSTINT hk s)"
  "advances (pc s) (Instruct_NEGINT hk s)" "advances (pc s) (int_op f hk s)" "advances (pc s) (Integer_equality g hk s)"
  "advances (pc s + 1) (Instruct_OFFSETINT hk s)" "advances (pc s + 1) (Instruct_OFFSETREF hk s)"
  "advances (pc s) (Instruct_ISINT hk s)" "advances (pc s) (Instruct_GETMETHOD hk s)"
  "advances (pc s + 2) (Instruct_GETPUBMET hk s)" "advances (pc s) (Instruct_GETDYNMET hk s)"
  unfolding Instruct_CONSTn_def Instruct_PUSHCONSTn_def Instruct_CONSTINT_def Instruct_PUSHCONSTINT_def Instruct_NEGINT_def
    int_op_def Integer_equality_def Instruct_OFFSETINT_def Instruct_OFFSETREF_def Instruct_ISINT_def Instruct_GETMETHOD_def
    Instruct_GETPUBMET_def Instruct_GETDYNMET_def Let_def
  by ((intro advances_intros)?; auto dest!: pc_dests)+

lemmas advances_instructions = advances_stack_instructions advances_CLOSURE advances_heap_instructions advances_blocks
  advances_control_instructions advances_c_calls advances_arith_instructions

lemmas int_op_instructions = Instruct_ADDINT_def Instruct_SUBINT_def Instruct_MULINT_def Instruct_ANDINT_def
  Instruct_ORINT_def Instruct_XORINT_def Instruct_LSLINT_def Instruct_LSRINT_def Instruct_ASRINT_def
  Instruct_EQ_def Instruct_NEQ_def Instruct_LTINT_def Instruct_LEINT_def Instruct_GTINT_def Instruct_GEINT_def
  Instruct_ULTINT_def Instruct_UGEINT_def Integer_comparison_def

text \<open>The entries of the switch from opcode \<open>i\<close> on, next to their operand counts.\<close>

fun entries_advance :: "hooks \<Rightarrow> nat \<Rightarrow> nat list \<Rightarrow> (string \<times> switch_case) list \<Rightarrow> bool" where
  "entries_advance hk i (n # ns) (c # cs) \<longleftrightarrow>
     (i \<in> set jump_opcodes \<or> (\<forall>f s. snd c = Handler f \<longrightarrow> advances (pc s + int n) (f hk s))) \<and>
     entries_advance hk (i + 1) ns cs"
| "entries_advance hk i _ _ \<longleftrightarrow> True"

lemma entries_advance_nth:
  assumes "entries_advance hk i ns cs" "k < length ns" "k < length cs" "i + k \<notin> set jump_opcodes" "snd (cs ! k) = Handler f"
  shows "advances (pc s + int (ns ! k)) (f hk s)"
  using assms
proof (induction hk i ns cs arbitrary: k rule: entries_advance.induct)
  case (1 hk i n ns c cs)
  then show ?case by (cases k) auto
qed simp_all

lemma switch_advances:
  assumes "calm hk"
  shows "entries_advance hk 0 caml_init_opcode_nargs switch_table"
  unfolding opcode_nargs_table switch_table_def
  using assms by (simp add: jump_opcodes_eq advances_instructions int_op_instructions)

lemma fall_through_counts:
  assumes "calm hk" "i < length switch_table" "i \<notin> set jump_opcodes" "snd (switch_table ! i) = Handler f"
    and "f hk s = Some (Next s')"
  shows "pc s' = pc s + int (caml_init_opcode_nargs ! i)"
proof -
  have "length switch_table = length caml_init_opcode_nargs" by (simp add: opcode_nargs_table switch_table_def)
  then have "advances (pc s + int (caml_init_opcode_nargs ! i)) (f hk s)"
    using entries_advance_nth [OF switch_advances [OF assms(1)], of i f s] assms by simp
  with assms(5) show ?thesis by (simp add: advances_def)
qed

section \<open>Preparing a whole code fragment\<close>

text \<open>The positions at which instructions start, from \<open>p\<close> on.\<close>

function instr_starts :: "u32 list \<Rightarrow> nat \<Rightarrow> nat list" where
  "instr_starts prog p =
     (if p < length prog then
        p # (case thread_skip prog p (thread_opcode (prog ! p)) of None \<Rightarrow> [] | Some k \<Rightarrow> instr_starts prog (p + 1 + k))
      else [])"
  by pat_completeness auto
termination
  by (relation "measure (\<lambda>(prog, p). length prog - p)") auto

declare instr_starts.simps [simp del]

lemma instr_starts_ge: "q \<in> set (instr_starts prog p) \<Longrightarrow> p \<le> q \<and> q < length prog"
proof (induction prog p rule: instr_starts.induct)
  case (1 prog p)
  from 1(2) show ?case
    using 1(1) by (subst (asm) instr_starts.simps) (auto split: if_splits option.splits; metis Suc_leD le_add1 le_trans add_leD1)
qed

lemma thread_skip_update [simp]: "q \<le> p \<Longrightarrow> thread_skip (prog[q := w]) p instr = thread_skip prog p instr"
  by (simp add: thread_skip_def nth_opt_def)

lemma instr_starts_update: "q < p \<Longrightarrow> instr_starts (prog[q := w]) p = instr_starts prog p"
proof (induction prog p rule: instr_starts.induct)
  case (1 prog p)
  then show ?case
    by (subst (1 2) instr_starts.simps) (auto split: option.splits)
qed

lemma thread_loop_spec:
  "thread_loop tbl prog p = Some (Done prog') \<Longrightarrow>
   prog' = map (\<lambda>q. if q \<in> set (instr_starts prog p) then tbl (thread_opcode (prog ! q)) else prog ! q) [0..<length prog]"
proof (induction tbl prog p rule: thread_loop.induct)
  case (1 tbl prog p)
  show ?case
  proof (cases "p < length prog")
    case False
    with 1(2) show ?thesis
      by (auto simp: thread_loop.simps [of tbl prog p] instr_starts.simps [of prog p] map_nth split: if_splits)
  next
    case True
    let ?i = "thread_opcode (prog ! p)"
    let ?new = "prog[p := tbl ?i]"
    obtain k where k: "thread_skip prog p ?i = Some k" and rest: "thread_loop tbl ?new (p + 1 + k) = Some (Done prog')"
      using 1(2) True by (auto simp: thread_loop.simps [of tbl prog p] Let_def split: option.splits)
    have starts: "instr_starts prog p = p # instr_starts prog (p + 1 + k)"
      using True k by (simp add: instr_starts.simps [of prog p])
    have "prog' = map (\<lambda>q. if q \<in> set (instr_starts ?new (p + 1 + k)) then tbl (thread_opcode (?new ! q)) else ?new ! q)
        [0..<length ?new]"
      using 1(1) [OF True refl refl _ rest] k by simp
    moreover have "?new ! q = prog ! q" if "q \<in> set (instr_starts prog (p + 1 + k))" for q
      using instr_starts_ge [OF that] by (intro nth_list_update_neq) simp
    moreover have "p \<notin> set (instr_starts prog (p + 1 + k))" using instr_starts_ge by fastforce
    ultimately show ?thesis
      by (auto simp: starts instr_starts_update nth_list_update)
  qed
qed

text \<open>\<open>caml_thread_code\<close> ends on every input, and when it accepts a code fragment it replaces exactly the
  words at which instructions start, each by the handler of its opcode; operands are kept, and so is the size.
\<close>

theorem thread_code_rewrites:
  assumes "caml_thread_code tbl prog = Some (Done prog')"
  shows "length prog' = length prog \<and> (\<forall>q < length prog.
    prog' ! q = (if q \<in> set (instr_starts prog 0) then tbl (thread_opcode (prog ! q)) else prog ! q))"
  using thread_loop_spec [of tbl prog 0 prog'] assms by (simp add: caml_thread_code_def)

text \<open>CONSTINT 2; SWITCH with a constant case and a block case; STOP.\<close>

theorem thread_code_rewrites_witness:
  "caml_thread_code (\<lambda>i. of_nat (1000 + i)) [103, 2, 87, 0x10001, 3, 4, 143] = Some (Done [1103, 2, 1087, 0x10001, 3, 4, 1143]) \<and>
   instr_starts [103, 2, 87, 0x10001, 3, 4, 143] 0 = [0, 2, 6] \<and> [1103, 2, 1087, 0x10001, 3, 4, 1143] ! 3 = (0x10001 :: u32)"
proof -
  let ?prog = "[103, 2, 87, 0x10001, 3, 4, 143] :: u32 list"
  have starts: "instr_starts ?prog 0 = [0, 2, 6]" by code_simp
  moreover have run: "caml_thread_code (\<lambda>i. of_nat (1000 + i)) ?prog = Some (Done [1103, 2, 1087, 0x10001, 3, 4, 1143])"
    by code_simp
  ultimately show ?thesis
    using thread_code_rewrites [OF run] by (auto dest: spec [of _ 3])
qed

end
