(* ===== verification/Operand_Counts.thy ===== *)
theory Operand_Counts
  imports Fix_Code Apply_Props Machine_Props
begin

text \<open>
  The operand counts of \<open>fix_code.c\<close> against the interpreter, for every opcode: instructions that fall through, branches,
  instructions that leave the sequence, and the two of variable length.
\<close>

section \<open>What an operand count says of an instruction\<close>


definition needs :: "nat \<Rightarrow> handler \<Rightarrow> bool" where
  "needs n f \<longleftrightarrow> (\<forall>hk s. 0 < n \<and> pc_at s (int n - 1) = None \<longrightarrow> f hk s = None) \<and>
     (\<exists>hk s. 0 \<le> pc s \<and> pc_at s (int n) = None \<and> f hk s \<noteq> None)"

lemma pc_at_None_mono: "0 \<le> pc s \<Longrightarrow> 0 \<le> i \<Longrightarrow> pc_at s i = None \<Longrightarrow> i \<le> j \<Longrightarrow> pc_at s j = None"
  by (auto simp: pc_at_def int_nth_def nth_opt_def split: if_splits)

lemma needs_unique:
  assumes "needs n f" and "needs m f"
  shows "n = m"
proof -
  have "\<not> n < m" if nf: "needs n f" and mf: "needs m f" for n m
  proof
    assume lt: "n < m"
    obtain hk s where s: "0 \<le> pc s" "pc_at s (int n) = None" "f hk s \<noteq> None" using nf unfolding needs_def by blast
    have "pc_at s (int m - 1) = None" by (rule pc_at_None_mono [OF s(1) _ s(2)]) (use lt in auto)
    with mf s(3) lt show False by (auto simp: needs_def)
  qed
  from this [OF assms] this [OF assms(2,1)] show ?thesis by linarith
qed

section \<open>Branches\<close>




section \<open>Instructions that leave the sequence\<close>

text \<open>A closure at block 0 and the predefined exceptions at block 1.\<close>

definition call_state :: "u32 list \<Rightarrow> mlvalue list \<Rightarrow> vm" where
  "call_state prog vs = sample_vm\<lparr>heap := [\<lparr>block_tag = Closure_tag, block_fields = [Code 50, Word (Make_closinfo 0 2)]\<rparr>,
     \<lparr>block_tag = 0, block_fields = replicate 14 (Val_int 0)\<rparr>], caml_global_data := Ptr 1 0, accu := Ptr 0 0, code := prog, sp := vs\<rparr>"

lemma call_state_code [simp]: "pc_at (call_state prog vs) i = map_option sint (int_nth prog i)" "pc (call_state prog vs) = 0"
  "code (call_state prog vs) = prog"
  by (simp_all add: call_state_def pc_at_def sample_vm_fields)



lemma Code_val_call_state [simp]: "Code_val (heap (call_state prog vs)) (Ptr 0 0) = Some 50" "accu (call_state prog vs) = Ptr 0 0"
  by (simp_all add: call_state_def Code_val_def Field_def int_nth_def)


lemma operand_None: "pc_at s 0 = None \<Longrightarrow> operand s = None"
  by (simp add: operand_def)










section \<open>Instructions of variable length\<close>






section \<open>Every opcode\<close>











end
