(* ===== verification/Lexing_Props.thy ===== *)
theory Lexing_Props
  imports Lexing
begin

text \<open>
  The automaton that the tables of a lexer encode, and what the engines do with it.
\<close>

section \<open>The automaton of the tables\<close>

text \<open>The state reached on a word of symbols, none when the automaton stops before its end.\<close>

fun lex_path :: "lexing_table \<Rightarrow> int \<Rightarrow> int list \<Rightarrow> int option" where
  "lex_path tbl q [] = Some q"
| "lex_path tbl q (c # cs) = do {
     base \<leftarrow> Short (lex_base tbl) q;
     if base < 0 then None
     else do {
       q' \<leftarrow> lex_next tbl base c q;
       if q' < 0 then None else lex_path tbl q' cs } }"

text \<open>The action of an accepting state.\<close>

definition lex_action :: "lexing_table \<Rightarrow> int \<Rightarrow> int option" where
  "lex_action tbl q = do {
     base \<leftarrow> Short (lex_base tbl) q;
     if base < 0 then Some (- base - 1)
     else do { b \<leftarrow> Short (lex_backtrk tbl) q; if 0 \<le> b then Some b else None } }"

text \<open>Tables of \<open>n\<close> states: every lookup of a state and a symbol is inside the tables.\<close>

definition lex_wf :: "lexing_table \<Rightarrow> int \<Rightarrow> bool" where
  "lex_wf tbl n \<longleftrightarrow> (\<forall>q. 0 \<le> q \<and> q < n \<longrightarrow> (\<exists>base. Short (lex_base tbl) q = Some base \<and>
     (0 \<le> base \<longrightarrow> (\<exists>b. Short (lex_backtrk tbl) q = Some b) \<and>
       (\<forall>c. 0 \<le> c \<and> c \<le> 256 \<longrightarrow> (\<exists>q'. lex_next tbl base c q = Some q' \<and> q' < n)))))"

definition lex_buf_ok :: "lexer_buffer \<Rightarrow> bool" where
  "lex_buf_ok lb \<longleftrightarrow> 0 \<le> lex_curr_pos lb \<and> lex_curr_pos lb \<le> lex_buffer_len lb \<and>
     lex_buffer_len lb \<le> int (length (lex_buffer lb))"

text \<open>The symbols ahead: the bytes of the buffer, and the end of input when it is known.\<close>

definition lex_input :: "lexer_buffer \<Rightarrow> int list" where
  "lex_input lb = map uint (drop (nat (lex_curr_pos lb)) (take (nat (lex_buffer_len lb)) (lex_buffer lb)))
     @ (if lex_eof_reached lb then [256] else [])"

text \<open>\<open>accepts tbl q cs k a\<close>: the first \<open>k\<close> symbols are a token with action \<open>a\<close>.\<close>

definition accepts :: "lexing_table \<Rightarrow> int \<Rightarrow> int list \<Rightarrow> nat \<Rightarrow> int \<Rightarrow> bool" where
  "accepts tbl q cs k a \<longleftrightarrow> k \<le> length cs \<and> Option.bind (lex_path tbl q (take k cs)) (lex_action tbl) = Some a"

definition longest :: "lexing_table \<Rightarrow> int \<Rightarrow> int list \<Rightarrow> nat \<Rightarrow> int \<Rightarrow> bool" where
  "longest tbl q cs k a \<longleftrightarrow> accepts tbl q cs k a \<and> (\<forall>j b. accepts tbl q cs j b \<longrightarrow> j \<le> k)"

lemma lex_input_simps [simp]:
  "lex_input (lb\<lparr>lex_last_pos := p\<rparr>) = lex_input lb" "lex_input (lb\<lparr>lex_last_action := a\<rparr>) = lex_input lb"
  "lex_input (lb\<lparr>lex_start_pos := p\<rparr>) = lex_input lb" "lex_input (lb\<lparr>lex_mem := m\<rparr>) = lex_input lb"
  "lex_input (lex_mark b lb) = lex_input lb"
  by (simp_all add: lex_input_def lex_mark_def)

lemma lex_mark_simps [simp]:
  "lex_curr_pos (lex_mark b lb) = lex_curr_pos lb" "lex_buffer_len (lex_mark b lb) = lex_buffer_len lb"
  "lex_buf_ok (lex_mark b lb) = lex_buf_ok lb" "lex_needs_refill (lex_mark b lb) = lex_needs_refill lb"
  "lex_eof_reached (lex_mark b lb) = lex_eof_reached lb" "lex_buffer (lex_mark b lb) = lex_buffer lb"
  by (simp_all add: lex_mark_def lex_buf_ok_def lex_needs_refill_def)

lemma accepts_0 [simp]: "accepts tbl q cs 0 a \<longleftrightarrow> lex_action tbl q = Some a"
  by (simp add: accepts_def)

lemma accepts_Suc:
  "accepts tbl q (c # cs) (Suc k) a \<longleftrightarrow> (\<exists>base q'. Short (lex_base tbl) q = Some base \<and> 0 \<le> base \<and>
     lex_next tbl base c q = Some q' \<and> 0 \<le> q' \<and> accepts tbl q' cs k a)"
proof (cases "Short (lex_base tbl) q")
  case (Some base)
  then show ?thesis
    by (cases "lex_next tbl base c q") (auto simp: accepts_def bind_Some_iff)
qed (simp add: accepts_def)

lemma accepts_Nil: "accepts tbl q [] k a \<Longrightarrow> k = 0"
  by (simp add: accepts_def)

text \<open>Reading takes the first symbol ahead.\<close>

lemma lex_input_Nil: "lex_buf_ok lb \<Longrightarrow> lex_needs_refill lb \<longleftrightarrow> lex_input lb = []"
  by (auto simp: lex_buf_ok_def lex_needs_refill_def lex_input_def)

lemma lex_read_input:
  assumes "lex_buf_ok lb" "lex_input lb = c # cs"
  shows "\<exists>lb'. lex_read lb = Some (c, lb') \<and> lex_input (lex_consume_eof c lb') = cs \<and> 0 \<le> c \<and> c \<le> 256 \<and>
    lex_buf_ok (lex_consume_eof c lb') \<and> lex_buffer_len (lex_consume_eof c lb') = lex_buffer_len lb \<and>
    lex_curr_pos (lex_consume_eof c lb') = min (lex_curr_pos lb + 1) (lex_buffer_len lb) \<and>
    lex_last_pos lb' = lex_last_pos lb \<and> lex_last_action lb' = lex_last_action lb"
proof (cases "lex_buffer_len lb \<le> lex_curr_pos lb")
  case True
  with assms have "c = 256" "cs = []" by (auto simp: lex_input_def lex_buf_ok_def split: if_splits)
  with True assms show ?thesis
    by (auto simp: lex_read_def lex_consume_eof_def lex_buf_ok_def lex_input_def)
next
  case False
  let ?i = "nat (lex_curr_pos lb)"
  have i: "?i < length (take (nat (lex_buffer_len lb)) (lex_buffer lb))" "?i < length (lex_buffer lb)"
    using False assms(1) by (auto simp: lex_buf_ok_def)
  then have "c = uint (lex_buffer lb ! ?i)" and cs: "cs = map uint (drop (Suc ?i) (take (nat (lex_buffer_len lb)) (lex_buffer lb)))
      @ (if lex_eof_reached lb then [256] else [])"
    using assms(2) by (auto simp: lex_input_def Cons_nth_drop_Suc [symmetric])
  moreover have "uint (lex_buffer lb ! ?i) < 256" using uint_bounded [of "lex_buffer lb ! ?i"] by simp
  moreover have "nat (lex_curr_pos lb + 1) = Suc ?i" using assms(1) by (simp add: lex_buf_ok_def nat_add_distrib)
  ultimately show ?thesis using False assms(1) i
    by (auto simp: lex_read_def lex_consume_eof_def lex_buf_ok_def lex_input_def int_nth_def nth_opt_def)
qed

section \<open>The longest match\<close>

text \<open>
  What the loop returns from state \<open>q\<close> with the symbols \<open>cs\<close> ahead: the longest token among their
  prefixes; the token remembered before, or failure, when there is none; or a request for more input
  when the automaton can go on after all of them.
\<close>

definition lex_outcome :: "lexing_table \<Rightarrow> int \<Rightarrow> int list \<Rightarrow> lexer_buffer \<Rightarrow> lex_result \<Rightarrow> lexer_buffer \<Rightarrow> bool" where
  "lex_outcome tbl q cs lb r lb' \<longleftrightarrow>
     (\<exists>k a. longest tbl q cs k a \<and> r = Lex_return a \<and>
        lex_curr_pos lb' = min (lex_curr_pos lb + int k) (lex_buffer_len lb)) \<or>
     ((\<forall>k a. \<not> accepts tbl q cs k a) \<and> lex_curr_pos lb' = lex_last_pos lb \<and>
        r = (if lex_last_action lb = - 1 then Lex_failure ''lexing: empty token'' else Lex_return (lex_last_action lb))) \<or>
     (\<exists>q'. lex_path tbl q cs = Some q' \<and> (\<exists>base \<ge> 0. Short (lex_base tbl) q' = Some base) \<and> r = Lex_return (- q' - 1))"

lemma lex_outcome_stuck:
  assumes act: "lex_action tbl q = (if 0 \<le> b then Some b else None)"
    and none: "\<And>k a. \<not> accepts tbl q cs (Suc k) a"
    and pos: "lex_buf_ok lb"
    and r: "lex_curr_pos lb' = lex_last_pos (lex_mark b lb)"
      "r = (if lex_last_action (lex_mark b lb) = - 1 then Lex_failure ''lexing: empty token''
         else Lex_return (lex_last_action (lex_mark b lb)))"
  shows "lex_outcome tbl q cs lb r lb'"
proof (cases "0 \<le> b")
  case True
  have "longest tbl q cs 0 b" using act True none unfolding longest_def
    by (metis accepts_0 gr0_conv_Suc le0 not_gr_zero)
  moreover have "r = Lex_return b" "lex_curr_pos lb' = lex_curr_pos lb"
    using r True by (simp_all add: lex_mark_def)
  ultimately show ?thesis using pos by (fastforce simp: lex_outcome_def lex_buf_ok_def)
next
  case False
  have "\<not> accepts tbl q cs k a" for k a using act False none by (cases k) auto
  then show ?thesis using r False by (auto simp: lex_outcome_def lex_mark_def)
qed

lemma longest_Suc:
  assumes "longest tbl q' cs k a" "Short (lex_base tbl) q = Some base" "0 \<le> base" "lex_next tbl base c q = Some q'" "0 \<le> q'"
  shows "longest tbl q (c # cs) (Suc k) a"
  unfolding longest_def
proof (intro conjI allI impI)
  show "accepts tbl q (c # cs) (Suc k) a" using assms by (auto simp: accepts_Suc longest_def)
  fix j b assume "accepts tbl q (c # cs) j b"
  then show "j \<le> Suc k" using assms by (cases j) (auto simp: accepts_Suc longest_def)
qed

lemma lex_loop_outcome:
  assumes "lex_wf tbl n" "0 \<le> q" "q < n" "lex_buf_ok lb" "lex_input lb = cs"
  shows "\<exists>r lb'. lex_loop tbl q lb = Some (r, lb') \<and> lex_outcome tbl q cs lb r lb'"
  using assms(2-)
proof (induction cs arbitrary: q lb)
  case (Nil q lb)
  obtain base where base: "Short (lex_base tbl) q = Some base" "0 \<le> base \<longrightarrow> (\<exists>b. Short (lex_backtrk tbl) q = Some b)"
    using assms(1) Nil.prems(1,2) by (auto simp: lex_wf_def)
  show ?case
  proof (cases "base < 0")
    case True
    then have "longest tbl q [] 0 (- base - 1)" using base
      by (auto simp: longest_def lex_action_def dest: accepts_Nil)
    with True base Nil.prems(3) show ?thesis
      by (subst lex_loop.simps) (fastforce simp: lex_outcome_def lex_buf_ok_def)
  next
    case False
    with base obtain b where "Short (lex_backtrk tbl) q = Some b" by auto
    with False base Nil.prems lex_input_Nil [OF Nil.prems(3)] show ?thesis
      by (subst lex_loop.simps) (simp add: lex_outcome_def)
  qed
next
  case (Cons c cs q lb)
  obtain base where base: "Short (lex_base tbl) q = Some base" "0 \<le> base \<longrightarrow> (\<exists>b. Short (lex_backtrk tbl) q = Some b) \<and>
       (\<forall>c. 0 \<le> c \<and> c \<le> 256 \<longrightarrow> (\<exists>q'. lex_next tbl base c q = Some q' \<and> q' < n))"
    using assms(1) Cons.prems(1,2) by (auto simp: lex_wf_def)
  show ?case
  proof (cases "base < 0")
    case True
    then have "\<not> accepts tbl q (c # cs) (Suc k) a" for k a using base by (auto simp: accepts_Suc)
    then have "longest tbl q (c # cs) 0 (- base - 1)" using True base
      by (auto simp: longest_def lex_action_def) (metis gr0_conv_Suc not_gr_zero)
    with True base Cons.prems(3) show ?thesis
      by (subst lex_loop.simps) (fastforce simp: lex_outcome_def lex_buf_ok_def)
  next
    case False
    with base obtain b where b: "Short (lex_backtrk tbl) q = Some b" by auto
    let ?lb = "lex_mark b lb"
    from lex_read_input [of ?lb c cs] Cons.prems(3,4) obtain lb2 where
      rd: "lex_read ?lb = Some (c, lb2)" "lex_input (lex_consume_eof c lb2) = cs" "0 \<le> c" "c \<le> 256"
      "lex_buf_ok (lex_consume_eof c lb2)" "lex_buffer_len (lex_consume_eof c lb2) = lex_buffer_len lb"
      "lex_curr_pos (lex_consume_eof c lb2) = min (lex_curr_pos lb + 1) (lex_buffer_len lb)"
      "lex_last_pos lb2 = lex_last_pos ?lb" "lex_last_action lb2 = lex_last_action ?lb" by auto
    from base False rd(3,4) obtain q' where q': "lex_next tbl base c q = Some q'" "q' < n" by auto
    have act: "lex_action tbl q = (if 0 \<le> b then Some b else None)" using base False b by (simp add: lex_action_def)
    have nr: "\<not> lex_needs_refill lb" using lex_input_Nil [OF Cons.prems(3)] Cons.prems(4) by simp
    have loop: "lex_loop tbl q lb = (if q' < 0 then Some (lex_giveup lb2) else lex_loop tbl q' (lex_consume_eof c lb2))"
      using base(1) False b nr rd(1) q'(1) by (subst lex_loop.simps) simp
    show ?thesis
    proof (cases "q' < 0")
      case True
      have "\<not> accepts tbl q (c # cs) (Suc k) a" for k a using base(1) q' True by (auto simp: accepts_Suc)
      then have "lex_outcome tbl q (c # cs) lb (fst (lex_giveup lb2)) (snd (lex_giveup lb2))"
        using rd(8,9) by (intro lex_outcome_stuck [OF act _ Cons.prems(3)]) (simp_all add: lex_giveup_def Let_def)
      with True loop show ?thesis by (cases "lex_giveup lb2") auto
    next
      case nonneg: False
      from Cons.IH [of q' "lex_consume_eof c lb2"] nonneg q'(2) rd(2,5) obtain r lb' where
        run: "lex_loop tbl q' (lex_consume_eof c lb2) = Some (r, lb')" and out: "lex_outcome tbl q' cs (lex_consume_eof c lb2) r lb'"
        by auto
      have last: "lex_last_pos (lex_consume_eof c lb2) = lex_last_pos ?lb" "lex_last_action (lex_consume_eof c lb2) = lex_last_action ?lb"
        using rd(8,9) by (simp_all add: lex_consume_eof_def)
      have "lex_outcome tbl q (c # cs) lb r lb'"
        (is ?goal) using out unfolding lex_outcome_def [of tbl q']
      proof (elim disjE exE conjE)
        fix k a assume "longest tbl q' cs k a" "r = Lex_return a"
          "lex_curr_pos lb' = min (lex_curr_pos (lex_consume_eof c lb2) + int k) (lex_buffer_len (lex_consume_eof c lb2))"
        with longest_Suc [OF _ base(1) _ q'(1)] False nonneg rd(6,7)
        show ?goal unfolding lex_outcome_def
          by (intro disjI1 exI [of _ "Suc k"] exI [of _ a]) auto
      next
        assume no: "\<forall>k a. \<not> accepts tbl q' cs k a"
          and r: "lex_curr_pos lb' = lex_last_pos (lex_consume_eof c lb2)"
          "r = (if lex_last_action (lex_consume_eof c lb2) = - 1 then Lex_failure ''lexing: empty token''
             else Lex_return (lex_last_action (lex_consume_eof c lb2)))"
        have "\<not> accepts tbl q (c # cs) (Suc k) a" for k a using no base(1) q'(1) by (auto simp: accepts_Suc)
        then show ?goal using r last by (intro lex_outcome_stuck [OF act _ Cons.prems(3)]) simp_all
      next
        fix q2 base2 assume "lex_path tbl q' cs = Some q2" "Short (lex_base tbl) q2 = Some base2" "0 \<le> base2"
          "r = Lex_return (- q2 - 1)"
        with base(1) False q'(1) nonneg show ?goal unfolding lex_outcome_def by simp
      qed
      with loop nonneg run show ?thesis by auto
    qed
  qed
qed

text \<open>C15: on well-formed tables the lexer engine always returns, and delivers the longest token: the action of
  the longest prefix of the input that the automaton accepts, with the position after it; failure at
  the old position when no prefix is a token and the automaton is stuck; otherwise a request for more
  input that names the state reached.\<close>

theorem lex_longest_match:
  assumes "lex_wf tbl n" "0 \<le> start" "start < n" "lex_buf_ok lb"
  shows "\<exists>r lb'. caml_lex_engine tbl start lb = Some (r, lb') \<and>
    ((\<exists>k a. longest tbl start (lex_input lb) k a \<and> r = Lex_return a \<and>
        lex_curr_pos lb' = min (lex_curr_pos lb + int k) (lex_buffer_len lb)) \<or>
     ((\<forall>k a. \<not> accepts tbl start (lex_input lb) k a) \<and> r = Lex_failure ''lexing: empty token'' \<and>
        lex_curr_pos lb' = lex_curr_pos lb) \<or>
     (\<exists>q'. lex_path tbl start (lex_input lb) = Some q' \<and> (\<exists>base \<ge> 0. Short (lex_base tbl) q' = Some base) \<and>
        r = Lex_return (- q' - 1)))"
proof -
  let ?lb = "lb\<lparr>lex_start_pos := lex_curr_pos lb, lex_last_pos := lex_curr_pos lb, lex_last_action := - 1\<rparr>"
  have "lex_buf_ok ?lb" using assms(4) by (simp add: lex_buf_ok_def)
  from lex_loop_outcome [OF assms(1-3) this refl] assms(2) show ?thesis
    by (auto simp: caml_lex_engine_def lex_entry_def lex_outcome_def)
qed

section \<open>Refilling\<close>

text \<open>More bytes at the end of the buffer.\<close>

definition lex_extend :: "u8 list \<Rightarrow> bool \<Rightarrow> lexer_buffer \<Rightarrow> lexer_buffer" where
  "lex_extend bs eof lb = lb\<lparr>lex_buffer := take (nat (lex_buffer_len lb)) (lex_buffer lb) @ bs,
     lex_buffer_len := lex_buffer_len lb + int (length bs), lex_eof_reached := eof\<rparr>"

lemma lex_extend_mark: "lex_mark b (lex_extend bs eof lb) = lex_extend bs eof (lex_mark b lb)"
  by (simp add: lex_mark_def lex_extend_def)

lemma lex_extend_read:
  assumes "lex_buf_ok lb" "lex_curr_pos lb < lex_buffer_len lb" "lex_read lb = Some (c, lb')"
  shows "lex_read (lex_extend bs eof lb) = Some (c, lex_extend bs eof lb') \<and> c \<noteq> 256 \<and> lex_buf_ok lb' \<and>
    lex_eof_reached lb' = lex_eof_reached lb"
proof -
  let ?i = "nat (lex_curr_pos lb)"
  have i: "?i < length (lex_buffer lb)" "?i < nat (lex_buffer_len lb)" using assms(1,2) by (auto simp: lex_buf_ok_def)
  have c: "c = uint (lex_buffer lb ! ?i)" "lb' = lb\<lparr>lex_curr_pos := lex_curr_pos lb + 1\<rparr>"
    using assms i by (auto simp: lex_read_def lex_buf_ok_def bind_Some_iff int_nth_def split: if_splits)
  have "uint (lex_buffer lb ! ?i) < 256" using uint_bounded [of "lex_buffer lb ! ?i"] by simp
  moreover have "?i < min (length (lex_buffer lb)) (nat (lex_buffer_len lb)) + length bs"
    using i by (metis min_less_iff_conj trans_less_add1)
  ultimately show ?thesis using c i assms(1,2)
    by (simp add: lex_read_def lex_extend_def lex_buf_ok_def int_nth_def nth_opt_def nth_append)
qed

lemma lex_loop_mark:
  assumes "Short (lex_base tbl) q = Some base" "0 \<le> base" "Short (lex_backtrk tbl) q = Some b"
  shows "lex_loop tbl q (lex_mark b lb) = lex_loop tbl q lb"
proof -
  have "lex_mark b (lex_mark b lb) = lex_mark b lb" by (simp add: lex_mark_def)
  with assms show ?thesis by (subst (1 2) lex_loop.simps) simp
qed

lemma lex_loop_refill:
  assumes "lex_loop tbl q lb = Some (Lex_return r, lb1)" "r < 0" "lex_buf_ok lb" "\<not> lex_eof_reached lb"
    "0 \<le> lex_last_action lb \<or> lex_last_action lb = - 1"
  shows "lex_loop tbl q (lex_extend bs eof lb) = lex_loop tbl (- r - 1) (lex_extend bs eof lb1)"
proof -
  have "lex_loop tbl q (lex_extend bs eof lb) = lex_loop tbl (- r - 1) (lex_extend bs eof lb1)"
    if "lex_loop tbl q lb = Some res" "res = (Lex_return r, lb1)" "r < 0" "lex_buf_ok lb" "\<not> lex_eof_reached lb"
      "0 \<le> lex_last_action lb \<or> lex_last_action lb = - 1" for tbl q lb res
    using that
  proof (induction tbl q lb res rule: lex_loop.raw_induct [rotated, consumes 1])
    case (1 lex_loop' tbl q lb res)
    note prems = 1(3-)
    obtain base where base: "Short (lex_base tbl) q = Some base" "0 \<le> base"
      using 1(2) prems(1,2) by (auto simp: bind_Some_iff split: if_splits)
    obtain b where b: "Short (lex_backtrk tbl) q = Some b" using 1(2) base by (auto simp: bind_Some_iff)
    show ?case
    proof (cases "lex_needs_refill lb")
      case True
      then have "r = - q - 1" "lb1 = lex_mark b lb" using 1(2) prems(1) base b by auto
      moreover have "lex_loop tbl q (lex_extend bs eof (lex_mark b lb)) = lex_loop tbl q (lex_extend bs eof lb)"
        using lex_loop_mark [OF base b] by (simp add: lex_extend_mark [symmetric])
      ultimately show ?thesis by simp
    next
      case False
      then have lt: "lex_curr_pos lb < lex_buffer_len lb" using prems(4) by (auto simp: lex_needs_refill_def)
      obtain c lb2 q' where rd: "lex_read (lex_mark b lb) = Some (c, lb2)" "lex_next tbl base c q = Some q'"
        and rest: "(if q' < 0 then Some (lex_giveup lb2) else lex_loop' tbl q' (lex_consume_eof c lb2)) = Some res"
        using 1(2) base b False by (auto simp: bind_Some_iff)
      have ext: "lex_read (lex_extend bs eof (lex_mark b lb)) = Some (c, lex_extend bs eof lb2)" "c \<noteq> 256" "lex_buf_ok lb2"
        "\<not> lex_eof_reached lb2"
        using lex_extend_read [OF _ _ rd(1)] prems(3,4) lt by auto
      have last: "0 \<le> lex_last_action lb2 \<or> lex_last_action lb2 = - 1"
        using rd(1) prems(5) by (auto simp: lex_read_def lex_mark_def bind_Some_iff split: if_splits)
      have "\<not> q' < 0"
      proof
        assume "q' < 0"
        with rest prems(1,2) last show False by (auto simp: lex_giveup_def Let_def split: if_splits)
      qed
      with rest ext(2) have "lex_loop' tbl q' lb2 = Some res" by (simp add: lex_consume_eof_def)
      from 1(1) [OF this prems(1,2) ext(3,4) last]
      have IH: "lex_loop tbl q' (lex_extend bs eof lb2) = lex_loop tbl (- r - 1) (lex_extend bs eof lb1)" .
      have "\<not> lex_needs_refill (lex_extend bs eof (lex_mark b lb))" using lt by (simp add: lex_needs_refill_def lex_extend_def)
      then have "lex_loop tbl q (lex_extend bs eof lb) = lex_loop tbl q' (lex_extend bs eof lb2)"
        using base b rd(2) ext(1,2) \<open>\<not> q' < 0\<close>
        by (subst lex_loop.simps) (simp add: lex_extend_mark lex_consume_eof_def)
      with IH show ?thesis by simp
    qed
  qed
  with assms show ?thesis by blast
qed

text \<open>C30: a refill in the middle of a token changes nothing. When the engine asks for more input and is reentered
  with its own answer after bytes were added to the buffer, with the end of input now known or not, it
  ends as it would have ended on the longer buffer from the start.\<close>

theorem lex_refill_transparent:
  assumes "caml_lex_engine tbl start lb = Some (Lex_return r, lb1)" "r < 0" "0 \<le> start" "lex_buf_ok lb"
    "\<not> lex_eof_reached lb"
  shows "caml_lex_engine tbl r (lex_extend bs eof lb1) = caml_lex_engine tbl start (lex_extend bs eof lb)"
proof -
  let ?lb = "lb\<lparr>lex_start_pos := lex_curr_pos lb, lex_last_pos := lex_curr_pos lb, lex_last_action := - 1\<rparr>"
  have "lex_loop tbl start (lex_extend bs eof ?lb) = lex_loop tbl (- r - 1) (lex_extend bs eof lb1)"
    by (rule lex_loop_refill) (use assms in \<open>simp_all add: caml_lex_engine_def lex_entry_def lex_buf_ok_def\<close>)
  then show ?thesis using assms(2,3) by (cases lb) (simp add: caml_lex_engine_def lex_entry_def lex_extend_def)
qed

section \<open>The engine with memory\<close>

text \<open>Buffers that differ in the memory only.\<close>

definition same_scan :: "lexer_buffer \<Rightarrow> lexer_buffer \<Rightarrow> bool" where
  "same_scan lb lb' \<longleftrightarrow> lb'\<lparr>lex_mem := []\<rparr> = lb\<lparr>lex_mem := []\<rparr>"

lemma same_scanE:
  assumes "same_scan lb lb'" obtains m where "lb' = lb\<lparr>lex_mem := m\<rparr>"
  using assms by (cases lb; cases lb') (auto simp: same_scan_def)

lemma same_scan_simps [simp]: "same_scan lb lb" "same_scan (lb\<lparr>lex_mem := m\<rparr>) lb0 = same_scan lb lb0"
  by (simp_all add: same_scan_def)

lemma same_scan_mark: "same_scan lb lb0 \<Longrightarrow> same_scan (lex_mark b lb) (lex_mark b lb0)"
  by (erule same_scanE) (cases lb, simp add: lex_mark_def same_scan_def)

lemma same_scan_refill: "same_scan lb lb0 \<Longrightarrow> lex_needs_refill lb0 = lex_needs_refill lb"
  by (erule same_scanE) (simp add: lex_needs_refill_def)

lemma same_scan_read:
  "same_scan lb lb0 \<Longrightarrow> lex_read lb = Some (c, lb2) \<Longrightarrow> \<exists>lb3. lex_read lb0 = Some (c, lb3) \<and> same_scan lb2 lb3"
  by (erule same_scanE) (cases lb, auto simp: lex_read_def same_scan_def bind_Some_iff split: if_splits)

lemma same_scan_giveup:
  "same_scan lb lb0 \<Longrightarrow> fst (lex_giveup lb0) = fst (lex_giveup lb) \<and> same_scan (snd (lex_giveup lb)) (snd (lex_giveup lb0))"
  by (erule same_scanE) (cases lb, simp add: lex_giveup_def same_scan_def Let_def)

lemma same_scan_consume: "same_scan lb lb0 \<Longrightarrow> same_scan (lex_consume_eof c lb) (lex_consume_eof c lb0)"
  by (erule same_scanE) (cases lb, simp add: lex_consume_eof_def same_scan_def)

lemma lex_tag_scan: "lex_tag tbl p lb = Some lb' \<Longrightarrow> same_scan lb lb0 \<Longrightarrow> same_scan lb' lb0"
  by (auto simp: lex_tag_def bind_Some_iff)

lemma lex_moves_scan: "lex_moves tbl q c lb = Some lb' \<Longrightarrow> same_scan lb lb0 \<Longrightarrow> same_scan lb' lb0"
  by (auto simp: lex_moves_def bind_Some_iff split: if_splits)

lemma new_lex_loop_agrees:
  assumes "new_lex_loop tbl q lb = Some (r, lb')" "same_scan lb lb0"
  shows "\<exists>lb0'. lex_loop tbl q lb0 = Some (r, lb0') \<and> same_scan lb' lb0'"
proof -
  have "\<exists>lb0'. lex_loop tbl q lb0 = Some (fst res, lb0') \<and> same_scan (snd res) lb0'"
    if "new_lex_loop tbl q lb = Some res" "same_scan lb lb0" for tbl q lb res lb0
    using that
  proof (induction tbl q lb res arbitrary: lb0 rule: new_lex_loop.raw_induct [rotated, consumes 1])
    case (1 loop tbl q lb res)
    obtain base where base: "Short (lex_base tbl) q = Some base" using 1(2) by (auto simp: bind_Some_iff)
    show ?case
    proof (cases "base < 0")
      case True
      with 1(2) base 1(3) show ?thesis
        by (subst lex_loop.simps) (auto simp: bind_Some_iff dest: lex_tag_scan)
    next
      case False
      with 1(2) base obtain b lb1 where b: "Short (lex_backtrk tbl) q = Some b"
        and lb1: "(if 0 \<le> b then Option.bind (Short (lex_backtrk_code tbl) q) (\<lambda>pc_off. lex_tag tbl pc_off lb) else Some lb) = Some lb1"
        and rest: "(if lex_needs_refill (lex_mark b lb1) then Some (Lex_return (- q - 1), lex_mark b lb1)
           else Option.bind (lex_read (lex_mark b lb1)) (\<lambda>(c, lb2). Option.bind (lex_next tbl base c q) (\<lambda>state'.
             if state' < 0 then Some (lex_giveup lb2)
             else Option.bind (lex_moves tbl q c lb2) (\<lambda>lb3. loop tbl state' (lex_consume_eof c lb3))))) = Some res"
        by (auto simp only: bind_Some_iff if_False)
      have scan1: "same_scan lb1 lb0" using lb1 1(3) by (auto simp: bind_Some_iff split: if_splits dest: lex_tag_scan)
      note mark = same_scan_mark [OF scan1, of b]
      show ?thesis
      proof (cases "lex_needs_refill (lex_mark b lb1)")
        case True
        with rest base False b mark same_scan_refill [OF mark] show ?thesis
          by (subst lex_loop.simps) auto
      next
        case noref: False
        then obtain c lb2 q' where rd: "lex_read (lex_mark b lb1) = Some (c, lb2)" "lex_next tbl base c q = Some q'"
          and rest2: "(if q' < 0 then Some (lex_giveup lb2)
             else Option.bind (lex_moves tbl q c lb2) (\<lambda>lb3. loop tbl q' (lex_consume_eof c lb3))) = Some res"
          using rest by (auto simp: bind_Some_iff)
        obtain lb3 where rd0: "lex_read (lex_mark b lb0) = Some (c, lb3)" "same_scan lb2 lb3"
          using same_scan_read [OF mark rd(1)] by blast
        have loop0: "lex_loop tbl q lb0 = (if q' < 0 then Some (lex_giveup lb3) else lex_loop tbl q' (lex_consume_eof c lb3))"
          using base False b noref same_scan_refill [OF mark] rd0(1) rd(2) by (subst lex_loop.simps) simp
        show ?thesis
        proof (cases "q' < 0")
          case True
          with rest2 loop0 same_scan_giveup [OF rd0(2)] show ?thesis by (cases "lex_giveup lb3") auto
        next
          case q': False
          with rest2 obtain lb4 where lb4: "lex_moves tbl q c lb2 = Some lb4" "loop tbl q' (lex_consume_eof c lb4) = Some res"
            by (auto simp: bind_Some_iff)
          from 1(1) [OF lb4(2) same_scan_consume [OF lex_moves_scan [OF lb4(1) rd0(2)]]] loop0 q' show ?thesis by simp
        qed
      qed
    qed
  qed
  from this [OF assms] show ?thesis by simp
qed

text \<open>Position memory never influences scanning: whenever the engine with memory returns, the plain engine on
  the same tables and buffer returns the same answer with the same positions, remembered action and end
  of input; the two buffers differ in the memory only.\<close>

theorem new_lex_engine_agrees:
  assumes "caml_new_lex_engine tbl start lb = Some (r, lb')"
  shows "\<exists>m. caml_lex_engine tbl start lb = Some (r, lb'\<lparr>lex_mem := m\<rparr>)"
proof -
  obtain q lb1 where e: "lex_entry start lb = (q, lb1)" by (cases "lex_entry start lb")
  with assms have "new_lex_loop tbl q lb1 = Some (r, lb')" by (simp add: caml_new_lex_engine_def)
  from new_lex_loop_agrees [OF this same_scan_simps(1)] obtain lb0 where "lex_loop tbl q lb1 = Some (r, lb0)" "same_scan lb' lb0" by auto
  with e show ?thesis by (auto simp: caml_lex_engine_def elim!: same_scanE)
qed

section \<open>A lexer for one token\<close>

text \<open>State 0 goes to the final state 1 on the character \<open>a\<close>, whose action is 0.\<close>

definition letter_table :: lexing_table where
  "letter_table = \<lparr>lex_base = [0, 0, 255, 255], lex_backtrk = [255, 255, 255, 255], lex_default = [255, 255, 255, 255],
     lex_trans = replicate 194 0 @ [1, 0] @ replicate 318 0, lex_check = replicate 194 255 @ [0, 0] @ replicate 318 255,
     lex_base_code = [0, 0, 0, 0], lex_backtrk_code = [0, 0, 0, 0], lex_default_code = [0, 0, 0, 0],
     lex_trans_code = replicate 514 0, lex_check_code = replicate 514 255, lex_code = [255]\<rparr>"

definition letter_buffer :: "u8 list \<Rightarrow> lexer_buffer" where
  "letter_buffer bs = \<lparr>lex_buffer = bs, lex_buffer_len = int (length bs), lex_start_pos = 0, lex_curr_pos = 0,
     lex_last_pos = 0, lex_last_action = 0, lex_eof_reached = False, lex_mem = []\<rparr>"

lemma letter_next:
  assumes "0 \<le> c" "c \<le> 256"
  shows "lex_next letter_table 0 c 0 = Some (if c = 97 then 1 else - 1)"
proof -
  have "Short (lex_check letter_table) c = Some (if c = 97 then 0 else - 1)"
    using assms by (auto simp: Short_def letter_table_def int_nth_def nth_opt_def nth_append nth_Cons' nat_eq_iff)
  moreover have "Short (lex_trans letter_table) 97 = Some 1" "Short (lex_default letter_table) 0 = Some (- 1)"
    by (simp_all add: Short_def letter_table_def int_nth_def nth_opt_def nth_append)
  ultimately show ?thesis by (simp add: lex_next_def)
qed

lemma letter_states:
  "Short (lex_base letter_table) 0 = Some 0" "Short (lex_base letter_table) 1 = Some (- 1)"
  "Short (lex_backtrk letter_table) 0 = Some (- 1)"
  by (simp_all add: Short_def letter_table_def int_nth_def)

lemma letter_wf: "lex_wf letter_table 2"
  unfolding lex_wf_def
proof (intro allI impI)
  fix q :: int assume "0 \<le> q \<and> q < 2"
  then have "q = 0 \<or> q = 1" by linarith
  then show "\<exists>base. Short (lex_base letter_table) q = Some base \<and> (0 \<le> base \<longrightarrow> (\<exists>b. Short (lex_backtrk letter_table) q = Some b) \<and>
       (\<forall>c. 0 \<le> c \<and> c \<le> 256 \<longrightarrow> (\<exists>q'. lex_next letter_table base c q = Some q' \<and> q' < 2)))"
    by (elim disjE) (simp_all add: letter_states letter_next)
qed

lemma letter_run:
  "caml_lex_engine letter_table 0 (letter_buffer [97, 98]) =
     Some (Lex_return 0, (letter_buffer [97, 98])\<lparr>lex_curr_pos := 1, lex_last_action := - 1\<rparr>)"
  by (simp add: caml_lex_engine_def lex_entry_def lex_loop.simps letter_states letter_next lex_mark_def
      lex_needs_refill_def lex_read_def letter_buffer_def int_nth_def lex_consume_eof_def)

theorem lex_longest_match_witness:
  "lex_wf letter_table 2 \<and> lex_buf_ok (letter_buffer [97, 98]) \<and>
   longest letter_table 0 (lex_input (letter_buffer [97, 98])) 1 0"
proof -
  have ok: "lex_buf_ok (letter_buffer [97, 98])" by (simp add: lex_buf_ok_def letter_buffer_def)
  have "lex_input (letter_buffer [97, 98]) = [97, 98]" by (simp add: lex_input_def letter_buffer_def)
  moreover have "accepts letter_table 0 [97, 98] 1 0"
    by (simp add: accepts_def lex_action_def letter_states letter_next)
  ultimately have "longest letter_table 0 (lex_input (letter_buffer [97, 98])) 1 0"
    using lex_longest_match [OF letter_wf, of 0 "letter_buffer [97, 98]"] ok letter_run
    by (auto simp: letter_buffer_def letter_states letter_next min_def split: if_splits)
  with ok letter_wf show ?thesis by simp
qed

lemma letter_refill:
  "caml_lex_engine letter_table 0 (letter_buffer []) = Some (Lex_return (- 1), (letter_buffer [])\<lparr>lex_last_action := - 1\<rparr>)"
  by (simp add: caml_lex_engine_def lex_entry_def lex_loop.simps letter_states lex_mark_def
      lex_needs_refill_def letter_buffer_def)

theorem lex_refill_transparent_witness:
  "caml_lex_engine letter_table (- 1) (lex_extend [97] True ((letter_buffer [])\<lparr>lex_last_action := - 1\<rparr>)) =
   caml_lex_engine letter_table 0 (lex_extend [97] True (letter_buffer []))"
  using lex_refill_transparent [OF letter_refill, of "[97]" True] by (simp add: lex_buf_ok_def letter_buffer_def)

lemma letter_codes:
  "Short (lex_base_code letter_table) 0 = Some 0" "Short (lex_base_code letter_table) 1 = Some 0"
  "Short (lex_check_code letter_table) 97 = Some (- 1)" "Short (lex_default_code letter_table) 0 = Some 0"
  "lex_program letter_table 0 = Some [255]"
  by (simp_all add: Short_def letter_table_def int_nth_def nth_opt_def lex_program_def drop_opt_def)

theorem new_lex_engine_agrees_witness:
  "\<exists>m. caml_lex_engine letter_table 0 (letter_buffer [97, 98]) =
     Some (Lex_return 0, (letter_buffer [97, 98])\<lparr>lex_curr_pos := 1, lex_last_action := - 1, lex_mem := m\<rparr>)"
proof -
  have "caml_new_lex_engine letter_table 0 (letter_buffer [97, 98]) =
      Some (Lex_return 0, (letter_buffer [97, 98])\<lparr>lex_curr_pos := 1, lex_last_action := - 1\<rparr>)"
    by (simp add: caml_new_lex_engine_def lex_entry_def new_lex_loop.simps letter_states letter_next lex_mark_def
        lex_needs_refill_def lex_read_def letter_buffer_def int_nth_def lex_consume_eof_def letter_codes lex_moves_def
        lex_tag_def run_tag_def)
  from new_lex_engine_agrees [OF this] show ?thesis by simp
qed

end
