(* ===== verification/Parsing.thy ===== *)
theory Parsing
  imports Values Lexing
begin

text \<open>
  \<open>ocaml/runtime/parsing.c\<close>: the pushdown automaton that parsers generated by ocamlyacc call. The engine
  is entered with a command and goes from label to label until it answers the OCaml side; its local
  variables survive in the parser environment (\<open>SAVE\<close>, \<open>RESTORE\<close>). The trace output is left out.
  Tables are strings of 16-bit entries as in the lexer.
\<close>

section \<open>Data\<close>

definition ERRCODE :: int where "ERRCODE = 256"

record parser_tables =
  transl_const :: "int list"
  transl_block :: "int list"
  lhs :: "u8 list"
  rule_lens :: "u8 list" \<comment> \<open>\<open>len\<close>\<close>
  defred :: "u8 list"
  dgoto :: "u8 list"
  sindex :: "u8 list"
  rindex :: "u8 list"
  gindex :: "u8 list"
  tablesize :: int
  ptable :: "u8 list" \<comment> \<open>\<open>table\<close>\<close>
  pcheck :: "u8 list" \<comment> \<open>\<open>check\<close>\<close>

record parser_env =
  s_stack :: "int list"
  v_stack :: "mlvalue list"
  symb_start_stack :: "mlvalue list"
  symb_end_stack :: "mlvalue list"
  stacksize :: int
  stackbase :: int
  curr_char :: int
  lval :: mlvalue
  symb_start :: mlvalue
  symb_end :: mlvalue
  asp :: int
  rule_len :: int
  rule_number :: int
  env_sp :: int
  env_state :: int
  env_errflag :: int

datatype parser_input = START | TOKEN_READ | STACKS_GROWN_1 | STACKS_GROWN_2 | SEMANTIC_ACTION_COMPUTED | ERROR_DETECTED

datatype parser_output = READ_TOKEN | RAISE_PARSE_ERROR | GROW_STACKS_1 | GROW_STACKS_2
  | COMPUTE_SEMANTIC_ACTION | CALL_ERROR_FUNCTION

text \<open>The local variables, and the labels with the local \<open>n\<close> or \<open>n2\<close> they use.\<close>

record parser_regs =
  p_state :: int
  p_sp :: int
  p_errflag :: int

datatype plabel = Loop | Testshift | Recover | Shift int | Shift_recover int | Push | Reduce int | Semantic_action

datatype jump = Goto plabel parser_regs parser_env | Return parser_output parser_env

definition SAVE :: "parser_regs \<Rightarrow> parser_env \<Rightarrow> parser_env" where
  "SAVE r e = e\<lparr>env_sp := p_sp r, env_state := p_state r, env_errflag := p_errflag r\<rparr>"

definition RESTORE :: "parser_env \<Rightarrow> parser_regs" where
  "RESTORE e = \<lparr>p_state = env_state e, p_sp = env_sp e, p_errflag = env_errflag e\<rparr>"

section \<open>The labels\<close>

text \<open>\<open>n1 != 0 && n2 >= 0 && n2 <= tablesize && Short(check, n2) == code\<close> with \<open>n2 = n1 + code\<close>.\<close>

definition table_entry :: "parser_tables \<Rightarrow> int \<Rightarrow> int \<Rightarrow> bool option" where
  "table_entry t n1 code =
     (if n1 \<noteq> 0 \<and> 0 \<le> n1 + code \<and> n1 + code \<le> tablesize t
      then map_option (\<lambda>c. c = code) (Short (pcheck t) (n1 + code)) else Some False)"

definition parse_loop :: "parser_tables \<Rightarrow> parser_regs \<Rightarrow> parser_env \<Rightarrow> jump option" where
  "parse_loop t r e = do {
     n \<leftarrow> Short (defred t) (p_state r);
     Some (if n \<noteq> 0 then Goto (Reduce n) r e
       else if 0 \<le> curr_char e then Goto Testshift r e
       else Return READ_TOKEN (SAVE r e)) }"

definition parse_testshift :: "parser_tables \<Rightarrow> parser_regs \<Rightarrow> parser_env \<Rightarrow> jump option" where
  "parse_testshift t r e = do {
     n1 \<leftarrow> Short (sindex t) (p_state r);
     ok \<leftarrow> table_entry t n1 (curr_char e);
     if ok then Some (Goto (Shift (n1 + curr_char e)) r e)
     else do {
       n1 \<leftarrow> Short (rindex t) (p_state r);
       ok \<leftarrow> table_entry t n1 (curr_char e);
       if ok then do { n \<leftarrow> Short (ptable t) (n1 + curr_char e); Some (Goto (Reduce n) r e) }
       else Some (if 0 < p_errflag r then Goto Recover r e else Return CALL_ERROR_FUNCTION (SAVE r e)) } }"

text \<open>The loop of \<open>recover\<close>: down the stack to a state that shifts the error token; \<open>Some None\<close> when there is none.\<close>

fun recover_scan :: "parser_tables \<Rightarrow> parser_env \<Rightarrow> nat \<Rightarrow> (nat \<times> int) option option" where
  "recover_scan t e sp = do {
     state1 \<leftarrow> nth_opt (s_stack e) sp;
     n1 \<leftarrow> Short (sindex t) state1;
     ok \<leftarrow> table_entry t n1 ERRCODE;
     if ok then Some (Some (sp, n1 + ERRCODE))
     else if int sp \<le> stackbase e then Some None
     else if sp = 0 then None
     else recover_scan t e (sp - 1) }"

declare recover_scan.simps [simp del]

definition parse_recover :: "parser_tables \<Rightarrow> parser_regs \<Rightarrow> parser_env \<Rightarrow> jump option" where
  "parse_recover t r e =
     (if p_errflag r < 3 then do {
        guard (0 \<le> p_sp r);
        found \<leftarrow> recover_scan t e (nat (p_sp r));
        Some (case found of
          Some (sp, n2) \<Rightarrow> Goto (Shift_recover n2) (r\<lparr>p_sp := int sp, p_errflag := 3\<rparr>) e
        | None \<Rightarrow> Return RAISE_PARSE_ERROR e) }
      else Some (if curr_char e = 0 then Return RAISE_PARSE_ERROR e
        else Goto Loop r (e\<lparr>curr_char := - 1\<rparr>)))"

definition parse_shift :: "int \<Rightarrow> parser_regs \<Rightarrow> parser_env \<Rightarrow> jump" where
  "parse_shift n2 r e = Goto (Shift_recover n2)
     (if 0 < p_errflag r then r\<lparr>p_errflag := p_errflag r - 1\<rparr> else r) (e\<lparr>curr_char := - 1\<rparr>)"

definition parse_shift_recover :: "parser_tables \<Rightarrow> int \<Rightarrow> parser_regs \<Rightarrow> parser_env \<Rightarrow> jump option" where
  "parse_shift_recover t n2 r e = do {
     state \<leftarrow> Short (ptable t) n2;
     let r = r\<lparr>p_state := state, p_sp := p_sp r + 1\<rparr>;
     Some (if p_sp r < stacksize e then Goto Push r e else Return GROW_STACKS_1 (SAVE r e)) }"

definition parse_push :: "parser_regs \<Rightarrow> parser_env \<Rightarrow> jump option" where
  "parse_push r e = do {
     ss \<leftarrow> int_upd (s_stack e) (p_sp r) (p_state r);
     vs \<leftarrow> int_upd (v_stack e) (p_sp r) (lval e);
     st \<leftarrow> int_upd (symb_start_stack e) (p_sp r) (symb_start e);
     en \<leftarrow> int_upd (symb_end_stack e) (p_sp r) (symb_end e);
     Some (Goto Loop r (e\<lparr>s_stack := ss, v_stack := vs, symb_start_stack := st, symb_end_stack := en\<rparr>)) }"

definition parse_reduce :: "parser_tables \<Rightarrow> int \<Rightarrow> parser_regs \<Rightarrow> parser_env \<Rightarrow> jump option" where
  "parse_reduce t n r e = do {
     m \<leftarrow> Short (rule_lens t) n;
     let e = e\<lparr>asp := p_sp r, rule_number := n, rule_len := m\<rparr>;
     let sp = p_sp r - m + 1;
     l \<leftarrow> Short (lhs t) n;
     state1 \<leftarrow> int_nth (s_stack e) (sp - 1);
     n1 \<leftarrow> Short (gindex t) l;
     ok \<leftarrow> table_entry t n1 state1;
     state \<leftarrow> (if ok then Short (ptable t) (n1 + state1) else Short (dgoto t) l);
     let r = r\<lparr>p_sp := sp, p_state := state\<rparr>;
     Some (if sp < stacksize e then Goto Semantic_action r e else Return GROW_STACKS_2 (SAVE r e)) }"

fun parse_label :: "parser_tables \<Rightarrow> plabel \<Rightarrow> parser_regs \<Rightarrow> parser_env \<Rightarrow> jump option" where
  "parse_label t Loop r e = parse_loop t r e"
| "parse_label t Testshift r e = parse_testshift t r e"
| "parse_label t Recover r e = parse_recover t r e"
| "parse_label t (Shift n2) r e = Some (parse_shift n2 r e)"
| "parse_label t (Shift_recover n2) r e = parse_shift_recover t n2 r e"
| "parse_label t Push r e = parse_push r e"
| "parse_label t (Reduce n) r e = parse_reduce t n r e"
| "parse_label t Semantic_action r e = Some (Return COMPUTE_SEMANTIC_ACTION (SAVE r e))"

section \<open>Running the labels\<close>

text \<open>
  The labels never go round for ever: a shift uses up the lookahead, and error recovery raises the
  error flag to 3 before it tries the same lookahead again.
\<close>

fun label_rank :: "plabel \<Rightarrow> bool \<Rightarrow> nat" where
  "label_rank (Shift_recover n) ahead = 9"
| "label_rank Push ahead = 8"
| "label_rank Loop ahead = (if ahead then 7 else 3)"
| "label_rank Testshift ahead = 6"
| "label_rank (Shift n) ahead = 5"
| "label_rank Recover ahead = 4"
| "label_rank (Reduce n) ahead = 2"
| "label_rank Semantic_action ahead = 1"

fun uses_lookahead :: "plabel \<Rightarrow> bool" where
  "uses_lookahead (Shift n) = True"
| "uses_lookahead Testshift = True"
| "uses_lookahead l = False"

definition parse_measure :: "plabel \<Rightarrow> parser_regs \<Rightarrow> parser_env \<Rightarrow> nat" where
  "parse_measure l r e = label_rank l (0 \<le> curr_char e) + (if 0 \<le> curr_char e \<or> uses_lookahead l then 20 else 0)
     + (if p_errflag r < 3 then 10 else 0)"

lemma parse_measure_decreases:
  "parse_label t l r e = Some (Goto l' r' e') \<Longrightarrow> parse_measure l' r' e' < parse_measure l r e"
  by (cases l)
    (auto simp: parse_measure_def parse_loop_def parse_testshift_def parse_recover_def parse_shift_def
      parse_shift_recover_def parse_push_def parse_reduce_def bind_Some_iff Let_def split: if_splits option.splits)

function parse_run :: "parser_tables \<Rightarrow> plabel \<Rightarrow> parser_regs \<Rightarrow> parser_env \<Rightarrow> (parser_output \<times> parser_env) option" where
  "parse_run t l r e = (case parse_label t l r e of
     None \<Rightarrow> None
   | Some (Return out e') \<Rightarrow> Some (out, e')
   | Some (Goto l' r' e') \<Rightarrow> parse_run t l' r' e')"
  by pat_completeness auto
termination
  by (relation "measure (\<lambda>(t, l, r, e). parse_measure l r e)") (auto intro: parse_measure_decreases)

declare parse_run.simps [simp del]

section \<open>The engine\<close>

text \<open>\<open>case TOKEN_READ\<close>: the code of the token and its value; \<open>Field(v, i)\<close> and the tag are read in the heap \<open>h\<close>.\<close>

definition parse_token :: "heap \<Rightarrow> parser_tables \<Rightarrow> mlvalue \<Rightarrow> parser_env \<Rightarrow> parser_env option" where
  "parse_token h t arg e =
     (if Is_block arg then do {
        tag \<leftarrow> Tag_val h arg;
        c \<leftarrow> nth_opt (transl_block t) tag;
        v \<leftarrow> Field h arg 0;
        Some (e\<lparr>curr_char := c, lval := v\<rparr>) }
      else do {
        w \<leftarrow> word_of arg;
        c \<leftarrow> int_nth (transl_const t) (sint (Int_val w));
        Some (e\<lparr>curr_char := c, lval := Word (Val_long 0)\<rparr>) })"

text \<open>\<open>case SEMANTIC_ACTION_COMPUTED\<close>, up to \<open>goto loop\<close>: the result of the action on top of the stacks.\<close>

definition parse_computed :: "mlvalue \<Rightarrow> parser_regs \<Rightarrow> parser_env \<Rightarrow> parser_env option" where
  "parse_computed arg r e = do {
     ss \<leftarrow> int_upd (s_stack e) (p_sp r) (p_state r);
     vs \<leftarrow> int_upd (v_stack e) (p_sp r) arg;
     last \<leftarrow> int_nth (symb_end_stack e) (asp e);
     en \<leftarrow> int_upd (symb_end_stack e) (p_sp r) last;
     let e = e\<lparr>s_stack := ss, v_stack := vs, symb_end_stack := en\<rparr>;
     if asp e < p_sp r then do {
       last \<leftarrow> int_nth (symb_end_stack e) (asp e);
       st \<leftarrow> int_upd (symb_start_stack e) (p_sp r) last;
       Some (e\<lparr>symb_start_stack := st\<rparr>) }
     else Some e }"

definition caml_parse_engine ::
  "heap \<Rightarrow> parser_tables \<Rightarrow> parser_env \<Rightarrow> parser_input \<Rightarrow> mlvalue \<Rightarrow> (parser_output \<times> parser_env) option" where
  "caml_parse_engine h t e cmd arg = (case cmd of
     START \<Rightarrow> parse_run t Loop \<lparr>p_state = 0, p_sp = env_sp e, p_errflag = 0\<rparr> e
   | TOKEN_READ \<Rightarrow> do { e' \<leftarrow> parse_token h t arg e; parse_run t Testshift (RESTORE e) e' }
   | ERROR_DETECTED \<Rightarrow> parse_run t Recover (RESTORE e) e
   | STACKS_GROWN_1 \<Rightarrow> parse_run t Push (RESTORE e) e
   | STACKS_GROWN_2 \<Rightarrow> parse_run t Semantic_action (RESTORE e) e
   | SEMANTIC_ACTION_COMPUTED \<Rightarrow> do { e' \<leftarrow> parse_computed arg (RESTORE e) e; parse_run t Loop (RESTORE e) e' })"

end
