(* ===== verification/Parsing_Props.thy ===== *)
theory Parsing_Props
  imports Parsing
begin

text \<open>
  The parser engine answers after a bounded number of labels, and what it does to its stacks is a
  shift or a reduction of the LR automaton of the tables.
\<close>

section \<open>The engine answers\<close>

text \<open>The labels run with a budget; \<open>None\<close> when it does not suffice.\<close>

fun parse_fuel :: "nat \<Rightarrow> parser_tables \<Rightarrow> plabel \<Rightarrow> parser_regs \<Rightarrow> parser_env \<Rightarrow> (parser_output \<times> parser_env) option" where
  "parse_fuel 0 t l r e = None"
| "parse_fuel (Suc n) t l r e = (case parse_label t l r e of
     None \<Rightarrow> None
   | Some (Return out e') \<Rightarrow> Some (out, e')
   | Some (Goto l' r' e') \<Rightarrow> parse_fuel n t l' r' e')"

lemma parse_fuel_enough: "parse_measure l r e < n \<Longrightarrow> parse_fuel n t l r e = parse_run t l r e"
proof (induction n arbitrary: l r e)
  case 0
  then show ?case by simp
next
  case (Suc n)
  show ?case
  proof (cases "parse_label t l r e")
    case None
    then show ?thesis by (simp add: parse_run.simps)
  next
    case (Some j)
    show ?thesis
    proof (cases j)
      case (Goto l' r' e')
      with Some Suc.prems parse_measure_decreases [of t l r e l' r' e']
      have "parse_fuel n t l' r' e' = parse_run t l' r' e'" by (intro Suc.IH) simp
      with Some Goto show ?thesis by (simp add: parse_run.simps [of t l])
    next
      case (Return out e')
      with Some show ?thesis by (simp add: parse_run.simps)
    qed
  qed
qed

text \<open>The parser engine cannot loop: from any label, on any tables and stacks, 40 labels are enough to reach
  an answer or a read outside the tables, so every call of the engine comes back to the OCaml side.\<close>

theorem parse_engine_bounded: "parse_run t l r e = parse_fuel 40 t l r e"
proof -
  have "label_rank l b \<le> 9" for b by (cases l) simp_all
  from this [of "0 \<le> curr_char e"] have "parse_measure l r e < 40" unfolding parse_measure_def by (auto split: if_splits)
  then show ?thesis by (rule parse_fuel_enough [symmetric])
qed

section \<open>The LR automaton\<close>

text \<open>The states and the semantic values on the stacks, the top first.\<close>

definition lr_states :: "parser_regs \<Rightarrow> parser_env \<Rightarrow> int list" where
  "lr_states r e = rev (take (Suc (nat (p_sp r))) (s_stack e))"

definition lr_values :: "parser_regs \<Rightarrow> parser_env \<Rightarrow> mlvalue list" where
  "lr_values r e = rev (take (Suc (nat (p_sp r))) (v_stack e))"

definition parse_ok :: "parser_regs \<Rightarrow> parser_env \<Rightarrow> bool" where
  "parse_ok r e \<longleftrightarrow> 0 \<le> p_sp r \<and> p_sp r < stacksize e \<and> int (length (s_stack e)) = stacksize e \<and>
     int (length (v_stack e)) = stacksize e \<and> int (length (symb_start_stack e)) = stacksize e \<and>
     int (length (symb_end_stack e)) = stacksize e"

text \<open>The state after a reduction to the nonterminal \<open>l\<close> from the exposed state \<open>q\<close>.\<close>

definition lr_goto :: "parser_tables \<Rightarrow> int \<Rightarrow> int \<Rightarrow> int option" where
  "lr_goto t l q = do {
     n1 \<leftarrow> Short (gindex t) l;
     ok \<leftarrow> table_entry t n1 q;
     if ok then Short (ptable t) (n1 + q) else Short (dgoto t) l }"

lemma rev_take_push:
  "Suc k < length xs \<Longrightarrow> rev (take (Suc (Suc k)) (xs[Suc k := v])) = v # rev (take (Suc k) xs)"
  by (simp add: take_Suc_conv_app_nth [of "Suc k"] del: take_Suc)

lemma rev_take_drop: "m \<le> k \<Longrightarrow> k < length xs \<Longrightarrow> drop m (rev (take (Suc k) xs)) = rev (take (Suc k - m) xs)"
  by (simp add: drop_rev)

lemma parse_shift_ok:
  assumes ok: "parse_ok r e" and q: "Short (ptable t) n2 = Some q" and room: "p_sp r + 1 < stacksize e"
  shows "\<exists>r' e'. parse_run t (Shift n2) r e = parse_run t Loop r' e' \<and> parse_ok r' e' \<and> curr_char e' = - 1 \<and>
    lr_states r' e' = q # lr_states r e \<and> lr_values r' e' = lval e # lr_values r e"
proof -
  let ?f = "if 0 < p_errflag r then p_errflag r - 1 else p_errflag r"
  let ?r = "\<lparr>p_state = q, p_sp = p_sp r + 1, p_errflag = ?f\<rparr>"
  let ?i = "Suc (nat (p_sp r))"
  let ?e = "e\<lparr>curr_char := - 1, s_stack := (s_stack e)[?i := q], v_stack := (v_stack e)[?i := lval e],
    symb_start_stack := (symb_start_stack e)[?i := symb_start e], symb_end_stack := (symb_end_stack e)[?i := symb_end e]\<rparr>"
  have i: "nat (p_sp r + 1) = ?i" using ok by (simp add: parse_ok_def nat_add_distrib)
  have len: "?i < length (s_stack e)" "?i < length (v_stack e)" "?i < length (symb_start_stack e)" "?i < length (symb_end_stack e)"
    using ok room by (auto simp: parse_ok_def)
  have "parse_run t (Shift n2) r e = parse_run t Loop ?r ?e"
    using ok q room len i
    by (cases r) (simp add: parse_run.simps [of t "Shift n2"] parse_run.simps [of t "Shift_recover n2"] parse_run.simps [of t Push]
        parse_shift_def parse_shift_recover_def parse_push_def int_upd_def upd_opt_def parse_ok_def)
  moreover have "parse_ok ?r ?e" using ok room by (simp add: parse_ok_def)
  moreover have "lr_states ?r ?e = q # lr_states r e" "lr_values ?r ?e = lval e # lr_values r e"
    using len i by (simp_all add: lr_states_def lr_values_def rev_take_push)
  ultimately show ?thesis by (intro exI [of _ ?r] exI [of _ ?e]) simp
qed

lemma parse_reduce_ok:
  assumes ok: "parse_ok r e" and m: "Short (rule_lens t) n = Some m" "0 \<le> m" "m \<le> p_sp r"
    and l: "Short (lhs t) n = Some l" and q: "lr_goto t l (hd (drop (nat m) (lr_states r e))) = Some q"
    and room: "p_sp r - m + 1 < stacksize e"
  shows "\<exists>e1 e2. parse_run t (Reduce n) r e = Some (COMPUTE_SEMANTIC_ACTION, e1) \<and> rule_number e1 = n \<and>
    rule_len e1 = m \<and> asp e1 = p_sp r \<and> parse_computed v (RESTORE e1) e1 = Some e2 \<and> parse_ok (RESTORE e1) e2 \<and>
    lr_states (RESTORE e1) e2 = q # drop (nat m) (lr_states r e) \<and>
    lr_values (RESTORE e1) e2 = v # drop (nat m) (lr_values r e)"
proof -
  let ?k = "nat (p_sp r) - nat m"
  have k: "nat (p_sp r - m) = ?k" "nat m \<le> nat (p_sp r)" "Suc (nat (p_sp r)) - nat m = Suc ?k"
    using m(2,3) by (auto simp: nat_diff_distrib)
  have len: "Suc ?k < length (s_stack e)" "Suc ?k < length (v_stack e)" "Suc ?k < length (symb_start_stack e)"
    "Suc ?k < length (symb_end_stack e)" "nat (p_sp r) < length (symb_end_stack e)"
    "nat (p_sp r) < length (s_stack e)" "nat (p_sp r) < length (v_stack e)"
    using ok room m(2,3) by (auto simp: parse_ok_def)
  have dS: "drop (nat m) (lr_states r e) = rev (take (Suc ?k) (s_stack e))"
    and dV: "drop (nat m) (lr_values r e) = rev (take (Suc ?k) (v_stack e))"
    using len k by (simp_all only: lr_states_def lr_values_def rev_take_drop)
  have top: "hd (drop (nat m) (lr_states r e)) = s_stack e ! ?k"
    unfolding dS using len(1) by (simp add: take_Suc_conv_app_nth)
  let ?e = "e\<lparr>asp := p_sp r, rule_number := n, rule_len := m\<rparr>"
  let ?r = "r\<lparr>p_sp := p_sp r - m + 1, p_state := q\<rparr>"
  have st: "int_nth (s_stack e) (p_sp r - m) = Some (s_stack e ! ?k)"
    using len(1) k m(3) by (simp add: int_nth_def nth_opt_def)
  have "parse_label t (Reduce n) r e = Some (Goto Semantic_action ?r ?e)"
  proof -
    obtain n1 b where "Short (gindex t) l = Some n1" "table_entry t n1 (s_stack e ! ?k) = Some b"
      "(if b then Short (ptable t) (n1 + s_stack e ! ?k) else Short (dgoto t) l) = Some q"
      using q [unfolded top lr_goto_def] by (auto simp only: bind_Some_iff)
    then show ?thesis using m(1) l room by (simp add: parse_reduce_def st)
  qed
  then have run: "parse_run t (Reduce n) r e = Some (COMPUTE_SEMANTIC_ACTION, SAVE ?r ?e)"
    by (simp add: parse_run.simps [of t "Reduce n"] parse_run.simps [of t Semantic_action])
  have i: "nat (p_sp r - m + 1) = Suc ?k" using k m(3) by (simp add: nat_add_distrib)
  let ?e1 = "SAVE ?r ?e"
  have "\<exists>e2. parse_computed v (RESTORE ?e1) ?e1 = Some e2 \<and> s_stack e2 = (s_stack e)[Suc ?k := q] \<and>
      v_stack e2 = (v_stack e)[Suc ?k := v] \<and> stacksize e2 = stacksize e \<and>
      length (symb_start_stack e2) = length (symb_start_stack e) \<and> length (symb_end_stack e2) = length (symb_end_stack e)"
    using len i m(3) ok
    by (cases "p_sp r < p_sp r - m + 1")
      (simp_all add: parse_computed_def RESTORE_def SAVE_def int_upd_def upd_opt_def int_nth_def nth_opt_def parse_ok_def Let_def)
  then obtain e2 where e2: "parse_computed v (RESTORE ?e1) ?e1 = Some e2" "s_stack e2 = (s_stack e)[Suc ?k := q]"
    "v_stack e2 = (v_stack e)[Suc ?k := v]" "stacksize e2 = stacksize e"
    "length (symb_start_stack e2) = length (symb_start_stack e)" "length (symb_end_stack e2) = length (symb_end_stack e)"
    by blast
  have "parse_ok (RESTORE ?e1) e2" using ok m(2,3) room e2 by (simp add: parse_ok_def RESTORE_def SAVE_def)
  moreover have "lr_states (RESTORE ?e1) e2 = q # drop (nat m) (lr_states r e)"
    "lr_values (RESTORE ?e1) e2 = v # drop (nat m) (lr_values r e)"
    unfolding dS dV using e2(2,3) len(1,2) i by (simp_all add: lr_states_def lr_values_def RESTORE_def SAVE_def rev_take_push)
  ultimately show ?thesis using run e2(1)
    by (intro exI [of _ ?e1] exI [of _ e2]) (simp add: SAVE_def)
qed

text \<open>C16: the engine carries out the LR automaton of its tables. A shift with room on the stacks pushes the table's
  state and the value of the token and uses the lookahead up. A reduction by rule \<open>n\<close> of length \<open>m\<close> asks
  for the semantic action of that rule, and when its result comes back the \<open>m\<close> topmost states and values
  have been replaced by the goto state of the rule's left-hand side and by the result.\<close>

theorem parse_shift_reduce:
  assumes "parse_ok r e"
  shows "(Short (ptable t) n2 = Some q \<and> p_sp r + 1 < stacksize e \<longrightarrow>
      (\<exists>r' e'. parse_run t (Shift n2) r e = parse_run t Loop r' e' \<and> parse_ok r' e' \<and> curr_char e' = - 1 \<and>
        lr_states r' e' = q # lr_states r e \<and> lr_values r' e' = lval e # lr_values r e)) \<and>
    (Short (rule_lens t) n = Some m \<and> 0 \<le> m \<and> m \<le> p_sp r \<and> Short (lhs t) n = Some l \<and>
     lr_goto t l (hd (drop (nat m) (lr_states r e))) = Some g \<and> p_sp r - m + 1 < stacksize e \<longrightarrow>
      (\<exists>e1 e2. parse_run t (Reduce n) r e = Some (COMPUTE_SEMANTIC_ACTION, e1) \<and> rule_number e1 = n \<and>
        rule_len e1 = m \<and> asp e1 = p_sp r \<and> parse_computed v (RESTORE e1) e1 = Some e2 \<and> parse_ok (RESTORE e1) e2 \<and>
        lr_states (RESTORE e1) e2 = g # drop (nat m) (lr_states r e) \<and>
        lr_values (RESTORE e1) e2 = v # drop (nat m) (lr_values r e)))"
  using parse_shift_ok [OF assms] parse_reduce_ok [OF assms] by blast

text \<open>One rule of length 1 whose left-hand side goes to state 2 by default.\<close>

definition sample_tables :: parser_tables where
  "sample_tables = \<lparr>transl_const = [], transl_block = [], lhs = [0, 0, 0, 0], rule_lens = [0, 0, 1, 0], defred = [],
     dgoto = [2, 0], sindex = [], rindex = [], gindex = [0, 0], tablesize = 0, ptable = [3, 0], pcheck = []\<rparr>"

definition sample_env :: parser_env where
  "sample_env = \<lparr>s_stack = [0, 1, 0], v_stack = [Word 1, Word 3, Word 1], symb_start_stack = replicate 3 (Word 1),
     symb_end_stack = replicate 3 (Word 1), stacksize = 3, stackbase = 0, curr_char = 5, lval = Word 9,
     symb_start = Word 1, symb_end = Word 1, asp = 0, rule_len = 0, rule_number = 0, env_sp = 1, env_state = 1,
     env_errflag = 0\<rparr>"

theorem parse_shift_reduce_witness:
  "\<exists>e1 e2. parse_run sample_tables (Reduce 1) (RESTORE sample_env) sample_env = Some (COMPUTE_SEMANTIC_ACTION, e1) \<and>
     parse_computed (Word 7) (RESTORE e1) e1 = Some e2 \<and> lr_states (RESTORE e1) e2 = [2, 0] \<and>
     lr_values (RESTORE e1) e2 = [Word 7, Word 1]"
proof -
  have "parse_ok (RESTORE sample_env) sample_env" by (simp add: parse_ok_def RESTORE_def sample_env_def)
  note * = parse_shift_reduce [OF this, of sample_tables 0 3 1 1 0 2 "Word 7"]
  have "Short (rule_lens sample_tables) 1 = Some 1" "Short (lhs sample_tables) 1 = Some 0"
    "lr_goto sample_tables 0 (hd (drop (nat 1) (lr_states (RESTORE sample_env) sample_env))) = Some 2"
    by (simp_all add: Short_def sample_tables_def int_nth_def lr_goto_def table_entry_def)
  with * show ?thesis by (auto simp: RESTORE_def sample_env_def lr_states_def lr_values_def)
qed

end
