(* ===== verification/Alloc.thy ===== *)
theory Alloc
  imports Callback
begin

text \<open>
  \<open>ocaml/runtime/alloc.c\<close> and the rest of \<open>fail_byt.c\<close>: allocation of blocks and strings by C code, and
  the exceptions that carry an argument. A collection that C code triggers here runs no OCaml code, so
  it is no step of the model; running out of memory raises.
\<close>

section \<open>Sequencing C code that may raise\<close>

definition c_then ::
  "runtime c_result option \<Rightarrow> (mlvalue \<Rightarrow> runtime \<Rightarrow> runtime c_result option) \<Rightarrow> runtime c_result option" where
  "c_then m k = do {
     res \<leftarrow> m;
     case res of Returned v r \<Rightarrow> k v r | Raised e r \<Rightarrow> Some (Raised e r) | Aborted msg \<Rightarrow> Some (Aborted msg) }"

lemma c_then_simps [simp]:
  "c_then (Some (Returned v r)) k = k v r" "c_then (Some (Raised e r)) k = Some (Raised e r)"
  "c_then (Some (Aborted msg)) k = Some (Aborted msg)" "c_then None k = None"
  by (simp_all add: c_then_def)

section \<open>Blocks\<close>

definition String_tag :: nat where "String_tag = 252"
definition No_scan_tag :: nat where "No_scan_tag = 251"
definition Max_wosize :: u64 where "Max_wosize = 2 ^ 54 - 1"

text \<open>\<open>Alloc_small\<close> with a collection that runs no OCaml code.\<close>

definition alloc_minor :: "nat \<Rightarrow> nat \<Rightarrow> runtime \<Rightarrow> runtime c_result option" where
  "alloc_minor wosize tag r =
     (if \<not> (1 \<le> wosize \<and> tag < 256 \<and> wosize \<le> Max_young_wosize) then Some (Aborted ''assertion failure'')
      else Some (Returned (Ptr (length (heap r)) 0) (r\<lparr>heap := heap r @ [fresh_block wosize tag Debug_uninit_minor]\<rparr>)))"

text \<open>
  \<open>alloc_shr\<close> called from C. The words of a block of bytes are not initialised; nothing below reads
  them before they are written.
\<close>

definition alloc_shr :: "hooks \<Rightarrow> nat \<Rightarrow> nat \<Rightarrow> runtime \<Rightarrow> runtime c_result option" where
  "alloc_shr hk wosize tag r =
     (if shared_try_alloc hk wosize r
      then Some (Returned (Ptr (length (heap r)) 0) (r\<lparr>heap := heap r @ [fresh_block wosize tag Debug_uninit_major]\<rparr>))
      else caml_raise_out_of_memory hk r)"

text \<open>Stores of consecutive fields by C code.\<close>

definition set_fields :: "mlvalue \<Rightarrow> mlvalue list \<Rightarrow> runtime \<Rightarrow> runtime c_result option" where
  "set_fields v vals r = do { h \<leftarrow> init_fields (heap r) v 0 vals; Some (Returned v (r\<lparr>heap := h\<rparr>)) }"

definition caml_alloc :: "hooks \<Rightarrow> nat \<Rightarrow> nat \<Rightarrow> runtime \<Rightarrow> runtime c_result option" where
  "caml_alloc hk wosize tag r =
     (if \<not> (tag < 256 \<and> tag \<noteq> Infix_tag) then Some (Aborted ''assertion failure'')
      else if wosize = 0 then Some (Returned (Atom tag) r)
      else c_then (if wosize \<le> Max_young_wosize then alloc_minor wosize tag r else alloc_shr hk wosize tag r)
        (\<lambda>v r. if tag < No_scan_tag then set_fields v (replicate wosize Val_unit) r else Some (Returned v r)))"

definition do_alloc_small :: "nat \<Rightarrow> mlvalue list \<Rightarrow> runtime \<Rightarrow> runtime c_result option" where
  "do_alloc_small tag vals r =
     (if \<not> tag < 256 then Some (Aborted ''assertion failure'')
      else c_then (alloc_minor (length vals) tag r) (\<lambda>v r. set_fields v vals r))"

definition caml_alloc_1 where "caml_alloc_1 tag a = do_alloc_small tag [a]"
definition caml_alloc_2 where "caml_alloc_2 tag a b = do_alloc_small tag [a, b]"
definition caml_alloc_3 where "caml_alloc_3 tag a b c = do_alloc_small tag [a, b, c]"
definition caml_alloc_4 where "caml_alloc_4 tag a b c d = do_alloc_small tag [a, b, c, d]"
definition caml_alloc_5 where "caml_alloc_5 tag a b c d e = do_alloc_small tag [a, b, c, d, e]"
definition caml_alloc_6 where "caml_alloc_6 tag a b c d e f = do_alloc_small tag [a, b, c, d, e, f]"
definition caml_alloc_7 where "caml_alloc_7 tag a b c d e f g = do_alloc_small tag [a, b, c, d, e, f, g]"
definition caml_alloc_8 where "caml_alloc_8 tag a b c d e f g h = do_alloc_small tag [a, b, c, d, e, f, g, h]"
definition caml_alloc_9 where "caml_alloc_9 tag a b c d e f g h i = do_alloc_small tag [a, b, c, d, e, f, g, h, i]"
definition caml_alloc_N where "caml_alloc_N tag args = do_alloc_small tag args"

definition caml_alloc_small :: "nat \<Rightarrow> nat \<Rightarrow> runtime \<Rightarrow> runtime c_result option" where
  "caml_alloc_small wosize tag r =
     (if tag = Infix_tag then Some (Aborted ''assertion failure'') else alloc_minor wosize tag r)"

definition caml_alloc_tuple :: "hooks \<Rightarrow> nat \<Rightarrow> runtime \<Rightarrow> runtime c_result option" where
  "caml_alloc_tuple hk n = caml_alloc hk n 0"

definition caml_alloc_some :: "mlvalue \<Rightarrow> runtime \<Rightarrow> runtime c_result option" where
  "caml_alloc_some v r = c_then (caml_alloc_small 1 0 r) (\<lambda>some r. set_fields some [v] r)"

text \<open>A float array of length 0 is the atom of tag 0.\<close>

definition caml_alloc_float_array :: "hooks \<Rightarrow> nat \<Rightarrow> runtime \<Rightarrow> runtime c_result option" where
  "caml_alloc_float_array hk len r =
     (let wosize = len * Double_wosize in
      if wosize \<le> Max_young_wosize
      then (if wosize = 0 then Some (Returned (Atom 0) r) else alloc_minor wosize Double_array_tag r)
      else alloc_shr hk wosize Double_array_tag r)"

section \<open>Strings\<close>

text \<open>\<open>memcpy\<close> of bytes into a block, from byte \<open>i\<close> on.\<close>

fun store_bytes :: "heap \<Rightarrow> mlvalue \<Rightarrow> int \<Rightarrow> u8 list \<Rightarrow> heap option" where
  "store_bytes h v i [] = Some h"
| "store_bytes h v i (c # cs) = do { h' \<leftarrow> Set_byte h v i c; store_bytes h' v (i + 1) cs }"

text \<open>The size is that of the bytes and at least one byte of padding; the last byte counts the padding before it.\<close>

definition caml_alloc_string :: "hooks \<Rightarrow> u64 \<Rightarrow> runtime \<Rightarrow> runtime c_result option" where
  "caml_alloc_string hk len r =
     (let wosize = (len + 8) div 8 in
      c_then (if unat wosize \<le> Max_young_wosize then alloc_minor (unat wosize) String_tag r
              else alloc_shr hk (unat wosize) String_tag r)
        (\<lambda>v r. do {
          h \<leftarrow> caml_modify (heap r) v (int (unat wosize) - 1) (Word 0);
          let offset_index = wosize * 8 - 1;
          h \<leftarrow> Set_byte h v (int (unat offset_index)) (ucast (offset_index - len));
          Some (Returned v (r\<lparr>heap := h\<rparr>)) }))"

definition caml_alloc_initialized_string :: "hooks \<Rightarrow> u64 \<Rightarrow> u8 list \<Rightarrow> runtime \<Rightarrow> runtime c_result option" where
  "caml_alloc_initialized_string hk len p r =
     c_then (caml_alloc_string hk len r) (\<lambda>v r. do {
       bytes \<leftarrow> take_opt (unat len) p;
       h \<leftarrow> store_bytes (heap r) v 0 bytes;
       Some (Returned v (r\<lparr>heap := h\<rparr>)) })"

text \<open>A \<open>char *\<close> is the bytes from it to the end of its object; \<open>strlen\<close> looks for the terminating 0.\<close>

fun strlen :: "u8 list \<Rightarrow> nat option" where
  "strlen [] = None"
| "strlen (c # cs) = (if c = 0 then Some 0 else map_option Suc (strlen cs))"

definition caml_copy_string :: "hooks \<Rightarrow> u8 list \<Rightarrow> runtime \<Rightarrow> runtime c_result option" where
  "caml_copy_string hk s r = do {
     len \<leftarrow> strlen s;
     caml_alloc_initialized_string hk (of_nat len) s r }"

section \<open>Arrays and flag lists\<close>

text \<open>The loop of \<open>caml_alloc_array\<close>: element \<open>n\<close> is \<open>funct(arr[n])\<close>, computed before it is stored.\<close>

fun alloc_array_loop ::
  "('c \<Rightarrow> runtime \<Rightarrow> runtime c_result option) \<Rightarrow> mlvalue \<Rightarrow> int \<Rightarrow> 'c list \<Rightarrow> runtime \<Rightarrow> runtime c_result option" where
  "alloc_array_loop funct v n [] r = Some (Returned v r)"
| "alloc_array_loop funct v n (a # arr) r = c_then (funct a r) (\<lambda>x r. do {
     h \<leftarrow> caml_modify (heap r) v n x;
     alloc_array_loop funct v (n + 1) arr (r\<lparr>heap := h\<rparr>) })"

text \<open>\<open>arr\<close> is the pointers before the NULL that ends the array.\<close>

definition caml_alloc_array ::
  "hooks \<Rightarrow> ('c \<Rightarrow> runtime \<Rightarrow> runtime c_result option) \<Rightarrow> 'c list \<Rightarrow> runtime \<Rightarrow> runtime c_result option" where
  "caml_alloc_array hk funct arr r =
     c_then (caml_alloc hk (length arr) 0 r) (\<lambda>result r. alloc_array_loop funct result 0 arr r)"

definition caml_copy_string_array :: "hooks \<Rightarrow> u8 list list \<Rightarrow> runtime \<Rightarrow> runtime c_result option" where
  "caml_copy_string_array hk arr = caml_alloc_array hk (caml_copy_string hk) arr"

partial_function (option) caml_convert_flag_list :: "heap \<Rightarrow> mlvalue \<Rightarrow> u32 list \<Rightarrow> u32 \<Rightarrow> u32 option" where
  "caml_convert_flag_list h list flags res = Option.bind (value_eq list (Val_int 0)) (\<lambda>nil.
     if nil then Some res
     else Option.bind (Option.bind (Field h list 0) word_of) (\<lambda>w.
       Option.bind (int_nth flags (sint (Int_val w))) (\<lambda>flag.
       Option.bind (Field h list 1) (\<lambda>tl.
         caml_convert_flag_list h tl flags (res OR flag)))))"

section \<open>Blocks for recursive definitions\<close>

definition caml_alloc_dummy :: "hooks \<Rightarrow> u64 \<Rightarrow> runtime \<Rightarrow> runtime c_result option" where
  "caml_alloc_dummy hk sz = caml_alloc hk (unat (Long_val sz)) 0"

definition caml_alloc_dummy_function :: "hooks \<Rightarrow> u64 \<Rightarrow> u64 \<Rightarrow> runtime \<Rightarrow> runtime c_result option" where
  "caml_alloc_dummy_function hk sz arity = caml_alloc_dummy hk sz"

definition caml_alloc_dummy_float :: "hooks \<Rightarrow> u64 \<Rightarrow> runtime \<Rightarrow> runtime c_result option" where
  "caml_alloc_dummy_float hk sz = caml_alloc hk (unat (Long_val sz * of_nat Double_wosize)) 0"

definition caml_alloc_dummy_infix :: "hooks \<Rightarrow> u64 \<Rightarrow> u64 \<Rightarrow> runtime \<Rightarrow> runtime c_result option" where
  "caml_alloc_dummy_infix hk vsize voffset r =
     (let wosize = Long_val vsize; offset = Long_val voffset in
      c_then (caml_alloc hk (unat wosize) Closure_tag r) (\<lambda>v r. do {
        h \<leftarrow> caml_modify (heap r) v 1 (Word (Make_closinfo 0 wosize));
        if 0 < offset then do {
          v' \<leftarrow> ptr_add v (int (unat offset));
          h \<leftarrow> caml_modify h v' (- 1) (Word (Make_header (unat offset) Infix_tag 0));
          Some (Returned v' (r\<lparr>heap := h\<rparr>)) }
        else Some (Returned v (r\<lparr>heap := h\<rparr>)) }))"

text \<open>\<open>Tag_val(dummy) = tag\<close>, and the loop that copies the fields.\<close>

definition set_tag :: "heap \<Rightarrow> mlvalue \<Rightarrow> nat \<Rightarrow> heap option" where
  "set_tag h v tag = (case v of
     Ptr b j \<Rightarrow> if j = 0 then do { blk \<leftarrow> nth_opt h b; Some (h[b := blk\<lparr>block_tag := tag\<rparr>]) } else None
   | _ \<Rightarrow> None)"

fun copy_fields :: "nat \<Rightarrow> int \<Rightarrow> mlvalue \<Rightarrow> mlvalue \<Rightarrow> heap \<Rightarrow> heap option" where
  "copy_fields 0 i dst src h = Some h"
| "copy_fields (Suc n) i dst src h = do {
     x \<leftarrow> Field h src i;
     h \<leftarrow> caml_modify h dst i x;
     copy_fields n (i + 1) dst src h }"

text \<open>\<open>v - Infix_offset_val(v)\<close>: the closure block an infix pointer points into.\<close>

definition infix_block :: "heap \<Rightarrow> mlvalue \<Rightarrow> mlvalue option" where
  "infix_block h v = do { n \<leftarrow> Wosize_val h v; ptr_add v (- int n) }"

definition caml_update_dummy :: "mlvalue \<Rightarrow> mlvalue \<Rightarrow> runtime \<Rightarrow> runtime c_result option" where
  "caml_update_dummy dummy newval r = do {
     let h = heap r;
     tag \<leftarrow> Tag_val h newval;
     dtag \<leftarrow> Tag_val h dummy;
     sz \<leftarrow> Wosize_val h newval;
     dsize \<leftarrow> Wosize_val h dummy;
     if tag = Infix_tag then do {
       clos \<leftarrow> infix_block h newval;
       ctag \<leftarrow> Tag_val h clos;
       if ctag \<noteq> Closure_tag \<or> dtag \<noteq> Infix_tag \<or> dsize \<noteq> sz then Some (Aborted ''assertion failure'')
       else do {
         dummy \<leftarrow> infix_block h dummy;
         sz \<leftarrow> Wosize_val h clos;
         dsize \<leftarrow> Wosize_val h dummy;
         if sz \<noteq> dsize then Some (Aborted ''assertion failure'')
         else do {
           h \<leftarrow> copy_fields sz 0 dummy clos h;
           Some (Returned Val_unit (r\<lparr>heap := h\<rparr>)) } } }
     else if dsize \<noteq> sz \<or> dtag = Infix_tag \<or> (tag \<noteq> Double_array_tag \<and> No_scan_tag \<le> tag)
     then Some (Aborted ''assertion failure'')
     else do {
       h \<leftarrow> set_tag h dummy tag;
       h \<leftarrow> copy_fields sz 0 dummy newval h;
       Some (Returned Val_unit (r\<lparr>heap := h\<rparr>)) } }"

section \<open>Exceptions with an argument\<close>

definition caml_raise_with_arg :: "hooks \<Rightarrow> mlvalue \<Rightarrow> mlvalue \<Rightarrow> runtime \<Rightarrow> runtime c_result option" where
  "caml_raise_with_arg hk tag arg r = c_then (caml_alloc_small 2 0 r) (\<lambda>bucket r.
     c_then (set_fields bucket [tag, arg] r) (\<lambda>bucket r. caml_raise hk bucket r))"

definition caml_raise_with_args :: "hooks \<Rightarrow> mlvalue \<Rightarrow> mlvalue list \<Rightarrow> runtime \<Rightarrow> runtime c_result option" where
  "caml_raise_with_args hk tag args r =
     (if Max_young_wosize < 1 + length args then Some (Aborted ''assertion failure'')
      else c_then (caml_alloc_small (1 + length args) 0 r) (\<lambda>bucket r.
        c_then (set_fields bucket (tag # args) r) (\<lambda>bucket r. caml_raise hk bucket r)))"

definition caml_raise_with_string :: "hooks \<Rightarrow> mlvalue \<Rightarrow> u8 list \<Rightarrow> runtime \<Rightarrow> runtime c_result option" where
  "caml_raise_with_string hk tag msg r = c_then (caml_copy_string hk msg r) (\<lambda>v_msg r. caml_raise_with_arg hk tag v_msg r)"

text \<open>\<open>check_global_data_param\<close> and the constructor it guards; before the globals are loaded the process exits.\<close>

definition exception_tag :: "string \<Rightarrow> int \<Rightarrow> runtime \<Rightarrow> runtime c_result option" where
  "exception_tag name n r =
     (if \<not> check_global_data r then Some (Aborted name)
      else do { tag \<leftarrow> Field (heap r) (caml_global_data r) n; Some (Returned tag r) })"

definition caml_get_failwith_tag where "caml_get_failwith_tag = exception_tag ''Failure'' 2"
definition caml_get_invalid_argument_tag where "caml_get_invalid_argument_tag = exception_tag ''Invalid_argument'' 3"

definition caml_failwith :: "hooks \<Rightarrow> u8 list \<Rightarrow> runtime \<Rightarrow> runtime c_result option" where
  "caml_failwith hk msg r = c_then (caml_get_failwith_tag r) (\<lambda>tag r. caml_raise_with_string hk tag msg r)"

definition caml_failwith_value :: "hooks \<Rightarrow> mlvalue \<Rightarrow> runtime \<Rightarrow> runtime c_result option" where
  "caml_failwith_value hk msg r = c_then (caml_get_failwith_tag r) (\<lambda>tag r. caml_raise_with_arg hk tag msg r)"

definition caml_invalid_argument :: "hooks \<Rightarrow> u8 list \<Rightarrow> runtime \<Rightarrow> runtime c_result option" where
  "caml_invalid_argument hk msg r = c_then (caml_get_invalid_argument_tag r) (\<lambda>tag r. caml_raise_with_string hk tag msg r)"

definition caml_invalid_argument_value :: "hooks \<Rightarrow> mlvalue \<Rightarrow> runtime \<Rightarrow> runtime c_result option" where
  "caml_invalid_argument_value hk msg r = c_then (caml_get_invalid_argument_tag r) (\<lambda>tag r. caml_raise_with_arg hk tag msg r)"

text \<open>A C string literal: its characters and the final 0.\<close>

definition c_literal :: "string \<Rightarrow> u8 list" where
  "c_literal s = map (\<lambda>c. of_nat (of_char c)) s @ [0]"

definition caml_array_bound_error :: "hooks \<Rightarrow> runtime \<Rightarrow> runtime c_result option" where
  "caml_array_bound_error hk = caml_invalid_argument hk (c_literal ''index out of bounds'')"

definition caml_raise_sys_error :: "hooks \<Rightarrow> mlvalue \<Rightarrow> runtime \<Rightarrow> runtime c_result option" where
  "caml_raise_sys_error hk msg r =
     c_then (exception_tag ''Sys_error'' 1 r) (\<lambda>tag r. caml_raise_with_arg hk tag msg r)"

definition caml_is_special_exception :: "mlvalue \<Rightarrow> runtime \<Rightarrow> bool option" where
  "caml_is_special_exception exn r =
     (if \<not> check_global_data r then Some False
      else do {
        m \<leftarrow> Field (heap r) (caml_global_data r) 7;
        b \<leftarrow> value_eq exn m;
        if b then Some True
        else do {
          a \<leftarrow> Field (heap r) (caml_global_data r) 10;
          b \<leftarrow> value_eq exn a;
          if b then Some True
          else do { u \<leftarrow> Field (heap r) (caml_global_data r) 11; value_eq exn u } } })"

text \<open>\<open>caml_raise_if_exception\<close> on the result of a callback, and the callbacks that propagate exceptions.\<close>

definition caml_raise_if_exception :: "hooks \<Rightarrow> callback_result \<Rightarrow> runtime c_result option" where
  "caml_raise_if_exception hk res = (case res of
     Result v r \<Rightarrow> Some (Returned v r)
   | Exception_result e r \<Rightarrow> caml_raise hk e r
   | Stopped msg \<Rightarrow> Some (Aborted msg))"

definition caml_callbackN where
  "caml_callbackN hk mem_ok ctx inited closure args r = do {
     (cb, res) \<leftarrow> caml_callbackN_exn hk mem_ok ctx inited closure args r;
     out \<leftarrow> caml_raise_if_exception hk res;
     Some (cb, out) }"

definition caml_callback where
  "caml_callback hk mem_ok ctx inited closure arg = caml_callbackN hk mem_ok ctx inited closure [arg]"

definition caml_callback2 where
  "caml_callback2 hk mem_ok ctx inited closure arg1 arg2 = caml_callbackN hk mem_ok ctx inited closure [arg1, arg2]"

definition caml_callback3 where
  "caml_callback3 hk mem_ok ctx inited closure arg1 arg2 arg3 =
     caml_callbackN hk mem_ok ctx inited closure [arg1, arg2, arg3]"

end
