(* ===== verification/Strings.thy ===== *)
theory Strings
  imports Alloc
begin

text \<open>
  \<open>ocaml/runtime/str.c\<close>: strings and byte sequences. A string of \<open>n\<close> bytes is a block of
  \<open>(n + 8) / 8\<close> words; its last byte is the number of padding bytes before it, which are 0.
  The \<open>bytes\<close> functions of the source are the \<open>string\<close> ones under another name.
\<close>

section \<open>Length and creation\<close>

text \<open>\<open>Byte\<close> is a signed \<open>char\<close>.\<close>

definition caml_string_length :: "heap \<Rightarrow> mlvalue \<Rightarrow> u64 c_outcome option" where
  "caml_string_length h s = do {
     wosize \<leftarrow> Wosize_val h s;
     let temp = of_nat wosize * 8 - 1;
     b \<leftarrow> Byte_u h s (int (unat temp));
     let n = temp - word_of_int (sint b);
     z \<leftarrow> Byte_u h s (int (unat n));
     Some (if z \<noteq> 0 then Assert_failure else Done n) }"

definition with_length ::
  "mlvalue \<Rightarrow> runtime \<Rightarrow> (u64 \<Rightarrow> runtime c_result option) \<Rightarrow> runtime c_result option" where
  "with_length s r k = do {
     out \<leftarrow> caml_string_length (heap r) s;
     case out of Done n \<Rightarrow> k n | _ \<Rightarrow> Some (Aborted ''assertion failure'') }"

definition caml_ml_string_length :: "mlvalue \<Rightarrow> runtime \<Rightarrow> runtime c_result option" where
  "caml_ml_string_length s r = with_length s r (\<lambda>n. Some (Returned (Word (Val_long n)) r))"

definition caml_ml_bytes_length where "caml_ml_bytes_length = caml_ml_string_length"

text \<open>The first \<open>n\<close> bytes from byte \<open>i\<close> on.\<close>

fun read_bytes :: "heap \<Rightarrow> mlvalue \<Rightarrow> int \<Rightarrow> nat \<Rightarrow> u8 list option" where
  "read_bytes h v i 0 = Some []"
| "read_bytes h v i (Suc n) = do { b \<leftarrow> Byte_u h v i; bs \<leftarrow> read_bytes h v (i + 1) n; Some (b # bs) }"

definition caml_string_is_c_safe :: "mlvalue \<Rightarrow> runtime \<Rightarrow> bool c_outcome option" where
  "caml_string_is_c_safe s r = do {
     wosize \<leftarrow> Wosize_val (heap r) s;
     bytes \<leftarrow> read_bytes (heap r) s 0 (8 * wosize);
     n \<leftarrow> strlen bytes;
     out \<leftarrow> caml_string_length (heap r) s;
     case out of Done m \<Rightarrow> Some (Done (of_nat n = m)) | _ \<Rightarrow> Some Assert_failure }"

definition create_bytes :: "string \<Rightarrow> hooks \<Rightarrow> u64 \<Rightarrow> runtime \<Rightarrow> runtime c_result option" where
  "create_bytes name hk len r =
     (if Max_wosize * 8 - 1 < Long_val len then caml_invalid_argument hk (c_literal name) r
      else caml_alloc_string hk (Long_val len) r)"

definition caml_create_string where "caml_create_string = create_bytes ''String.create''"
definition caml_create_bytes where "caml_create_bytes = create_bytes ''Bytes.create''"

section \<open>Access\<close>

text \<open>
  The check of every access: the index is not negative and \<open>idx + k\<close> is below the length, compared
  as unsigned words.
\<close>

definition checked_access ::
  "hooks \<Rightarrow> u64 \<Rightarrow> mlvalue \<Rightarrow> u64 \<Rightarrow> runtime \<Rightarrow> (int \<Rightarrow> runtime c_result option) \<Rightarrow> runtime c_result option" where
  "checked_access hk k str index r f =
     (let idx = Long_val index in
      if sint idx < 0 then caml_array_bound_error hk r
      else with_length str r (\<lambda>len.
        if len \<le> idx + k then caml_array_bound_error hk r else f (int (unat idx))))"

definition caml_string_get :: "hooks \<Rightarrow> mlvalue \<Rightarrow> u64 \<Rightarrow> runtime \<Rightarrow> runtime c_result option" where
  "caml_string_get hk str index r = checked_access hk 0 str index r (\<lambda>idx. do {
     b \<leftarrow> Byte_u (heap r) str idx;
     Some (Returned (Word (Val_long (ucast b))) r) })"

definition caml_bytes_get where "caml_bytes_get = caml_string_get"

definition put_bytes :: "mlvalue \<Rightarrow> int \<Rightarrow> u8 list \<Rightarrow> runtime \<Rightarrow> runtime c_result option" where
  "put_bytes str idx bs r = do { h \<leftarrow> store_bytes (heap r) str idx bs; Some (Returned Val_unit (r\<lparr>heap := h\<rparr>)) }"

definition caml_bytes_set :: "hooks \<Rightarrow> mlvalue \<Rightarrow> u64 \<Rightarrow> u64 \<Rightarrow> runtime \<Rightarrow> runtime c_result option" where
  "caml_bytes_set hk str index newval r =
     checked_access hk 0 str index r (\<lambda>idx. put_bytes str idx [ucast (Int_val newval)] r)"

definition caml_string_set where "caml_string_set = caml_bytes_set"

text \<open>\<open>b8 << 56 | ... | b1\<close> and \<open>0xFF & val >> 56, ..., 0xFF & val\<close>, least significant byte first.\<close>

fun join_le :: "u8 list \<Rightarrow> u64" where
  "join_le [] = 0"
| "join_le (b # bs) = ucast b OR push_bit 8 (join_le bs)"

fun split_le :: "nat \<Rightarrow> u64 \<Rightarrow> u8 list" where
  "split_le 0 w = []"
| "split_le (Suc n) w = ucast w # split_le n (drop_bit 8 w)"

text \<open>Boxed integers: custom blocks, the operations first. An \<open>int32_t\<close> takes the low half of its word.\<close>

definition Custom_tag :: nat where "Custom_tag = 255"

definition caml_copy_int32 :: "mlvalue \<Rightarrow> u32 \<Rightarrow> runtime \<Rightarrow> runtime c_result option" where
  "caml_copy_int32 int32_ops i =
     do_alloc_small Custom_tag [int32_ops, Word (push_bit 32 (drop_bit 32 Debug_uninit_minor) OR ucast i)]"

definition caml_copy_int64 :: "mlvalue \<Rightarrow> u64 \<Rightarrow> runtime \<Rightarrow> runtime c_result option" where
  "caml_copy_int64 int64_ops i = do_alloc_small Custom_tag [int64_ops, Word i]"

definition Int64_val :: "heap \<Rightarrow> mlvalue \<Rightarrow> u64 option" where
  "Int64_val h v = Option.bind (Field h v 1) word_of"

definition Int32_val :: "heap \<Rightarrow> mlvalue \<Rightarrow> u32 option" where
  "Int32_val h v = map_option ucast (Int64_val h v)"

definition caml_string_get16 :: "hooks \<Rightarrow> mlvalue \<Rightarrow> u64 \<Rightarrow> runtime \<Rightarrow> runtime c_result option" where
  "caml_string_get16 hk str index r = checked_access hk 1 str index r (\<lambda>idx. do {
     bs \<leftarrow> read_bytes (heap r) str idx 2;
     Some (Returned (Word (Val_long (join_le bs))) r) })"

definition caml_string_get32 :: "hooks \<Rightarrow> mlvalue \<Rightarrow> mlvalue \<Rightarrow> u64 \<Rightarrow> runtime \<Rightarrow> runtime c_result option" where
  "caml_string_get32 hk int32_ops str index r = checked_access hk 3 str index r (\<lambda>idx. do {
     bs \<leftarrow> read_bytes (heap r) str idx 4;
     caml_copy_int32 int32_ops (ucast (join_le bs)) r })"

definition caml_string_get64 :: "hooks \<Rightarrow> mlvalue \<Rightarrow> mlvalue \<Rightarrow> u64 \<Rightarrow> runtime \<Rightarrow> runtime c_result option" where
  "caml_string_get64 hk int64_ops str index r = checked_access hk 7 str index r (\<lambda>idx. do {
     bs \<leftarrow> read_bytes (heap r) str idx 8;
     caml_copy_int64 int64_ops (join_le bs) r })"

definition caml_bytes_get16 where "caml_bytes_get16 = caml_string_get16"
definition caml_bytes_get32 where "caml_bytes_get32 = caml_string_get32"
definition caml_bytes_get64 where "caml_bytes_get64 = caml_string_get64"

definition caml_bytes_set16 :: "hooks \<Rightarrow> mlvalue \<Rightarrow> u64 \<Rightarrow> u64 \<Rightarrow> runtime \<Rightarrow> runtime c_result option" where
  "caml_bytes_set16 hk str index newval r =
     checked_access hk 1 str index r (\<lambda>idx. put_bytes str idx (split_le 2 (Long_val newval)) r)"

definition caml_bytes_set32 :: "hooks \<Rightarrow> mlvalue \<Rightarrow> u64 \<Rightarrow> mlvalue \<Rightarrow> runtime \<Rightarrow> runtime c_result option" where
  "caml_bytes_set32 hk str index newval r = checked_access hk 3 str index r (\<lambda>idx. do {
     val \<leftarrow> Int32_val (heap r) newval;
     put_bytes str idx (split_le 4 (word_of_int (sint val))) r })"

definition caml_bytes_set64 :: "hooks \<Rightarrow> mlvalue \<Rightarrow> u64 \<Rightarrow> mlvalue \<Rightarrow> runtime \<Rightarrow> runtime c_result option" where
  "caml_bytes_set64 hk str index newval r = checked_access hk 7 str index r (\<lambda>idx. do {
     val \<leftarrow> Int64_val (heap r) newval;
     put_bytes str idx (split_le 8 val) r })"

section \<open>Comparison\<close>

text \<open>The loop over \<open>sz1\<close> words from field \<open>i\<close> on.\<close>

fun words_equal :: "heap \<Rightarrow> mlvalue \<Rightarrow> mlvalue \<Rightarrow> int \<Rightarrow> nat \<Rightarrow> bool option" where
  "words_equal h s1 s2 i 0 = Some True"
| "words_equal h s1 s2 i (Suc n) = do {
     a \<leftarrow> Field h s1 i;
     b \<leftarrow> Field h s2 i;
     eq \<leftarrow> value_eq a b;
     if \<not> eq then Some False else words_equal h s1 s2 (i + 1) n }"

definition caml_string_equal :: "heap \<Rightarrow> mlvalue \<Rightarrow> mlvalue \<Rightarrow> bool option" where
  "caml_string_equal h s1 s2 = do {
     same \<leftarrow> value_eq s1 s2;
     if same then Some True
     else do {
       sz1 \<leftarrow> Wosize_val h s1;
       sz2 \<leftarrow> Wosize_val h s2;
       if sz1 \<noteq> sz2 then Some False else words_equal h s1 s2 0 sz1 } }"

definition caml_bytes_equal where "caml_bytes_equal = caml_string_equal"

definition caml_string_notequal :: "heap \<Rightarrow> mlvalue \<Rightarrow> mlvalue \<Rightarrow> bool option" where
  "caml_string_notequal h s1 s2 = map_option Not (caml_string_equal h s1 s2)"

definition caml_bytes_notequal where "caml_bytes_notequal = caml_string_notequal"

text \<open>The sign of \<open>memcmp\<close>.\<close>

fun memcmp :: "u8 list \<Rightarrow> u8 list \<Rightarrow> int" where
  "memcmp (a # as) (b # bs) = (if a < b then - 1 else if b < a then 1 else memcmp as bs)"
| "memcmp _ _ = 0"

definition caml_string_compare :: "heap \<Rightarrow> mlvalue \<Rightarrow> mlvalue \<Rightarrow> int c_outcome option" where
  "caml_string_compare h s1 s2 = do {
     same \<leftarrow> value_eq s1 s2;
     if same then Some (Done 0)
     else do {
       l1 \<leftarrow> caml_string_length h s1;
       l2 \<leftarrow> caml_string_length h s2;
       case (l1, l2) of
         (Done len1, Done len2) \<Rightarrow> do {
           let len = unat (if len1 \<le> len2 then len1 else len2);
           b1 \<leftarrow> read_bytes h s1 0 len;
           b2 \<leftarrow> read_bytes h s2 0 len;
           let res = memcmp b1 b2;
           Some (Done (if res < 0 then - 1 else if 0 < res then 1
             else if len1 < len2 then - 1 else if len2 < len1 then 1 else 0)) }
       | _ \<Rightarrow> Some Assert_failure } }"

definition caml_bytes_compare where "caml_bytes_compare = caml_string_compare"

definition compare_test :: "(int \<Rightarrow> bool) \<Rightarrow> heap \<Rightarrow> mlvalue \<Rightarrow> mlvalue \<Rightarrow> bool c_outcome option" where
  "compare_test t h s1 s2 = do {
     out \<leftarrow> caml_string_compare h s1 s2;
     case out of Done c \<Rightarrow> Some (Done (t c)) | Exit_failure \<Rightarrow> Some Exit_failure | Assert_failure \<Rightarrow> Some Assert_failure }"

definition caml_string_lessthan where "caml_string_lessthan = compare_test (\<lambda>c. c < 0)"
definition caml_bytes_lessthan where "caml_bytes_lessthan = caml_string_lessthan"
definition caml_string_lessequal where "caml_string_lessequal = compare_test (\<lambda>c. c \<le> 0)"
definition caml_bytes_lessequal where "caml_bytes_lessequal = caml_string_lessequal"
definition caml_string_greaterthan where "caml_string_greaterthan = compare_test (\<lambda>c. c > 0)"
definition caml_bytes_greaterthan where "caml_bytes_greaterthan = caml_string_greaterthan"
definition caml_string_greaterequal where "caml_string_greaterequal = compare_test (\<lambda>c. c \<ge> 0)"
definition caml_bytes_greaterequal where "caml_bytes_greaterequal = caml_string_greaterequal"

section \<open>Copying\<close>

text \<open>\<open>memmove\<close>, so the two ranges may overlap, and \<open>memset\<close>.\<close>

definition caml_blit_bytes :: "mlvalue \<Rightarrow> u64 \<Rightarrow> mlvalue \<Rightarrow> u64 \<Rightarrow> u64 \<Rightarrow> runtime \<Rightarrow> runtime c_result option" where
  "caml_blit_bytes s1 ofs1 s2 ofs2 n r = do {
     bs \<leftarrow> read_bytes (heap r) s1 (sint (Long_val ofs1)) (unat (Long_val n));
     put_bytes s2 (sint (Long_val ofs2)) bs r }"

definition caml_blit_string where "caml_blit_string = caml_blit_bytes"

definition caml_fill_bytes :: "mlvalue \<Rightarrow> u64 \<Rightarrow> u64 \<Rightarrow> u64 \<Rightarrow> runtime \<Rightarrow> runtime c_result option" where
  "caml_fill_bytes s offset len init r =
     put_bytes s (sint (Long_val offset)) (replicate (unat (Long_val len)) (ucast (Int_val init))) r"

definition caml_fill_string where "caml_fill_string = caml_fill_bytes"
definition caml_string_of_bytes :: "mlvalue \<Rightarrow> mlvalue" where "caml_string_of_bytes bv = bv"
definition caml_bytes_of_string :: "mlvalue \<Rightarrow> mlvalue" where "caml_bytes_of_string bv = bv"

end
