(* ===== verification/Strings_Props.thy ===== *)
theory Strings_Props
  imports Strings Heap_Props "HOL-Library.List_Lexorder"
begin

text \<open>
  Strings as C code sees them stand for lists of bytes: copying in, the length, comparison and the
  checked accesses agree with the operations on lists.
\<close>

section \<open>The bytes of a string block\<close>

definition string_bytes :: "u8 list \<Rightarrow> u8 list" where
  "string_bytes bs = bs @ replicate (7 - length bs mod 8) 0 @ [of_nat (7 - length bs mod 8)]"

definition is_string :: "heap \<Rightarrow> mlvalue \<Rightarrow> u8 list \<Rightarrow> bool" where
  "is_string h v bs \<longleftrightarrow> (\<exists>b. v = Ptr b 0) \<and> Tag_val h v = Some String_tag \<and>
     Wosize_val h v = Some ((length bs + 8) div 8) \<and> length bs < 2 ^ 60 \<and>
     (\<forall>k < length (string_bytes bs). Byte_u h v (int k) = Some (string_bytes bs ! k))"

lemma padded_size: "8 * ((n + 8) div 8) = n + (7 - n mod 8) + (1 :: nat)"
proof -
  have "n = 8 * (n div 8) + n mod 8" "n mod 8 < 8" "(n + 8) div 8 = n div 8 + 1" by simp_all
  then show ?thesis by linarith
qed

lemma length_string_bytes: "length (string_bytes bs) = 8 * ((length bs + 8) div 8)"
  unfolding padded_size by (simp add: string_bytes_def)


lemma read_bytes_iff:
  "read_bytes h v i n = Some bs \<longleftrightarrow> length bs = n \<and> (\<forall>k < n. Byte_u h v (i + int k) = Some (bs ! k))"
proof (induction n arbitrary: i bs)
  case (Suc n)
  show ?case
  proof (cases bs)
    case (Cons c cs)
    have "(\<forall>k < Suc n. Byte_u h v (i + int k) = Some (bs ! k)) \<longleftrightarrow>
        Byte_u h v i = Some c \<and> (\<forall>k < n. Byte_u h v (i + 1 + int k) = Some (cs ! k))"
      using Cons by (auto simp: All_less_Suc2 add.assoc)
    then show ?thesis using Suc Cons by (auto simp: bind_Some_iff)
  qed (auto simp: bind_Some_iff)
qed auto

lemma is_string_read:
  assumes "is_string h v bs" "n \<le> length bs"
  shows "read_bytes h v 0 n = Some (take n bs)"
proof -
  have "length bs \<le> length (string_bytes bs)" by (simp add: string_bytes_def)
  moreover have "string_bytes bs ! k = bs ! k" if "k < n" for k
    using that assms(2) by (simp add: string_bytes_def nth_append)
  ultimately show ?thesis using assms by (auto simp: read_bytes_iff is_string_def)
qed

lemma string_bytes_nth_length: "string_bytes bs ! length bs = 0"
  by (cases "7 - length bs mod 8") (simp_all add: string_bytes_def nth_append)

lemma string_bytes_last:
  "string_bytes bs ! (8 * ((length bs + 8) div 8) - 1) = of_nat (7 - length bs mod 8)"
proof -
  have "string_bytes bs ! (length (string_bytes bs) - 1) = last (string_bytes bs)"
    by (rule last_conv_nth [symmetric]) (simp add: string_bytes_def)
  then show ?thesis by (simp add: length_string_bytes) (simp add: string_bytes_def)
qed

lemma string_length_ok:
  assumes "is_string h v bs"
  shows "caml_string_length h v = Some (Done (of_nat (length bs)))"
proof -
  let ?n = "length bs" and ?w = "(length bs + 8) div 8"
  have len: "?n < 2 ^ 60" and w: "Wosize_val h v = Some ?w" using assms by (auto simp: is_string_def)
  have b: "Byte_u h v (int k) = Some (string_bytes bs ! k)" if "k < 8 * ?w" for k
    using assms that by (auto simp: is_string_def length_string_bytes)
  have temp: "of_nat ?w * 8 - 1 = (of_nat (8 * ?w - 1) :: u64)" by (simp add: of_nat_diff)
  have u: "unat (of_nat (8 * ?w - 1) :: u64) = 8 * ?w - 1"
    using len padded_size [of ?n] by (intro unat_of_nat_small) simp
  have s: "sint (of_nat (7 - ?n mod 8) :: u8) = int (7 - ?n mod 8)"
    by (subst of_int_of_nat_eq [symmetric], subst signed_of_int) (simp add: signed_take_bit_int_eq_self)
  have w8: "8 * ?w = ?n + (7 - ?n mod 8) + 1" by (rule padded_size)
  then have "8 * ?w - 1 = ?n + (7 - ?n mod 8)" by linarith
  then have n: "of_nat (8 * ?w - 1) - word_of_int (int (7 - ?n mod 8)) = (of_nat ?n :: u64)"
    by (simp only: of_nat_add of_int_of_nat_eq) simp
  have un: "unat (of_nat ?n :: u64) = ?n" using len by (intro unat_of_nat_small) simp
  have "?n < 8 * ?w" "8 * ?w - 1 < 8 * ?w" using w8 by linarith+
  then have bytes: "Byte_u h v (int (8 * ?w - 1)) = Some (of_nat (7 - ?n mod 8))" "Byte_u h v (int ?n) = Some 0"
    using b [of ?n] b [of "8 * ?w - 1"] by (simp_all only: string_bytes_nth_length string_bytes_last)
  show ?thesis
    unfolding caml_string_length_def w Let_def by (simp only: Option.bind.simps temp u s n un bytes) simp
qed

section \<open>Stores of bytes\<close>

text \<open>What stores into block \<open>b\<close> leave alone: the other blocks, and every tag and size.\<close>

definition only_block :: "nat \<Rightarrow> heap \<Rightarrow> heap \<Rightarrow> bool" where
  "only_block b h h' \<longleftrightarrow> length h' = length h \<and> (\<forall>k. k \<noteq> b \<longrightarrow> nth_opt h' k = nth_opt h k) \<and>
     (\<forall>k < length h. block_tag (h' ! k) = block_tag (h ! k) \<and> length (block_fields (h' ! k)) = length (block_fields (h ! k)))"

lemma only_block_refl: "only_block b h h"
  by (simp add: only_block_def)

lemma only_block_trans: "only_block b h h1 \<Longrightarrow> only_block b h1 h2 \<Longrightarrow> only_block b h h2"
  by (simp add: only_block_def)

lemma only_block_header:
  "only_block b h h' \<Longrightarrow> Tag_val h' (Ptr k 0) = Tag_val h (Ptr k 0)"
  "only_block b h h' \<Longrightarrow> Wosize_val h' (Ptr k 0) = Wosize_val h (Ptr k 0)"
  by (auto simp: only_block_def Tag_val_def Wosize_val_def nth_opt_def)

lemma only_block_Field: "only_block b h h' \<Longrightarrow> k \<noteq> b \<Longrightarrow> Field h' (Ptr k j) i = Field h (Ptr k j) i"
  by (simp add: only_block_def Field_def)

lemma only_block_append:
  assumes "only_block (length h) (h @ [x]) h'"
  obtains y where "h' = h @ [y]"
proof -
  have "h' = h @ [last h']"
  proof (rule nth_equalityI)
    show "length h' = length (h @ [last h'])" using assms by (simp add: only_block_def)
    fix k assume "k < length h'"
    moreover have "length h' = Suc (length h)" using assms by (simp add: only_block_def)
    moreover from this have "last h' = h' ! length h" by (cases h' rule: rev_cases) (auto simp: nth_append)
    ultimately show "h' ! k = (h @ [last h']) ! k"
      using assms by (cases "k = length h") (auto simp: only_block_def nth_append nth_opt_def split: if_splits)
  qed
  then show thesis by (rule that)
qed

lemma caml_modify_ok:
  assumes "Field h (Ptr b j) i \<noteq> None"
  shows "\<exists>h'. caml_modify h (Ptr b j) i x = Some h' \<and> only_block b h h'"
proof -
  from assms have "\<exists>h'. caml_modify h (Ptr b j) i x = Some h'"
    by (auto simp: Field_def caml_modify_def bind_Some_iff int_upd_def upd_opt_def)
  then show ?thesis using caml_modify_frame by (fastforce simp: only_block_def)
qed

lemma Set_byte_ok:
  assumes "Byte_u h (Ptr b j) i \<noteq> None"
  shows "\<exists>h'. Set_byte h (Ptr b j) i c = Some h' \<and> only_block b h h'"
proof -
  from assms obtain w where "Field h (Ptr b j) (i div 8) = Some (Word w)"
    by (auto simp: Byte_u_def bind_Some_iff elim!: word_of.elims)
  then show ?thesis using caml_modify_ok [of h b j "i div 8"] by (simp add: Set_byte_def)
qed

lemma store_bytes_ok:
  assumes "\<forall>k < length bs. Byte_u h (Ptr b j) (i + int k) \<noteq> None"
  shows "\<exists>h'. store_bytes h (Ptr b j) i bs = Some h' \<and> only_block b h h' \<and>
    (\<forall>k. Byte_u h' (Ptr b j) k = (if i \<le> k \<and> k < i + int (length bs) then Some (bs ! nat (k - i)) else Byte_u h (Ptr b j) k))"
  using assms
proof (induction bs arbitrary: h i)
  case Nil
  then show ?case by (auto simp: only_block_refl)
next
  case (Cons c cs)
  obtain h1 where h1: "Set_byte h (Ptr b j) i c = Some h1" "only_block b h h1"
    using Set_byte_ok [of h b j i c] Cons.prems [rule_format, of 0] by auto
  note b1 = Byte_u_Set_byte [OF h1(1)]
  have "Byte_u h1 (Ptr b j) (i + 1 + int k) \<noteq> None" if "k < length cs" for k
    using Cons.prems [rule_format, of "Suc k"] that by (simp add: b1 add.assoc)
  then have "\<forall>k < length cs. Byte_u h1 (Ptr b j) (i + 1 + int k) \<noteq> None" by blast
  from Cons.IH [OF this] obtain h' where h': "store_bytes h1 (Ptr b j) (i + 1) cs = Some h'" "only_block b h1 h'"
    "\<And>k. Byte_u h' (Ptr b j) k = (if i + 1 \<le> k \<and> k < i + 1 + int (length cs) then Some (cs ! nat (k - (i + 1)))
       else Byte_u h1 (Ptr b j) k)" by blast
  have "Byte_u h' (Ptr b j) k = (if i \<le> k \<and> k < i + int (length (c # cs)) then Some ((c # cs) ! nat (k - i))
      else Byte_u h (Ptr b j) k)" for k
  proof -
    have "nat (k - i) = Suc (nat (k - (i + 1)))" if "i + 1 \<le> k" using that by simp
    then show ?thesis using h'(3) [of k] b1 [of k] by (auto simp del: nat_diff_distrib')
  qed
  then show ?case using h1 h' only_block_trans by (intro exI [of _ h']) auto
qed

section \<open>Allocating a string\<close>

lemma Byte_u_word: "Field h v (i div 8) = Some (Word w) \<Longrightarrow> Byte_u h v i = Some (ucast (drop_bit (8 * nat (i mod 8)) w))"
  by (simp add: Byte_u_def)

lemma fresh_block_Field:
  "int_nth (replicate n (Word fill)) i \<noteq> None \<Longrightarrow> Field (h @ [fresh_block n tag fill]) (Ptr (length h) 0) i = Some (Word fill)"
  by (auto simp: Field_def fresh_block_def int_nth_def nth_opt_def split: if_splits)

text \<open>
  A fresh block after the last word was cleared and the padding counted: the bytes from \<open>n\<close> on are
  those of a string of length \<open>n\<close>.
\<close>

lemma padded_block:
  assumes n: "n < 2 ^ 60" and w: "w = (n + 8) div 8"
  shows "\<exists>h1 h2. caml_modify (h @ [fresh_block w tag fill]) (Ptr (length h) 0) (int w - 1) (Word 0) = Some h1 \<and>
    Set_byte h1 (Ptr (length h) 0) (int (8 * w - 1)) (of_nat (7 - n mod 8)) = Some h2 \<and>
    only_block (length h) (h @ [fresh_block w tag fill]) h2 \<and>
    (\<forall>k < 8 * w. Byte_u h2 (Ptr (length h) 0) (int k) \<noteq> None \<and> (n \<le> k \<longrightarrow>
       Byte_u h2 (Ptr (length h) 0) (int k) = Some (if k = 8 * w - 1 then of_nat (7 - n mod 8) else 0)))"
proof -
  let ?h = "h @ [fresh_block w tag fill]" and ?v = "Ptr (length h) 0"
  have w1: "1 \<le> w" using w by simp
  have f: "Field ?h ?v (int i) = Some (Word fill)" if "i < w" for i
    using that by (intro fresh_block_Field) (simp add: int_nth_def nth_opt_def)
  obtain h1 where h1: "caml_modify ?h ?v (int w - 1) (Word 0) = Some h1" "only_block (length h) ?h h1"
    using caml_modify_ok [of ?h "length h" 0 "int w - 1" "Word 0"] f [of "w - 1"] w1 by (auto simp: of_nat_diff)
  have f1: "Field h1 ?v (int i) = Some (Word (if i = w - 1 then 0 else fill))" if "i < w" for i
    using Field_caml_modify [OF h1(1), of "int i"] f [OF that] w1 by auto
  have b1: "Byte_u h1 ?v (int k) = Some (ucast (drop_bit (8 * (k mod 8)) (if k div 8 = w - 1 then 0 else fill)))"
    if "k < 8 * w" for k
  proof -
    have q: "int k div 8 = int (k div 8)" "nat (int k mod 8) = k mod 8" by (simp_all add: zdiv_int nat_mod_distrib)
    have "k div 8 < w" using that by (simp add: div_less_iff_less_mult mult.commute)
    then show ?thesis by (simp add: Byte_u_def q f1)
  qed
  obtain h2 where h2: "Set_byte h1 ?v (int (8 * w - 1)) (of_nat (7 - n mod 8)) = Some h2" "only_block (length h) h1 h2"
    using Set_byte_ok [of h1 "length h" 0 "int (8 * w - 1)"] b1 [of "8 * w - 1"] w1 by fastforce
  have "k div 8 = w - 1" if "n \<le> k" "k < 8 * w" for k
    using that w padded_size [of n] by (intro div_nat_eqI) auto
  then have "Byte_u h2 ?v (int k) \<noteq> None \<and> (n \<le> k \<longrightarrow>
       Byte_u h2 ?v (int k) = Some (if k = 8 * w - 1 then of_nat (7 - n mod 8) else 0))" if "k < 8 * w" for k
    using Byte_u_Set_byte [OF h2(1), of "int k"] b1 [OF that] that by auto
  then show ?thesis using h1 h2 only_block_trans by blast
qed

lemma string_words:
  assumes "n < 2 ^ 60"
  shows "unat ((of_nat n + 8) div 8 :: u64) = (n + 8) div 8"
    "unat ((of_nat n + 8) div 8 * 8 - 1 :: u64) = 8 * ((n + 8) div 8) - 1"
    "ucast ((of_nat n + 8) div 8 * 8 - 1 - of_nat n :: u64) = (of_nat (7 - n mod 8) :: u8)"
proof -
  have "of_nat n + 8 = (of_nat (n + 8) :: u64)" by simp
  then have u: "unat (of_nat n + 8 :: u64) = n + 8" using assms unat_of_nat_small [of "n + 8"] by (simp del: of_nat_add)
  show u1: "unat ((of_nat n + 8) div 8 :: u64) = (n + 8) div 8" by (simp add: unat_div u)
  then have w: "(of_nat n + 8) div 8 = (of_nat ((n + 8) div 8) :: u64)" by (metis of_nat_unat ucast_id)
  have "(of_nat n + 8) div 8 * 8 - 1 = (of_nat (8 * ((n + 8) div 8) - 1) :: u64)"
    unfolding w by (simp add: of_nat_diff)
  then have o: "(of_nat n + 8) div 8 * 8 - 1 = (of_nat (n + (7 - n mod 8)) :: u64)" by (simp only: padded_size) simp
  show "unat ((of_nat n + 8) div 8 * 8 - 1 :: u64) = 8 * ((n + 8) div 8) - 1"
    unfolding o padded_size using assms by (subst unat_of_nat_small) simp_all
  have "(of_nat n + 8) div 8 * 8 - 1 - of_nat n = (of_nat (7 - n mod 8) :: u64)" unfolding o by simp
  then show "ucast ((of_nat n + 8) div 8 * 8 - 1 - of_nat n :: u64) = (of_nat (7 - n mod 8) :: u8)"
    by (simp only: unsigned_of_nat) (simp add: take_bit_eq_mod)
qed

lemma alloc_string_ok:
  assumes n: "n < 2 ^ 60" and mem: "\<And>k q. shared_try_alloc hk k q"
  shows "\<exists>h. caml_alloc_string hk (of_nat n) r = Some (Returned (Ptr (length (heap r)) 0) (r\<lparr>heap := h\<rparr>)) \<and>
    (\<exists>fill. only_block (length (heap r)) (heap r @ [fresh_block ((n + 8) div 8) String_tag fill]) h) \<and>
    (\<forall>k < 8 * ((n + 8) div 8). Byte_u h (Ptr (length (heap r)) 0) (int k) \<noteq> None \<and> (n \<le> k \<longrightarrow>
       Byte_u h (Ptr (length (heap r)) 0) (int k) = Some (if k = 8 * ((n + 8) div 8) - 1 then of_nat (7 - n mod 8) else 0)))"
proof -
  let ?w = "(n + 8) div 8"
  have "1 \<le> ?w" by simp
  then obtain fill where alloc: "(if ?w \<le> Max_young_wosize then alloc_minor ?w String_tag r else alloc_shr hk ?w String_tag r) =
      Some (Returned (Ptr (length (heap r)) 0) (r\<lparr>heap := heap r @ [fresh_block ?w String_tag fill]\<rparr>))"
    using mem that [of Debug_uninit_minor] that [of Debug_uninit_major]
    by (cases "?w \<le> Max_young_wosize") (simp_all add: alloc_minor_def alloc_shr_def String_tag_def)
  obtain h1 h2 where h: "caml_modify (heap r @ [fresh_block ?w String_tag fill]) (Ptr (length (heap r)) 0) (int ?w - 1) (Word 0) = Some h1"
    "Set_byte h1 (Ptr (length (heap r)) 0) (int (8 * ?w - 1)) (of_nat (7 - n mod 8)) = Some h2"
    and rest: "only_block (length (heap r)) (heap r @ [fresh_block ?w String_tag fill]) h2"
    "\<forall>k < 8 * ?w. Byte_u h2 (Ptr (length (heap r)) 0) (int k) \<noteq> None \<and> (n \<le> k \<longrightarrow>
       Byte_u h2 (Ptr (length (heap r)) 0) (int k) = Some (if k = 8 * ?w - 1 then of_nat (7 - n mod 8) else 0))"
    using padded_block [OF n refl, of "heap r" String_tag fill] by blast
  have "caml_alloc_string hk (of_nat n) r = Some (Returned (Ptr (length (heap r)) 0) (r\<lparr>heap := h2\<rparr>))"
    unfolding caml_alloc_string_def Let_def string_words [OF n] alloc using h by simp
  then show ?thesis using rest by blast
qed

lemma alloc_initialized_string_ok:
  assumes bs: "take_opt n p = Some bs" "n < 2 ^ 60" and mem: "\<And>k q. shared_try_alloc hk k q"
  shows "\<exists>h blk. caml_alloc_initialized_string hk (of_nat n) p r = Some (Returned (Ptr (length (heap r)) 0) (r\<lparr>heap := h\<rparr>)) \<and>
    h = heap r @ [blk] \<and> is_string h (Ptr (length (heap r)) 0) bs"
proof -
  let ?w = "(n + 8) div 8" and ?v = "Ptr (length (heap r)) 0"
  have len: "length bs = n" using bs by auto
  obtain h fill where h: "caml_alloc_string hk (of_nat n) r = Some (Returned ?v (r\<lparr>heap := h\<rparr>))"
    "only_block (length (heap r)) (heap r @ [fresh_block ?w String_tag fill]) h"
    "\<And>k. k < 8 * ?w \<Longrightarrow> Byte_u h ?v (int k) \<noteq> None"
    "\<And>k. k < 8 * ?w \<Longrightarrow> n \<le> k \<Longrightarrow> Byte_u h ?v (int k) = Some (if k = 8 * ?w - 1 then of_nat (7 - n mod 8) else 0)"
    using alloc_string_ok [OF bs(2) mem, of r] by metis
  have n8: "n < 8 * ?w" using padded_size [of n] by linarith
  then obtain h' where h': "store_bytes h ?v 0 bs = Some h'" "only_block (length (heap r)) h h'"
    "\<And>k. Byte_u h' ?v k = (if 0 \<le> k \<and> k < int n then Some (bs ! nat k) else Byte_u h ?v k)"
    using store_bytes_ok [of bs h "length (heap r)" 0 0] h(3) len by auto
  have only: "only_block (length (heap r)) (heap r @ [fresh_block ?w String_tag fill]) h'"
    using h(2) h'(2) by (rule only_block_trans)
  then obtain blk where blk: "h' = heap r @ [blk]" by (rule only_block_append)
  have "Byte_u h' ?v (int k) = Some (string_bytes bs ! k)" if "k < 8 * ?w" for k
    using h'(3) [of "int k"] h(4) [OF that] that padded_size [of n] len
    by (auto simp: string_bytes_def nth_append nth_Cons')
  moreover have "Tag_val h' ?v = Some String_tag" "Wosize_val h' ?v = Some ?w"
    using only_block_header [OF only, of "length (heap r)"] by (simp_all add: Tag_val_def Wosize_val_def fresh_block_def)
  ultimately have "is_string h' ?v bs" using len bs(2) by (simp add: is_string_def length_string_bytes)
  moreover have "caml_alloc_initialized_string hk (of_nat n) p r = Some (Returned ?v (r\<lparr>heap := h'\<rparr>))"
    using h(1) h'(1) bs(2) by (simp add: caml_alloc_initialized_string_def unat_of_nat_small bs(1))
  ultimately show ?thesis using blk by blast
qed

lemma strlen_take: "strlen s = Some n \<Longrightarrow> n < length s \<and> s ! n = 0 \<and> (\<forall>k < n. s ! k \<noteq> 0)"
  by (induction s arbitrary: n) (auto split: if_splits simp: nth_Cons' less_Suc_eq_0_disj)

section \<open>Copying C strings\<close>

lemma strlen_read:
  assumes "\<forall>k < n. bs ! k \<noteq> 0" "n < length bs" "bs ! n = 0"
  shows "strlen bs = Some n"
  using assms
proof (induction bs arbitrary: n)
  case (Cons b bs)
  show ?case
  proof (cases n)
    case (Suc m)
    then have "strlen bs = Some m" using Cons.prems by (intro Cons.IH) auto
    then show ?thesis using Cons.prems(1) Suc by auto
  qed (use Cons.prems in simp)
qed simp

lemma string_c_safe:
  assumes "is_string (heap r) v bs" "\<forall>k < length bs. bs ! k \<noteq> 0"
  shows "caml_string_is_c_safe v r = Some (Done True)"
proof -
  have "read_bytes (heap r) v 0 (8 * ((length bs + 8) div 8)) = Some (string_bytes bs)"
    using assms(1) by (simp add: read_bytes_iff is_string_def length_string_bytes)
  moreover have "strlen (string_bytes bs) = Some (length bs)"
    using assms(2) string_bytes_nth_length [of bs] by (intro strlen_read) (auto simp: string_bytes_def nth_append)
  moreover have "Wosize_val (heap r) v = Some ((length bs + 8) div 8)" using assms(1) by (simp add: is_string_def)
  ultimately show ?thesis using string_length_ok [OF assms(1)] by (simp add: caml_string_is_c_safe_def)
qed

text \<open>
  \<open>caml_copy_string\<close> puts the bytes before the terminating 0 into a new OCaml string: its length is \<open>strlen\<close>,
  its bytes are those of the C string, it is safe to hand back to C, and no other block changes.
\<close>

theorem copy_string_roundtrip:
  assumes "strlen s = Some n" "n < 2 ^ 60" "\<forall>k q. shared_try_alloc hk k q"
  shows "\<exists>v r' blk. caml_copy_string hk s r = Some (Returned v r') \<and> heap r' = heap r @ [blk] \<and>
    caml_string_length (heap r') v = Some (Done (of_nat n)) \<and> read_bytes (heap r') v 0 n = Some (take n s) \<and>
    caml_string_is_c_safe v r' = Some (Done True)"
proof -
  note s = strlen_take [OF assms(1)]
  then have t: "take_opt n s = Some (take n s)" "length (take n s) = n" by (simp_all add: take_opt_def)
  obtain h blk where h: "caml_alloc_initialized_string hk (of_nat n) s r = Some (Returned (Ptr (length (heap r)) 0) (r\<lparr>heap := h\<rparr>))"
    "h = heap r @ [blk]" "is_string h (Ptr (length (heap r)) 0) (take n s)"
    using alloc_initialized_string_ok [OF t(1) assms(2), of hk r] assms(3) by blast
  have "caml_string_is_c_safe (Ptr (length (heap r)) 0) (r\<lparr>heap := h\<rparr>) = Some (Done True)"
    using h(3) s by (intro string_c_safe) auto
  then show ?thesis
    using h string_length_ok [OF h(3)] is_string_read [OF h(3), of n] t(2)
    by (intro exI [of _ "Ptr (length (heap r)) 0"] exI [of _ "r\<lparr>heap := h\<rparr>"] exI [of _ blk])
      (simp add: caml_copy_string_def assms(1))
qed

theorem copy_string_roundtrip_witness:
  "\<exists>v r' blk. caml_copy_string quiet_hooks (c_literal ''profile'') sample_rt = Some (Returned v r') \<and> heap r' = [blk] \<and>
    caml_string_length (heap r') v = Some (Done 7) \<and>
    read_bytes (heap r') v 0 7 = Some [0x70, 0x72, 0x6F, 0x66, 0x69, 0x6C, 0x65]"
proof -
  have "c_literal ''profile'' = [0x70, 0x72, 0x6F, 0x66, 0x69, 0x6C, 0x65, 0]" by (simp add: c_literal_def)
  moreover have "strlen [0x70, 0x72, 0x6F, 0x66, 0x69, 0x6C, 0x65, 0] = Some 7" by simp
  moreover have "\<forall>k q. shared_try_alloc quiet_hooks k q" by (simp add: quiet_hooks_def)
  ultimately show ?thesis
    using copy_string_roundtrip [of "c_literal ''profile''" 7 quiet_hooks sample_rt]
    by (auto simp: sample_rt_def)
qed

section \<open>Comparing strings\<close>

lemma word_bytes_eq:
  assumes "\<forall>k < 8. (ucast (drop_bit (8 * k) a) :: u8) = ucast (drop_bit (8 * k) (b :: u64))"
  shows "a = b"
proof (rule bit_word_eqI)
  fix n assume "n < LENGTH(64)"
  then have "n div 8 < 8" "n mod 8 < 8" by (simp_all add: div_less_iff_less_mult)
  then have "bit (ucast (drop_bit (8 * (n div 8)) a) :: u8) (n mod 8) = bit (ucast (drop_bit (8 * (n div 8)) b) :: u8) (n mod 8)"
    using assms by simp
  then show "bit a n = bit b n" using \<open>n mod 8 < 8\<close> by (simp add: bit_simps)
qed

lemma string_Field:
  assumes "is_string h v bs" "i < (length bs + 8) div 8"
  shows "\<exists>w. Field h v (int i) = Some (Word w) \<and> (\<forall>k < 8. ucast (drop_bit (8 * k) w) = string_bytes bs ! (8 * i + k))"
proof -
  have b: "Byte_u h v (int (8 * i + k)) = Some (string_bytes bs ! (8 * i + k))" if "k < 8" for k
  proof -
    have "8 * i + k < 8 * ((length bs + 8) div 8)" using assms(2) that by linarith
    with assms(1) show ?thesis unfolding is_string_def length_string_bytes by blast
  qed
  have q: "int (8 * i + k) div 8 = int i" "nat (int (8 * i + k) mod 8) = k" if "k < 8" for k
    using that by (simp_all add: nat_mod_distrib)
  obtain w where "Field h v (int i) = Some (Word w)"
    using b [of 0] q [of 0] by (auto simp: Byte_u_def bind_Some_iff elim!: word_of.elims)
  then show ?thesis using b q by (fastforce simp: Byte_u_def)
qed

lemma words_equal_iff:
  assumes "is_string h s1 bs1" "is_string h s2 bs2" "i + n \<le> (length bs1 + 8) div 8" "i + n \<le> (length bs2 + 8) div 8"
  shows "words_equal h s1 s2 (int i) n = Some (\<forall>k. 8 * i \<le> k \<and> k < 8 * (i + n) \<longrightarrow> string_bytes bs1 ! k = string_bytes bs2 ! k)"
  using assms(3,4)
proof (induction n arbitrary: i)
  case (Suc n)
  obtain a b where a: "Field h s1 (int i) = Some (Word a)" "\<forall>k < 8. ucast (drop_bit (8 * k) a) = string_bytes bs1 ! (8 * i + k)"
    and b: "Field h s2 (int i) = Some (Word b)" "\<forall>k < 8. ucast (drop_bit (8 * k) b) = string_bytes bs2 ! (8 * i + k)"
    using string_Field [OF assms(1), of i] string_Field [OF assms(2), of i] Suc.prems by auto
  have "a = b \<longleftrightarrow> (\<forall>k < 8. string_bytes bs1 ! (8 * i + k) = string_bytes bs2 ! (8 * i + k))"
    using a(2) b(2) word_bytes_eq [of a b] by metis
  also have "\<dots> \<longleftrightarrow> (\<forall>k. 8 * i \<le> k \<and> k < 8 * Suc i \<longrightarrow> string_bytes bs1 ! k = string_bytes bs2 ! k)"
    by (auto simp: le_iff_add)
  finally have eq: "a = b \<longleftrightarrow> \<dots>" .
  have "(\<forall>k. 8 * i \<le> k \<and> k < 8 * (i + Suc n) \<longrightarrow> string_bytes bs1 ! k = string_bytes bs2 ! k) \<longleftrightarrow>
      a = b \<and> (\<forall>k. 8 * Suc i \<le> k \<and> k < 8 * (Suc i + n) \<longrightarrow> string_bytes bs1 ! k = string_bytes bs2 ! k)"
    unfolding eq by (auto simp: not_less [symmetric])
  then show ?case using Suc.IH [of "Suc i"] Suc.prems a(1) b(1) by (simp add: add.commute)
qed auto

lemma string_bytes_inject:
  assumes "string_bytes bs1 = string_bytes bs2"
  shows "bs1 = bs2"
proof -
  have l: "length bs + (7 - length bs mod 8) + 1 = length (string_bytes bs)" for bs :: "u8 list"
    by (simp add: length_string_bytes padded_size)
  have last: "last (string_bytes bs) = of_nat (7 - length bs mod 8)" for bs by (simp add: string_bytes_def)
  have "(of_nat (7 - length bs1 mod 8) :: u8) = of_nat (7 - length bs2 mod 8)" using assms last by metis
  then have "7 - length bs1 mod 8 = 7 - length bs2 mod 8"
    by (simp add: word_of_nat_eq_iff take_bit_eq_mod)
  moreover have "length (string_bytes bs1) = length (string_bytes bs2)" using assms by simp
  ultimately have "length bs1 = length bs2" using l [of bs1] l [of bs2] by linarith
  then show ?thesis using assms by (simp add: string_bytes_def)
qed

lemma string_equal_ok:
  assumes "is_string h s1 bs1" "is_string h s2 bs2"
  shows "caml_string_equal h s1 s2 = Some (bs1 = bs2)"
proof -
  obtain b1 b2 where p: "s1 = Ptr b1 0" "s2 = Ptr b2 0" using assms by (auto simp: is_string_def)
  have w: "Wosize_val h s1 = Some ((length bs1 + 8) div 8)" "Wosize_val h s2 = Some ((length bs2 + 8) div 8)"
    using assms by (simp_all add: is_string_def)
  show ?thesis
  proof (cases "b1 = b2 \<or> (length bs1 + 8) div 8 \<noteq> (length bs2 + 8) div 8")
    case True
    have "string_bytes bs1 = string_bytes bs2" if "b1 = b2"
      using that assms p w by (intro nth_equalityI) (auto simp: is_string_def length_string_bytes)
    then show ?thesis using True p w string_bytes_inject by (auto simp: caml_string_equal_def)
  next
    case False
    then have len: "length (string_bytes bs1) = length (string_bytes bs2)" by (simp add: length_string_bytes)
    have "(\<forall>k. 8 * 0 \<le> k \<and> k < 8 * (0 + (length bs1 + 8) div 8) \<longrightarrow> string_bytes bs1 ! k = string_bytes bs2 ! k) \<longleftrightarrow> bs1 = bs2"
      using len string_bytes_inject by (auto simp: list_eq_iff_nth_eq [of "string_bytes bs1"] length_string_bytes)
    then show ?thesis
      using False p w words_equal_iff [OF assms, of 0 "(length bs1 + 8) div 8"] by (simp add: caml_string_equal_def)
  qed
qed

definition lex_compare :: "u8 list \<Rightarrow> u8 list \<Rightarrow> int" where
  "lex_compare as bs = (if as = bs then 0 else if as < bs then - 1 else 1)"

lemma nonempty_greater: "[] < bs \<longleftrightarrow> [] \<noteq> (bs :: u8 list)"
  by (cases bs) simp_all

lemma memcmp_lex:
  fixes as bs :: "u8 list"
  defines "m \<equiv> min (length as) (length bs)"
  shows "(let res = memcmp (take m as) (take m bs) in if res < 0 then - 1 else if 0 < res then 1
    else if length as < length bs then - 1 else if length bs < length as then 1 else 0) = lex_compare as bs"
  unfolding m_def
proof (induction as bs rule: memcmp.induct)
  case (1 a as b bs)
  then show ?case by (auto simp: lex_compare_def Let_def split: if_splits)
qed (auto simp: lex_compare_def nonempty_greater)

lemma string_compare_ok:
  assumes "is_string h s1 bs1" "is_string h s2 bs2"
  shows "caml_string_compare h s1 s2 = Some (Done (lex_compare bs1 bs2))"
proof -
  obtain b1 b2 where p: "s1 = Ptr b1 0" "s2 = Ptr b2 0" using assms by (auto simp: is_string_def)
  show ?thesis
  proof (cases "b1 = b2")
    case True
    then have "bs1 = bs2" using string_equal_ok [OF assms] p by (auto simp: caml_string_equal_def)
    with True p show ?thesis by (simp add: caml_string_compare_def lex_compare_def)
  next
    case False
    define m where "m = min (length bs1) (length bs2)"
    have small: "length bs1 < 2 ^ 64" "length bs2 < 2 ^ 64" using assms by (simp_all add: is_string_def)
    then have u: "unat (of_nat (length bs1) :: u64) = length bs1" "unat (of_nat (length bs2) :: u64) = length bs2"
      by (simp_all add: unat_of_nat_small)
    have m: "unat (if (of_nat (length bs1) :: u64) \<le> of_nat (length bs2) then of_nat (length bs1) else of_nat (length bs2) :: u64) = m"
      using u by (auto simp: word_le_nat_alt m_def)
    have "read_bytes h s1 0 m = Some (take m bs1)" "read_bytes h s2 0 m = Some (take m bs2)"
      using is_string_read [OF assms(1), of m] is_string_read [OF assms(2), of m] by (simp_all add: m_def)
    then have "caml_string_compare h s1 s2 = Some (Done (let res = memcmp (take m bs1) (take m bs2) in
        if res < 0 then - 1 else if 0 < res then 1
        else if length bs1 < length bs2 then - 1 else if length bs2 < length bs1 then 1 else 0))"
      using False p string_length_ok [OF assms(1)] string_length_ok [OF assms(2)]
      unfolding caml_string_compare_def Let_def by (simp add: m word_less_nat_alt u del: if_split cong: if_cong)
    then show ?thesis using memcmp_lex [of bs1 bs2] by (simp add: m_def)
  qed
qed

text \<open>C36:
  Comparing strings compares the bytes they stand for: the word-by-word loop of \<open>caml_string_equal\<close> decides
  equality, and \<open>caml_string_compare\<close> and its four tests decide the lexicographic order of unsigned bytes.
\<close>

theorem string_comparison:
  assumes "is_string h s1 bs1" "is_string h s2 bs2"
  shows "caml_string_equal h s1 s2 = Some (bs1 = bs2) \<and> caml_string_notequal h s1 s2 = Some (bs1 \<noteq> bs2) \<and>
    caml_string_compare h s1 s2 = Some (Done (if bs1 = bs2 then 0 else if bs1 < bs2 then - 1 else 1)) \<and>
    caml_string_lessthan h s1 s2 = Some (Done (bs1 < bs2)) \<and> caml_string_lessequal h s1 s2 = Some (Done (bs1 \<le> bs2)) \<and>
    caml_string_greaterthan h s1 s2 = Some (Done (bs2 < bs1)) \<and> caml_string_greaterequal h s1 s2 = Some (Done (bs2 \<le> bs1))"
proof -
  have "compare_test t h s1 s2 = Some (Done (t (lex_compare bs1 bs2)))" for t
    using string_compare_ok [OF assms] by (simp add: compare_test_def)
  then show ?thesis using string_equal_ok [OF assms] string_compare_ok [OF assms]
    by (auto simp: caml_string_notequal_def caml_string_lessthan_def caml_string_lessequal_def caml_string_greaterthan_def
        caml_string_greaterequal_def lex_compare_def)
qed

text \<open>\<open>"ab"\<close> and \<open>"b"\<close>.\<close>

definition two_strings :: heap where
  "two_strings = [\<lparr>block_tag = String_tag, block_fields = [Word 0x0500000000006261]\<rparr>,
     \<lparr>block_tag = String_tag, block_fields = [Word 0x0600000000000062]\<rparr>]"

lemma one_word_string:
  assumes "Tag_val h (Ptr b 0) = Some String_tag" "Wosize_val h (Ptr b 0) = Some 1" "Field h (Ptr b 0) 0 = Some (Word w)"
    "length bs < 8" "string_bytes bs = map (\<lambda>k. ucast (drop_bit (8 * k) w)) [0..<8]"
  shows "is_string h (Ptr b 0) bs"
proof -
  have "Byte_u h (Ptr b 0) (int k) = Some (string_bytes bs ! k)" if "k < 8" for k
    using that assms(3,5) by (simp add: Byte_u_def nat_mod_distrib)
  then show ?thesis using assms length_string_bytes [of bs] by (simp add: is_string_def)
qed

lemma two_strings_ok: "is_string two_strings (Ptr 0 0) [0x61, 0x62]" "is_string two_strings (Ptr 1 0) [0x62]"
proof -
  have "string_bytes [0x61, 0x62] = map (\<lambda>k. ucast (drop_bit (8 * k) (0x0500000000006261 :: u64))) [0..<8]"
    "string_bytes [0x62] = map (\<lambda>k. ucast (drop_bit (8 * k) (0x0600000000000062 :: u64))) [0..<8]" by code_simp+
  then show "is_string two_strings (Ptr 0 0) [0x61, 0x62]" "is_string two_strings (Ptr 1 0) [0x62]"
    by (auto intro!: one_word_string simp: two_strings_def Tag_val_def Wosize_val_def Field_def int_nth_def)
qed

theorem string_comparison_witness:
  "caml_string_equal two_strings (Ptr 0 0) (Ptr 1 0) = Some False \<and> caml_string_compare two_strings (Ptr 0 0) (Ptr 1 0) = Some (Done (- 1)) \<and>
   caml_string_lessthan two_strings (Ptr 0 0) (Ptr 1 0) = Some (Done True)"
  using string_comparison [OF two_strings_ok] by simp

section \<open>Checked accesses\<close>

lemma split_join: "join_le (split_le n w) = take_bit (8 * n) w"
proof (induction n arbitrary: w)
  case (Suc n)
  have "ucast (ucast w :: u8) OR push_bit 8 (take_bit (8 * n) (drop_bit 8 w)) = take_bit (8 * Suc n) w"
    by (rule bit_word_eqI) (auto simp: bit_simps not_less)
  then show ?case by (simp add: Suc)
qed simp

lemma length_split_le [simp]: "length (split_le n w) = n"
  by (induction n arbitrary: w) simp_all

text \<open>In bounds, a checked access runs its body; anywhere else it raises.\<close>

lemma checked_access_ok:
  assumes "is_string (heap r) s bs" "fits63 i" "0 \<le> k" "k < 8"
  shows "checked_access hk (word_of_int k) s (tag_int i) r f =
    (if 0 \<le> i \<and> i + k < int (length bs) then f i else caml_array_bound_error hk r)"
proof -
  have L: "Long_val (tag_int i) = word_of_int i" using assms(2) by (rule Long_val_tag_int)
  have si: "sint (word_of_int i :: u64) = i" using assms(2) sint_Long_val_tag_int L by metis
  have len: "length bs < 2 ^ 60" using assms(1) by (simp add: is_string_def)
  show ?thesis
  proof (cases "0 \<le> i")
    case True
    have le: "i + k < 2 ^ 64" "i < 2 ^ 64" using assms(2,4) by (simp_all add: fits63_def Max_long_def)
    have u: "uint (word_of_int j :: u64) = j" if "0 \<le> j" "j < 2 ^ 64" for j
      using that by (simp only: uint_word_of_int) simp
    have ui: "int (unat (word_of_int i :: u64)) = i" using u [OF True le(2)] by (simp only: uint_nat)
    have "uint (of_nat (length bs) :: u64) = int (length bs)" using u [of "int (length bs)"] len by simp
    then have "(of_nat (length bs) \<le> (word_of_int i + word_of_int k :: u64)) \<longleftrightarrow> \<not> i + k < int (length bs)"
      using u [of "i + k"] True assms(3) le(1) by (simp add: word_le_def not_less)
    then show ?thesis
      using True L si ui string_length_ok [OF assms(1)] by (simp add: checked_access_def with_length_def Let_def)
  qed (simp add: checked_access_def L si Let_def)
qed

definition overwrite :: "u8 list \<Rightarrow> nat \<Rightarrow> u8 list \<Rightarrow> u8 list" where
  "overwrite bs i cs = take i bs @ cs @ drop (i + length cs) bs"

lemma overwrite_nth:
  assumes "i + length cs \<le> length bs"
  shows "length (overwrite bs i cs) = length bs"
    "k < length (string_bytes bs) \<Longrightarrow> string_bytes (overwrite bs i cs) ! k =
       (if i \<le> k \<and> k < i + length cs then cs ! (k - i) else string_bytes bs ! k)"
  using assms by (auto simp: overwrite_def string_bytes_def nth_append nth_Cons')

lemma put_bytes_ok:
  assumes s: "is_string (heap r) s bs" and i: "0 \<le> i" "i + int (length cs) \<le> int (length bs)"
  shows "\<exists>h. put_bytes s i cs r = Some (Returned Val_unit (r\<lparr>heap := h\<rparr>)) \<and> is_string h s (overwrite bs (nat i) cs) \<and>
    read_bytes h s i (length cs) = Some cs"
proof -
  obtain b where b: "s = Ptr b 0" using s by (auto simp: is_string_def)
  have le: "nat i + length cs \<le> length bs" using i by linarith
  have B: "Byte_u (heap r) s (int k) = Some (string_bytes bs ! k)" if "k < length (string_bytes bs)" for k
    using s that by (auto simp: is_string_def)
  have len: "length bs \<le> length (string_bytes bs)" by (simp add: string_bytes_def)
  have "Byte_u (heap r) s (i + int k) \<noteq> None" if "k < length cs" for k
    using B [of "nat i + k"] that le len i(1) by simp
  then obtain h where h: "store_bytes (heap r) s i cs = Some h" "only_block b (heap r) h"
    "\<And>k. Byte_u h s k = (if i \<le> k \<and> k < i + int (length cs) then Some (cs ! nat (k - i)) else Byte_u (heap r) s k)"
    using store_bytes_ok [of cs "heap r" b 0 i] b by blast
  have "Byte_u h s (int k) = Some (string_bytes (overwrite bs (nat i) cs) ! k)" if "k < length (string_bytes bs)" for k
    using h(3) [of "int k"] B [OF that] overwrite_nth(2) [OF le that] i(1) by (auto simp: nat_diff_distrib' le_nat_iff)
  then have "is_string h s (overwrite bs (nat i) cs)"
    using s only_block_header [OF h(2), of b] b overwrite_nth(1) [OF le] by (simp add: is_string_def length_string_bytes)
  moreover have "read_bytes h s i (length cs) = Some cs" using h(3) by (simp add: read_bytes_iff)
  ultimately show ?thesis using h(1) by (intro exI [of _ h]) (simp add: put_bytes_def)
qed

lemma copy_int64_ok: "\<exists>v r'. caml_copy_int64 ops x r = Some (Returned v r') \<and> Int64_val (heap r') v = Some x"
  by (simp add: caml_copy_int64_def do_alloc_small_def alloc_minor_def Max_young_wosize_def Custom_tag_def set_fields_def
      init_fields_all Int64_val_def Field_def int_nth_def)

text \<open>C35:
  A 64-bit access is checked and exact. In bounds, \<open>caml_bytes_set64\<close> overwrites eight bytes of the sequence,
  least significant first, and \<open>caml_string_get64\<close> reads the same integer back; at any other index, negative
  ones and those near the end included, both raise \<open>Invalid_argument\<close> without touching the bytes.
\<close>

theorem bytes_set64_get64:
  assumes "is_string (heap r) s bs" "fits63 i" "Int64_val (heap r) newval = Some x"
  shows "(if 0 \<le> i \<and> i + 7 < int (length bs) then \<exists>r1 v r2.
      caml_bytes_set64 hk s (tag_int i) newval r = Some (Returned Val_unit r1) \<and>
      is_string (heap r1) s (take (nat i) bs @ split_le 8 x @ drop (nat i + 8) bs) \<and>
      caml_string_get64 hk ops s (tag_int i) r1 = Some (Returned v r2) \<and> Int64_val (heap r2) v = Some x
    else caml_bytes_set64 hk s (tag_int i) newval r = caml_array_bound_error hk r \<and>
      caml_string_get64 hk ops s (tag_int i) r = caml_array_bound_error hk r)"
proof -
  have access: "checked_access hk 7 s (tag_int i) q f = (if 0 \<le> i \<and> i + 7 < int (length cs) then f i else caml_array_bound_error hk q)"
    if "is_string (heap q) s cs" for q cs f
    using checked_access_ok [OF that assms(2), of 7 hk f] by simp
  show ?thesis
  proof (cases "0 \<le> i \<and> i + 7 < int (length bs)")
    case True
    then obtain h where h: "put_bytes s i (split_le 8 x) r = Some (Returned Val_unit (r\<lparr>heap := h\<rparr>))"
      "is_string h s (overwrite bs (nat i) (split_le 8 x))" "read_bytes h s i 8 = Some (split_le 8 x)"
      using put_bytes_ok [OF assms(1), of i "split_le 8 x"] by auto
    have "length (overwrite bs (nat i) (split_le 8 x)) = length bs" using True by (intro overwrite_nth) auto
    then have "caml_string_get64 hk ops s (tag_int i) (r\<lparr>heap := h\<rparr>) = caml_copy_int64 ops x (r\<lparr>heap := h\<rparr>)"
      using True access [of "r\<lparr>heap := h\<rparr>", OF _] h(2,3) split_join [of 8 x]
      by (simp add: caml_string_get64_def take_bit_word_eq_self)
    moreover have "caml_bytes_set64 hk s (tag_int i) newval r = Some (Returned Val_unit (r\<lparr>heap := h\<rparr>))"
      using True access [OF assms(1)] h(1) assms(3) by (simp add: caml_bytes_set64_def)
    ultimately show ?thesis using True h(2) copy_int64_ok [of ops x "r\<lparr>heap := h\<rparr>"] by (auto simp: overwrite_def)
  next
    case False
    then show ?thesis using access [OF assms(1)] by (auto simp: caml_bytes_set64_def caml_string_get64_def)
  qed
qed

text \<open>\<open>"abcdefgh"\<close> and a boxed integer.\<close>

definition eight_bytes :: runtime where
  "eight_bytes = sample_rt\<lparr>heap := [\<lparr>block_tag = String_tag, block_fields = [Word 0x6867666564636261, Word 0x0700000000000000]\<rparr>,
     \<lparr>block_tag = Custom_tag, block_fields = [Code 0, Word 0x1122334455667788]\<rparr>]\<rparr>"

lemma eight_bytes_ok: "is_string (heap eight_bytes) (Ptr 0 0) [0x61, 0x62, 0x63, 0x64, 0x65, 0x66, 0x67, 0x68]"
proof -
  have "\<forall>k < 16. Byte_u (heap eight_bytes) (Ptr 0 0) (int k) =
      Some (string_bytes [0x61, 0x62, 0x63, 0x64, 0x65, 0x66, 0x67, 0x68] ! k)" by code_simp
  then show ?thesis
    by (simp add: is_string_def length_string_bytes Tag_val_def Wosize_val_def eight_bytes_def)
qed

theorem bytes_set64_get64_witness:
  "(\<exists>r1 v r2. caml_bytes_set64 quiet_hooks (Ptr 0 0) (tag_int 0) (Ptr 1 0) eight_bytes = Some (Returned Val_unit r1) \<and>
     is_string (heap r1) (Ptr 0 0) [0x88, 0x77, 0x66, 0x55, 0x44, 0x33, 0x22, 0x11] \<and>
     caml_string_get64 quiet_hooks (Code 0) (Ptr 0 0) (tag_int 0) r1 = Some (Returned v r2) \<and>
     Int64_val (heap r2) v = Some 0x1122334455667788) \<and>
   caml_bytes_set64 quiet_hooks (Ptr 0 0) (tag_int 1) (Ptr 1 0) eight_bytes = caml_array_bound_error quiet_hooks eight_bytes"
proof -
  have v: "Int64_val (heap eight_bytes) (Ptr 1 0) = Some 0x1122334455667788"
    by (simp add: Int64_val_def Field_def eight_bytes_def int_nth_def)
  have "split_le 8 0x1122334455667788 = [0x88, 0x77, 0x66, 0x55, 0x44, 0x33, 0x22, 0x11]" by code_simp
  moreover have "fits63 0" "fits63 1" by (simp_all add: fits63_def Max_long_def Min_long_def)
  ultimately show ?thesis
    using bytes_set64_get64 [OF eight_bytes_ok _ v, of 0 quiet_hooks "Code 0"]
      bytes_set64_get64 [OF eight_bytes_ok _ v, of 1 quiet_hooks "Code 0"] by auto
qed

end
