(* ===== verification/Ints.thy ===== *)
theory Ints
  imports Strings "HOL-Library.Signed_Division"
begin

text \<open>
  \<open>ocaml/runtime/ints.c\<close>: integer literals read from strings, and the arithmetic of the boxed types
  \<open>int32\<close>, \<open>int64\<close> and \<open>nativeint\<close>. The tables of custom operations are parameters \<open>ops\<close>, stored in
  the blocks and not used otherwise. A shift by a count outside the width is undefined in C.
\<close>

section \<open>Reading integers\<close>

definition ch :: "char \<Rightarrow> u8" where
  "ch c = of_nat (of_char c)"

text \<open>Position, base, signedness and sign.\<close>

definition parse_prefix :: "heap \<Rightarrow> mlvalue \<Rightarrow> nat \<Rightarrow> int \<Rightarrow> (nat \<times> nat \<times> bool \<times> int) option" where
  "parse_prefix h s p sign = do {
     c \<leftarrow> Byte_u h s (int p);
     if c = ch (CHR ''0'') then do {
       c1 \<leftarrow> Byte_u h s (int (p + 1));
       Some (if c1 = ch (CHR ''x'') \<or> c1 = ch (CHR ''X'') then (p + 2, 16, False, sign)
             else if c1 = ch (CHR ''o'') \<or> c1 = ch (CHR ''O'') then (p + 2, 8, False, sign)
             else if c1 = ch (CHR ''b'') \<or> c1 = ch (CHR ''B'') then (p + 2, 2, False, sign)
             else if c1 = ch (CHR ''u'') \<or> c1 = ch (CHR ''U'') then (p + 2, 10, False, sign)
             else (p, 10, True, sign))
     } else Some (p, 10, True, sign)
   }"

definition parse_sign_and_base :: "heap \<Rightarrow> mlvalue \<Rightarrow> (nat \<times> nat \<times> bool \<times> int) option" where
  "parse_sign_and_base h s = do {
     c \<leftarrow> Byte_u h s 0;
     if c = ch (CHR ''-'') then parse_prefix h s 1 (- 1)
     else if c = ch (CHR ''+'') then parse_prefix h s 1 1
     else parse_prefix h s 0 1
   }"

text \<open>A \<open>char\<close> is signed.\<close>

definition parse_digit :: "u8 \<Rightarrow> int" where
  "parse_digit b =
     (let c = sint b in
      if 0x30 \<le> c \<and> c \<le> 0x39 then c - 0x30
      else if 0x41 \<le> c \<and> c \<le> 0x46 then c - 0x41 + 10
      else if 0x61 \<le> c \<and> c \<le> 0x66 then c - 0x61 + 10
      else - 1)"

text \<open>The loop over the digits: \<open>None\<close> inside is the failure for an overflow.\<close>

partial_function (option) digit_loop ::
  "heap \<Rightarrow> mlvalue \<Rightarrow> nat \<Rightarrow> u64 \<Rightarrow> nat \<Rightarrow> u64 \<Rightarrow> (nat \<times> u64) option option" where
  "digit_loop h s base threshold p res = do {
     c \<leftarrow> Byte_u h s (int p);
     if c = ch (CHR ''_'') then digit_loop h s base threshold (p + 1) res
     else let d = parse_digit c in
       if d < 0 \<or> int base \<le> d then Some (Some (p, res))
       else if threshold < res then Some None
       else let res' = of_nat base * res + word_of_int d in
         if res' < word_of_int d then Some None
         else digit_loop h s base threshold (p + 1) res'
   }"

declare digit_loop.simps [code]

text \<open>What \<open>parse_intnat\<close> and \<open>caml_int64_of_string\<close> begin with: the sign, the representation and the
  magnitude are passed to \<open>k\<close>, unless the text is no number or does not fit 64 bits.\<close>

definition parse_magnitude ::
  "hooks \<Rightarrow> mlvalue \<Rightarrow> string \<Rightarrow> runtime \<Rightarrow> (bool \<Rightarrow> int \<Rightarrow> u64 \<Rightarrow> runtime c_result option) \<Rightarrow>
    runtime c_result option" where
  "parse_magnitude hk s errmsg r k = do {
     (p, base, signedness, sign) \<leftarrow> parse_sign_and_base (heap r) s;
     let threshold = (- 1 :: u64) div of_nat base;
     c \<leftarrow> Byte_u (heap r) s (int p);
     let d = parse_digit c;
     if d < 0 \<or> int base \<le> d then caml_failwith hk (c_literal errmsg) r
     else do {
       out \<leftarrow> digit_loop (heap r) s base threshold (p + 1) (word_of_int d);
       case out of
         None \<Rightarrow> caml_failwith hk (c_literal errmsg) r
       | Some (p, res) \<Rightarrow> with_length s r (\<lambda>len.
           if of_nat p \<noteq> len then caml_failwith hk (c_literal errmsg) r
           else k signedness sign res)
     }
   }"

definition parse_intnat ::
  "hooks \<Rightarrow> mlvalue \<Rightarrow> nat \<Rightarrow> string \<Rightarrow> runtime \<Rightarrow> (u64 \<Rightarrow> runtime c_result option) \<Rightarrow>
    runtime c_result option" where
  "parse_intnat hk s nbits errmsg r k = parse_magnitude hk s errmsg r (\<lambda>signedness sign res.
     if (if signedness
         then if 0 \<le> sign then push_bit (nbits - 1) 1 \<le> res else push_bit (nbits - 1) 1 < res
         else nbits < 64 \<and> push_bit nbits 1 \<le> res)
     then caml_failwith hk (c_literal errmsg) r
     else k (if sign < 0 then - res else res))"

definition caml_int_of_string :: "hooks \<Rightarrow> mlvalue \<Rightarrow> runtime \<Rightarrow> runtime c_result option" where
  "caml_int_of_string hk s r =
     parse_intnat hk s 63 ''int_of_string'' r (\<lambda>v. Some (Returned (Word (Val_long v)) r))"

definition caml_int32_of_string :: "hooks \<Rightarrow> mlvalue \<Rightarrow> mlvalue \<Rightarrow> runtime \<Rightarrow> runtime c_result option" where
  "caml_int32_of_string hk ops s r =
     parse_intnat hk s 32 ''Int32.of_string'' r (\<lambda>v. caml_copy_int32 ops (ucast v) r)"

definition caml_copy_nativeint :: "mlvalue \<Rightarrow> u64 \<Rightarrow> runtime \<Rightarrow> runtime c_result option" where
  "caml_copy_nativeint ops i = do_alloc_small Custom_tag [ops, Word i]"

definition caml_nativeint_of_string :: "hooks \<Rightarrow> mlvalue \<Rightarrow> mlvalue \<Rightarrow> runtime \<Rightarrow> runtime c_result option" where
  "caml_nativeint_of_string hk ops s r =
     parse_intnat hk s 64 ''Nativeint.of_string'' r (\<lambda>v. caml_copy_nativeint ops v r)"

definition caml_int64_of_string :: "hooks \<Rightarrow> mlvalue \<Rightarrow> mlvalue \<Rightarrow> runtime \<Rightarrow> runtime c_result option" where
  "caml_int64_of_string hk ops s r = parse_magnitude hk s ''Int64.of_string'' r (\<lambda>signedness sign res.
     if signedness \<and> (if 0 \<le> sign then push_bit 63 1 \<le> res else push_bit 63 1 < res)
     then caml_failwith hk (c_literal ''Int64.of_string'') r
     else caml_copy_int64 ops (if sign < 0 then - res else res) r)"

section \<open>Tagged integers\<close>

definition COMPARE_INT :: "int \<Rightarrow> int \<Rightarrow> u64" where
  "COMPARE_INT v1 v2 = of_bool (v1 > v2) - of_bool (v1 < v2)"

definition caml_int_compare :: "u64 \<Rightarrow> u64 \<Rightarrow> u64" where
  "caml_int_compare v1 v2 = Val_long (COMPARE_INT (sint v1) (sint v2))"

definition caml_bswap16 :: "u64 \<Rightarrow> u64" where
  "caml_bswap16 v =
     (let x = scast (Int_val v) :: u64 in
      Val_long (push_bit 8 (x AND 0x00FF) OR signed_drop_bit 8 (x AND 0xFF00)))"

section \<open>Boxed integers of 32 bits\<close>

definition int32_1 :: "mlvalue \<Rightarrow> (u32 \<Rightarrow> u32) \<Rightarrow> mlvalue \<Rightarrow> runtime \<Rightarrow> runtime c_result option" where
  "int32_1 ops f v r = do { i \<leftarrow> Int32_val (heap r) v; caml_copy_int32 ops (f i) r }"

definition int32_2 ::
  "mlvalue \<Rightarrow> (u32 \<Rightarrow> u32 \<Rightarrow> u32) \<Rightarrow> mlvalue \<Rightarrow> mlvalue \<Rightarrow> runtime \<Rightarrow> runtime c_result option" where
  "int32_2 ops f v1 v2 r = do {
     i1 \<leftarrow> Int32_val (heap r) v1;
     i2 \<leftarrow> Int32_val (heap r) v2;
     caml_copy_int32 ops (f i1 i2) r
   }"

definition caml_int32_neg where "caml_int32_neg ops = int32_1 ops (\<lambda>i. - i)"
definition caml_int32_add where "caml_int32_add ops = int32_2 ops (\<lambda>i j. i + j)"
definition caml_int32_sub where "caml_int32_sub ops = int32_2 ops (\<lambda>i j. i - j)"
definition caml_int32_mul where "caml_int32_mul ops = int32_2 ops (\<lambda>i j. i * j)"
definition caml_int32_and where "caml_int32_and ops = int32_2 ops (\<lambda>i j. i AND j)"
definition caml_int32_or where "caml_int32_or ops = int32_2 ops (\<lambda>i j. i OR j)"
definition caml_int32_xor where "caml_int32_xor ops = int32_2 ops (\<lambda>i j. i XOR j)"

definition caml_int32_div ::
  "hooks \<Rightarrow> mlvalue \<Rightarrow> mlvalue \<Rightarrow> mlvalue \<Rightarrow> runtime \<Rightarrow> runtime c_result option" where
  "caml_int32_div hk ops v1 v2 r = do {
     dividend \<leftarrow> Int32_val (heap r) v1;
     divisor \<leftarrow> Int32_val (heap r) v2;
     if divisor = 0 then caml_raise_zero_divide hk r
     else if dividend = push_bit 31 1 \<and> divisor = - 1 then Some (Returned v1 r)
     else caml_copy_int32 ops (word_of_int (sint dividend sdiv sint divisor)) r
   }"

definition caml_int32_mod ::
  "hooks \<Rightarrow> mlvalue \<Rightarrow> mlvalue \<Rightarrow> mlvalue \<Rightarrow> runtime \<Rightarrow> runtime c_result option" where
  "caml_int32_mod hk ops v1 v2 r = do {
     dividend \<leftarrow> Int32_val (heap r) v1;
     divisor \<leftarrow> Int32_val (heap r) v2;
     if divisor = 0 then caml_raise_zero_divide hk r
     else if dividend = push_bit 31 1 \<and> divisor = - 1 then caml_copy_int32 ops 0 r
     else caml_copy_int32 ops (word_of_int (sint dividend smod sint divisor)) r
   }"

text \<open>The count of a shift, when it is defined.\<close>

definition shift_count :: "nat \<Rightarrow> u64 \<Rightarrow> nat option" where
  "shift_count width v =
     (let n = sint (Int_val v) in if 0 \<le> n \<and> n < int width then Some (nat n) else None)"

definition int32_shift ::
  "mlvalue \<Rightarrow> (nat \<Rightarrow> u32 \<Rightarrow> u32) \<Rightarrow> mlvalue \<Rightarrow> u64 \<Rightarrow> runtime \<Rightarrow> runtime c_result option" where
  "int32_shift ops f v1 v2 r = do {
     i \<leftarrow> Int32_val (heap r) v1;
     n \<leftarrow> shift_count 32 v2;
     caml_copy_int32 ops (f n i) r
   }"

definition caml_int32_shift_left where "caml_int32_shift_left ops = int32_shift ops push_bit"
definition caml_int32_shift_right where "caml_int32_shift_right ops = int32_shift ops signed_drop_bit"
definition caml_int32_shift_right_unsigned where
  "caml_int32_shift_right_unsigned ops = int32_shift ops drop_bit"

definition caml_swap32 :: "u32 \<Rightarrow> u32" where
  "caml_swap32 x =
     push_bit 24 (x AND 0x000000FF) OR push_bit 8 (x AND 0x0000FF00)
     OR drop_bit 8 (x AND 0x00FF0000) OR drop_bit 24 (x AND 0xFF000000)"

definition caml_int32_bswap where "caml_int32_bswap ops = int32_1 ops caml_swap32"

definition caml_int32_of_int :: "mlvalue \<Rightarrow> u64 \<Rightarrow> runtime \<Rightarrow> runtime c_result option" where
  "caml_int32_of_int ops v r = caml_copy_int32 ops (ucast (Long_val v)) r"

definition caml_int32_to_int :: "mlvalue \<Rightarrow> runtime \<Rightarrow> runtime c_result option" where
  "caml_int32_to_int v r = do {
     i \<leftarrow> Int32_val (heap r) v;
     Some (Returned (Word (Val_long (scast i))) r)
   }"

definition caml_int32_compare :: "mlvalue \<Rightarrow> mlvalue \<Rightarrow> runtime \<Rightarrow> runtime c_result option" where
  "caml_int32_compare v1 v2 r = do {
     i1 \<leftarrow> Int32_val (heap r) v1;
     i2 \<leftarrow> Int32_val (heap r) v2;
     Some (Returned (Word (Val_long (COMPARE_INT (sint i1) (sint i2)))) r)
   }"

section \<open>Boxed integers of 64 bits\<close>

text \<open>\<open>CAMLprim_int64_1\<close> and \<open>CAMLprim_int64_2\<close>: the operation on unboxed integers and its boxed form.\<close>

definition int64_1 :: "mlvalue \<Rightarrow> (u64 \<Rightarrow> u64) \<Rightarrow> mlvalue \<Rightarrow> runtime \<Rightarrow> runtime c_result option" where
  "int64_1 ops f v r = do { i \<leftarrow> Int64_val (heap r) v; caml_copy_int64 ops (f i) r }"

definition int64_2 ::
  "mlvalue \<Rightarrow> (u64 \<Rightarrow> u64 \<Rightarrow> u64) \<Rightarrow> mlvalue \<Rightarrow> mlvalue \<Rightarrow> runtime \<Rightarrow> runtime c_result option" where
  "int64_2 ops f v1 v2 r = do {
     i1 \<leftarrow> Int64_val (heap r) v1;
     i2 \<leftarrow> Int64_val (heap r) v2;
     caml_copy_int64 ops (f i1 i2) r
   }"

definition caml_int64_neg where "caml_int64_neg ops = int64_1 ops (\<lambda>i. - i)"
definition caml_int64_add where "caml_int64_add ops = int64_2 ops (\<lambda>i j. i + j)"
definition caml_int64_sub where "caml_int64_sub ops = int64_2 ops (\<lambda>i j. i - j)"
definition caml_int64_mul where "caml_int64_mul ops = int64_2 ops (\<lambda>i j. i * j)"
definition caml_int64_and where "caml_int64_and ops = int64_2 ops (\<lambda>i j. i AND j)"
definition caml_int64_or where "caml_int64_or ops = int64_2 ops (\<lambda>i j. i OR j)"
definition caml_int64_xor where "caml_int64_xor ops = int64_2 ops (\<lambda>i j. i XOR j)"

definition caml_int64_div ::
  "hooks \<Rightarrow> mlvalue \<Rightarrow> mlvalue \<Rightarrow> mlvalue \<Rightarrow> runtime \<Rightarrow> runtime c_result option" where
  "caml_int64_div hk ops v1 v2 r = do {
     dividend \<leftarrow> Int64_val (heap r) v1;
     divisor \<leftarrow> Int64_val (heap r) v2;
     if divisor = 0 then caml_raise_zero_divide hk r
     else caml_copy_int64 ops
       (if dividend = push_bit 63 1 \<and> divisor = - 1 then dividend
        else word_of_int (sint dividend sdiv sint divisor)) r
   }"

definition caml_int64_mod ::
  "hooks \<Rightarrow> mlvalue \<Rightarrow> mlvalue \<Rightarrow> mlvalue \<Rightarrow> runtime \<Rightarrow> runtime c_result option" where
  "caml_int64_mod hk ops v1 v2 r = do {
     dividend \<leftarrow> Int64_val (heap r) v1;
     divisor \<leftarrow> Int64_val (heap r) v2;
     if divisor = 0 then caml_raise_zero_divide hk r
     else caml_copy_int64 ops
       (if dividend = push_bit 63 1 \<and> divisor = - 1 then 0
        else word_of_int (sint dividend smod sint divisor)) r
   }"

definition int64_shift ::
  "mlvalue \<Rightarrow> (nat \<Rightarrow> u64 \<Rightarrow> u64) \<Rightarrow> mlvalue \<Rightarrow> u64 \<Rightarrow> runtime \<Rightarrow> runtime c_result option" where
  "int64_shift ops f v1 v2 r = do {
     i \<leftarrow> Int64_val (heap r) v1;
     n \<leftarrow> shift_count 64 v2;
     caml_copy_int64 ops (f n i) r
   }"

definition caml_int64_shift_left where "caml_int64_shift_left ops = int64_shift ops push_bit"
definition caml_int64_shift_right where "caml_int64_shift_right ops = int64_shift ops signed_drop_bit"
definition caml_int64_shift_right_unsigned where
  "caml_int64_shift_right_unsigned ops = int64_shift ops drop_bit"

text \<open>The masks are unsigned where the sign bit is concerned, so that no right shift copies it.\<close>

definition caml_swap64 :: "u64 \<Rightarrow> u64" where
  "caml_swap64 x =
     push_bit 56 (x AND 0x00000000000000FF) OR push_bit 40 (x AND 0x000000000000FF00)
     OR push_bit 24 (x AND 0x0000000000FF0000) OR push_bit 8 (x AND 0x00000000FF000000)
     OR drop_bit 8 (x AND 0x000000FF00000000) OR drop_bit 24 (x AND 0x0000FF0000000000)
     OR drop_bit 40 (x AND 0x00FF000000000000) OR drop_bit 56 (x AND 0xFF00000000000000)"

definition caml_int64_bswap where "caml_int64_bswap ops = int64_1 ops caml_swap64"

definition caml_int64_of_int :: "mlvalue \<Rightarrow> u64 \<Rightarrow> runtime \<Rightarrow> runtime c_result option" where
  "caml_int64_of_int ops v r = caml_copy_int64 ops (Long_val v) r"

definition caml_int64_to_int :: "mlvalue \<Rightarrow> runtime \<Rightarrow> runtime c_result option" where
  "caml_int64_to_int v r = do {
     i \<leftarrow> Int64_val (heap r) v;
     Some (Returned (Word (Val_long i)) r)
   }"

definition caml_int64_of_int32 :: "mlvalue \<Rightarrow> mlvalue \<Rightarrow> runtime \<Rightarrow> runtime c_result option" where
  "caml_int64_of_int32 ops v r = do { i \<leftarrow> Int32_val (heap r) v; caml_copy_int64 ops (scast i) r }"

definition caml_int64_to_int32 :: "mlvalue \<Rightarrow> mlvalue \<Rightarrow> runtime \<Rightarrow> runtime c_result option" where
  "caml_int64_to_int32 ops v r = do { i \<leftarrow> Int64_val (heap r) v; caml_copy_int32 ops (ucast i) r }"

definition caml_int64_compare :: "mlvalue \<Rightarrow> mlvalue \<Rightarrow> runtime \<Rightarrow> runtime c_result option" where
  "caml_int64_compare v1 v2 r = do {
     i1 \<leftarrow> Int64_val (heap r) v1;
     i2 \<leftarrow> Int64_val (heap r) v2;
     Some (Returned (Word (Val_long (COMPARE_INT (sint i1) (sint i2)))) r)
   }"

section \<open>Boxed native integers\<close>

definition Nativeint_val :: "heap \<Rightarrow> mlvalue \<Rightarrow> u64 option" where
  "Nativeint_val h v = Option.bind (Field h v 1) word_of"

definition nativeint_1 :: "mlvalue \<Rightarrow> (u64 \<Rightarrow> u64) \<Rightarrow> mlvalue \<Rightarrow> runtime \<Rightarrow> runtime c_result option" where
  "nativeint_1 ops f v r = do { i \<leftarrow> Nativeint_val (heap r) v; caml_copy_nativeint ops (f i) r }"

definition nativeint_2 ::
  "mlvalue \<Rightarrow> (u64 \<Rightarrow> u64 \<Rightarrow> u64) \<Rightarrow> mlvalue \<Rightarrow> mlvalue \<Rightarrow> runtime \<Rightarrow> runtime c_result option" where
  "nativeint_2 ops f v1 v2 r = do {
     i1 \<leftarrow> Nativeint_val (heap r) v1;
     i2 \<leftarrow> Nativeint_val (heap r) v2;
     caml_copy_nativeint ops (f i1 i2) r
   }"

definition caml_nativeint_neg where "caml_nativeint_neg ops = nativeint_1 ops (\<lambda>i. - i)"
definition caml_nativeint_add where "caml_nativeint_add ops = nativeint_2 ops (\<lambda>i j. i + j)"
definition caml_nativeint_sub where "caml_nativeint_sub ops = nativeint_2 ops (\<lambda>i j. i - j)"
definition caml_nativeint_mul where "caml_nativeint_mul ops = nativeint_2 ops (\<lambda>i j. i * j)"
definition caml_nativeint_and where "caml_nativeint_and ops = nativeint_2 ops (\<lambda>i j. i AND j)"
definition caml_nativeint_or where "caml_nativeint_or ops = nativeint_2 ops (\<lambda>i j. i OR j)"
definition caml_nativeint_xor where "caml_nativeint_xor ops = nativeint_2 ops (\<lambda>i j. i XOR j)"

definition Nativeint_min_int :: u64 where
  "Nativeint_min_int = push_bit 63 1"

definition caml_nativeint_div ::
  "hooks \<Rightarrow> mlvalue \<Rightarrow> mlvalue \<Rightarrow> mlvalue \<Rightarrow> runtime \<Rightarrow> runtime c_result option" where
  "caml_nativeint_div hk ops v1 v2 r = do {
     dividend \<leftarrow> Nativeint_val (heap r) v1;
     divisor \<leftarrow> Nativeint_val (heap r) v2;
     if divisor = 0 then caml_raise_zero_divide hk r
     else if dividend = Nativeint_min_int \<and> divisor = - 1 then Some (Returned v1 r)
     else caml_copy_nativeint ops (word_of_int (sint dividend sdiv sint divisor)) r
   }"

definition caml_nativeint_mod ::
  "hooks \<Rightarrow> mlvalue \<Rightarrow> mlvalue \<Rightarrow> mlvalue \<Rightarrow> runtime \<Rightarrow> runtime c_result option" where
  "caml_nativeint_mod hk ops v1 v2 r = do {
     dividend \<leftarrow> Nativeint_val (heap r) v1;
     divisor \<leftarrow> Nativeint_val (heap r) v2;
     if divisor = 0 then caml_raise_zero_divide hk r
     else if dividend = Nativeint_min_int \<and> divisor = - 1 then caml_copy_nativeint ops 0 r
     else caml_copy_nativeint ops (word_of_int (sint dividend smod sint divisor)) r
   }"

definition nativeint_shift ::
  "mlvalue \<Rightarrow> (nat \<Rightarrow> u64 \<Rightarrow> u64) \<Rightarrow> mlvalue \<Rightarrow> u64 \<Rightarrow> runtime \<Rightarrow> runtime c_result option" where
  "nativeint_shift ops f v1 v2 r = do {
     i \<leftarrow> Nativeint_val (heap r) v1;
     n \<leftarrow> shift_count 64 v2;
     caml_copy_nativeint ops (f n i) r
   }"

definition caml_nativeint_shift_left where "caml_nativeint_shift_left ops = nativeint_shift ops push_bit"
definition caml_nativeint_shift_right where
  "caml_nativeint_shift_right ops = nativeint_shift ops signed_drop_bit"
definition caml_nativeint_shift_right_unsigned where
  "caml_nativeint_shift_right_unsigned ops = nativeint_shift ops drop_bit"

definition caml_nativeint_bswap where "caml_nativeint_bswap ops = nativeint_1 ops caml_swap64"

definition caml_nativeint_of_int :: "mlvalue \<Rightarrow> u64 \<Rightarrow> runtime \<Rightarrow> runtime c_result option" where
  "caml_nativeint_of_int ops v r = caml_copy_nativeint ops (Long_val v) r"

definition caml_nativeint_to_int :: "mlvalue \<Rightarrow> runtime \<Rightarrow> runtime c_result option" where
  "caml_nativeint_to_int v r = do {
     i \<leftarrow> Nativeint_val (heap r) v;
     Some (Returned (Word (Val_long i)) r)
   }"

definition caml_nativeint_of_int32 :: "mlvalue \<Rightarrow> mlvalue \<Rightarrow> runtime \<Rightarrow> runtime c_result option" where
  "caml_nativeint_of_int32 ops v r = do { i \<leftarrow> Int32_val (heap r) v; caml_copy_nativeint ops (scast i) r }"

definition caml_nativeint_to_int32 :: "mlvalue \<Rightarrow> mlvalue \<Rightarrow> runtime \<Rightarrow> runtime c_result option" where
  "caml_nativeint_to_int32 ops v r = do { i \<leftarrow> Nativeint_val (heap r) v; caml_copy_int32 ops (ucast i) r }"

definition caml_int64_of_nativeint :: "mlvalue \<Rightarrow> mlvalue \<Rightarrow> runtime \<Rightarrow> runtime c_result option" where
  "caml_int64_of_nativeint ops v r = do { i \<leftarrow> Nativeint_val (heap r) v; caml_copy_int64 ops i r }"

definition caml_int64_to_nativeint :: "mlvalue \<Rightarrow> mlvalue \<Rightarrow> runtime \<Rightarrow> runtime c_result option" where
  "caml_int64_to_nativeint ops v r = do { i \<leftarrow> Int64_val (heap r) v; caml_copy_nativeint ops i r }"

definition caml_nativeint_compare :: "mlvalue \<Rightarrow> mlvalue \<Rightarrow> runtime \<Rightarrow> runtime c_result option" where
  "caml_nativeint_compare v1 v2 r = do {
     i1 \<leftarrow> Nativeint_val (heap r) v1;
     i2 \<leftarrow> Nativeint_val (heap r) v2;
     Some (Returned (Word (Val_long (COMPARE_INT (sint i1) (sint i2)))) r)
   }"

section \<open>Writing integers\<close>

text \<open>
  The C library formats one integer, of type \<open>int\<close> or \<open>long\<close>: \<open>vsnprintf\<close> gives the whole text, without
  the terminating 0 and before it is cut to the size of a buffer. \<open>stat_strdup\<close> copies a format, if there
  is memory.
\<close>

datatype c_arg = C_int u32 | C_long u64

record c_library =
  vsnprintf :: "u8 list \<Rightarrow> c_arg \<Rightarrow> u8 list"
  stat_strdup :: "u8 list \<Rightarrow> u8 list option"

definition caml_alloc_sprintf ::
  "hooks \<Rightarrow> c_library \<Rightarrow> u8 list \<Rightarrow> c_arg \<Rightarrow> runtime \<Rightarrow> runtime c_result option" where
  "caml_alloc_sprintf hk lib format arg r =
     (let out = vsnprintf lib format arg; n = length out in
      if n < 128 then caml_alloc_initialized_string hk (of_nat n) (out @ [0]) r
      else case stat_strdup lib format of
          None \<Rightarrow> caml_raise_out_of_memory hk r
        | Some saved_format \<Rightarrow> c_then (caml_alloc_string hk (of_nat n) r) (\<lambda>res r. do {
            h \<leftarrow> store_bytes (heap r) res 0 (take n (vsnprintf lib saved_format arg) @ [0]);
            Some (Returned res (r\<lparr>heap := h\<rparr>)) }))"

text \<open>
  \<open>format_string\<close> has 32 bytes. Of a format shorter than two characters the code reads before the start
  of it. The continuation gets the last letter and the new format.
\<close>

definition parse_format ::
  "hooks \<Rightarrow> mlvalue \<Rightarrow> string \<Rightarrow> runtime \<Rightarrow> (u8 \<Rightarrow> u8 list \<Rightarrow> runtime c_result option) \<Rightarrow>
    runtime c_result option" where
  "parse_format hk fmt suffix r k = with_length fmt r (\<lambda>len.
     if 32 \<le> len + of_nat (length suffix) + 1
     then caml_invalid_argument hk (c_literal ''format_int: format too long'') r
     else do {
       bs \<leftarrow> read_bytes (heap r) fmt 0 (unat len);
       case rev bs of
         lastletter # before # _ \<Rightarrow>
           (let p = (if before = ch (CHR ''l'') \<or> before = ch (CHR ''n'') \<or> before = ch (CHR ''L'')
                     then length bs - 2 else length bs - 1)
            in k lastletter (take p bs @ map ch suffix @ [lastletter, 0]))
       | _ \<Rightarrow> None
     })"

definition caml_format_int ::
  "hooks \<Rightarrow> c_library \<Rightarrow> mlvalue \<Rightarrow> u64 \<Rightarrow> runtime \<Rightarrow> runtime c_result option" where
  "caml_format_int hk lib fmt arg r = parse_format hk fmt ''l'' r (\<lambda>conv format_string.
     caml_alloc_sprintf hk lib format_string
       (if conv = ch (CHR ''u'') \<or> conv = ch (CHR ''x'') \<or> conv = ch (CHR ''X'') \<or> conv = ch (CHR ''o'')
        then C_long (drop_bit 1 arg) else C_long (Long_val arg)) r)"

definition caml_int32_format ::
  "hooks \<Rightarrow> c_library \<Rightarrow> mlvalue \<Rightarrow> mlvalue \<Rightarrow> runtime \<Rightarrow> runtime c_result option" where
  "caml_int32_format hk lib fmt arg r = parse_format hk fmt [] r (\<lambda>conv format_string. do {
     i \<leftarrow> Int32_val (heap r) arg;
     caml_alloc_sprintf hk lib format_string (C_int i) r })"

definition caml_int64_format ::
  "hooks \<Rightarrow> c_library \<Rightarrow> mlvalue \<Rightarrow> mlvalue \<Rightarrow> runtime \<Rightarrow> runtime c_result option" where
  "caml_int64_format hk lib fmt arg r = parse_format hk fmt ''l'' r (\<lambda>conv format_string. do {
     i \<leftarrow> Int64_val (heap r) arg;
     caml_alloc_sprintf hk lib format_string (C_long i) r })"

definition caml_nativeint_format ::
  "hooks \<Rightarrow> c_library \<Rightarrow> mlvalue \<Rightarrow> mlvalue \<Rightarrow> runtime \<Rightarrow> runtime c_result option" where
  "caml_nativeint_format hk lib fmt arg r = parse_format hk fmt ''l'' r (\<lambda>conv format_string. do {
     i \<leftarrow> Nativeint_val (heap r) arg;
     caml_alloc_sprintf hk lib format_string (C_long i) r })"

section \<open>The custom operations\<close>

definition int32_cmp :: "heap \<Rightarrow> mlvalue \<Rightarrow> mlvalue \<Rightarrow> int option" where
  "int32_cmp h v1 v2 = do {
     i1 \<leftarrow> Int32_val h v1;
     i2 \<leftarrow> Int32_val h v2;
     Some (of_bool (sint i1 > sint i2) - of_bool (sint i1 < sint i2)) }"

definition int64_cmp :: "heap \<Rightarrow> mlvalue \<Rightarrow> mlvalue \<Rightarrow> int option" where
  "int64_cmp h v1 v2 = do {
     i1 \<leftarrow> Int64_val h v1;
     i2 \<leftarrow> Int64_val h v2;
     Some (of_bool (sint i1 > sint i2) - of_bool (sint i1 < sint i2)) }"

definition nativeint_cmp :: "heap \<Rightarrow> mlvalue \<Rightarrow> mlvalue \<Rightarrow> int option" where
  "nativeint_cmp h v1 v2 = do {
     i1 \<leftarrow> Nativeint_val h v1;
     i2 \<leftarrow> Nativeint_val h v2;
     Some (of_bool (sint i1 > sint i2) - of_bool (sint i1 < sint i2)) }"

definition int32_hash :: "heap \<Rightarrow> mlvalue \<Rightarrow> u64 option" where
  "int32_hash h v = do { i \<leftarrow> Int32_val h v; Some (scast i) }"

definition int64_hash :: "heap \<Rightarrow> mlvalue \<Rightarrow> u64 option" where
  "int64_hash h v = do {
     x \<leftarrow> Int64_val h v;
     let lo = (ucast x :: u32);
     let hi = (ucast (signed_drop_bit 32 x) :: u32);
     Some (ucast (hi XOR lo)) }"

definition nativeint_hash :: "heap \<Rightarrow> mlvalue \<Rightarrow> u64 option" where
  "nativeint_hash h v = do {
     n \<leftarrow> Nativeint_val h v;
     Some (signed_drop_bit 32 n XOR signed_drop_bit 63 n XOR n) }"

end
