(* ===== verification/Ints_Props.thy ===== *)
theory Ints_Props
  imports Ints Strings_Props
begin

text \<open>
  The integers of ints.c: which texts are integer literals and what they stand for, the conversions
  from strings, and the arithmetic of boxed integers.
\<close>

section \<open>Literals\<close>

text \<open>
  The grammar: an optional sign, an optional prefix for the base, a digit, and then digits and
  underscores. A literal is whether it is negative, whether its representation is signed, and its
  magnitude.
\<close>

definition digit_in :: "nat \<Rightarrow> u8 \<Rightarrow> bool" where
  "digit_in base c \<longleftrightarrow> 0 \<le> parse_digit c \<and> parse_digit c < int base"

fun digits_val :: "nat \<Rightarrow> nat \<Rightarrow> u8 list \<Rightarrow> nat" where
  "digits_val base a [] = a"
| "digits_val base a (c # cs) =
     (if c = ch (CHR ''_'') then digits_val base a cs
      else digits_val base (a * base + nat (parse_digit c)) cs)"

definition body_ok :: "nat \<Rightarrow> u8 list \<Rightarrow> bool" where
  "body_ok base cs \<longleftrightarrow> (\<forall>c\<in>set cs. c = ch (CHR ''_'') \<or> digit_in base c)"

definition literal_body :: "nat \<Rightarrow> u8 list \<Rightarrow> nat option" where
  "literal_body base cs =
     (case cs of [] \<Rightarrow> None
      | c # cs' \<Rightarrow> if digit_in base c \<and> body_ok base cs' then Some (digits_val base (nat (parse_digit c)) cs')
                  else None)"

fun strip_sign :: "u8 list \<Rightarrow> bool \<times> u8 list" where
  "strip_sign (c # cs) =
     (if c = ch (CHR ''-'') then (True, cs) else if c = ch (CHR ''+'') then (False, cs) else (False, c # cs))"
| "strip_sign [] = (False, [])"

fun strip_prefix :: "u8 list \<Rightarrow> nat \<times> bool \<times> u8 list" where
  "strip_prefix (c # d # cs) =
     (if c = ch (CHR ''0'') then
        if d = ch (CHR ''x'') \<or> d = ch (CHR ''X'') then (16, False, cs)
        else if d = ch (CHR ''o'') \<or> d = ch (CHR ''O'') then (8, False, cs)
        else if d = ch (CHR ''b'') \<or> d = ch (CHR ''B'') then (2, False, cs)
        else if d = ch (CHR ''u'') \<or> d = ch (CHR ''U'') then (10, False, cs)
        else (10, True, c # d # cs)
      else (10, True, c # d # cs))"
| "strip_prefix cs = (10, True, cs)"

definition literal :: "u8 list \<Rightarrow> (bool \<times> bool \<times> nat) option" where
  "literal bs =
     (let (neg, cs) = strip_sign bs; (base, sg, ds) = strip_prefix cs
      in map_option (\<lambda>n. (neg, sg, n)) (literal_body base ds))"

text \<open>The magnitudes that fit \<open>nbits\<close> bits.\<close>

definition in_range :: "nat \<Rightarrow> bool \<Rightarrow> bool \<Rightarrow> nat \<Rightarrow> bool" where
  "in_range nbits neg sg n =
     (if sg then if neg then n \<le> 2 ^ (nbits - 1) else n < 2 ^ (nbits - 1) else n < 2 ^ nbits)"

definition literal_value :: "nat \<Rightarrow> u8 list \<Rightarrow> int option" where
  "literal_value nbits bs =
     (case literal bs of
        None \<Rightarrow> None
      | Some (neg, sg, n) \<Rightarrow> if in_range nbits neg sg n then Some (if neg then - int n else int n) else None)"

section \<open>The parser\<close>

lemma string_byte:
  assumes "is_string h s bs" and "p \<le> length bs"
  shows "Byte_u h s (int p) = Some (case drop p bs of [] \<Rightarrow> 0 | c # _ \<Rightarrow> c)"
proof -
  have l: "p < length (string_bytes bs)" using assms(2) by (simp add: string_bytes_def)
  have "string_bytes bs ! p = (case drop p bs of [] \<Rightarrow> 0 | c # _ \<Rightarrow> c)"
  proof (cases "p < length bs")
    case True
    then show ?thesis by (simp add: string_bytes_def nth_append Cons_nth_drop_Suc [symmetric])
  next
    case False
    then show ?thesis using assms(2) string_bytes_nth_length [of bs] by (simp add: le_antisym)
  qed
  with assms(1) l show ?thesis by (simp add: is_string_def)
qed

lemma drop_Suc_tl: "drop p bs = c # cs \<Longrightarrow> drop (Suc p) bs = cs \<and> Suc p \<le> length bs"
  by (metis Suc_leI drop_Suc drop_eq_Nil list.distinct(1) list.sel(3) not_less tl_drop)

lemma ch_neq_0 [simp]: "ch (CHR ''0'') \<noteq> 0" "ch (CHR ''-'') \<noteq> 0" "ch (CHR ''+'') \<noteq> 0"
  "ch (CHR ''_'') \<noteq> 0" "ch (CHR ''x'') \<noteq> 0" "ch (CHR ''X'') \<noteq> 0" "ch (CHR ''o'') \<noteq> 0"
  "ch (CHR ''O'') \<noteq> 0" "ch (CHR ''b'') \<noteq> 0" "ch (CHR ''B'') \<noteq> 0" "ch (CHR ''u'') \<noteq> 0"
  "ch (CHR ''U'') \<noteq> 0"
  by (simp_all add: ch_def)

lemmas neq_ch_0 [simp] = ch_neq_0 [symmetric]

lemma parse_digit_0 [simp]: "parse_digit 0 = - 1"
  by (simp add: parse_digit_def)

lemma parse_prefix_spec:
  assumes "is_string h s bs" and "p \<le> length bs" and "strip_prefix (drop p bs) = (base, sg, ds)"
  shows "\<exists>q. parse_prefix h s p sign = Some (q, base, sg, sign) \<and> q \<le> length bs \<and> drop q bs = ds"
proof (cases "drop p bs")
  case Nil
  then show ?thesis using assms string_byte [OF assms(1,2)] by (auto simp: parse_prefix_def)
next
  case (Cons c cs)
  note 1 = drop_Suc_tl [OF Cons]
  have b1: "Byte_u h s (int (Suc p)) = Some (case cs of [] \<Rightarrow> 0 | c # _ \<Rightarrow> c)"
    using string_byte [OF assms(1), of "Suc p"] 1 by simp
  show ?thesis
  proof (cases cs)
    case Nil
    with Cons assms(2,3) show ?thesis
      using string_byte [OF assms(1,2)] b1 by (auto simp: parse_prefix_def add.commute)
  next
    case (Cons d ds')
    note 2 = drop_Suc_tl [OF conjunct1 [OF 1, unfolded Cons]]
    have b: "Byte_u h s (int p) = Some c" "Byte_u h s (int (p + 1)) = Some d"
      using string_byte [OF assms(1,2)] b1 Cons \<open>drop p bs = c # cs\<close> by simp_all
    have ds: "strip_prefix (c # d # ds') = (base, sg, ds)" using Cons \<open>drop p bs = c # cs\<close> assms(3) by simp
    have q: "p \<le> length bs" "p + 2 \<le> length bs" "drop p bs = c # d # ds'" "drop (p + 2) bs = ds'"
      using assms(2) 2 Cons \<open>drop p bs = c # cs\<close> by simp_all
    show ?thesis
      using ds q unfolding parse_prefix_def b bind.bind_lunit strip_prefix.simps
      by (simp only: split: if_splits) (simp_all only: prod.inject, auto)
  qed
qed

lemma parse_sign_spec:
  assumes "is_string h s bs" and "strip_sign bs = (neg, cs)" and "strip_prefix cs = (base, sg, ds)"
  shows "\<exists>q. parse_sign_and_base h s = Some (q, base, sg, if neg then - 1 else 1)
    \<and> q \<le> length bs \<and> drop q bs = ds"
proof -
  have b: "Byte_u h s 0 = Some (case bs of [] \<Rightarrow> 0 | c # _ \<Rightarrow> c)"
    using string_byte [OF assms(1), of 0] by simp
  show ?thesis
  proof (cases "bs \<noteq> [] \<and> (hd bs = ch (CHR ''-'') \<or> hd bs = ch (CHR ''+''))")
    case True
    then obtain c where c: "bs = c # cs" "c = ch (CHR ''-'') \<or> c = ch (CHR ''+'')"
      using assms(2) by (cases bs) (auto split: if_splits)
    have ne: "ch (CHR ''+'') \<noteq> ch (CHR ''-'')" by (simp add: ch_def)
    have "\<exists>q. parse_prefix h s 1 (if neg then - 1 else 1) = Some (q, base, sg, if neg then - 1 else 1)
        \<and> q \<le> length bs \<and> drop q bs = ds"
      by (rule parse_prefix_spec) (use assms c in auto)
    moreover have "parse_sign_and_base h s = parse_prefix h s 1 (if neg then - 1 else 1)"
      using b c assms(2) ne by (auto simp: parse_sign_and_base_def)
    ultimately show ?thesis by simp
  next
    case False
    then have "neg = False" "cs = bs" using assms(2) by (cases bs; auto split: if_splits)+
    moreover have "\<exists>q. parse_prefix h s 0 1 = Some (q, base, sg, 1) \<and> q \<le> length bs \<and> drop q bs = ds"
      by (rule parse_prefix_spec) (use assms \<open>cs = bs\<close> in auto)
    moreover have "parse_sign_and_base h s = parse_prefix h s 0 1"
      using b False by (cases bs) (auto simp: parse_sign_and_base_def)
    ultimately show ?thesis by simp
  qed
qed

subsection \<open>The digits\<close>

lemma digits_val_ge: "0 < base \<Longrightarrow> a \<le> digits_val base a cs"
proof (induction base a cs rule: digits_val.induct)
  case (2 base a c cs)
  have "a \<le> a * base + nat (parse_digit c)" using 2(3) by (simp add: trans_le_add1)
  with 2 show ?case by (auto intro: order_trans)
qed simp

text \<open>One step of the loop: both tests together detect exactly the overflow.\<close>

lemma accumulate:
  fixes res :: u64
  assumes "2 \<le> base" and "base \<le> 16" and "d < base"
  shows "(- 1 :: u64) div of_nat base < res \<longleftrightarrow> 2 ^ 64 \<le> unat res * base"
    and "unat res * base < 2 ^ 64 \<Longrightarrow>
      (of_nat base * res + of_nat d < of_nat d) \<longleftrightarrow> 2 ^ 64 \<le> unat res * base + d"
    and "unat res * base + d < 2 ^ 64 \<Longrightarrow> unat (of_nat base * res + of_nat d) = unat res * base + d"
proof -
  have ub: "unat (of_nat base :: u64) = base" "unat (of_nat d :: u64) = d"
    using assms by (auto intro!: unat_of_nat_small)
  have m1: "unat (- 1 :: u64) = 2 ^ 64 - 1" by (simp add: unsigned_minus_1_eq_mask mask_eq_exp_minus_1)
  have "unat ((- 1 :: u64) div of_nat base) = (2 ^ 64 - 1) div base"
    by (simp only: unat_div ub m1)
  then have "(- 1 :: u64) div of_nat base < res \<longleftrightarrow> (2 ^ 64 - 1) div base < unat res"
    by (simp only: word_less_nat_alt)
  also have "\<dots> \<longleftrightarrow> 2 ^ 64 - 1 < unat res * base"
    using assms(1) by (intro div_less_iff_less_mult) simp
  also have "\<dots> \<longleftrightarrow> 2 ^ 64 \<le> unat res * base" by simp linarith
  finally show "(- 1 :: u64) div of_nat base < res \<longleftrightarrow> 2 ^ 64 \<le> unat res * base" .
  have u: "unat (of_nat base * res + of_nat d) = (unat res * base + d) mod 2 ^ 64"
    by (simp add: unat_word_ariths ub mod_add_left_eq mult.commute)
  show "unat res * base + d < 2 ^ 64 \<Longrightarrow> unat (of_nat base * res + of_nat d) = unat res * base + d"
    by (simp add: u)
  show "(of_nat base * res + of_nat d < of_nat d) \<longleftrightarrow> 2 ^ 64 \<le> unat res * base + d"
    if "unat res * base < 2 ^ 64"
  proof (cases "unat res * base + d < 2 ^ 64")
    case True
    then show ?thesis by (simp add: word_less_nat_alt u ub)
  next
    case False
    then have "(unat res * base + d) mod 2 ^ 64 = unat res * base + d - 2 ^ 64"
      using that assms by (subst mod_if) (auto simp: le_mod_geq)
    with False that show ?thesis by (simp add: word_less_nat_alt u ub)
  qed
qed

abbreviation "body_char base \<equiv> (\<lambda>c. c = ch (CHR ''_'') \<or> digit_in base c)"

lemma digit_word: "digit_in base c \<Longrightarrow> word_of_int (parse_digit c) = (of_nat (nat (parse_digit c)) :: u64)"
  by (simp add: digit_in_def)

lemma underscore_no_digit: "\<not> digit_in base (ch (CHR ''_''))"
  by (simp add: digit_in_def parse_digit_def ch_def)

lemma digit_loop_digit:
  assumes "2 \<le> base" and "base \<le> 16" and "Byte_u h s (int p) = Some c" and "digit_in base c"
  shows "digit_loop h s base (- 1 div of_nat base) p res =
    (if 2 ^ 64 \<le> unat res * base + nat (parse_digit c) then Some None
     else digit_loop h s base (- 1 div of_nat base) (Suc p) (of_nat base * res + of_nat (nat (parse_digit c))))"
    (is "_ = (if ?over then _ else ?next)")
proof -
  let ?d = "nat (parse_digit c)" and ?res = "of_nat base * res + of_nat (nat (parse_digit c))"
  have c: "c \<noteq> ch (CHR ''_'')" using assms(4) underscore_no_digit by blast
  have d: "\<not> (parse_digit c < 0 \<or> int base \<le> parse_digit c)" "?d < base"
    using assms(4) by (auto simp: digit_in_def)
  note acc = accumulate [OF assms(1,2) d(2), of res]
  have "digit_loop h s base (- 1 div of_nat base) p res =
      (if 2 ^ 64 \<le> unat res * base then Some None else if ?res < of_nat ?d then Some None else ?next)"
    by (subst digit_loop.simps)
      (simp only: assms(3) bind.bind_lunit c d(1) acc(1) digit_word [OF assms(4)] if_False Let_def Suc_eq_plus1)
  also have "\<dots> = (if ?over then Some None else ?next)"
  proof (cases "2 ^ 64 \<le> unat res * base")
    case True
    then have "?over" by linarith
    with True show ?thesis by (simp only: if_True)
  next
    case False
    then have "?res < of_nat ?d \<longleftrightarrow> ?over" by (intro acc(2)) linarith
    with False show ?thesis by (simp only: if_False)
  qed
  finally show ?thesis .
qed

lemma digit_loop_spec:
  assumes "is_string h s bs" and "2 \<le> base" and "base \<le> 16" and "p \<le> length bs" and "drop p bs = cs"
  shows "digit_loop h s base (- 1 div of_nat base) p res =
    Some (let ds = takeWhile (body_char base) cs; n = digits_val base (unat res) ds
          in if n < 2 ^ 64 then Some (p + length ds, of_nat n) else None)"
  using assms(4,5)
proof (induction cs arbitrary: p res)
  case Nil
  have "unat res < 2 ^ 64" using unsigned_less [of res] by simp
  then show ?case
    using string_byte [OF assms(1) Nil.prems(1)] Nil.prems(2) by (subst digit_loop.simps) simp
next
  case (Cons c cs)
  note next' = drop_Suc_tl [OF Cons.prems(2)]
  have b: "Byte_u h s (int p) = Some c" using string_byte [OF assms(1) Cons.prems(1)] Cons.prems(2) by simp
  note IH = Cons.IH [of "Suc p"]
  let ?d = "nat (parse_digit c)" and ?ds = "takeWhile (body_char base) cs"
  consider "c = ch (CHR ''_'')" | "c \<noteq> ch (CHR ''_'')" "digit_in base c" | "c \<noteq> ch (CHR ''_'')" "\<not> digit_in base c"
    by blast
  then show ?case
  proof cases
    case 1
    then show ?thesis using b IH [of res] next' by (subst digit_loop.simps) (simp add: Let_def)
  next
    case 2
    note step = digit_loop_digit [OF assms(2,3) b 2(2), of res]
    have tw: "takeWhile (body_char base) (c # cs) = c # ?ds"
      "digits_val base (unat res) (c # ?ds) = digits_val base (unat res * base + ?d) ?ds"
      using 2 by simp_all
    show ?thesis
    proof (cases "2 ^ 64 \<le> unat res * base + ?d")
      case True
      then have "\<not> digits_val base (unat res * base + ?d) ?ds < 2 ^ 64"
        using digits_val_ge [of base "unat res * base + ?d" ?ds] assms(2) by linarith
      with step True show ?thesis unfolding Let_def tw by (simp only: if_True if_False)
    next
      case False
      then have "?d < base" "unat res * base + ?d < 2 ^ 64" using 2(2) by (auto simp: digit_in_def)
      then have u: "unat (of_nat base * res + of_nat ?d) = unat res * base + ?d"
        by (intro accumulate(3) [OF assms(2,3)])
      show ?thesis
        using IH [of "of_nat base * res + of_nat ?d"] next' step False unfolding Let_def tw u
        by (simp only: if_False simp_thms list.size add_Suc_right add_Suc add_0_right)
    qed
  next
    case 3
    then have "parse_digit c < 0 \<or> int base \<le> parse_digit c" by (auto simp: digit_in_def)
    moreover have "unat res < 2 ^ 64" using unsigned_less [of res] by simp
    ultimately show ?thesis using b 3 by (subst digit_loop.simps) (auto simp: Let_def)
  qed
qed

subsection \<open>Whole literals\<close>

lemma with_length_string: "is_string (heap r) s bs \<Longrightarrow> with_length s r k = k (of_nat (length bs))"
  by (simp add: with_length_def string_length_ok)

lemma strip_prefix_base: "strip_prefix cs = (base, sg, ds) \<Longrightarrow> 2 \<le> base \<and> base \<le> 16"
  by (induction cs rule: strip_prefix.induct) (auto split: if_splits)

lemma body_ok_takeWhile: "body_ok base cs \<longleftrightarrow> takeWhile (body_char base) cs = cs"
  by (simp add: body_ok_def takeWhile_eq_all_conv)

lemma length_takeWhile_eq: "length (takeWhile P cs) = length cs \<longleftrightarrow> takeWhile P cs = cs"
  by (induction cs) auto

lemma of_nat_eq_small: "a < 2 ^ 64 \<Longrightarrow> b < 2 ^ 64 \<Longrightarrow> of_nat a = (of_nat b :: u64) \<longleftrightarrow> a = b"
  by (metis unat_of_nat_small)

lemma end_of_string:
  assumes "length bs < 2 ^ 60" and "drop p bs = cs" and "p \<le> length bs"
  shows "(of_nat (p + length (takeWhile (body_char base) cs)) \<noteq> (of_nat (length bs) :: u64)) \<longleftrightarrow> \<not> body_ok base cs"
proof -
  let ?t = "takeWhile (body_char base) cs"
  have len: "length bs = p + length cs" using assms(2,3) by auto
  have "length ?t \<le> length cs" by (rule length_takeWhile_le)
  then have "p + length ?t < 2 ^ 64" "length bs < 2 ^ 64" using assms(1) len by simp_all
  then have "of_nat (p + length ?t) = (of_nat (length bs) :: u64) \<longleftrightarrow> p + length ?t = length bs"
    by (rule of_nat_eq_small)
  also have "\<dots> \<longleftrightarrow> length ?t = length cs" using len by simp
  also have "\<dots> \<longleftrightarrow> ?t = cs" by (rule length_takeWhile_eq)
  finally show ?thesis by (simp add: body_ok_takeWhile)
qed

lemma parse_magnitude_spec:
  assumes "is_string (heap r) s bs"
  shows "parse_magnitude hk s errmsg r k =
    (case literal bs of
       Some (neg, sg, n) \<Rightarrow> if n < 2 ^ 64 then k sg (if neg then - 1 else 1) (of_nat n)
         else caml_failwith hk (c_literal errmsg) r
     | None \<Rightarrow> caml_failwith hk (c_literal errmsg) r)"
proof -
  obtain neg cs where cs: "strip_sign bs = (neg, cs)" by fastforce
  obtain base sg ds where ds: "strip_prefix cs = (base, sg, ds)" by (metis prod_cases3)
  obtain q where q: "parse_sign_and_base (heap r) s = Some (q, base, sg, if neg then - 1 else 1)"
    "q \<le> length bs" "drop q bs = ds"
    using parse_sign_spec [OF assms cs ds] by blast
  have base: "2 \<le> base" "base \<le> 16" using strip_prefix_base [OF ds] by auto
  have lit: "literal bs = map_option (\<lambda>n. (neg, sg, n)) (literal_body base ds)"
    by (simp add: literal_def cs ds)
  have b: "Byte_u (heap r) s (int q) = Some (case ds of [] \<Rightarrow> 0 | c # _ \<Rightarrow> c)"
    using string_byte [OF assms q(2)] q(3) by simp
  have len: "length bs < 2 ^ 60" using assms by (simp add: is_string_def)
  show ?thesis
  proof (cases ds)
    case Nil
    then show ?thesis using q(1) b by (simp add: parse_magnitude_def lit literal_body_def Let_def)
  next
    case (Cons c ds')
    note nx = drop_Suc_tl [OF q(3) [unfolded Cons]]
    show ?thesis
    proof (cases "digit_in base c")
      case False
      then show ?thesis
        using q(1) b Cons by (auto simp: parse_magnitude_def lit literal_body_def Let_def digit_in_def)
    next
      case True
      then have d: "\<not> (parse_digit c < 0 \<or> int base \<le> parse_digit c)" "nat (parse_digit c) < 2 ^ 64"
        using base by (auto simp: digit_in_def)
      have u: "unat (word_of_int (parse_digit c) :: u64) = nat (parse_digit c)"
        unfolding digit_word [OF True] using d(2) by (intro unat_of_nat_small) simp
      note loop = digit_loop_spec [OF assms base, of "Suc q" ds' "word_of_int (parse_digit c)", unfolded u]
      note fin = end_of_string [OF len, of "Suc q" ds' base]
      let ?t = "takeWhile (body_char base) ds'" and ?fail = "caml_failwith hk (c_literal errmsg) r"
      have run: "parse_magnitude hk s errmsg r k =
          (if digits_val base (nat (parse_digit c)) ?t < 2 ^ 64
           then if body_ok base ds'
             then k sg (if neg then - 1 else 1) (of_nat (digits_val base (nat (parse_digit c)) ?t)) else ?fail
           else ?fail)"
        using loop fin nx b Cons d(1) unfolding parse_magnitude_def q(1) with_length_string [OF assms]
        by (simp add: Let_def)
      show ?thesis
      proof (cases "body_ok base ds'")
        case True
        then have "?t = ds'" by (simp only: body_ok_takeWhile)
        with run True Cons \<open>digit_in base c\<close> show ?thesis
          by (simp only: lit literal_body_def simp_thms list.case if_True option.simps prod.case)
      next
        case False
        then show ?thesis unfolding run using Cons by (simp add: lit literal_body_def)
      qed
    qed
  qed
qed

section \<open>The conversions\<close>

text \<open>The tests on the magnitude are those of the specification.\<close>

lemma magnitude_tests:
  assumes "n < 2 ^ 64" and "0 < b" and "b \<le> 64"
  shows "push_bit (b - 1) 1 \<le> (of_nat n :: u64) \<longleftrightarrow> 2 ^ (b - 1) \<le> n"
    and "push_bit (b - 1) 1 < (of_nat n :: u64) \<longleftrightarrow> 2 ^ (b - 1) < n"
    and "b < 64 \<Longrightarrow> push_bit b 1 \<le> (of_nat n :: u64) \<longleftrightarrow> 2 ^ b \<le> n"
proof -
  have n: "unat (of_nat n :: u64) = n" using assms(1) by (intro unat_of_nat_small) simp
  have p: "unat (push_bit k 1 :: u64) = 2 ^ k" if "k < 64" for k
  proof -
    have "push_bit k 1 = (of_nat (2 ^ k) :: u64)" by (simp add: push_bit_eq_mult)
    moreover have "(2 :: nat) ^ k < 2 ^ 64" using that by (intro power_strict_increasing) simp_all
    ultimately show ?thesis by (metis unat_of_nat_small)
  qed
  show "push_bit (b - 1) 1 \<le> (of_nat n :: u64) \<longleftrightarrow> 2 ^ (b - 1) \<le> n"
    "push_bit (b - 1) 1 < (of_nat n :: u64) \<longleftrightarrow> 2 ^ (b - 1) < n"
    using assms(2,3) by (simp_all only: word_le_nat_alt word_less_nat_alt n p [of "b - 1"])
  show "push_bit b 1 \<le> (of_nat n :: u64) \<longleftrightarrow> 2 ^ b \<le> n" if "b < 64"
    by (simp only: word_le_nat_alt n p [OF that])
qed

lemma parse_intnat_spec:
  assumes "is_string (heap r) s bs" and "0 < nbits" and "nbits \<le> 64"
  shows "parse_intnat hk s nbits errmsg r k =
    (case literal_value nbits bs of Some i \<Rightarrow> k (word_of_int i)
     | None \<Rightarrow> caml_failwith hk (c_literal errmsg) r)"
proof (cases "literal bs")
  case None
  then show ?thesis by (simp add: parse_intnat_def parse_magnitude_spec [OF assms(1)] literal_value_def)
next
  case (Some l)
  obtain neg sg n where l: "l = (neg, sg, n)" by (cases l)
  have small: "2 ^ nbits \<le> (2 :: nat) ^ 64" "2 ^ (nbits - 1) < (2 :: nat) ^ 64"
    using assms(2,3) by (auto intro!: power_increasing power_strict_increasing simp del: power_numeral)
  show ?thesis
  proof (cases "n < 2 ^ 64")
    case True
    note t = magnitude_tests [OF True assms(2,3)]
    have "in_range nbits neg sg n \<longleftrightarrow> \<not> (if sg
         then if (0 :: int) \<le> (if neg then - 1 else 1) then push_bit (nbits - 1) 1 \<le> (of_nat n :: u64)
           else push_bit (nbits - 1) 1 < (of_nat n :: u64)
         else nbits < 64 \<and> push_bit nbits 1 \<le> (of_nat n :: u64))"
      using t True assms(3) by (cases "nbits < 64"; cases neg; cases sg) (simp_all add: in_range_def not_le not_less)
    then show ?thesis
      using True by (simp add: parse_intnat_def parse_magnitude_spec [OF assms(1)] literal_value_def Some l)
  next
    case False
    then have "\<not> in_range nbits neg sg n" using small unfolding in_range_def by (cases neg; cases sg; simp only: if_True if_False; linarith)
    with False show ?thesis
      by (simp add: parse_intnat_def parse_magnitude_spec [OF assms(1)] literal_value_def Some l)
  qed
qed

text \<open>\<open>caml_int64_of_string\<close> repeats the code of \<open>parse_intnat\<close> for 64 bits.\<close>

lemma int64_of_string_parse_intnat:
  "caml_int64_of_string hk ops s r = parse_intnat hk s 64 ''Int64.of_string'' r (\<lambda>v. caml_copy_int64 ops v r)"
proof -
  have "(if signedness then c else (64 :: nat) < 64 \<and> d) \<longleftrightarrow> signedness \<and> c" for signedness c d by simp
  moreover have "64 - 1 = (63 :: nat)" by simp
  ultimately show ?thesis by (simp only: caml_int64_of_string_def parse_intnat_def)
qed


lemma ucast_scast: "ucast (scast (x :: u32) :: u64) = x"
  by (rule bit_word_eqI) (auto simp: bit_simps)





section \<open>Decimal texts\<close>

text \<open>What \<open>%d\<close> prints.\<close>

definition digit10 :: "nat \<Rightarrow> u8" where
  "digit10 d = of_nat (48 + d)"

fun digits10 :: "nat \<Rightarrow> u8 list" where
  "digits10 n = (if n < 10 then [digit10 n] else digits10 (n div 10) @ [digit10 (n mod 10)])"

declare digits10.simps [simp del]

definition decimal :: "int \<Rightarrow> u8 list" where
  "decimal i = (if i < 0 then ch (CHR ''-'') # digits10 (nat (- i)) else digits10 (nat i))"

lemma digit10_props:
  assumes "d < 10"
  shows "parse_digit (digit10 d) = int d" "digit10 d \<noteq> ch (CHR ''_'')" "digit10 d \<noteq> ch (CHR ''-'')"
    "digit10 d \<noteq> ch (CHR ''+'')" "digit10 d \<notin> set (map ch ''xXoObBuU'')"
proof -
  have "d \<in> {0, 1, 2, 3, 4, 5, 6, 7, 8, 9}" using assms by auto
  then show "parse_digit (digit10 d) = int d" "digit10 d \<noteq> ch (CHR ''_'')" "digit10 d \<noteq> ch (CHR ''-'')"
    "digit10 d \<noteq> ch (CHR ''+'')" "digit10 d \<notin> set (map ch ''xXoObBuU'')"
    by (auto simp: digit10_def parse_digit_def ch_def)
qed

lemma digits10_digits: "digits10 n \<noteq> [] \<and> (\<forall>c\<in>set (digits10 n). \<exists>d < 10. c = digit10 d)"
proof (induction n rule: digits10.induct)
  case (1 n)
  have "n mod 10 < 10" by simp
  then have "\<exists>d < 10. digit10 (n mod 10) = digit10 d" by blast
  with 1 show ?case by (subst (1 2) digits10.simps) auto
qed

lemma digits10_char:
  assumes "x \<in> set (digits10 n)"
  shows "digit_in 10 x" "x \<noteq> ch (CHR ''_'')" "x \<noteq> ch (CHR ''-'')" "x \<noteq> ch (CHR ''+'')"
    "x \<notin> set (map ch ''xXoObBuU'')"
proof -
  obtain d where d: "d < 10" "x = digit10 d" using assms digits10_digits [of n] by blast
  note p = digit10_props [OF d(1)]
  show "digit_in 10 x" using p(1) d by (simp add: digit_in_def)
  show "x \<noteq> ch (CHR ''_'')" "x \<noteq> ch (CHR ''-'')" "x \<noteq> ch (CHR ''+'')" "x \<notin> set (map ch ''xXoObBuU'')"
    unfolding d(2) by (rule p(2) p(3) p(4) p(5))+
qed

lemma digits_val_snoc: "digits_val base a (xs @ ys) = digits_val base (digits_val base a xs) ys"
  by (induction base a xs rule: digits_val.induct) auto

lemma digits_val_digits10: "digits_val 10 0 (digits10 n) = n"
proof (induction n rule: digits10.induct)
  case (1 n)
  show ?case
  proof (cases "n < 10")
    case True
    then show ?thesis by (simp add: digits10.simps [of n] digit10_props)
  next
    case False
    then show ?thesis using 1 by (simp add: digits10.simps [of n] digits_val_snoc digit10_props)
  qed
qed

lemma literal_body_digits10: "literal_body 10 (digits10 n) = Some n"
proof -
  obtain c cs where c: "digits10 n = c # cs" using digits10_digits [of n] by (cases "digits10 n") auto
  note x = digits10_char [of _ n, unfolded c]
  have "digit_in 10 c" "body_ok 10 cs" "c \<noteq> ch (CHR ''_'')" using x(1,2) by (auto simp: body_ok_def)
  then show ?thesis using digits_val_digits10 [of n] by (simp add: literal_body_def c)
qed

lemma strip_digits10: "strip_sign (digits10 n) = (False, digits10 n)" "strip_prefix (digits10 n) = (10, True, digits10 n)"
proof -
  obtain c cs where c: "digits10 n = c # cs" using digits10_digits [of n] by (cases "digits10 n") auto
  note x = digits10_char [of _ n, unfolded c]
  show "strip_sign (digits10 n) = (False, digits10 n)" using x(3,4) [of c] by (simp add: c)
  show "strip_prefix (digits10 n) = (10, True, digits10 n)"
  proof (cases cs)
    case (Cons d ds)
    then show ?thesis using x(5) [of d] by (simp add: c)
  qed (simp add: c)
qed

lemma literal_decimal: "literal (decimal i) = Some (i < 0, True, nat \<bar>i\<bar>)"
  by (simp add: literal_def decimal_def strip_digits10 literal_body_digits10)

lemma literal_value_decimal:
  assumes "- (2 ^ (nbits - 1)) \<le> i" and "i < 2 ^ (nbits - 1)"
  shows "literal_value nbits (decimal i) = Some i"
proof -
  have "in_range nbits (i < 0) True (nat \<bar>i\<bar>)"
    using assms by (simp add: in_range_def nat_le_iff nat_less_iff)
  then show ?thesis by (simp add: literal_value_def literal_decimal)
qed

section \<open>Formatting\<close>

text \<open>Whatever its length, the text becomes the contents of a new string.\<close>

lemma store_text:
  assumes n: "length out < 2 ^ 60" and mem: "\<And>k q. shared_try_alloc hk k q"
  shows "\<exists>h blk. c_then (caml_alloc_string hk (of_nat (length out)) r) (\<lambda>res r. do {
      h \<leftarrow> store_bytes (heap r) res 0 (out @ [0]); Some (Returned res (r\<lparr>heap := h\<rparr>)) }) =
      Some (Returned (Ptr (length (heap r)) 0) (r\<lparr>heap := h\<rparr>)) \<and>
    h = heap r @ [blk] \<and> is_string h (Ptr (length (heap r)) 0) out"
proof -
  let ?n = "length out" and ?w = "(length out + 8) div 8" and ?v = "Ptr (length (heap r)) 0"
  obtain h fill where h: "caml_alloc_string hk (of_nat ?n) r = Some (Returned ?v (r\<lparr>heap := h\<rparr>))"
    "only_block (length (heap r)) (heap r @ [fresh_block ?w String_tag fill]) h"
    "\<And>k. k < 8 * ?w \<Longrightarrow> Byte_u h ?v (int k) \<noteq> None"
    "\<And>k. k < 8 * ?w \<Longrightarrow> ?n \<le> k \<Longrightarrow> Byte_u h ?v (int k) = Some (if k = 8 * ?w - 1 then of_nat (7 - ?n mod 8) else 0)"
    using alloc_string_ok [OF n mem, of r] by metis
  have n8: "?n < 8 * ?w" using padded_size [of ?n] by linarith
  then obtain h' where h': "store_bytes h ?v 0 (out @ [0]) = Some h'" "only_block (length (heap r)) h h'"
    "\<And>k. Byte_u h' ?v k = (if 0 \<le> k \<and> k < int ?n + 1 then Some ((out @ [0]) ! nat k) else Byte_u h ?v k)"
    using store_bytes_ok [of "out @ [0]" h "length (heap r)" 0 0] h(3) by auto
  have only: "only_block (length (heap r)) (heap r @ [fresh_block ?w String_tag fill]) h'"
    using h(2) h'(2) by (rule only_block_trans)
  then obtain blk where blk: "h' = heap r @ [blk]" by (rule only_block_append)
  have "Byte_u h' ?v (int k) = Some (string_bytes out ! k)" if k: "k < 8 * ?w" for k
  proof (cases "k \<le> ?n")
    case True
    then have "string_bytes out ! k = (out @ [0]) ! k"
      using string_bytes_nth_length [of out] by (cases "k = ?n") (auto simp: string_bytes_def nth_append)
    with True h'(3) [of "int k"] show ?thesis by simp
  next
    case False
    with h'(3) [of "int k"] h(4) [OF k] k padded_size [of ?n] show ?thesis
      by (auto simp: string_bytes_def nth_append nth_Cons')
  qed
  moreover have "Tag_val h' ?v = Some String_tag" "Wosize_val h' ?v = Some ?w"
    using only_block_header [OF only, of "length (heap r)"] by (simp_all add: Tag_val_def Wosize_val_def fresh_block_def)
  ultimately have "is_string h' ?v out" using n by (simp add: is_string_def length_string_bytes)
  then show ?thesis using h(1) h'(1) blk by (intro exI [of _ h'] exI [of _ blk]) simp
qed

lemma alloc_sprintf_ok:
  assumes "length (vsnprintf lib f a) < 2 ^ 60" and "\<And>k q. shared_try_alloc hk k q" and "stat_strdup lib f = Some f"
  shows "\<exists>h blk. caml_alloc_sprintf hk lib f a r = Some (Returned (Ptr (length (heap r)) 0) (r\<lparr>heap := h\<rparr>)) \<and>
    h = heap r @ [blk] \<and> is_string h (Ptr (length (heap r)) 0) (vsnprintf lib f a)"
proof (cases "length (vsnprintf lib f a) < 128")
  case True
  have "take_opt (length (vsnprintf lib f a)) (vsnprintf lib f a @ [0]) = Some (vsnprintf lib f a)"
    by (simp add: take_opt_def)
  from alloc_initialized_string_ok [OF this assms(1,2), of r] True show ?thesis
    by (simp add: caml_alloc_sprintf_def Let_def)
next
  case False
  then show ?thesis using store_text [OF assms(1,2), of r] assms(3) by (simp add: caml_alloc_sprintf_def Let_def)
qed

lemma parse_format_d:
  assumes "is_string (heap r) fmt (map ch ''%d'')" and "suffix = [] \<or> suffix = ''l''"
  shows "parse_format hk fmt suffix r k = k (ch (CHR ''d'')) (c_literal (''%'' @ suffix @ ''d''))"
proof -
  have "read_bytes (heap r) fmt 0 2 = Some (map ch ''%d'')" using is_string_read [OF assms(1), of 2] by simp
  with assms(2) show ?thesis
    by (auto simp: parse_format_def with_length_string [OF assms(1)] c_literal_def ch_def)
qed

text \<open>The contract of the C library: \<open>%d\<close> and \<open>%ld\<close> print decimals, and there is memory for formats.\<close>

definition prints_decimals :: "c_library \<Rightarrow> bool" where
  "prints_decimals lib \<longleftrightarrow>
     (\<forall>w. vsnprintf lib (c_literal ''%d'') (C_int w) = decimal (sint w)) \<and>
     (\<forall>w. vsnprintf lib (c_literal ''%ld'') (C_long w) = decimal (sint w)) \<and>
     (\<forall>f. stat_strdup lib f = Some f)"

lemma length_digits10: "n < 10 ^ Suc k \<Longrightarrow> length (digits10 n) \<le> Suc k"
proof (induction k arbitrary: n)
  case 0
  then show ?case by (simp add: digits10.simps [of n])
next
  case (Suc k)
  then have "n div 10 < 10 ^ Suc k" by (simp add: div_less_iff_less_mult)
  from Suc.IH [OF this] show ?case by (subst digits10.simps) simp
qed

lemma length_decimal:
  assumes "- (2 ^ 63) \<le> i" and "i < 2 ^ 63"
  shows "length (decimal i) < 2 ^ 60"
proof -
  have "nat \<bar>i\<bar> < 10 ^ Suc 18" using assms by (simp add: nat_less_iff)
  from length_digits10 [OF this] have "length (digits10 (nat \<bar>i\<bar>)) \<le> 19" by simp
  then show ?thesis by (cases "i < 0") (simp_all add: decimal_def)
qed

lemma sprintf_decimal:
  assumes "vsnprintf lib f a = decimal i" and "stat_strdup lib f = Some f" and "\<forall>k q. shared_try_alloc hk k q"
    and "- (2 ^ 63) \<le> i" and "i < 2 ^ 63"
  shows "\<exists>s r'. caml_alloc_sprintf hk lib f a r = Some (Returned s r') \<and> is_string (heap r') s (decimal i)"
  using alloc_sprintf_ok [of lib f a hk r] length_decimal [OF assms(4,5)] assms(1-3) by force

text \<open>C10: Reading back what was printed: the string that \<open>"%d"\<close> makes of an \<open>int\<close>, an \<open>int32\<close>, an \<open>int64\<close> or
  a \<open>nativeint\<close> is converted to the same integer, for every integer of the type, given that
  the C library prints decimals (\<open>prints_decimals\<close>) and that there is memory for the string.\<close>

theorem format_of_string:
  assumes "prints_decimals lib" and "\<forall>k q. shared_try_alloc hk k q" and "is_string (heap r) fmt (map ch ''%d'')"
  shows "(fits63 i \<longrightarrow> (\<exists>s r'. caml_format_int hk lib fmt (tag_int i) r = Some (Returned s r') \<and>
        caml_int_of_string hk s r' = Some (Returned (Word (tag_int i)) r')))
    \<and> (Int32_val (heap r) v = Some x \<longrightarrow> (\<exists>s r'. caml_int32_format hk lib fmt v r = Some (Returned s r') \<and>
        caml_int32_of_string hk ops s r' = caml_copy_int32 ops x r'))
    \<and> (Int64_val (heap r) v = Some y \<longrightarrow> (\<exists>s r'. caml_int64_format hk lib fmt v r = Some (Returned s r') \<and>
        caml_int64_of_string hk ops s r' = caml_copy_int64 ops y r'))
    \<and> (Nativeint_val (heap r) v = Some z \<longrightarrow> (\<exists>s r'. caml_nativeint_format hk lib fmt v r = Some (Returned s r') \<and>
        caml_nativeint_of_string hk ops s r' = caml_copy_nativeint ops z r'))"
proof -
  note d = parse_format_d [OF assms(3)]
  have C: "vsnprintf lib (c_literal ''%d'') (C_int a) = decimal (sint a)"
    "vsnprintf lib (c_literal ''%ld'') (C_long b) = decimal (sint b)" "stat_strdup lib f = Some f" for a b f
    using assms(1) by (simp_all add: prints_decimals_def)
  have long: "\<exists>s r'. caml_alloc_sprintf hk lib (c_literal ''%ld'') (C_long b) r = Some (Returned s r') \<and>
      is_string (heap r') s (decimal (sint b))" "literal_value 64 (decimal (sint b)) = Some (sint b)" for b
    using sint_ge [of b] sint_lt [of b] by (auto intro!: sprintf_decimal C assms(2) literal_value_decimal)
  have int: "\<exists>s r'. caml_alloc_sprintf hk lib (c_literal ''%d'') (C_int a) r = Some (Returned s r') \<and>
      is_string (heap r') s (decimal (sint a))" "literal_value 32 (decimal (sint a)) = Some (sint a)" for a
    using sint_ge [of a] sint_lt [of a] by (auto intro!: sprintf_decimal C assms(2) literal_value_decimal)
  have "\<exists>s r'. caml_format_int hk lib fmt (tag_int i) r = Some (Returned s r') \<and>
      caml_int_of_string hk s r' = Some (Returned (Word (tag_int i)) r')" if "fits63 i"
  proof -
    have "literal_value 63 (decimal i) = Some i"
      using that by (intro literal_value_decimal) (simp_all add: fits63_def Min_long_def Max_long_def)
    then show ?thesis
      using long(1) [of "Long_val (tag_int i)"] sint_Long_val_tag_int [OF that]
      by (auto simp: caml_format_int_def d ch_def caml_int_of_string_def parse_intnat_spec Val_long_word_of_int)
  qed
  moreover have "\<exists>s r'. caml_int32_format hk lib fmt v r = Some (Returned s r') \<and>
      caml_int32_of_string hk ops s r' = caml_copy_int32 ops x r'" if "Int32_val (heap r) v = Some x"
    using that int [of x] by (auto simp: caml_int32_format_def d caml_int32_of_string_def parse_intnat_spec ucast_scast)
  moreover have "\<exists>s r'. caml_int64_format hk lib fmt v r = Some (Returned s r') \<and>
      caml_int64_of_string hk ops s r' = caml_copy_int64 ops y r'" if "Int64_val (heap r) v = Some y"
    using that long [of y] by (auto simp: caml_int64_format_def d int64_of_string_parse_intnat parse_intnat_spec)
  moreover have "\<exists>s r'. caml_nativeint_format hk lib fmt v r = Some (Returned s r') \<and>
      caml_nativeint_of_string hk ops s r' = caml_copy_nativeint ops z r'" if "Nativeint_val (heap r) v = Some z"
    using that long [of z] by (auto simp: caml_nativeint_format_def d caml_nativeint_of_string_def parse_intnat_spec)
  ultimately show ?thesis by blast
qed

text \<open>The format \<open>"%d"\<close> and a boxed integer.\<close>

definition format_rt :: runtime where
  "format_rt = sample_rt\<lparr>heap := [\<lparr>block_tag = String_tag, block_fields = [Word 0x0500000000006425]\<rparr>,
     \<lparr>block_tag = Custom_tag, block_fields = [Code 0, Word 0x1122334455667788]\<rparr>]\<rparr>"

definition decimal_library :: c_library where
  "decimal_library = \<lparr>vsnprintf = \<lambda>f a. (case a of C_int w \<Rightarrow> decimal (sint w) | C_long w \<Rightarrow> decimal (sint w)),
     stat_strdup = Some\<rparr>"

theorem format_of_string_witness:
  "(\<exists>s r'. caml_format_int quiet_hooks decimal_library (Ptr 0 0) (tag_int (- 42)) format_rt = Some (Returned s r') \<and>
     caml_int_of_string quiet_hooks s r' = Some (Returned (Word (tag_int (- 42))) r')) \<and>
   (\<exists>s r'. caml_int64_format quiet_hooks decimal_library (Ptr 0 0) (Ptr 1 0) format_rt = Some (Returned s r') \<and>
     caml_int64_of_string quiet_hooks (Code 0) s r' = caml_copy_int64 (Code 0) 0x1122334455667788 r')"
proof -
  have lib: "prints_decimals decimal_library" by (simp add: prints_decimals_def decimal_library_def)
  have mem: "\<forall>k q. shared_try_alloc quiet_hooks k q" by (simp add: quiet_hooks_def)
  have "string_bytes (map ch ''%d'') = map (\<lambda>k. ucast (drop_bit (8 * k) (0x0500000000006425 :: u64))) [0..<8]"
    by code_simp
  from one_word_string [OF _ _ _ _ this] have fmt: "is_string (heap format_rt) (Ptr 0 0) (map ch ''%d'')"
    by (simp add: format_rt_def Tag_val_def Wosize_val_def Field_def int_nth_def)
  have "fits63 (- 42)" by (simp add: fits63_def Max_long_def Min_long_def)
  moreover have "Int64_val (heap format_rt) (Ptr 1 0) = Some 0x1122334455667788"
    by (simp add: Int64_val_def Field_def format_rt_def int_nth_def)
  ultimately show ?thesis
    using format_of_string [OF lib mem fmt, of "- 42" "Ptr 1 0" 0 "Code 0" "0x1122334455667788" 0] by blast
qed

section \<open>Division of boxed integers\<close>

text \<open>
  Division truncates and fits its remainder; the one quotient that does not fit wraps around, and only a
  zero divisor raises.
\<close>

lemma truncated_division:
  fixes x y :: "'a::len word"
  assumes "y \<noteq> 0"
  shows "word_of_int (sint x sdiv sint y) * y + word_of_int (sint x smod sint y) = x"
    and "\<bar>sint (word_of_int (sint x smod sint y) :: 'a word)\<bar> < \<bar>sint y\<bar>"
proof -
  have "word_of_int (sint x sdiv sint y) * y + word_of_int (sint x smod sint y) =
      (word_of_int (sint x sdiv sint y * sint y + sint x smod sint y) :: 'a word)" by simp
  also have "\<dots> = x" by (simp only: sdiv_mult_smod_eq) simp
  finally show "word_of_int (sint x sdiv sint y) * y + word_of_int (sint x smod sint y) = x" .
  have "sint y \<noteq> 0" using assms signed_eq_0_iff [of y] by blast
  then have lt: "\<bar>sint x smod sint y\<bar> < \<bar>sint y\<bar>"
    by (simp add: signed_modulo_int_def signed_divide_int_def abs_mult)
  then have "- (2 ^ (LENGTH('a) - 1)) \<le> sint x smod sint y" "sint x smod sint y < 2 ^ (LENGTH('a) - 1)"
    using sint_ge [of y] sint_lt [of y] by (simp_all add: abs_less_iff abs_if split: if_splits)
  then have "sint (word_of_int (sint x smod sint y) :: 'a word) = sint x smod sint y"
    by (simp add: signed_of_int signed_take_bit_int_eq_self)
  with lt show "\<bar>sint (word_of_int (sint x smod sint y) :: 'a word)\<bar> < \<bar>sint y\<bar>" by simp
qed

lemma int64_division:
  assumes "Int64_val (heap r) v1 = Some x" and "Int64_val (heap r) v2 = Some y"
  shows "y = 0 \<Longrightarrow> caml_int64_div hk ops v1 v2 r = caml_raise_zero_divide hk r \<and>
      caml_int64_mod hk ops v1 v2 r = caml_raise_zero_divide hk r"
    and "y \<noteq> 0 \<Longrightarrow> \<exists>q m. caml_int64_div hk ops v1 v2 r = caml_copy_int64 ops q r \<and>
      caml_int64_mod hk ops v1 v2 r = caml_copy_int64 ops m r \<and> q * y + m = x \<and> \<bar>sint m\<bar> < \<bar>sint y\<bar>"
proof -
  show "caml_int64_div hk ops v1 v2 r = caml_raise_zero_divide hk r \<and>
      caml_int64_mod hk ops v1 v2 r = caml_raise_zero_divide hk r" if "y = 0"
    using that assms by (simp add: caml_int64_div_def caml_int64_mod_def)
  show "\<exists>q m. caml_int64_div hk ops v1 v2 r = caml_copy_int64 ops q r \<and>
      caml_int64_mod hk ops v1 v2 r = caml_copy_int64 ops m r \<and> q * y + m = x \<and> \<bar>sint m\<bar> < \<bar>sint y\<bar>" if "y \<noteq> 0"
  proof (cases "x = push_bit 63 1 \<and> y = - 1")
    case True
    then show ?thesis
      using assms by (intro exI [of _ x] exI [of _ 0]) (simp add: caml_int64_div_def caml_int64_mod_def)
  next
    case False
    then have "caml_int64_div hk ops v1 v2 r = caml_copy_int64 ops (word_of_int (sint x sdiv sint y)) r"
      "caml_int64_mod hk ops v1 v2 r = caml_copy_int64 ops (word_of_int (sint x smod sint y)) r"
      using assms that unfolding caml_int64_div_def caml_int64_mod_def assms by (simp_all only: bind.bind_lunit if_False)
    then show ?thesis using truncated_division [OF that] by blast
  qed
qed

end
