(* ===== verification/Ints_Boxed.thy ===== *)
theory Ints_Boxed
  imports Ints_Props
begin

text \<open>
  The three boxed types share one contract: a new box holds the integer it was made from and leaves the
  boxes there are alone. The arithmetic of ints.c computes with the integers in the boxes.
\<close>

section \<open>The contract\<close>

locale boxed_integers =
  fixes copy :: "mlvalue \<Rightarrow> 'i \<Rightarrow> runtime \<Rightarrow> runtime c_result option"
    and unbox :: "heap \<Rightarrow> mlvalue \<Rightarrow> 'i option"
  assumes copy_new: "\<exists>v r' blk. copy ops i r = Some (Returned v r') \<and> heap r' = heap r @ [blk] \<and>
      unbox (heap r') v = Some i"
    and unbox_grows: "unbox h v = Some i \<Longrightarrow> unbox (h @ blks) v = Some i"
begin

definition box_of :: "runtime c_result option \<Rightarrow> runtime \<Rightarrow> 'i \<Rightarrow> bool" where
  "box_of out r i \<longleftrightarrow> (\<exists>v r'. out = Some (Returned v r') \<and> unbox (heap r') v = Some i \<and>
     (\<forall>w j. unbox (heap r) w = Some j \<longrightarrow> unbox (heap r') w = Some j))"

lemma copy_box: "box_of (copy ops i r) r i"
  unfolding box_of_def using copy_new [of ops i r] unbox_grows by metis

lemma unary:
  assumes "unbox (heap r) v = Some i"
  shows "box_of (do { i \<leftarrow> unbox (heap r) v; copy ops (f i) r }) r (f i)"
  using assms by (simp add: copy_box)

lemma binary:
  assumes "unbox (heap r) v = Some i" and "unbox (heap r) w = Some j"
  shows "box_of (do { i \<leftarrow> unbox (heap r) v; j \<leftarrow> unbox (heap r) w; copy ops (f i j) r }) r (f i j)"
  using assms by (simp add: copy_box)

text \<open>Two operations in a row: the second finds the result of the first and its own operand.\<close>

lemma binary_then:
  assumes "unbox (heap r) v = Some i" and "unbox (heap r) w = Some j"
    and "\<And>r'. op1 v w r' = do { i \<leftarrow> unbox (heap r') v; j \<leftarrow> unbox (heap r') w; copy ops (f i j) r' }"
    and "\<And>u r'. op2 u w r' = do { i \<leftarrow> unbox (heap r') u; j \<leftarrow> unbox (heap r') w; copy ops (g i j) r' }"
  shows "\<exists>u r' u' r''. op1 v w r = Some (Returned u r') \<and> op2 u w r' = Some (Returned u' r'') \<and>
    unbox (heap r'') u' = Some (g (f i j) j)"
proof -
  from binary [OF assms(1,2), of ops f] obtain u r' where 1: "op1 v w r = Some (Returned u r')"
    "unbox (heap r') u = Some (f i j)" "unbox (heap r') w = Some j"
    using assms(2) unfolding box_of_def assms(3) by blast
  from binary [OF 1(2,3), of ops g] obtain u' r'' where "op2 u w r' = Some (Returned u' r'')"
    "unbox (heap r'') u' = Some (g (f i j) j)"
    unfolding box_of_def assms(4) by blast
  with 1(1) show ?thesis by blast
qed

end

section \<open>The three types\<close>

lemma Field_grows: "Field h v i = Some x \<Longrightarrow> Field (h @ blks) v i = Some x"
  by (auto simp: Field_def bind_eq_Some_conv nth_append split: mlvalue.splits)

lemma custom_box:
  "\<exists>v r' blk. do_alloc_small Custom_tag [ops, Word w] r = Some (Returned v r') \<and> heap r' = heap r @ [blk] \<and>
    Int64_val (heap r') v = Some w"
  by (simp add: do_alloc_small_def alloc_minor_def Max_young_wosize_def Custom_tag_def set_fields_def
      init_fields_all Int64_val_def Field_def int_nth_def)

lemma Int64_val_grows: "Int64_val h v = Some i \<Longrightarrow> Int64_val (h @ blks) v = Some i"
  by (auto simp: Int64_val_def bind_eq_Some_conv dest: Field_grows)

lemma low_half: "ucast (push_bit 32 a OR ucast (i :: u32) :: u64) = i"
  by (rule bit_word_eqI) (auto simp: bit_simps)

interpretation box32: boxed_integers caml_copy_int32 Int32_val
proof
  show "\<exists>v r' blk. caml_copy_int32 ops i r = Some (Returned v r') \<and> heap r' = heap r @ [blk] \<and>
      Int32_val (heap r') v = Some i" for ops i r
    using custom_box [of ops _ r] by (fastforce simp: caml_copy_int32_def Int32_val_def low_half)
  show "Int32_val h v = Some i \<Longrightarrow> Int32_val (h @ blks) v = Some i" for h v i blks
    by (auto simp: Int32_val_def dest: Int64_val_grows)
qed

interpretation box64: boxed_integers caml_copy_int64 Int64_val
  by unfold_locales (unfold caml_copy_int64_def, rule custom_box, rule Int64_val_grows)

interpretation boxnat: boxed_integers caml_copy_nativeint Nativeint_val
proof -
  have "Nativeint_val = Int64_val" by (intro ext) (simp add: Nativeint_val_def Int64_val_def)
  then show "boxed_integers caml_copy_nativeint Nativeint_val"
    by unfold_locales (simp_all only: caml_copy_nativeint_def custom_box Int64_val_grows)
qed

section \<open>Arithmetic\<close>

text \<open>Subtraction undoes addition at every width, overflow included.\<close>

lemma add_sub_32:
  assumes "Int32_val (heap r) v = Some i" and "Int32_val (heap r) w = Some j"
  shows "\<exists>u r' u' r''. caml_int32_add ops v w r = Some (Returned u r') \<and>
    caml_int32_sub ops u w r' = Some (Returned u' r'') \<and> Int32_val (heap r'') u' = Some i"
  using box32.binary_then [OF assms, of "caml_int32_add ops" ops "(+)" "caml_int32_sub ops" "(-)"]
  by (simp add: caml_int32_add_def caml_int32_sub_def int32_2_def)

lemma add_sub_64:
  assumes "Int64_val (heap r) v = Some i" and "Int64_val (heap r) w = Some j"
  shows "\<exists>u r' u' r''. caml_int64_add ops v w r = Some (Returned u r') \<and>
    caml_int64_sub ops u w r' = Some (Returned u' r'') \<and> Int64_val (heap r'') u' = Some i"
  using box64.binary_then [OF assms, of "caml_int64_add ops" ops "(+)" "caml_int64_sub ops" "(-)"]
  by (simp add: caml_int64_add_def caml_int64_sub_def int64_2_def)

lemma add_sub_nat:
  assumes "Nativeint_val (heap r) v = Some i" and "Nativeint_val (heap r) w = Some j"
  shows "\<exists>u r' u' r''. caml_nativeint_add ops v w r = Some (Returned u r') \<and>
    caml_nativeint_sub ops u w r' = Some (Returned u' r'') \<and> Nativeint_val (heap r'') u' = Some i"
  using boxnat.binary_then [OF assms, of "caml_nativeint_add ops" ops "(+)" "caml_nativeint_sub ops" "(-)"]
  by (simp add: caml_nativeint_add_def caml_nativeint_sub_def nativeint_2_def)

text \<open>A bitwise exclusive or with the same operand twice gives the integer back.\<close>

lemma xor_xor_64:
  assumes "Int64_val (heap r) v = Some i" and "Int64_val (heap r) w = Some j"
  shows "\<exists>u r' u' r''. caml_int64_xor ops v w r = Some (Returned u r') \<and>
    caml_int64_xor ops u w r' = Some (Returned u' r'') \<and> Int64_val (heap r'') u' = Some i"
  using box64.binary_then [OF assms, of "caml_int64_xor ops" ops "(XOR)" "caml_int64_xor ops" "(XOR)"]
  by (simp add: caml_int64_xor_def int64_2_def xor.assoc)

text \<open>Widening an \<open>int32\<close> and narrowing the result is the identity.\<close>

lemma int32_via_int64:
  assumes "Int32_val (heap r) v = Some i"
  shows "\<exists>u r' u' r''. caml_int64_of_int32 ops64 v r = Some (Returned u r') \<and>
    caml_int64_to_int32 ops32 u r' = Some (Returned u' r'') \<and> Int32_val (heap r'') u' = Some i"
proof -
  obtain u r' where 1: "caml_copy_int64 ops64 (scast i) r = Some (Returned u r')" "Int64_val (heap r') u = Some (scast i)"
    using box64.copy_new by blast
  moreover obtain u' r'' where "caml_copy_int32 ops32 i r' = Some (Returned u' r'')" "Int32_val (heap r'') u' = Some i"
    using box32.copy_new by blast
  ultimately show ?thesis
    using assms by (simp add: caml_int64_of_int32_def caml_int64_to_int32_def ucast_scast)
qed

text \<open>Comparison is that of the signed integers; the two interfaces to it agree.\<close>

lemma int64_compare_sign:
  assumes "Int64_val (heap r) v = Some i" and "Int64_val (heap r) w = Some j"
  shows "int64_cmp (heap r) v w = Some (sgn (sint i - sint j)) \<and>
    caml_int64_compare v w r = Some (Returned (Word (tag_int (sgn (sint i - sint j)))) r)"
proof -
  have "COMPARE_INT (sint i) (sint j) = word_of_int (sgn (sint i - sint j))"
    by (simp add: COMPARE_INT_def sgn_if)
  then show ?thesis
    using assms by (simp add: int64_cmp_def caml_int64_compare_def Val_long_word_of_int sgn_if)
qed

end
