(* ===== verification/Named_Values.thy ===== *)
theory Named_Values
  imports Alloc
begin

text \<open>
  The table of named values of \<open>callback.c\<close>, through which C code finds OCaml closures: an array of 13
  chains hashed by name. A name is a C string; the table holds its characters without the final 0.
  The lock around the operations is left out: the model has one domain.
\<close>

section \<open>Operations\<close>

record named_value =
  nv_val :: mlvalue
  nv_name :: "u8 list"

type_synonym named_value_table = "named_value list list"

definition Named_value_size :: nat where "Named_value_size = 13"

text \<open>The characters of a C string before its final 0.\<close>

definition c_chars :: "u8 list \<Rightarrow> u8 list option" where
  "c_chars p = do { n \<leftarrow> strlen p; Some (take n p) }"

text \<open>\<open>char\<close> is signed; \<open>h\<close> is an \<open>unsigned int\<close>.\<close>

definition hash_value_name :: "u8 list \<Rightarrow> nat" where
  "hash_value_name name = unat (fold (\<lambda>c h. h * 19 + word_of_int (sint c)) name (0 :: u32) mod of_nat Named_value_size)"

text \<open>The search of a chain, \<open>strcmp\<close> deciding; the loop of the registration assigns to the node it finds.\<close>

fun bucket_find :: "u8 list \<Rightarrow> named_value list \<Rightarrow> mlvalue option" where
  "bucket_find name [] = None"
| "bucket_find name (nv # nvs) = (if nv_name nv = name then Some (nv_val nv) else bucket_find name nvs)"

fun bucket_update :: "u8 list \<Rightarrow> mlvalue \<Rightarrow> named_value list \<Rightarrow> named_value list option" where
  "bucket_update name val [] = None"
| "bucket_update name val (nv # nvs) =
     (if nv_name nv = name then Some (nv\<lparr>nv_val := val\<rparr> # nvs) else map_option ((#) nv) (bucket_update name val nvs))"

definition caml_register_named_value :: "u8 list \<Rightarrow> mlvalue \<Rightarrow> named_value_table \<Rightarrow> named_value_table option" where
  "caml_register_named_value vname val tbl = do {
     name \<leftarrow> c_chars vname;
     let h = hash_value_name name;
     chain \<leftarrow> nth_opt tbl h;
     Some (case bucket_update name val chain of
       Some chain' \<Rightarrow> tbl[h := chain']
     | None \<Rightarrow> tbl[h := \<lparr>nv_val = val, nv_name = name\<rparr> # chain]) }"

text \<open>\<open>Some None\<close> is NULL.\<close>

definition caml_named_value :: "u8 list \<Rightarrow> named_value_table \<Rightarrow> mlvalue option option" where
  "caml_named_value vname tbl = do {
     name \<leftarrow> c_chars vname;
     chain \<leftarrow> nth_opt tbl (hash_value_name name);
     Some (bucket_find name chain) }"

definition caml_iterate_named_values :: "(mlvalue \<Rightarrow> u8 list \<Rightarrow> 's \<Rightarrow> 's) \<Rightarrow> named_value_table \<Rightarrow> 's \<Rightarrow> 's" where
  "caml_iterate_named_values f tbl s = fold (\<lambda>chain s. fold (\<lambda>nv. f (nv_val nv) (nv_name nv)) chain s) (take Named_value_size tbl) s"

section \<open>The table as a map\<close>

text \<open>Every name is in the chain of its hash, once.\<close>

definition named_inv :: "named_value_table \<Rightarrow> bool" where
  "named_inv tbl \<longleftrightarrow> length tbl = Named_value_size \<and>
     (\<forall>h < Named_value_size. distinct (map nv_name (tbl ! h)) \<and> (\<forall>nv \<in> set (tbl ! h). hash_value_name (nv_name nv) = h))"

definition named_map :: "named_value_table \<Rightarrow> u8 list \<Rightarrow> mlvalue option" where
  "named_map tbl name = bucket_find name (tbl ! hash_value_name name)"

lemma hash_value_name_less: "hash_value_name name < Named_value_size"
  by (simp add: hash_value_name_def Named_value_size_def unat_mod)

lemma bucket_update_None: "bucket_update name val nvs = None \<longleftrightarrow> name \<notin> nv_name ` set nvs"
  by (induction nvs) auto

lemma bucket_update_Some:
  "bucket_update name val nvs = Some nvs' \<Longrightarrow> map nv_name nvs' = map nv_name nvs \<and>
     (\<forall>k. bucket_find k nvs' = (if k = name then Some val else bucket_find k nvs))"
  by (induction nvs arbitrary: nvs') (auto split: if_splits)

lemma same_names:
  assumes "map nv_name nvs = map nv_name nvs'"
  shows "(\<forall>nv \<in> set nvs. P (nv_name nv)) = (\<forall>nv \<in> set nvs'. P (nv_name nv))"
proof -
  have "nv_name ` set nvs = nv_name ` set nvs'" using arg_cong [OF assms, of set] by simp
  then have "(\<forall>n \<in> nv_name ` set nvs. P n) = (\<forall>n \<in> nv_name ` set nvs'. P n)" by simp
  then show ?thesis by simp
qed

text \<open>
  Registering a name and looking it up again gives the registered value, whether the name was there
  before or not; every other name keeps its value, and no name is ever stored twice.
\<close>

theorem named_value_roundtrip:
  assumes "named_inv tbl" "c_chars vname = Some name"
  shows "\<exists>tbl'. caml_register_named_value vname val tbl = Some tbl' \<and> named_inv tbl' \<and>
    caml_named_value vname tbl' = Some (Some val) \<and>
    (\<forall>other k. c_chars other = Some k \<and> k \<noteq> name \<longrightarrow> caml_named_value other tbl' = caml_named_value other tbl)"
proof -
  let ?h = "hash_value_name name"
  have h: "?h < length tbl" using assms(1) hash_value_name_less by (simp add: named_inv_def)
  define chain where "chain = (case bucket_update name val (tbl ! ?h) of
      Some c \<Rightarrow> c | None \<Rightarrow> \<lparr>nv_val = val, nv_name = name\<rparr> # tbl ! ?h)"
  have find: "bucket_find k chain = (if k = name then Some val else bucket_find k (tbl ! ?h))" for k
    using bucket_update_Some [of name val "tbl ! ?h"] by (auto simp: chain_def split: option.split)
  have ok: "distinct (map nv_name chain) \<and> (\<forall>nv \<in> set chain. hash_value_name (nv_name nv) = ?h)"
  proof (cases "bucket_update name val (tbl ! ?h)")
    case None
    then show ?thesis using assms(1) h bucket_update_None [of name val "tbl ! ?h"]
      by (auto simp: chain_def named_inv_def)
  next
    case (Some c)
    then have "map nv_name chain = map nv_name (tbl ! ?h)" using bucket_update_Some by (simp add: chain_def)
    with same_names [OF this, of "\<lambda>n. hash_value_name n = ?h"] assms(1) h show ?thesis by (auto simp: named_inv_def)
  qed
  have "caml_register_named_value vname val tbl = Some (tbl[?h := chain])"
    using assms(2) h by (simp add: caml_register_named_value_def chain_def nth_opt_def Let_def split: option.split)
  moreover have "named_inv (tbl[?h := chain])" using assms(1) ok h by (auto simp: named_inv_def nth_list_update split: if_splits)
  moreover have "caml_named_value other (tbl[?h := chain]) = Some (if k = name then Some val else bucket_find k (tbl ! hash_value_name k))"
    if "c_chars other = Some k" for other k
    using that h find hash_value_name_less [of k] assms(1)
    by (auto simp: caml_named_value_def nth_opt_def nth_list_update named_inv_def)
  moreover have "caml_named_value other tbl = Some (bucket_find k (tbl ! hash_value_name k))" if "c_chars other = Some k" for other k
    using that hash_value_name_less [of k] assms(1) by (simp add: caml_named_value_def nth_opt_def named_inv_def)
  ultimately show ?thesis using assms(2) by auto
qed

theorem named_value_roundtrip_witness:
  "\<exists>tbl'. caml_register_named_value (c_literal ''Printexc.handle'') (Ptr 4 0) (replicate 13 []) = Some tbl' \<and>
     caml_named_value (c_literal ''Printexc.handle'') tbl' = Some (Some (Ptr 4 0))"
proof -
  have "c_chars (c_literal ''Printexc.handle'') = Some (butlast (c_literal ''Printexc.handle''))" by code_simp
  moreover have "named_inv (replicate 13 [])" by (simp add: named_inv_def Named_value_size_def)
  ultimately show ?thesis using named_value_roundtrip by blast
qed

end
