(* ===== verification/Simple_Stack.thy ===== *)
theory Simple_Stack
  imports Stacks
begin

text \<open>
  The two warm-up programs of the repository: \<open>simple-stack.c\<close>, a line-by-line interpreter for a stack of
  32 integers, and \<open>stack-skeleton.c\<close>, a stack of 256 integers. Both are instances of the bounded stack
  of the profiler's contract. An \<open>int\<close> is an integer whose overflow has no result, and neither has an
  access outside the array. What \<open>simple-stack.c\<close> prints is part of its state; the messages of
  \<open>stack-skeleton.c\<close> and its \<open>main\<close>, which pushes undeclared names and does not compile, are left out.
\<close>

section \<open>\<open>simple-stack.c\<close>\<close>

definition int32 :: "int \<Rightarrow> int option" where
  "int32 n = (if - (2 ^ 31) \<le> n \<and> n < 2 ^ 31 then Some n else None)"

definition stack_size :: nat where "stack_size = 32"

datatype printed = Listing int string | Number int | Top_of_stack int | Message string

record new_stack =
  ns_size :: "int list"
  ns_top :: int
  current_address :: int
  printed_out :: "printed list"

definition stack_full :: "new_stack \<Rightarrow> bool" where
  "stack_full s \<longleftrightarrow> ns_top s \<ge> int stack_size - 1"

definition ns_push :: "new_stack \<Rightarrow> int \<Rightarrow> new_stack option" where
  "ns_push s to_stack = do {
     xs \<leftarrow> int_upd (ns_size s) (ns_top s + 1) to_stack;
     Some (s\<lparr>ns_size := xs, ns_top := ns_top s + 1\<rparr>) }"

definition stack_empty :: "new_stack \<Rightarrow> bool" where
  "stack_empty s \<longleftrightarrow> ns_top s = - 1"

definition ns_pop :: "new_stack \<Rightarrow> (int \<times> new_stack) option" where
  "ns_pop s = do { v \<leftarrow> int_nth (ns_size s) (ns_top s); Some (v, s\<lparr>ns_top := ns_top s - 1\<rparr>) }"

definition ns_peek :: "new_stack \<Rightarrow> int option" where
  "ns_peek s = int_nth (ns_size s) (ns_top s)"

definition print :: "printed \<Rightarrow> new_stack \<Rightarrow> new_stack" where
  "print p s = s\<lparr>printed_out := printed_out s @ [p]\<rparr>"

definition display :: "new_stack \<Rightarrow> new_stack option" where
  "display s =
     (if stack_empty s then Some (print (Message (CHR 0x0A # ''Stack underflow!'')) s)
      else do {
        xs \<leftarrow> take_opt (nat (ns_top s + 1)) (ns_size s);
        Some (fold (\<lambda>v. print (Number v)) (rev xs) s) })"

definition ns_add :: "new_stack \<Rightarrow> new_stack option" where
  "ns_add s = do { (a, s) \<leftarrow> ns_pop s; (b, s) \<leftarrow> ns_pop s; total \<leftarrow> int32 (a + b); ns_push s total }"

definition mult :: "new_stack \<Rightarrow> new_stack option" where
  "mult s = do { (a, s) \<leftarrow> ns_pop s; (b, s) \<leftarrow> ns_pop s; product \<leftarrow> int32 (a * b); ns_push s product }"

text \<open>\<open>dup\<close> pushes the bottom of the stack.\<close>

definition dup :: "new_stack \<Rightarrow> new_stack option" where
  "dup s = do { v \<leftarrow> nth_opt (ns_size s) 0; ns_push s v }"

definition jmp :: "int \<Rightarrow> new_stack \<Rightarrow> new_stack option" where
  "jmp address s = do { a \<leftarrow> int32 (address - 1); Some (s\<lparr>current_address := a\<rparr>) }"

definition ifeq :: "int \<Rightarrow> int \<Rightarrow> new_stack \<Rightarrow> new_stack option" where
  "ifeq value address s = do {
     v \<leftarrow> nth_opt (ns_size s) 0;
     if v = value then jmp address s else Some (print (Top_of_stack v) s) }"

subsection \<open>Commands\<close>

text \<open>\<open>strtok(cmd, " ")\<close>: the maximal runs of characters other than spaces.\<close>

fun tokens :: "string \<Rightarrow> string \<Rightarrow> string list" where
  "tokens word [] = (if word = [] then [] else [word])"
| "tokens word (c # cs) =
     (if c = CHR '' '' then (if word = [] then tokens [] cs else word # tokens [] cs)
      else tokens (word @ [c]) cs)"

text \<open>\<open>atoi\<close>: white space, a sign, digits; a value outside \<open>int\<close> is undefined.\<close>

definition is_space :: "char \<Rightarrow> bool" where
  "is_space c \<longleftrightarrow> c = CHR '' '' \<or> (9 \<le> (of_char c :: nat) \<and> (of_char c :: nat) \<le> 13)"

definition digit :: "char \<Rightarrow> int option" where
  "digit c = (if 48 \<le> (of_char c :: nat) \<and> (of_char c :: nat) \<le> 57 then Some (int (of_char c) - 48) else None)"

fun atoi_digits :: "int \<Rightarrow> string \<Rightarrow> int" where
  "atoi_digits n [] = n"
| "atoi_digits n (c # cs) = (case digit c of Some d \<Rightarrow> atoi_digits (10 * n + d) cs | None \<Rightarrow> n)"

definition atoi :: "string \<Rightarrow> int option" where
  "atoi str = (case dropWhile is_space str of
     [] \<Rightarrow> Some 0
   | c # cs \<Rightarrow> int32 (if c = CHR ''-'' then - atoi_digits 0 cs
       else if c = CHR ''+'' then atoi_digits 0 cs else atoi_digits 0 (c # cs)))"

text \<open>A command that needs a word that is not there passes NULL to \<open>strcmp\<close> or \<open>atoi\<close>.\<close>

definition execute :: "string \<Rightarrow> new_stack \<Rightarrow> new_stack option" where
  "execute cmd s = (let spl = tokens [] cmd in do {
     name \<leftarrow> nth_opt spl 0;
     if name = ''push'' then do { arg \<leftarrow> nth_opt spl 1; num \<leftarrow> atoi arg; ns_push s num }
     else if name = ''jmp'' then do { arg \<leftarrow> nth_opt spl 1; addr \<leftarrow> atoi arg; jmp addr s }
     else if name = ''pop'' @ [CHR 0x0A] then map_option snd (ns_pop s)
     else if name = ''peek'' @ [CHR 0x0A] then map_option (\<lambda>_. s) (ns_peek s)
     else if name = ''add'' @ [CHR 0x0A] then ns_add s
     else if name = ''mult'' @ [CHR 0x0A] then mult s
     else if name = ''dup'' @ [CHR 0x0A] then dup s
     else if name = ''disp'' @ [CHR 0x0A] then display s
     else if name = ''#'' then Some s
     else Some (print (Message (''Command not recognised: '' @ name)) s) })"

subsection \<open>The main loop\<close>

text \<open>\<open>fgets(str, 16, srcfile)\<close>: up to 15 characters, ending after a newline. The chunks of a file.\<close>

fun fgets :: "nat \<Rightarrow> string \<Rightarrow> string \<times> string" where
  "fgets 0 cs = ([], cs)"
| "fgets (Suc n) [] = ([], [])"
| "fgets (Suc n) (c # cs) = (if c = CHR 0x0A then ([c], cs) else (case fgets n cs of (l, r) \<Rightarrow> (c # l, r)))"

lemma fgets_split: "fgets n cs = (l, r) \<Longrightarrow> cs = l @ r"
  by (induction n cs arbitrary: l r rule: fgets.induct) (auto split: if_splits prod.splits)

lemma fgets_progress: "fgets (Suc n) (c # cs) = (l, r) \<Longrightarrow> length r < Suc (length cs)"
  using fgets_split [of "Suc n" "c # cs" l r] by (auto split: if_splits prod.splits)

function file_chunks :: "string \<Rightarrow> string list" where
  "file_chunks cs = (if cs = [] then [] else fst (fgets 15 cs) # file_chunks (snd (fgets 15 cs)))"
  by pat_completeness auto
termination
proof (relation "measure length")
  fix cs :: string assume "cs \<noteq> []"
  then obtain d ds where "cs = d # ds" by (cases cs) auto
  then show "(snd (fgets 15 cs), cs) \<in> measure length"
    using fgets_progress [of 14 d ds] by (auto simp: numeral_eq_Suc prod_eq_iff split: prod.splits)
qed simp

declare file_chunks.simps [simp del]

fun run_chunks :: "string list \<Rightarrow> new_stack \<Rightarrow> new_stack option" where
  "run_chunks [] s = Some s"
| "run_chunks (str # strs) s = do {
     s \<leftarrow> execute str (print (Listing (current_address s) str) s);
     a \<leftarrow> int32 (current_address s + 1);
     run_chunks strs (s\<lparr>current_address := a\<rparr>) }"

definition initial_stack :: new_stack where
  "initial_stack = \<lparr>ns_size = replicate stack_size 0, ns_top = - 1, current_address = 0, printed_out = []\<rparr>"

text \<open>The argument is what \<open>fopen\<close> gives: the contents of the file, or none. The result has the exit status.\<close>

definition main :: "string option \<Rightarrow> (int \<times> new_stack) option" where
  "main srcfile = (case srcfile of
     None \<Rightarrow> Some (- 1, print (Message (''File failed to open.'' @ [CHR 0x0A])) initial_stack)
   | Some contents \<Rightarrow> do {
       s \<leftarrow> run_chunks (file_chunks contents) initial_stack;
       Some (0, print (Message ''EOF. Quitting'') s) })"

section \<open>\<open>stack-skeleton.c\<close>\<close>

record skeleton =
  sk_stack :: "int list"
  sk_top :: int

definition MAXSIZE :: int where "MAXSIZE = 256"

definition isempty :: "skeleton \<Rightarrow> bool" where "isempty s \<longleftrightarrow> sk_top s = - 1"
definition isfull :: "skeleton \<Rightarrow> bool" where "isfull s \<longleftrightarrow> sk_top s = MAXSIZE"

definition sk_peek :: "skeleton \<Rightarrow> int option" where
  "sk_peek s = int_nth (sk_stack s) (sk_top s)"

text \<open>\<open>pop\<close> of an empty stack prints and returns nothing.\<close>

definition sk_pop :: "skeleton \<Rightarrow> (int \<times> skeleton) option" where
  "sk_pop s = (if \<not> isempty s then do { data \<leftarrow> int_nth (sk_stack s) (sk_top s); Some (data, s\<lparr>sk_top := sk_top s - 1\<rparr>) }
     else None)"

definition sk_push :: "skeleton \<Rightarrow> int \<Rightarrow> skeleton option" where
  "sk_push s data = (if \<not> isfull s then do {
       xs \<leftarrow> int_upd (sk_stack s) (sk_top s + 1) data;
       Some (s\<lparr>sk_stack := xs, sk_top := sk_top s + 1\<rparr>) }
     else Some s)"

end
