(* ===== verification/Simple_Stack_Props.thy ===== *)
theory Simple_Stack_Props
  imports Simple_Stack
begin

text \<open>
  Both stacks meet the contract of a bounded stack, and a program compiled from an arithmetic
  expression leaves the value of the expression on top.
\<close>

section \<open>Stacks in arrays\<close>

definition array_elems :: "'a list \<Rightarrow> int \<Rightarrow> 'a list" where
  "array_elems xs t = rev (take (nat (t + 1)) xs)"

definition array_ok :: "nat \<Rightarrow> 'a list \<Rightarrow> int \<Rightarrow> bool" where
  "array_ok n xs t \<longleftrightarrow> length xs = n \<and> - 1 \<le> t \<and> t < int n"

lemma array_length: "array_ok n xs t \<Longrightarrow> length (array_elems xs t) = nat (t + 1)"
  by (auto simp: array_ok_def array_elems_def)

lemma array_push:
  assumes "array_ok n xs t" "length (array_elems xs t) < n"
  shows "int_upd xs (t + 1) v = Some (xs[nat (t + 1) := v])" "array_ok n (xs[nat (t + 1) := v]) (t + 1)"
    "array_elems (xs[nat (t + 1) := v]) (t + 1) = v # array_elems xs t"
proof -
  have t: "0 \<le> t + 1" "nat (t + 1) < length xs" using assms array_length [OF assms(1)] by (auto simp: array_ok_def)
  then show "int_upd xs (t + 1) v = Some (xs[nat (t + 1) := v])" by simp
  show "array_ok n (xs[nat (t + 1) := v]) (t + 1)" using assms t by (auto simp: array_ok_def)
  have "nat (t + 1 + 1) = Suc (nat (t + 1))" using t by linarith
  then show "array_elems (xs[nat (t + 1) := v]) (t + 1) = v # array_elems xs t"
    using t by (simp add: array_elems_def take_Suc_conv_app_nth)
qed

lemma array_pop:
  assumes "array_ok n xs t" "array_elems xs t = v # vs"
  shows "int_nth xs t = Some v" "array_ok n xs (t - 1)" "array_elems xs (t - 1) = vs"
proof -
  have t: "0 \<le> t" "nat t < length xs" using assms array_length [OF assms(1)] by (auto simp: array_ok_def)
  then have "nat (t + 1) = Suc (nat t)" by linarith
  then have "array_elems xs t = xs ! nat t # array_elems xs (t - 1)"
    using t by (simp add: array_elems_def take_Suc_conv_app_nth)
  with assms t show "int_nth xs t = Some v" "array_ok n xs (t - 1)" "array_elems xs (t - 1) = vs"
    by (auto simp: array_ok_def)
qed

section \<open>The two stacks\<close>

definition ns_ok :: "new_stack \<Rightarrow> bool" where "ns_ok s \<longleftrightarrow> array_ok stack_size (ns_size s) (ns_top s)"
definition ns_elems :: "new_stack \<Rightarrow> int list" where "ns_elems s = array_elems (ns_size s) (ns_top s)"
definition ns_cap :: "new_stack \<Rightarrow> nat" where "ns_cap s = stack_size"

lemma ns_push_eq:
  assumes "ns_ok s" "length (ns_elems s) < stack_size"
  shows "\<exists>s'. ns_push s v = Some s' \<and> ns_ok s' \<and> ns_elems s' = v # ns_elems s \<and> current_address s' = current_address s"
proof -
  note p = array_push [OF assms [unfolded ns_ok_def ns_elems_def], of v]
  show ?thesis using p(2,3) by (simp add: ns_push_def p(1) ns_ok_def ns_elems_def)
qed

lemma ns_pop_eq:
  assumes "ns_ok s" "ns_elems s = v # vs"
  shows "\<exists>s'. ns_pop s = Some (v, s') \<and> ns_ok s' \<and> ns_elems s' = vs \<and> current_address s' = current_address s"
proof -
  note p = array_pop [OF assms [unfolded ns_ok_def ns_elems_def]]
  show ?thesis using p(2,3) by (simp add: ns_pop_def p(1) ns_ok_def ns_elems_def)
qed

interpretation simple: bounded_stack ns_push ns_pop ns_elems ns_cap ns_ok
proof unfold_locales
  fix s assume "ns_ok s"
  then show "length (ns_elems s) \<le> ns_cap s"
    using array_length [of stack_size "ns_size s" "ns_top s"] by (auto simp: ns_ok_def ns_elems_def ns_cap_def array_ok_def)
qed (use ns_push_eq ns_pop_eq in \<open>fastforce simp: ns_cap_def\<close>)+

definition sk_ok :: "skeleton \<Rightarrow> bool" where "sk_ok s \<longleftrightarrow> array_ok (nat MAXSIZE) (sk_stack s) (sk_top s)"
definition sk_elems :: "skeleton \<Rightarrow> int list" where "sk_elems s = array_elems (sk_stack s) (sk_top s)"
definition sk_cap :: "skeleton \<Rightarrow> nat" where "sk_cap s = nat MAXSIZE"

lemma not_isfull: "sk_ok s \<Longrightarrow> \<not> isfull s"
  by (simp add: sk_ok_def array_ok_def isfull_def MAXSIZE_def)

interpretation skel: bounded_stack sk_push sk_pop sk_elems sk_cap sk_ok
proof unfold_locales
  fix s x assume "sk_ok s" "length (sk_elems s) < sk_cap s"
  note p = array_push [OF this [unfolded sk_ok_def sk_elems_def sk_cap_def], of x] not_isfull [OF this(1)]
  then show "\<exists>s'. sk_push s x = Some s' \<and> sk_ok s' \<and> sk_elems s' = x # sk_elems s \<and> sk_cap s' = sk_cap s"
    by (simp add: sk_push_def p(1) sk_ok_def sk_elems_def sk_cap_def)
next
  fix s x xs assume "sk_ok s" "sk_elems s = x # xs"
  note p = array_pop [OF this [unfolded sk_ok_def sk_elems_def]]
  have "\<not> isempty s" using \<open>sk_elems s = x # xs\<close> by (auto simp: isempty_def sk_elems_def array_elems_def)
  then show "\<exists>s'. sk_pop s = Some (x, s') \<and> sk_ok s' \<and> sk_elems s' = xs \<and> sk_cap s' = sk_cap s"
    using p(2,3) by (simp add: sk_pop_def p(1) sk_ok_def sk_elems_def sk_cap_def)
next
  fix s assume "sk_ok s"
  then show "length (sk_elems s) \<le> sk_cap s"
    using array_length [of "nat MAXSIZE" "sk_stack s" "sk_top s"] by (auto simp: sk_ok_def sk_elems_def sk_cap_def array_ok_def MAXSIZE_def)
qed

text \<open>
  The test for a full stack never stops an overflow: with 256 elements the stack is not "full" and the
  next push writes past the array.
\<close>

lemma skeleton_overflow:
  assumes "sk_ok s" "length (sk_elems s) = 256"
  shows "\<not> isfull s \<and> sk_push s v = None"
proof -
  have "sk_top s = 255" "length (sk_stack s) = 256"
    using assms array_length [of "nat MAXSIZE" "sk_stack s" "sk_top s"] by (auto simp: sk_ok_def sk_elems_def array_ok_def MAXSIZE_def)
  then show ?thesis by (simp add: isfull_def MAXSIZE_def sk_push_def int_upd_def upd_opt_def)
qed

text \<open>\<open>dup\<close> copies the bottom of the stack, which is its top only on a stack of one element.\<close>

lemma dup_bottom:
  assumes "ns_ok s" "ns_elems s = vs @ [v]" "length vs < 31"
  shows "\<exists>s'. dup s = Some s' \<and> ns_elems s' = v # vs @ [v]"
proof -
  have t: "0 \<le> ns_top s" "length (ns_size s) = 32"
    using assms array_length [of stack_size "ns_size s" "ns_top s"] by (auto simp: ns_ok_def ns_elems_def array_ok_def stack_size_def)
  have "last (ns_elems s) = hd (take (nat (ns_top s + 1)) (ns_size s))" by (simp add: ns_elems_def array_elems_def last_rev)
  also have "\<dots> = ns_size s ! 0" using t by (cases "ns_size s") (auto simp: nat_add_distrib)
  finally have v: "nth_opt (ns_size s) 0 = Some v" using assms(2) t by simp
  obtain s' where "ns_push s v = Some s'" "ns_elems s' = v # ns_elems s"
    using ns_push_eq [OF assms(1), of v] assms(2,3) by (auto simp: stack_size_def)
  then show ?thesis using assms(2) by (simp add: dup_def v)
qed

section \<open>Decimal numbers\<close>

fun show_nat :: "nat \<Rightarrow> string" where
  "show_nat n = (if n < 10 then [char_of (48 + n)] else show_nat (n div 10) @ [char_of (48 + n mod 10)])"

declare show_nat.simps [simp del]

lemma digit_char: "d < 10 \<Longrightarrow> digit (char_of (48 + d)) = Some (int d)"
  by (simp add: digit_def)

lemma show_nat_digits: "c \<in> set (show_nat n) \<Longrightarrow> 48 \<le> (of_char c :: nat) \<and> (of_char c :: nat) \<le> 57"
  by (induction n rule: show_nat.induct) (subst (asm) (2) show_nat.simps, auto split: if_splits)

lemma show_nat_length: "0 < k \<Longrightarrow> n < 10 ^ k \<Longrightarrow> length (show_nat n) \<le> k"
proof (induction n arbitrary: k rule: show_nat.induct)
  case (1 n)
  show ?case
  proof (cases "n < 10")
    case False
    then obtain j where j: "k = Suc j" "0 < j" using 1(2,3) by (cases k; cases "k - 1") auto
    then have "n div 10 < 10 ^ j" using 1(3) by (simp add: div_less_iff_less_mult mult.commute)
    then show ?thesis using 1(1) [OF False j(2)] False j by (simp add: show_nat.simps [of n])
  qed (use 1(2) in \<open>simp add: show_nat.simps [of n]\<close>)
qed

lemma atoi_digits_show: "atoi_digits a (show_nat n @ cs) = atoi_digits (a * 10 ^ length (show_nat n) + int n) cs"
proof (induction n arbitrary: a cs rule: show_nat.induct)
  case (1 n)
  show ?case
  proof (cases "n < 10")
    case True
    then show ?thesis by (simp add: show_nat.simps [of n] digit_char mult.commute)
  next
    case False
    have "atoi_digits a (show_nat n @ cs) =
        atoi_digits (10 * (a * 10 ^ length (show_nat (n div 10)) + int (n div 10)) + int (n mod 10)) cs"
      using False 1 [OF False, of a "char_of (48 + n mod 10) # cs"] by (simp add: show_nat.simps [of n] digit_char)
    also have "10 * (a * 10 ^ length (show_nat (n div 10)) + int (n div 10)) + int (n mod 10) =
        a * 10 ^ length (show_nat n) + int n"
    proof -
      have "10 * int (n div 10) + int (n mod 10) = int n" by presburger
      then show ?thesis using False by (simp add: show_nat.simps [of n] distrib_left)
    qed
    finally show ?thesis .
  qed
qed

lemma atoi_show:
  assumes "n < 2 ^ 31"
  shows "atoi (show_nat n @ [CHR 0x0A]) = Some (int n)"
proof -
  obtain c cs where c: "show_nat n = c # cs" by (cases "show_nat n") (auto simp: show_nat.simps [of n] split: if_splits)
  then have d: "48 \<le> (of_char c :: nat) \<and> (of_char c :: nat) \<le> 57" using show_nat_digits [of c n] by simp
  then have "\<not> is_space c" "c \<noteq> CHR ''-''" "c \<noteq> CHR ''+''" by (auto simp: is_space_def)
  moreover have "atoi_digits 0 (c # cs @ [CHR 0x0A]) = int n"
    using atoi_digits_show [of 0 n "[CHR 0x0A]"] c by (simp add: digit_def)
  ultimately show ?thesis using assms by (simp add: atoi_def c int32_def)
qed

section \<open>Compiled expressions\<close>

datatype expr = Const nat | Plus expr expr | Times expr expr

fun eval :: "expr \<Rightarrow> int" where
  "eval (Const n) = int n"
| "eval (Plus a b) = eval a + eval b"
| "eval (Times a b) = eval a * eval b"

definition push_line :: "nat \<Rightarrow> string" where
  "push_line n = ''push '' @ show_nat n @ [CHR 0x0A]"

fun compile :: "expr \<Rightarrow> string list" where
  "compile (Const n) = [push_line n]"
| "compile (Plus a b) = compile a @ compile b @ [''add'' @ [CHR 0x0A]]"
| "compile (Times a b) = compile a @ compile b @ [''mult'' @ [CHR 0x0A]]"

text \<open>Stack use, and the condition that constants fit on a line and no operation overflows.\<close>

fun depth :: "expr \<Rightarrow> nat" where
  "depth (Const n) = 1"
| "depth (Plus a b) = max (depth a) (Suc (depth b))"
| "depth (Times a b) = max (depth a) (Suc (depth b))"

fun in_range :: "expr \<Rightarrow> bool" where
  "in_range (Const n) = (n < 10 ^ 9)"
| "in_range (Plus a b) = (in_range a \<and> in_range b \<and> int32 (eval a + eval b) \<noteq> None)"
| "in_range (Times a b) = (in_range a \<and> in_range b \<and> int32 (eval a * eval b) \<noteq> None)"

lemma tokens_word: "CHR '' '' \<notin> set w \<Longrightarrow> tokens v (w @ cs) = tokens (v @ w) cs"
  by (induction w arbitrary: v) auto

lemma tokens_push: "tokens [] (push_line n) = [''push'', show_nat n @ [CHR 0x0A]]"
proof -
  have "CHR '' '' \<notin> set (show_nat n @ [CHR 0x0A])" using show_nat_digits [of "CHR '' ''" n] by auto
  then show ?thesis using tokens_word [of "show_nat n @ [CHR 0x0A]" "[]" "[]"] by (simp add: push_line_def)
qed

lemma print_stack [simp]:
  "ns_ok (print p s) = ns_ok s" "ns_elems (print p s) = ns_elems s" "current_address (print p s) = current_address s"
  by (simp_all add: print_def ns_ok_def ns_elems_def)

lemma upd_address_stack [simp]:
  "ns_ok (s\<lparr>current_address := a\<rparr>) = ns_ok s" "ns_elems (s\<lparr>current_address := a\<rparr>) = ns_elems s"
  by (simp_all add: ns_ok_def ns_elems_def)

lemma execute_push:
  assumes "ns_ok s" "length (ns_elems s) < stack_size" "n < 10 ^ 9"
  shows "\<exists>s'. execute (push_line n) s = Some s' \<and> ns_ok s' \<and> ns_elems s' = int n # ns_elems s \<and>
    current_address s' = current_address s"
  using ns_push_eq [OF assms(1,2), of "int n"] atoi_show [of n] assms(3) by (auto simp: execute_def tokens_push Let_def)

lemma binary_op:
  assumes "ns_ok s" "ns_elems s = b # a # vs" "int32 (f b a) = Some r"
  shows "\<exists>s'. (do { (x, s) \<leftarrow> ns_pop s; (y, s) \<leftarrow> ns_pop s; z \<leftarrow> int32 (f x y); ns_push s z }) = Some s' \<and>
    ns_ok s' \<and> ns_elems s' = r # vs \<and> current_address s' = current_address s"
proof -
  obtain s1 where s1: "ns_pop s = Some (b, s1)" "ns_ok s1" "ns_elems s1 = a # vs" "current_address s1 = current_address s"
    using ns_pop_eq [OF assms(1,2)] by blast
  obtain s2 where s2: "ns_pop s1 = Some (a, s2)" "ns_ok s2" "ns_elems s2 = vs" "current_address s2 = current_address s"
    using ns_pop_eq [OF s1(2,3)] s1(4) by auto
  have "length (ns_elems s) \<le> stack_size" using simple.elems_bound [OF assms(1)] by (simp add: ns_cap_def)
  then show ?thesis using ns_push_eq [OF s2(2), of r] assms(2,3) s1(1) s2 by auto
qed

lemma execute_ops:
  assumes "ns_ok s" "ns_elems s = b # a # vs"
  shows "int32 (b + a) = Some r \<Longrightarrow> \<exists>s'. execute (''add'' @ [CHR 0x0A]) s = Some s' \<and> ns_ok s' \<and> ns_elems s' = r # vs \<and>
      current_address s' = current_address s"
    "int32 (b * a) = Some r \<Longrightarrow> \<exists>s'. execute (''mult'' @ [CHR 0x0A]) s = Some s' \<and> ns_ok s' \<and> ns_elems s' = r # vs \<and>
      current_address s' = current_address s"
  using binary_op [OF assms, of "(+)" r] binary_op [OF assms, of "(*)" r]
  by (simp_all add: execute_def ns_add_def mult_def)

text \<open>One line of a program that leaves the stack as described.\<close>

lemma run_chunk:
  assumes "\<exists>s1. execute str (print (Listing (current_address s) str) s) = Some s1 \<and> ns_ok s1 \<and> ns_elems s1 = vs \<and>
      current_address s1 = current_address s" "0 \<le> current_address s" "current_address s + 1 < 2 ^ 31"
  shows "\<exists>s'. run_chunks (str # strs) s = run_chunks strs s' \<and> ns_ok s' \<and> ns_elems s' = vs \<and>
    current_address s' = current_address s + 1"
  using assms by (auto simp: int32_def)

lemma run_chunks_append:
  "run_chunks xs s = Some s1 \<Longrightarrow> run_chunks (xs @ ys) s = run_chunks ys s1"
  by (induction xs arbitrary: s) (auto simp: bind_Some_iff)

lemma compile_nonempty: "0 < length (compile e)"
  by (cases e) simp_all

text \<open>A compiled expression pushes its value.\<close>

definition pushes :: "string list \<Rightarrow> int \<Rightarrow> nat \<Rightarrow> bool" where
  "pushes prog v d \<longleftrightarrow> (\<forall>s. ns_ok s \<and> length (ns_elems s) + d \<le> stack_size \<and> 0 \<le> current_address s \<and>
     current_address s + int (length prog) < 2 ^ 31 \<longrightarrow>
     (\<exists>s'. run_chunks prog s = Some s' \<and> ns_ok s' \<and> ns_elems s' = v # ns_elems s \<and>
       current_address s' = current_address s + int (length prog)))"

lemma pushes_binary:
  assumes a: "pushes pa va da" and b: "pushes pb vb db"
    and op: "\<And>s vs. ns_ok s \<Longrightarrow> ns_elems s = vb # va # vs \<Longrightarrow>
      \<exists>s'. execute str s = Some s' \<and> ns_ok s' \<and> ns_elems s' = r # vs \<and> current_address s' = current_address s"
  shows "pushes (pa @ pb @ [str]) r (max da (Suc db))"
  unfolding pushes_def
proof (intro allI impI)
  fix s assume s: "ns_ok s \<and> length (ns_elems s) + max da (Suc db) \<le> stack_size \<and> 0 \<le> current_address s \<and>
    current_address s + int (length (pa @ pb @ [str])) < 2 ^ 31"
  then obtain s1 where s1: "run_chunks pa s = Some s1" "ns_ok s1" "ns_elems s1 = va # ns_elems s"
    "current_address s1 = current_address s + int (length pa)"
    using a unfolding pushes_def by fastforce
  then obtain s2 where s2: "run_chunks pb s1 = Some s2" "ns_ok s2" "ns_elems s2 = vb # va # ns_elems s"
    "current_address s2 = current_address s + int (length pa) + int (length pb)"
    using b s unfolding pushes_def by fastforce
  have "\<exists>s'. execute str (print (Listing (current_address s2) str) s2) = Some s' \<and> ns_ok s' \<and>
      ns_elems s' = r # ns_elems s \<and> current_address s' = current_address s2"
    using op [of "print (Listing (current_address s2) str) s2" "ns_elems s"] s2(2,3) by simp
  from run_chunk [OF this, of "[]"] obtain s3 where "run_chunks [str] s2 = run_chunks [] s3" "ns_ok s3"
    "ns_elems s3 = r # ns_elems s" "current_address s3 = current_address s2 + 1"
    using s s2(4) by auto
  then show "\<exists>s'. run_chunks (pa @ pb @ [str]) s = Some s' \<and> ns_ok s' \<and> ns_elems s' = r # ns_elems s \<and>
      current_address s' = current_address s + int (length (pa @ pb @ [str]))"
    using run_chunks_append [OF s1(1)] run_chunks_append [OF s2(1)] s2(4) by auto
qed

lemma compile_pushes: "in_range e \<Longrightarrow> pushes (compile e) (eval e) (depth e)"
proof (induction e)
  case (Const n)
  show ?case unfolding pushes_def
  proof (intro allI impI)
    fix s assume s: "ns_ok s \<and> length (ns_elems s) + depth (Const n) \<le> stack_size \<and> 0 \<le> current_address s \<and>
      current_address s + int (length (compile (Const n))) < 2 ^ 31"
    then show "\<exists>s'. run_chunks (compile (Const n)) s = Some s' \<and> ns_ok s' \<and> ns_elems s' = eval (Const n) # ns_elems s \<and>
        current_address s' = current_address s + int (length (compile (Const n)))"
      using run_chunk [of "push_line n" s "int n # ns_elems s" "[]"] Const
        execute_push [of "print (Listing (current_address s) (push_line n)) s" n] by auto
  qed
next
  case (Plus a b)
  then have r: "int32 (eval b + eval a) = Some (eval a + eval b)" by (auto simp: int32_def split: if_splits)
  show ?case using pushes_binary [of "compile a" "eval a" "depth a" "compile b" "eval b" "depth b" "''add'' @ [CHR 0x0A]",
      OF _ _ execute_ops(1) [OF _ _ r]] Plus by simp
next
  case (Times a b)
  then have r: "int32 (eval b * eval a) = Some (eval a * eval b)" by (auto simp: int32_def mult.commute split: if_splits)
  show ?case using pushes_binary [of "compile a" "eval a" "depth a" "compile b" "eval b" "depth b" "''mult'' @ [CHR 0x0A]",
      OF _ _ execute_ops(2) [OF _ _ r]] Times by simp
qed

text \<open>Lines that fit in the buffer are read back one by one.\<close>

definition is_line :: "string \<Rightarrow> bool" where
  "is_line l \<longleftrightarrow> (\<exists>w. l = w @ [CHR 0x0A] \<and> CHR 0x0A \<notin> set w \<and> length w < 15)"

lemma fgets_line: "CHR 0x0A \<notin> set w \<Longrightarrow> length w < n \<Longrightarrow> fgets n (w @ CHR 0x0A # cs) = (w @ [CHR 0x0A], cs)"
  by (induction n arbitrary: w) (auto simp: Cons_eq_append_conv neq_Nil_conv split: list.splits | case_tac w)+

lemma file_chunks_lines: "(\<forall>l\<in>set ls. is_line l) \<Longrightarrow> file_chunks (concat ls) = ls"
proof (induction ls)
  case (Cons l ls)
  then obtain w where w: "l = w @ [CHR 0x0A]" "CHR 0x0A \<notin> set w" "length w < 15" by (auto simp: is_line_def)
  then have "fgets 15 (concat (l # ls)) = (l, concat ls)" using fgets_line [of w 15 "concat ls"] by simp
  moreover have "file_chunks (concat ls) = ls" "concat (l # ls) \<noteq> []" using Cons w(1) by auto
  ultimately show ?case using file_chunks.simps [of "concat (l # ls)"] by (simp del: concat.simps)
qed (simp add: file_chunks.simps)

lemma compile_lines: "in_range e \<Longrightarrow> l \<in> set (compile e) \<Longrightarrow> is_line l"
proof (induction e)
  case (Const n)
  then have "l = (''push '' @ show_nat n) @ [CHR 0x0A]" "length (show_nat n) \<le> 9"
    using show_nat_length [of 9 n] by (simp_all add: push_line_def)
  moreover have "CHR 0x0A \<notin> set (show_nat n)" using show_nat_digits [of "CHR 0x0A" n] by auto
  ultimately show ?case unfolding is_line_def by (intro exI [of _ "''push '' @ show_nat n"]) simp
qed (auto simp: is_line_def)

text \<open>C40: running \<open>simple-stack.c\<close> on a file compiled from an arithmetic expression in reverse Polish
  notation (one command per line, constants of at most nine digits, no intermediate result outside \<open>int\<close>, at
  most 32 pending operands) reads every line back, executes it and stops with the value of the expression as
  the only element of the stack.\<close>

theorem simple_stack_computes:
  assumes "in_range e" "depth e \<le> 32" "length (compile e) < 2 ^ 31"
  shows "\<exists>s. main (Some (concat (compile e))) = Some (0, s) \<and> ns_elems s = [eval e]"
proof -
  have "file_chunks (concat (compile e)) = compile e" using compile_lines [OF assms(1)] by (intro file_chunks_lines) blast
  moreover have "ns_ok initial_stack" "ns_elems initial_stack = []" "current_address initial_stack = 0"
    by (simp_all add: initial_stack_def ns_ok_def array_ok_def ns_elems_def array_elems_def)
  moreover have "int (length (compile e)) < 2 ^ 31" using assms(3) by simp
  ultimately show ?thesis using compile_pushes [OF assms(1)] assms(2) unfolding pushes_def
    by (fastforce simp: main_def stack_size_def)
qed

theorem simple_stack_computes_witness:
  "\<exists>s. main (Some (concat (compile (Times (Const 12) (Plus (Const 3) (Const 4)))))) = Some (0, s) \<and> ns_elems s = [84]"
  using simple_stack_computes [of "Times (Const 12) (Plus (Const 3) (Const 4))"] by (simp add: int32_def)

end
