(* ===== verification/Warshall.thy ===== *)
theory Warshall
  imports Prelude
begin

text \<open>
  \<open>ocaml/yacc/warshall.c\<close>: the reflexive and transitive closure of a relation on \<open>n\<close> symbols, kept as \<open>n\<close> rows
  of \<open>WORDSIZE(n)\<close> words in one array. The loops move pointers into the array; here they are indices. The
  theorems say that the loops end inside the array and compute the closure.
\<close>

section \<open>The program\<close>

definition WORDSIZE :: "nat \<Rightarrow> nat" where
  "WORDSIZE n = (n + 31) div 32"

text \<open>\<open>while (rowj < rend) *rowj++ |= *rp++\<close>, for \<open>k\<close> words.\<close>

fun or_words :: "nat \<Rightarrow> nat \<Rightarrow> nat \<Rightarrow> u32 list \<Rightarrow> u32 list option" where
  "or_words 0 rowj rp R = Some R"
| "or_words (Suc k) rowj rp R = do {
     a \<leftarrow> nth_opt R rowj;
     b \<leftarrow> nth_opt R rp;
     R \<leftarrow> upd_opt R rowj (a OR b);
     or_words k (Suc rowj) (Suc rp) R }"

text \<open>The loop over the rows: those that have bit \<open>mask\<close> at \<open>ccol\<close> get the words of \<open>rowi\<close> added.\<close>

partial_function (option) closure_rows ::
  "nat \<Rightarrow> nat \<Rightarrow> u32 \<Rightarrow> nat \<Rightarrow> nat \<Rightarrow> nat \<Rightarrow> u32 list \<Rightarrow> u32 list option" where
  "closure_rows rowsize relend msk rowi rowj ccol R =
     (if rowj < relend then Option.bind (nth_opt R ccol) (\<lambda>c.
        Option.bind (if c AND msk \<noteq> 0 then or_words rowsize rowj rowi R else Some R)
          (closure_rows rowsize relend msk rowi (rowj + rowsize) (ccol + rowsize)))
      else Some R)"

text \<open>The outer loop: \<open>rowi\<close> is the row of the intermediate symbol, \<open>cword\<close> and \<open>mask\<close> its bit in the first row.\<close>

partial_function (option) closure_cols :: "nat \<Rightarrow> nat \<Rightarrow> nat \<Rightarrow> u32 \<Rightarrow> nat \<Rightarrow> u32 list \<Rightarrow> u32 list option" where
  "closure_cols rowsize relend cword msk rowi R =
     (if rowi < relend then Option.bind (closure_rows rowsize relend msk rowi 0 cword R)
        (\<lambda>R. if push_bit 1 msk = 0 then closure_cols rowsize relend (cword + 1) 1 (rowi + rowsize) R
         else closure_cols rowsize relend cword (push_bit 1 msk) (rowi + rowsize) R)
      else Some R)"

definition transitive_closure :: "u32 list \<Rightarrow> nat \<Rightarrow> u32 list option" where
  "transitive_closure R n = (let rowsize = WORDSIZE n in closure_cols rowsize (n * rowsize) 0 1 0 R)"

text \<open>The loop that sets the diagonal.\<close>

partial_function (option) set_diagonal :: "nat \<Rightarrow> nat \<Rightarrow> u32 \<Rightarrow> nat \<Rightarrow> u32 list \<Rightarrow> u32 list option" where
  "set_diagonal rowsize relend msk rp R =
     (if rp < relend then Option.bind (nth_opt R rp) (\<lambda>w. Option.bind (upd_opt R rp (w OR msk))
        (\<lambda>R. if push_bit 1 msk = 0 then set_diagonal rowsize relend 1 (rp + 1 + rowsize) R
         else set_diagonal rowsize relend (push_bit 1 msk) (rp + rowsize) R))
      else Some R)"

definition reflexive_transitive_closure :: "u32 list \<Rightarrow> nat \<Rightarrow> u32 list option" where
  "reflexive_transitive_closure R n = do {
     R \<leftarrow> transitive_closure R n;
     let rowsize = WORDSIZE n;
     set_diagonal rowsize (n * rowsize) 1 0 R }"

declare closure_rows.simps [code] closure_cols.simps [code] set_diagonal.simps [code]

section \<open>The relation of an array\<close>

text \<open>\<open>BIT(r, j)\<close> of the row \<open>r\<close> that starts at word \<open>p\<close>.\<close>

definition bit_at :: "u32 list \<Rightarrow> nat \<Rightarrow> nat \<Rightarrow> bool" where
  "bit_at R p j = bit (R ! (p + j div 32)) (j mod 32)"

definition row_rel :: "nat \<Rightarrow> u32 list \<Rightarrow> (nat \<times> nat) set" where
  "row_rel n R = {(i, j). i < n \<and> j < n \<and> bit_at R (i * WORDSIZE n) j}"

text \<open>Warshall's approximations: paths whose inner nodes are below \<open>k\<close>.\<close>

fun via :: "('a \<times> 'a) set \<Rightarrow> 'a list \<Rightarrow> ('a \<times> 'a) set" where
  "via r [] = r"
| "via r (k # ks) = (let q = via r ks in q \<union> {(i, j). (i, k) \<in> q \<and> (k, j) \<in> q})"

lemma via_trancl: "via r ks \<subseteq> r\<^sup>+"
  by (induction ks) (auto simp: Let_def intro: trancl_trans)

lemma via_base: "r \<subseteq> via r ks"
  by (induction ks) (auto simp: Let_def)

lemma via_join: "m \<in> set ks \<Longrightarrow> (i, m) \<in> via r ks \<Longrightarrow> (m, j) \<in> via r ks \<Longrightarrow> (i, j) \<in> via r ks"
proof (induction ks arbitrary: i j)
  case (Cons k ks)
  then show ?case by (cases "m = k") (auto simp: Let_def)
qed simp

lemma via_all:
  assumes "Range r \<subseteq> set ks"
  shows "via r ks = r\<^sup>+"
proof (rule subset_antisym [OF via_trancl])
  show "r\<^sup>+ \<subseteq> via r ks"
  proof (clarify, erule trancl.induct)
    show "(a, b) \<in> r \<Longrightarrow> (a, b) \<in> via r ks" for a b using via_base by blast
    show "(a, c) \<in> via r ks" if "(a, b) \<in> r\<^sup>+" "(a, b) \<in> via r ks" "(b, c) \<in> r" for a b c
    proof -
      have "b \<in> Range r" using that(1) by (metis Range.RangeI tranclE)
      then show ?thesis using that(2,3) assms via_base [of r ks] via_join [of b ks a r c] by blast
    qed
  qed
qed

section \<open>The loops\<close>

lemma or_words_ok:
  "p + k \<le> length R \<Longrightarrow> q + k \<le> length R \<Longrightarrow> p = q \<or> p + k \<le> q \<or> q + k \<le> p \<Longrightarrow>
   \<exists>R'. or_words k p q R = Some R' \<and> length R' = length R \<and>
     (\<forall>x. R' ! x = (if p \<le> x \<and> x < p + k then R ! x OR R ! (q + (x - p)) else R ! x))"
proof (induction k arbitrary: p q R)
  case (Suc k)
  let ?R = "R[p := R ! p OR R ! q]"
  obtain R' where R': "or_words k (Suc p) (Suc q) ?R = Some R'" "length R' = length R"
    "\<And>x. R' ! x = (if Suc p \<le> x \<and> x < Suc p + k then ?R ! x OR ?R ! (Suc q + (x - Suc p)) else ?R ! x)"
    using Suc.IH [of "Suc p" ?R "Suc q"] Suc.prems by auto
  moreover have "or_words (Suc k) p q R = Some R'" using R'(1) Suc.prems by (simp add: nth_opt_def upd_opt_def)
  moreover have "R' ! x = (if p \<le> x \<and> x < p + Suc k then R ! x OR R ! (q + (x - p)) else R ! x)" for x
    using R'(3) [of x] Suc.prems by (auto simp: nth_list_update Suc_diff_Suc)
  ultimately show ?case by blast
qed auto

text \<open>The words of different rows are different.\<close>

lemma row_word: "i < n \<Longrightarrow> c < w \<Longrightarrow> i * w + c < n * (w :: nat)"
proof -
  assume "i < n" "c < w"
  then have "i * w + c < Suc i * w" by simp
  also have "\<dots> \<le> n * w" using \<open>i < n\<close> by (intro mult_le_mono1) simp
  finally show ?thesis .
qed

lemma row_words_apart: "i \<noteq> j \<Longrightarrow> c < w \<Longrightarrow> \<not> (j * w \<le> i * w + c \<and> i * w + c < j * w + (w :: nat))"
proof -
  assume "i \<noteq> j" "c < w"
  then consider "Suc i \<le> j" | "Suc j \<le> i" by linarith
  then show ?thesis
  proof cases
    case 1
    then have "Suc i * w \<le> j * w" by (rule mult_le_mono1)
    then show ?thesis using \<open>c < w\<close> by simp
  next
    case 2
    then have "Suc j * w \<le> i * w" by (rule mult_le_mono1)
    then show ?thesis by simp
  qed
qed

lemma WORDSIZE_bound: "k < n \<Longrightarrow> k div 32 < WORDSIZE n"
  by (simp add: WORDSIZE_def)

lemma and_mask: "(w :: u32) AND 2 ^ m \<noteq> 0 \<longleftrightarrow> bit w m"
  by (simp add: and_exp_eq_0_iff_not_bit)

lemma push_mask: "2 * 2 ^ (k mod 32) = (if Suc k mod 32 = 0 then 0 else 2 ^ (Suc k mod 32) :: u32)"
proof (cases "Suc (k mod 32) = 32")
  case True
  then have k: "k mod 32 = 31" "Suc k mod 32 = 0" by (simp_all add: mod_Suc)
  show ?thesis unfolding k by simp
next
  case False
  then have "Suc k mod 32 = Suc (k mod 32)" by (simp add: mod_Suc)
  then show ?thesis by simp
qed

lemma mask_nonzero: "(2 ^ (k mod 32) :: u32) \<noteq> 0"
  using bit_exp_iff [of "k mod 32" "k mod 32", where 'a = u32] by (auto simp del: bit_exp_iff)

lemma next_bit: "Suc k mod 32 = 0 \<Longrightarrow> Suc k div 32 = Suc (k div 32)" "Suc k mod 32 \<noteq> 0 \<Longrightarrow> Suc k div 32 = k div 32"
  by (simp_all add: div_Suc)

lemma next_mask:
  "(if push_bit 1 (2 ^ (k mod 32) :: u32) = 0 then f (k div 32 + 1) 1 else f (k div 32) (push_bit 1 (2 ^ (k mod 32) :: u32))) =
   f (Suc k div 32) (2 ^ (Suc k mod 32) :: u32)"
proof (cases "Suc k mod 32 = 0")
  case True
  moreover have "push_bit 1 (2 ^ (k mod 32) :: u32) = 0" using push_mask [of k] True by (simp add: mult.commute)
  ultimately show ?thesis using next_bit(1) [of k] by simp
next
  case False
  moreover have "push_bit 1 (2 ^ (k mod 32) :: u32) = 2 ^ (Suc k mod 32)" using push_mask [of k] False by (simp add: mult.commute)
  ultimately show ?thesis using next_bit(2) [of k] mask_nonzero [of "Suc k"] by metis
qed

lemma closure_rows_ok:
  assumes "k < n" "k div 32 < w" "j \<le> n" "n * w \<le> length R"
  shows "\<exists>R'. closure_rows w (n * w) (2 ^ (k mod 32)) (k * w) (j * w) (j * w + k div 32) R = Some R' \<and> length R' = length R \<and>
    (\<forall>i < n. \<forall>c < w. R' ! (i * w + c) =
      (if j \<le> i \<and> bit_at R (i * w) k then R ! (i * w + c) OR R ! (k * w + c) else R ! (i * w + c)))"
  using assms(3,4)
proof (induction "n - j" arbitrary: j R)
  case 0
  then show ?case by (simp add: closure_rows.simps)
next
  case (Suc m)
  then have j: "j < n" by simp
  have jw: "j * w < n * w" using j assms(2) by simp
  have cc: "j * w + k div 32 < length R" using row_word [OF j assms(2)] Suc.prems by simp
  let ?b = "bit_at R (j * w) k"
  obtain R1 where R1: "(if ?b then or_words w (j * w) (k * w) R else Some R) = Some R1" "length R1 = length R"
    and R1n: "\<And>i c. i < n \<Longrightarrow> c < w \<Longrightarrow> R1 ! (i * w + c) =
      (if i = j \<and> ?b then R ! (i * w + c) OR R ! (k * w + c) else R ! (i * w + c))"
  proof (cases ?b)
    case True
    have le: "j * w + w \<le> length R" "k * w + w \<le> length R"
      using mult_le_mono1 [of "Suc j" n w] mult_le_mono1 [of "Suc k" n w] j assms(1) Suc.prems by auto
    have "j * w = k * w \<or> j * w + w \<le> k * w \<or> k * w + w \<le> j * w"
      using row_words_apart [of j k 0 w] row_words_apart [of k j 0 w] assms(2) by (cases "j = k") auto
    from or_words_ok [OF le this] obtain R' where R': "or_words w (j * w) (k * w) R = Some R'" "length R' = length R"
      "\<And>x. R' ! x = (if j * w \<le> x \<and> x < j * w + w then R ! x OR R ! (k * w + (x - j * w)) else R ! x)" by blast
    show thesis
    proof (rule that [of R'])
      show "R' ! (i * w + c) = (if i = j \<and> ?b then R ! (i * w + c) OR R ! (k * w + c) else R ! (i * w + c))"
        if "i < n" "c < w" for i c
        using R'(3) [of "i * w + c"] row_words_apart [of i j c w] that(2) True by auto
    qed (use R' True in simp_all)
  qed (use that in simp)
  have "m = n - Suc j" "Suc j \<le> n" "n * w \<le> length R1" using Suc.hyps(2) Suc.prems R1(2) by linarith+
  from Suc.hyps(1) [OF this] obtain R2 where R2: "closure_rows w (n * w) (2 ^ (k mod 32)) (k * w) (Suc j * w) (Suc j * w + k div 32) R1 = Some R2"
    "length R2 = length R1" and R2n: "\<And>i c. i < n \<Longrightarrow> c < w \<Longrightarrow> R2 ! (i * w + c) =
      (if Suc j \<le> i \<and> bit_at R1 (i * w) k then R1 ! (i * w + c) OR R1 ! (k * w + c) else R1 ! (i * w + c))" by blast
  have "closure_rows w (n * w) (2 ^ (k mod 32)) (k * w) (j * w) (j * w + k div 32) R = Some R2"
    using R1(1) R2(1) jw cc
    by (subst closure_rows.simps) (simp add: nth_opt_def and_mask bit_at_def ac_simps)
  moreover have "R2 ! (i * w + c) = (if j \<le> i \<and> bit_at R (i * w) k then R ! (i * w + c) OR R ! (k * w + c) else R ! (i * w + c))"
    if "i < n" "c < w" for i c
  proof -
    have "bit_at R1 (i * w) k = bit_at R (i * w) k" if "i \<noteq> j"
      using R1n [OF \<open>i < n\<close> assms(2)] that by (simp add: bit_at_def)
    moreover have "R1 ! (k * w + c) = R ! (k * w + c)" using R1n [OF assms(1) that(2)] by simp
    ultimately show ?thesis using R2n [OF that] R1n [OF that] by (cases "i = j") (auto simp: Suc_le_eq)
  qed
  ultimately show ?case using R2(2) R1(2) by auto
qed

text \<open>A pass adds the paths through \<open>k\<close>.\<close>

lemma closure_pass:
  assumes "k < n" "n * WORDSIZE n \<le> length R"
  shows "\<exists>R'. closure_rows (WORDSIZE n) (n * WORDSIZE n) (2 ^ (k mod 32)) (k * WORDSIZE n) 0 (k div 32) R = Some R' \<and>
    length R' = length R \<and> row_rel n R' = row_rel n R \<union> {(i, j). (i, k) \<in> row_rel n R \<and> (k, j) \<in> row_rel n R}"
proof -
  note kw = WORDSIZE_bound [OF assms(1)]
  from closure_rows_ok [OF assms(1) kw, of 0 R] assms(2) obtain R'
    where R': "closure_rows (WORDSIZE n) (n * WORDSIZE n) (2 ^ (k mod 32)) (k * WORDSIZE n) 0 (k div 32) R = Some R'"
      "length R' = length R"
    and n: "\<And>i c. i < n \<Longrightarrow> c < WORDSIZE n \<Longrightarrow> R' ! (i * WORDSIZE n + c) = (if bit_at R (i * WORDSIZE n) k
      then R ! (i * WORDSIZE n + c) OR R ! (k * WORDSIZE n + c) else R ! (i * WORDSIZE n + c))" by auto
  have "bit_at R' (i * WORDSIZE n) j \<longleftrightarrow> bit_at R (i * WORDSIZE n) j \<or>
      bit_at R (i * WORDSIZE n) k \<and> bit_at R (k * WORDSIZE n) j" if "i < n" "j < n" for i j
    using n [OF that(1) WORDSIZE_bound [OF that(2)]] by (auto simp: bit_at_def [of _ _ j] bit_or_iff)
  then have "row_rel n R' = row_rel n R \<union> {(i, j). (i, k) \<in> row_rel n R \<and> (k, j) \<in> row_rel n R}"
    using assms(1) by (auto simp: row_rel_def)
  with R' show ?thesis by blast
qed

lemma closure_cols_ok:
  assumes "k \<le> n" "n * WORDSIZE n \<le> length R" "row_rel n R = via r (rev [0..<k])"
  shows "\<exists>R'. closure_cols (WORDSIZE n) (n * WORDSIZE n) (k div 32) (2 ^ (k mod 32)) (k * WORDSIZE n) R = Some R' \<and>
    length R' = length R \<and> row_rel n R' = via r (rev [0..<n])"
  using assms
proof (induction "n - k" arbitrary: k R)
  case 0
  then show ?case by (simp add: closure_cols.simps)
next
  case (Suc m)
  then have k: "k < n" by simp
  from closure_pass [OF k Suc.prems(2)] obtain R1 where R1:
    "closure_rows (WORDSIZE n) (n * WORDSIZE n) (2 ^ (k mod 32)) (k * WORDSIZE n) 0 (k div 32) R = Some R1"
    "length R1 = length R" "row_rel n R1 = via r (rev [0..<Suc k])" using Suc.prems(3) by (auto simp: Let_def)
  have "m = n - Suc k" "Suc k \<le> n" "n * WORDSIZE n \<le> length R1" using Suc.hyps(2) Suc.prems(2) R1(2) k by linarith+
  from Suc.hyps(1) [OF this R1(3)] obtain R2 where R2:
    "closure_cols (WORDSIZE n) (n * WORDSIZE n) (Suc k div 32) (2 ^ (Suc k mod 32)) (Suc k * WORDSIZE n) R1 = Some R2"
    "length R2 = length R1" "row_rel n R2 = via r (rev [0..<n])" by blast
  have "k * WORDSIZE n < n * WORDSIZE n" using k WORDSIZE_bound [OF k] by simp
  then have "closure_cols (WORDSIZE n) (n * WORDSIZE n) (k div 32) (2 ^ (k mod 32)) (k * WORDSIZE n) R = Some R2"
    using R1(1) R2(1) next_mask [of k "\<lambda>c m. closure_cols (WORDSIZE n) (n * WORDSIZE n) c m (k * WORDSIZE n + WORDSIZE n) R1"]
    by (subst closure_cols.simps) (simp only: add.commute if_True bind.bind_lunit mult_Suc simp_thms)
  with R1(2) R2(2,3) show ?case by auto
qed

lemma transitive_closure_ok:
  assumes "n * WORDSIZE n \<le> length R"
  shows "\<exists>R'. transitive_closure R n = Some R' \<and> length R' = length R \<and> row_rel n R' = (row_rel n R)\<^sup>+"
proof -
  have "via (row_rel n R) (rev [0..<n]) = (row_rel n R)\<^sup>+" by (rule via_all) (auto simp: row_rel_def)
  then show ?thesis using closure_cols_ok [of 0 n R "row_rel n R"] assms by (simp add: transitive_closure_def Let_def)
qed

lemma set_diagonal_ok:
  assumes "k \<le> n" "n * WORDSIZE n \<le> length R"
  shows "\<exists>R'. set_diagonal (WORDSIZE n) (n * WORDSIZE n) (2 ^ (k mod 32)) (k * WORDSIZE n + k div 32) R = Some R' \<and>
    length R' = length R \<and> row_rel n R' = row_rel n R \<union> {(i, i) |i. k \<le> i \<and> i < n}"
  using assms
proof (induction "n - k" arbitrary: k R)
  case 0
  then show ?case by (auto simp: set_diagonal.simps)
next
  case (Suc m)
  then have k: "k < n" by simp
  note kw = WORDSIZE_bound [OF k]
  have p: "k * WORDSIZE n + k div 32 < n * WORDSIZE n" by (rule row_word [OF k kw])
  let ?p = "k * WORDSIZE n + k div 32"
  let ?R = "R[?p := R ! ?p OR 2 ^ (k mod 32)]"
  have "bit_at ?R (i * WORDSIZE n) j \<longleftrightarrow> bit_at R (i * WORDSIZE n) j \<or> i = k \<and> j = k" if "i < n" "j < n" for i j
  proof (cases "i * WORDSIZE n + j div 32 = ?p")
    case True
    then have "i = k" using row_words_apart [of i k "j div 32" "WORDSIZE n"] WORDSIZE_bound [OF that(2)] kw by auto
    then have "j div 32 = k div 32" using True by simp
    then have "j mod 32 = k mod 32 \<longleftrightarrow> j = k" by (metis div_mod_decomp)
    then show ?thesis using True \<open>i = k\<close> p Suc.prems(2) by (auto simp: bit_at_def bit_or_iff bit_exp_iff)
  next
    case False
    then show ?thesis by (auto simp: bit_at_def)
  qed
  then have rel: "row_rel n ?R = row_rel n R \<union> {(k, k)}" using k by (auto simp: row_rel_def)
  have "m = n - Suc k" "Suc k \<le> n" "n * WORDSIZE n \<le> length ?R" using Suc.hyps(2) Suc.prems(2) k by simp_all
  from Suc.hyps(1) [OF this] obtain R2 where R2:
    "set_diagonal (WORDSIZE n) (n * WORDSIZE n) (2 ^ (Suc k mod 32)) (Suc k * WORDSIZE n + Suc k div 32) ?R = Some R2"
    "length R2 = length R" "row_rel n R2 = row_rel n ?R \<union> {(i, i) |i. Suc k \<le> i \<and> i < n}" by auto
  have "set_diagonal (WORDSIZE n) (n * WORDSIZE n) (2 ^ (k mod 32)) ?p R = Some R2"
    using R2(1) p Suc.prems(2)
      next_mask [of k "\<lambda>c m. set_diagonal (WORDSIZE n) (n * WORDSIZE n) m (k * WORDSIZE n + c + WORDSIZE n) ?R"]
    by (subst set_diagonal.simps) (simp only: nth_opt_def upd_opt_def if_True bind.bind_lunit mult_Suc length_list_update ac_simps less_le_trans)
  moreover have "{(k, k)} \<union> {(i, i) |i. Suc k \<le> i \<and> i < n} = {(i, i) |i. k \<le> i \<and> i < n}" using k by (auto simp: Suc_le_eq)
  ultimately show ?case using R2(2,3) rel by auto
qed

lemma reflexive_closure_ok:
  assumes "n * WORDSIZE n \<le> length R"
  shows "\<exists>R'. reflexive_transitive_closure R n = Some R' \<and> length R' = length R \<and>
    row_rel n R' = {(i, j). i < n \<and> (i, j) \<in> (row_rel n R)\<^sup>*}"
proof -
  obtain R1 where R1: "transitive_closure R n = Some R1" "length R1 = length R" "row_rel n R1 = (row_rel n R)\<^sup>+"
    using transitive_closure_ok [OF assms] by blast
  obtain R2 where R2: "set_diagonal (WORDSIZE n) (n * WORDSIZE n) 1 0 R1 = Some R2" "length R2 = length R1"
    "row_rel n R2 = row_rel n R1 \<union> {(i, i) |i. i < n}" using set_diagonal_ok [of 0 n R1] assms R1(2) by auto
  have "(row_rel n R)\<^sup>+ \<subseteq> {..<n} \<times> {..<n}" by (rule trancl_subset_Sigma) (auto simp: row_rel_def)
  then have "(row_rel n R)\<^sup>+ \<union> {(i, i) |i. i < n} = {(i, j). i < n \<and> (i, j) \<in> (row_rel n R)\<^sup>*}"
    by (auto simp: rtrancl_eq_or_trancl)
  with R1 R2 show ?thesis by (auto simp: reflexive_transitive_closure_def)
qed

end
