(* ===== verification/Lr0_Closure.thy ===== *)
theory Lr0_Closure
  imports Warshall
begin

text \<open>
  \<open>ocaml/yacc/closure.c\<close> and the tables it needs from \<open>lr0.c\<close>: the closure of a set of LR(0) items. A grammar is
  the arrays that \<open>reader.c\<close> packs: symbols below \<open>start_symbol\<close> are tokens, an item is an index into \<open>ritem\<close>,
  which holds the right-hand sides one after the other, each ended by minus its rule number.

  A pointer that walks over an array is the rest of the array; reading past the end has no result. \<open>short\<close>
  stores truncate to 16 bits.
\<close>

section \<open>Grammar tables\<close>

record grammar =
  nsyms :: nat
  ntokens :: nat
  nvars :: nat
  start_symbol :: nat
  nrules :: nat
  nitems :: nat
  ritem :: "int list"
  rlhs :: "int list"
  rrhs :: "int list"

definition short :: "int \<Rightarrow> int" where
  "short n = sint (word_of_int n :: 16 word)"

definition ISVAR :: "grammar \<Rightarrow> int \<Rightarrow> bool" where
  "ISVAR g s \<longleftrightarrow> int (start_symbol g) \<le> s"

text \<open>\<open>SETBIT(r, n)\<close>, for the row that starts at word \<open>row\<close>.\<close>

definition SETBIT :: "u32 list \<Rightarrow> nat \<Rightarrow> nat \<Rightarrow> u32 list option" where
  "SETBIT a row n = do {
     w \<leftarrow> nth_opt a (row + n div 32);
     upd_opt a (row + n div 32) (w OR push_bit (n mod 32) 1) }"

section \<open>The rules of each variable\<close>

text \<open>\<open>set_derives\<close>: for each variable the list of its rules in \<open>rules\<close>, ended by -1; \<open>k\<close> is the next free place.\<close>

fun derives_scan :: "grammar \<Rightarrow> int \<Rightarrow> nat \<Rightarrow> nat \<Rightarrow> int list \<times> nat \<Rightarrow> (int list \<times> nat) option" where
  "derives_scan g lhs i 0 (rules, k) = Some (rules, k)"
| "derives_scan g lhs i (Suc n) (rules, k) = do {
     l \<leftarrow> nth_opt (rlhs g) i;
     if l = lhs then do { rules \<leftarrow> upd_opt rules k (short (int i)); derives_scan g lhs (Suc i) n (rules, Suc k) }
     else derives_scan g lhs (Suc i) n (rules, k) }"

fun derives_loop :: "grammar \<Rightarrow> nat \<Rightarrow> nat \<Rightarrow> nat option list \<times> int list \<times> nat \<Rightarrow> (nat option list \<times> int list \<times> nat) option" where
  "derives_loop g lhs 0 st = Some st"
| "derives_loop g lhs (Suc n) (derives, rules, k) = do {
     derives \<leftarrow> upd_opt derives lhs (Some k);
     (rules, k) \<leftarrow> derives_scan g (int lhs) 0 (nrules g) (rules, k);
     rules \<leftarrow> upd_opt rules k (- 1);
     derives_loop g (Suc lhs) n (derives, rules, Suc k) }"

definition set_derives :: "grammar \<Rightarrow> (nat option list \<times> int list) option" where
  "set_derives g = do {
     (derives, rules, k) \<leftarrow> derives_loop g (start_symbol g) (nsyms g - start_symbol g)
       (replicate (nsyms g) None, replicate (nvars g + nrules g) 0, 0);
     Some (derives, rules) }"

text \<open>\<open>derives[i]\<close>, as the rest of \<open>rules\<close> from there on.\<close>

definition derives_of :: "nat option list \<times> int list \<Rightarrow> nat \<Rightarrow> int list option" where
  "derives_of d i = do { p \<leftarrow> nth_opt (fst d) i; k \<leftarrow> p; drop_opt k (snd d) }"

section \<open>Leftmost variables\<close>

text \<open>\<open>set_EFF\<close>: the variables that can start a right-hand side of each variable, closed.\<close>

fun eff_rules :: "grammar \<Rightarrow> nat \<Rightarrow> int list \<Rightarrow> u32 list \<Rightarrow> u32 list option" where
  "eff_rules g row [] EFF = None"
| "eff_rules g row (rule # sp) EFF =
     (if 0 < rule then do {
        h \<leftarrow> int_nth (rrhs g) rule;
        symbol \<leftarrow> int_nth (ritem g) h;
        EFF \<leftarrow> (if ISVAR g symbol then SETBIT EFF row (nat (symbol - int (start_symbol g))) else Some EFF);
        eff_rules g row sp EFF }
      else Some EFF)"

fun eff_rows :: "grammar \<Rightarrow> nat option list \<times> int list \<Rightarrow> nat \<Rightarrow> nat \<Rightarrow> nat \<Rightarrow> u32 list \<Rightarrow> u32 list option" where
  "eff_rows g d i 0 row EFF = Some EFF"
| "eff_rows g d i (Suc n) row EFF = do {
     sp \<leftarrow> derives_of d i;
     EFF \<leftarrow> eff_rules g row sp EFF;
     eff_rows g d (Suc i) n (row + WORDSIZE (nvars g)) EFF }"

definition set_EFF :: "grammar \<Rightarrow> nat option list \<times> int list \<Rightarrow> u32 list option" where
  "set_EFF g d = do {
     EFF \<leftarrow> eff_rows g d (start_symbol g) (nsyms g - start_symbol g) 0 (replicate (nvars g * WORDSIZE (nvars g)) 0);
     reflexive_transitive_closure EFF (nvars g) }"

section \<open>The rules a variable can start\<close>

fun derive_bits :: "nat \<Rightarrow> int list \<Rightarrow> u32 list \<Rightarrow> u32 list option" where
  "derive_bits rrow [] fd = None"
| "derive_bits rrow (rule # rp) fd =
     (if 0 \<le> rule then do { fd \<leftarrow> SETBIT fd rrow (nat rule); derive_bits rrow rp fd } else Some fd)"

text \<open>The loop over the variables \<open>j\<close>; the next word of the row is fetched as soon as a word is used up.\<close>

fun first_derives_row ::
  "nat option list \<times> int list \<Rightarrow> u32 list \<Rightarrow> nat \<Rightarrow> nat \<Rightarrow> nat \<Rightarrow> nat \<Rightarrow> u32 \<Rightarrow> u32 \<Rightarrow> u32 list \<Rightarrow> u32 list option" where
  "first_derives_row d EFF rrow j 0 vrow cword msk fd = Some fd"
| "first_derives_row d EFF rrow j (Suc n) vrow cword msk fd = do {
     fd \<leftarrow> (if cword AND msk \<noteq> 0 then do { rp \<leftarrow> derives_of d j; derive_bits rrow rp fd } else Some fd);
     if push_bit 1 msk = 0
     then do { cword \<leftarrow> nth_opt EFF vrow; first_derives_row d EFF rrow (Suc j) n (Suc vrow) cword 1 fd }
     else first_derives_row d EFF rrow (Suc j) n vrow cword (push_bit 1 msk) fd }"

fun first_derives_rows ::
  "grammar \<Rightarrow> nat option list \<times> int list \<Rightarrow> u32 list \<Rightarrow> nat \<Rightarrow> nat \<Rightarrow> nat \<Rightarrow> u32 list \<Rightarrow> u32 list option" where
  "first_derives_rows g d EFF i 0 rrow fd = Some fd"
| "first_derives_rows g d EFF i (Suc n) rrow fd = do {
     let vrow = (i - ntokens g) * WORDSIZE (nvars g);
     cword \<leftarrow> nth_opt EFF vrow;
     fd \<leftarrow> first_derives_row d EFF rrow (start_symbol g) (nsyms g - start_symbol g) (Suc vrow) cword 1 fd;
     first_derives_rows g d EFF (Suc i) n (rrow + WORDSIZE (nrules g)) fd }"

text \<open>The pointer \<open>first_derives\<close> is moved down by the rows of the tokens: its row \<open>i\<close> is here at \<open>i - ntokens\<close>.\<close>

definition set_first_derives :: "grammar \<Rightarrow> nat option list \<times> int list \<Rightarrow> u32 list option" where
  "set_first_derives g d = do {
     EFF \<leftarrow> set_EFF g d;
     first_derives_rows g d EFF (start_symbol g) (nsyms g - start_symbol g) 0
       (replicate (nvars g * WORDSIZE (nrules g)) 0) }"

section \<open>The closure\<close>

text \<open>\<open>*rsp++ |= *dsp++\<close>, over the whole \<open>ruleset\<close>.\<close>

fun or_ruleset :: "u32 list \<Rightarrow> u32 list \<Rightarrow> u32 list option" where
  "or_ruleset [] dsp = Some []"
| "or_ruleset (w # rsp) [] = None"
| "or_ruleset (w # rsp) (d # dsp) = do { rest \<leftarrow> or_ruleset rsp dsp; Some ((w OR d) # rest) }"

fun closure_rules :: "grammar \<Rightarrow> u32 list \<Rightarrow> int list \<Rightarrow> u32 list \<Rightarrow> u32 list option" where
  "closure_rules g fd [] ruleset = Some ruleset"
| "closure_rules g fd (item # csp) ruleset = do {
     symbol \<leftarrow> int_nth (ritem g) item;
     ruleset \<leftarrow> (if ISVAR g symbol then do {
         dsp \<leftarrow> drop_opt (nat (symbol - int (ntokens g)) * WORDSIZE (nrules g)) fd;
         or_ruleset ruleset dsp }
       else Some ruleset);
     closure_rules g fd csp ruleset }"

text \<open>\<open>*itemsetend++ = item\<close>: \<open>itemset\<close> has room for \<open>nitems\<close> items.\<close>

definition put_item :: "grammar \<Rightarrow> int \<Rightarrow> int list \<Rightarrow> int list option" where
  "put_item g item out = (if length out < nitems g then Some (out @ [short item]) else None)"

fun copy_below :: "grammar \<Rightarrow> int \<Rightarrow> int list \<times> int list \<Rightarrow> (int list \<times> int list) option" where
  "copy_below g itemno ([], out) = Some ([], out)"
| "copy_below g itemno (c # csp, out) =
     (if c < itemno then do { out \<leftarrow> put_item g c out; copy_below g itemno (csp, out) } else Some (c # csp, out))"

text \<open>\<open>while (mask)\<close>: one word of the rule set, for \<open>n\<close> bits from \<open>mask\<close> on.\<close>

fun closure_word :: "grammar \<Rightarrow> u32 \<Rightarrow> nat \<Rightarrow> u32 \<Rightarrow> nat \<Rightarrow> int list \<times> int list \<Rightarrow> (int list \<times> int list) option" where
  "closure_word g word 0 msk ruleno st = (if msk = 0 then Some st else None)"
| "closure_word g word (Suc n) msk ruleno st =
     (if msk = 0 then Some st else do {
        st \<leftarrow> (if word AND msk \<noteq> 0 then do {
            itemno \<leftarrow> nth_opt (rrhs g) ruleno;
            (csp, out) \<leftarrow> copy_below g itemno st;
            out \<leftarrow> put_item g itemno out;
            Some (dropWhile (\<lambda>c. c = itemno) csp, out) }
          else Some st);
        closure_word g word n (push_bit 1 msk) (Suc ruleno) st })"

fun closure_words :: "grammar \<Rightarrow> u32 list \<Rightarrow> nat \<Rightarrow> int list \<times> int list \<Rightarrow> (int list \<times> int list) option" where
  "closure_words g [] ruleno st = Some st"
| "closure_words g (word # rsp) ruleno st =
     (if word = 0 then closure_words g rsp (ruleno + 32) st
      else do { st \<leftarrow> closure_word g word 32 1 ruleno st; closure_words g rsp (ruleno + 32) st })"

fun put_items :: "grammar \<Rightarrow> int list \<Rightarrow> int list \<Rightarrow> int list option" where
  "put_items g [] out = Some out"
| "put_items g (c # csp) out = do { out \<leftarrow> put_item g c out; put_items g csp out }"

text \<open>\<open>closure(nucleus, n)\<close>: the items written to \<open>itemset\<close>.\<close>

definition closure :: "grammar \<Rightarrow> u32 list \<Rightarrow> int list \<Rightarrow> int list option" where
  "closure g fd nucleus = do {
     ruleset \<leftarrow> closure_rules g fd nucleus (replicate (WORDSIZE (nrules g)) 0);
     (csp, out) \<leftarrow> closure_words g ruleset 0 (nucleus, []);
     put_items g csp out }"

end
