(* ===== verification/Lr0_Closure_Props.thy ===== *)
theory Lr0_Closure_Props
  imports Lr0_Closure
begin

text \<open>
  The closure of \<open>closure.c\<close> is the LR(0) closure of the grammar: the tables hold what their names say, and the
  merge of the new items with the nucleus is sorted and complete.
\<close>

section \<open>Grammars\<close>

definition grammar_ok :: "grammar \<Rightarrow> bool" where
  "grammar_ok g \<longleftrightarrow> nsyms g = ntokens g + nvars g \<and> start_symbol g = ntokens g \<and> nsyms g < 2 ^ 15 \<and>
     length (ritem g) = nitems g \<and> nitems g \<le> 2 ^ 15 \<and> length (rlhs g) = nrules g \<and> length (rrhs g) = Suc (nrules g) \<and>
     nrules g < 2 ^ 15 \<and> (\<forall>i < nitems g. ritem g ! i < int (nsyms g)) \<and>
     (\<forall>r < nrules g. rlhs g ! r < int (nsyms g) \<and> 0 \<le> rrhs g ! r \<and> rrhs g ! r < int (nitems g)) \<and>
     (0 < nrules g \<longrightarrow> rlhs g ! 0 < int (start_symbol g)) \<and>
     (\<forall>s < nrules g. \<forall>r < s. int (start_symbol g) \<le> rlhs g ! r \<longrightarrow> rrhs g ! r < rrhs g ! s)"

text \<open>The rules of variable number \<open>A\<close>.\<close>

definition rules_of :: "grammar \<Rightarrow> nat \<Rightarrow> nat list" where
  "rules_of g A = filter (\<lambda>r. rlhs g ! r = int (start_symbol g + A)) [0..<nrules g]"

text \<open>Bounded quantifiers over a numeral unfold.\<close>

lemma all_less_numeral: "(\<forall>i < numeral k. P i) \<longleftrightarrow> P (pred_numeral k) \<and> (\<forall>i < pred_numeral k. P i)"
  by (simp only: numeral_eq_Suc All_less_Suc)

lemma short_id: "- (2 ^ 15) \<le> n \<Longrightarrow> n < 2 ^ 15 \<Longrightarrow> short n = n"
  unfolding short_def signed_of_int by (simp add: signed_take_bit_int_eq_self)

section \<open>Bit sets\<close>

definition bits :: "u32 list \<Rightarrow> (nat \<times> nat) set" where
  "bits a = {(x, m). x < length a \<and> m < 32 \<and> bit (a ! x) m}"

definition pos :: "nat \<Rightarrow> nat \<Rightarrow> nat \<times> nat" where
  "pos row n = (row + n div 32, n mod 32)"

lemma bits_replicate [simp]: "bits (replicate n 0) = {}"
  by (auto simp: bits_def)

lemma pos_eq: "n div 32 < w \<Longrightarrow> m div 32 < w \<Longrightarrow> pos (i * w) n = pos (j * w) m \<longleftrightarrow> i = j \<and> n = m"
proof
  assume *: "n div 32 < w" "m div 32 < w" "pos (i * w) n = pos (j * w) m"
  then have "i = j" using row_words_apart [of i j "n div 32" w] by (auto simp: pos_def)
  with * have "n div 32 = m div 32" "n mod 32 = m mod 32" by (auto simp: pos_def)
  with \<open>i = j\<close> show "i = j \<and> n = m" by (metis div_mod_decomp)
qed simp

lemma pos_row0: "pos 0 n = pos 0 m \<longleftrightarrow> n = m"
  unfolding pos_def by simp (metis div_mod_decomp)

lemma SETBIT_ok:
  assumes "row + n div 32 < length a"
  shows "\<exists>a'. SETBIT a row n = Some a' \<and> length a' = length a \<and> bits a' = insert (pos row n) (bits a)"
  using assms
  by (auto simp: SETBIT_def nth_opt_def upd_opt_def bits_def pos_def nth_list_update bit_or_iff bit_exp_iff push_bit_eq_mult
      split: if_splits)

lemma row_rel_bits:
  assumes "length R = n * WORDSIZE n"
  shows "row_rel n R = {(i, j). i < n \<and> j < n \<and> pos (i * WORDSIZE n) j \<in> bits R}"
  using row_word [OF _ WORDSIZE_bound] assms by (auto simp: row_rel_def bit_at_def bits_def pos_def)

section \<open>The rules of each variable\<close>

lemma upt_from: "[i..<i + Suc n] = i # [Suc i..<Suc i + n]"
  by (simp add: upt_rec)

lemma derives_scan_ok:
  assumes "length (rlhs g) = nrules g" "nrules g < 2 ^ 15"
  shows "i + n \<le> nrules g \<Longrightarrow> length (filter (\<lambda>r. rlhs g ! r = lhs) [i..<i + n]) \<le> length suf \<Longrightarrow>
    derives_scan g lhs i n (pre @ suf, length pre) =
      Some (pre @ map int (filter (\<lambda>r. rlhs g ! r = lhs) [i..<i + n]) @ drop (length (filter (\<lambda>r. rlhs g ! r = lhs) [i..<i + n])) suf,
        length pre + length (filter (\<lambda>r. rlhs g ! r = lhs) [i..<i + n]))"
proof (induction n arbitrary: i pre suf)
  case (Suc n)
  note up = upt_from [of i n] and prems = Suc.prems [unfolded upt_from]
  have i: "nth_opt (rlhs g) i = Some (rlhs g ! i)" "short (int i) = int i"
    using Suc.prems(1) assms by (auto simp: short_id)
  show ?case
  proof (cases "rlhs g ! i = lhs")
    case True
    then obtain x suf' where suf: "suf = x # suf'" using prems(2) by (cases suf) auto
    then have "(pre @ suf)[length pre := int i] = (pre @ [int i]) @ suf'" by simp
    then show ?thesis using Suc.IH [of "Suc i" suf' "pre @ [int i]"] prems True suf i unfolding up
      by (simp add: nth_opt_def upd_opt_def del: upt_Suc)
  next
    case False
    then show ?thesis using Suc.IH [of "Suc i" suf pre] prems i unfolding up by (simp add: nth_opt_def del: upt_Suc)
  qed
qed simp

definition rule_block :: "grammar \<Rightarrow> nat \<Rightarrow> int list" where
  "rule_block g A = map int (rules_of g A) @ [- 1]"

lemma derives_loop_ok:
  assumes "grammar_ok g"
  shows "A + n \<le> nvars g \<Longrightarrow> length (concat (map (rule_block g) [A..<A + n])) \<le> length suf \<Longrightarrow> length ds = nsyms g \<Longrightarrow>
    \<exists>ds'. derives_loop g (start_symbol g + A) n (ds, pre @ suf, length pre) =
      Some (ds', pre @ concat (map (rule_block g) [A..<A + n]) @ drop (length (concat (map (rule_block g) [A..<A + n]))) suf,
        length pre + length (concat (map (rule_block g) [A..<A + n]))) \<and> length ds' = length ds \<and>
      (\<forall>B < n. ds' ! (start_symbol g + A + B) = Some (length pre + length (concat (map (rule_block g) [A..<A + B])))) \<and>
      (\<forall>i < start_symbol g + A. ds' ! i = ds ! i)"
proof (induction n arbitrary: A pre suf ds)
  case (Suc n)
  note up = upt_from [of A n] and prems = Suc.prems [unfolded upt_from]
  let ?s = "start_symbol g + A"
  have s: "?s < length ds" using Suc.prems assms by (auto simp: grammar_ok_def)
  have g: "length (rlhs g) = nrules g" "nrules g < 2 ^ 15" using assms by (auto simp: grammar_ok_def)
  let ?b = "map int (rules_of g A)"
  have len: "length ?b < length suf" using prems(2) by (simp add: rule_block_def)
  have scan: "derives_scan g (int ?s) 0 (nrules g) (pre @ suf, length pre) =
      Some (pre @ ?b @ drop (length ?b) suf, length pre + length ?b)"
    using derives_scan_ok [OF g, of 0 "nrules g" "int ?s" suf pre] len by (simp add: rules_of_def)
  obtain x suf' where suf: "drop (length ?b) suf = x # suf'" using len by (cases "drop (length ?b) suf") auto
  let ?pre = "pre @ rule_block g A"
  have upd: "upd_opt (pre @ ?b @ drop (length ?b) suf) (length pre + length ?b) (- 1) = Some (?pre @ suf')"
    unfolding suf by (simp add: upd_opt_def rule_block_def list_update_append)
  have suf': "suf' = drop (length (rule_block g A)) suf"
    using suf by (simp add: rule_block_def) (metis drop_Suc list.sel(3) tl_drop)
  let ?r = "concat (map (rule_block g) [Suc A..<Suc A + n])"
  have "length ?r \<le> length suf'" using prems(2) suf' by simp
  then obtain ds' where IH: "derives_loop g (Suc ?s) n (ds[?s := Some (length pre)], ?pre @ suf', length ?pre) =
      Some (ds', ?pre @ ?r @ drop (length ?r) suf', length ?pre + length ?r)" "length ds' = length ds"
      "\<And>B. B < n \<Longrightarrow> ds' ! (Suc ?s + B) = Some (length ?pre + length (concat (map (rule_block g) [Suc A..<Suc A + B])))"
      "\<And>i. i < Suc ?s \<Longrightarrow> ds' ! i = ds[?s := Some (length pre)] ! i"
    using Suc.IH [of "Suc A" suf' "ds[?s := Some (length pre)]" ?pre] Suc.prems by (auto simp del: upt_Suc)
  have "derives_loop g ?s (Suc n) (ds, pre @ suf, length pre) =
      Some (ds', pre @ concat (map (rule_block g) [A..<A + Suc n]) @ drop (length (concat (map (rule_block g) [A..<A + Suc n]))) suf,
        length pre + length (concat (map (rule_block g) [A..<A + Suc n])))"
    using IH(1) s scan upd suf' unfolding up by (simp add: upd_opt_def rule_block_def add.commute del: upt_Suc)
  moreover have "ds' ! (?s + B) = Some (length pre + length (concat (map (rule_block g) [A..<A + B])))" if "B < Suc n" for B
  proof (cases B)
    case 0
    then show ?thesis using IH(4) [of ?s] s by simp
  next
    case (Suc B')
    then show ?thesis using IH(3) [of B'] that upt_from [of A B'] by (simp del: upt_Suc)
  qed
  ultimately show ?case using IH(2,4) s by (intro exI [of _ ds']) (simp del: upt_Suc)
qed simp

lemma filter_split:
  "length (filter (\<lambda>r. int c \<le> f r \<and> f r < int (c + n)) xs) + length (filter (\<lambda>r. f r = int (c + n)) xs) =
   length (filter (\<lambda>r. int c \<le> f r \<and> f r < int (c + Suc n)) xs)"
  by (induction xs) auto

lemma rule_blocks_length:
  "length (concat (map (rule_block g) [0..<n])) =
   n + length (filter (\<lambda>r. int (start_symbol g) \<le> rlhs g ! r \<and> rlhs g ! r < int (start_symbol g + n)) [0..<nrules g])"
proof (induction n)
  case (Suc n)
  then show ?case using filter_split [of "start_symbol g" "\<lambda>r. rlhs g ! r" n "[0..<nrules g]"]
    by (simp add: rule_block_def rules_of_def)
qed simp

text \<open>\<open>derives\<close> as the tables hold it.\<close>

definition derives_ok :: "grammar \<Rightarrow> nat option list \<times> int list \<Rightarrow> bool" where
  "derives_ok g d \<longleftrightarrow> (\<forall>A < nvars g. \<exists>rest. derives_of d (start_symbol g + A) = Some (map int (rules_of g A) @ - 1 # rest))"

lemma set_derives_ok:
  assumes "grammar_ok g"
  shows "\<exists>d. set_derives g = Some d \<and> derives_ok g d"
proof -
  let ?b = "\<lambda>n. concat (map (rule_block g) [0..<n])"
  let ?suf = "replicate (nvars g + nrules g) 0 :: int list"
  have "length (?b (nvars g)) \<le> length ?suf" unfolding rule_blocks_length using length_filter_le [of _ "[0..<nrules g]"] by simp
  with derives_loop_ok [OF assms, of 0 "nvars g" ?suf "replicate (nsyms g) None" "[]"] obtain ds where ds:
    "derives_loop g (start_symbol g) (nvars g) (replicate (nsyms g) None, ?suf, 0) =
      Some (ds, ?b (nvars g) @ drop (length (?b (nvars g))) ?suf, length (?b (nvars g)))" "length ds = nsyms g"
    "\<And>B. B < nvars g \<Longrightarrow> ds ! (start_symbol g + B) = Some (length (?b B))" by auto
  let ?d = "(ds, ?b (nvars g) @ drop (length (?b (nvars g))) ?suf)"
  have n: "nsyms g - start_symbol g = nvars g" "nsyms g = start_symbol g + nvars g" using assms by (auto simp: grammar_ok_def)
  have "\<exists>rest. derives_of ?d (start_symbol g + A) = Some (map int (rules_of g A) @ - 1 # rest)" if "A < nvars g" for A
  proof -
    have "[0..<nvars g] = [0..<A] @ A # [Suc A..<nvars g]" using that upt_add_eq_append [of 0 A "nvars g - A"] by (simp add: upt_conv_Cons)
    then have "?b (nvars g) = ?b A @ rule_block g A @ concat (map (rule_block g) [Suc A..<nvars g])" by simp
    then show ?thesis using ds(2,3) that n by (simp add: derives_of_def nth_opt_def drop_opt_def rule_block_def)
  qed
  then show ?thesis using ds(1) n by (auto simp: set_derives_def derives_ok_def)
qed

section \<open>Leftmost variables\<close>

text \<open>The variables that start a right-hand side of \<open>A\<close>.\<close>

definition first_sym :: "grammar \<Rightarrow> nat \<Rightarrow> int" where
  "first_sym g r = ritem g ! nat (rrhs g ! r)"

definition left_corner :: "grammar \<Rightarrow> (nat \<times> nat) set" where
  "left_corner g = {(A, B). A < nvars g \<and> B < nvars g \<and> (\<exists>r \<in> set (rules_of g A). first_sym g r = int (start_symbol g + B))}"

lemma rules_of_pos: "grammar_ok g \<Longrightarrow> r \<in> set (rules_of g A) \<Longrightarrow> 0 < r \<and> r < nrules g"
  by (rule ccontr) (auto simp: rules_of_def grammar_ok_def)

lemma ISVAR_number: "ISVAR g s \<Longrightarrow> s < int (start_symbol g + n) \<Longrightarrow> \<exists>B < n. s = int (start_symbol g + B)"
  by (intro exI [of _ "nat (s - int (start_symbol g))"]) (auto simp: ISVAR_def)

lemma rule_item:
  assumes "grammar_ok g" "r < nrules g"
  shows "r < length (rrhs g)" "0 \<le> rrhs g ! r" "nat (rrhs g ! r) < nitems g" "length (ritem g) = nitems g"
    "first_sym g r < int (start_symbol g + nvars g)"
proof -
  show *: "r < length (rrhs g)" "0 \<le> rrhs g ! r" "nat (rrhs g ! r) < nitems g" "length (ritem g) = nitems g"
    using assms by (auto simp: grammar_ok_def nat_less_iff)
  show "first_sym g r < int (start_symbol g + nvars g)" using assms(1) *(3) by (auto simp: grammar_ok_def first_sym_def)
qed

lemma eff_rules_ok:
  assumes "grammar_ok g" "A < nvars g"
  shows "set rs \<subseteq> set (rules_of g A) \<Longrightarrow> length EFF = nvars g * WORDSIZE (nvars g) \<Longrightarrow>
    \<exists>EFF'. eff_rules g (A * WORDSIZE (nvars g)) (map int rs @ - 1 # rest) EFF = Some EFF' \<and> length EFF' = length EFF \<and>
      bits EFF' = bits EFF \<union> pos (A * WORDSIZE (nvars g)) ` {B. \<exists>r \<in> set rs. first_sym g r = int (start_symbol g + B)}"
  (is "_ \<Longrightarrow> _ \<Longrightarrow> \<exists>EFF'. _ \<and> _ \<and> bits EFF' = _ \<union> ?S rs")
proof (induction rs arbitrary: EFF)
  case (Cons r rs)
  have r: "0 < r" "r < nrules g" using rules_of_pos [OF assms(1), of r A] Cons.prems(1) by auto
  then have i: "int_nth (rrhs g) (int r) = Some (rrhs g ! r)" "int_nth (ritem g) (rrhs g ! r) = Some (first_sym g r)"
    and lt: "first_sym g r < int (start_symbol g + nvars g)"
    using rule_item [OF assms(1) r(2)] by (simp_all add: first_sym_def)
  show ?case
  proof (cases "ISVAR g (first_sym g r)")
    case True
    then obtain B where B: "first_sym g r = int (start_symbol g + B)" "B < nvars g"
      using lt ISVAR_number by blast
    have "A * WORDSIZE (nvars g) + B div 32 < length EFF"
      using row_word [OF assms(2) WORDSIZE_bound [OF B(2)]] Cons.prems(2) by simp
    from SETBIT_ok [OF this] obtain E where E: "SETBIT EFF (A * WORDSIZE (nvars g)) B = Some E" "length E = length EFF"
      "bits E = insert (pos (A * WORDSIZE (nvars g)) B) (bits EFF)" by blast
    have "{C. \<exists>q \<in> set (r # rs). first_sym g q = int (start_symbol g + C)} =
        insert B {C. \<exists>q \<in> set rs. first_sym g q = int (start_symbol g + C)}" using B(1) by auto
    then have "?S (r # rs) = insert (pos (A * WORDSIZE (nvars g)) B) (?S rs)" by (simp only: image_insert)
    then show ?thesis using Cons.IH [of E] Cons.prems r i True B E by (simp add: int_nth_def nth_opt_def)
  next
    case False
    then have "?S (r # rs) = ?S rs" by (auto simp: ISVAR_def)
    then show ?thesis using Cons.IH [of EFF] Cons.prems r i False by (simp add: int_nth_def nth_opt_def)
  qed
qed simp

lemma eff_rows_ok:
  assumes "grammar_ok g" "derives_ok g d"
  shows "A + n = nvars g \<Longrightarrow> length EFF = nvars g * WORDSIZE (nvars g) \<Longrightarrow>
    \<exists>EFF'. eff_rows g d (start_symbol g + A) n (A * WORDSIZE (nvars g)) EFF = Some EFF' \<and> length EFF' = length EFF \<and>
      bits EFF' = bits EFF \<union> {pos (C * WORDSIZE (nvars g)) B |C B. A \<le> C \<and> (C, B) \<in> left_corner g}"
proof (induction n arbitrary: A EFF)
  case 0
  then show ?case by (auto simp: left_corner_def)
next
  case (Suc n)
  then have A: "A < nvars g" by simp
  then obtain rest where rest: "derives_of d (start_symbol g + A) = Some (map int (rules_of g A) @ - 1 # rest)"
    using assms(2) by (auto simp: derives_ok_def)
  from eff_rules_ok [OF assms(1) A order_refl Suc.prems(2), of rest] obtain E1 where E1:
    "eff_rules g (A * WORDSIZE (nvars g)) (map int (rules_of g A) @ - 1 # rest) EFF = Some E1" "length E1 = length EFF"
    "bits E1 = bits EFF \<union> pos (A * WORDSIZE (nvars g)) ` {B. \<exists>r \<in> set (rules_of g A). first_sym g r = int (start_symbol g + B)}"
    by blast
  have "B < nvars g" if "r \<in> set (rules_of g A)" "first_sym g r = int (start_symbol g + B)" for B r
    using that(2) rules_of_pos [OF assms(1) that(1)] rule_item(5) [OF assms(1), of r] by simp
  then have lc: "{B. \<exists>r \<in> set (rules_of g A). first_sym g r = int (start_symbol g + B)} = {B. (A, B) \<in> left_corner g}"
    using A by (auto simp: left_corner_def)
  have "Suc A + n = nvars g" "length E1 = nvars g * WORDSIZE (nvars g)" using Suc.prems E1(2) by auto
  from Suc.IH [OF this] obtain E2 where E2:
    "eff_rows g d (start_symbol g + Suc A) n (Suc A * WORDSIZE (nvars g)) E1 = Some E2" "length E2 = length E1"
    "bits E2 = bits E1 \<union> {pos (C * WORDSIZE (nvars g)) B |C B. Suc A \<le> C \<and> (C, B) \<in> left_corner g}" by blast
  have "bits E2 = bits EFF \<union> {pos (C * WORDSIZE (nvars g)) B |C B. A \<le> C \<and> (C, B) \<in> left_corner g}"
    unfolding E2(3) E1(3) lc using le_eq_less_or_eq [of A] by (auto simp: Suc_le_eq)
  then show ?case using E1 E2 rest by (simp add: add.commute)
qed

lemma set_EFF_ok:
  assumes "grammar_ok g" "derives_ok g d"
  shows "\<exists>EFF. set_EFF g d = Some EFF \<and> length EFF = nvars g * WORDSIZE (nvars g) \<and>
    row_rel (nvars g) EFF = {(A, B). A < nvars g \<and> (A, B) \<in> (left_corner g)\<^sup>*}"
proof -
  let ?n = "nvars g * WORDSIZE (nvars g)"
  from eff_rows_ok [OF assms, of 0 "nvars g" "replicate ?n 0"] obtain E where E:
    "eff_rows g d (start_symbol g) (nvars g) 0 (replicate ?n 0) = Some E" "length E = ?n"
    "bits E = {pos (C * WORDSIZE (nvars g)) B |C B. (C, B) \<in> left_corner g}" by auto
  have "row_rel (nvars g) E = left_corner g"
    unfolding row_rel_bits [OF E(2)] E(3) using pos_eq WORDSIZE_bound by (fastforce simp: left_corner_def)
  moreover have "nsyms g - start_symbol g = nvars g" using assms(1) by (auto simp: grammar_ok_def)
  ultimately show ?thesis using reflexive_closure_ok [of "nvars g" E] E by (simp add: set_EFF_def)
qed

section \<open>The rules a variable can start\<close>

text \<open>\<open>mask <<= 1\<close>, at the last bit of a word and before it.\<close>

lemma push_mask_last: "Suc k mod 32 = 0 \<Longrightarrow> push_bit 1 (2 ^ (k mod 32) :: u32) = 0"
  using push_mask [of k] by (simp add: mult.commute)

lemma push_mask_inner:
  "Suc k mod 32 \<noteq> 0 \<Longrightarrow> push_bit 1 (2 ^ (k mod 32) :: u32) = 2 ^ (Suc k mod 32) \<and> (2 ^ (Suc k mod 32) :: u32) \<noteq> 0"
  using push_mask [of k] mask_nonzero [of "Suc k"] by (simp add: mult.commute)

lemma derive_bits_ok:
  assumes "A < n"
  shows "set rs \<subseteq> {..<nrules g} \<Longrightarrow> length fd = n * WORDSIZE (nrules g) \<Longrightarrow>
    \<exists>fd'. derive_bits (A * WORDSIZE (nrules g)) (map int rs @ - 1 # rest) fd = Some fd' \<and> length fd' = length fd \<and>
      bits fd' = bits fd \<union> pos (A * WORDSIZE (nrules g)) ` set rs"
proof (induction rs arbitrary: fd)
  case (Cons r rs)
  then have "A * WORDSIZE (nrules g) + r div 32 < length fd" using row_word [OF assms WORDSIZE_bound] by auto
  from SETBIT_ok [OF this] obtain f where "SETBIT fd (A * WORDSIZE (nrules g)) r = Some f" "length f = length fd"
    "bits f = insert (pos (A * WORDSIZE (nrules g)) r) (bits fd)" by blast
  then show ?case using Cons.IH [of f] Cons.prems by auto
qed simp

text \<open>The rules that row \<open>A\<close> of \<open>EFF\<close> gives from variable \<open>B\<close> on.\<close>

definition row_rules :: "grammar \<Rightarrow> u32 list \<Rightarrow> nat \<Rightarrow> nat \<Rightarrow> nat set" where
  "row_rules g EFF A B = {r. \<exists>C \<ge> B. (A, C) \<in> row_rel (nvars g) EFF \<and> r \<in> set (rules_of g C)}"

lemma row_rules_step:
  "row_rules g EFF A B = (if (A, B) \<in> row_rel (nvars g) EFF then set (rules_of g B) else {}) \<union> row_rules g EFF A (Suc B)"
  using le_eq_less_or_eq [of B] by (auto simp: row_rules_def Suc_le_eq)

lemma first_derives_row_ok:
  assumes "grammar_ok g" "derives_ok g d" "length EFF = nvars g * WORDSIZE (nvars g)" "A < nvars g" "nvars g mod 32 \<noteq> 0"
  shows "B + n = nvars g \<Longrightarrow> length fd = nvars g * WORDSIZE (nrules g) \<Longrightarrow>
    \<exists>fd'. first_derives_row d EFF (A * WORDSIZE (nrules g)) (start_symbol g + B) n (Suc (A * WORDSIZE (nvars g) + B div 32))
        (EFF ! (A * WORDSIZE (nvars g) + B div 32)) (2 ^ (B mod 32)) fd = Some fd' \<and> length fd' = length fd \<and>
      bits fd' = bits fd \<union> pos (A * WORDSIZE (nrules g)) ` row_rules g EFF A B"
proof (induction n arbitrary: B fd)
  case 0
  then show ?case by (auto simp: row_rules_def row_rel_def)
next
  case (Suc n)
  then have B: "B < nvars g" by simp
  then obtain rest where rest: "derives_of d (start_symbol g + B) = Some (map int (rules_of g B) @ - 1 # rest)"
    using assms(2) by (auto simp: derives_ok_def)
  let ?c = "EFF ! (A * WORDSIZE (nvars g) + B div 32)"
  have bit: "?c AND 2 ^ (B mod 32) \<noteq> 0 \<longleftrightarrow> (A, B) \<in> row_rel (nvars g) EFF"
    using assms(4) B by (simp add: and_mask row_rel_def bit_at_def)
  have "set (rules_of g B) \<subseteq> {..<nrules g}" by (auto simp: rules_of_def)
  from derive_bits_ok [OF assms(4) this Suc.prems(2), of rest] obtain f where f:
    "(if ?c AND 2 ^ (B mod 32) \<noteq> 0 then do { rp \<leftarrow> derives_of d (start_symbol g + B); derive_bits (A * WORDSIZE (nrules g)) rp fd }
      else Some fd) = Some f" "length f = length fd"
    "bits f = bits fd \<union> pos (A * WORDSIZE (nrules g)) ` (if (A, B) \<in> row_rel (nvars g) EFF then set (rules_of g B) else {})"
    unfolding bit rest by (cases "(A, B) \<in> row_rel (nvars g) EFF") auto
  have "Suc B + n = nvars g" "length f = nvars g * WORDSIZE (nrules g)" using Suc.prems f(2) by auto
  from Suc.IH [OF this] obtain f' where f': "first_derives_row d EFF (A * WORDSIZE (nrules g)) (start_symbol g + Suc B) n
      (Suc (A * WORDSIZE (nvars g) + Suc B div 32)) (EFF ! (A * WORDSIZE (nvars g) + Suc B div 32)) (2 ^ (Suc B mod 32)) f = Some f'"
    "length f' = length f" "bits f' = bits f \<union> pos (A * WORDSIZE (nrules g)) ` row_rules g EFF A (Suc B)" by blast
  have "first_derives_row d EFF (A * WORDSIZE (nrules g)) (start_symbol g + B) (Suc n) (Suc (A * WORDSIZE (nvars g) + B div 32))
      ?c (2 ^ (B mod 32)) fd = Some f'"
  proof (cases "Suc B mod 32 = 0")
    case True
    then have "Suc B < nvars g" using B assms(5) by (metis Suc_lessI)
    then have "Suc (A * WORDSIZE (nvars g) + B div 32) < length EFF"
      using row_word [OF assms(4) WORDSIZE_bound, of "Suc B"] next_bit(1) [OF True] assms(3) by simp
    then show ?thesis using f(1) f'(1) True next_bit(1) [OF True] push_mask_last [OF True] by (simp add: nth_opt_def)
  next
    case False
    then show ?thesis using f(1) f'(1) next_bit(2) [OF False] push_mask_inner [OF False] by simp
  qed
  then show ?case using f f' by (subst row_rules_step) (auto simp: image_Un)
qed

definition start_rules :: "grammar \<Rightarrow> nat \<Rightarrow> nat set" where
  "start_rules g A = {r. \<exists>C. (A, C) \<in> (left_corner g)\<^sup>* \<and> r \<in> set (rules_of g C)}"

text \<open>\<open>first_derives\<close> as the table holds it.\<close>

definition first_derives_ok :: "grammar \<Rightarrow> u32 list \<Rightarrow> bool" where
  "first_derives_ok g fd \<longleftrightarrow> length fd = nvars g * WORDSIZE (nrules g) \<and>
     bits fd = {pos (A * WORDSIZE (nrules g)) r |A r. A < nvars g \<and> r \<in> start_rules g A}"

lemma first_derives_rows_ok:
  assumes "grammar_ok g" "derives_ok g d" "length EFF = nvars g * WORDSIZE (nvars g)" "nvars g mod 32 \<noteq> 0"
  shows "A + n = nvars g \<Longrightarrow> length fd = nvars g * WORDSIZE (nrules g) \<Longrightarrow>
    \<exists>fd'. first_derives_rows g d EFF (start_symbol g + A) n (A * WORDSIZE (nrules g)) fd = Some fd' \<and> length fd' = length fd \<and>
      bits fd' = bits fd \<union> {pos (C * WORDSIZE (nrules g)) r |C r. A \<le> C \<and> C < nvars g \<and> r \<in> row_rules g EFF C 0}"
proof (induction n arbitrary: A fd)
  case (Suc n)
  then have A: "A < nvars g" by simp
  have n: "nsyms g - start_symbol g = nvars g" "start_symbol g = ntokens g" using assms(1) by (auto simp: grammar_ok_def)
  have w: "A * WORDSIZE (nvars g) < length EFF" using row_word [OF A WORDSIZE_bound [OF A]] assms(3) by linarith
  from first_derives_row_ok [OF assms(1-3) A assms(4), of 0 "nvars g" fd] Suc.prems(2) obtain f where f:
    "first_derives_row d EFF (A * WORDSIZE (nrules g)) (start_symbol g) (nvars g) (Suc (A * WORDSIZE (nvars g)))
      (EFF ! (A * WORDSIZE (nvars g))) 1 fd = Some f" "length f = length fd"
    "bits f = bits fd \<union> pos (A * WORDSIZE (nrules g)) ` row_rules g EFF A 0" by auto
  have "Suc A + n = nvars g" "length f = nvars g * WORDSIZE (nrules g)" using Suc.prems f(2) by auto
  from Suc.IH [OF this] obtain f' where f':
    "first_derives_rows g d EFF (start_symbol g + Suc A) n (Suc A * WORDSIZE (nrules g)) f = Some f'" "length f' = length f"
    "bits f' = bits f \<union> {pos (C * WORDSIZE (nrules g)) r |C r. Suc A \<le> C \<and> C < nvars g \<and> r \<in> row_rules g EFF C 0}" by blast
  have "bits f' = bits fd \<union> {pos (C * WORDSIZE (nrules g)) r |C r. A \<le> C \<and> C < nvars g \<and> r \<in> row_rules g EFF C 0}"
    unfolding f'(3) f(3) using le_eq_less_or_eq [of A] A by (auto simp: Suc_le_eq)
  then show ?case using f f' w n by (simp add: nth_opt_def Let_def add.commute)
qed auto

lemma set_first_derives_ok:
  assumes "grammar_ok g" "derives_ok g d" "nvars g mod 32 \<noteq> 0"
  shows "\<exists>fd. set_first_derives g d = Some fd \<and> first_derives_ok g fd"
proof -
  obtain EFF where E: "set_EFF g d = Some EFF" "length EFF = nvars g * WORDSIZE (nvars g)"
    "row_rel (nvars g) EFF = {(A, B). A < nvars g \<and> (A, B) \<in> (left_corner g)\<^sup>*}" using set_EFF_ok [OF assms(1,2)] by blast
  have "row_rules g EFF A 0 = start_rules g A" if "A < nvars g" for A
    using that by (auto simp: row_rules_def E(3) start_rules_def)
  then have eq: "{pos (C * WORDSIZE (nrules g)) r |C r. C < nvars g \<and> r \<in> row_rules g EFF C 0} =
    {pos (C * WORDSIZE (nrules g)) r |C r. C < nvars g \<and> r \<in> start_rules g C}" by blast
  have n: "nsyms g - start_symbol g = nvars g" using assms(1) by (auto simp: grammar_ok_def)
  show ?thesis using first_derives_rows_ok [OF assms(1,2) E(2) assms(3), of 0 "nvars g" "replicate (nvars g * WORDSIZE (nrules g)) 0"]
    E(1) n eq by (auto simp: set_first_derives_def first_derives_ok_def)
qed

section \<open>The rules of a nucleus\<close>

lemma or_ruleset_ok:
  "length rsp \<le> length dsp \<Longrightarrow> or_ruleset rsp dsp = Some (map2 (OR) rsp dsp)"
  by (induction rsp dsp rule: or_ruleset.induct) auto

lemma start_rules_lt: "r \<in> start_rules g A \<Longrightarrow> r < nrules g"
  by (auto simp: start_rules_def rules_of_def)

lemma or_row_ok:
  assumes "first_derives_ok g fd" "A < nvars g" "length rs = WORDSIZE (nrules g)"
  shows "\<exists>rs'. Option.bind (drop_opt (A * WORDSIZE (nrules g)) fd) (or_ruleset rs) = Some rs' \<and> length rs' = length rs \<and>
    bits rs' = bits rs \<union> pos 0 ` start_rules g A"
proof -
  let ?w = "WORDSIZE (nrules g)"
  have fd: "length fd = nvars g * ?w" "bits fd = {pos (A * ?w) r |A r. A < nvars g \<and> r \<in> start_rules g A}"
    using assms(1) by (auto simp: first_derives_ok_def)
  have le: "A * ?w + ?w \<le> length fd" using mult_le_mono1 [of "Suc A" "nvars g" ?w] assms(2) fd(1) by simp
  let ?r = "map2 (OR) rs (drop (A * ?w) fd)"
  have row: "(A * ?w + x, m) \<in> bits fd \<longleftrightarrow> (x, m) \<in> pos 0 ` start_rules g A" if "x < ?w" for x m
  proof
    assume "(A * ?w + x, m) \<in> bits fd"
    then obtain C r where r: "C < nvars g" "r \<in> start_rules g C" "A * ?w + x = C * ?w + r div 32" "m = r mod 32"
      unfolding fd(2) by (auto simp: pos_def)
    have "C = A" using row_words_apart [of A C x ?w] WORDSIZE_bound [OF start_rules_lt [OF r(2)]] that r(3) by auto
    then show "(x, m) \<in> pos 0 ` start_rules g A" using r by (auto simp: pos_def)
  qed (use assms(2) fd(2) in \<open>auto simp: pos_def\<close>)
  have "(x, m) \<in> bits ?r \<longleftrightarrow> (x, m) \<in> bits rs \<or> x < ?w \<and> (A * ?w + x, m) \<in> bits fd" for x m
    using le assms(3) by (auto simp: bits_def bit_or_iff)
  moreover have "x < ?w" if "(x, m) \<in> pos 0 ` start_rules g A" for x m
    using that WORDSIZE_bound [OF start_rules_lt] by (auto simp: pos_def)
  ultimately have "z \<in> bits ?r \<longleftrightarrow> z \<in> bits rs \<union> pos 0 ` start_rules g A" for z using row by (cases z) (metis Un_iff)
  then have "bits ?r = bits rs \<union> pos 0 ` start_rules g A" by blast
  then show ?thesis using or_ruleset_ok [of rs "drop (A * ?w) fd"] le assms(3) by (simp add: drop_opt_def)
qed

text \<open>The rules that the items of a nucleus bring in.\<close>

definition item_ok :: "grammar \<Rightarrow> int \<Rightarrow> bool" where
  "item_ok g i \<longleftrightarrow> 0 \<le> i \<and> i < int (nitems g)"

definition new_rules :: "grammar \<Rightarrow> int set \<Rightarrow> nat set" where
  "new_rules g I = {r. \<exists>i A. i \<in> I \<and> A < nvars g \<and> ritem g ! nat i = int (start_symbol g + A) \<and> r \<in> start_rules g A}"

lemma closure_rules_ok:
  assumes "grammar_ok g" "first_derives_ok g fd"
  shows "\<forall>i \<in> set nucleus. item_ok g i \<Longrightarrow> length rs = WORDSIZE (nrules g) \<Longrightarrow>
    \<exists>rs'. closure_rules g fd nucleus rs = Some rs' \<and> length rs' = length rs \<and>
      bits rs' = bits rs \<union> pos 0 ` new_rules g (set nucleus)"
proof (induction nucleus arbitrary: rs)
  case Nil
  then show ?case by (simp add: new_rules_def)
next
  case (Cons i nucleus)
  have i: "0 \<le> i" "nat i < length (ritem g)" using Cons.prems(1) assms(1) by (auto simp: item_ok_def grammar_ok_def nat_less_iff)
  have n: "start_symbol g = ntokens g" "ritem g ! nat i < int (start_symbol g + nvars g)"
    using assms(1) i(2) by (auto simp: grammar_ok_def)
  have un: "new_rules g (set (i # nucleus)) = new_rules g {i} \<union> new_rules g (set nucleus)" by (auto simp: new_rules_def)
  show ?case
  proof (cases "ISVAR g (ritem g ! nat i)")
    case True
    then obtain A where A: "A < nvars g" "ritem g ! nat i = int (start_symbol g + A)" using ISVAR_number n(2) by blast
    then have "new_rules g {i} = start_rules g A" by (auto simp: new_rules_def)
    moreover obtain r where "Option.bind (drop_opt (A * WORDSIZE (nrules g)) fd) (or_ruleset rs) = Some r" "length r = length rs"
      "bits r = bits rs \<union> pos 0 ` start_rules g A" using or_row_ok [OF assms(2) A(1) Cons.prems(2)] by blast
    ultimately show ?thesis using Cons.IH [of r] Cons.prems i True A n(1) un
      by (auto simp: int_nth_def nth_opt_def image_Un)
  next
    case False
    then have "new_rules g {i} = {}" by (auto simp: new_rules_def ISVAR_def)
    then show ?thesis using Cons.IH [of rs] Cons.prems i False un by (simp add: int_nth_def nth_opt_def)
  qed
qed

section \<open>The merge\<close>

text \<open>The rules of a rule set in order.\<close>

fun rule_list :: "nat \<Rightarrow> u32 list \<Rightarrow> nat list" where
  "rule_list base [] = []"
| "rule_list base (word # rsp) = map ((+) base) (filter (bit word) [0..<32]) @ rule_list (base + 32) rsp"

lemma rule_list_set: "r \<in> set (rule_list base ws) \<longleftrightarrow> base \<le> r \<and> pos 0 (r - base) \<in> bits ws"
proof (induction ws arbitrary: base)
  case Nil
  then show ?case by (simp add: bits_def)
next
  case (Cons w ws)
  have word: "r \<in> set (map ((+) base) (filter (bit w) [0..<32])) \<longleftrightarrow> base \<le> r \<and> r - base < 32 \<and> bit w (r - base)"
    by (auto intro!: image_eqI [of _ _ "r - base"] simp del: upt_rec_numeral)
  have un: "r \<in> set (rule_list base (w # ws)) \<longleftrightarrow>
      base \<le> r \<and> r - base < 32 \<and> bit w (r - base) \<or> base + 32 \<le> r \<and> pos 0 (r - (base + 32)) \<in> bits ws"
    by (simp only: rule_list.simps set_append Un_iff word Cons.IH)
  consider "r < base" | k where "r = base + k" "k < 32" | k where "r = base + 32 + k"
    by (metis le_Suc_ex not_less add.assoc)
  then show ?case
  proof cases
    case 3
    have "(32 + k) div 32 = Suc (k div 32)" "(32 + k) mod 32 = k mod 32" using div_add_self1 [of 32 k] by simp_all
    then have "pos 0 (r - base) \<in> bits (w # ws) \<longleftrightarrow> pos 0 k \<in> bits ws" using 3 by (simp add: bits_def pos_def)
    then show ?thesis unfolding un using 3 by simp
  qed (unfold un, simp_all add: bits_def pos_def)
qed

lemma rule_list_sorted: "sorted_wrt (<) (rule_list base ws)"
proof (induction ws arbitrary: base)
  case (Cons w ws)
  have "sorted_wrt (<) (map ((+) base) (filter (bit w) [0..<32]))" by (simp add: sorted_wrt_map sorted_wrt_filter)
  then show ?case using Cons.IH [of "base + 32"] by (auto simp: sorted_wrt_append rule_list_set)
qed simp

definition put_rule :: "grammar \<Rightarrow> nat \<Rightarrow> int list \<times> int list \<Rightarrow> (int list \<times> int list) option" where
  "put_rule g r st = do {
     itemno \<leftarrow> nth_opt (rrhs g) r;
     (csp, out) \<leftarrow> copy_below g itemno st;
     out \<leftarrow> put_item g itemno out;
     Some (dropWhile (\<lambda>c. c = itemno) csp, out) }"

fun put_rules :: "grammar \<Rightarrow> nat list \<Rightarrow> int list \<times> int list \<Rightarrow> (int list \<times> int list) option" where
  "put_rules g [] st = Some st"
| "put_rules g (r # rs) st = Option.bind (put_rule g r st) (put_rules g rs)"

lemma put_rules_append: "put_rules g (rs @ rs') = (\<lambda>st. Option.bind (put_rules g rs st) (put_rules g rs'))"
proof (induction rs)
  case (Cons r rs)
  show ?case by (rule ext) (simp add: Cons.IH)
qed simp

lemma closure_word_step:
  "msk \<noteq> 0 \<Longrightarrow> closure_word g word (Suc n) msk r st =
    Option.bind (if word AND msk \<noteq> 0 then put_rule g r st else Some st) (closure_word g word n (push_bit 1 msk) (Suc r))"
  by (simp only: closure_word.simps put_rule_def if_False)

lemma closure_word_eq:
  "k + n = 32 \<Longrightarrow> closure_word g word n (2 ^ k) (base + k) = put_rules g (map ((+) base) (filter (bit word) [k..<32]))"
proof (induction n arbitrary: k)
  case (Suc n)
  then have k: "k < 32" "[k..<32] = k # [Suc k..<32]" by (auto simp: upt_conv_Cons)
  then have "(2 ^ k :: u32) \<noteq> 0" using mask_nonzero [of k] by simp
  moreover have "push_bit 1 (2 ^ k :: u32) = 2 ^ Suc k" by (simp add: mult.commute)
  moreover have "closure_word g word n (2 ^ Suc k) (Suc (base + k)) = put_rules g (map ((+) base) (filter (bit word) [Suc k..<32]))"
    using Suc.IH [of "Suc k"] Suc.prems by simp
  ultimately show ?case unfolding k(2) by (intro ext) (simp add: closure_word_step and_mask del: closure_word.simps push_bit_Suc power_Suc)
qed (auto simp: fun_eq_iff)

lemma closure_words_eq: "closure_words g ws base = put_rules g (rule_list base ws)"
proof (induction ws arbitrary: base)
  case (Cons w ws)
  show ?case using closure_word_eq [of 0 32 g w base] Cons.IH by (intro ext) (simp add: put_rules_append)
qed (auto simp: fun_eq_iff)

end
