(* ===== verification/Grammar_Pack.thy ===== *)
theory Grammar_Pack
  imports Lr0_Closure_Props
begin

text \<open>
  \<open>pack_grammar\<close> of \<open>ocaml/yacc/reader.c\<close>: the rules that were read become the arrays that the rest of the parser
  generator works on. The arrays it writes satisfy the conditions that the closure tables rely on.
\<close>

section \<open>The program\<close>

text \<open>The fields of a symbol that are read here.\<close>

record bucket =
  b_index :: int
  b_class :: int
  b_prec :: int
  b_assoc :: int

definition TOKEN :: int where "TOKEN = 0"

definition cTERM :: int where "cTERM = 1"

definition UNDEFINED :: int where "UNDEFINED = - 1"

text \<open>\<open>while (pitem[j])\<close>: the right-hand side that starts at \<open>pitem[j]\<close>, with what follows its end.\<close>

fun pack_rhs ::
  "bucket option list \<Rightarrow> nat \<Rightarrow> int list \<Rightarrow> int \<Rightarrow> int \<Rightarrow> (nat \<times> int list \<times> int \<times> int \<times> bucket option list) option" where
  "pack_rhs [] j items prec assoc = None"
| "pack_rhs (None # pitem) j items prec assoc = Some (j, items, prec, assoc, pitem)"
| "pack_rhs (Some b # pitem) j items prec assoc = do {
     items \<leftarrow> upd_opt items j (b_index b);
     if b_class b = cTERM then pack_rhs pitem (Suc j) items (b_prec b) (b_assoc b)
     else pack_rhs pitem (Suc j) items prec assoc }"

fun pack_rules ::
  "bucket option list \<Rightarrow> nat \<Rightarrow> nat \<Rightarrow> nat \<Rightarrow> bucket option list \<Rightarrow> grammar \<times> int list \<times> int list \<Rightarrow>
   (nat \<times> grammar \<times> int list \<times> int list) option" where
  "pack_rules plhs i 0 j pitem st = Some (j, st)"
| "pack_rules plhs i (Suc n) j pitem (g, rprec, rassoc) = do {
     p \<leftarrow> nth_opt plhs i;
     b \<leftarrow> p;
     lhs \<leftarrow> upd_opt (rlhs g) i (b_index b);
     rhs \<leftarrow> upd_opt (rrhs g) i (short (int j));
     (j, items, prec, assoc, pitem) \<leftarrow> pack_rhs pitem j (ritem g) 0 TOKEN;
     items \<leftarrow> upd_opt items j (short (- int i));
     rp \<leftarrow> nth_opt rprec i;
     (rprec, rassoc) \<leftarrow> (if rp = UNDEFINED then do {
         rprec \<leftarrow> upd_opt rprec i prec;
         rassoc \<leftarrow> upd_opt rassoc i assoc;
         Some (rprec, rassoc) }
       else Some (rprec, rassoc));
     pack_rules plhs (Suc i) n (Suc j) pitem (g\<lparr>ritem := items, rlhs := lhs, rrhs := rhs\<rparr>, rprec, rassoc) }"

text \<open>\<open>g\<close> comes with its sizes and with the new arrays, whatever they hold.\<close>

definition pack_grammar ::
  "bucket \<Rightarrow> bucket option list \<Rightarrow> bucket option list \<Rightarrow> grammar \<times> int list \<times> int list \<Rightarrow> (grammar \<times> int list \<times> int list) option" where
  "pack_grammar goal plhs pitem st = (case st of (g, rprec, rassoc) \<Rightarrow> do {
     items \<leftarrow> upd_opt (ritem g) 0 (- 1);
     items \<leftarrow> upd_opt items 1 (b_index goal);
     items \<leftarrow> upd_opt items 2 0;
     items \<leftarrow> upd_opt items 3 (- 2);
     lhs \<leftarrow> upd_opt (rlhs g) 0 0;
     lhs \<leftarrow> upd_opt lhs 1 0;
     lhs \<leftarrow> upd_opt lhs 2 (short (int (start_symbol g)));
     rhs \<leftarrow> upd_opt (rrhs g) 0 0;
     rhs \<leftarrow> upd_opt rhs 1 0;
     rhs \<leftarrow> upd_opt rhs 2 1;
     pitem \<leftarrow> drop_opt 4 pitem;
     (j, g, rprec, rassoc) \<leftarrow> pack_rules plhs 3 (nrules g - 3) 4 pitem (g\<lparr>ritem := items, rlhs := lhs, rrhs := rhs\<rparr>, rprec, rassoc);
     rhs \<leftarrow> upd_opt (rrhs g) (nrules g) (short (int j));
     Some (g\<lparr>rrhs := rhs\<rparr>, rprec, rassoc) })"

section \<open>The layout\<close>

text \<open>Right-hand sides one after the other, from rule \<open>k\<close> on, and where they start.\<close>

fun pack_items :: "nat \<Rightarrow> int list list \<Rightarrow> int list" where
  "pack_items k [] = []"
| "pack_items k (b # bs) = b @ - int k # pack_items (Suc k) bs"

fun pack_starts :: "nat \<Rightarrow> int list list \<Rightarrow> nat list" where
  "pack_starts j [] = [j]"
| "pack_starts j (b # bs) = j # pack_starts (Suc (j + length b)) bs"

lemma length_pack_starts [simp]: "length (pack_starts j bs) = Suc (length bs)"
  by (induction bs arbitrary: j) auto

lemma pack_starts_nonempty [simp]: "pack_starts j bs \<noteq> []"
  by (cases bs) auto

lemma pack_starts_ge: "m \<le> length bs \<Longrightarrow> j \<le> pack_starts j bs ! m"
proof (induction bs arbitrary: j m)
  case (Cons b bs)
  show ?case using Cons.IH [of "m - 1" "Suc (j + length b)"] Cons.prems by (cases m) auto
qed simp

lemma pack_starts_mono: "k < l \<Longrightarrow> l \<le> length bs \<Longrightarrow> pack_starts j bs ! k < pack_starts j bs ! l"
proof (induction bs arbitrary: j k l)
  case (Cons b bs)
  then show ?case using pack_starts_ge [of "l - 1" bs "Suc (j + length b)"] by (cases k; cases l) auto
qed simp

lemma pack_starts_drop:
  "k \<le> length bs \<Longrightarrow> j \<le> pack_starts j bs ! k \<and> pack_starts j bs ! k - j \<le> length (pack_items i bs) \<and>
     drop (pack_starts j bs ! k - j) (pack_items i bs) = pack_items (i + k) (drop k bs)"
proof (induction bs arbitrary: i j k)
  case (Cons b bs)
  show ?case
  proof (cases k)
    case (Suc l)
    then have *: "Suc (j + length b) \<le> pack_starts (Suc (j + length b)) bs ! l"
      "pack_starts (Suc (j + length b)) bs ! l - Suc (j + length b) \<le> length (pack_items (Suc i) bs)"
      "drop (pack_starts (Suc (j + length b)) bs ! l - Suc (j + length b)) (pack_items (Suc i) bs) = pack_items (Suc i + l) (drop l bs)"
      using Cons.IH [of l "Suc (j + length b)" "Suc i"] Cons.prems by auto
    obtain x where x: "pack_starts (Suc (j + length b)) bs ! l = Suc (j + length b) + x" using *(1) le_Suc_ex by blast
    then show ?thesis using * Suc by simp
  qed simp
qed simp

text \<open>A packed grammar; \<open>bs\<close> are the right-hand sides of the rules from number 2 on.\<close>

definition packed :: "grammar \<Rightarrow> int list list \<Rightarrow> bool" where
  "packed g bs \<longleftrightarrow> nrules g = 2 + length bs \<and> nitems g = length (ritem g) \<and> ritem g = - 1 # pack_items 2 bs \<and>
     rrhs g = [0, 0] @ map int (pack_starts 1 bs) \<and> length (rlhs g) = nrules g \<and> rlhs g ! 0 = 0 \<and> rlhs g ! 1 = 0 \<and>
     (\<forall>r < nrules g. 2 \<le> r \<longrightarrow> int (start_symbol g) \<le> rlhs g ! r \<and> rlhs g ! r < int (nsyms g)) \<and>
     (\<forall>b \<in> set bs. \<forall>s \<in> set b. 0 \<le> s \<and> s < int (nsyms g)) \<and>
     nsyms g = ntokens g + nvars g \<and> start_symbol g = ntokens g \<and> 0 < ntokens g \<and> nsyms g < 2 ^ 15 \<and> nitems g < 2 ^ 15 \<and>
     nrules g < 2 ^ 15"

lemma pack_items_lt: "\<forall>b \<in> set bs. \<forall>s \<in> set b. s < int n \<Longrightarrow> 0 < n \<Longrightarrow> s \<in> set (pack_items k bs) \<Longrightarrow> s < int n"
  by (induction bs arbitrary: k) auto

lemma rule_number_cases:
  obtains "r = 0" | "r = Suc 0" | k where "r = Suc (Suc k)"
  by (metis not0_implies_Suc)

lemma packed_rrhs:
  assumes "packed g bs"
  shows "rrhs g ! 0 = 0" "rrhs g ! Suc 0 = 0" "k \<le> length bs \<Longrightarrow> rrhs g ! Suc (Suc k) = int (pack_starts 1 bs ! k)"
  using assms by (auto simp: packed_def)

lemma packed_rlhs:
  assumes "packed g bs"
  shows "rlhs g ! 0 = 0" "rlhs g ! Suc 0 = 0"
    "k < length bs \<Longrightarrow> int (start_symbol g) \<le> rlhs g ! Suc (Suc k) \<and> rlhs g ! Suc (Suc k) < int (nsyms g)"
  using assms by (auto simp: packed_def)

lemma pack_starts_lt: "k < length bs \<Longrightarrow> pack_starts (Suc 0) bs ! k < Suc (length (pack_items i bs))"
  using pack_starts_drop [of "length bs" bs "Suc 0" i] pack_starts_mono [of k "length bs" bs "Suc 0"] by auto

lemma packed_grammar_ok:
  assumes "packed g bs"
  shows "grammar_ok g"
proof -
  note p = packed_rrhs [OF assms] packed_rlhs [OF assms]
  have n: "nrules g = Suc (Suc (length bs))" "nitems g = Suc (length (pack_items 2 bs))" "0 < ntokens g" "start_symbol g = ntokens g"
    using assms by (auto simp: packed_def)
  have rr: "0 \<le> rrhs g ! r \<and> rrhs g ! r < int (nitems g)" if "r < nrules g" for r
    using that pack_starts_lt [of "r - 2" bs 2] by (cases r rule: rule_number_cases) (auto simp: p n)
  have mono: "rrhs g ! r < rrhs g ! s" if "s < nrules g" "r < s" "int (start_symbol g) \<le> rlhs g ! r" for r s
    using that pack_starts_mono [of _ _ bs 1]
    by (cases r rule: rule_number_cases; cases s rule: rule_number_cases) (use n(3) in \<open>auto simp: p n\<close>)
  have "0 < nsyms g" using assms by (simp add: packed_def)
  then have lhs: "rlhs g ! r < int (nsyms g)" if "r < nrules g" for r
    using that by (cases r rule: rule_number_cases) (auto simp: p n)
  have "ritem g ! i < int (nsyms g)" if "i < nitems g" for i
    using that assms pack_items_lt [of bs "nsyms g" "ritem g ! i" 2] nth_mem [of i "ritem g"] by (auto simp: packed_def)
  then show ?thesis using rr mono lhs assms by (auto simp: grammar_ok_def packed_def)
qed

section \<open>What \<open>pack_grammar\<close> writes\<close>

text \<open>The rules as they were read: for each the variable on the left and the symbols on the right.\<close>

type_synonym source_rule = "bucket \<times> bucket list"

definition rule_body :: "source_rule \<Rightarrow> int list" where
  "rule_body r = map b_index (snd r)"

lemma rule_body_length [simp]: "length (rule_body r) = length (snd r)"
  by (simp add: rule_body_def)

fun rule_items :: "source_rule list \<Rightarrow> bucket option list" where
  "rule_items [] = []"
| "rule_items (r # rs) = map Some (snd r) @ None # rule_items rs"

lemma upd_opt_mid: "length pre = j \<Longrightarrow> upd_opt (pre @ x # suf) j v = Some ((pre @ [v]) @ suf)"
  by (auto simp: upd_opt_def)

lemma pack_rhs_ok:
  "length pre = j \<Longrightarrow> length bs \<le> length suf \<Longrightarrow> \<exists>prec' assoc'. pack_rhs (map Some bs @ None # rest) j (pre @ suf) prec assoc =
     Some (j + length bs, (pre @ map b_index bs) @ drop (length bs) suf, prec', assoc', rest)"
proof (induction bs arbitrary: j pre suf prec assoc)
  case (Cons b bs)
  then obtain x suf' where suf: "suf = x # suf'" by (cases suf) auto
  have upd: "upd_opt (pre @ suf) j (b_index b) = Some ((pre @ [b_index b]) @ suf')" unfolding suf by (rule upd_opt_mid [OF Cons.prems(1)])
  have *: "length (pre @ [b_index b]) = Suc j" "length bs \<le> length suf'" using Cons.prems suf by auto
  show ?case using Cons.IH [OF *, of "b_prec b" "b_assoc b"] Cons.IH [OF *, of prec assoc] suf
    by (auto simp: upd [unfolded suf])
qed auto

lemma pack_rules_ok:
  assumes "j + (\<Sum>r \<leftarrow> rs. Suc (length (snd r))) < 2 ^ 15" "i + length rs < 2 ^ 15"
  shows "ritem g = items @ ri \<Longrightarrow> length items = j \<Longrightarrow> length ri = (\<Sum>r \<leftarrow> rs. Suc (length (snd r))) \<Longrightarrow>
    rlhs g = lhss @ rl \<Longrightarrow> length lhss = i \<Longrightarrow> length rl = length rs \<Longrightarrow>
    rrhs g = rhss @ rr \<Longrightarrow> length rhss = i \<Longrightarrow> length rr = Suc (length rs) \<Longrightarrow>
    length rprec = i + length rs \<Longrightarrow> length rassoc = i + length rs \<Longrightarrow>
    \<forall>k < length rs. nth_opt plhs (i + k) = Some (Some (fst (rs ! k))) \<Longrightarrow>
    \<exists>rprec' rassoc'. pack_rules plhs i (length rs) j (rule_items rs @ rest) (g, rprec, rassoc) =
      Some (j + length ri, g\<lparr>ritem := items @ pack_items i (map rule_body rs), rlhs := lhss @ map (b_index \<circ> fst) rs,
        rrhs := rhss @ map int (butlast (pack_starts j (map rule_body rs))) @ [last rr]\<rparr>, rprec', rassoc')"
  using assms
proof (induction rs arbitrary: i j g items ri lhss rl rhss rr rprec rassoc)
  case Nil
  then show ?case by (cases rr) auto
next
  case (Cons r rs)
  let ?n = "length (snd r)"
  have short: "short (int j) = int j" "short (- int i) = - int i" using Cons.prems(13,14) by (auto intro!: short_id)
  obtain x rl' where rl: "rl = x # rl'" using Cons.prems(6) by (cases rl) auto
  obtain y rr' where rr: "rr = y # rr'" using Cons.prems(9) by (cases rr) auto
  obtain prec assoc where rhs: "pack_rhs (map Some (snd r) @ None # rule_items rs @ rest) j (ritem g) 0 TOKEN =
      Some (j + ?n, (items @ rule_body r) @ drop ?n ri, prec, assoc, rule_items rs @ rest)"
    using pack_rhs_ok [OF Cons.prems(2), of "snd r" ri "rule_items rs @ rest" 0 TOKEN] Cons.prems(1,3) by (auto simp: rule_body_def)
  obtain z ri' where ri: "drop ?n ri = z # ri'" using Cons.prems(3) by (cases "drop ?n ri") auto
  let ?g = "g\<lparr>ritem := (items @ rule_body r @ [- int i]) @ ri', rlhs := (lhss @ [b_index (fst r)]) @ rl', rrhs := (rhss @ [int j]) @ rr'\<rparr>"
  obtain rp ra where prec: "(if rprec ! i = UNDEFINED then do {
         rprec \<leftarrow> upd_opt rprec i prec;
         rassoc \<leftarrow> upd_opt rassoc i assoc;
         Some (rprec, rassoc) }
       else Some (rprec, rassoc)) = Some (rp, ra)" "length rp = length rprec" "length ra = length rassoc"
    using Cons.prems(10,11) by (cases "rprec ! i = UNDEFINED") (auto simp: upd_opt_def)
  have n: "length ri' = (\<Sum>r \<leftarrow> rs. Suc (length (snd r)))" "length ri = Suc (?n + length ri')"
    using arg_cong [OF ri, of length] Cons.prems(3) by auto
  have lhs: "nth_opt plhs i = Some (Some (fst r))" "\<forall>k < length rs. nth_opt plhs (Suc i + k) = Some (Some (fst (rs ! k)))"
    using Cons.prems(12) by (auto simp: All_less_Suc2)
  have upd: "upd_opt (items @ rule_body r @ z # ri') (j + ?n) (- int i) = Some (items @ rule_body r @ - int i # ri')"
    using upd_opt_mid [of "items @ rule_body r" "j + ?n" z ri' "- int i"] Cons.prems(2) by (simp add: rule_body_def)
  have step: "pack_rules plhs i (length (r # rs)) j (rule_items (r # rs) @ rest) (g, rprec, rassoc) =
      pack_rules plhs (Suc i) (length rs) (Suc (j + ?n)) (rule_items rs @ rest) (?g, rp, ra)"
    using lhs(1) rhs prec(1) short Cons.prems
    by (simp add: rl rr ri upd upd_opt_mid nth_opt_def)
  have "length (items @ rule_body r @ [- int i]) = Suc (j + ?n)" using Cons.prems(2) by (simp add: rule_body_def)
  from Cons.IH [OF _ this n(1) _ _ _ _ _ _ _ _ lhs(2), of ?g "lhss @ [b_index (fst r)]" rl' "rhss @ [int j]" rr' rp ra] obtain rp' ra' where
    "pack_rules plhs (Suc i) (length rs) (Suc (j + ?n)) (rule_items rs @ rest) (?g, rp, ra) =
      Some (Suc (j + ?n) + length ri', ?g\<lparr>ritem := (items @ rule_body r @ [- int i]) @ pack_items (Suc i) (map rule_body rs),
        rlhs := (lhss @ [b_index (fst r)]) @ map (b_index \<circ> fst) rs,
        rrhs := (rhss @ [int j]) @ map int (butlast (pack_starts (Suc (j + ?n)) (map rule_body rs))) @ [last rr']\<rparr>, rp', ra')"
    using Cons.prems prec(2,3) rl rr by auto
  then show ?case unfolding step using n(2) Cons.prems(6,9) rr by auto
qed

lemma pack_items_length: "length (pack_items i (map rule_body rs)) = (\<Sum>r \<leftarrow> rs. Suc (length (snd r)))"
  by (induction rs arbitrary: i) auto

lemma pack_starts_last: "last (pack_starts j bs) = j + length (pack_items i bs)"
proof (induction bs arbitrary: i j)
  case (Cons b bs)
  show ?case using Cons.IH [of "Suc (j + length b)" "Suc i"] by simp
qed simp

lemma three_more: "length xs = 3 + n \<Longrightarrow> \<exists>a b c ys. xs = a # b # c # ys \<and> length ys = n"
  by (cases xs; cases "tl xs"; cases "tl (tl xs)") auto

lemma sum_length_ge: "length rs \<le> (\<Sum>r \<leftarrow> rs. Suc (f r))"
  by (induction rs) auto

lemma pack_starts_rules:
  "map int (pack_starts j (map rule_body rs)) =
   map int (butlast (pack_starts j (map rule_body rs))) @ [int (j + (\<Sum>r \<leftarrow> rs. Suc (length (snd r))))]"
  using append_butlast_last_id [of "pack_starts j (map rule_body rs)"] pack_starts_last [of j "map rule_body rs" 3] pack_items_length [of 3 rs]
  by (metis list.simps(8,9) map_append pack_starts_nonempty)

text \<open>The input of \<open>pack_grammar\<close>: the sizes that were counted, fresh arrays, the rules from number 3 on, and symbols that
  were numbered by \<open>pack_symbols\<close>.\<close>

definition pack_input :: "grammar \<Rightarrow> int list \<Rightarrow> int list \<Rightarrow> bucket \<Rightarrow> bucket option list \<Rightarrow> bucket option list \<Rightarrow> source_rule list \<Rightarrow> bool" where
  "pack_input g rprec rassoc goal plhs pitem rs \<longleftrightarrow>
     nrules g = 3 + length rs \<and> nitems g = 4 + (\<Sum>r \<leftarrow> rs. Suc (length (snd r))) \<and>
     length (ritem g) = nitems g \<and> length (rlhs g) = nrules g \<and> length (rrhs g) = Suc (nrules g) \<and>
     length rprec = nrules g \<and> length rassoc = nrules g \<and>
     (\<exists>rest. drop 4 pitem = rule_items rs @ rest) \<and> 4 \<le> length pitem \<and>
     (\<forall>k < length rs. nth_opt plhs (3 + k) = Some (Some (fst (rs ! k)))) \<and>
     nsyms g = ntokens g + nvars g \<and> start_symbol g = ntokens g \<and> 0 < ntokens g \<and> 0 < nvars g \<and>
     nsyms g < 2 ^ 15 \<and> nitems g < 2 ^ 15 \<and>
     0 \<le> b_index goal \<and> b_index goal < int (nsyms g) \<and>
     (\<forall>r \<in> set rs. int (start_symbol g) \<le> b_index (fst r) \<and> b_index (fst r) < int (nsyms g) \<and>
       (\<forall>b \<in> set (snd r). 0 \<le> b_index b \<and> b_index b < int (nsyms g)))"

lemma pack_grammar_ok:
  assumes "pack_input g rprec rassoc goal plhs pitem rs"
  shows "\<exists>g' rprec' rassoc'. pack_grammar goal plhs pitem (g, rprec, rassoc) = Some (g', rprec', rassoc') \<and>
    packed g' ([b_index goal, 0] # map rule_body rs) \<and> rlhs g' = [0, 0, int (start_symbol g)] @ map (b_index \<circ> fst) rs \<and>
    nsyms g' = nsyms g \<and> ntokens g' = ntokens g \<and> nvars g' = nvars g \<and> start_symbol g' = start_symbol g"
proof -
  note in' = assms [unfolded pack_input_def]
  let ?m = "\<Sum>r \<leftarrow> rs. Suc (length (snd r))"
  obtain a0 a1 a2 ri' where ri': "ritem g = a0 # a1 # a2 # ri'" "length ri' = Suc ?m" using three_more [of "ritem g" "Suc ?m"] in' by auto
  then obtain a3 ri where ri: "ritem g = a0 # a1 # a2 # a3 # ri" "length ri = ?m" by (cases ri') auto
  obtain b0 b1 b2 rl where rl: "rlhs g = b0 # b1 # b2 # rl" "length rl = length rs" using three_more [of "rlhs g" "length rs"] in' by auto
  obtain c0 c1 c2 rr where rr: "rrhs g = c0 # c1 # c2 # rr" "length rr = Suc (length rs)"
    using three_more [of "rrhs g" "Suc (length rs)"] in' by auto
  obtain rest where rest: "drop_opt 4 pitem = Some (rule_items rs @ rest)" using in' by (auto simp: drop_opt_def)
  have n: "nrules g = 3 + length rs" "nrules g < 2 ^ 15" "4 + ?m < 2 ^ 15" "nsyms g < 2 ^ 15" "start_symbol g < nsyms g"
    using in' sum_length_ge [of rs "length \<circ> snd"] by auto
  have short: "short (int (start_symbol g)) = int (start_symbol g)" "short (int (4 + ?m)) = int (4 + ?m)"
    using n(3-5) by (auto intro!: short_id)
  let ?g = "g\<lparr>ritem := [- 1, b_index goal, 0, - 2] @ ri, rlhs := [0, 0, int (start_symbol g)] @ rl, rrhs := [0, 0, 1] @ rr\<rparr>"
  let ?bs = "map rule_body rs"
  define r where "r = [0, 0, 1] @ map int (butlast (pack_starts 4 ?bs))"
  have "\<exists>rprec' rassoc'. pack_rules plhs 3 (length rs) 4 (rule_items rs @ rest) (?g, rprec, rassoc) =
      Some (4 + length ri, ?g\<lparr>ritem := [- 1, b_index goal, 0, - 2] @ pack_items 3 ?bs,
        rlhs := [0, 0, int (start_symbol g)] @ map (b_index \<circ> fst) rs, rrhs := [0, 0, 1] @ map int (butlast (pack_starts 4 ?bs)) @ [last rr]\<rparr>,
        rprec', rassoc')"
    by (rule pack_rules_ok) (use in' n ri rl rr in simp_all)
  then obtain rprec' rassoc' where pr: "pack_rules plhs 3 (length rs) 4 (rule_items rs @ rest) (?g, rprec, rassoc) =
      Some (4 + ?m, g\<lparr>ritem := [- 1, b_index goal, 0, - 2] @ pack_items 3 ?bs,
        rlhs := [0, 0, int (start_symbol g)] @ map (b_index \<circ> fst) rs, rrhs := r @ [last rr]\<rparr>, rprec', rassoc')"
    using ri(2) by (auto simp: r_def)
  have len: "length r = nrules g" using n(1) by (simp add: r_def)
  let ?h = "g\<lparr>ritem := [- 1, b_index goal, 0, - 2] @ pack_items 3 ?bs,
        rlhs := [0, 0, int (start_symbol g)] @ map (b_index \<circ> fst) rs, rrhs := r @ [int (4 + ?m)]\<rparr>"
  have upd: "(r @ [last rr])[3 + length rs := v] = r @ [v]" for v using list_update_length [of r "last rr" "[]" v] len n(1) by simp
  have pack: "pack_grammar goal plhs pitem (g, rprec, rassoc) = Some (?h, rprec', rassoc')"
    using pr short n(1) len by (simp add: pack_grammar_def ri rl rr upd_opt_def rest upd)
  have starts: "r @ [int (4 + ?m)] = [0, 0] @ map int (pack_starts 1 ([b_index goal, 0] # ?bs))"
    using pack_starts_rules [of 4 rs] by (simp add: r_def numeral_eq_Suc)
  have "int (start_symbol g) \<le> rlhs ?h ! k \<and> rlhs ?h ! k < int (nsyms g)" if k: "k < nrules g" "2 \<le> k" for k
  proof (cases "k = 2")
    case False
    then obtain m where "k = 3 + m" "m < length rs" using k n(1) le_Suc_ex [of 3 k] by auto
    moreover from this have "int (start_symbol g) \<le> b_index (fst (rs ! m)) \<and> b_index (fst (rs ! m)) < int (nsyms g)"
      using in' nth_mem [of m rs] by blast
    ultimately show ?thesis by simp
  qed (use n(5) in simp)
  moreover have "\<forall>r \<in> set rs. \<forall>b \<in> set (snd r). 0 \<le> b_index b \<and> b_index b < int (nsyms g)" using in' by blast
  then have "\<forall>b \<in> set ?bs. \<forall>s \<in> set b. 0 \<le> s \<and> s < int (nsyms g)" by (simp add: rule_body_def)
  ultimately have "packed ?h ([b_index goal, 0] # ?bs)"
    unfolding packed_def using starts in' n by (simp add: pack_items_length)
  with pack show ?thesis by auto
qed

section \<open>Claims\<close>

text \<open>C20: \<open>pack_grammar\<close> writes every rule where the tables look for it: on the rules that were read it stays inside the arrays,
  and the result is a packed grammar with those left-hand sides and right-hand sides, which satisfies the conditions
  of the closure tables.\<close>

theorem pack_grammar_layout:
  assumes "pack_input g rprec rassoc goal plhs pitem rs"
  shows "\<exists>g' rprec' rassoc'. pack_grammar goal plhs pitem (g, rprec, rassoc) = Some (g', rprec', rassoc') \<and>
    packed g' ([b_index goal, 0] # map rule_body rs) \<and> grammar_ok g' \<and>
    rlhs g' = [0, 0, int (start_symbol g)] @ map (b_index \<circ> fst) rs \<and> nsyms g' = nsyms g"
  using pack_grammar_ok [OF assms] packed_grammar_ok by blast

text \<open>The rules \<open>E: E '+' 'x' | 'x'\<close>.\<close>

definition sym_plus :: bucket where
  "sym_plus = \<lparr>b_index = 1, b_class = cTERM, b_prec = 1, b_assoc = 1\<rparr>"

definition sym_x :: bucket where
  "sym_x = \<lparr>b_index = 2, b_class = cTERM, b_prec = 0, b_assoc = TOKEN\<rparr>"

definition sym_E :: bucket where
  "sym_E = \<lparr>b_index = 4, b_class = 2, b_prec = 0, b_assoc = TOKEN\<rparr>"

definition empty_arrays :: grammar where
  "empty_arrays = \<lparr>nsyms = 5, ntokens = 3, nvars = 2, start_symbol = 3, nrules = 5, nitems = 10,
     ritem = replicate 10 0, rlhs = replicate 5 0, rrhs = replicate 6 0\<rparr>"

theorem pack_grammar_layout_witness:
  "\<exists>g' rprec' rassoc'. pack_grammar sym_E [None, None, None, Some sym_E, Some sym_E]
     ([None, None, None, None] @ rule_items [(sym_E, [sym_E, sym_plus, sym_x]), (sym_E, [sym_x])]) (empty_arrays, replicate 5 (- 1), replicate 5 0) =
     Some (g', rprec', rassoc') \<and> packed g' [[4, 0], [4, 1, 2], [2]] \<and> rlhs g' = [0, 0, 3, 4, 4]"
proof -
  let ?rs = "[(sym_E, [sym_E, sym_plus, sym_x]), (sym_E, [sym_x])]"
  have "pack_input empty_arrays (replicate 5 (- 1)) (replicate 5 0) sym_E [None, None, None, Some sym_E, Some sym_E]
      ([None, None, None, None] @ rule_items ?rs) ?rs"
    by (simp add: pack_input_def empty_arrays_def sym_E_def sym_plus_def sym_x_def all_less_numeral All_less_Suc)
  from pack_grammar_layout [OF this] show ?thesis by (simp add: rule_body_def sym_E_def sym_plus_def sym_x_def empty_arrays_def) blast
qed

end
