(* ===== verification/Lr0_Nullable.thy ===== *)
theory Lr0_Nullable
  imports Grammar_Pack
begin

text \<open>
  \<open>set_nullable\<close> of \<open>ocaml/yacc/lr0.c\<close>: the symbols that derive the empty string, by passes over the rules until a
  pass finds nothing new. The passes end, and the marked symbols are the least solution.
\<close>

section \<open>The program\<close>

text \<open>The inner loop: the rest of \<open>ritem\<close> up to the number of the rule.\<close>

fun null_rhs :: "bool list \<Rightarrow> bool \<Rightarrow> int list \<Rightarrow> (bool \<times> int \<times> int list) option" where
  "null_rhs nullable eps [] = None"
| "null_rhs nullable eps (j # items) =
     (if 0 \<le> j then do { n \<leftarrow> int_nth nullable j; null_rhs nullable (if \<not> n then False else eps) items }
      else Some (eps, j, items))"

lemma null_rhs_shorter: "null_rhs nullable eps items = Some (e, j, items') \<Longrightarrow> length items' < length items"
proof (induction nullable eps items rule: null_rhs.induct)
  case (2 nullable eps j items)
  then show ?case by (cases "0 \<le> j") (auto simp: bind_eq_Some_conv dest: less_SucI)
qed simp

text \<open>A pass: the \<open>for\<close> loop over the items, a rule at a time; \<open>eps\<close> and \<open>finished\<close> are the variables \<open>empty\<close> and \<open>done\<close>.\<close>

function null_pass :: "grammar \<Rightarrow> int list \<Rightarrow> bool list \<Rightarrow> bool \<Rightarrow> (bool list \<times> bool) option" where
  "null_pass g [] nullable finished = Some (nullable, finished)"
| "null_pass g (i # is) nullable finished = (case null_rhs nullable True (i # is) of
     None \<Rightarrow> None
   | Some (eps, j, items) \<Rightarrow>
       if eps then (case int_nth (rlhs g) (- j) of
           None \<Rightarrow> None
         | Some lhs \<Rightarrow> (case int_nth nullable lhs of
             None \<Rightarrow> None
           | Some n \<Rightarrow>
               if \<not> n then null_pass g items (nullable[nat lhs := True]) False
               else null_pass g items nullable finished))
       else null_pass g items nullable finished)"
  by pat_completeness auto
termination
  by (relation "measure (\<lambda>(g, items, nullable, finished). length items)") (auto dest!: null_rhs_shorter simp del: null_rhs.simps)

partial_function (option) null_loop :: "grammar \<Rightarrow> bool list \<Rightarrow> bool list option" where
  "null_loop g nullable = Option.bind (null_pass g (drop 1 (ritem g)) nullable True)
     (\<lambda>(nullable, finished). if finished then Some nullable else null_loop g nullable)"

declare null_loop.simps [code]

definition set_nullable :: "grammar \<Rightarrow> bool list option" where
  "set_nullable g = null_loop g (replicate (nsyms g) False)"

section \<open>A pass over the rules\<close>

definition all_marked :: "bool list \<Rightarrow> int list \<Rightarrow> bool" where
  "all_marked nl b \<longleftrightarrow> (\<forall>s \<in> set b. nl ! nat s)"

fun mark_rules :: "grammar \<Rightarrow> nat \<Rightarrow> int list list \<Rightarrow> bool list \<Rightarrow> bool \<Rightarrow> bool list \<times> bool" where
  "mark_rules g k [] nl fin = (nl, fin)"
| "mark_rules g k (b # bs) nl fin =
     (if all_marked nl b \<and> \<not> nl ! nat (rlhs g ! k) then mark_rules g (Suc k) bs (nl[nat (rlhs g ! k) := True]) False
      else mark_rules g (Suc k) bs nl fin)"

lemma null_rhs_eq:
  "\<forall>s \<in> set b. 0 \<le> s \<and> nat s < length nl \<Longrightarrow> 0 < k \<Longrightarrow>
   null_rhs nl e (b @ - int k # rest) = Some (e \<and> all_marked nl b, - int k, rest)"
  by (induction b arbitrary: e) (auto simp: all_marked_def int_nth_def nth_opt_def)

lemma null_pass_eq:
  "\<forall>b \<in> set bs. \<forall>s \<in> set b. 0 \<le> s \<and> nat s < length nl \<Longrightarrow> 0 < k \<Longrightarrow> length (rlhs g) = k + length bs \<Longrightarrow>
   \<forall>r. k \<le> r \<and> r < length (rlhs g) \<longrightarrow> 0 \<le> rlhs g ! r \<and> nat (rlhs g ! r) < length nl \<Longrightarrow>
   null_pass g (pack_items k bs) nl fin = Some (mark_rules g k bs nl fin)"
proof (induction bs arbitrary: k nl fin)
  case (Cons b bs)
  obtain i "is" where cons: "b @ - int k # pack_items (Suc k) bs = i # is" by (cases b) auto
  have rhs: "null_rhs nl True (i # is) = Some (all_marked nl b, - int k, pack_items (Suc k) bs)"
    unfolding cons [symmetric] using null_rhs_eq [of b nl k True] Cons.prems by simp
  have k: "int_nth (rlhs g) (int k) = Some (rlhs g ! k)" "int_nth nl (rlhs g ! k) = Some (nl ! nat (rlhs g ! k))"
    using Cons.prems by auto
  show ?case using Cons.prems Cons.IH [of nl "Suc k" fin] Cons.IH [of "nl[nat (rlhs g ! k) := True]" "Suc k" False]
    by (simp add: cons rhs k del: null_rhs.simps)
qed simp

lemma mark_rules_length [simp]: "length (fst (mark_rules g k bs nl fin)) = length nl"
  by (induction bs arbitrary: k nl fin) auto

text \<open>Only symbols that derive the empty string are marked: \<open>N\<close> is closed under the rules.\<close>

lemma mark_rules_sound:
  "\<forall>j < length bs. 0 \<le> rlhs g ! (k + j) \<and> ((\<forall>s \<in> set (bs ! j). N s) \<longrightarrow> N (rlhs g ! (k + j))) \<Longrightarrow>
    \<forall>b \<in> set bs. \<forall>s \<in> set b. 0 \<le> s \<and> nat s < length nl \<Longrightarrow> \<forall>i < length nl. nl ! i \<longrightarrow> N (int i) \<Longrightarrow>
    \<forall>i < length nl. fst (mark_rules g k bs nl fin) ! i \<longrightarrow> N (int i)"
proof (induction bs arbitrary: k nl fin)
  case (Cons b bs)
  have step: "\<forall>j < length bs. 0 \<le> rlhs g ! (Suc k + j) \<and> ((\<forall>s \<in> set (bs ! j). N s) \<longrightarrow> N (rlhs g ! (Suc k + j)))"
    and k: "0 \<le> rlhs g ! k" "(\<forall>s \<in> set b. N s) \<longrightarrow> N (rlhs g ! k)"
    using Cons.prems(1) by (auto simp: All_less_Suc2)
  show ?case
  proof (cases "all_marked nl b \<and> \<not> nl ! nat (rlhs g ! k)")
    case True
    then have "N s" if "s \<in> set b" for s using that Cons.prems(2,3) by (auto simp: all_marked_def dest!: bspec)
    then have "\<forall>i < length nl. nl[nat (rlhs g ! k) := True] ! i \<longrightarrow> N (int i)"
      using Cons.prems(3) k by (metis nat_0_le nth_list_update_neq)
    then show ?thesis using Cons.IH [OF step, of "nl[nat (rlhs g ! k) := True]" False] Cons.prems(2) True by simp
  next
    case False
    then show ?thesis using Cons.IH [OF step, of nl fin] Cons.prems(2,3) by auto
  qed
qed simp

lemma mark_rules_unfinished: "\<not> snd (mark_rules g k bs nl False)"
  by (induction bs arbitrary: k nl) auto

text \<open>A pass that reports nothing new changed nothing, and its marks are closed under the rules.\<close>

lemma mark_rules_closed:
  "mark_rules g k bs nl True = (nl', True) \<Longrightarrow>
   nl' = nl \<and> (\<forall>j < length bs. all_marked nl (bs ! j) \<longrightarrow> nl ! nat (rlhs g ! (k + j)))"
proof (induction bs arbitrary: k)
  case (Cons b bs)
  have "\<not> (all_marked nl b \<and> \<not> nl ! nat (rlhs g ! k))"
    using Cons.prems mark_rules_unfinished [of g "Suc k" bs "nl[nat (rlhs g ! k) := True]"] by (auto split: if_splits)
  then show ?case using Cons.IH [of "Suc k"] Cons.prems by (auto simp: All_less_Suc2)
qed simp

text \<open>Other passes leave fewer symbols unmarked.\<close>

definition unmarked :: "bool list \<Rightarrow> nat" where
  "unmarked nl = length (filter Not nl)"

lemma unmarked_set: "i < length nl \<Longrightarrow> \<not> nl ! i \<Longrightarrow> unmarked nl = Suc (unmarked (nl[i := True]))"
proof (induction nl arbitrary: i)
  case (Cons b nl)
  then show ?case by (cases i) (auto simp: unmarked_def)
qed simp

lemma mark_rules_progress:
  "\<forall>j < length bs. nat (rlhs g ! (k + j)) < length nl \<Longrightarrow>
   unmarked (fst (mark_rules g k bs nl fin)) \<le> unmarked nl \<and>
   (fin \<and> \<not> snd (mark_rules g k bs nl fin) \<longrightarrow> unmarked (fst (mark_rules g k bs nl fin)) < unmarked nl)"
proof (induction bs arbitrary: k nl fin)
  case (Cons b bs)
  have k: "nat (rlhs g ! k) < length nl" "\<forall>j < length bs. nat (rlhs g ! (Suc k + j)) < length nl"
    using Cons.prems by (auto simp: All_less_Suc2)
  then show ?case using Cons.IH [of "Suc k" nl fin] Cons.IH [of "Suc k" "nl[nat (rlhs g ! k) := True]" False] unmarked_set [OF k(1)]
    by auto
qed simp

section \<open>The loop\<close>

text \<open>Symbols that derive the empty string; \<open>bs\<close> are the right-hand sides from rule 2 on.\<close>

inductive derives_empty :: "grammar \<Rightarrow> int list list \<Rightarrow> int \<Rightarrow> bool" for g bs where
  "k < length bs \<Longrightarrow> \<forall>s \<in> set (bs ! k). derives_empty g bs s \<Longrightarrow> derives_empty g bs (rlhs g ! (2 + k))"

lemma null_loop_ok:
  assumes "packed g bs"
  shows "length nl = nsyms g \<Longrightarrow> \<forall>i < nsyms g. nl ! i \<longrightarrow> derives_empty g bs (int i) \<Longrightarrow>
    \<exists>nl'. null_loop g nl = Some nl' \<and> length nl' = nsyms g \<and> (\<forall>i < nsyms g. nl' ! i \<longleftrightarrow> derives_empty g bs (int i))"
proof (induction "unmarked nl" arbitrary: nl rule: less_induct)
  case less
  have n: "length (rlhs g) = 2 + length bs" "drop 1 (ritem g) = pack_items 2 bs" using assms by (auto simp: packed_def)
  have lhs: "0 \<le> rlhs g ! (2 + j) \<and> nat (rlhs g ! (2 + j)) < nsyms g" if "j < length bs" for j
    using packed_rlhs(3) [OF assms that] by (auto simp: nat_less_iff)
  have syms: "\<forall>b \<in> set bs. \<forall>s \<in> set b. 0 \<le> s \<and> nat s < nsyms g"
    using assms by (auto simp: packed_def nat_less_iff)
  let ?p = "mark_rules g 2 bs nl True"
  have "null_pass g (pack_items 2 bs) nl True = Some ?p"
  proof (rule null_pass_eq)
    show "\<forall>r. 2 \<le> r \<and> r < length (rlhs g) \<longrightarrow> 0 \<le> rlhs g ! r \<and> nat (rlhs g ! r) < length nl"
      using lhs less.prems(1) n(1) by (metis le_Suc_ex nat_add_left_cancel_less)
  qed (use syms less.prems(1) n(1) in simp_all)
  then have loop: "null_loop g nl = (if snd ?p then Some (fst ?p) else null_loop g (fst ?p))"
    unfolding n(2) [symmetric] by (subst null_loop.simps) (simp add: case_prod_beta)
  have "\<forall>i < length nl. fst ?p ! i \<longrightarrow> derives_empty g bs (int i)"
    by (rule mark_rules_sound) (use lhs syms less.prems derives_empty.intros in auto)
  then have sound: "\<forall>i < nsyms g. fst ?p ! i \<longrightarrow> derives_empty g bs (int i)" using less.prems(1) by simp
  show ?case
  proof (cases "snd ?p")
    case True
    then have fin: "fst ?p = nl" and closed: "\<forall>j < length bs. all_marked nl (bs ! j) \<longrightarrow> nl ! nat (rlhs g ! (2 + j))"
      using mark_rules_closed [of g 2 bs nl "fst ?p"] by (metis prod.collapse)+
    have "nl ! nat s" if "derives_empty g bs s" for s
      using that by induction (use closed in \<open>auto simp: all_marked_def\<close>)
    then show ?thesis using loop True fin less.prems by (metis nat_int)
  next
    case False
    have "\<forall>j < length bs. nat (rlhs g ! (2 + j)) < length nl" using lhs less.prems(1) by simp
    from mark_rules_progress [OF this, of True] have "unmarked (fst ?p) < unmarked nl" using False by simp
    then show ?thesis using less.hyps [of "fst ?p"] sound less.prems(1) loop False by simp
  qed
qed

section \<open>Claims\<close>

text \<open>C19: The passes of \<open>set_nullable\<close> end on every packed grammar, stay inside the arrays, and mark exactly the symbols
  that derive the empty string.\<close>

theorem set_nullable_least:
  assumes "packed g bs"
  shows "\<exists>nullable. set_nullable g = Some nullable \<and> length nullable = nsyms g \<and>
    (\<forall>s < nsyms g. nullable ! s \<longleftrightarrow> derives_empty g bs (int s))"
  unfolding set_nullable_def by (rule null_loop_ok [OF assms]) simp_all

text \<open>The grammar \<open>L: | L 'x'\<close>.\<close>

definition list_grammar :: grammar where
  "list_grammar = \<lparr>nsyms = 4, ntokens = 2, nvars = 2, start_symbol = 2, nrules = 5, nitems = 8,
     ritem = [- 1, 3, 0, - 2, - 3, 3, 1, - 4], rlhs = [0, 0, 2, 3, 3], rrhs = [0, 0, 1, 4, 5, 8]\<rparr>"

lemma list_grammar_packed: "packed list_grammar [[3, 0], [], [3, 1]]"
  by (simp add: packed_def list_grammar_def all_less_numeral)

theorem set_nullable_least_witness:
  "\<exists>nullable. set_nullable list_grammar = Some nullable \<and> length nullable = 4 \<and> nullable ! 3 \<and> \<not> nullable ! 1"
proof -
  let ?bs = "[[3, 0], [], [3, 1]] :: int list list"
  have "derives_empty list_grammar ?bs (rlhs list_grammar ! (2 + 1))" by (rule derives_empty.intros) simp_all
  then have "derives_empty list_grammar ?bs 3" by (simp add: list_grammar_def)
  moreover have "\<not> derives_empty list_grammar ?bs 1"
    by (subst derives_empty.simps) (auto simp: list_grammar_def less_Suc_eq numeral_eq_Suc)
  ultimately show ?thesis using set_nullable_least [OF list_grammar_packed] by (force simp: list_grammar_def)
qed

end
