(* ===== verification/Lr0_States.thy ===== *)
theory Lr0_States
  imports Lr0_Nullable
begin

text \<open>
  The rest of \<open>ocaml/yacc/lr0.c\<close>: the states of the LR(0) automaton, found by a search from the state of the start
  symbol, with their shifts and reductions.

  Pointers to \<open>core\<close> are indices into the list of the cores allocated so far, pointers into \<open>kernel_items\<close> are indices.
  The lists of shifts and reductions are appended to only, so they are lists. The storage that \<open>allocate\<close> returns
  is zero; running out of memory is not modelled.
\<close>

section \<open>State\<close>

record core =
  c_next :: "nat option"
  c_link :: "nat option"
  c_number :: int
  c_accessing_symbol :: int
  c_nitems :: int
  c_items :: "int list"

record shifts =
  sh_number :: int
  sh_nshifts :: int
  sh_shift :: "int list"

record reductions =
  rd_number :: int
  rd_nreds :: int
  rd_rules :: "int list"

record lr0_state =
  cores :: "core list"
  state_set :: "nat option list"
  this_state :: "nat option"
  last_state :: nat
  nstates :: nat
  kernel_base :: "nat list"
  kernel_end :: "nat option list"
  kernel_items :: "int list"
  shift_symbol :: "int list"
  nshifts :: nat
  shiftset :: "int list"
  redset :: "int list"
  shift_list :: "shifts list"
  reduction_list :: "reductions list"
  itemset :: "int list"

datatype yacc_error = Too_many_states | Assertion_failed

definition MAXSHORT :: nat where "MAXSHORT = 2 ^ 15 - 1"

section \<open>Storage\<close>

fun count_symbols :: "int list \<Rightarrow> nat \<times> int list \<Rightarrow> (nat \<times> int list) option" where
  "count_symbols [] (count, symbol_count) = Some (count, symbol_count)"
| "count_symbols (symbol # items) (count, symbol_count) =
     (if 0 \<le> symbol then do {
        n \<leftarrow> int_nth symbol_count symbol;
        symbol_count \<leftarrow> int_upd symbol_count symbol (short (n + 1));
        count_symbols items (Suc count, symbol_count) }
      else count_symbols items (count, symbol_count))"

text \<open>The variable \<open>max\<close> of this loop is never used.\<close>

fun base_loop :: "int list \<Rightarrow> nat \<Rightarrow> nat \<Rightarrow> nat \<Rightarrow> nat list \<Rightarrow> nat list option" where
  "base_loop symbol_count i 0 count base = Some base"
| "base_loop symbol_count i (Suc n) count base = do {
     base \<leftarrow> upd_opt base i count;
     c \<leftarrow> nth_opt symbol_count i;
     base_loop symbol_count (Suc i) n (nat (int count + c)) base }"

definition allocate_itemsets :: "grammar \<Rightarrow> lr0_state \<Rightarrow> lr0_state option" where
  "allocate_itemsets g s = do {
     (count, symbol_count) \<leftarrow> count_symbols (ritem g) (0, replicate (nsyms g) 0);
     base \<leftarrow> base_loop symbol_count 0 (nsyms g) 0 (replicate (nsyms g) 0);
     Some (s\<lparr>kernel_base := base, kernel_items := replicate count 0, shift_symbol := symbol_count,
       kernel_end := replicate (nsyms g) None\<rparr>) }"

definition allocate_storage :: "grammar \<Rightarrow> lr0_state \<Rightarrow> lr0_state option" where
  "allocate_storage g s = do {
     s \<leftarrow> allocate_itemsets g s;
     Some (s\<lparr>shiftset := replicate (nsyms g) 0, redset := replicate (nrules g + 1) 0, state_set := replicate (nitems g) None\<rparr>) }"

section \<open>States\<close>

text \<open>The items from \<open>kernel_base[symbol]\<close> up to \<open>kernel_end[symbol]\<close>.\<close>

definition kernel_of :: "lr0_state \<Rightarrow> int \<Rightarrow> int list option" where
  "kernel_of s symbol = do {
     isp1 \<leftarrow> int_nth (kernel_base s) symbol;
     p \<leftarrow> int_nth (kernel_end s) symbol;
     iend \<leftarrow> p;
     if isp1 \<le> iend \<and> iend \<le> length (kernel_items s) then Some (take (iend - isp1) (drop isp1 (kernel_items s))) else None }"

definition new_state :: "int \<Rightarrow> lr0_state \<Rightarrow> (yacc_error + nat \<times> lr0_state) option" where
  "new_state symbol s =
     (if MAXSHORT \<le> nstates s then Some (Inl Too_many_states)
      else do {
        items \<leftarrow> kernel_of s symbol;
        let p = length (cores s);
        last \<leftarrow> nth_opt (cores s) (last_state s);
        Some (Inr (p, s\<lparr>cores := (cores s)[last_state s := last\<lparr>c_next := Some p\<rparr>] @
            [\<lparr>c_next = None, c_link = None, c_number = short (int (nstates s)), c_accessing_symbol = short symbol,
              c_nitems = short (int (length items)), c_items = items\<rparr>],
          last_state := p, nstates := Suc (nstates s)\<rparr>)) })"

text \<open>\<open>while (found && isp1 < iend)\<close>.\<close>

fun same_items :: "int list \<Rightarrow> int list \<Rightarrow> bool option" where
  "same_items [] isp2 = Some True"
| "same_items (i # isp1) [] = None"
| "same_items (i # isp1) (j # isp2) = (if i \<noteq> j then Some False else same_items isp1 isp2)"

text \<open>\<open>while (!found)\<close>: the search along the links from \<open>sp\<close>.\<close>

partial_function (option) find_state ::
  "int list \<Rightarrow> int \<Rightarrow> nat \<Rightarrow> lr0_state \<Rightarrow> (yacc_error + nat \<times> lr0_state) option" where
  "find_state ker symbol sp s =
     Option.bind (nth_opt (cores s) sp) (\<lambda>c.
     Option.bind (if c_nitems c = int (length ker) then same_items ker (c_items c) else Some False) (\<lambda>found.
       if found then Some (Inr (sp, s))
       else (case c_link c of
           Some p \<Rightarrow> find_state ker symbol p s
         | None \<Rightarrow> Option.bind (new_state symbol s) (\<lambda>r. case r of
             Inl e \<Rightarrow> Some (Inl e)
           | Inr (p, s) \<Rightarrow> Option.bind (nth_opt (cores s) sp) (\<lambda>c.
               Some (Inr (p, s\<lparr>cores := (cores s)[sp := c\<lparr>c_link := Some p\<rparr>]\<rparr>)))))))"

declare find_state.simps [code]

definition get_state :: "grammar \<Rightarrow> int \<Rightarrow> lr0_state \<Rightarrow> (yacc_error + int \<times> lr0_state) option" where
  "get_state g symbol s = do {
     base \<leftarrow> int_nth (kernel_base s) symbol;
     ker \<leftarrow> kernel_of s symbol;
     key \<leftarrow> nth_opt (kernel_items s) base;
     if \<not> (0 \<le> key \<and> key < int (nitems g)) then Some (Inl Assertion_failed)
     else do {
       head \<leftarrow> int_nth (state_set s) key;
       r \<leftarrow> (case head of
           Some sp \<Rightarrow> find_state ker symbol sp s
         | None \<Rightarrow> do {
             r \<leftarrow> new_state symbol s;
             case r of
               Inl e \<Rightarrow> Some (Inl e)
             | Inr (p, s) \<Rightarrow> do { st \<leftarrow> int_upd (state_set s) key (Some p); Some (Inr (p, s\<lparr>state_set := st\<rparr>)) } });
       case r of
         Inl e \<Rightarrow> Some (Inl e)
       | Inr (sp, s) \<Rightarrow> do { c \<leftarrow> nth_opt (cores s) sp; Some (Inr (c_number c, s)) } } }"

section \<open>Transitions\<close>

text \<open>\<open>while (j > 0 && shift_symbol[j - 1] > symbol)\<close>, and the loop of the insertion sort around it.\<close>

fun shift_down :: "int \<Rightarrow> nat \<Rightarrow> int list \<Rightarrow> (nat \<times> int list) option" where
  "shift_down symbol 0 a = Some (0, a)"
| "shift_down symbol (Suc j) a = do {
     v \<leftarrow> nth_opt a j;
     if symbol < v then do { a \<leftarrow> upd_opt a (Suc j) v; shift_down symbol j a } else Some (Suc j, a) }"

fun sort_symbols :: "nat \<Rightarrow> nat \<Rightarrow> int list \<Rightarrow> int list option" where
  "sort_symbols i 0 a = Some a"
| "sort_symbols i (Suc n) a = do {
     symbol \<leftarrow> nth_opt a i;
     (j, a) \<leftarrow> shift_down symbol i a;
     a \<leftarrow> upd_opt a j symbol;
     sort_symbols (Suc i) n a }"

fun fill_shiftset :: "grammar \<Rightarrow> nat \<Rightarrow> nat \<Rightarrow> lr0_state \<Rightarrow> (yacc_error + lr0_state) option" where
  "fill_shiftset g i 0 s = Some (Inr s)"
| "fill_shiftset g i (Suc n) s = do {
     symbol \<leftarrow> nth_opt (shift_symbol s) i;
     r \<leftarrow> get_state g symbol s;
     case r of
       Inl e \<Rightarrow> Some (Inl e)
     | Inr (k, s) \<Rightarrow> do { a \<leftarrow> upd_opt (shiftset s) i k; fill_shiftset g (Suc i) n (s\<lparr>shiftset := a\<rparr>) } }"

definition append_states :: "grammar \<Rightarrow> lr0_state \<Rightarrow> (yacc_error + lr0_state) option" where
  "append_states g s = do {
     a \<leftarrow> sort_symbols 1 (nshifts s - 1) (shift_symbol s);
     fill_shiftset g 0 (nshifts s) (s\<lparr>shift_symbol := a\<rparr>) }"

text \<open>The initial state; both loops over \<open>start_derives\<close> run over the same rules.\<close>

fun start_items :: "grammar \<Rightarrow> int list \<Rightarrow> int list option" where
  "start_items g [] = None"
| "start_items g (rule # start_derives) =
     (if 0 \<le> rule then do { i \<leftarrow> int_nth (rrhs g) rule; items \<leftarrow> start_items g start_derives; Some (i # items) } else Some [])"

definition initialize_states :: "grammar \<Rightarrow> nat option list \<times> int list \<Rightarrow> lr0_state \<Rightarrow> lr0_state option" where
  "initialize_states g d s = do {
     start_derives \<leftarrow> derives_of d (start_symbol g);
     items \<leftarrow> start_items g start_derives;
     Some (s\<lparr>cores := [\<lparr>c_next = None, c_link = None, c_number = 0, c_accessing_symbol = 0,
         c_nitems = short (int (length items)), c_items = items\<rparr>],
       last_state := 0, this_state := Some 0, nstates := 1\<rparr>) }"

fun new_items :: "grammar \<Rightarrow> int list \<Rightarrow> nat \<Rightarrow> lr0_state \<Rightarrow> (nat \<times> lr0_state) option" where
  "new_items g [] shiftcount s = Some (shiftcount, s)"
| "new_items g (i # isp) shiftcount s = do {
     symbol \<leftarrow> int_nth (ritem g) i;
     if 0 < symbol then do {
       p \<leftarrow> int_nth (kernel_end s) symbol;
       (ksp, shiftcount, s) \<leftarrow> (case p of
           Some ksp \<Rightarrow> Some (ksp, shiftcount, s)
         | None \<Rightarrow> do {
             a \<leftarrow> upd_opt (shift_symbol s) shiftcount symbol;
             ksp \<leftarrow> int_nth (kernel_base s) symbol;
             Some (ksp, Suc shiftcount, s\<lparr>shift_symbol := a\<rparr>) });
       items \<leftarrow> upd_opt (kernel_items s) ksp (short (i + 1));
       ends \<leftarrow> int_upd (kernel_end s) symbol (Some (Suc ksp));
       new_items g isp shiftcount (s\<lparr>kernel_items := items, kernel_end := ends\<rparr>) }
     else new_items g isp shiftcount s }"

definition new_itemsets :: "grammar \<Rightarrow> lr0_state \<Rightarrow> lr0_state option" where
  "new_itemsets g s = do {
     (shiftcount, s) \<leftarrow> new_items g (itemset s) 0 (s\<lparr>kernel_end := replicate (nsyms g) None\<rparr>);
     Some (s\<lparr>nshifts := shiftcount\<rparr>) }"

definition save_shifts :: "lr0_state \<Rightarrow> lr0_state option" where
  "save_shifts s = do {
     p \<leftarrow> this_state s;
     c \<leftarrow> nth_opt (cores s) p;
     if nshifts s \<le> length (shiftset s)
     then Some (s\<lparr>shift_list := shift_list s @
       [\<lparr>sh_number = c_number c, sh_nshifts = short (int (nshifts s)), sh_shift = take (nshifts s) (shiftset s)\<rparr>]\<rparr>)
     else None }"

text \<open>The rules of the complete items go to \<open>redset\<close> first.\<close>

fun collect_reductions :: "grammar \<Rightarrow> int list \<Rightarrow> nat \<Rightarrow> int list \<Rightarrow> (nat \<times> int list) option" where
  "collect_reductions g [] count rs = Some (count, rs)"
| "collect_reductions g (i # isp) count rs = do {
     item \<leftarrow> int_nth (ritem g) i;
     if item < 0 then do { rs \<leftarrow> upd_opt rs count (short (- item)); collect_reductions g isp (Suc count) rs }
     else collect_reductions g isp count rs }"

definition save_reductions :: "grammar \<Rightarrow> lr0_state \<Rightarrow> lr0_state option" where
  "save_reductions g s = do {
     (count, rs) \<leftarrow> collect_reductions g (itemset s) 0 (redset s);
     let s = s\<lparr>redset := rs\<rparr>;
     if 0 < count then do {
       p \<leftarrow> this_state s;
       c \<leftarrow> nth_opt (cores s) p;
       Some (s\<lparr>reduction_list := reduction_list s @
         [\<lparr>rd_number = c_number c, rd_nreds = short (int count), rd_rules = take count rs\<rparr>]\<rparr>) }
     else Some s }"

section \<open>The search\<close>

text \<open>The body of the loop, for the state at \<open>p\<close>, and its last two statements.\<close>

definition finish_state :: "nat \<Rightarrow> lr0_state \<Rightarrow> lr0_state option" where
  "finish_state p s = do {
     s \<leftarrow> (if 0 < nshifts s then save_shifts s else Some s);
     c \<leftarrow> nth_opt (cores s) p;
     Some (s\<lparr>this_state := c_next c\<rparr>) }"

definition process_state :: "grammar \<Rightarrow> u32 list \<Rightarrow> nat \<Rightarrow> lr0_state \<Rightarrow> (yacc_error + lr0_state) option" where
  "process_state g fd p s = do {
     c \<leftarrow> nth_opt (cores s) p;
     items \<leftarrow> closure g fd (take (nat (c_nitems c)) (c_items c));
     s \<leftarrow> save_reductions g (s\<lparr>itemset := items\<rparr>);
     s \<leftarrow> new_itemsets g s;
     r \<leftarrow> append_states g s;
     case r of
       Inl e \<Rightarrow> Some (Inl e)
     | Inr s \<Rightarrow> map_option Inr (finish_state p s) }"

partial_function (option) generate_loop :: "grammar \<Rightarrow> u32 list \<Rightarrow> lr0_state \<Rightarrow> (yacc_error + lr0_state) option" where
  "generate_loop g fd s = (case this_state s of
       None \<Rightarrow> Some (Inr s)
     | Some p \<Rightarrow> Option.bind (process_state g fd p s) (\<lambda>r. case r of
         Inl e \<Rightarrow> Some (Inl e)
       | Inr s \<Rightarrow> generate_loop g fd s))"

declare generate_loop.simps [code]

text \<open>The globals before the program starts.\<close>

definition no_states :: lr0_state where
  "no_states = \<lparr>cores = [], state_set = [], this_state = None, last_state = 0, nstates = 0, kernel_base = [], kernel_end = [],
     kernel_items = [], shift_symbol = [], nshifts = 0, shiftset = [], redset = [], shift_list = [], reduction_list = [], itemset = []\<rparr>"

definition generate_states :: "grammar \<Rightarrow> nat option list \<times> int list \<Rightarrow> (yacc_error + lr0_state) option" where
  "generate_states g d = do {
     s \<leftarrow> allocate_storage g no_states;
     fd \<leftarrow> set_first_derives g d;
     s \<leftarrow> initialize_states g d s;
     generate_loop g fd s }"

definition lr0 :: "grammar \<Rightarrow> (yacc_error + bool list \<times> lr0_state) option" where
  "lr0 g = do {
     d \<leftarrow> set_derives g;
     nullable \<leftarrow> set_nullable g;
     r \<leftarrow> generate_states g d;
     Some (map_sum id (Pair nullable) r) }"

end
