(* ===== verification/Yacc_Props.thy ===== *)
theory Yacc_Props
  imports Lr0_Closure_Props
begin

text \<open>
  The merge of \<open>closure\<close> and the main property of the closure tables of the parser generator: for every nucleus,
  \<open>itemset\<close> is the LR(0) closure, in order and without repetition.
\<close>

section \<open>The merge of two sorted lists\<close>

fun merge_items :: "int list \<Rightarrow> int list \<Rightarrow> int list" where
  "merge_items [] csp = csp"
| "merge_items (i # is) csp = takeWhile (\<lambda>c. c < i) csp @ i # merge_items is (dropWhile (\<lambda>c. c = i) (dropWhile (\<lambda>c. c < i) csp))"

lemma dropWhile_same: "insert i (set (dropWhile (\<lambda>c. c = i) xs)) = insert i (set xs)"
  by (induction xs) auto

lemma dropWhile_sorted: "sorted_wrt R xs \<Longrightarrow> sorted_wrt R (dropWhile P xs)"
  by (metis sorted_wrt_append takeWhile_dropWhile_id)

lemma dropWhile_above:
  "sorted_wrt (<) xs \<Longrightarrow> c \<in> set (dropWhile (\<lambda>c. c = i) (dropWhile (\<lambda>c. c < i) xs)) \<Longrightarrow> i < (c :: int)"
  by (induction xs) (auto dest!: set_dropWhileD split: if_splits)

lemma merge_items_set: "set (merge_items is csp) = set is \<union> set csp"
proof (induction "is" csp rule: merge_items.induct)
  case (2 i "is" csp)
  let ?d = "dropWhile (\<lambda>c. c < i) csp"
  have "insert i (set (dropWhile (\<lambda>c. c = i) ?d)) = insert i (set ?d)" by (rule dropWhile_same)
  moreover have "set csp = set (takeWhile (\<lambda>c. c < i) csp) \<union> set ?d" by (metis set_append takeWhile_dropWhile_id)
  ultimately show ?case using "2.IH" by auto
qed simp

lemma merge_items_sorted:
  "sorted_wrt (<) is \<Longrightarrow> sorted_wrt (<) csp \<Longrightarrow> sorted_wrt (<) (merge_items is csp)"
proof (induction "is" csp rule: merge_items.induct)
  case (2 i "is" csp)
  let ?d = "dropWhile (\<lambda>c. c = i) (dropWhile (\<lambda>c. c < i) csp)"
  have "sorted_wrt (<) ?d" by (intro dropWhile_sorted "2.prems"(2))
  moreover have "\<forall>c \<in> set ?d. i < c" using dropWhile_above [OF "2.prems"(2)] by blast
  moreover have "\<forall>c \<in> set (takeWhile (\<lambda>c. c < i) csp). c < i" by (auto dest: set_takeWhileD)
  moreover have "sorted_wrt (<) (takeWhile (\<lambda>c. c < i) csp)" using "2.prems"(2) by (metis sorted_wrt_append takeWhile_dropWhile_id)
  moreover have "sorted_wrt (<) (merge_items is ?d)" "\<forall>c \<in> set is. i < c" using "2.IH" "2.prems"(1) calculation(1) by auto
  ultimately show ?case by (fastforce simp: sorted_wrt_append merge_items_set)
qed simp

lemma copy_below_eq:
  "length out + length (takeWhile (\<lambda>c. c < i) csp) \<le> nitems g \<Longrightarrow> \<forall>c \<in> set csp. short c = c \<Longrightarrow>
   copy_below g i (csp, out) = Some (dropWhile (\<lambda>c. c < i) csp, out @ takeWhile (\<lambda>c. c < i) csp)"
  by (induction csp arbitrary: out) (auto simp: put_item_def)

lemma put_items_eq:
  "length out + length csp \<le> nitems g \<Longrightarrow> \<forall>c \<in> set csp. short c = c \<Longrightarrow> put_items g csp out = Some (out @ csp)"
  by (induction csp arbitrary: out) (auto simp: put_item_def)

lemma put_rules_eq:
  "\<forall>r \<in> set rs. r < length (rrhs g) \<and> short (rrhs g ! r) = rrhs g ! r \<Longrightarrow> \<forall>c \<in> set csp. short c = c \<Longrightarrow>
   length out + length (merge_items (map ((!) (rrhs g)) rs) csp) \<le> nitems g \<Longrightarrow>
   Option.bind (put_rules g rs (csp, out)) (\<lambda>(csp, out). put_items g csp out) = Some (out @ merge_items (map ((!) (rrhs g)) rs) csp)"
proof (induction rs arbitrary: csp out)
  case (Cons r rs)
  let ?i = "rrhs g ! r"
  let ?t = "takeWhile (\<lambda>c. c < ?i) csp"
  let ?d = "dropWhile (\<lambda>c. c = ?i) (dropWhile (\<lambda>c. c < ?i) csp)"
  have "put_rule g r (csp, out) = Some (?d, out @ ?t @ [?i])"
    using Cons.prems copy_below_eq [of out ?i csp g] by (simp add: put_rule_def put_item_def nth_opt_def)
  then show ?case using Cons.IH [of ?d "out @ ?t @ [?i]"] Cons.prems by (auto dest: set_dropWhileD)
qed (simp add: put_items_eq)

text \<open>The items fit in \<open>itemset\<close>: a sorted list of items is no longer than \<open>nitems\<close>.\<close>

lemma sorted_items_length:
  assumes "sorted_wrt (<) is" "\<forall>i \<in> set is. item_ok g i"
  shows "length is \<le> nitems g"
proof -
  have "distinct is" using assms(1) by (simp add: strict_sorted_iff)
  then have "length is = card (set is)" by (simp add: distinct_card)
  also have "\<dots> \<le> card {0..<int (nitems g)}" using assms(2) by (intro card_mono) (auto simp: item_ok_def)
  finally show ?thesis by simp
qed

section \<open>The closure\<close>

text \<open>The LR(0) closure of a set of items: the item before a variable brings in the start of each of its rules.\<close>

inductive_set lr0_closure :: "grammar \<Rightarrow> int set \<Rightarrow> int set" for g I where
  nucleus: "i \<in> I \<Longrightarrow> i \<in> lr0_closure g I"
| rule: "i \<in> lr0_closure g I \<Longrightarrow> ritem g ! nat i = int (start_symbol g + A) \<Longrightarrow> A < nvars g \<Longrightarrow> r \<in> set (rules_of g A) \<Longrightarrow>
    rrhs g ! r \<in> lr0_closure g I"

lemma left_corner_closure:
  assumes "(A, C) \<in> (left_corner g)\<^sup>*" "i \<in> lr0_closure g I" "ritem g ! nat i = int (start_symbol g + A)" "A < nvars g"
  shows "r \<in> set (rules_of g C) \<Longrightarrow> rrhs g ! r \<in> lr0_closure g I"
  using assms(1)
proof (induction arbitrary: r rule: rtrancl_induct)
  case base
  then show ?case using lr0_closure.rule assms(2-4) by blast
next
  case (step C D)
  then obtain q where "q \<in> set (rules_of g C)" "ritem g ! nat (rrhs g ! q) = int (start_symbol g + D)" "D < nvars g"
    by (auto simp: left_corner_def first_sym_def)
  then show ?case using lr0_closure.rule step by blast
qed

lemma lr0_closure_rules: "lr0_closure g I = I \<union> (!) (rrhs g) ` new_rules g I"
proof (intro subset_antisym subsetI)
  show "i \<in> I \<union> (!) (rrhs g) ` new_rules g I" if "i \<in> lr0_closure g I" for i
    using that
  proof induction
    case (rule i A r)
    show ?case
    proof (cases "i \<in> I")
      case True
      then have "r \<in> new_rules g I" using rule by (auto simp: new_rules_def start_rules_def)
      then show ?thesis by simp
    next
      case False
      then obtain q where "q \<in> new_rules g I" and i: "i = rrhs g ! q" using rule.IH by blast
      then obtain j B C where q: "j \<in> I" "B < nvars g" "ritem g ! nat j = int (start_symbol g + B)"
        "(B, C) \<in> (left_corner g)\<^sup>*" "q \<in> set (rules_of g C)" unfolding new_rules_def start_rules_def by blast
      have "C < nvars g" using q(4,2) by (cases rule: rtranclE) (auto simp: left_corner_def)
      then have "(C, A) \<in> left_corner g" using q(5) i rule.hyps by (auto simp: left_corner_def first_sym_def)
      then have "(B, A) \<in> (left_corner g)\<^sup>*" using q(4) by simp
      then have "r \<in> new_rules g I" using q(1-3) rule.hyps unfolding new_rules_def start_rules_def by blast
      then show ?thesis by simp
    qed
  qed simp
  show "i \<in> lr0_closure g I" if "i \<in> I \<union> (!) (rrhs g) ` new_rules g I" for i
    using that left_corner_closure lr0_closure.nucleus by (fastforce simp: new_rules_def start_rules_def)
qed

lemma new_rules_lt: "r \<in> new_rules g I \<Longrightarrow> r < nrules g \<and> int (start_symbol g) \<le> rlhs g ! r"
  by (auto simp: new_rules_def start_rules_def rules_of_def)

lemma rrhs_mono: "grammar_ok g \<Longrightarrow> r < s \<Longrightarrow> s < nrules g \<Longrightarrow> int (start_symbol g) \<le> rlhs g ! r \<Longrightarrow> rrhs g ! r < rrhs g ! s"
  unfolding grammar_ok_def by blast

lemma closure_ok:
  assumes "grammar_ok g" "first_derives_ok g fd" "sorted_wrt (<) nucleus" "\<forall>i \<in> set nucleus. item_ok g i"
  shows "\<exists>is. closure g fd nucleus = Some is \<and> sorted_wrt (<) is \<and> set is = lr0_closure g (set nucleus)"
proof -
  obtain ruleset where rs: "closure_rules g fd nucleus (replicate (WORDSIZE (nrules g)) 0) = Some ruleset"
    "bits ruleset = pos 0 ` new_rules g (set nucleus)"
    using closure_rules_ok [OF assms(1,2,4), of "replicate (WORDSIZE (nrules g)) 0"] by auto
  let ?rs = "rule_list 0 ruleset"
  let ?is = "merge_items (map ((!) (rrhs g)) ?rs) nucleus"
  have set: "set ?rs = new_rules g (set nucleus)" by (auto simp: rule_list_set rs(2) pos_row0)
  have item: "item_ok g (rrhs g ! r)" if "r \<in> set ?rs" for r
    using that rule_item(2,3) [OF assms(1), of r] new_rules_lt by (auto simp: set item_ok_def nat_less_iff)
  have "sorted_wrt (\<lambda>r s. rrhs g ! r < rrhs g ! s) ?rs"
    by (rule sorted_wrt_mono_rel [OF _ rule_list_sorted]) (use new_rules_lt rrhs_mono [OF assms(1)] in \<open>auto simp: set\<close>)
  then have sorted: "sorted_wrt (<) ?is" using assms(3) by (intro merge_items_sorted) (simp_all add: sorted_wrt_map)
  have "\<forall>i \<in> set ?is. item_ok g i" using item assms(4) by (auto simp: merge_items_set)
  then have len: "length ?is \<le> nitems g" by (rule sorted_items_length [OF sorted])
  have short: "short i = i" if "item_ok g i" for i using that assms(1) by (intro short_id) (auto simp: item_ok_def grammar_ok_def)
  have "Option.bind (put_rules g ?rs (nucleus, [])) (\<lambda>(csp, out). put_items g csp out) = Some ([] @ ?is)"
  proof (rule put_rules_eq)
    show "\<forall>r \<in> set ?rs. r < length (rrhs g) \<and> short (rrhs g ! r) = rrhs g ! r"
      using item short new_rules_lt rule_item(1) [OF assms(1)] set by blast
  qed (use short assms(4) len in simp_all)
  then have "closure g fd nucleus = Some ?is" by (simp add: closure_def rs(1) closure_words_eq)
  moreover have "set ?is = lr0_closure g (set nucleus)" by (auto simp: merge_items_set set lr0_closure_rules)
  ultimately show ?thesis using sorted by blast
qed

section \<open>The word past the last row\<close>

lemma first_derives_row_past:
  assumes "length EFF = nvars g * WORDSIZE (nvars g)" "nvars g mod 32 = 0"
  shows "Suc A = nvars g \<Longrightarrow> B + Suc n = nvars g \<Longrightarrow>
    first_derives_row d EFF rrow j (Suc n) (Suc (A * WORDSIZE (nvars g) + B div 32)) cword (2 ^ (B mod 32)) fd = None"
proof (induction n arbitrary: B j cword fd)
  case 0
  then have B: "Suc B mod 32 = 0" using assms(2) by simp
  have "Suc (B div 32) = WORDSIZE (nvars g)" using next_bit(1) [OF B] 0(2) assms(2) by (simp add: WORDSIZE_def)
  then have "Suc (A * WORDSIZE (nvars g) + B div 32) = length EFF" unfolding assms(1) 0(1) [symmetric] by simp
  then show ?case using push_mask_last [OF B] by (simp add: nth_opt_def bind_eq_None_conv)
next
  case (Suc n)
  show ?case
  proof (cases "Suc B mod 32 = 0")
    case True
    then show ?thesis using Suc.IH [of "Suc B"] Suc.prems push_mask_last [OF True] next_bit(1) [OF True]
      by (simp add: first_derives_row.simps(2) [of _ _ _ _ "Suc n"] bind_eq_None_conv del: first_derives_row.simps(2))
  next
    case False
    then show ?thesis using Suc.IH [of "Suc B"] Suc.prems push_mask_inner [OF False] next_bit(2) [OF False]
      by (simp add: first_derives_row.simps(2) [of _ _ _ _ "Suc n"] bind_eq_None_conv del: first_derives_row.simps(2))
  qed
qed

lemma first_derives_rows_past:
  assumes "length EFF = nvars g * WORDSIZE (nvars g)" "nvars g mod 32 = 0" "nsyms g - start_symbol g = nvars g" "start_symbol g = ntokens g"
  shows "A + Suc n = nvars g \<Longrightarrow> first_derives_rows g d EFF (start_symbol g + A) (Suc n) rrow fd = None"
proof (induction n arbitrary: A rrow fd)
  case 0
  then show ?case using first_derives_row_past [OF assms(1,2), of A 0 "A" d rrow "start_symbol g" _ fd] assms(3,4)
    by (simp add: bind_eq_None_conv Let_def)
next
  case (Suc n)
  then show ?case using Suc.IH [of "Suc A"]
    by (simp add: first_derives_rows.simps(2) [of _ _ _ _ "Suc n"] bind_eq_None_conv Let_def del: first_derives_rows.simps(2))
qed

section \<open>Claims\<close>

text \<open>C18: The closure tables are right: for a grammar whose number of variables is not a multiple of 32, the number of bits in a word,
  \<open>set_derives\<close> and \<open>set_first_derives\<close> stay inside their arrays, and for every nucleus in order \<open>closure\<close> then
  writes exactly the LR(0) closure of the nucleus to \<open>itemset\<close>, in order, without repetition and within its
  \<open>nitems\<close> places.\<close>

theorem closure_is_lr0_closure:
  assumes "grammar_ok g" "nvars g mod 32 \<noteq> 0"
  shows "\<exists>d fd. set_derives g = Some d \<and> set_first_derives g d = Some fd \<and>
    (\<forall>nucleus. sorted_wrt (<) nucleus \<and> (\<forall>i \<in> set nucleus. item_ok g i) \<longrightarrow>
      (\<exists>is. closure g fd nucleus = Some is \<and> sorted_wrt (<) is \<and> set is = lr0_closure g (set nucleus)))"
  using set_derives_ok [OF assms(1)] set_first_derives_ok [OF assms(1) _ assms(2)] closure_ok [OF assms(1)] by metis

text \<open>The grammar \<open>E: E '+' 'x' | 'x'\<close> as \<open>reader.c\<close> packs it.\<close>

definition sum_grammar :: grammar where
  "sum_grammar = \<lparr>nsyms = 5, ntokens = 3, nvars = 2, start_symbol = 3, nrules = 5, nitems = 10,
     ritem = [- 1, 4, 0, - 2, 4, 1, 2, - 3, 2, - 4], rlhs = [0, 0, 3, 4, 4], rrhs = [0, 0, 1, 4, 8, 10]\<rparr>"

lemma sum_grammar_ok: "grammar_ok sum_grammar"
  by (simp add: grammar_ok_def sum_grammar_def all_less_numeral)

theorem closure_is_lr0_closure_witness:
  "\<exists>d fd is. set_derives sum_grammar = Some d \<and> set_first_derives sum_grammar d = Some fd \<and>
     closure sum_grammar fd [1] = Some is \<and> sorted_wrt (<) is \<and> set is = lr0_closure sum_grammar {1}"
proof -
  have "item_ok sum_grammar 1" "nvars sum_grammar mod 32 \<noteq> 0" by (simp_all add: item_ok_def sum_grammar_def)
  then show ?thesis using closure_is_lr0_closure [OF sum_grammar_ok] by (metis list.set sorted_wrt1 singletonD)
qed

text \<open>C32: With a multiple of the word size, the scan of the last row fetches the word after it: \<open>set_first_derives\<close> reads
  one word past the end of \<open>EFF\<close>.\<close>

theorem set_first_derives_overread:
  assumes "grammar_ok g" "0 < nvars g" "nvars g mod 32 = 0"
  shows "\<exists>d EFF. set_derives g = Some d \<and> set_EFF g d = Some EFF \<and> set_first_derives g d = None"
proof -
  obtain d where d: "set_derives g = Some d" "derives_ok g d" using set_derives_ok [OF assms(1)] by blast
  obtain EFF where E: "set_EFF g d = Some EFF" "length EFF = nvars g * WORDSIZE (nvars g)" using set_EFF_ok [OF assms(1) d(2)] by blast
  have "nsyms g - start_symbol g = nvars g" "start_symbol g = ntokens g" using assms(1) by (auto simp: grammar_ok_def)
  with first_derives_rows_past [OF E(2) assms(3) this, of 0 "nvars g - 1" d 0 "replicate (nvars g * WORDSIZE (nrules g)) 0"] assms(2) E(1) d(1)
  show ?thesis by (simp add: set_first_derives_def)
qed

text \<open>A grammar with 32 variables, each of which derives the empty string.\<close>

definition wide_grammar :: grammar where
  "wide_grammar = \<lparr>nsyms = 33, ntokens = 1, nvars = 32, start_symbol = 1, nrules = 34, nitems = 35,
     ritem = [- 1, 2, 0, - 2] @ map (\<lambda>r. - int r) [3..<34], rlhs = [0, 0, 1] @ map int [2..<33], rrhs = [0, 0, 1] @ map int [4..<36]\<rparr>"

lemma wide_grammar_ok: "grammar_ok wide_grammar"
  by (simp add: grammar_ok_def wide_grammar_def all_less_numeral)

theorem set_first_derives_overread_witness:
  "\<exists>d EFF. set_derives wide_grammar = Some d \<and> set_EFF wide_grammar d = Some EFF \<and> set_first_derives wide_grammar d = None"
  by (rule set_first_derives_overread [OF wide_grammar_ok]) (simp_all add: wide_grammar_def)

text \<open>C31: Warshall's algorithm on rows of bits: \<open>reflexive_transitive_closure\<close> ends inside the array, for every matrix of \<open>n\<close> rows,
  and leaves the reflexive and transitive closure of the relation it was given.\<close>

theorem warshall_closure:
  assumes "length R = n * WORDSIZE n"
  shows "\<exists>R'. reflexive_transitive_closure R n = Some R' \<and> length R' = length R \<and>
    (\<forall>i < n. \<forall>j < n. bit_at R' (i * WORDSIZE n) j \<longleftrightarrow> (i, j) \<in> (row_rel n R)\<^sup>*)"
proof -
  obtain R' where R': "reflexive_transitive_closure R n = Some R'" "length R' = length R"
    "row_rel n R' = {(i, j). i < n \<and> (i, j) \<in> (row_rel n R)\<^sup>*}" using reflexive_closure_ok [of n R] assms by auto
  have "bit_at R' (i * WORDSIZE n) j \<longleftrightarrow> (i, j) \<in> row_rel n R'" if "i < n" "j < n" for i j using that by (simp add: row_rel_def)
  with R' show ?thesis by auto
qed

theorem warshall_closure_witness:
  "\<exists>R'. reflexive_transitive_closure [2, 4, 0] 3 = Some R' \<and> length R' = 3 \<and> bit_at R' 0 2"
proof -
  have "(0, 1) \<in> row_rel 3 [2, 4, 0]" "(1, 2) \<in> row_rel 3 [2, 4, 0]" by (simp_all add: row_rel_def bit_at_def WORDSIZE_def)
  then have "(0, 2) \<in> (row_rel 3 [2, 4, 0])\<^sup>*" by (meson r_into_rtrancl rtrancl_trans)
  then show ?thesis using warshall_closure [of "[2, 4, 0]" 3] by (auto simp: WORDSIZE_def)
qed

end
