(* ===== verification/Lr0_Kernels.thy ===== *)
theory Lr0_Kernels
  imports Lr0_States Yacc_Props "HOL-Library.Multiset"
begin

text \<open>
  The arrays of \<open>lr0.c\<close> behind one state: the segments of \<open>kernel_items\<close>, the sort of the shift symbols, the
  reductions. What the loops leave in them is stated as lists.
\<close>

section \<open>Segments\<close>

text \<open>The number of items before a symbol, and where its segment starts.\<close>

definition symbol_items :: "grammar \<Rightarrow> nat \<Rightarrow> nat" where
  "symbol_items g X = length (filter (\<lambda>x. x = int X) (ritem g))"

definition segment_base :: "grammar \<Rightarrow> nat \<Rightarrow> nat" where
  "segment_base g X = (\<Sum>Y < X. symbol_items g Y)"

lemma segment_base_Suc [simp]: "segment_base g (Suc X) = segment_base g X + symbol_items g X"
  by (simp add: segment_base_def)

lemma segment_base_0 [simp]: "segment_base g 0 = 0"
  by (simp add: segment_base_def)

lemma segment_mono: "X < Y \<Longrightarrow> segment_base g X + symbol_items g X \<le> segment_base g Y"
  by (induction Y) (auto simp: less_Suc_eq)

lemma segment_apart:
  "k < symbol_items g X \<Longrightarrow> l < symbol_items g Y \<Longrightarrow> segment_base g X + k = segment_base g Y + l \<longleftrightarrow> X = Y \<and> k = l"
  using segment_mono [of X Y g] segment_mono [of Y X g] by (cases X Y rule: linorder_cases) auto

lemma count_symbols_ok:
  "\<forall>x \<in> set items. x < int (length sc) \<Longrightarrow> \<forall>X < length sc. 0 \<le> sc ! X \<and> sc ! X + int (length items) < 2 ^ 15 \<Longrightarrow>
   \<exists>sc'. count_symbols items (c, sc) = Some (c + length (filter (\<lambda>x. 0 \<le> x) items), sc') \<and> length sc' = length sc \<and>
     (\<forall>X < length sc. sc' ! X = sc ! X + int (length (filter (\<lambda>x. x = int X) items)))"
proof (induction items arbitrary: c sc)
  case (Cons x items)
  show ?case
  proof (cases "0 \<le> x")
    case True
    let ?sc = "sc[nat x := sc ! nat x + 1]"
    have x: "nat x < length sc" "int_nth sc x = Some (sc ! nat x)" using True Cons.prems(1) by auto
    have "0 \<le> sc ! nat x" "sc ! nat x + 1 < 2 ^ 15" using Cons.prems(2) x(1) by force+
    then have short: "short (sc ! nat x + 1) = sc ! nat x + 1" by (intro short_id) auto
    have "\<forall>X < length ?sc. 0 \<le> ?sc ! X \<and> ?sc ! X + int (length items) < 2 ^ 15"
      using Cons.prems(2) x(1) by (force simp: nth_list_update)
    then obtain sc' where sc': "count_symbols items (Suc c, ?sc) = Some (Suc c + length (filter (\<lambda>x. 0 \<le> x) items), sc')"
      "length sc' = length sc" "\<forall>X < length sc. sc' ! X = ?sc ! X + int (length (filter (\<lambda>x. x = int X) items))"
      using Cons.IH [of ?sc "Suc c"] Cons.prems(1) by auto
    then show ?thesis using True x short by (auto simp: int_upd_def upd_opt_def nth_list_update int_nth_def nth_opt_def)
  next
    case False
    then show ?thesis using Cons.IH [of sc c] Cons.prems by force
  qed
qed auto

lemma base_loop_ok:
  "\<forall>X < length sc. sc ! X = int (symbol_items g X) \<Longrightarrow> i + n = length sc \<Longrightarrow> length base = length sc \<Longrightarrow>
   \<exists>base'. base_loop sc i n (segment_base g i) base = Some base' \<and> length base' = length base \<and>
     (\<forall>X < length sc. base' ! X = (if i \<le> X then segment_base g X else base ! X))"
proof (induction n arbitrary: i base)
  case (Suc n)
  have "base_loop sc (Suc i) n (segment_base g (Suc i)) (base[i := segment_base g i]) = base_loop sc i (Suc n) (segment_base g i) base"
    using Suc.prems by (simp add: upd_opt_def nth_opt_def nat_add_distrib)
  then show ?case using Suc.IH [of "Suc i" "base[i := segment_base g i]"] Suc.prems by (auto simp: nth_list_update Suc_le_eq)
qed auto

lemma segment_total:
  "segment_base g n = length (filter (\<lambda>x. 0 \<le> x \<and> x < int n) (ritem g))"
proof (induction n)
  case (Suc n)
  show ?case using filter_split [of 0 id n "ritem g"] by (simp add: Suc symbol_items_def)
qed (simp add: filter_empty_conv)

section \<open>Items\<close>

text \<open>A set of items is a sorted list of indices into \<open>ritem\<close>.\<close>

definition item_list :: "grammar \<Rightarrow> int list \<Rightarrow> bool" where
  "item_list g is \<longleftrightarrow> sorted_wrt (<) is \<and> (\<forall>i \<in> set is. item_ok g i)"

abbreviation item_symbol :: "grammar \<Rightarrow> int \<Rightarrow> int" where
  "item_symbol g i \<equiv> ritem g ! nat i"

text \<open>The kernel reached by a symbol.\<close>

definition advance :: "grammar \<Rightarrow> int list \<Rightarrow> int \<Rightarrow> int list" where
  "advance g is X = map (\<lambda>i. i + 1) (filter (\<lambda>i. item_symbol g i = X) is)"

lemma advance_append: "advance g (is @ js) X = advance g is X @ advance g js X"
  by (simp add: advance_def)

text \<open>No more items of a kind than \<open>ritem\<close> has.\<close>

lemma items_of_kind:
  assumes "distinct is" "\<forall>i \<in> set is. item_ok g i" "length (ritem g) = nitems g"
  shows "length (filter (\<lambda>i. P (item_symbol g i)) is) \<le> length (filter P (ritem g))"
proof -
  let ?f = "filter (\<lambda>i. P (item_symbol g i)) is"
  have "inj_on nat (set ?f)" using assms(2) by (intro inj_onI) (auto simp: item_ok_def eq_nat_nat_iff)
  then have "length ?f = card (nat ` set ?f)" using assms(1) distinct_card [of ?f] by (simp add: card_image)
  also have "\<dots> \<le> card {k. k < length (ritem g) \<and> P (ritem g ! k)}"
    using assms(2,3) by (intro card_mono) (auto simp: item_ok_def nat_less_iff)
  finally show ?thesis by (simp add: length_filter_conv_card)
qed

lemma advance_length:
  assumes "distinct is" "\<forall>i \<in> set is. item_ok g i" "length (ritem g) = nitems g"
  shows "length (advance g is (int X)) \<le> symbol_items g X"
  using items_of_kind [OF assms, of "\<lambda>x. x = int X"] by (simp add: advance_def symbol_items_def)

lemma packed_length: "packed g bs \<Longrightarrow> length (ritem g) = nitems g"
  by (simp add: packed_def)

lemma pack_items_last: "bs \<noteq> [] \<Longrightarrow> last (pack_items k bs) < 0 \<or> k = 0"
proof (induction bs arbitrary: k)
  case (Cons b bs)
  then show ?case using Cons.IH [of "Suc k"] by (cases bs) (auto split: if_splits)
qed simp

lemma pack_items_nonempty: "bs \<noteq> [] \<Longrightarrow> pack_items k bs \<noteq> []"
  by (cases bs) auto

text \<open>The item after a symbol is an item.\<close>

lemma item_advance:
  assumes "packed g bs" "item_ok g i" "0 \<le> item_symbol g i"
  shows "item_ok g (i + 1)"
proof (rule ccontr)
  assume "\<not> item_ok g (i + 1)"
  then have "nat i = length (ritem g) - 1" using assms(1,2) by (auto simp: item_ok_def packed_def)
  then have "item_symbol g i = last (ritem g)" using assms(1) by (simp add: last_conv_nth packed_def)
  moreover have "last (ritem g) < 0"
    using assms(1) pack_items_last [of bs 2] pack_items_nonempty [of bs 2] by (cases "bs = []") (auto simp: packed_def)
  ultimately show False using assms(3) by simp
qed

section \<open>New item sets\<close>

text \<open>The segments after the items \<open>pre\<close>, with \<open>c\<close> shift symbols.\<close>

definition storage_ok :: "grammar \<Rightarrow> lr0_state \<Rightarrow> bool" where
  "storage_ok g s \<longleftrightarrow> length (kernel_base s) = nsyms g \<and> (\<forall>X < nsyms g. kernel_base s ! X = segment_base g X) \<and>
     length (kernel_items s) = segment_base g (nsyms g) \<and> length (kernel_end s) = nsyms g \<and> length (shift_symbol s) = nsyms g \<and>
     length (shiftset s) = nsyms g \<and> length (redset s) = nrules g + 1 \<and> length (state_set s) = nitems g"

definition kernels_ok :: "grammar \<Rightarrow> int list \<Rightarrow> nat \<Rightarrow> lr0_state \<Rightarrow> bool" where
  "kernels_ok g pre c s \<longleftrightarrow> c \<le> nsyms g \<and> distinct (take c (shift_symbol s)) \<and>
     set (take c (shift_symbol s)) = {x. 0 < x \<and> x \<in> item_symbol g ` set pre} \<and>
     (\<forall>X < nsyms g. 0 < X \<longrightarrow>
       kernel_end s ! X = (if advance g pre (int X) = [] then None else Some (segment_base g X + length (advance g pre (int X)))) \<and>
       (\<forall>k < length (advance g pre (int X)). kernel_items s ! (segment_base g X + k) = advance g pre (int X) ! k))"

text \<open>The fields that the loop over the items changes.\<close>

definition same_search :: "lr0_state \<Rightarrow> lr0_state \<Rightarrow> bool" where
  "same_search s t \<longleftrightarrow> cores t = cores s \<and> state_set t = state_set s \<and> this_state t = this_state s \<and> last_state t = last_state s \<and>
     nstates t = nstates s \<and> shift_list t = shift_list s \<and> reduction_list t = reduction_list s \<and> itemset t = itemset s"

lemma same_search_refl: "same_search s s"
  by (simp add: same_search_def)

lemma same_search_trans: "same_search s t \<Longrightarrow> same_search t u \<Longrightarrow> same_search s u"
  by (simp add: same_search_def)

lemma kernels_ok_other:
  assumes "kernels_ok g pre c s" "item_symbol g i \<le> 0"
  shows "kernels_ok g (pre @ [i]) c s"
proof -
  have "advance g (pre @ [i]) (int X) = advance g pre (int X)" if "0 < X" for X
    using assms(2) that by (auto simp: advance_def)
  moreover have "{x. 0 < x \<and> x \<in> item_symbol g ` set (pre @ [i])} = {x. 0 < x \<and> x \<in> item_symbol g ` set pre}"
    using assms(2) by auto
  ultimately show ?thesis using assms(1) by (simp add: kernels_ok_def)
qed

text \<open>A new symbol finds room in \<open>shift_symbol\<close>.\<close>

lemma shift_symbol_room:
  assumes "kernels_ok g pre c s" "storage_ok g s" "packed g bs" "\<forall>i \<in> set pre. item_ok g i" "0 < X" "X < nsyms g"
    "int X \<notin> item_symbol g ` set pre"
  shows "c < nsyms g"
proof -
  let ?t = "take c (shift_symbol s)"
  define S where "S = item_symbol g ` set pre"
  have "x < int (nsyms g)" if "x \<in> S" for x
    using that assms(4) packed_grammar_ok [OF assms(3)] by (auto simp: S_def item_ok_def grammar_ok_def nat_less_iff)
  moreover have "set ?t = {x. 0 < x \<and> x \<in> S}" using assms(1) by (simp add: kernels_ok_def S_def)
  ultimately have "set ?t \<subseteq> {0<..<int (nsyms g)} - {int X}" using assms(7) by (auto simp: S_def [symmetric])
  then have "card (set ?t) \<le> card ({0<..<int (nsyms g)} - {int X})" by (intro card_mono) auto
  also have "\<dots> < nsyms g" using assms(5,6) by simp
  finally show ?thesis using assms(1,2) distinct_card [of ?t] by (simp add: kernels_ok_def storage_ok_def)
qed

lemma new_items_step:
  assumes "packed g bs" "storage_ok g s" "kernels_ok g pre c s" "distinct (pre @ [i])" "\<forall>j \<in> set (pre @ [i]). item_ok g j"
    and X: "item_symbol g i = int X" "0 < X" "X < nsyms g"
  shows "\<exists>c' s'. new_items g (i # is) c s = new_items g is c' s' \<and> storage_ok g s' \<and> kernels_ok g (pre @ [i]) c' s' \<and> same_search s s'"
proof -
  let ?n = "length (advance g pre (int X))"
  let ?p = "segment_base g X + ?n"
  have snoc: "advance g (pre @ [i]) (int Y) = (if Y = X then advance g pre (int X) @ [i + 1] else advance g pre (int Y))" for Y
    using X(1) by (auto simp: advance_def)
  have n: "Suc ?n \<le> symbol_items g X" using advance_length [OF assms(4,5) packed_length [OF assms(1)], of X] snoc [of X] by simp
  have p: "?p < length (kernel_items s)" using n segment_mono [OF X(3), of g] assms(2) by (simp add: storage_ok_def)
  have i: "int_nth (ritem g) i = Some (int X)" "short (i + 1) = i + 1"
    using assms(1,5) X(1) by (auto simp: item_ok_def packed_def nat_less_iff intro!: short_id)
  have ke: "int_nth (kernel_end s) (int X) = Some (if advance g pre (int X) = [] then None else Some ?p)"
    using assms(2,3) X by (auto simp: storage_ok_def kernels_ok_def)
  have kb: "int_nth (kernel_base s) (int X) = Some (segment_base g X)" using assms(2) X by (auto simp: storage_ok_def)
  let ?new = "advance g pre (int X) = []"
  let ?c = "if ?new then Suc c else c"
  let ?s = "s\<lparr>shift_symbol := if ?new then (shift_symbol s)[c := int X] else shift_symbol s,
    kernel_items := (kernel_items s)[?p := i + 1], kernel_end := (kernel_end s)[X := Some (Suc ?p)]\<rparr>"
  have new: "?new \<longleftrightarrow> int X \<notin> item_symbol g ` set pre" 
    by (auto simp: advance_def filter_empty_conv image_iff eq_commute [of "int X"])
  have room: "c < nsyms g" if ?new
    using shift_symbol_room [OF assms(3,2,1) _ X(2,3)] assms(5) new that by simp
  have "new_items g (i # is) c s = new_items g is ?c ?s"
    using p X room assms(2) by (simp add: i ke kb upd_opt_def int_upd_def storage_ok_def)
  moreover have "storage_ok g ?s" using assms(2) by (simp add: storage_ok_def)
  moreover have "kernels_ok g (pre @ [i]) ?c ?s"
    unfolding kernels_ok_def
  proof (intro conjI allI impI)
    let ?t = "take ?c (shift_symbol ?s)"
    note k = assms(3) [unfolded kernels_ok_def]
    have t: "?t = take c (shift_symbol s) @ (if ?new then [int X] else [])"
      using room assms(2) by (simp add: storage_ok_def take_Suc_conv_app_nth)
    show "?c \<le> nsyms g" using room k by auto
    show "distinct ?t" unfolding t using k new by auto
    show "set ?t = {x. 0 < x \<and> x \<in> item_symbol g ` set (pre @ [i])}" unfolding t using k new X by auto
    fix Y
    assume Y: "Y < nsyms g" "0 < Y"
    show "kernel_end ?s ! Y = (if advance g (pre @ [i]) (int Y) = [] then None
        else Some (segment_base g Y + length (advance g (pre @ [i]) (int Y))))"
      unfolding snoc using k Y assms(2) by (auto simp: storage_ok_def)
    fix l
    assume l: "l < length (advance g (pre @ [i]) (int Y))"
    then have "l < symbol_items g Y" using advance_length [OF assms(4,5) packed_length [OF assms(1)], of Y] by simp
    then have "segment_base g Y + l = ?p \<longleftrightarrow> Y = X \<and> l = ?n" using segment_apart [of l g Y ?n X] n by auto
    then show "kernel_items ?s ! (segment_base g Y + l) = advance g (pre @ [i]) (int Y) ! l"
      using l k Y p unfolding snoc by (auto simp: nth_append nth_list_update split: if_splits)
  qed
  moreover have "same_search s ?s" by (simp add: same_search_def)
  ultimately show ?thesis by blast
qed

lemma item_symbol_lt: "packed g bs \<Longrightarrow> item_ok g i \<Longrightarrow> item_symbol g i < int (nsyms g)"
  using packed_grammar_ok [of g bs] by (auto simp: item_ok_def grammar_ok_def nat_less_iff)

lemma new_items_ok:
  assumes "packed g bs"
  shows "storage_ok g s \<Longrightarrow> kernels_ok g pre c s \<Longrightarrow> distinct (pre @ is) \<Longrightarrow> \<forall>j \<in> set (pre @ is). item_ok g j \<Longrightarrow>
    \<exists>c' s'. new_items g is c s = Some (c', s') \<and> storage_ok g s' \<and> kernels_ok g (pre @ is) c' s' \<and> same_search s s'"
proof (induction "is" arbitrary: pre c s)
  case (Cons i "is")
  have i: "item_ok g i" "distinct (pre @ [i])" "\<forall>j \<in> set (pre @ [i]). item_ok g j" using Cons.prems by auto
  have "\<exists>c' s'. new_items g (i # is) c s = new_items g is c' s' \<and> storage_ok g s' \<and> kernels_ok g (pre @ [i]) c' s' \<and> same_search s s'"
  proof (cases "0 < item_symbol g i")
    case True
    then obtain X where "item_symbol g i = int X" "0 < X" "X < nsyms g" using item_symbol_lt [OF assms i(1)] zero_less_imp_eq_int by fastforce
    then show ?thesis using new_items_step [OF assms Cons.prems(1,2) i(2,3)] by blast
  next
    case False
    then have "new_items g (i # is) c s = new_items g is c s"
      using i(1) assms by (auto simp: item_ok_def packed_def int_nth_def nth_opt_def nat_less_iff)
    then show ?thesis using kernels_ok_other [OF Cons.prems(2), of i] False Cons.prems(1) same_search_refl by auto
  qed
  then obtain c' s' where *: "new_items g (i # is) c s = new_items g is c' s'" "storage_ok g s'" "kernels_ok g (pre @ [i]) c' s'" "same_search s s'"
    by blast
  then show ?case using Cons.IH [of s' "pre @ [i]" c'] Cons.prems(3,4) same_search_trans [of s s'] by auto
qed (simp add: same_search_refl)

lemma new_itemsets_ok:
  assumes "packed g bs" "storage_ok g s" "item_list g (itemset s)"
  shows "\<exists>s'. new_itemsets g s = Some s' \<and> storage_ok g s' \<and> kernels_ok g (itemset s) (nshifts s') s' \<and> same_search s s'"
proof -
  let ?s = "s\<lparr>kernel_end := replicate (nsyms g) None\<rparr>"
  have "kernels_ok g [] 0 ?s" by (simp add: kernels_ok_def advance_def)
  moreover have "storage_ok g ?s" using assms(2) by (simp add: storage_ok_def)
  moreover have "distinct (itemset s)" using assms(3) by (simp add: item_list_def strict_sorted_iff)
  ultimately obtain c s' where *: "new_items g (itemset s) 0 ?s = Some (c, s')" "storage_ok g s'" "kernels_ok g (itemset s) c s'" "same_search ?s s'"
    using new_items_ok [OF assms(1), of ?s "[]" 0 "itemset s"] assms(3) by (auto simp: item_list_def)
  have "storage_ok g (s'\<lparr>nshifts := c\<rparr>)" "kernels_ok g (itemset s) c (s'\<lparr>nshifts := c\<rparr>)" "same_search s (s'\<lparr>nshifts := c\<rparr>)"
    using *(2-4) by (auto simp: storage_ok_def kernels_ok_def same_search_def)
  then show ?thesis using *(1) by (auto simp: new_itemsets_def)
qed

lemma kernel_of_ok:
  assumes "packed g bs" "storage_ok g s" "kernels_ok g is c s" "item_list g is" "0 < X" "X < nsyms g" "advance g is (int X) \<noteq> []"
  shows "kernel_of s (int X) = Some (advance g is (int X))"
    "nth_opt (kernel_items s) (segment_base g X) = Some (hd (advance g is (int X)))"
proof -
  let ?a = "advance g is (int X)"
  have k: "kernel_end s ! X = Some (segment_base g X + length ?a)" "\<And>k. k < length ?a \<Longrightarrow> kernel_items s ! (segment_base g X + k) = ?a ! k"
    using assms(3,5-7) by (auto simp: kernels_ok_def)
  have "length ?a \<le> symbol_items g X"
    using assms(4) by (intro advance_length packed_length [OF assms(1)]) (auto simp: item_list_def strict_sorted_iff)
  then have le: "segment_base g X + length ?a \<le> length (kernel_items s)" using segment_mono [OF assms(6), of g] assms(2) by (simp add: storage_ok_def)
  then have "take (length ?a) (drop (segment_base g X) (kernel_items s)) = ?a" using k(2) by (intro nth_equalityI) auto
  then show "kernel_of s (int X) = Some ?a"
    using assms(2,6) k(1) le by (simp add: kernel_of_def int_nth_def nth_opt_def storage_ok_def)
  show "nth_opt (kernel_items s) (segment_base g X) = Some (hd ?a)" using k(2) [of 0] le assms(7) by (cases ?a) auto
qed

section \<open>The sort\<close>

lemma shift_down_ok:
  "sorted xs \<Longrightarrow> \<exists>j a zs. shift_down y (length xs) (xs @ z # rest) = Some (j, a) \<and> j < length a \<and> a[j := y] = zs @ rest \<and>
     sorted zs \<and> mset zs = add_mset y (mset xs)"
proof (induction xs arbitrary: z rest rule: rev_induct)
  case (snoc v xs)
  have upd: "(xs @ v # z # rest)[Suc (length xs) := v] = xs @ v # v # rest" by (simp add: list_update_append)
  show ?case
  proof (cases "y < v")
    case True
    obtain j a zs where *: "shift_down y (length xs) (xs @ v # v # rest) = Some (j, a)" "j < length a" "a[j := y] = zs @ v # rest"
      "sorted zs" "mset zs = add_mset y (mset xs)" using snoc.IH [of v "v # rest"] snoc.prems by (auto simp: sorted_append)
    have "set zs = insert y (set xs)" using arg_cong [OF *(5), of set_mset] by simp
    then have "sorted (zs @ [v])" using *(4) snoc.prems True by (auto simp: sorted_append)
    moreover have "shift_down y (length (xs @ [v])) ((xs @ [v]) @ z # rest) = Some (j, a)"
      using *(1) upd True by (simp add: nth_opt_def upd_opt_def nth_append)
    ultimately show ?thesis using *(2,3,5) by (intro exI [of _ j] exI [of _ a] exI [of _ "zs @ [v]"]) simp
  next
    case False
    then have "sorted ((xs @ [v]) @ [y])" using snoc.prems by (auto simp: sorted_append)
    then show ?thesis using False
      by (intro exI [of _ "Suc (length xs)"] exI [of _ "xs @ v # z # rest"] exI [of _ "(xs @ [v]) @ [y]"])
        (simp add: nth_opt_def nth_append list_update_append)
  qed
qed (auto intro!: exI [of _ "[y]"])

lemma sort_symbols_ok:
  "length xs = i \<Longrightarrow> sorted xs \<Longrightarrow> n \<le> length ys \<Longrightarrow>
   \<exists>zs. sort_symbols i n (xs @ ys) = Some (zs @ drop n ys) \<and> sorted zs \<and> mset zs = mset (xs @ take n ys)"
proof (induction n arbitrary: i xs ys)
  case (Suc n)
  then obtain y ys' where ys: "ys = y # ys'" by (cases ys) auto
  obtain j a zs where *: "shift_down y (length xs) (xs @ y # ys') = Some (j, a)" "j < length a" "a[j := y] = zs @ ys'" "sorted zs"
    "mset zs = add_mset y (mset xs)" using shift_down_ok [OF Suc.prems(2)] by blast
  have "length zs = Suc i" using arg_cong [OF *(5), of size] Suc.prems(1) by simp
  then obtain zs' where zs': "sort_symbols (Suc i) n (zs @ ys') = Some (zs' @ drop n ys')" "sorted zs'" "mset zs' = mset (zs @ take n ys')"
    using Suc.IH [of zs "Suc i" ys'] *(4) Suc.prems(3) ys by auto
  have "nth_opt (xs @ y # ys') i = Some y" using Suc.prems(1) by auto
  then have "sort_symbols i (Suc n) (xs @ ys) = Some (zs' @ drop (Suc n) ys)"
    using *(1-3) zs'(1) Suc.prems(1) ys by (simp add: upd_opt_def nth_opt_def)
  then show ?case using zs'(2,3) *(5) ys by auto
qed auto

section \<open>Reductions\<close>

text \<open>The rules whose right-hand sides end before an item of the list.\<close>

definition complete_rules :: "grammar \<Rightarrow> int list \<Rightarrow> int list" where
  "complete_rules g is = map (\<lambda>i. - item_symbol g i) (filter (\<lambda>i. item_symbol g i < 0) is)"

lemma pack_items_ge: "\<forall>b \<in> set bs. \<forall>s \<in> set b. 0 \<le> s \<Longrightarrow> x \<in> set (pack_items k bs) \<Longrightarrow> - int (k + length bs) < x"
proof (induction bs arbitrary: k)
  case (Cons b bs)
  then show ?case using Cons.IH [of "Suc k"] by force
qed simp

lemma item_symbol_ge: "packed g bs \<Longrightarrow> item_ok g i \<Longrightarrow> - int (nrules g) < item_symbol g i"
  using pack_items_ge [of bs "item_symbol g i" 2] nth_mem [of "nat i" "ritem g"] by (auto simp: packed_def item_ok_def nat_less_iff)

lemma pack_items_negative: "0 < k \<Longrightarrow> \<forall>b \<in> set bs. \<forall>s \<in> set b. 0 \<le> s \<Longrightarrow> length (filter (\<lambda>x. x < 0) (pack_items k bs)) = length bs"
proof (induction bs arbitrary: k)
  case (Cons b bs)
  have "filter (\<lambda>x. x < 0) b = []" using Cons.prems(2) by (auto simp: filter_empty_conv)
  then show ?case using Cons by simp
qed simp

lemma complete_rules_length:
  assumes "packed g bs" "item_list g is"
  shows "length (complete_rules g is) \<le> nrules g"
proof -
  have "length (complete_rules g is) \<le> length (filter (\<lambda>x. x < 0) (ritem g))"
    using assms(2) items_of_kind [OF _ _ packed_length [OF assms(1)], of "is" "\<lambda>x. x < 0"]
    by (simp add: complete_rules_def item_list_def strict_sorted_iff)
  also have "\<dots> \<le> nrules g" using assms(1) pack_items_negative [of 2 bs] by (auto simp: packed_def)
  finally show ?thesis .
qed

lemma collect_reductions_ok:
  assumes "packed g bs"
  shows "\<forall>i \<in> set is. item_ok g i \<Longrightarrow> c + length (complete_rules g is) \<le> length rs \<Longrightarrow>
    \<exists>rs'. collect_reductions g is c rs = Some (c + length (complete_rules g is), rs') \<and> length rs' = length rs \<and>
      take (c + length (complete_rules g is)) rs' = take c rs @ complete_rules g is"
proof (induction "is" arbitrary: c rs)
  case (Cons i "is")
  have i: "int_nth (ritem g) i = Some (item_symbol g i)" using Cons.prems(1) assms by (auto simp: item_ok_def packed_def nat_less_iff)
  show ?case
  proof (cases "item_symbol g i < 0")
    case True
    have "nrules g < 2 ^ 15" using assms by (simp add: packed_def)
    then have "short (- item_symbol g i) = - item_symbol g i"
      using True item_symbol_ge [OF assms, of i] Cons.prems(1) by (intro short_id) auto
    moreover have cr: "complete_rules g (i # is) = - item_symbol g i # complete_rules g is" using True by (simp add: complete_rules_def)
    moreover have "take (Suc c) (rs[c := - item_symbol g i]) = take c rs @ [- item_symbol g i]"
      using Cons.prems(2) cr by (simp add: take_Suc_conv_app_nth)
    ultimately show ?thesis using Cons.IH [of "Suc c" "rs[c := - item_symbol g i]"] Cons.prems True
      by (auto simp: i upd_opt_def)
  next
    case False
    then have "complete_rules g (i # is) = complete_rules g is" by (simp add: complete_rules_def)
    then show ?thesis using Cons.IH [of c rs] Cons.prems False by (simp add: i)
  qed
qed (simp add: complete_rules_def)

section \<open>The start\<close>

lemma allocate_storage_ok:
  assumes "packed g bs"
  shows "\<exists>s'. allocate_storage g s = Some s' \<and> storage_ok g s' \<and> shift_list s' = shift_list s \<and> reduction_list s' = reduction_list s \<and>
    state_set s' = replicate (nitems g) None"
proof -
  have lt: "\<forall>x \<in> set (ritem g). x < int (nsyms g)"
    using packed_grammar_ok [OF assms] packed_length [OF assms] by (auto simp: grammar_ok_def in_set_conv_nth)
  have n: "length (ritem g) < 2 ^ 15" using assms unfolding packed_def by metis
  obtain sc where sc: "count_symbols (ritem g) (0, replicate (nsyms g) 0) = Some (length (filter (\<lambda>x. 0 \<le> x) (ritem g)), sc)"
    "length sc = nsyms g" "\<forall>X < nsyms g. sc ! X = int (symbol_items g X)"
    using count_symbols_ok [of "ritem g" "replicate (nsyms g) 0" 0] lt n by (auto simp: symbol_items_def)
  obtain base where base: "base_loop sc 0 (nsyms g) 0 (replicate (nsyms g) 0) = Some base" "length base = nsyms g"
    "\<forall>X < nsyms g. base ! X = segment_base g X"
    using base_loop_ok [of sc g 0 "nsyms g" "replicate (nsyms g) 0"] sc(2,3) by auto
  have "filter (\<lambda>x. 0 \<le> x) (ritem g) = filter (\<lambda>x. 0 \<le> x \<and> x < int (nsyms g)) (ritem g)" using lt by (intro filter_cong) auto
  then have "length (filter (\<lambda>x. 0 \<le> x) (ritem g)) = segment_base g (nsyms g)" by (simp add: segment_total)
  then show ?thesis using sc base by (simp add: allocate_storage_def allocate_itemsets_def storage_ok_def)
qed

end
