(* ===== verification/Lr0_Automaton.thy ===== *)
theory Lr0_Automaton
  imports Lr0_Kernels
begin

text \<open>
  The LR(0) automaton of a grammar, as the program is meant to compute it: kernels as sorted lists of items, the
  kernels reachable from the one of the start symbol, and the tables of shifts and reductions of a list of kernels.
\<close>

section \<open>Kernels\<close>

definition closure_list :: "grammar \<Rightarrow> int list \<Rightarrow> int list" where
  "closure_list g K = sorted_list_of_set (lr0_closure g (set K))"

definition goto_kernel :: "grammar \<Rightarrow> int list \<Rightarrow> int \<Rightarrow> int list" where
  "goto_kernel g K x = advance g (closure_list g K) x"

text \<open>The symbols that can be shifted.\<close>

definition shift_syms :: "grammar \<Rightarrow> int list \<Rightarrow> int list" where
  "shift_syms g K = sorted_list_of_set {x. 0 < x \<and> x \<in> item_symbol g ` lr0_closure g (set K)}"

definition lr0_edges :: "grammar \<Rightarrow> (int list \<times> int list) set" where
  "lr0_edges g = {(K, goto_kernel g K x) |K x. x \<in> set (shift_syms g K)}"

definition start_kernel :: "grammar \<Rightarrow> int list" where
  "start_kernel g = map ((!) (rrhs g)) (rules_of g 0)"

definition lr0_kernels :: "grammar \<Rightarrow> int list set" where
  "lr0_kernels g = {K. (start_kernel g, K) \<in> (lr0_edges g)\<^sup>*}"

section \<open>Tables\<close>

text \<open>The number of a kernel in a list of states.\<close>

definition state_no :: "int list list \<Rightarrow> int list \<Rightarrow> nat" where
  "state_no ks K = length (takeWhile (\<lambda>K'. K' \<noteq> K) ks)"

definition shift_entry :: "grammar \<Rightarrow> int list list \<Rightarrow> nat \<Rightarrow> shifts" where
  "shift_entry g ks i = \<lparr>sh_number = int i, sh_nshifts = int (length (shift_syms g (ks ! i))),
     sh_shift = map (\<lambda>x. int (state_no ks (goto_kernel g (ks ! i) x))) (shift_syms g (ks ! i))\<rparr>"

definition shift_table :: "grammar \<Rightarrow> int list list \<Rightarrow> nat \<Rightarrow> shifts list" where
  "shift_table g ks n = map (shift_entry g ks) (filter (\<lambda>i. shift_syms g (ks ! i) \<noteq> []) [0..<n])"

definition reduction_entry :: "grammar \<Rightarrow> int list list \<Rightarrow> nat \<Rightarrow> reductions" where
  "reduction_entry g ks i = (let rs = complete_rules g (closure_list g (ks ! i)) in
     \<lparr>rd_number = int i, rd_nreds = int (length rs), rd_rules = rs\<rparr>)"

definition reduction_table :: "grammar \<Rightarrow> int list list \<Rightarrow> nat \<Rightarrow> reductions list" where
  "reduction_table g ks n =
     map (reduction_entry g ks) (filter (\<lambda>i. complete_rules g (closure_list g (ks ! i)) \<noteq> []) [0..<n])"

lemma state_no_lt: "K \<in> set ks \<Longrightarrow> state_no ks K < length ks \<and> ks ! state_no ks K = K"
  unfolding state_no_def by (induction ks) auto

lemma state_no_append: "K \<in> set ks \<Longrightarrow> state_no (ks @ new) K = state_no ks K"
  unfolding state_no_def by (induction ks) auto

lemma state_no_new: "K \<notin> set ks \<Longrightarrow> state_no (ks @ [K]) K = length ks"
  unfolding state_no_def by (induction ks) auto

lemma state_no_nth: "distinct ks \<Longrightarrow> j < length ks \<Longrightarrow> state_no ks (ks ! j) = j"
  using state_no_lt [of "ks ! j" ks] nth_mem [of j ks] nth_eq_iff_index_eq [of ks] by metis

lemma shift_table_append:
  assumes "n \<le> length ks" "\<forall>i < n. \<forall>x \<in> set (shift_syms g (ks ! i)). goto_kernel g (ks ! i) x \<in> set ks"
  shows "shift_table g (ks @ new) n = shift_table g ks n"
  using assms by (auto simp: shift_table_def shift_entry_def nth_append state_no_append intro!: map_cong filter_cong)

lemma reduction_table_append: "n \<le> length ks \<Longrightarrow> reduction_table g (ks @ new) n = reduction_table g ks n"
  by (auto simp: reduction_table_def reduction_entry_def nth_append intro!: map_cong filter_cong)

lemma shift_table_Suc:
  "shift_table g ks (Suc n) = shift_table g ks n @ (if shift_syms g (ks ! n) \<noteq> [] then [shift_entry g ks n] else [])"
  by (simp add: shift_table_def)

lemma reduction_table_Suc:
  "reduction_table g ks (Suc n) =
   reduction_table g ks n @ (if complete_rules g (closure_list g (ks ! n)) \<noteq> [] then [reduction_entry g ks n] else [])"
  by (simp add: reduction_table_def)

section \<open>Well-formed kernels\<close>

lemma closure_list_eq: "sorted_wrt (<) is \<Longrightarrow> set is = lr0_closure g (set K) \<Longrightarrow> closure_list g K = is"
  unfolding closure_list_def by (metis sorted_list_of_set.idem_if_sorted_distinct strict_sorted_iff)

lemma lr0_closure_items:
  assumes "packed g bs" "item_list g K"
  shows "\<forall>i \<in> lr0_closure g (set K). item_ok g i"
proof
  fix i
  assume "i \<in> lr0_closure g (set K)"
  then consider "i \<in> set K" | r where "r \<in> new_rules g (set K)" "i = rrhs g ! r" unfolding lr0_closure_rules by blast
  then show "item_ok g i"
  proof cases
    case 1
    then show ?thesis using assms(2) by (simp add: item_list_def)
  next
    case 2
    then show ?thesis using new_rules_lt [OF 2(1)] rule_item(2,3) [OF packed_grammar_ok [OF assms(1)]]
      by (auto simp: item_ok_def nat_less_iff)
  qed
qed

lemma closure_list_props:
  assumes "packed g bs" "item_list g K"
  shows "item_list g (closure_list g K)" "set (closure_list g K) = lr0_closure g (set K)"
proof -
  have "lr0_closure g (set K) \<subseteq> {0..<int (nitems g)}" using lr0_closure_items [OF assms] by (auto simp: item_ok_def)
  then have fin: "finite (lr0_closure g (set K))" by (rule finite_subset) simp
  then show "set (closure_list g K) = lr0_closure g (set K)" by (simp add: closure_list_def)
  then show "item_list g (closure_list g K)" using lr0_closure_items [OF assms] by (simp add: item_list_def closure_list_def)
qed

lemma shift_syms_props:
  assumes "packed g bs" "item_list g K"
  shows "set (shift_syms g K) = {x. 0 < x \<and> x \<in> item_symbol g ` set (closure_list g K)}" "sorted_wrt (<) (shift_syms g K)"
  by (simp_all add: shift_syms_def closure_list_props(2) [OF assms, symmetric])

lemma shift_syms_goto:
  assumes "packed g bs" "item_list g K"
  shows "x \<in> set (shift_syms g K) \<longleftrightarrow> 0 < x \<and> goto_kernel g K x \<noteq> []"
  by (auto simp: shift_syms_props [OF assms] goto_kernel_def advance_def filter_empty_conv image_iff)

lemma advance_item_list:
  assumes "packed g bs" "item_list g is" "0 \<le> x"
  shows "item_list g (advance g is x)"
proof -
  have "sorted_wrt (<) (filter (\<lambda>i. item_symbol g i = x) is)" using assms(2) by (simp add: item_list_def sorted_wrt_filter)
  then have "sorted_wrt (<) (advance g is x)" unfolding advance_def sorted_wrt_map by (rule sorted_wrt_mono_rel [rotated]) simp
  moreover have "item_ok g i" if "i \<in> set (advance g is x)" for i
    using that assms item_advance [OF assms(1)] by (auto simp: advance_def item_list_def)
  ultimately show ?thesis by (simp add: item_list_def)
qed

lemma rules_of_sorted: "sorted_wrt (<) (rules_of g A)"
  by (simp add: rules_of_def sorted_wrt_filter)

lemma start_kernel_ok:
  assumes "packed g bs"
  shows "item_list g (start_kernel g)"
proof -
  note ok = packed_grammar_ok [OF assms]
  have r: "r < nrules g \<and> int (start_symbol g) \<le> rlhs g ! r" if "r \<in> set (rules_of g 0)" for r using that by (auto simp: rules_of_def)
  have "sorted_wrt (\<lambda>r s. rrhs g ! r < rrhs g ! s) (rules_of g 0)"
    by (rule sorted_wrt_mono_rel [OF _ rules_of_sorted]) (use r rrhs_mono [OF ok] in auto)
  moreover have "item_ok g (rrhs g ! r)" if "r \<in> set (rules_of g 0)" for r
    using r [OF that] rule_item(2,3) [OF ok, of r] by (auto simp: item_ok_def nat_less_iff)
  ultimately show ?thesis by (auto simp: item_list_def start_kernel_def sorted_wrt_map)
qed

lemma kernel_item_list:
  assumes "packed g bs" "K \<in> lr0_kernels g"
  shows "item_list g K"
proof -
  have "(start_kernel g, K) \<in> (lr0_edges g)\<^sup>*" using assms(2) by (simp add: lr0_kernels_def)
  then show ?thesis
  proof induction
    case base
    then show ?case by (rule start_kernel_ok [OF assms(1)])
  next
    case (step K K')
    then obtain x where "K' = goto_kernel g K x" "0 < x" using shift_syms_goto [OF assms(1) step.IH] by (auto simp: lr0_edges_def)
    then show ?case using advance_item_list [OF assms(1) closure_list_props(1) [OF assms(1) step.IH], of x] by (simp add: goto_kernel_def)
  qed
qed

lemma finite_kernels:
  assumes "packed g bs"
  shows "finite (lr0_kernels g)"
proof (rule finite_subset)
  show "lr0_kernels g \<subseteq> {K. set K \<subseteq> {0..<int (nitems g)} \<and> length K \<le> nitems g}"
    using kernel_item_list [OF assms] sorted_items_length [of _ g] by (auto simp: item_list_def item_ok_def)
qed (rule finite_lists_length_le, simp)

lemma goto_in_kernels: "K \<in> lr0_kernels g \<Longrightarrow> x \<in> set (shift_syms g K) \<Longrightarrow> goto_kernel g K x \<in> lr0_kernels g"
  unfolding lr0_kernels_def lr0_edges_def by (auto intro: rtrancl_into_rtrancl)

text \<open>A kernel other than the first one starts after a symbol, the first one after the end of a rule.\<close>

lemma goto_hd:
  assumes "packed g bs" "item_list g K" "x \<in> set (shift_syms g K)"
  shows "item_symbol g (hd (goto_kernel g K x) - 1) = x"
proof -
  have "hd (goto_kernel g K x) \<in> set (goto_kernel g K x)" using assms(3) shift_syms_goto [OF assms(1,2)] by (intro hd_in_set) simp
  then show ?thesis by (auto simp: goto_kernel_def advance_def)
qed

lemma pack_items_before:
  "0 < i \<Longrightarrow> k \<le> length bs \<Longrightarrow> y < 0 \<Longrightarrow> (y # pack_items i bs) ! (pack_starts j bs ! k - j) < 0"
proof (induction bs arbitrary: i j k y)
  case (Cons b bs)
  show ?case
  proof (cases k)
    case (Suc l)
    let ?j = "Suc (j + length b)"
    obtain m where m: "pack_starts ?j bs ! l = ?j + m" using pack_starts_ge [of l bs ?j] Cons.prems(2) Suc le_Suc_ex by force
    have "(- int i # pack_items (Suc i) bs) ! m < 0" using Cons.IH [of "Suc i" l "- int i" ?j] Cons.prems Suc m by simp
    then have "(y # b @ - int i # pack_items (Suc i) bs) ! Suc (length b + m) < 0" by (simp add: nth_append)
    then show ?thesis using Suc m by (simp add: add.commute)
  qed (use Cons.prems(3) in simp)
qed simp

lemma start_item_before:
  assumes "packed g bs" "i \<in> set (start_kernel g)"
  shows "item_symbol g (i - 1) < 0"
proof -
  obtain r where r: "r < nrules g" "int (start_symbol g) \<le> rlhs g ! r" "i = rrhs g ! r"
    using assms(2) by (auto simp: start_kernel_def rules_of_def)
  have "0 < start_symbol g" "nrules g = 2 + length bs" using assms(1) by (auto simp: packed_def)
  then obtain k where k: "r = Suc (Suc k)" "k < length bs"
    using r(1,2) packed_rlhs(1,2) [OF assms(1)] by (cases r rule: rule_number_cases) auto
  then have "i = int (pack_starts 1 bs ! k)" using r(3) packed_rrhs(3) [OF assms(1), of k] by simp
  then have "nat (i - 1) = pack_starts 1 bs ! k - 1" by simp
  then show ?thesis using pack_items_before [of 2 k bs "- 1" 1] k(2) assms(1) by (simp add: packed_def)
qed

lemma goto_not_start:
  assumes "packed g bs" "item_list g K" "x \<in> set (shift_syms g K)"
  shows "goto_kernel g K x \<noteq> start_kernel g"
proof
  assume eq: "goto_kernel g K x = start_kernel g"
  have "goto_kernel g K x \<noteq> []" "0 < x" using shift_syms_goto [OF assms(1,2)] assms(3) by auto
  then show False using goto_hd [OF assms] start_item_before [OF assms(1), of "hd (start_kernel g)"] eq by auto
qed

end
