(* ===== verification/Lr0_Search.thy ===== *)
theory Lr0_Search
  imports Lr0_Automaton
begin

text \<open>
  The search of \<open>generate_states\<close> finds the LR(0) automaton: every kernel that is reachable gets one state, hashed by its
  first item, and the tables of shifts and reductions are those of the automaton.
\<close>

section \<open>Hash chains\<close>

fun chain :: "core list \<Rightarrow> nat option \<Rightarrow> nat list \<Rightarrow> bool" where
  "chain cs p [] \<longleftrightarrow> p = None"
| "chain cs p (j # js) \<longleftrightarrow> p = Some j \<and> j < length cs \<and> chain cs (c_link (cs ! j)) js"

lemma chain_cong: "\<forall>j \<in> set js. j < length cs' \<and> c_link (cs' ! j) = c_link (cs ! j) \<Longrightarrow> chain cs p js \<Longrightarrow> chain cs' p js"
  by (induction js arbitrary: p) auto

lemma chain_append:
  "chain cs p js \<Longrightarrow> js \<noteq> [] \<Longrightarrow> distinct js \<Longrightarrow> n < length cs \<Longrightarrow> n \<notin> set js \<Longrightarrow> c_link (cs ! n) = None \<Longrightarrow>
   chain (cs[last js := (cs ! last js)\<lparr>c_link := Some n\<rparr>]) p (js @ [n])"
proof (induction js arbitrary: p)
  case (Cons j js)
  show ?case
  proof (cases "js = []")
    case True
    then show ?thesis using Cons.prems by auto
  next
    case False
    then have "j \<noteq> last js" using Cons.prems(3) by auto
    then show ?thesis using Cons.IH [of "c_link (cs ! j)"] Cons.prems False by simp
  qed
qed simp

section \<open>The states found so far\<close>

definition kernel_list :: "lr0_state \<Rightarrow> int list list" where
  "kernel_list s = map c_items (cores s)"

text \<open>One core: its number, its successor, its items.\<close>

definition core_ok :: "grammar \<Rightarrow> nat \<Rightarrow> nat \<Rightarrow> core \<Rightarrow> bool" where
  "core_ok g n i c \<longleftrightarrow> c_number c = int i \<and> c_next c = (if Suc i < n then Some (Suc i) else None) \<and>
     c_nitems c = int (length (c_items c)) \<and> c_items c \<in> lr0_kernels g \<and>
     (if i = 0 then c_items c = start_kernel g
      else c_items c \<noteq> [] \<and> c_accessing_symbol c = item_symbol g (hd (c_items c) - 1))"

definition bucket_states :: "core list \<Rightarrow> int \<Rightarrow> nat set" where
  "bucket_states cs key = {j. 0 < j \<and> j < length cs \<and> hd (c_items (cs ! j)) = key}"

definition search_ok :: "grammar \<Rightarrow> lr0_state \<Rightarrow> bool" where
  "search_ok g s \<longleftrightarrow> cores s \<noteq> [] \<and> nstates s = length (cores s) \<and> nstates s \<le> MAXSHORT \<and> last_state s = length (cores s) - 1 \<and>
     (\<forall>i < length (cores s). core_ok g (length (cores s)) i (cores s ! i)) \<and> distinct (kernel_list s) \<and>
     length (state_set s) = nitems g \<and>
     (\<forall>key < nitems g. \<exists>js. chain (cores s) (state_set s ! key) js \<and> distinct js \<and> set js = bucket_states (cores s) (int key))"

text \<open>What the search for a state leaves alone.\<close>

definition same_storage :: "lr0_state \<Rightarrow> lr0_state \<Rightarrow> bool" where
  "same_storage s t \<longleftrightarrow> kernel_base t = kernel_base s \<and> kernel_end t = kernel_end s \<and> kernel_items t = kernel_items s \<and>
     shift_symbol t = shift_symbol s \<and> nshifts t = nshifts s \<and> redset t = redset s \<and> length (shiftset t) = length (shiftset s) \<and>
     length (state_set t) = length (state_set s) \<and>
     shift_list t = shift_list s \<and> reduction_list t = reduction_list s \<and> itemset t = itemset s \<and> this_state t = this_state s"

lemma same_items_eq: "length K = length items \<Longrightarrow> same_items K items = Some (K = items)"
  by (induction K items rule: same_items.induct) auto

text \<open>Adding a core for a kernel.\<close>

definition add_core :: "grammar \<Rightarrow> int list \<Rightarrow> lr0_state \<Rightarrow> lr0_state" where
  "add_core g K s = (let n = length (cores s) in
     s\<lparr>cores := (cores s)[n - 1 := (cores s ! (n - 1))\<lparr>c_next := Some n\<rparr>] @
         [\<lparr>c_next = None, c_link = None, c_number = int n, c_accessing_symbol = item_symbol g (hd K - 1), c_nitems = int (length K), c_items = K\<rparr>],
       last_state := n, nstates := Suc n\<rparr>)"

text \<open>A kernel that is looked for.\<close>

definition wanted :: "grammar \<Rightarrow> int list \<Rightarrow> int \<Rightarrow> lr0_state \<Rightarrow> bool" where
  "wanted g K x s \<longleftrightarrow> K \<in> lr0_kernels g \<and> K \<noteq> [] \<and> K \<noteq> start_kernel g \<and> 0 < x \<and> x < int (nsyms g) \<and>
     item_symbol g (hd K - 1) = x \<and> kernel_of s x = Some K \<and>
     (\<exists>base. int_nth (kernel_base s) x = Some base \<and> nth_opt (kernel_items s) base = Some (hd K))"

lemma new_state_ok:
  assumes "packed g bs" "search_ok g s" "wanted g K x s"
  shows "new_state x s = Some (if nstates s < MAXSHORT then Inr (length (cores s), add_core g K s) else Inl Too_many_states)"
proof (cases "nstates s < MAXSHORT")
  case True
  have "item_list g K" using kernel_item_list [OF assms(1)] assms(3) by (simp add: wanted_def)
  then have "length K \<le> nitems g" by (auto simp: item_list_def intro!: sorted_items_length)
  moreover have "nitems g < 2 ^ 15" "nsyms g < 2 ^ 15" using assms(1) by (auto simp: packed_def)
  ultimately have "short (int (length K)) = int (length K)" "short (int (nstates s)) = int (nstates s)" "short x = x"
    using True assms(3) by (auto simp: MAXSHORT_def wanted_def intro!: short_id)
  then show ?thesis using True assms(2,3)
    by (simp add: new_state_def add_core_def search_ok_def wanted_def Let_def nth_opt_def)
qed (simp add: new_state_def)

lemma find_state_step:
  assumes "c_nitems (cores s ! sp) = int (length (c_items (cores s ! sp)))" "sp < length (cores s)"
  shows "find_state K x sp s = (if c_items (cores s ! sp) = K then Some (Inr (sp, s)) else (case c_link (cores s ! sp) of
      Some p \<Rightarrow> find_state K x p s
    | None \<Rightarrow> Option.bind (new_state x s) (\<lambda>r. case r of
        Inl e \<Rightarrow> Some (Inl e)
      | Inr (p, s) \<Rightarrow> Option.bind (nth_opt (cores s) sp) (\<lambda>c. Some (Inr (p, s\<lparr>cores := (cores s)[sp := c\<lparr>c_link := Some p\<rparr>]\<rparr>))))))"
proof -
  let ?c = "cores s ! sp"
  have found: "(if c_nitems ?c = int (length K) then same_items K (c_items ?c) else Some False) = Some (c_items ?c = K)"
    using assms(1) same_items_eq [of K "c_items ?c"] by auto
  have c: "nth_opt (cores s) sp = Some ?c" using assms(2) by simp
  show ?thesis by (subst find_state.simps) (simp only: c found Option.bind.bind_lunit)
qed

lemma find_state_eq:
  assumes "packed g bs" "search_ok g s" "wanted g K x s"
  shows "chain (cores s) (Some sp) js \<Longrightarrow> set js \<subseteq> {..<length (cores s)} \<Longrightarrow>
    find_state K x sp s = (case find (\<lambda>j. c_items (cores s ! j) = K) js of
        Some j \<Rightarrow> Some (Inr (j, s))
      | None \<Rightarrow> if nstates s < MAXSHORT
          then Some (Inr (length (cores s), (add_core g K s)\<lparr>cores := (cores (add_core g K s))
            [last js := (cores (add_core g K s) ! last js)\<lparr>c_link := Some (length (cores s))\<rparr>]\<rparr>))
          else Some (Inl Too_many_states))"
proof (induction js arbitrary: sp)
  case (Cons j js)
  then have j: "j = sp" "j < length (cores s)" "chain (cores s) (c_link (cores s ! j)) js" by auto
  have c: "c_nitems (cores s ! sp) = int (length (c_items (cores s ! sp)))" "sp < length (cores s)"
    using assms(2) j(1,2) by (auto simp: search_ok_def core_ok_def)
  show ?case
  proof (cases js)
    case Nil
    then have "c_link (cores s ! j) = None" using j(3) by simp
    moreover have "j < length (cores (add_core g K s))" using j(2) by (simp add: add_core_def Let_def)
    ultimately show ?thesis using j(1) Nil new_state_ok [OF assms] unfolding find_state_step [OF c] by (simp add: nth_opt_def)
  next
    case (Cons k ks)
    then have "c_link (cores s ! j) = Some k" using j(3) by simp
    moreover have last: "last (j # js) = last js" using Cons by simp
    ultimately show ?thesis using j Cons Cons.IH [of k] Cons.prems(2) unfolding find_state_step [OF c] last by simp
  qed
qed simp

section \<open>A state more\<close>

lemma add_core_simps [simp]:
  "length (cores (add_core g K s)) = Suc (length (cores s))" "state_set (add_core g K s) = state_set s"
  "nstates (add_core g K s) = Suc (length (cores s))" "last_state (add_core g K s) = length (cores s)"
  "same_storage s (add_core g K s)"
  by (simp_all add: add_core_def Let_def same_storage_def)

lemma map_update_same: "f v = f (xs ! i) \<Longrightarrow> map f (xs[i := v]) = map f xs"
  by (metis list_update_beyond list_update_id map_update not_le nth_map)

lemma add_core_items: "map c_items (cores (add_core g K s)) = map c_items (cores s) @ [K]"
  by (simp add: add_core_def Let_def map_update_same)

lemma add_core_link:
  "j < length (cores s) \<Longrightarrow> c_link (cores (add_core g K s) ! j) = c_link (cores s ! j)"
  "c_link (cores (add_core g K s) ! length (cores s)) = None"
  by (simp_all add: add_core_def Let_def nth_append nth_list_update)

lemma add_core_ok:
  assumes "search_ok g s" "wanted g K x s" "i < Suc (length (cores s))"
  shows "core_ok g (Suc (length (cores s))) i (cores (add_core g K s) ! i)"
proof (cases "i = length (cores s)")
  case True
  then show ?thesis using assms(1,2) by (simp add: core_ok_def add_core_def Let_def search_ok_def wanted_def nth_append)
next
  case False
  then have "core_ok g (length (cores s)) i (cores s ! i)" using assms(1,3) by (simp add: search_ok_def)
  then show ?thesis using False assms(3) by (auto simp: core_ok_def add_core_def Let_def nth_append nth_list_update)
qed

lemma bucket_states_snoc:
  assumes "map c_items cs' = map c_items cs @ [K]" "cs \<noteq> []"
  shows "bucket_states cs' key = bucket_states cs key \<union> (if hd K = key then {length cs} else {})"
proof -
  have len: "length cs' = Suc (length cs)" using arg_cong [OF assms(1), of length] by simp
  have "c_items (cs' ! j) = (map c_items cs @ [K]) ! j" if "j < length cs'" for j
    using that assms(1) nth_map [of j cs' c_items] by simp
  then show ?thesis using len assms(2) by (auto simp: bucket_states_def nth_append less_Suc_eq)
qed

text \<open>The new core is put at the end of the chain of its bucket.\<close>

lemma search_ok_add:
  assumes "search_ok g s" "wanted g K x s" "nstates s < MAXSHORT" "K \<notin> set (kernel_list s)"
    and cs: "map c_items cs = map c_items (cores s) @ [K]" "\<forall>i < Suc (length (cores s)). core_ok g (Suc (length (cores s))) i (cs ! i)"
    and sets: "length st = nitems g" "\<forall>key < nitems g. int key \<noteq> hd K \<longrightarrow> st ! key = state_set s ! key"
    and links: "\<forall>j < length (cores s). hd (c_items (cores s ! j)) \<noteq> hd K \<or> j = 0 \<longrightarrow> c_link (cs ! j) = c_link (cores s ! j)"
    and new: "chain cs (st ! nat (hd K)) js" "distinct js" "set js = insert (length (cores s)) (bucket_states (cores s) (hd K))"
  shows "search_ok g ((add_core g K s)\<lparr>cores := cs, state_set := st\<rparr>)"
  unfolding search_ok_def
proof (intro conjI allI impI)
  let ?n = "length (cores s)"
  let ?s = "(add_core g K s)\<lparr>cores := cs, state_set := st\<rparr>"
  have len: "length cs = Suc ?n" using arg_cong [OF cs(1), of length] by simp
  show "cores ?s \<noteq> []" "nstates ?s = length (cores ?s)" "last_state ?s = length (cores ?s) - 1" "length (state_set ?s) = nitems g"
    using len sets(1) by auto
  show "nstates ?s \<le> MAXSHORT" using assms(1,3) by (simp add: search_ok_def)
  show "core_ok g (length (cores ?s)) i (cores ?s ! i)" if "i < length (cores ?s)" for i using cs(2) len that by simp
  show "distinct (kernel_list ?s)" using assms(1,4) cs(1) by (simp add: kernel_list_def search_ok_def)
  fix key
  assume key: "key < nitems g"
  have bucket: "bucket_states (cores ?s) (int key) = bucket_states (cores s) (int key) \<union> (if hd K = int key then {?n} else {})"
    using bucket_states_snoc [OF cs(1)] assms(1) by (simp add: search_ok_def)
  show "\<exists>js. chain (cores ?s) (state_set ?s ! key) js \<and> distinct js \<and> set js = bucket_states (cores ?s) (int key)"
  proof (cases "hd K = int key")
    case True
    then show ?thesis using new bucket by auto
  next
    case False
    obtain ks where ks: "chain (cores s) (state_set s ! key) ks" "distinct ks" "set ks = bucket_states (cores s) (int key)"
      using assms(1) key unfolding search_ok_def by blast
    have "\<forall>j \<in> set ks. j < length cs \<and> c_link (cs ! j) = c_link (cores s ! j)"
      using links False ks(3) len by (auto simp: bucket_states_def)
    then have "chain cs (st ! key) ks" using chain_cong ks(1) sets(2) key False by metis
    then show ?thesis using ks bucket False by auto
  qed
qed

section \<open>\<open>get_state\<close>\<close>

text \<open>The two ways a new core is linked in.\<close>

lemma search_ok_first:
  assumes "search_ok g s" "wanted g K x s" "nstates s < MAXSHORT" "K \<notin> set (kernel_list s)" "item_ok g (hd K)"
    "bucket_states (cores s) (hd K) = {}"
  shows "search_ok g ((add_core g K s)\<lparr>state_set := (state_set s)[nat (hd K) := Some (length (cores s))]\<rparr>)"
proof -
  let ?st = "(state_set s)[nat (hd K) := Some (length (cores s))]"
  have len: "length (state_set s) = nitems g" using assms(1) by (simp add: search_ok_def)
  have key: "nat (hd K) < nitems g" using assms(5) by (auto simp: item_ok_def nat_less_iff)
  have "search_ok g ((add_core g K s)\<lparr>cores := cores (add_core g K s), state_set := ?st\<rparr>)"
    by (rule search_ok_add [OF assms(1-4), where js = "[length (cores s)]"])
      (use len key assms(5,6) in \<open>auto simp: add_core_items add_core_ok [OF assms(1,2)] add_core_link nth_list_update item_ok_def\<close>)
  then show ?thesis by simp
qed

lemma search_ok_last:
  assumes "search_ok g s" "wanted g K x s" "nstates s < MAXSHORT" "K \<notin> set (kernel_list s)" "item_ok g (hd K)"
    and js: "chain (cores s) (state_set s ! nat (hd K)) js" "distinct js" "set js = bucket_states (cores s) (hd K)" "js \<noteq> []"
  shows "search_ok g ((add_core g K s)\<lparr>cores := (cores (add_core g K s))
    [last js := (cores (add_core g K s) ! last js)\<lparr>c_link := Some (length (cores s))\<rparr>]\<rparr>)" (is "search_ok g (_\<lparr>cores := ?cs\<rparr>)")
proof -
  let ?c = "cores (add_core g K s)"
  have lt: "\<forall>j \<in> set js. 0 < j \<and> j < length (cores s) \<and> hd (c_items (cores s ! j)) = hd K" using js(3) by (auto simp: bucket_states_def)
  have last: "last js \<in> set js" using js(4) by simp
  have "chain ?c (state_set s ! nat (hd K)) js" using js(1) by (rule chain_cong [rotated]) (use lt add_core_link(1) in auto)
  then have chain: "chain ?cs (state_set s ! nat (hd K)) (js @ [length (cores s)])"
    by (rule chain_append) (use js lt add_core_link(2) in auto)
  have "core_ok g (Suc (length (cores s))) i (?cs ! i)" if "i < Suc (length (cores s))" for i
    using add_core_ok [OF assms(1,2) that] that by (cases "i = last js") (auto simp: core_ok_def)
  then have "search_ok g ((add_core g K s)\<lparr>cores := ?cs, state_set := state_set s\<rparr>)"
    by (intro search_ok_add [OF assms(1-4) _ _ _ _ _ chain])
      (use assms(1) lt last js in \<open>auto simp: add_core_items map_update_same search_ok_def add_core_link nth_list_update\<close>)
  then show ?thesis by (simp add: add_core_def Let_def)
qed

lemma get_state_eq:
  assumes "search_ok g s" "wanted g K x s" "item_ok g (hd K)"
  shows "get_state g x s = Option.bind (case state_set s ! nat (hd K) of
        Some sp \<Rightarrow> find_state K x sp s
      | None \<Rightarrow> Option.bind (new_state x s) (\<lambda>r. case r of
          Inl e \<Rightarrow> Some (Inl e)
        | Inr (p, s) \<Rightarrow> Option.bind (int_upd (state_set s) (hd K) (Some p)) (\<lambda>st. Some (Inr (p, s\<lparr>state_set := st\<rparr>)))))
    (\<lambda>r. case r of Inl e \<Rightarrow> Some (Inl e) | Inr (sp, s) \<Rightarrow> Option.bind (nth_opt (cores s) sp) (\<lambda>c. Some (Inr (c_number c, s))))"
proof -
  obtain base where "int_nth (kernel_base s) x = Some base" "nth_opt (kernel_items s) base = Some (hd K)" "kernel_of s x = Some K"
    using assms(2) unfolding wanted_def by blast
  moreover have "int_nth (state_set s) (hd K) = Some (state_set s ! nat (hd K))"
    using assms(1,3) by (auto simp: search_ok_def item_ok_def nat_less_iff)
  ultimately show ?thesis using assms(3) unfolding get_state_def item_ok_def by (simp only: Option.bind.bind_lunit not_True_eq_False if_False simp_thms)
qed

text \<open>The chain of a bucket, and whether the kernel has a state in it.\<close>

lemma bucket_chain:
  assumes "search_ok g s" "item_ok g (hd K)"
  obtains js where "chain (cores s) (state_set s ! nat (hd K)) js" "distinct js" "set js = bucket_states (cores s) (hd K)"
  using assms unfolding search_ok_def by (metis int_nat_eq item_ok_def nat_less_iff)

lemma bucket_member:
  assumes "search_ok g s" "K \<noteq> start_kernel g" "set js = bucket_states (cores s) (hd K)"
  shows "K \<in> set (kernel_list s) \<longleftrightarrow> (\<exists>j \<in> set js. c_items (cores s ! j) = K)"
proof
  assume "K \<in> set (kernel_list s)"
  then obtain j where j: "j < length (cores s)" "c_items (cores s ! j) = K" by (auto simp: kernel_list_def in_set_conv_nth)
  then have "j \<noteq> 0" using assms(1,2) by (auto simp: search_ok_def core_ok_def split: if_splits)
  then show "\<exists>j \<in> set js. c_items (cores s ! j) = K" using j assms(3) by (auto simp: bucket_states_def)
qed (use assms(3) in \<open>auto simp: kernel_list_def bucket_states_def\<close>)

text \<open>A kernel that has a state.\<close>

lemma get_state_known:
  assumes "packed g bs" "search_ok g s" "wanted g K x s" "item_ok g (hd K)" "K \<in> set (kernel_list s)"
    and js: "chain (cores s) (state_set s ! nat (hd K)) js" "set js = bucket_states (cores s) (hd K)"
  shows "get_state g x s = Some (Inr (int (state_no (kernel_list s) K), s))"
proof -
  have s: "distinct (kernel_list s)" "\<And>i. i < length (cores s) \<Longrightarrow> core_ok g (length (cores s)) i (cores s ! i)"
    using assms(2) by (auto simp: search_ok_def)
  have member: "\<exists>j \<in> set js. c_items (cores s ! j) = K" using bucket_member [OF assms(2) _ js(2)] assms(3,5) by (simp add: wanted_def)
  then obtain j where j: "find (\<lambda>j. c_items (cores s ! j) = K) js = Some j" "j \<in> set js" "c_items (cores s ! j) = K"
    using find_None_iff [of "\<lambda>j. c_items (cores s ! j) = K" js] find_Some_iff [of "\<lambda>j. c_items (cores s ! j) = K" js]
    by (metis not_None_eq nth_mem)
  have lt: "j < length (cores s)" using j(2) js(2) by (simp add: bucket_states_def)
  obtain sp where sp: "state_set s ! nat (hd K) = Some sp" using j(2) js(1) by (cases js) auto
  have "find_state K x sp s = Some (Inr (j, s))"
    using find_state_eq [OF assms(1-3), of sp js] js sp j(1) by (auto simp: bucket_states_def)
  moreover have "c_number (cores s ! j) = int (state_no (kernel_list s) K)"
    using s(2) [OF lt] state_no_nth [OF s(1), of j] lt j(3) by (simp add: core_ok_def kernel_list_def)
  ultimately show ?thesis using get_state_eq [OF assms(2-4)] sp lt by (simp add: nth_opt_def)
qed

text \<open>A kernel that has none: the state with the new core, at the head or at the end of the chain.\<close>

definition link_core :: "grammar \<Rightarrow> int list \<Rightarrow> nat list \<Rightarrow> lr0_state \<Rightarrow> lr0_state" where
  "link_core g K js s = (if js = [] then (add_core g K s)\<lparr>state_set := (state_set s)[nat (hd K) := Some (length (cores s))]\<rparr>
     else (add_core g K s)\<lparr>cores := (cores (add_core g K s))
       [last js := (cores (add_core g K s) ! last js)\<lparr>c_link := Some (length (cores s))\<rparr>]\<rparr>)"

lemma get_state_unknown:
  assumes "packed g bs" "search_ok g s" "wanted g K x s" "item_ok g (hd K)" "K \<notin> set (kernel_list s)"
    and js: "chain (cores s) (state_set s ! nat (hd K)) js" "set js = bucket_states (cores s) (hd K)"
  shows "get_state g x s = (if nstates s < MAXSHORT
    then Option.bind (nth_opt (cores (link_core g K js s)) (length (cores s))) (\<lambda>c. Some (Inr (c_number c, link_core g K js s)))
    else Some (Inl Too_many_states))"
proof (cases js)
  case Nil
  then have "state_set s ! nat (hd K) = None" "length (state_set s) = nitems g" using js(1) assms(2) by (auto simp: search_ok_def)
  then show ?thesis using Nil get_state_eq [OF assms(2-4)] new_state_ok [OF assms(1-3)] assms(4)
    by (simp add: link_core_def int_upd_def upd_opt_def item_ok_def nat_less_iff)
next
  case (Cons sp ks)
  have "find (\<lambda>j. c_items (cores s ! j) = K) js = None"
    using bucket_member [OF assms(2) _ js(2)] assms(3,5) by (simp add: find_None_iff wanted_def)
  moreover have "state_set s ! nat (hd K) = Some sp" "set js \<subseteq> {..<length (cores s)}"
    using js Cons by (auto simp: bucket_states_def)
  ultimately show ?thesis using find_state_eq [OF assms(1-3), of sp js] js(1) Cons get_state_eq [OF assms(2-4)]
    by (simp add: link_core_def)
qed

lemma get_state_ok:
  assumes "packed g bs" "search_ok g s" "wanted g K x s"
  shows "(\<exists>s' new. get_state g x s = Some (Inr (int (state_no (kernel_list s') K), s')) \<and> search_ok g s' \<and> same_storage s s' \<and>
      shiftset s' = shiftset s \<and> kernel_list s' = kernel_list s @ new \<and> K \<in> set (kernel_list s')) \<or>
    get_state g x s = Some (Inl Too_many_states) \<and> nstates s = MAXSHORT \<and> K \<notin> set (kernel_list s)"
proof -
  have key: "item_ok g (hd K)" using kernel_item_list [OF assms(1), of K] assms(3) by (simp add: item_list_def wanted_def)
  obtain js where js: "chain (cores s) (state_set s ! nat (hd K)) js" "distinct js" "set js = bucket_states (cores s) (hd K)"
    using bucket_chain [OF assms(2) key] by blast
  show ?thesis
  proof (cases "K \<in> set (kernel_list s)")
    case True
    then show ?thesis using get_state_known [OF assms key True js(1,3)] assms(2) by (auto simp: same_storage_def)
  next
    case False
    note unknown = get_state_unknown [OF assms key False js(1,3)]
    let ?s = "link_core g K js s"
    show ?thesis
    proof (cases "nstates s < MAXSHORT")
      case True
      have search: "search_ok g ?s"
        using search_ok_first [OF assms(2,3) True False key] search_ok_last [OF assms(2,3) True False key js] js(3)
        by (auto simp: link_core_def)
      moreover have list: "kernel_list ?s = kernel_list s @ [K]" by (simp add: link_core_def kernel_list_def add_core_items map_update_same)
      moreover have "same_storage s ?s" "shiftset ?s = shiftset s" by (simp_all add: link_core_def same_storage_def add_core_def Let_def)
      moreover have n: "length (cores s) < length (cores ?s)" using arg_cong [OF list, of length] by (simp add: kernel_list_def)
      moreover have "c_number (cores ?s ! length (cores s)) = int (state_no (kernel_list ?s) K)"
        using search n False by (simp add: list state_no_new search_ok_def core_ok_def) (simp add: kernel_list_def)
      ultimately show ?thesis using unknown True by (auto simp: nth_opt_def)
    next
      case no_room: False
      moreover have "nstates s \<le> MAXSHORT" using assms(2) by (simp add: search_ok_def)
      ultimately show ?thesis using unknown False by simp
    qed
  qed
qed

end
