(* ===== verification/Lr0_Generate.thy ===== *)
theory Lr0_Generate
  imports Lr0_Search
begin

text \<open>
  From one state to the whole automaton: the transitions of a state, the loop over the states, and the theorem on
  \<open>lr0\<close>.
\<close>

section \<open>The transitions of a state\<close>

lemma same_storage_refl: "same_storage s s"
  by (simp add: same_storage_def)

lemma same_storage_trans: "same_storage s t \<Longrightarrow> same_storage t u \<Longrightarrow> same_storage s u"
  by (simp add: same_storage_def)

lemma same_storage_ok: "same_storage s t \<Longrightarrow> storage_ok g s \<Longrightarrow> storage_ok g t"
  by (simp add: same_storage_def storage_ok_def)

lemma same_storage_kernels: "same_storage s t \<Longrightarrow> kernels_ok g is c s \<Longrightarrow> kernels_ok g is c t"
  by (simp add: same_storage_def kernels_ok_def)

lemma search_ok_cong: "cores t = cores s \<Longrightarrow> state_set t = state_set s \<Longrightarrow> last_state t = last_state s \<Longrightarrow> nstates t = nstates s \<Longrightarrow>
  search_ok g t = search_ok g s"
  by (simp add: search_ok_def kernel_list_def)

lemma kernels_found: "search_ok g s \<Longrightarrow> set (kernel_list s) \<subseteq> lr0_kernels g"
  by (auto simp: search_ok_def core_ok_def kernel_list_def in_set_conv_nth)

lemma too_many_states:
  assumes "packed g bs" "search_ok g s" "nstates s = MAXSHORT" "K \<in> lr0_kernels g" "K \<notin> set (kernel_list s)"
  shows "MAXSHORT < card (lr0_kernels g)"
proof -
  have "distinct (kernel_list s)" "length (kernel_list s) = MAXSHORT" using assms(2,3) by (simp_all add: search_ok_def kernel_list_def)
  then have "card (set (kernel_list s)) = MAXSHORT" using distinct_card by fastforce
  moreover have "set (kernel_list s) \<subset> lr0_kernels g" using kernels_found [OF assms(2)] assms(4,5) by blast
  ultimately show ?thesis using psubset_card_mono [OF finite_kernels [OF assms(1)]] by metis
qed

lemma wanted_goto:
  assumes "packed g bs" "storage_ok g s" "kernels_ok g (closure_list g K) c s" "K \<in> lr0_kernels g" "x \<in> set (shift_syms g K)"
  shows "wanted g (goto_kernel g K x) x s"
proof -
  note K = kernel_item_list [OF assms(1,4)]
  have cl: "item_list g (closure_list g K)" by (rule closure_list_props(1) [OF assms(1) K])
  have x: "0 < x" "goto_kernel g K x \<noteq> []" using assms(5) shift_syms_goto [OF assms(1) K] by auto
  have "x < int (nsyms g)"
    using assms(5) item_symbol_lt [OF assms(1)] cl unfolding shift_syms_props(1) [OF assms(1) K] by (auto simp: item_list_def)
  then obtain X where X: "x = int X" "0 < X" "X < nsyms g" using x(1) zero_less_imp_eq_int by fastforce
  have "kernel_of s x = Some (goto_kernel g K x)" "nth_opt (kernel_items s) (segment_base g X) = Some (hd (goto_kernel g K x))"
    using kernel_of_ok [OF assms(1-3) cl X(2,3)] x(2) X(1) by (simp_all add: goto_kernel_def)
  moreover have "int_nth (kernel_base s) x = Some (segment_base g X)" using assms(2) X by (auto simp: storage_ok_def)
  ultimately show ?thesis
    using goto_in_kernels [OF assms(4,5)] x goto_not_start [OF assms(1) K assms(5)] goto_hd [OF assms(1) K assms(5)] \<open>x < int (nsyms g)\<close>
    by (auto simp: wanted_def)
qed

text \<open>The entries of \<open>shiftset\<close> from place \<open>i\<close> on.\<close>

definition shifts_filled :: "grammar \<Rightarrow> int list \<Rightarrow> nat \<Rightarrow> lr0_state \<Rightarrow> bool" where
  "shifts_filled g K i s \<longleftrightarrow> (\<forall>k. i \<le> k \<and> k < length (shift_syms g K) \<longrightarrow>
     goto_kernel g K (shift_syms g K ! k) \<in> set (kernel_list s) \<and>
     shiftset s ! k = int (state_no (kernel_list s) (goto_kernel g K (shift_syms g K ! k))))"

lemma shifts_filled_step:
  assumes "shifts_filled g K (Suc i) s" "goto_kernel g K (shift_syms g K ! i) \<in> set (kernel_list s)"
    "shiftset s ! i = int (state_no (kernel_list s) (goto_kernel g K (shift_syms g K ! i)))"
  shows "shifts_filled g K i s"
  using assms unfolding shifts_filled_def by (metis Suc_le_eq le_eq_less_or_eq)

lemma fill_shiftset_ok:
  assumes "packed g bs" "K \<in> lr0_kernels g"
  shows "search_ok g s \<Longrightarrow> storage_ok g s \<Longrightarrow> kernels_ok g (closure_list g K) c s \<Longrightarrow> i + n = length (shift_syms g K) \<Longrightarrow>
    length (shift_syms g K) \<le> nsyms g \<Longrightarrow> take (length (shift_syms g K)) (shift_symbol s) = shift_syms g K \<Longrightarrow>
    (\<exists>s' new. fill_shiftset g i n s = Some (Inr s') \<and> search_ok g s' \<and> same_storage s s' \<and> kernel_list s' = kernel_list s @ new \<and>
       shifts_filled g K i s' \<and> (\<forall>k < i. shiftset s' ! k = shiftset s ! k)) \<or>
    fill_shiftset g i n s = Some (Inl Too_many_states) \<and> MAXSHORT < card (lr0_kernels g)"
proof (induction n arbitrary: i s)
  case 0
  then show ?case by (auto simp: same_storage_refl shifts_filled_def)
next
  case (Suc n)
  let ?xs = "shift_syms g K"
  let ?x = "?xs ! i"
  let ?K = "goto_kernel g K ?x"
  have i: "i < length ?xs" "?x \<in> set ?xs" using Suc.prems(4) by auto
  have sym: "nth_opt (shift_symbol s) i = Some ?x" using arg_cong [OF Suc.prems(6), of "\<lambda>a. a ! i"] i(1) Suc.prems(2,5)
    by (simp add: storage_ok_def)
  have w: "wanted g ?K ?x s" by (rule wanted_goto [OF assms(1) Suc.prems(2,3) assms(2) i(2)])
  from get_state_ok [OF assms(1) Suc.prems(1) w] consider
      s1 new where "get_state g ?x s = Some (Inr (int (state_no (kernel_list s1) ?K), s1))" "search_ok g s1" "same_storage s s1"
        "shiftset s1 = shiftset s" "kernel_list s1 = kernel_list s @ new" "?K \<in> set (kernel_list s1)"
    | "get_state g ?x s = Some (Inl Too_many_states)" "nstates s = MAXSHORT" "?K \<notin> set (kernel_list s)" by blast
  then show ?case
  proof cases
    case 1
    let ?s = "s1\<lparr>shiftset := (shiftset s1)[i := int (state_no (kernel_list s1) ?K)]\<rparr>"
    have len: "i < length (shiftset s1)" using Suc.prems(2,5) i(1) 1(4) by (simp add: storage_ok_def)
    have step: "fill_shiftset g i (Suc n) s = fill_shiftset g (Suc i) n ?s" using sym 1(1) len by (simp add: upd_opt_def nth_opt_def)
    have same: "same_storage s ?s" using 1(3) by (simp add: same_storage_def)
    have "search_ok g ?s" using 1(2) search_ok_cong [of ?s s1 g] by simp
    moreover have "storage_ok g ?s" "kernels_ok g (closure_list g K) c ?s" "take (length ?xs) (shift_symbol ?s) = ?xs"
      using same_storage_ok [OF same] same_storage_kernels [OF same] Suc.prems(2,3,6) same by (auto simp: same_storage_def)
    moreover have "Suc i + n = length ?xs" using Suc.prems(4) by simp
    ultimately consider s' new' where "fill_shiftset g (Suc i) n ?s = Some (Inr s')" "search_ok g s'" "same_storage ?s s'"
        "kernel_list s' = kernel_list ?s @ new'" "shifts_filled g K (Suc i) s'" "\<forall>k < Suc i. shiftset s' ! k = shiftset ?s ! k"
      | "fill_shiftset g (Suc i) n ?s = Some (Inl Too_many_states)" "MAXSHORT < card (lr0_kernels g)"
      using Suc.IH [of ?s "Suc i"] Suc.prems(5) by blast
    then show ?thesis
    proof cases
      case a: 1
      have list: "kernel_list s' = (kernel_list s @ new) @ new'" using a(4) 1(5) by (simp add: kernel_list_def)
      then have "?K \<in> set (kernel_list s')" "state_no (kernel_list s') ?K = state_no (kernel_list s1) ?K"
        using 1(5,6) state_no_append [of ?K "kernel_list s1" new'] by auto
      moreover have "shiftset s' ! i = int (state_no (kernel_list s1) ?K)" using a(6) len by simp
      ultimately have "shifts_filled g K i s'" using shifts_filled_step [OF a(5)] by simp
      moreover have "\<forall>k < i. shiftset s' ! k = shiftset s ! k" using a(6) 1(4) by simp
      ultimately show ?thesis using step a(1,2) same_storage_trans [OF same a(3)] list by auto
    next
      case 2
      then show ?thesis using step by simp
    qed
  next
    case 2
    then show ?thesis using sym too_many_states [OF assms(1) Suc.prems(1) 2(2) _ 2(3)] w by (simp add: nth_opt_def wanted_def)
  qed
qed

lemma sorted_shift_syms:
  assumes "packed g bs" "item_list g K" "kernels_ok g (closure_list g K) c s" "sorted zs" "mset zs = mset (take c (shift_symbol s))"
  shows "zs = shift_syms g K"
proof -
  have "distinct (take c (shift_symbol s))" using assms(3) by (simp add: kernels_ok_def)
  then have "distinct zs" using mset_eq_imp_distinct_iff [OF assms(5)] by simp
  moreover have "set zs = set (shift_syms g K)"
    using mset_eq_setD [OF assms(5)] assms(3) by (simp add: shift_syms_props [OF assms(1,2)] kernels_ok_def)
  ultimately show ?thesis using assms(4) shift_syms_props(2) [OF assms(1,2)] by (metis sorted_distinct_set_unique strict_sorted_iff)
qed

lemma append_states_sort:
  assumes "packed g bs" "item_list g K" "storage_ok g s" "kernels_ok g (closure_list g K) (nshifts s) s"
  shows "\<exists>a. sort_symbols 1 (nshifts s - 1) (shift_symbol s) = Some a \<and> length a = nsyms g \<and> nshifts s = length (shift_syms g K) \<and>
    take (nshifts s) a = shift_syms g K \<and> nshifts s \<le> nsyms g"
proof -
  let ?a = "shift_symbol s"
  let ?c = "nshifts s"
  have c: "?c \<le> length ?a" "length ?a = nsyms g" using assms(3,4) by (auto simp: storage_ok_def kernels_ok_def)
  show ?thesis
  proof (cases ?c)
    case 0
    then show ?thesis using sorted_shift_syms [OF assms(1,2,4), of "[]"] c by simp
  next
    case (Suc m)
    then obtain y ys where ys: "?a = y # ys" using c(1) by (cases ?a) auto
    then obtain zs where zs: "sort_symbols 1 m ([y] @ ys) = Some (zs @ drop m ys)" "sorted zs" "mset zs = mset ([y] @ take m ys)"
      using sort_symbols_ok [of "[y]" 1 m ys] c(1) Suc by auto
    have "zs = shift_syms g K" by (rule sorted_shift_syms [OF assms(1,2,4) zs(2)]) (use zs(3) ys Suc in simp)
    moreover have "length zs = ?c" using arg_cong [OF zs(3), of size] ys Suc c(1) by simp
    ultimately show ?thesis using zs(1) ys Suc c by auto
  qed
qed

lemma append_states_ok:
  assumes "packed g bs" "K \<in> lr0_kernels g" "search_ok g s" "storage_ok g s" "kernels_ok g (closure_list g K) (nshifts s) s"
  shows "(\<exists>s' new. append_states g s = Some (Inr s') \<and> search_ok g s' \<and> storage_ok g s' \<and> kernel_list s' = kernel_list s @ new \<and>
      shifts_filled g K 0 s' \<and> nshifts s' = length (shift_syms g K) \<and>
      nshifts s' \<le> nsyms g \<and> this_state s' = this_state s \<and> shift_list s' = shift_list s \<and> reduction_list s' = reduction_list s) \<or>
    append_states g s = Some (Inl Too_many_states) \<and> MAXSHORT < card (lr0_kernels g)"
proof -
  from append_states_sort [OF assms(1) kernel_item_list [OF assms(1,2)] assms(4,5)] obtain a where
    a: "sort_symbols 1 (nshifts s - 1) (shift_symbol s) = Some a" "length a = nsyms g" "nshifts s = length (shift_syms g K)"
      "take (nshifts s) a = shift_syms g K" "nshifts s \<le> nsyms g" by blast
  let ?s = "s\<lparr>shift_symbol := a\<rparr>"
  have syms: "distinct (shift_syms g K)"
    "set (shift_syms g K) = {x. 0 < x \<and> x \<in> item_symbol g ` set (closure_list g K)}"
    using shift_syms_props [OF assms(1) kernel_item_list [OF assms(1,2)]] by (simp_all add: strict_sorted_iff)
  have "search_ok g ?s" using assms(3) search_ok_cong [of ?s s g] by simp
  moreover have st: "storage_ok g ?s" using assms(4) a(2) by (simp add: storage_ok_def)
  moreover have "kernels_ok g (closure_list g K) (nshifts s) ?s" using assms(5) a(4) syms by (simp add: kernels_ok_def)
  ultimately show ?thesis
    using fill_shiftset_ok [OF assms(1,2), of ?s "nshifts s" 0 "nshifts s"] a same_storage_ok [of ?s _ g]
    by (auto simp: append_states_def kernel_list_def same_storage_def)
qed

section \<open>The body of the loop\<close>

lemma save_reductions_ok:
  assumes "packed g bs" "item_list g (itemset s)" "storage_ok g s" "this_state s = Some p" "p < length (cores s)" "c_number (cores s ! p) = int p"
  shows "\<exists>s'. save_reductions g s = Some s' \<and> storage_ok g s' \<and> cores s' = cores s \<and> state_set s' = state_set s \<and> last_state s' = last_state s \<and>
    nstates s' = nstates s \<and> this_state s' = this_state s \<and> shift_list s' = shift_list s \<and> itemset s' = itemset s \<and>
    reduction_list s' = reduction_list s @ (let rs = complete_rules g (itemset s) in
      if rs \<noteq> [] then [\<lparr>rd_number = int p, rd_nreds = int (length rs), rd_rules = rs\<rparr>] else [])"
proof -
  let ?rs = "complete_rules g (itemset s)"
  have len: "length ?rs \<le> nrules g" by (rule complete_rules_length [OF assms(1,2)])
  then obtain rs where rs: "collect_reductions g (itemset s) 0 (redset s) = Some (length ?rs, rs)" "length rs = length (redset s)"
    "take (length ?rs) rs = ?rs"
    using collect_reductions_ok [OF assms(1), of "itemset s" 0 "redset s"] assms(2,3) by (auto simp: item_list_def storage_ok_def)
  have "nrules g < 2 ^ 15" using assms(1) by (simp add: packed_def)
  then have "short (int (length ?rs)) = int (length ?rs)" using len by (intro short_id) auto
  then show ?thesis using rs assms(3-6) by (auto simp: save_reductions_def storage_ok_def nth_opt_def Let_def)
qed

text \<open>The states below \<open>p\<close> are done.\<close>

definition generated :: "grammar \<Rightarrow> nat \<Rightarrow> lr0_state \<Rightarrow> bool" where
  "generated g p s \<longleftrightarrow> search_ok g s \<and> storage_ok g s \<and> p \<le> length (cores s) \<and>
     this_state s = (if p < length (cores s) then Some p else None) \<and>
     (\<forall>i < p. \<forall>x \<in> set (shift_syms g (kernel_list s ! i)). goto_kernel g (kernel_list s ! i) x \<in> set (kernel_list s)) \<and>
     shift_list s = shift_table g (kernel_list s) p \<and> reduction_list s = reduction_table g (kernel_list s) p"

lemma closure_kernel:
  assumes "packed g bs" "first_derives_ok g fd" "item_list g K"
  shows "closure g fd K = Some (closure_list g K)"
  using closure_ok [OF packed_grammar_ok [OF assms(1)] assms(2)] assms(3) closure_list_eq unfolding item_list_def by metis

lemma save_shifts_ok:
  assumes "packed g bs" "storage_ok g s" "shifts_filled g K 0 s" "nshifts s = length (shift_syms g K)" "nshifts s \<le> nsyms g"
    "this_state s = Some p" "p < length (cores s)" "c_number (cores s ! p) = int p" "kernel_list s ! p = K"
  shows "save_shifts s = Some (s\<lparr>shift_list := shift_list s @ [shift_entry g (kernel_list s) p]\<rparr>)"
proof -
  have "nsyms g < 2 ^ 15" using assms(1) by (simp add: packed_def)
  then have "short (int (nshifts s)) = int (nshifts s)" using assms(5) by (intro short_id) auto
  moreover have "take (nshifts s) (shiftset s) = map (\<lambda>x. int (state_no (kernel_list s) (goto_kernel g K x))) (shift_syms g K)"
    using assms(2-5) by (intro nth_equalityI) (auto simp: storage_ok_def shifts_filled_def)
  moreover have "nshifts s \<le> length (shiftset s)" using assms(2,5) by (simp add: storage_ok_def)
  ultimately show ?thesis using assms(4,6-9) by (simp add: save_shifts_def shift_entry_def nth_opt_def)
qed

lemma process_state_prepare:
  assumes "packed g bs" "first_derives_ok g fd" "generated g p s" "p < length (cores s)"
  shows "\<exists>s2. process_state g fd p s = Option.bind (append_states g s2) (\<lambda>r. case r of
      Inl e \<Rightarrow> Some (Inl e)
    | Inr s \<Rightarrow> map_option Inr (finish_state p s)) \<and>
    search_ok g s2 \<and> storage_ok g s2 \<and> kernels_ok g (closure_list g (kernel_list s ! p)) (nshifts s2) s2 \<and> cores s2 = cores s \<and>
    this_state s2 = Some p \<and> shift_list s2 = shift_list s \<and> reduction_list s2 = reduction_table g (kernel_list s) (Suc p)"
proof -
  let ?K = "kernel_list s ! p"
  have s: "search_ok g s" "storage_ok g s" "this_state s = Some p" "reduction_list s = reduction_table g (kernel_list s) p"
    using assms(3,4) by (auto simp: generated_def)
  have c: "core_ok g (length (cores s)) p (cores s ! p)" using s(1) assms(4) by (simp add: search_ok_def)
  have K: "c_items (cores s ! p) = ?K" using assms(4) by (simp add: kernel_list_def)
  then have items: "item_list g ?K" using c kernel_item_list [OF assms(1)] by (simp add: core_ok_def)
  note cl = closure_kernel [OF assms(1,2) items]
  let ?s = "s\<lparr>itemset := closure_list g ?K\<rparr>"
  obtain s1 where s1: "save_reductions g ?s = Some s1" "storage_ok g s1" "cores s1 = cores s" "state_set s1 = state_set s"
    "last_state s1 = last_state s" "nstates s1 = nstates s" "this_state s1 = Some p" "shift_list s1 = shift_list s"
    "itemset s1 = closure_list g ?K" "reduction_list s1 = reduction_table g (kernel_list s) (Suc p)"
    using save_reductions_ok [OF assms(1), of ?s p] closure_list_props(1) [OF assms(1) items] s assms(4) c
    by (auto simp: storage_ok_def core_ok_def reduction_table_Suc reduction_entry_def Let_def)
  obtain s2 where s2: "new_itemsets g s1 = Some s2" "storage_ok g s2" "kernels_ok g (closure_list g ?K) (nshifts s2) s2" "same_search s1 s2"
    using new_itemsets_ok [OF assms(1) s1(2)] closure_list_props(1) [OF assms(1) items] s1(9) by auto
  have "search_ok g s2" using s2(4) s1(3-6) s(1) search_ok_cong [of s2 s g] by (simp add: same_search_def)
  moreover have "take (nat (c_nitems (cores s ! p))) (c_items (cores s ! p)) = ?K" using c K by (simp add: core_ok_def)
  moreover have "nth_opt (cores s) p = Some (cores s ! p)" using assms(4) by simp
  ultimately show ?thesis using s1 s2 cl by (intro exI [of _ s2]) (simp add: process_state_def nth_opt_def assms(4) same_search_def)
qed

lemma process_state_ok:
  assumes "packed g bs" "first_derives_ok g fd" "generated g p s" "p < length (cores s)"
  shows "(\<exists>s'. process_state g fd p s = Some (Inr s') \<and> generated g (Suc p) s') \<or>
    process_state g fd p s = Some (Inl Too_many_states) \<and> MAXSHORT < card (lr0_kernels g)"
proof -
  let ?K = "kernel_list s ! p"
  obtain s2 where step: "process_state g fd p s = Option.bind (append_states g s2) (\<lambda>r. case r of
      Inl e \<Rightarrow> Some (Inl e)
    | Inr s \<Rightarrow> map_option Inr (finish_state p s))"
    and s2: "search_ok g s2" "storage_ok g s2" "kernels_ok g (closure_list g ?K) (nshifts s2) s2" "cores s2 = cores s" "this_state s2 = Some p"
      "shift_list s2 = shift_list s" "reduction_list s2 = reduction_table g (kernel_list s) (Suc p)"
    using process_state_prepare [OF assms] by blast
  have K: "?K \<in> lr0_kernels g" using assms(3,4) kernels_found [of g s] by (auto simp: generated_def kernel_list_def)
  from append_states_ok [OF assms(1) K s2(1-3)] consider
      s3 new where "append_states g s2 = Some (Inr s3)" "search_ok g s3" "storage_ok g s3" "kernel_list s3 = kernel_list s @ new"
        "shifts_filled g ?K 0 s3" "nshifts s3 = length (shift_syms g ?K)" "nshifts s3 \<le> nsyms g" "this_state s3 = Some p"
        "shift_list s3 = shift_list s" "reduction_list s3 = reduction_table g (kernel_list s) (Suc p)"
    | "append_states g s2 = Some (Inl Too_many_states)" "MAXSHORT < card (lr0_kernels g)"
    using s2(4-7) by (auto simp: kernel_list_def)
  then show ?thesis
  proof cases
    case 1
    have len: "p < length (cores s3)" using arg_cong [OF 1(4), of length] assms(4) by (simp add: kernel_list_def)
    have nth: "kernel_list s3 ! i = kernel_list s ! i" if "i \<le> p" for i using 1(4) that assms(4) by (simp add: kernel_list_def nth_append)
    have c: "core_ok g (length (cores s3)) p (cores s3 ! p)" using 1(2) len by (simp add: search_ok_def)
    let ?s = "s3\<lparr>shift_list := shift_list s @ (if shift_syms g ?K \<noteq> [] then [shift_entry g (kernel_list s3) p] else []),
      this_state := c_next (cores s3 ! p)\<rparr>"
    have "process_state g fd p s = Some (Inr ?s)"
      using step 1(1,6,9) len c save_shifts_ok [OF assms(1) 1(3,5,6,7,8) len _ nth [OF order_refl]]
      by (auto simp: nth_opt_def core_ok_def finish_state_def)
    moreover have "generated g (Suc p) ?s"
      unfolding generated_def
    proof (intro conjI allI impI ballI)
      show "search_ok g ?s" "storage_ok g ?s" using 1(2,3) search_ok_cong [of ?s s3 g] by (simp_all add: storage_ok_def)
      show "Suc p \<le> length (cores ?s)" "this_state ?s = (if Suc p < length (cores ?s) then Some (Suc p) else None)"
        using len c by (auto simp: core_ok_def)
      have old: "p \<le> length (kernel_list s)" "\<forall>i < p. \<forall>x \<in> set (shift_syms g (kernel_list s ! i)). goto_kernel g (kernel_list s ! i) x \<in> set (kernel_list s)"
        using assms(3) by (auto simp: generated_def kernel_list_def)
      have "shift_table g (kernel_list s3) p = shift_table g (kernel_list s) p" unfolding 1(4) by (rule shift_table_append [OF old])
      then show "shift_list ?s = shift_table g (kernel_list ?s) (Suc p)"
        using assms(3) nth [OF order_refl] by (simp add: shift_table_Suc generated_def kernel_list_def)
      show "reduction_list ?s = reduction_table g (kernel_list ?s) (Suc p)"
        using 1(4,10) assms(4) reduction_table_append [of "Suc p" "kernel_list s" g new] by (simp add: kernel_list_def)
      fix i x
      assume i: "i < Suc p" "x \<in> set (shift_syms g (kernel_list ?s ! i))"
      have list: "kernel_list ?s = kernel_list s3" by (simp add: kernel_list_def)
      show "goto_kernel g (kernel_list ?s ! i) x \<in> set (kernel_list ?s)"
        using i old(2) 1(4,5) nth [of i] unfolding list by (cases "i = p") (auto simp: shifts_filled_def in_set_conv_nth)
    qed
    ultimately show ?thesis by blast
  next
    case 2
    then show ?thesis using step by simp
  qed
qed

section \<open>The loop\<close>

lemma generate_loop_ok:
  assumes "packed g bs" "first_derives_ok g fd"
  shows "generated g p s \<Longrightarrow>
    (\<exists>s' n. generate_loop g fd s = Some (Inr s') \<and> generated g n s' \<and> n = length (cores s')) \<or>
    generate_loop g fd s = Some (Inl Too_many_states) \<and> MAXSHORT < card (lr0_kernels g)"
proof (induction "MAXSHORT - p" arbitrary: p s rule: less_induct)
  case less
  show ?case
  proof (cases "p < length (cores s)")
    case False
    then have "this_state s = None" "p = length (cores s)" using less.prems by (auto simp: generated_def)
    then show ?thesis using less.prems by (subst (1 2) generate_loop.simps) auto
  next
    case True
    then have cur: "this_state s = Some p" "p < MAXSHORT" using less.prems by (auto simp: generated_def search_ok_def)
    from process_state_ok [OF assms less.prems True] show ?thesis
    proof (elim disjE exE conjE)
      fix s'
      assume s': "process_state g fd p s = Some (Inr s')" "generated g (Suc p) s'"
      then have "generate_loop g fd s = generate_loop g fd s'" using cur(1) by (subst generate_loop.simps) simp
      moreover have "MAXSHORT - Suc p < MAXSHORT - p" using cur(2) by simp
      ultimately show ?thesis using less.hyps [OF _ s'(2)] by simp
    next
      assume "process_state g fd p s = Some (Inl Too_many_states)" "MAXSHORT < card (lr0_kernels g)"
      then show ?thesis using cur(1) by (subst (1 2) generate_loop.simps) simp
    qed
  qed
qed

text \<open>A search that is done has found every kernel.\<close>

lemma generated_all:
  assumes "generated g (length (cores s)) s"
  shows "set (kernel_list s) = lr0_kernels g"
proof
  show "set (kernel_list s) \<subseteq> lr0_kernels g" using assms kernels_found by (simp add: generated_def)
  have start: "start_kernel g \<in> set (kernel_list s)"
    using assms by (auto simp: generated_def search_ok_def core_ok_def kernel_list_def intro!: image_eqI [of _ _ "cores s ! 0"])
  show "lr0_kernels g \<subseteq> set (kernel_list s)"
  proof
    fix K
    assume "K \<in> lr0_kernels g"
    then have "(start_kernel g, K) \<in> (lr0_edges g)\<^sup>*" by (simp add: lr0_kernels_def)
    then show "K \<in> set (kernel_list s)"
    proof induction
      case (step K K')
      then obtain i where "i < length (cores s)" "K = kernel_list s ! i" by (auto simp: in_set_conv_nth kernel_list_def)
      then show ?case using step(2) assms by (auto simp: lr0_edges_def generated_def)
    qed (rule start)
  qed
qed

lemma start_items_ok:
  "\<forall>r \<in> set rs. r < length (rrhs g) \<Longrightarrow> start_items g (map int rs @ - 1 # rest) = Some (map ((!) (rrhs g)) rs)"
  by (induction rs) (auto simp: int_nth_def nth_opt_def)

lemma initialize_states_ok:
  assumes "packed g bs" "derives_ok g d" "0 < nvars g" "storage_ok g s" "state_set s = replicate (nitems g) None" "shift_list s = []" "reduction_list s = []"
  shows "\<exists>s'. initialize_states g d s = Some s' \<and> generated g 0 s'"
proof -
  obtain rest where d: "derives_of d (start_symbol g) = Some (map int (rules_of g 0) @ - 1 # rest)"
    using assms(2,3) by (auto simp: derives_ok_def)
  have "\<forall>r \<in> set (rules_of g 0). r < length (rrhs g)" using assms(1) by (auto simp: rules_of_def packed_def)
  then have items: "start_items g (map int (rules_of g 0) @ - 1 # rest) = Some (start_kernel g)"
    by (simp add: start_items_ok start_kernel_def)
  have "length (start_kernel g) \<le> nitems g" "nitems g < 2 ^ 15"
    using start_kernel_ok [OF assms(1)] sorted_items_length [of "start_kernel g" g] assms(1) by (auto simp: item_list_def packed_def)
  then have short: "short (int (length (start_kernel g))) = int (length (start_kernel g))" by (intro short_id) auto
  have start: "start_kernel g \<in> lr0_kernels g" by (simp add: lr0_kernels_def)
  have "chain cs None []" "set [] = bucket_states [c] key" for cs c key by (auto simp: bucket_states_def)
  then show ?thesis using d items short start assms(4-7)
    by (auto simp: initialize_states_def generated_def search_ok_def storage_ok_def core_ok_def kernel_list_def MAXSHORT_def
        shift_table_def reduction_table_def intro!: exI [of _ "[]"])
qed

section \<open>Claims\<close>

text \<open>C17: \<open>lr0\<close> builds the LR(0) automaton. On a packed grammar whose number of variables is not a multiple of 32 (on the others
  \<open>set_first_derives\<close> reads past the end of an array) it stays inside its arrays and ends. Either it has one state for
  each reachable kernel, numbered from the kernel of the start symbol, with exactly the shifts and reductions of the
  automaton; or it reports too many states, and then the automaton has more than \<open>MAXSHORT\<close>. The assertion in
  \<open>get_state\<close> never fails.\<close>

theorem lr0_automaton:
  assumes "packed g bs" "nvars g mod 32 \<noteq> 0"
  shows "(\<exists>nullable s. lr0 g = Some (Inr (nullable, s)) \<and>
      distinct (kernel_list s) \<and> set (kernel_list s) = lr0_kernels g \<and> hd (kernel_list s) = start_kernel g \<and>
      (\<forall>i < length (cores s). c_number (cores s ! i) = int i) \<and>
      shift_list s = shift_table g (kernel_list s) (length (cores s)) \<and>
      reduction_list s = reduction_table g (kernel_list s) (length (cores s))) \<or>
    lr0 g = Some (Inl Too_many_states) \<and> MAXSHORT < card (lr0_kernels g)"
proof -
  note ok = packed_grammar_ok [OF assms(1)]
  obtain d where d: "set_derives g = Some d" "derives_ok g d" using set_derives_ok [OF ok] by blast
  obtain fd where fd: "set_first_derives g d = Some fd" "first_derives_ok g fd" using set_first_derives_ok [OF ok d(2) assms(2)] by blast
  obtain nl where nl: "set_nullable g = Some nl" using null_loop_ok [OF assms(1), of "replicate (nsyms g) False"] by (auto simp: set_nullable_def)
  obtain s where s: "allocate_storage g no_states = Some s" "storage_ok g s" "shift_list s = []" "reduction_list s = []"
    "state_set s = replicate (nitems g) None" using allocate_storage_ok [OF assms(1), of no_states] by (auto simp: no_states_def)
  have "0 < nvars g" using assms(2) by (cases "nvars g") auto
  then obtain s' where s': "initialize_states g d s = Some s'" "generated g 0 s'"
    using initialize_states_ok [OF assms(1) d(2) _ s(2,5,3,4)] by blast
  have lr0: "lr0 g = Option.bind (generate_loop g fd s') (\<lambda>r. Some (map_sum id (Pair nl) r))"
    using d(1) nl s(1) fd(1) s'(1) by (simp add: lr0_def generate_states_def)
  from generate_loop_ok [OF assms(1) fd(2) s'(2)] show ?thesis
  proof (elim disjE exE conjE)
    fix t n
    assume t: "generate_loop g fd s' = Some (Inr t)" "generated g n t" "n = length (cores t)"
    then have gen: "generated g (length (cores t)) t" and search: "search_ok g t" by (auto simp: generated_def)
    have "hd (kernel_list t) = start_kernel g" "\<forall>i < length (cores t). c_number (cores t ! i) = int i" "distinct (kernel_list t)"
      using search by (auto simp: search_ok_def core_ok_def kernel_list_def hd_conv_nth)
    then show ?thesis using lr0 t(1) generated_all [OF gen] gen by (simp add: generated_def)
  qed (simp add: lr0)
qed

lemma kernels_card:
  assumes "packed g bs"
  shows "card (lr0_kernels g) \<le> 2 ^ nitems g"
proof -
  have "inj_on set (lr0_kernels g)"
    using kernel_item_list [OF assms] by (intro inj_onI) (metis item_list_def sorted_distinct_set_unique strict_sorted_iff)
  moreover have "set ` lr0_kernels g \<subseteq> Pow {0..<int (nitems g)}"
    using kernel_item_list [OF assms] by (auto simp: item_list_def item_ok_def)
  ultimately have "card (lr0_kernels g) \<le> card (Pow {0..<int (nitems g)})" by (intro card_inj_on_le) auto
  then show ?thesis by (simp add: card_Pow)
qed

lemma sum_grammar_packed: "packed sum_grammar [[4, 0], [4, 1, 2], [2]]"
  by (simp add: packed_def sum_grammar_def all_less_numeral)

theorem lr0_automaton_witness:
  "\<exists>nullable s. lr0 sum_grammar = Some (Inr (nullable, s)) \<and> distinct (kernel_list s) \<and>
     set (kernel_list s) = lr0_kernels sum_grammar \<and> hd (kernel_list s) = [1] \<and>
     shift_list s = shift_table sum_grammar (kernel_list s) (length (cores s))"
proof -
  have "card (lr0_kernels sum_grammar) \<le> 2 ^ 10" using kernels_card [OF sum_grammar_packed] by (simp add: sum_grammar_def)
  then have "\<not> MAXSHORT < card (lr0_kernels sum_grammar)" by (simp add: MAXSHORT_def)
  moreover have "start_kernel sum_grammar = [1]" by (simp add: start_kernel_def rules_of_def sum_grammar_def upt_rec)
  ultimately show ?thesis using lr0_automaton [OF sum_grammar_packed] by (auto simp: sum_grammar_def)
qed

end
