(* ===== verification/Skiplist.thy ===== *)
theory Skiplist
  imports Prelude
begin

text \<open>
  The dictionaries of skiplist.c: cells with an array of forward pointers, a head with one
  pointer per level, and the search that goes down from the highest level in use.

  \<^item> The heap of cells is a list of cells that are allocated or freed, a pointer is an index of
    it and \<open>NULL\<close> is \<open>None\<close>. An access to a freed cell or past the end of a forward array has no
    defined result. The allocator returns an address that was never used; that it may run out of
    memory is not modelled.
  \<^item> A variable \<open>struct skipcell ** e\<close> is always the forward array of the head or of a cell: it is
    a cursor. A pointer \<open>&e[i]\<close> is a cursor with an index.
  \<^item> \<open>level\<close> and the loop counters never are negative and are natural numbers.
\<close>

subsection \<open>Data\<close>

abbreviation "NUM_LEVELS \<equiv> (17 :: nat)"

record skipcell =
  sc_key :: u64
  sc_data :: u64
  sc_forward :: "nat option list"

record skiplist =
  sk_forward :: "nat option list"
  sk_level :: nat

text \<open>What all lists share: the seed of the generator and the heap of cells.\<close>

record skipmem =
  random_seed :: u32
  sk_cells :: "skipcell option list"

datatype cursor = Head | Cell nat

type_synonym slot = "cursor \<times> nat"

definition SKIPLIST_STATIC_INITIALIZER :: skiplist where
  "SKIPLIST_STATIC_INITIALIZER = \<lparr>sk_forward = replicate NUM_LEVELS None, sk_level = 0\<rparr>"

definition cell_at :: "skipmem \<Rightarrow> nat \<Rightarrow> skipcell option" where
  "cell_at m a = Option.bind (nth_opt (sk_cells m) a) id"

definition set_cell :: "skipmem \<Rightarrow> nat \<Rightarrow> skipcell \<Rightarrow> skipmem" where
  "set_cell m a c = m\<lparr>sk_cells := (sk_cells m)[a := Some c]\<rparr>"

definition stat_alloc_cell :: "skipmem \<Rightarrow> skipcell \<Rightarrow> skipmem \<times> nat" where
  "stat_alloc_cell m c = (m\<lparr>sk_cells := sk_cells m @ [Some c]\<rparr>, length (sk_cells m))"

definition stat_free_cell :: "skipmem \<Rightarrow> nat \<Rightarrow> skipmem option" where
  "stat_free_cell m a = do {
     _ \<leftarrow> cell_at m a;
     Some (m\<lparr>sk_cells := (sk_cells m)[a := None]\<rparr>)
   }"

text \<open>\<open>e[i]\<close> and \<open>e[i] = v\<close> for a cursor \<open>e\<close>.\<close>

fun get_forward :: "skipmem \<Rightarrow> skiplist \<Rightarrow> cursor \<Rightarrow> nat \<Rightarrow> nat option option" where
  "get_forward m sk Head i = nth_opt (sk_forward sk) i"
| "get_forward m sk (Cell a) i = do { c \<leftarrow> cell_at m a; nth_opt (sc_forward c) i }"

fun set_forward :: "skipmem \<Rightarrow> skiplist \<Rightarrow> cursor \<Rightarrow> nat \<Rightarrow> nat option \<Rightarrow> (skipmem \<times> skiplist) option"
  where
  "set_forward m sk Head i v = do {
     fw \<leftarrow> upd_opt (sk_forward sk) i v;
     Some (m, sk\<lparr>sk_forward := fw\<rparr>)
   }"
| "set_forward m sk (Cell a) i v = do {
     c \<leftarrow> cell_at m a;
     fw \<leftarrow> upd_opt (sc_forward c) i v;
     Some (set_cell m a (c\<lparr>sc_forward := fw\<rparr>), sk)
   }"

subsection \<open>Random levels\<close>

text \<open>The while loop of \<open>random_level\<close>.\<close>

partial_function (option) level_loop :: "u32 \<Rightarrow> nat \<Rightarrow> nat option" where
  "level_loop r lv = (if r AND 0xC0000000 = 0xC0000000 then level_loop (push_bit 2 r) (lv + 1)
                      else Some lv)"

declare level_loop.simps [code]

definition random_level :: "skipmem \<Rightarrow> (nat \<times> skipmem) option" where
  "random_level m = do {
     let r = random_seed m * 69069 + 25173;
     lv \<leftarrow> level_loop r 0;
     Some (lv, m\<lparr>random_seed := r\<rparr>)
   }"

definition caml_skiplist_init :: "skiplist \<Rightarrow> skiplist" where
  "caml_skiplist_init sk = sk\<lparr>sk_forward := replicate NUM_LEVELS None, sk_level := 0\<rparr>"

subsection \<open>Search\<close>

text \<open>The inner loop of \<open>caml_skiplist_find\<close>: \<open>Inl d\<close> is the return with the data \<open>d\<close>, \<open>Inr e\<close> the
  \<open>break\<close> with the cursor \<open>e\<close>.\<close>

partial_function (option) find_walk ::
  "skipmem \<Rightarrow> skiplist \<Rightarrow> u64 \<Rightarrow> nat \<Rightarrow> cursor \<Rightarrow> (u64 + cursor) option" where
  "find_walk m sk k i e = do {
     f \<leftarrow> get_forward m sk e i;
     case f of
       None \<Rightarrow> Some (Inr e)
     | Some a \<Rightarrow> do {
         c \<leftarrow> cell_at m a;
         if k < sc_key c then Some (Inr e)
         else if sc_key c = k then Some (Inl (sc_data c))
         else find_walk m sk k i (Cell a)
       }
   }"

declare find_walk.simps [code]

text \<open>The loop over the levels; its counter is one more than \<open>i\<close> of the code. \<open>None\<close> inside is the
  answer 0.\<close>

primrec find_levels :: "skipmem \<Rightarrow> skiplist \<Rightarrow> u64 \<Rightarrow> nat \<Rightarrow> cursor \<Rightarrow> u64 option option" where
  "find_levels m sk k 0 e = Some None"
| "find_levels m sk k (Suc i) e = do {
     r \<leftarrow> find_walk m sk k i e;
     case r of Inl d \<Rightarrow> Some (Some d) | Inr e' \<Rightarrow> find_levels m sk k i e'
   }"

definition caml_skiplist_find :: "skipmem \<Rightarrow> skiplist \<Rightarrow> u64 \<Rightarrow> u64 option option" where
  "caml_skiplist_find m sk k = find_levels m sk k (Suc (sk_level sk)) Head"

partial_function (option) below_walk ::
  "skipmem \<Rightarrow> skiplist \<Rightarrow> u64 \<Rightarrow> nat \<Rightarrow> cursor \<Rightarrow> nat option \<Rightarrow> (cursor \<times> nat option) option" where
  "below_walk m sk k i e lst = do {
     f \<leftarrow> get_forward m sk e i;
     case f of
       None \<Rightarrow> Some (e, lst)
     | Some a \<Rightarrow> do {
         c \<leftarrow> cell_at m a;
         if k < sc_key c then Some (e, lst) else below_walk m sk k i (Cell a) (Some a)
       }
   }"

declare below_walk.simps [code]

primrec below_levels ::
  "skipmem \<Rightarrow> skiplist \<Rightarrow> u64 \<Rightarrow> nat \<Rightarrow> cursor \<Rightarrow> nat option \<Rightarrow> nat option option" where
  "below_levels m sk k 0 e lst = Some lst"
| "below_levels m sk k (Suc i) e lst = do {
     (e', lst') \<leftarrow> below_walk m sk k i e lst;
     below_levels m sk k i e' lst'
   }"

definition caml_skiplist_find_below :: "skipmem \<Rightarrow> skiplist \<Rightarrow> u64 \<Rightarrow> (u64 \<times> u64) option option"
  where
  "caml_skiplist_find_below m sk k = do {
     lst \<leftarrow> below_levels m sk k (Suc (sk_level sk)) Head None;
     case lst of
       None \<Rightarrow> Some None
     | Some a \<Rightarrow> do { c \<leftarrow> cell_at m a; Some (Some (sc_key c, sc_data c)) }
   }"

subsection \<open>Insertion and deletion\<close>

text \<open>The search that \<open>caml_skiplist_insert\<close> and \<open>caml_skiplist_remove\<close> begin with. The array
  \<open>update\<close> is not initialised: its entries are \<open>None\<close> until they are written.\<close>

partial_function (option) update_walk ::
  "skipmem \<Rightarrow> skiplist \<Rightarrow> u64 \<Rightarrow> nat \<Rightarrow> cursor \<Rightarrow> cursor option" where
  "update_walk m sk k i e = do {
     f \<leftarrow> get_forward m sk e i;
     case f of
       None \<Rightarrow> Some e
     | Some a \<Rightarrow> do {
         c \<leftarrow> cell_at m a;
         if k \<le> sc_key c then Some e else update_walk m sk k i (Cell a)
       }
   }"

declare update_walk.simps [code]

primrec update_levels ::
  "skipmem \<Rightarrow> skiplist \<Rightarrow> u64 \<Rightarrow> nat \<Rightarrow> cursor \<Rightarrow> slot option list \<Rightarrow>
    (cursor \<times> slot option list) option" where
  "update_levels m sk k 0 e upd = Some (e, upd)"
| "update_levels m sk k (Suc i) e upd = do {
     e' \<leftarrow> update_walk m sk k i e;
     upd' \<leftarrow> upd_opt upd i (Some (e', i));
     update_levels m sk k i e' upd'
   }"

definition search_update :: "skipmem \<Rightarrow> skiplist \<Rightarrow> u64 \<Rightarrow> (cursor \<times> slot option list) option" where
  "search_update m sk k =
     update_levels m sk k (Suc (sk_level sk)) Head (replicate NUM_LEVELS None)"

text \<open>The address and the cell behind \<open>e[0]\<close> when its key is the one looked for.\<close>

definition cell_with_key ::
  "skipmem \<Rightarrow> skiplist \<Rightarrow> u64 \<Rightarrow> cursor \<Rightarrow> (nat \<times> skipcell) option option" where
  "cell_with_key m sk k e = do {
     f \<leftarrow> get_forward m sk e 0;
     case f of
       None \<Rightarrow> Some None
     | Some a \<Rightarrow> do { c \<leftarrow> cell_at m a; Some (if sc_key c = k then Some (a, c) else None) }
   }"

text \<open>\<open>for (i = sk->level + 1; i <= new_level; i++) update[i] = &sk->forward[i]\<close>\<close>

primrec head_slots :: "nat list \<Rightarrow> slot option list \<Rightarrow> slot option list option" where
  "head_slots [] upd = Some upd"
| "head_slots (i # is) upd = do {
     upd' \<leftarrow> upd_opt upd i (Some (Head, i));
     head_slots is upd'
   }"

definition raise_level ::
  "skiplist \<Rightarrow> nat \<Rightarrow> slot option list \<Rightarrow> (skiplist \<times> slot option list) option" where
  "raise_level sk new_level upd =
     (if sk_level sk < new_level then do {
        upd' \<leftarrow> head_slots [sk_level sk + 1..<new_level + 1] upd;
        Some (sk\<lparr>sk_level := new_level\<rparr>, upd')
      } else Some (sk, upd))"

text \<open>\<open>update[i]\<close>: undefined when it was not written.\<close>

definition update_slot :: "slot option list \<Rightarrow> nat \<Rightarrow> slot option" where
  "update_slot upd i = Option.bind (nth_opt upd i) id"

text \<open>\<open>f->forward[i] = *update[i]; *update[i] = f;\<close> for the levels of the new cell.\<close>

primrec link_levels ::
  "slot option list \<Rightarrow> nat \<Rightarrow> nat list \<Rightarrow> skipmem \<Rightarrow> skiplist \<Rightarrow> (skipmem \<times> skiplist) option" where
  "link_levels upd f [] m sk = Some (m, sk)"
| "link_levels upd f (i # is) m sk = do {
     (e, j) \<leftarrow> update_slot upd i;
     p \<leftarrow> get_forward m sk e j;
     (m1, sk1) \<leftarrow> set_forward m sk (Cell f) i p;
     (m2, sk2) \<leftarrow> set_forward m1 sk1 e j (Some f);
     link_levels upd f is m2 sk2
   }"

definition insert_cell ::
  "skipmem \<Rightarrow> skiplist \<Rightarrow> u64 \<Rightarrow> u64 \<Rightarrow> slot option list \<Rightarrow> (skipmem \<times> skiplist) option" where
  "insert_cell m sk k d upd = do {
     (new_level, m1) \<leftarrow> random_level m;
     (sk1, upd1) \<leftarrow> raise_level sk new_level upd;
     let (m2, f) = stat_alloc_cell m1
           \<lparr>sc_key = k, sc_data = d, sc_forward = replicate (new_level + 1) None\<rparr>;
     link_levels upd1 f [0..<new_level + 1] m2 sk1
   }"

text \<open>The answer is \<open>True\<close> when the key was there.\<close>

definition caml_skiplist_insert ::
  "skipmem \<Rightarrow> skiplist \<Rightarrow> u64 \<Rightarrow> u64 \<Rightarrow> (skipmem \<times> skiplist \<times> bool) option" where
  "caml_skiplist_insert m sk k d = do {
     (e, upd) \<leftarrow> search_update m sk k;
     r \<leftarrow> cell_with_key m sk k e;
     case r of
       Some (a, c) \<Rightarrow> Some (set_cell m a (c\<lparr>sc_data := d\<rparr>), sk, True)
     | None \<Rightarrow> do {
         (m', sk') \<leftarrow> insert_cell m sk k d upd;
         Some (m', sk', False)
       }
   }"

text \<open>\<open>if (*update[i] == f) *update[i] = f->forward[i];\<close> for the levels of the list.\<close>

primrec unlink_levels ::
  "slot option list \<Rightarrow> nat \<Rightarrow> nat list \<Rightarrow> skipmem \<Rightarrow> skiplist \<Rightarrow> (skipmem \<times> skiplist) option" where
  "unlink_levels upd f [] m sk = Some (m, sk)"
| "unlink_levels upd f (i # is) m sk = do {
     (e, j) \<leftarrow> update_slot upd i;
     p \<leftarrow> get_forward m sk e j;
     (m1, sk1) \<leftarrow>
       (if p = Some f then do {
          q \<leftarrow> get_forward m sk (Cell f) i;
          set_forward m sk e j q
        } else Some (m, sk));
     unlink_levels upd f is m1 sk1
   }"

text \<open>The loop that lowers the level of the list.\<close>

primrec lower_level :: "nat option list \<Rightarrow> nat \<Rightarrow> nat option" where
  "lower_level fw 0 = Some 0"
| "lower_level fw (Suc l) = do {
     p \<leftarrow> nth_opt fw (Suc l);
     if p = None then lower_level fw l else Some (Suc l)
   }"

definition caml_skiplist_remove :: "skipmem \<Rightarrow> skiplist \<Rightarrow> u64 \<Rightarrow> (skipmem \<times> skiplist \<times> bool) option"
  where
  "caml_skiplist_remove m sk k = do {
     (e, upd) \<leftarrow> search_update m sk k;
     r \<leftarrow> cell_with_key m sk k e;
     case r of
       None \<Rightarrow> Some (m, sk, False)
     | Some (f, _) \<Rightarrow> do {
         (m1, sk1) \<leftarrow> unlink_levels upd f [0..<sk_level sk + 1] m sk;
         m2 \<leftarrow> stat_free_cell m1 f;
         l \<leftarrow> lower_level (sk_forward sk1) (sk_level sk1);
         Some (m2, sk1\<lparr>sk_level := l\<rparr>, True)
       }
   }"

subsection \<open>Traversal and emptying\<close>

partial_function (option) free_cells :: "nat option \<Rightarrow> skipmem \<Rightarrow> skipmem option" where
  "free_cells p m =
     (case p of
        None \<Rightarrow> Some m
      | Some a \<Rightarrow> do {
          c \<leftarrow> cell_at m a;
          next \<leftarrow> nth_opt (sc_forward c) 0;
          m' \<leftarrow> stat_free_cell m a;
          free_cells next m'
        })"

declare free_cells.simps [code]

primrec clear_heads :: "nat list \<Rightarrow> nat option list \<Rightarrow> nat option list option" where
  "clear_heads [] fw = Some fw"
| "clear_heads (i # is) fw = do { fw' \<leftarrow> upd_opt fw i None; clear_heads is fw' }"

definition caml_skiplist_empty :: "skipmem \<Rightarrow> skiplist \<Rightarrow> (skipmem \<times> skiplist) option" where
  "caml_skiplist_empty m sk = do {
     p \<leftarrow> nth_opt (sk_forward sk) 0;
     m' \<leftarrow> free_cells p m;
     fw \<leftarrow> clear_heads [0..<sk_level sk + 1] (sk_forward sk);
     Some (m', sk\<lparr>sk_forward := fw, sk_level := 0\<rparr>)
   }"

text \<open>\<open>FOREACH_SKIPLIST_ELEMENT\<close>: the action works on a state \<open>s\<close> that contains the heap of cells.\<close>

partial_function (option) foreach_from ::
  "('s \<Rightarrow> skipmem) \<Rightarrow> (nat \<Rightarrow> 's \<Rightarrow> 's option) \<Rightarrow> nat option \<Rightarrow> 's \<Rightarrow> 's option" where
  "foreach_from mem action var s =
     (case var of
        None \<Rightarrow> Some s
      | Some a \<Rightarrow> do {
          c \<leftarrow> cell_at (mem s) a;
          next \<leftarrow> nth_opt (sc_forward c) 0;
          s' \<leftarrow> action a s;
          foreach_from mem action next s'
        })"

declare foreach_from.simps [code]

definition FOREACH_SKIPLIST_ELEMENT ::
  "('s \<Rightarrow> skipmem) \<Rightarrow> skiplist \<Rightarrow> (nat \<Rightarrow> 's \<Rightarrow> 's option) \<Rightarrow> 's \<Rightarrow> 's option" where
  "FOREACH_SKIPLIST_ELEMENT mem sk action s = do {
     p \<leftarrow> nth_opt (sk_forward sk) 0;
     foreach_from mem action p s
   }"

end
