(* ===== verification/Skiplist_Inv.thy ===== *)
theory Skiplist_Inv
  imports Skiplist
begin

text \<open>
  The invariant of a skip list and what the searches and the updates of single pointers do to it.
  A list is represented by its nodes in the order of their keys; on every level the forward
  pointers chain the nodes that are high enough.
\<close>

subsection \<open>Random levels\<close>

lemma level_loop_bound:
  assumes "n \<le> 16" and "\<forall>i<32 - 2 * n. \<not> bit r i"
  shows "\<exists>l. level_loop r lv = Some l \<and> l \<le> lv + n"
  using assms
proof (induction n arbitrary: r lv)
  case 0
  then have "\<not> bit r 31" by simp
  moreover have "bit (0xC0000000 :: u32) 31" by simp
  ultimately have "r AND 0xC0000000 \<noteq> 0xC0000000" by (metis bit_and_iff)
  then show ?case by (simp add: level_loop.simps)
next
  case (Suc n)
  have "\<forall>i<32 - 2 * n. \<not> bit (push_bit 2 r) i"
    using Suc.prems by (auto simp: bit_push_bit_iff)
  then have "\<exists>l. level_loop (push_bit 2 r) (lv + 1) = Some l \<and> l \<le> lv + 1 + n"
    using Suc.IH [of "push_bit 2 r" "lv + 1"] Suc.prems(1) by simp
  then show ?case by (subst level_loop.simps) auto
qed

lemma random_level_bound:
  obtains lv m' where "random_level m = Some (lv, m')" and "lv < NUM_LEVELS"
    and "sk_cells m' = sk_cells m"
proof -
  obtain l where "level_loop (random_seed m * 69069 + 25173) 0 = Some l" and "l \<le> 16"
    using level_loop_bound [of 16 "random_seed m * 69069 + 25173" 0] by auto
  then show thesis
    by (intro that [of l "m\<lparr>random_seed := random_seed m * 69069 + 25173\<rparr>"])
       (auto simp: random_level_def)
qed

subsection \<open>Cells\<close>

definition shape :: "skipmem \<Rightarrow> nat \<Rightarrow> (u64 \<times> u64 \<times> nat) option" where
  "shape m a = map_option (\<lambda>c. (sc_key c, sc_data c, length (sc_forward c))) (cell_at m a)"

lemma cell_at_Some: "cell_at m a = Some c \<longleftrightarrow> a < length (sk_cells m) \<and> sk_cells m ! a = Some c"
  by (auto simp: cell_at_def bind_Some_iff)

lemma cell_at_set_cell:
  "cell_at m a = Some c \<Longrightarrow> cell_at (set_cell m a c') b = (if b = a then Some c' else cell_at m b)"
  by (auto simp: cell_at_def set_cell_def nth_opt_def bind_Some_iff)

lemma length_set_cell: "length (sk_cells (set_cell m a c)) = length (sk_cells m)"
  by (simp add: set_cell_def)

lemma cell_at_alloc:
  "cell_at (m\<lparr>sk_cells := sk_cells m @ [Some c]\<rparr>) b = (if b = length (sk_cells m) then Some c else cell_at m b)"
  by (auto simp: cell_at_def nth_opt_def nth_append)

lemma cell_at_free:
  "cell_at m a = Some c \<Longrightarrow>
   cell_at (m\<lparr>sk_cells := (sk_cells m)[a := None]\<rparr>) b = (if b = a then None else cell_at m b)"
  by (auto simp: cell_at_def nth_opt_def bind_Some_iff)

lemma cell_at_cells: "sk_cells m' = sk_cells m \<Longrightarrow> cell_at m' = cell_at m"
  by (simp add: cell_at_def fun_eq_iff)

lemma cell_at_less: "cell_at m a = Some c \<Longrightarrow> a < length (sk_cells m)"
  by (simp add: cell_at_Some)

lemma shape_SomeD:
  assumes "shape m a = Some (k, d, h)"
  obtains c where "cell_at m a = Some c" and "sc_key c = k" and "sc_data c = d"
    and "length (sc_forward c) = h"
  using assms by (auto simp: shape_def)

lemma shape_less: "shape m a = Some s \<Longrightarrow> a < length (sk_cells m)"
  by (auto simp: shape_def dest: cell_at_less)

lemma get_forward_Cell_None: "get_forward m sk (Cell a) i \<noteq> None \<longleftrightarrow>
  (\<exists>k d h. shape m a = Some (k, d, h) \<and> i < h)"
  by (cases "cell_at m a") (auto simp: shape_def nth_opt_def)

text \<open>What a sequence of writes to forward pointers keeps, when the cells it writes are in \<open>A\<close>.\<close>

definition same_frame :: "nat set \<Rightarrow> skipmem \<Rightarrow> skiplist \<Rightarrow> skipmem \<Rightarrow> skiplist \<Rightarrow> bool" where
  "same_frame A m sk m' sk' \<longleftrightarrow>
     shape m' = shape m \<and> (\<forall>a. a \<notin> A \<longrightarrow> cell_at m' a = cell_at m a)
     \<and> sk_level sk' = sk_level sk \<and> length (sk_forward sk') = length (sk_forward sk)
     \<and> length (sk_cells m') = length (sk_cells m)"

lemma same_frame_refl [simp]: "same_frame A m sk m sk"
  by (simp add: same_frame_def)

lemma same_frame_trans:
  "same_frame A m sk m1 sk1 \<Longrightarrow> same_frame A m1 sk1 m2 sk2 \<Longrightarrow> same_frame A m sk m2 sk2"
  by (simp add: same_frame_def)

lemma set_forward_ok:
  assumes "get_forward m sk e i \<noteq> None" and "\<And>a. e = Cell a \<Longrightarrow> a \<in> A"
  obtains m' sk' where "set_forward m sk e i v = Some (m', sk')"
    and "\<And>e' j. get_forward m' sk' e' j = (if e' = e \<and> j = i then Some v else get_forward m sk e' j)"
    and "same_frame A m sk m' sk'"
proof (cases e)
  case Head
  with assms(1) have i: "i < length (sk_forward sk)" by (auto simp: nth_opt_def split: if_splits)
  show thesis
  proof (rule that)
    show "set_forward m sk e i v = Some (m, sk\<lparr>sk_forward := (sk_forward sk)[i := v]\<rparr>)"
      using i Head by (simp add: upd_opt_def)
    show "get_forward m (sk\<lparr>sk_forward := (sk_forward sk)[i := v]\<rparr>) e' j =
        (if e' = e \<and> j = i then Some v else get_forward m sk e' j)" for e' j
      using i Head by (cases e') (auto simp: nth_opt_def)
    show "same_frame A m sk m (sk\<lparr>sk_forward := (sk_forward sk)[i := v]\<rparr>)"
      by (simp add: same_frame_def)
  qed
next
  case (Cell a)
  with assms(1) obtain c where c: "cell_at m a = Some c" and i: "i < length (sc_forward c)"
    by (cases "cell_at m a") (auto simp: nth_opt_def split: if_splits)
  let ?c = "c\<lparr>sc_forward := (sc_forward c)[i := v]\<rparr>"
  show thesis
  proof (rule that)
    show "set_forward m sk e i v = Some (set_cell m a ?c, sk)"
      using c i Cell by (simp add: upd_opt_def)
    show "get_forward (set_cell m a ?c) sk e' j =
        (if e' = e \<and> j = i then Some v else get_forward m sk e' j)" for e' j
      using c i Cell by (cases e') (auto simp: cell_at_set_cell [OF c] nth_opt_def)
    show "same_frame A m sk (set_cell m a ?c) sk"
      using c assms(2) Cell
      by (auto simp: same_frame_def shape_def fun_eq_iff cell_at_set_cell [OF c] length_set_cell)
  qed
qed

subsection \<open>Chains\<close>

text \<open>The cursor at the end of the addresses \<open>as\<close> that follow the cursor \<open>e\<close>.\<close>

definition cur :: "cursor \<Rightarrow> nat list \<Rightarrow> cursor" where
  "cur e as = (if as = [] then e else Cell (last as))"

lemma cur_simps [simp]: "cur e [] = e" "cur e (a # as) = cur (Cell a) as"
  by (auto simp: cur_def)

lemma cur_append: "cur e (as @ bs) = cur (cur e as) bs"
  by (auto simp: cur_def)

lemma cur_cases: "cur e as = e \<or> cur e as \<in> Cell ` set as"
  by (auto simp: cur_def)

primrec chain :: "(cursor \<Rightarrow> nat option option) \<Rightarrow> cursor \<Rightarrow> nat list \<Rightarrow> bool" where
  "chain F e [] \<longleftrightarrow> F e = Some None"
| "chain F e (a # as) \<longleftrightarrow> F e = Some (Some a) \<and> chain F (Cell a) as"

lemma chain_agree:
  "chain F e as \<Longrightarrow> (\<And>x. x = e \<or> x \<in> Cell ` set as \<Longrightarrow> G x = F x) \<Longrightarrow> chain G e as"
  by (induction as arbitrary: e) auto

lemma chain_next: "chain F e (as @ bs) \<Longrightarrow>
  F (cur e as) = Some (case bs of [] \<Rightarrow> None | b # _ \<Rightarrow> Some b)"
  by (induction as arbitrary: e) (auto split: list.splits)

lemma chain_suffix: "chain F e (as @ bs) \<Longrightarrow> chain F (cur e as) bs"
  by (induction as arbitrary: e) auto

lemma chain_start_cong: "chain F e as \<Longrightarrow> G e' = F e \<Longrightarrow>
  (\<And>x. x \<in> Cell ` set as \<Longrightarrow> G x = F x) \<Longrightarrow> chain G e' as"
  by (cases as) (auto intro: chain_agree)

lemma chain_insert:
  assumes "chain F e (as @ bs)" and "distinct (as @ bs)" and "e \<notin> Cell ` set (as @ bs)"
    and "f \<notin> set (as @ bs)" and "e \<noteq> Cell f"
    and "G = (\<lambda>x. if x = Cell f then F (cur e as) else if x = cur e as then Some (Some f) else F x)"
  shows "chain G e (as @ f # bs)"
  using assms
proof (induction as arbitrary: e)
  case Nil
  have "chain G (Cell f) bs"
    by (rule chain_start_cong [of F e]) (use Nil in auto)
  with Nil show ?case by auto
next
  case (Cons a as)
  have "e \<noteq> cur (Cell a) as" using Cons.prems(3) cur_cases [of "Cell a" as] by auto
  moreover have "chain G (Cell a) (as @ f # bs)" by (rule Cons.IH) (use Cons.prems in auto)
  ultimately show ?case using Cons.prems by auto
qed

lemma chain_remove:
  assumes "chain F e (as @ f # bs)" and "distinct (as @ f # bs)" and "e \<notin> Cell ` set (as @ f # bs)"
    and "G = (\<lambda>x. if x = cur e as then F (Cell f) else F x)"
  shows "chain G e (as @ bs)"
  using assms
proof (induction as arbitrary: e)
  case Nil
  have "chain G e bs"
    by (rule chain_start_cong [of F "Cell f"]) (use Nil in auto)
  then show ?case by simp
next
  case (Cons a as)
  have "e \<noteq> cur (Cell a) as" using Cons.prems(3) cur_cases [of "Cell a" as] by auto
  moreover have "chain G (Cell a) (as @ bs)" by (rule Cons.IH) (use Cons.prems in auto)
  ultimately show ?case using Cons.prems by auto
qed

subsection \<open>The invariant\<close>

record snode =
  n_addr :: nat
  n_key :: u64
  n_data :: u64
  n_ht :: nat

definition lv :: "nat \<Rightarrow> snode list \<Rightarrow> snode list" where
  "lv i xs = filter (\<lambda>n. i < n_ht n) xs"

definition addrs :: "snode list \<Rightarrow> nat set" where
  "addrs xs = n_addr ` set xs"

definition dict :: "snode list \<Rightarrow> u64 \<Rightarrow> u64 option" where
  "dict xs = map_of (map (\<lambda>n. (n_key n, n_data n)) xs)"

definition node_ok :: "skipmem \<Rightarrow> snode \<Rightarrow> bool" where
  "node_ok m n \<longleftrightarrow> shape m (n_addr n) = Some (n_key n, n_data n, n_ht n)"

definition nodes_ok :: "skipmem \<Rightarrow> snode list \<Rightarrow> bool" where
  "nodes_ok m xs \<longleftrightarrow> (\<forall>n\<in>set xs. node_ok m n \<and> 0 < n_ht n)
     \<and> sorted_wrt (<) (map n_key xs) \<and> distinct (map n_addr xs)"

definition links_ok :: "skipmem \<Rightarrow> skiplist \<Rightarrow> snode list \<Rightarrow> bool" where
  "links_ok m sk xs \<longleftrightarrow> length (sk_forward sk) = NUM_LEVELS
     \<and> (\<forall>i<NUM_LEVELS. chain (\<lambda>e. get_forward m sk e i) Head (map n_addr (lv i xs)))"

definition level_ok :: "skiplist \<Rightarrow> snode list \<Rightarrow> bool" where
  "level_ok sk xs \<longleftrightarrow> sk_level sk < NUM_LEVELS \<and> (\<forall>n\<in>set xs. n_ht n \<le> Suc (sk_level sk))
     \<and> (sk_level sk = 0 \<or> lv (sk_level sk) xs \<noteq> [])"

definition sk_repr :: "skipmem \<Rightarrow> skiplist \<Rightarrow> snode list \<Rightarrow> bool" where
  "sk_repr m sk xs \<longleftrightarrow> nodes_ok m xs \<and> links_ok m sk xs \<and> level_ok sk xs"

lemma lv_append [simp]: "lv i (xs @ ys) = lv i xs @ lv i ys"
  by (simp add: lv_def)

lemma lv_Nil [simp]: "lv i [] = []"
  by (simp add: lv_def)

lemma lv_Cons: "lv i (n # xs) = (if i < n_ht n then n # lv i xs else lv i xs)"
  by (simp add: lv_def)

lemma set_lv [simp]: "n \<in> set (lv i xs) \<longleftrightarrow> n \<in> set xs \<and> i < n_ht n"
  by (auto simp: lv_def)

lemma lv_0: "\<forall>n\<in>set xs. 0 < n_ht n \<Longrightarrow> lv 0 xs = xs"
  by (simp add: lv_def)

lemma nodes_okD:
  assumes "nodes_ok m xs"
  shows "n \<in> set xs \<Longrightarrow> node_ok m n" "n \<in> set xs \<Longrightarrow> 0 < n_ht n"
    "sorted_wrt (<) (map n_key xs)" "distinct (map n_addr xs)"
  using assms by (auto simp: nodes_ok_def)

lemma node_ok_cell:
  assumes "node_ok m n"
  obtains c where "cell_at m (n_addr n) = Some c" and "sc_key c = n_key n" and "sc_data c = n_data n"
    and "length (sc_forward c) = n_ht n"
  using assms unfolding node_ok_def by (rule shape_SomeD)

lemma addrs_less: "nodes_ok m xs \<Longrightarrow> a \<in> addrs xs \<Longrightarrow> a < length (sk_cells m)"
  by (auto simp: nodes_ok_def addrs_def node_ok_def dest: shape_less)

text \<open>The nodes before a key and the others.\<close>

definition below :: "u64 \<Rightarrow> snode list \<Rightarrow> snode list" where
  "below k xs = takeWhile (\<lambda>n. n_key n < k) xs"

definition above :: "u64 \<Rightarrow> snode list \<Rightarrow> snode list" where
  "above k xs = dropWhile (\<lambda>n. n_key n < k) xs"

lemma below_above: "below k xs @ above k xs = xs"
  by (simp add: below_def above_def)

lemma below_less: "n \<in> set (below k xs) \<Longrightarrow> n_key n < k"
  by (auto simp: below_def dest: set_takeWhileD)

lemma above_ge:
  "sorted_wrt (<) (map n_key xs) \<Longrightarrow> n \<in> set (above k xs) \<Longrightarrow> k \<le> n_key n"
  by (induction xs) (auto simp: above_def split: if_splits)

lemma sk_repr_split:
  assumes "sk_repr m sk xs"
  obtains L R where "L = below k xs" and "R = above k xs" and "xs = L @ R"
    and "\<And>n. n \<in> set L \<Longrightarrow> n_key n < k" and "\<And>n. n \<in> set R \<Longrightarrow> k \<le> n_key n"
proof (rule that [OF refl refl])
  show "xs = below k xs @ above k xs" by (simp add: below_above)
  show "n_key n < k" if "n \<in> set (below k xs)" for n using that by (rule below_less)
  show "k \<le> n_key n" if "n \<in> set (above k xs)" for n
    using assms that by (auto simp: sk_repr_def nodes_ok_def intro: above_ge)
qed

end
