(* ===== verification/Skiplist_Search.thy ===== *)
theory Skiplist_Search
  imports Skiplist_Inv
begin

text \<open>
  The searches of skiplist.c end and find what they look for. On every level the search stops
  behind the last node that is high enough and has a smaller key; going down a level it starts
  from there.
\<close>

subsection \<open>One level\<close>

lemma update_walk_chain:
  assumes "chain (\<lambda>e. get_forward m sk e i) e (map n_addr ns)" and "\<forall>n\<in>set ns. node_ok m n"
    and "ns = Bs @ Cs" and "\<forall>n\<in>set Bs. n_key n < k" and "\<forall>n\<in>set Cs. k \<le> n_key n"
  shows "update_walk m sk k i e = Some (cur e (map n_addr Bs))"
  using assms
proof (induction ns arbitrary: e Bs)
  case Nil
  then show ?case by (subst update_walk.simps) simp
next
  case (Cons n ns)
  obtain c where "cell_at m (n_addr n) = Some c" "sc_key c = n_key n"
    using Cons.prems(2) by (auto elim: node_ok_cell)
  with Cons show ?case by (subst update_walk.simps) (cases Bs; auto)
qed

lemma find_walk_chain:
  assumes "chain (\<lambda>e. get_forward m sk e i) e (map n_addr ns)" and "\<forall>n\<in>set ns. node_ok m n"
    and "ns = Bs @ Cs" and "\<forall>n\<in>set Bs. n_key n < k" and "\<forall>n\<in>set Cs. k \<le> n_key n"
  shows "find_walk m sk k i e = Some
    (if Cs \<noteq> [] \<and> n_key (hd Cs) = k then Inl (n_data (hd Cs)) else Inr (cur e (map n_addr Bs)))"
  using assms
proof (induction ns arbitrary: e Bs)
  case Nil
  then show ?case by (subst find_walk.simps) simp
next
  case (Cons n ns)
  obtain c where c: "cell_at m (n_addr n) = Some c" "sc_key c = n_key n" "sc_data c = n_data n"
    using Cons.prems(2) by (auto elim: node_ok_cell)
  show ?case
  proof (cases Bs)
    case Nil
    then have "Cs = n # ns" using Cons.prems(3) by simp
    then have "k \<le> n_key n" using Cons.prems(5) by simp
    with Nil c \<open>Cs = n # ns\<close> Cons.prems(1) show ?thesis
      by (subst find_walk.simps) auto
  next
    case B: (Cons b Bs')
    then have e: "b = n" "ns = Bs' @ Cs" using Cons.prems(3) by simp_all
    have "find_walk m sk k i (Cell (n_addr n)) = Some
        (if Cs \<noteq> [] \<and> n_key (hd Cs) = k then Inl (n_data (hd Cs))
         else Inr (cur (Cell (n_addr n)) (map n_addr Bs')))"
      by (rule Cons.IH) (use Cons.prems B e in simp_all)
    moreover have "n_key n < k" using Cons.prems(4) B e by simp
    ultimately show ?thesis using c Cons.prems(1) B e
      by (subst find_walk.simps) auto
  qed
qed

lemma below_walk_chain:
  assumes "chain (\<lambda>e. get_forward m sk e i) e (map n_addr ns)" and "\<forall>n\<in>set ns. node_ok m n"
    and "ns = Bs @ Cs" and "\<forall>n\<in>set Bs. n_key n \<le> k" and "\<forall>n\<in>set Cs. k < n_key n"
  shows "below_walk m sk k i e lst = Some
    (cur e (map n_addr Bs), if Bs = [] then lst else Some (n_addr (last Bs)))"
  using assms
proof (induction ns arbitrary: e Bs lst)
  case Nil
  then show ?case by (subst below_walk.simps) simp
next
  case (Cons n ns)
  obtain c where "cell_at m (n_addr n) = Some c" "sc_key c = n_key n"
    using Cons.prems(2) by (auto elim: node_ok_cell)
  with Cons show ?case by (subst below_walk.simps) (cases Bs; auto)
qed

subsection \<open>Positions\<close>

definition pos :: "nat \<Rightarrow> snode list \<Rightarrow> cursor" where
  "pos i L = cur Head (map n_addr (lv i L))"

definition on_level :: "nat \<Rightarrow> snode list \<Rightarrow> cursor \<Rightarrow> bool" where
  "on_level i L e \<longleftrightarrow> e = Head \<or> (\<exists>n\<in>set (lv i L). e = Cell (n_addr n))"

lemma on_level_Head [simp]: "on_level i L Head"
  by (simp add: on_level_def)

lemma cur_Head_cases: "cur Head as = Head \<or> (\<exists>a\<in>set as. cur Head as = Cell a)"
  by (auto simp: cur_def)

lemma on_level_pos: "i \<le> j \<Longrightarrow> on_level i L (pos j L)"
  using cur_Head_cases [of "map n_addr (lv j L)"] by (auto simp: on_level_def pos_def)

lemma pos_addrs: "pos i L = Cell a \<Longrightarrow> a \<in> addrs L"
  using cur_Head_cases [of "map n_addr (lv i L)"] by (auto simp: pos_def addrs_def)

lemma level_suffix:
  assumes "nodes_ok m (L @ R)" and "links_ok m sk (L @ R)" and "i < NUM_LEVELS" and "on_level i L e"
  obtains Bs where "set Bs \<subseteq> set L" and "cur e (map n_addr Bs) = pos i L"
    and "chain (\<lambda>e. get_forward m sk e i) e (map n_addr (Bs @ lv i R))"
    and "\<forall>n\<in>set (Bs @ lv i R). node_ok m n"
proof -
  have C: "chain (\<lambda>e. get_forward m sk e i) Head (map n_addr (lv i L @ lv i R))"
    using assms(2,3) by (simp add: links_ok_def)
  consider "e = Head" | n As Bs where "e = Cell (n_addr n)" and "lv i L = As @ n # Bs"
    using assms(4) by (auto simp: on_level_def dest!: split_list)
  then obtain As Bs where AB: "lv i L = As @ Bs" "cur e (map n_addr Bs) = pos i L"
    "chain (\<lambda>e. get_forward m sk e i) e (map n_addr (Bs @ lv i R))"
  proof cases
    case 1
    with C show thesis by (intro that [of "[]"]) (auto simp: pos_def)
  next
    case 2
    with C have "chain (\<lambda>e. get_forward m sk e i) Head
        (map n_addr (As @ [n]) @ map n_addr (Bs @ lv i R))" by simp
    from chain_suffix [OF this] have "chain (\<lambda>e. get_forward m sk e i) e (map n_addr (Bs @ lv i R))"
      using 2(1) by (simp add: cur_append)
    with 2 show thesis by (intro that [of "As @ [n]" Bs]) (auto simp: pos_def cur_append)
  qed
  have Bs: "set Bs \<subseteq> set (lv i L)" using AB(1) by simp
  have "set Bs \<subseteq> set L" using Bs by auto
  moreover have "\<forall>n\<in>set (Bs @ lv i R). node_ok m n"
    using Bs nodes_okD(1) [OF assms(1)] by auto
  ultimately show thesis using AB(2,3) by (rule_tac that [of Bs])
qed

lemma pos_next:
  assumes "links_ok m sk (L @ R)" and "i < NUM_LEVELS"
  shows "get_forward m sk (pos i L) i =
    Some (case lv i R of [] \<Rightarrow> None | n # _ \<Rightarrow> Some (n_addr n))"
proof -
  have "chain (\<lambda>e. get_forward m sk e i) Head (map n_addr (lv i L) @ map n_addr (lv i R))"
    using assms by (simp add: links_ok_def)
  from chain_next [OF this] show ?thesis by (cases "lv i R") (auto simp: pos_def)
qed

lemma update_walk_level:
  assumes "nodes_ok m (L @ R)" and "links_ok m sk (L @ R)" and "i < NUM_LEVELS"
    and "on_level i L e"
    and "\<And>n. n \<in> set L \<Longrightarrow> n_key n < k" and "\<And>n. n \<in> set R \<Longrightarrow> k \<le> n_key n"
  shows "update_walk m sk k i e = Some (pos i L)"
proof -
  obtain Bs where B: "set Bs \<subseteq> set L" "cur e (map n_addr Bs) = pos i L"
    and C: "chain (\<lambda>e. get_forward m sk e i) e (map n_addr (Bs @ lv i R))"
      "\<forall>n\<in>set (Bs @ lv i R). node_ok m n"
    using level_suffix [OF assms(1-4)] .
  show ?thesis using update_walk_chain [OF C refl, of k] B assms(5,6) by auto
qed

lemma find_walk_level:
  assumes "nodes_ok m (L @ R)" and "links_ok m sk (L @ R)" and "i < NUM_LEVELS"
    and "on_level i L e"
    and "\<And>n. n \<in> set L \<Longrightarrow> n_key n < k" and "\<And>n. n \<in> set R \<Longrightarrow> k \<le> n_key n"
  shows "find_walk m sk k i e = Some
    (if lv i R \<noteq> [] \<and> n_key (hd (lv i R)) = k then Inl (n_data (hd (lv i R))) else Inr (pos i L))"
proof -
  obtain Bs where B: "set Bs \<subseteq> set L" "cur e (map n_addr Bs) = pos i L"
    and C: "chain (\<lambda>e. get_forward m sk e i) e (map n_addr (Bs @ lv i R))"
      "\<forall>n\<in>set (Bs @ lv i R). node_ok m n"
    using level_suffix [OF assms(1-4)] .
  have "\<forall>n\<in>set Bs. n_key n < k" "\<forall>n\<in>set (lv i R). k \<le> n_key n" using B(1) assms(5,6) by auto
  from find_walk_chain [OF C refl this] show ?thesis by (simp only: B(2))
qed

lemma below_walk_level:
  assumes "nodes_ok m (L @ R)" and "links_ok m sk (L @ R)" and "i < NUM_LEVELS"
    and "on_level i L e"
    and "\<And>n. n \<in> set L \<Longrightarrow> n_key n \<le> k" and "\<And>n. n \<in> set R \<Longrightarrow> k < n_key n"
    and "e = (case lst of None \<Rightarrow> Head | Some a \<Rightarrow> Cell a)"
  shows "below_walk m sk k i e lst = Some (pos i L,
    case pos i L of Head \<Rightarrow> None | Cell a \<Rightarrow> Some a)"
proof -
  obtain Bs where B: "set Bs \<subseteq> set L" "cur e (map n_addr Bs) = pos i L"
    and C: "chain (\<lambda>e. get_forward m sk e i) e (map n_addr (Bs @ lv i R))"
      "\<forall>n\<in>set (Bs @ lv i R). node_ok m n"
    using level_suffix [OF assms(1-4)] .
  have "\<forall>n\<in>set Bs. n_key n \<le> k" "\<forall>n\<in>set (lv i R). k < n_key n" using B(1) assms(5,6) by auto
  note W = below_walk_chain [OF C refl this, of lst]
  have "(if Bs = [] then lst else Some (n_addr (last Bs))) =
      (case cur e (map n_addr Bs) of Head \<Rightarrow> None | Cell a \<Rightarrow> Some a)"
    using assms(7) by (auto simp: cur_def last_map split: option.splits)
  with W show ?thesis by (simp only: B(2))
qed

subsection \<open>Lookup\<close>

lemma dict_None: "dict xs k = None \<longleftrightarrow> k \<notin> n_key ` set xs"
  by (simp add: dict_def map_of_eq_None_iff image_image)

lemma dict_append: "dict (xs @ ys) = dict ys ++ dict xs"
  by (simp add: dict_def)

lemma dict_Cons: "dict (n # xs) = (dict xs)(n_key n \<mapsto> n_data n)"
  by (simp add: dict_def)

lemma dict_node:
  assumes "sorted_wrt (<) (map n_key xs)" and "n \<in> set xs"
  shows "dict xs (n_key n) = Some (n_data n)"
proof -
  have "distinct (map n_key xs)" using assms(1) strict_sorted_iff by blast
  then have "distinct (map fst (map (\<lambda>n. (n_key n, n_data n)) xs))" by (simp add: comp_def)
  with assms(2) show ?thesis unfolding dict_def by (intro map_of_is_SomeI) auto
qed

lemma find_levels_spec:
  assumes "nodes_ok m (L @ R)" and "links_ok m sk (L @ R)"
    and "\<And>n. n \<in> set L \<Longrightarrow> n_key n < k" and "\<And>n. n \<in> set R \<Longrightarrow> k \<le> n_key n"
    and "j \<le> NUM_LEVELS" and "j \<noteq> 0 \<longrightarrow> on_level (j - 1) L e"
  shows "find_levels m sk k j e = Some (if j = 0 then None else dict (L @ R) k)"
  using assms(5,6)
proof (induction j arbitrary: e)
  case (Suc i)
  have s: "sorted_wrt (<) (map n_key (L @ R))" by (rule nodes_okD(3) [OF assms(1)])
  have W: "find_walk m sk k i e = Some
      (if lv i R \<noteq> [] \<and> n_key (hd (lv i R)) = k then Inl (n_data (hd (lv i R)))
       else Inr (pos i L))"
    by (rule find_walk_level) (use Suc.prems assms in auto)
  show ?case
  proof (cases "lv i R \<noteq> [] \<and> n_key (hd (lv i R)) = k")
    case True
    then have "hd (lv i R) \<in> set (L @ R)" using hd_in_set [of "lv i R"] by (auto simp del: hd_in_set)
    from dict_node [OF s this] W True show ?thesis by simp
  next
    case False
    then have "find_walk m sk k i e = Some (Inr (pos i L))" using W by (simp only: if_False)
    moreover have "find_levels m sk k i (pos i L) = Some (if i = 0 then None else dict (L @ R) k)"
      using Suc.prems by (intro Suc.IH) (auto intro: on_level_pos)
    moreover have "dict (L @ R) k = None" if "i = 0"
    proof -
      have "lv i R = R" using that lv_0 [of R] nodes_okD(2) [OF assms(1)] by auto
      then have R: "R = [] \<or> k < n_key (hd R)"
        using False assms(4) [of "hd R"] by (auto simp: order_less_le)
      have "k < n_key n" if "n \<in> set R" for n
        using R s that by (cases R) (auto simp: sorted_wrt_append intro: order_less_trans)
      with assms(3) show ?thesis by (fastforce simp: dict_None)
    qed
    ultimately show ?thesis by auto
  qed
qed simp

theorem find_spec:
  assumes "sk_repr m sk xs"
  shows "caml_skiplist_find m sk k = Some (dict xs k)"
proof -
  obtain L R where "xs = L @ R" "\<And>n. n \<in> set L \<Longrightarrow> n_key n < k" "\<And>n. n \<in> set R \<Longrightarrow> k \<le> n_key n"
    using sk_repr_split [OF assms] by metis
  with assms show ?thesis
    using find_levels_spec [of m L R sk k "Suc (sk_level sk)" Head]
    by (simp add: caml_skiplist_find_def sk_repr_def level_ok_def)
qed

subsection \<open>The largest key that is not above\<close>

lemma below_levels_spec:
  assumes "nodes_ok m (L @ R)" and "links_ok m sk (L @ R)"
    and "\<And>n. n \<in> set L \<Longrightarrow> n_key n \<le> k" and "\<And>n. n \<in> set R \<Longrightarrow> k < n_key n"
    and "j \<le> NUM_LEVELS" and "j \<noteq> 0 \<longrightarrow> on_level (j - 1) L e"
    and "e = (case lst of None \<Rightarrow> Head | Some a \<Rightarrow> Cell a)"
  shows "below_levels m sk k j e lst =
    Some (if j = 0 then lst else case pos 0 L of Head \<Rightarrow> None | Cell a \<Rightarrow> Some a)"
  using assms(5-)
proof (induction j arbitrary: e lst)
  case (Suc i)
  have W: "below_walk m sk k i e lst = Some (pos i L,
      case pos i L of Head \<Rightarrow> None | Cell a \<Rightarrow> Some a)"
    by (rule below_walk_level) (use Suc.prems assms in auto)
  have "below_levels m sk k i (pos i L) (case pos i L of Head \<Rightarrow> None | Cell a \<Rightarrow> Some a) =
      Some (if i = 0 then (case pos i L of Head \<Rightarrow> None | Cell a \<Rightarrow> Some a)
            else case pos 0 L of Head \<Rightarrow> None | Cell a \<Rightarrow> Some a)"
    using Suc.prems by (intro Suc.IH) (auto intro: on_level_pos split: cursor.splits)
  with W show ?case by auto
qed simp

lemma dropWhile_le_above:
  "sorted_wrt (<) (map n_key xs) \<Longrightarrow> n \<in> set (dropWhile (\<lambda>n. n_key n \<le> k) xs) \<Longrightarrow> k < n_key n"
  by (induction xs) (auto split: if_splits)

theorem find_below_spec:
  assumes "sk_repr m sk xs"
  shows "caml_skiplist_find_below m sk k = Some
    (let L = filter (\<lambda>n. n_key n \<le> k) xs
     in if L = [] then None else Some (n_key (last L), n_data (last L)))"
proof -
  let ?L = "takeWhile (\<lambda>n. n_key n \<le> k) xs" and ?R = "dropWhile (\<lambda>n. n_key n \<le> k) xs"
  have N: "nodes_ok m (?L @ ?R)" "links_ok m sk (?L @ ?R)" "sk_level sk < NUM_LEVELS"
    using assms by (auto simp: sk_repr_def level_ok_def)
  have s: "sorted_wrt (<) (map n_key (?L @ ?R))" by (rule nodes_okD(3) [OF N(1)])
  have R: "k < n_key n" if "n \<in> set ?R" for n
    using dropWhile_le_above [of xs n k] s that by (simp del: map_append)
  have L: "n_key n \<le> k" if "n \<in> set ?L" for n using that by (auto dest: set_takeWhileD)
  have F: "filter (\<lambda>n. n_key n \<le> k) xs = ?L"
    using R L by (subst takeWhile_dropWhile_id [symmetric, of xs "\<lambda>n. n_key n \<le> k"], subst filter_append)
      (auto simp: filter_empty_conv not_le simp del: takeWhile_dropWhile_id intro!: filter_True)
  have B: "below_levels m sk k (Suc (sk_level sk)) Head None =
      Some (case pos 0 ?L of Head \<Rightarrow> None | Cell a \<Rightarrow> Some a)"
    using below_levels_spec [OF N(1,2) L R, of "Suc (sk_level sk)" Head None] N(3) by simp
  have l0: "lv 0 ?L = ?L" using nodes_okD(2) [OF N(1)] by (intro lv_0) (auto dest: set_takeWhileD)
  show ?thesis
  proof (cases "?L = []")
    case True
    with B show ?thesis by (simp add: caml_skiplist_find_below_def F l0 pos_def)
  next
    case False
    then have "node_ok m (last ?L)" using nodes_okD(1) [OF N(1), of "last ?L"]
      by (metis UnCI last_in_set set_append)
    then obtain c where "cell_at m (n_addr (last ?L)) = Some c" "sc_key c = n_key (last ?L)"
      "sc_data c = n_data (last ?L)" by (rule node_ok_cell)
    with B False show ?thesis
      by (simp add: caml_skiplist_find_below_def F l0 pos_def cur_def last_map Let_def)
  qed
qed

subsection \<open>The update array\<close>

lemma update_levels_spec:
  assumes "nodes_ok m (L @ R)" and "links_ok m sk (L @ R)"
    and "\<And>n. n \<in> set L \<Longrightarrow> n_key n < k" and "\<And>n. n \<in> set R \<Longrightarrow> k \<le> n_key n"
    and "j \<le> NUM_LEVELS" and "j \<noteq> 0 \<longrightarrow> on_level (j - 1) L e" and "length upd = NUM_LEVELS"
  shows "\<exists>upd'. update_levels m sk k j e upd = Some (if j = 0 then e else pos 0 L, upd')
    \<and> length upd' = NUM_LEVELS
    \<and> (\<forall>i<NUM_LEVELS. upd' ! i = (if i < j then Some (pos i L, i) else upd ! i))"
  using assms(5-)
proof (induction j arbitrary: e upd)
  case (Suc i)
  have W: "update_walk m sk k i e = Some (pos i L)"
    by (rule update_walk_level) (use Suc.prems assms in auto)
  have "\<exists>upd'. update_levels m sk k i (pos i L) (upd[i := Some (pos i L, i)]) =
        Some (if i = 0 then pos i L else pos 0 L, upd')
      \<and> length upd' = NUM_LEVELS
      \<and> (\<forall>j<NUM_LEVELS. upd' ! j =
            (if j < i then Some (pos j L, j) else upd[i := Some (pos i L, i)] ! j))"
    using Suc.prems by (intro Suc.IH) (auto intro: on_level_pos)
  then obtain upd' where u: "update_levels m sk k i (pos i L) (upd[i := Some (pos i L, i)]) =
        Some (if i = 0 then pos i L else pos 0 L, upd')" "length upd' = NUM_LEVELS"
      "\<forall>j<NUM_LEVELS. upd' ! j =
            (if j < i then Some (pos j L, j) else upd[i := Some (pos i L, i)] ! j)"
    by blast
  have "update_levels m sk k (Suc i) e upd = Some (pos 0 L, upd')"
    using W u(1) Suc.prems by (auto simp: upd_opt_def)
  moreover have "\<forall>j<NUM_LEVELS. upd' ! j = (if j < Suc i then Some (pos j L, j) else upd ! j)"
    using u(3) Suc.prems by (auto simp: less_Suc_eq)
  ultimately show ?case using u(2) by auto
qed simp

lemma search_update_spec:
  assumes "sk_repr m sk (L @ R)"
    and "\<And>n. n \<in> set L \<Longrightarrow> n_key n < k" and "\<And>n. n \<in> set R \<Longrightarrow> k \<le> n_key n"
  obtains upd where "search_update m sk k = Some (pos 0 L, upd)" and "length upd = NUM_LEVELS"
    and "\<And>i. i \<le> sk_level sk \<Longrightarrow> update_slot upd i = Some (pos i L, i)"
proof -
  have l: "sk_level sk < NUM_LEVELS" using assms(1) by (simp add: sk_repr_def level_ok_def)
  obtain upd where "search_update m sk k = Some (pos 0 L, upd)" "length upd = NUM_LEVELS"
    "\<forall>i<NUM_LEVELS. upd ! i =
        (if i < Suc (sk_level sk) then Some (pos i L, i) else replicate NUM_LEVELS None ! i)"
    using update_levels_spec [of m L R sk k "Suc (sk_level sk)" Head "replicate NUM_LEVELS None"]
      assms l unfolding search_update_def sk_repr_def by auto
  with l show thesis by (intro that [of upd]) (auto simp: update_slot_def nth_opt_def)
qed

lemma cell_with_key_spec:
  assumes "sk_repr m sk (L @ R)" and "\<And>n. n \<in> set R \<Longrightarrow> k \<le> n_key n"
  shows "cell_with_key m sk k (pos 0 L) = Some
    (case R of [] \<Rightarrow> None
     | n # _ \<Rightarrow> if n_key n = k then Some (n_addr n, the (cell_at m (n_addr n))) else None)"
proof -
  have N: "nodes_ok m (L @ R)" "links_ok m sk (L @ R)" using assms(1) by (auto simp: sk_repr_def)
  have "lv 0 R = R" using nodes_okD(2) [OF N(1)] by (intro lv_0) auto
  then have P: "get_forward m sk (pos 0 L) 0 =
      Some (case R of [] \<Rightarrow> None | n # _ \<Rightarrow> Some (n_addr n))"
    using pos_next [OF N(2), of 0] by simp
  show ?thesis
  proof (cases R)
    case (Cons n R')
    then have "node_ok m n" using nodes_okD(1) [OF N(1)] by auto
    then obtain c where "cell_at m (n_addr n) = Some c" "sc_key c = n_key n" by (rule node_ok_cell)
    with P Cons show ?thesis by (simp add: cell_with_key_def)
  qed (use P in \<open>simp add: cell_with_key_def\<close>)
qed

end
