(* ===== verification/Skiplist_Update.thy ===== *)
theory Skiplist_Update
  imports Skiplist_Search
begin

text \<open>
  Insertion, deletion and emptying keep the invariant of a skip list and change its dictionary as
  they should; they only write to the cells of their own list and to new cells.
\<close>

subsection \<open>Other lists\<close>

text \<open>What an operation on the list with nodes \<open>xs\<close> keeps of the rest of the heap.\<close>

definition separate :: "skipmem \<Rightarrow> snode list \<Rightarrow> skipmem \<Rightarrow> snode list \<Rightarrow> bool" where
  "separate m xs m' xs' \<longleftrightarrow>
     length (sk_cells m) \<le> length (sk_cells m')
     \<and> (\<forall>a<length (sk_cells m). a \<notin> addrs xs \<longrightarrow> cell_at m' a = cell_at m a)
     \<and> (\<forall>a\<in>addrs xs'. a \<in> addrs xs \<or> length (sk_cells m) \<le> a)"

lemma sk_repr_cong:
  assumes "sk_repr m sk xs" and "\<And>a. a \<in> addrs xs \<Longrightarrow> cell_at m' a = cell_at m a"
  shows "sk_repr m' sk xs"
proof -
  have "nodes_ok m' xs"
    using assms by (auto simp: sk_repr_def nodes_ok_def node_ok_def shape_def addrs_def)
  moreover have "chain (\<lambda>e. get_forward m' sk e i) Head (map n_addr (lv i xs))" if "i < NUM_LEVELS" for i
  proof (rule chain_agree)
    show "chain (\<lambda>e. get_forward m sk e i) Head (map n_addr (lv i xs))"
      using assms(1) that by (simp add: sk_repr_def links_ok_def)
    show "get_forward m' sk e i = get_forward m sk e i"
      if "e = Head \<or> e \<in> Cell ` set (map n_addr (lv i xs))" for e
      using that assms(2) by (auto simp: addrs_def)
  qed
  ultimately show ?thesis using assms(1) by (simp add: sk_repr_def links_ok_def)
qed

lemma separate_other:
  assumes "separate m xs m' xs'" and "sk_repr m sk ys" and "addrs xs \<inter> addrs ys = {}"
  shows "sk_repr m' sk ys" and "addrs xs' \<inter> addrs ys = {}"
proof -
  have l: "a < length (sk_cells m)" if "a \<in> addrs ys" for a
    using assms(2) that by (auto simp: sk_repr_def dest: addrs_less)
  show "sk_repr m' sk ys"
    using assms l by (intro sk_repr_cong [OF assms(2)]) (auto simp: separate_def)
  show "addrs xs' \<inter> addrs ys = {}"
    using assms l by (fastforce simp: separate_def)
qed

subsection \<open>Insertion\<close>

lemma update_slot_update:
  "i < length upd \<Longrightarrow> update_slot (upd[i := Some s]) j = (if j = i then Some s else update_slot upd j)"
  by (simp add: update_slot_def nth_opt_def)

lemma head_slots_spec:
  assumes "\<forall>i\<in>set is. i < length upd"
  shows "\<exists>upd'. head_slots is upd = Some upd'
    \<and> (\<forall>j. update_slot upd' j = (if j \<in> set is then Some (Head, j) else update_slot upd j))"
  using assms
proof (induction "is" arbitrary: upd)
  case (Cons i "is")
  then have "\<exists>upd'. head_slots is (upd[i := Some (Head, i)]) = Some upd'
    \<and> (\<forall>j. update_slot upd' j = (if j \<in> set is then Some (Head, j)
         else update_slot (upd[i := Some (Head, i)]) j))" by simp
  then show ?case using Cons.prems
    by (auto simp: upd_opt_def update_slot_update)
qed simp

lemma raise_level_spec:
  assumes "level_ok sk (L @ R)" and "length upd = NUM_LEVELS" and "new_level < NUM_LEVELS"
    and "\<And>i. i \<le> sk_level sk \<Longrightarrow> update_slot upd i = Some (pos i L, i)"
  obtains upd' where
    "raise_level sk new_level upd = Some (sk\<lparr>sk_level := max (sk_level sk) new_level\<rparr>, upd')"
    and "\<And>i. i \<le> max (sk_level sk) new_level \<Longrightarrow> update_slot upd' i = Some (pos i L, i)"
proof (cases "sk_level sk < new_level")
  case True
  obtain upd' where u: "head_slots [sk_level sk + 1..<new_level + 1] upd = Some upd'"
    "\<forall>j. update_slot upd' j = (if j \<in> set [sk_level sk + 1..<new_level + 1] then Some (Head, j)
       else update_slot upd j)"
    using head_slots_spec [of "[sk_level sk + 1..<new_level + 1]" upd] assms(2,3)
    by (auto simp del: upt_Suc)
  have "lv i L = []" if "sk_level sk < i" for i
  proof -
    have "\<not> i < n_ht n" if "n \<in> set L" for n
    proof -
      have "n_ht n \<le> Suc (sk_level sk)" using assms(1) that by (simp add: level_ok_def)
      with \<open>sk_level sk < i\<close> show ?thesis by simp
    qed
    then show ?thesis by (simp add: lv_def filter_empty_conv)
  qed
  then have "update_slot upd' i = Some (pos i L, i)" if "i \<le> new_level" for i
    using that u(2) assms(4) by (auto simp: pos_def simp del: upt_Suc)
  with True u(1) show thesis by (intro that [of upd']) (auto simp: raise_level_def max_def simp del: upt_Suc)
next
  case False
  then show thesis using assms(4)
    by (intro that [of upd]) (auto simp: raise_level_def max_def)
qed

lemma link_levels_spec:
  assumes "distinct is"
    and "\<And>i. i \<in> set is \<Longrightarrow> update_slot upd i = Some (P i, i)"
    and "\<And>i. i \<in> set is \<Longrightarrow> get_forward m sk (P i) i \<noteq> None"
    and "\<And>i. i \<in> set is \<Longrightarrow> get_forward m sk (Cell f) i \<noteq> None"
    and "\<And>i. i \<in> set is \<Longrightarrow> P i \<noteq> Cell f"
    and "\<And>i a. P i = Cell a \<Longrightarrow> a \<in> A" and "f \<in> A"
  shows "\<exists>m' sk'. link_levels upd f is m sk = Some (m', sk') \<and> same_frame A m sk m' sk'
    \<and> (\<forall>e j. get_forward m' sk' e j =
        (if j \<in> set is \<and> e = Cell f then get_forward m sk (P j) j
         else if j \<in> set is \<and> e = P j then Some (Some f) else get_forward m sk e j))"
  using assms(1-5)
proof (induction "is" arbitrary: m sk)
  case (Cons i "is")
  obtain p where p: "get_forward m sk (P i) i = Some p" using Cons.prems(3) by fastforce
  obtain m1 sk1 where 1: "set_forward m sk (Cell f) i p = Some (m1, sk1)"
    "\<And>e' j. get_forward m1 sk1 e' j = (if e' = Cell f \<and> j = i then Some p else get_forward m sk e' j)"
    "same_frame A m sk m1 sk1"
    using set_forward_ok [of m sk "Cell f" i A p] Cons.prems(4) assms(7)
    by (metis cursor.inject list.set_intros(1))
  have "get_forward m1 sk1 (P i) i \<noteq> None" using p by (simp add: 1(2))
  then obtain m2 sk2 where 2: "set_forward m1 sk1 (P i) i (Some f) = Some (m2, sk2)"
    "\<And>e' j. get_forward m2 sk2 e' j = (if e' = P i \<and> j = i then Some (Some f) else get_forward m1 sk1 e' j)"
    "same_frame A m1 sk1 m2 sk2"
    using set_forward_ok [of m1 sk1 "P i" i A "Some f"] assms(6) by metis
  have "\<exists>m' sk'. link_levels upd f is m2 sk2 = Some (m', sk') \<and> same_frame A m2 sk2 m' sk'
    \<and> (\<forall>e j. get_forward m' sk' e j =
        (if j \<in> set is \<and> e = Cell f then get_forward m2 sk2 (P j) j
         else if j \<in> set is \<and> e = P j then Some (Some f) else get_forward m2 sk2 e j))"
    using Cons.prems by (intro Cons.IH) (auto simp: 1(2) 2(2) simp del: get_forward.simps)
  then obtain m' sk' where 3: "link_levels upd f is m2 sk2 = Some (m', sk')"
    "same_frame A m2 sk2 m' sk'"
    "\<And>e j. get_forward m' sk' e j =
        (if j \<in> set is \<and> e = Cell f then get_forward m2 sk2 (P j) j
         else if j \<in> set is \<and> e = P j then Some (Some f) else get_forward m2 sk2 e j)"
    by auto
  have "link_levels upd f (i # is) m sk = Some (m', sk')"
    using Cons.prems(2) p 1(1) 2(1) 3(1) by (simp del: get_forward.simps set_forward.simps)
  moreover have "same_frame A m sk m' sk'"
    using 1(3) 2(3) 3(2) by (blast intro: same_frame_trans)
  moreover have "get_forward m' sk' e j =
        (if j \<in> set (i # is) \<and> e = Cell f then get_forward m sk (P j) j
         else if j \<in> set (i # is) \<and> e = P j then Some (Some f) else get_forward m sk e j)" for e j
    using Cons.prems(1,5) p by (auto simp: 3(3) 2(2) 1(2) simp del: get_forward.simps)
  ultimately show ?case by blast
qed simp

lemma pos_not_None: "links_ok m sk (L @ R) \<Longrightarrow> i < NUM_LEVELS \<Longrightarrow> get_forward m sk (pos i L) i \<noteq> None"
  by (simp add: pos_next)

text \<open>The invariant after the new node \<open>n\<close> was linked on its levels.\<close>

lemma chain_insert_node:
  assumes "chain F Head (map n_addr (lv i L @ lv i R))" and "distinct (map n_addr (L @ R))"
    and "n_addr n \<notin> addrs (L @ R)" and "i < n_ht n"
    and "G = (\<lambda>e. if e = Cell (n_addr n) then F (pos i L) else if e = pos i L then Some (Some (n_addr n)) else F e)"
  shows "chain G Head (map n_addr (lv i (L @ n # R)))"
proof -
  have d: "distinct (map n_addr (lv i (L @ R)))"
    unfolding lv_def by (rule distinct_map_filter) (rule assms(2))
  have "chain G Head (map n_addr (lv i L) @ n_addr n # map n_addr (lv i R))"
    by (rule chain_insert [of F]) (use assms d in \<open>auto simp: pos_def addrs_def\<close>)
  with assms(4) show ?thesis by (simp add: lv_Cons)
qed

lemma nodes_ok_insert:
  assumes "nodes_ok m (L @ R)" and "\<And>a. a \<in> addrs (L @ R) \<Longrightarrow> shape m' a = shape m a"
    and "node_ok m' n" and "0 < n_ht n" and "n_addr n \<notin> addrs (L @ R)"
    and "\<And>x. x \<in> set L \<Longrightarrow> n_key x < n_key n" and "\<And>x. x \<in> set R \<Longrightarrow> n_key n < n_key x"
  shows "nodes_ok m' (L @ n # R)"
  using assms by (auto simp: nodes_ok_def node_ok_def addrs_def sorted_wrt_append)

lemma level_ok_insert:
  assumes "level_ok sk (L @ R)" and "n_ht n = new + 1" and "new < NUM_LEVELS"
    and "sk_level sk' = max (sk_level sk) new"
  shows "level_ok sk' (L @ n # R)"
proof -
  have "n_ht x \<le> Suc (sk_level sk')" if "x \<in> set (L @ n # R)" for x
  proof -
    have "x = n \<or> n_ht x \<le> Suc (sk_level sk)" using assms(1) that by (auto simp: level_ok_def)
    with assms(2,4) show ?thesis by auto
  qed
  moreover have "sk_level sk' = 0 \<or> lv (sk_level sk') (L @ n # R) \<noteq> []"
  proof (cases "sk_level sk < new")
    case True
    with assms(2,4) show ?thesis by (simp add: lv_Cons)
  next
    case False
    then have "sk_level sk' = sk_level sk" using assms(4) by simp
    with assms(1) show ?thesis by (auto simp: level_ok_def lv_Cons)
  qed
  ultimately show ?thesis using assms by (auto simp: level_ok_def)
qed

text \<open>The links after a node was linked on its levels, given what every slot then holds.\<close>

lemma links_ok_insert:
  assumes "links_ok m sk (L @ R)" and "distinct (map n_addr (L @ R))" and "n_addr n \<notin> addrs (L @ R)"
    and "length (sk_forward sk') = NUM_LEVELS"
    and fw: "\<And>e i. get_forward m' sk' e i =
      (if i < n_ht n \<and> e = Cell (n_addr n) then get_forward m sk (pos i L) i
       else if i < n_ht n \<and> e = pos i L then Some (Some (n_addr n))
       else if e = Cell (n_addr n) then None else get_forward m sk e i)"
  shows "links_ok m' sk' (L @ n # R)"
proof -
  have "chain (\<lambda>e. get_forward m' sk' e i) Head (map n_addr (lv i (L @ n # R)))"
    if i: "i < NUM_LEVELS" for i
  proof -
    let ?F = "\<lambda>e. if e = Cell (n_addr n) then None else get_forward m sk e i"
    have C: "chain ?F Head (map n_addr (lv i L @ lv i R))"
    proof (rule chain_agree)
      show "chain (\<lambda>e. get_forward m sk e i) Head (map n_addr (lv i L @ lv i R))"
        using assms(1) i by (simp add: links_ok_def)
    qed (use assms(3) in \<open>auto simp: addrs_def\<close>)
    have "pos i L \<noteq> Cell (n_addr n)" using assms(3) by (auto simp: addrs_def dest!: pos_addrs)
    then have "chain (\<lambda>e. get_forward m' sk' e i) Head (map n_addr (lv i (L @ n # R)))" if "i < n_ht n"
      using that assms(2,3) by (intro chain_insert_node [OF C]) (auto simp: fw fun_eq_iff)
    moreover have "(\<lambda>e. get_forward m' sk' e i) = ?F" if "\<not> i < n_ht n" using that by (auto simp: fw)
    ultimately show ?thesis using C by (cases "i < n_ht n") (auto simp: lv_Cons)
  qed
  with assms(4) show ?thesis by (simp add: links_ok_def)
qed

lemma link_new_cell:
  assumes "links_ok m sk (L @ R)" and "f \<notin> addrs (L @ R)" and "new < NUM_LEVELS"
    and "\<And>i. i \<le> new \<Longrightarrow> update_slot upd i = Some (pos i L, i)"
    and gf: "\<And>e i. get_forward m2 sk1 e i =
      (if e = Cell f then if i \<le> new then Some None else None else get_forward m sk e i)"
  obtains m' sk' where "link_levels upd f [0..<new + 1] m2 sk1 = Some (m', sk')"
    and "same_frame (insert f (addrs (L @ R))) m2 sk1 m' sk'"
    and "\<And>e i. get_forward m' sk' e i =
      (if i \<le> new \<and> e = Cell f then get_forward m sk (pos i L) i
       else if i \<le> new \<and> e = pos i L then Some (Some f)
       else if e = Cell f then None else get_forward m sk e i)"
proof -
  have pf: "pos i L \<noteq> Cell f" for i using assms(2) by (auto simp: addrs_def dest!: pos_addrs)
  have "\<exists>m' sk'. link_levels upd f [0..<new + 1] m2 sk1 = Some (m', sk')
    \<and> same_frame (insert f (addrs (L @ R))) m2 sk1 m' sk'
    \<and> (\<forall>e j. get_forward m' sk' e j =
        (if j \<in> set [0..<new + 1] \<and> e = Cell f then get_forward m2 sk1 (pos j L) j
         else if j \<in> set [0..<new + 1] \<and> e = pos j L then Some (Some f) else get_forward m2 sk1 e j))"
  proof (rule link_levels_spec)
    show "get_forward m2 sk1 (pos i L) i \<noteq> None" if "i \<in> set [0..<new + 1]" for i
      using that pos_not_None [OF assms(1), of i] assms(3) pf unfolding gf by auto
    show "get_forward m2 sk1 (Cell f) i \<noteq> None" if "i \<in> set [0..<new + 1]" for i
      using that unfolding gf by auto
    show "a \<in> insert f (addrs (L @ R))" if "pos i L = Cell a" for i a
      using pos_addrs [OF that] by (auto simp: addrs_def)
  qed (use assms(4) pf in auto)
  then obtain m' sk' where "link_levels upd f [0..<new + 1] m2 sk1 = Some (m', sk')"
    "same_frame (insert f (addrs (L @ R))) m2 sk1 m' sk'"
    "\<And>e j. get_forward m' sk' e j =
        (if j \<in> set [0..<new + 1] \<and> e = Cell f then get_forward m2 sk1 (pos j L) j
         else if j \<in> set [0..<new + 1] \<and> e = pos j L then Some (Some f) else get_forward m2 sk1 e j)"
    by blast
  with pf show thesis by (intro that [of m' sk']) (auto simp: gf simp del: upt_Suc get_forward.simps)
qed

lemma insert_cell_spec:
  assumes "sk_repr m sk (L @ R)"
    and "\<And>n. n \<in> set L \<Longrightarrow> n_key n < k" and "\<And>n. n \<in> set R \<Longrightarrow> k < n_key n"
    and "length upd = NUM_LEVELS"
    and "\<And>i. i \<le> sk_level sk \<Longrightarrow> update_slot upd i = Some (pos i L, i)"
  obtains m' sk' n where "insert_cell m sk k d upd = Some (m', sk')" and "sk_repr m' sk' (L @ n # R)"
    and "n_key n = k" and "n_data n = d" and "separate m (L @ R) m' (L @ n # R)"
proof -
  have N: "nodes_ok m (L @ R)" "links_ok m sk (L @ R)" "level_ok sk (L @ R)"
    using assms(1) by (auto simp: sk_repr_def)
  obtain new m1 where 1: "random_level m = Some (new, m1)" "new < NUM_LEVELS"
    "sk_cells m1 = sk_cells m" by (rule random_level_bound)
  obtain upd1 where 2:
    "raise_level sk new upd = Some (sk\<lparr>sk_level := max (sk_level sk) new\<rparr>, upd1)"
    "\<And>i. i \<le> max (sk_level sk) new \<Longrightarrow> update_slot upd1 i = Some (pos i L, i)"
    using raise_level_spec [OF N(3) assms(4) 1(2) assms(5)] by metis
  define f where "f = length (sk_cells m)"
  define c where "c = \<lparr>sc_key = k, sc_data = d, sc_forward = replicate (new + 1) (None :: nat option)\<rparr>"
  define m2 where "m2 = m1\<lparr>sk_cells := sk_cells m1 @ [Some c]\<rparr>"
  define sk1 where "sk1 = sk\<lparr>sk_level := max (sk_level sk) new\<rparr>"
  define n where "n = \<lparr>n_addr = f, n_key = k, n_data = d, n_ht = new + 1\<rparr>"
  have f: "f \<notin> addrs (L @ R)" using addrs_less [OF N(1)] by (auto simp: f_def)
  have ca: "cell_at m2 a = (if a = f then Some c else cell_at m a)" for a
    using cell_at_alloc [of m1 c a] cell_at_cells [OF 1(3)]
    by (simp only: m2_def f_def 1(3))
  have gf: "get_forward m2 sk1 e i =
      (if e = Cell f then if i \<le> new then Some None else None else get_forward m sk e i)" for e i
    by (cases e) (auto simp: ca sk1_def c_def nth_opt_def nth_append simp del: replicate_Suc)
  obtain m' sk' where 3: "link_levels upd1 f [0..<new + 1] m2 sk1 = Some (m', sk')"
    "same_frame (insert f (addrs (L @ R))) m2 sk1 m' sk'"
    "\<And>e i. get_forward m' sk' e i =
      (if i \<le> new \<and> e = Cell f then get_forward m sk (pos i L) i
       else if i \<le> new \<and> e = pos i L then Some (Some f)
       else if e = Cell f then None else get_forward m sk e i)"
    using link_new_cell [OF N(2) f 1(2) _ gf, of upd1] 2(2) by (metis max.coboundedI2)
  have "insert_cell m sk k d upd = Some (m', sk')"
    using 1(1) 2(1) 3(1) 1(3)
    by (simp add: insert_cell_def stat_alloc_cell_def m2_def sk1_def c_def f_def del: upt_Suc)
  moreover have "nodes_ok m' (L @ n # R)"
  proof (rule nodes_ok_insert [OF N(1)])
    show "shape m' a = shape m a" if "a \<in> addrs (L @ R)" for a
      using that f 3(2) by (auto simp: same_frame_def shape_def ca)
    show "node_ok m' n"
      using 3(2) by (simp add: same_frame_def node_ok_def n_def) (simp add: shape_def ca c_def)
  qed (use f assms(2,3) in \<open>auto simp: n_def\<close>)
  moreover have "length (sk_forward sk') = NUM_LEVELS" "level_ok sk' (L @ n # R)"
    using 3(2) N(2) level_ok_insert [OF N(3) _ 1(2), of n sk']
    by (auto simp: same_frame_def sk1_def links_ok_def n_def)
  moreover have "links_ok m' sk' (L @ n # R)"
    using calculation(3) f
    by (intro links_ok_insert [OF N(2) nodes_okD(4) [OF N(1)]]) (auto simp: 3(3) n_def)
  moreover have "length (sk_cells m2) = Suc (length (sk_cells m))" by (simp add: m2_def 1(3))
  then have "separate m (L @ R) m' (L @ n # R)"
    using 3(2) by (auto simp: same_frame_def separate_def n_def ca addrs_def f_def)
  ultimately show thesis
    by (intro that [of m' sk' n]) (auto simp: sk_repr_def n_def)
qed

lemma dict_insert:
  assumes "\<And>x. x \<in> set L \<Longrightarrow> n_key x < n_key n"
  shows "dict (L @ n # R) = (dict (L @ R))(n_key n \<mapsto> n_data n)"
proof -
  have "dict L (n_key n) = None" using assms by (force simp: dict_None)
  then show ?thesis
    by (auto simp: dict_append dict_Cons fun_eq_iff map_add_def split: option.splits)
qed

text \<open>Only the data of a node changes when its key is there.\<close>

lemma set_data_spec:
  assumes "sk_repr m sk (L @ n # R)" and "cell_at m (n_addr n) = Some c"
  shows "sk_repr (set_cell m (n_addr n) (c\<lparr>sc_data := d\<rparr>)) sk (L @ n\<lparr>n_data := d\<rparr> # R)"
    and "separate m (L @ n # R) (set_cell m (n_addr n) (c\<lparr>sc_data := d\<rparr>)) (L @ n\<lparr>n_data := d\<rparr> # R)"
proof -
  let ?m = "set_cell m (n_addr n) (c\<lparr>sc_data := d\<rparr>)" and ?n = "n\<lparr>n_data := d\<rparr>"
  have N: "nodes_ok m (L @ n # R)" "links_ok m sk (L @ n # R)" "level_ok sk (L @ n # R)"
    using assms(1) by (auto simp: sk_repr_def)
  have gf: "get_forward ?m sk e i = get_forward m sk e i" for e i
    using assms(2) by (cases e) (auto simp: cell_at_set_cell [OF assms(2)])
  have "node_ok ?m x" if "x \<in> set L \<or> x \<in> set R" for x
  proof -
    have "n_addr x \<noteq> n_addr n" using nodes_okD(4) [OF N(1)] that
      by (auto simp: image_iff)
    with nodes_okD(1) [OF N(1), of x] that show ?thesis
      by (auto simp: node_ok_def shape_def cell_at_set_cell [OF assms(2)])
  qed
  moreover have "node_ok ?m ?n"
    using nodes_okD(1) [OF N(1), of n] assms(2)
    by (auto simp: node_ok_def shape_def cell_at_set_cell [OF assms(2)])
  ultimately have "nodes_ok ?m (L @ ?n # R)"
    using N(1) by (auto simp: nodes_ok_def)
  moreover have lvs: "map n_addr (lv i (L @ ?n # R)) = map n_addr (lv i (L @ n # R))" for i
    by (simp add: lv_Cons)
  have "links_ok ?m sk (L @ ?n # R)"
    using N(2) unfolding links_ok_def gf lvs .
  moreover have "level_ok sk (L @ ?n # R)"
    using N(3) lvs [of "sk_level sk"] unfolding level_ok_def by (auto simp del: lv_append)
  ultimately show "sk_repr ?m sk (L @ ?n # R)" by (simp add: sk_repr_def)
  show "separate m (L @ n # R) ?m (L @ ?n # R)"
    by (auto simp: separate_def addrs_def cell_at_set_cell [OF assms(2)] length_set_cell)
qed

lemma strictly_above:
  assumes "sorted_wrt (<) (map n_key (L @ R))" and "\<And>n. n \<in> set R \<Longrightarrow> k \<le> n_key n"
    and "\<not> (\<exists>n R'. R = n # R' \<and> n_key n = k)" and "n \<in> set R"
  shows "k < n_key n"
proof (cases R)
  case (Cons n' R')
  then have "k < n_key n'" using assms(3) assms(2) [of n'] by (auto simp: order_less_le)
  with Cons assms(1,4) show ?thesis by (auto simp: sorted_wrt_append intro: order_less_trans)
qed (use assms(4) in simp)

theorem insert_spec:
  assumes "sk_repr m sk xs"
  shows "\<exists>m' sk' xs'. caml_skiplist_insert m sk k d = Some (m', sk', dict xs k \<noteq> None)
    \<and> sk_repr m' sk' xs' \<and> dict xs' = (dict xs)(k \<mapsto> d) \<and> separate m xs m' xs'"
proof -
  obtain L R where xs: "xs = L @ R" and L: "\<And>n. n \<in> set L \<Longrightarrow> n_key n < k"
    and R: "\<And>n. n \<in> set R \<Longrightarrow> k \<le> n_key n"
    using sk_repr_split [OF assms] by metis
  note rep = assms [unfolded xs]
  have s: "sorted_wrt (<) (map n_key (L @ R))" using rep by (simp add: sk_repr_def nodes_ok_def)
  obtain upd where u: "search_update m sk k = Some (pos 0 L, upd)" "length upd = NUM_LEVELS"
    "\<And>i. i \<le> sk_level sk \<Longrightarrow> update_slot upd i = Some (pos i L, i)"
    using search_update_spec [OF rep L R] by blast
  note c = cell_with_key_spec [OF rep R]
  show ?thesis
  proof (cases "\<exists>n R'. R = n # R' \<and> n_key n = k")
    case True
    then obtain n R' where n: "R = n # R'" "n_key n = k" by auto
    then have "node_ok m n" using rep by (auto simp: sk_repr_def nodes_ok_def)
    then obtain c' where c': "cell_at m (n_addr n) = Some c'" by (auto elim: node_ok_cell)
    note D = set_data_spec [OF rep [unfolded n(1)] c', of d]
    have "dict xs k = Some (n_data n)" using dict_node [OF s, of n] xs n by auto
    moreover have "dict (L @ n\<lparr>n_data := d\<rparr> # R') = (dict xs)(k \<mapsto> d)"
      using dict_insert [of L n R'] dict_insert [of L "n\<lparr>n_data := d\<rparr>" R'] L n xs by simp
    moreover have "caml_skiplist_insert m sk k d =
        Some (set_cell m (n_addr n) (c'\<lparr>sc_data := d\<rparr>), sk, True)"
      using u(1) c n c' by (simp add: caml_skiplist_insert_def)
    ultimately show ?thesis using D xs n(1) by auto
  next
    case False
    have R': "k < n_key n" if "n \<in> set R" for n using strictly_above [OF s R] False that by blast
    have nk: "dict xs k = None" using L R' xs by (fastforce simp: dict_None)
    obtain m' sk' n where i: "insert_cell m sk k d upd = Some (m', sk')" "sk_repr m' sk' (L @ n # R)"
      "n_key n = k" "n_data n = d" "separate m (L @ R) m' (L @ n # R)"
      using insert_cell_spec [OF rep L R' u(2,3)] by blast
    have "dict (L @ n # R) = (dict xs)(k \<mapsto> d)" using dict_insert [of L n R] L i(3,4) xs by simp
    moreover have "cell_with_key m sk k (pos 0 L) = Some None"
      using c False by (auto split: list.splits)
    then have "caml_skiplist_insert m sk k d = Some (m', sk', False)"
      using u(1) i(1) by (simp add: caml_skiplist_insert_def)
    ultimately show ?thesis using i xs nk by auto
  qed
qed

subsection \<open>Deletion\<close>

lemma unlink_levels_spec:
  assumes "distinct is"
    and "\<And>i. i \<in> set is \<Longrightarrow> update_slot upd i = Some (P i, i)"
    and "\<And>i. i \<in> set is \<Longrightarrow> get_forward m sk (P i) i \<noteq> None"
    and "\<And>i. i \<in> set is \<Longrightarrow> get_forward m sk (P i) i = Some (Some f) \<Longrightarrow>
          get_forward m sk (Cell f) i \<noteq> None"
    and "\<And>i a. P i = Cell a \<Longrightarrow> a \<in> A"
  shows "\<exists>m' sk'. unlink_levels upd f is m sk = Some (m', sk') \<and> same_frame A m sk m' sk'
    \<and> (\<forall>e j. get_forward m' sk' e j =
        (if j \<in> set is \<and> e = P j \<and> get_forward m sk e j = Some (Some f)
         then get_forward m sk (Cell f) j else get_forward m sk e j))"
  using assms(1-4)
proof (induction "is" arbitrary: m sk)
  case (Cons i "is")
  obtain p where p: "get_forward m sk (P i) i = Some p" using Cons.prems(3) by fastforce
  obtain m1 sk1 where 1: "(if p = Some f then do {
          q \<leftarrow> get_forward m sk (Cell f) i;
          set_forward m sk (P i) i q
        } else Some (m, sk)) = Some (m1, sk1)"
    "\<And>e j. get_forward m1 sk1 e j =
       (if e = P i \<and> j = i \<and> p = Some f then get_forward m sk (Cell f) i else get_forward m sk e j)"
    "same_frame A m sk m1 sk1"
  proof (cases "p = Some f")
    case True
    then obtain q where q: "get_forward m sk (Cell f) i = Some q"
      using Cons.prems(4) [of i] p by (auto simp del: get_forward.simps)
    obtain m1 sk1 where "set_forward m sk (P i) i q = Some (m1, sk1)"
      "\<And>e j. get_forward m1 sk1 e j = (if e = P i \<and> j = i then Some q else get_forward m sk e j)"
      "same_frame A m sk m1 sk1"
      using set_forward_ok [of m sk "P i" i A q] p assms(5)
      by (metis option.distinct(1))
    with True q show thesis by (intro that [of m1 sk1]) (auto simp del: get_forward.simps)
  next
    case False
    then show thesis by (intro that [of m sk]) auto
  qed
  have "\<exists>m' sk'. unlink_levels upd f is m1 sk1 = Some (m', sk') \<and> same_frame A m1 sk1 m' sk'
    \<and> (\<forall>e j. get_forward m' sk' e j =
        (if j \<in> set is \<and> e = P j \<and> get_forward m1 sk1 e j = Some (Some f)
         then get_forward m1 sk1 (Cell f) j else get_forward m1 sk1 e j))"
    using Cons.prems
    by (intro Cons.IH) (auto simp: 1(2) simp del: get_forward.simps split: if_splits)
  then obtain m' sk' where 3: "unlink_levels upd f is m1 sk1 = Some (m', sk')"
    "same_frame A m1 sk1 m' sk'"
    "\<And>e j. get_forward m' sk' e j =
        (if j \<in> set is \<and> e = P j \<and> get_forward m1 sk1 e j = Some (Some f)
         then get_forward m1 sk1 (Cell f) j else get_forward m1 sk1 e j)"
    by blast
  have "unlink_levels upd f (i # is) m sk = Some (m', sk')"
    using Cons.prems(2) p 1(1) 3(1) by (simp del: get_forward.simps set_forward.simps)
  moreover have "same_frame A m sk m' sk'"
    using 1(3) 3(2) by (blast intro: same_frame_trans)
  moreover have "get_forward m' sk' e j =
        (if j \<in> set (i # is) \<and> e = P j \<and> get_forward m sk e j = Some (Some f)
         then get_forward m sk (Cell f) j else get_forward m sk e j)" for e j
    using Cons.prems(1) p by (auto simp: 3(3) 1(2) simp del: get_forward.simps)
  ultimately show ?case by blast
qed simp

lemma lower_level_spec:
  assumes "\<And>i. i \<le> l \<Longrightarrow> nth_opt fw i = Some (p i)"
  obtains l' where "lower_level fw l = Some l'" and "l' \<le> l" and "l' = 0 \<or> p l' \<noteq> None"
    and "\<And>i. l' < i \<Longrightarrow> i \<le> l \<Longrightarrow> p i = None"
  using assms
proof (induction l arbitrary: thesis)
  case (Suc l)
  show ?case
  proof (cases "p (Suc l)")
    case None
    obtain l' where l': "lower_level fw l = Some l'" "l' \<le> l" "l' = 0 \<or> p l' \<noteq> None"
      "\<And>i. l' < i \<Longrightarrow> i \<le> l \<Longrightarrow> p i = None"
      using Suc.IH Suc.prems(2) by (metis le_Suc_eq)
    moreover have "lower_level fw (Suc l) = Some l'"
      using Suc.prems(2) [of "Suc l"] None l'(1) by (simp add: nth_opt_def split: if_splits)
    moreover have "p i = None" if "l' < i" "i \<le> Suc l" for i
      using that None l'(4) by (cases "i = Suc l") auto
    ultimately show thesis by (intro Suc.prems(1) [of l']) auto
  next
    case (Some a)
    moreover from this have "lower_level fw (Suc l) = Some (Suc l)"
      using Suc.prems(2) [of "Suc l"] by (simp add: nth_opt_def split: if_splits)
    ultimately show thesis by (intro Suc.prems(1) [of "Suc l"]) auto
  qed
qed auto

lemma chain_remove_node:
  assumes "chain F Head (map n_addr (lv i (L @ n # R)))" and "distinct (map n_addr (L @ n # R))"
    and "i < n_ht n"
    and "G = (\<lambda>e. if e = pos i L then F (Cell (n_addr n)) else F e)"
  shows "chain G Head (map n_addr (lv i (L @ R)))"
proof -
  have "distinct (map n_addr (lv i (L @ n # R)))"
    unfolding lv_def by (rule distinct_map_filter) (rule assms(2))
  then have "distinct (map n_addr (lv i L) @ n_addr n # map n_addr (lv i R))"
    using assms(3) by (simp add: lv_Cons)
  moreover have "chain F Head (map n_addr (lv i L) @ n_addr n # map n_addr (lv i R))"
    using assms(1,3) by (simp add: lv_Cons)
  ultimately have "chain G Head (map n_addr (lv i L) @ map n_addr (lv i R))"
    using assms(4) by (rule_tac chain_remove [of F]) (auto simp: pos_def)
  then show ?thesis by simp
qed

lemma nodes_ok_delete:
  assumes "nodes_ok m (L @ n # R)" and "\<And>a. a \<in> addrs (L @ R) \<Longrightarrow> shape m' a = shape m a"
  shows "nodes_ok m' (L @ R)"
  using assms by (auto simp: nodes_ok_def node_ok_def addrs_def sorted_wrt_append)

text \<open>The links after a node was unlinked on its levels, given what the slots of the others hold.\<close>

lemma links_ok_delete:
  assumes "links_ok m sk (L @ n # R)" and "distinct (map n_addr (L @ n # R))"
    and "length (sk_forward sk') = NUM_LEVELS"
    and fw: "\<And>e i. i < NUM_LEVELS \<Longrightarrow> e \<noteq> Cell (n_addr n) \<Longrightarrow> get_forward m' sk' e i =
      (if i < n_ht n \<and> e = pos i L then get_forward m sk (Cell (n_addr n)) i else get_forward m sk e i)"
  shows "links_ok m' sk' (L @ R)"
proof -
  have nf: "n_addr n \<notin> addrs (L @ R)" using assms(2) by (auto simp: addrs_def)
  have "chain (\<lambda>e. get_forward m' sk' e i) Head (map n_addr (lv i (L @ R)))"
    if i: "i < NUM_LEVELS" for i
  proof -
    let ?F = "\<lambda>e. get_forward m sk e i"
    let ?G = "\<lambda>e. if i < n_ht n \<and> e = pos i L then ?F (Cell (n_addr n)) else ?F e"
    have C: "chain ?F Head (map n_addr (lv i (L @ n # R)))"
      using assms(1) i by (simp add: links_ok_def)
    have "chain ?G Head (map n_addr (lv i (L @ R)))"
    proof (cases "i < n_ht n")
      case True
      then show ?thesis by (intro chain_remove_node [OF C assms(2)]) auto
    next
      case False
      with C show ?thesis by (simp add: lv_Cons)
    qed
    then show ?thesis
    proof (rule chain_agree)
      show "get_forward m' sk' e i = ?G e"
        if "e = Head \<or> e \<in> Cell ` set (map n_addr (lv i (L @ R)))" for e
        using that nf by (intro fw [OF i]) (auto simp: addrs_def image_iff)
    qed
  qed
  with assms(3) show ?thesis by (simp add: links_ok_def)
qed

lemma unlink_node:
  assumes "sk_repr m sk (L @ n # R)"
    and "\<And>i. i \<le> sk_level sk \<Longrightarrow> update_slot upd i = Some (pos i L, i)"
  obtains m1 sk1 where "unlink_levels upd (n_addr n) [0..<sk_level sk + 1] m sk = Some (m1, sk1)"
    and "same_frame (addrs (L @ n # R)) m sk m1 sk1"
    and "\<And>e i. i < NUM_LEVELS \<Longrightarrow> get_forward m1 sk1 e i =
      (if i < n_ht n \<and> e = pos i L then get_forward m sk (Cell (n_addr n)) i else get_forward m sk e i)"
proof -
  let ?f = "n_addr n" and ?xs = "L @ n # R"
  have N: "nodes_ok m ?xs" "links_ok m sk ?xs" "level_ok sk ?xs"
    using assms(1) by (auto simp: sk_repr_def)
  have d: "distinct (map n_addr ?xs)" by (rule nodes_okD(4) [OF N(1)])
  have ht: "n_ht n \<le> Suc (sk_level sk)" "sk_level sk < NUM_LEVELS" using N(3) by (auto simp: level_ok_def)
  have hit: "get_forward m sk (pos i L) i = Some (Some ?f) \<longleftrightarrow> i < n_ht n" if "i < NUM_LEVELS" for i
    using pos_next [OF N(2) that] d
    by (auto simp: lv_Cons split: list.splits) (metis image_eqI list.set_intros(1) set_lv)
  have own: "get_forward m sk (Cell ?f) i \<noteq> None" if "i < n_ht n" for i
    using nodes_okD(1) [OF N(1), of n] that unfolding get_forward_Cell_None node_ok_def by simp
  have "\<exists>m1 sk1. unlink_levels upd ?f [0..<sk_level sk + 1] m sk = Some (m1, sk1)
    \<and> same_frame (addrs ?xs) m sk m1 sk1
    \<and> (\<forall>e j. get_forward m1 sk1 e j =
        (if j \<in> set [0..<sk_level sk + 1] \<and> e = pos j L \<and> get_forward m sk e j = Some (Some ?f)
         then get_forward m sk (Cell ?f) j else get_forward m sk e j))"
  proof (rule unlink_levels_spec)
    show "get_forward m sk (pos i L) i \<noteq> None" if "i \<in> set [0..<sk_level sk + 1]" for i
      using that ht(2) by (intro pos_not_None [OF N(2)]) auto
    show "get_forward m sk (Cell ?f) i \<noteq> None"
      if "i \<in> set [0..<sk_level sk + 1]" "get_forward m sk (pos i L) i = Some (Some ?f)" for i
      using that ht(2) hit [of i] by (intro own) auto
    show "a \<in> addrs ?xs" if "pos i L = Cell a" for i a
      using pos_addrs [OF that] by (auto simp: addrs_def)
  qed (use assms(2) in auto)
  then obtain m1 sk1 where "unlink_levels upd ?f [0..<sk_level sk + 1] m sk = Some (m1, sk1)"
    "same_frame (addrs ?xs) m sk m1 sk1"
    "\<And>e j. get_forward m1 sk1 e j =
        (if j \<in> set [0..<sk_level sk + 1] \<and> e = pos j L \<and> get_forward m sk e j = Some (Some ?f)
         then get_forward m sk (Cell ?f) j else get_forward m sk e j)"
    by blast
  with hit ht show thesis
    by (intro that [of m1 sk1]) (auto simp del: get_forward.simps upt_Suc)
qed

text \<open>The state after the cell of the node \<open>n\<close> was unlinked and freed, before the level is lowered.\<close>

lemma unlink_cell_spec:
  assumes "sk_repr m sk (L @ n # R)"
    and "\<And>i. i \<le> sk_level sk \<Longrightarrow> update_slot upd i = Some (pos i L, i)"
  obtains m1 sk1 m2 where "unlink_levels upd (n_addr n) [0..<sk_level sk + 1] m sk = Some (m1, sk1)"
    and "stat_free_cell m1 (n_addr n) = Some m2" and "nodes_ok m2 (L @ R)" and "links_ok m2 sk1 (L @ R)"
    and "sk_level sk1 = sk_level sk" and "separate m (L @ n # R) m2 (L @ R)"
proof -
  let ?f = "n_addr n" and ?xs = "L @ n # R"
  have N: "nodes_ok m ?xs" "links_ok m sk ?xs" using assms(1) by (auto simp: sk_repr_def)
  have d: "distinct (map n_addr ?xs)" by (rule nodes_okD(4) [OF N(1)])
  obtain m1 sk1 where 1: "unlink_levels upd ?f [0..<sk_level sk + 1] m sk = Some (m1, sk1)"
    "same_frame (addrs ?xs) m sk m1 sk1"
    "\<And>e i. i < NUM_LEVELS \<Longrightarrow> get_forward m1 sk1 e i =
      (if i < n_ht n \<and> e = pos i L then get_forward m sk (Cell ?f) i else get_forward m sk e i)"
    using unlink_node [OF assms] by blast
  have "node_ok m1 n" using nodes_okD(1) [OF N(1), of n] 1(2) by (simp add: node_ok_def same_frame_def)
  then obtain c where c: "cell_at m1 ?f = Some c" by (rule node_ok_cell)
  define m2 where "m2 = m1\<lparr>sk_cells := (sk_cells m1)[?f := None]\<rparr>"
  have ca: "cell_at m2 a = (if a = ?f then None else cell_at m1 a)" for a
    unfolding m2_def by (rule cell_at_free [OF c])
  have nf: "?f \<notin> addrs (L @ R)" using d by (auto simp: addrs_def)
  have "stat_free_cell m1 ?f = Some m2" by (simp add: stat_free_cell_def c m2_def)
  moreover have "shape m2 a = shape m a" if "a \<noteq> ?f" for a
    using that 1(2) by (simp add: same_frame_def shape_def ca fun_eq_iff)
  then have "nodes_ok m2 (L @ R)"
    using nf by (intro nodes_ok_delete [OF N(1)]) metis
  moreover have len: "length (sk_forward sk1) = NUM_LEVELS" "sk_level sk1 = sk_level sk"
    using 1(2) N(2) by (auto simp: same_frame_def links_ok_def)
  moreover have "get_forward m2 sk1 e i = get_forward m1 sk1 e i" if "e \<noteq> Cell ?f" for e i
    using that by (cases e) (auto simp: ca)
  then have "links_ok m2 sk1 (L @ R)"
    using 1(3) by (intro links_ok_delete [OF N(2) d len(1)]) (simp del: get_forward.simps)
  moreover have "length (sk_cells m2) = length (sk_cells m)" using 1(2) by (simp add: m2_def same_frame_def)
  then have "separate m ?xs m2 (L @ R)"
    using 1(2) by (auto simp: same_frame_def separate_def ca addrs_def)
  ultimately show thesis using 1(1) by (intro that [of m1 sk1 m2]) auto
qed

lemma level_ok_lower:
  assumes "links_ok m sk (L @ R)" and "level_ok sk' (L @ n # R)" and "sk_level sk' = sk_level sk"
  obtains l where "lower_level (sk_forward sk) (sk_level sk) = Some l"
    and "level_ok (sk\<lparr>sk_level := l\<rparr>) (L @ R)"
proof -
  let ?p = "\<lambda>i. case lv i (L @ R) of [] \<Rightarrow> None | x # _ \<Rightarrow> Some (n_addr x)"
  have l: "sk_level sk < NUM_LEVELS" using assms(2,3) by (simp add: level_ok_def)
  have "nth_opt (sk_forward sk) i = Some (?p i)" if "i \<le> sk_level sk" for i
    using pos_next [of m sk "[]" "L @ R" i] assms(1) that l by (simp add: pos_def)
  then obtain l' where l': "lower_level (sk_forward sk) (sk_level sk) = Some l'"
    "l' \<le> sk_level sk" "l' = 0 \<or> ?p l' \<noteq> None"
    "\<And>i. l' < i \<Longrightarrow> i \<le> sk_level sk \<Longrightarrow> ?p i = None"
    using lower_level_spec [of "sk_level sk" "sk_forward sk" ?p] by blast
  have "n_ht x \<le> Suc l'" if x: "x \<in> set (L @ R)" for x
  proof (rule ccontr)
    assume "\<not> n_ht x \<le> Suc l'"
    moreover have "n_ht x \<le> Suc (sk_level sk)" using assms(2,3) x by (auto simp: level_ok_def)
    ultimately have "?p (n_ht x - 1) = None" "x \<in> set (lv (n_ht x - 1) (L @ R))"
      using l'(4) [of "n_ht x - 1"] x by auto
    then show False by (cases "lv (n_ht x - 1) (L @ R)") (simp_all del: lv_append set_lv)
  qed
  moreover have "l' = 0 \<or> lv l' (L @ R) \<noteq> []" using l'(3) by (auto split: list.splits)
  ultimately show thesis using l'(1,2) l by (intro that [of l']) (auto simp: level_ok_def)
qed

lemma filter_node:
  assumes "sorted_wrt (<) (map n_key (L @ n # R))"
  shows "filter (\<lambda>x. n_key x \<noteq> n_key n) (L @ n # R) = L @ R"
proof -
  have "n_key n \<notin> n_key ` set (L @ R)" using assms by (fastforce simp: sorted_wrt_append)
  then have "\<forall>x\<in>set L \<union> set R. n_key x \<noteq> n_key n" by (metis image_eqI set_append)
  then show ?thesis by simp
qed

lemma dict_filter: "dict (filter (\<lambda>x. n_key x \<noteq> k) xs) = (dict xs)(k := None)"
  by (induction xs) (auto simp: dict_Cons dict_def fun_eq_iff)

theorem remove_spec:
  assumes "sk_repr m sk xs"
  shows "\<exists>m' sk'. caml_skiplist_remove m sk k = Some (m', sk', dict xs k \<noteq> None)
    \<and> sk_repr m' sk' (filter (\<lambda>n. n_key n \<noteq> k) xs)
    \<and> separate m xs m' (filter (\<lambda>n. n_key n \<noteq> k) xs)
    \<and> (dict xs k = None \<longrightarrow> m' = m \<and> sk' = sk)"
proof -
  obtain L R where xs: "xs = L @ R" and L: "\<And>n. n \<in> set L \<Longrightarrow> n_key n < k"
    and R: "\<And>n. n \<in> set R \<Longrightarrow> k \<le> n_key n"
    using sk_repr_split [OF assms] by metis
  note rep = assms [unfolded xs]
  have s: "sorted_wrt (<) (map n_key (L @ R))" using rep by (simp add: sk_repr_def nodes_ok_def)
  obtain upd where u: "search_update m sk k = Some (pos 0 L, upd)"
    "\<And>i. i \<le> sk_level sk \<Longrightarrow> update_slot upd i = Some (pos i L, i)"
    using search_update_spec [OF rep L R] by blast
  note c = cell_with_key_spec [OF rep R]
  show ?thesis
  proof (cases "\<exists>n R'. R = n # R' \<and> n_key n = k")
    case True
    then obtain n R' where n: "R = n # R'" "n_key n = k" by auto
    obtain m1 sk1 m2 where 1: "unlink_levels upd (n_addr n) [0..<sk_level sk + 1] m sk = Some (m1, sk1)"
      "stat_free_cell m1 (n_addr n) = Some m2" "nodes_ok m2 (L @ R')" "links_ok m2 sk1 (L @ R')"
      "sk_level sk1 = sk_level sk" "separate m (L @ n # R') m2 (L @ R')"
      using unlink_cell_spec [OF rep [unfolded n(1)] u(2)] by blast
    have "level_ok sk (L @ n # R')" using rep n(1) by (simp add: sk_repr_def)
    then obtain l where l: "lower_level (sk_forward sk1) (sk_level sk1) = Some l"
      "level_ok (sk1\<lparr>sk_level := l\<rparr>) (L @ R')"
      using level_ok_lower [OF 1(4) _ 1(5) [symmetric]] by blast
    have "get_forward m2 (sk1\<lparr>sk_level := l\<rparr>) e i = get_forward m2 sk1 e i" for e i by (cases e) auto
    then have "sk_repr m2 (sk1\<lparr>sk_level := l\<rparr>) (L @ R')"
      using 1(3,4) l(2) by (simp add: sk_repr_def links_ok_def)
    moreover have "dict xs k = Some (n_data n)" using dict_node [OF s, of n] xs n by auto
    moreover have "filter (\<lambda>x. n_key x \<noteq> k) xs = L @ R'"
      using filter_node [of L n R'] s n xs by simp
    moreover have "caml_skiplist_remove m sk k = Some (m2, sk1\<lparr>sk_level := l\<rparr>, True)"
      using u(1) c n 1(1,2) l(1) by (simp add: caml_skiplist_remove_def del: upt_Suc)
    ultimately show ?thesis using 1(6) xs n(1) by auto
  next
    case False
    have "k < n_key n" if "n \<in> set R" for n using strictly_above [OF s R] False that by blast
    then have nk: "\<forall>n\<in>set xs. n_key n \<noteq> k" using L xs by fastforce
    have "cell_with_key m sk k (pos 0 L) = Some None"
      using c False by (auto split: list.splits)
    then have "caml_skiplist_remove m sk k = Some (m, sk, False)"
      using u(1) by (simp add: caml_skiplist_remove_def)
    moreover have "dict xs k = None" "filter (\<lambda>n. n_key n \<noteq> k) xs = xs"
      using nk by (auto simp: dict_None)
    moreover have "separate m xs m xs" by (simp add: separate_def)
    ultimately show ?thesis using assms by auto
  qed
qed

end
