(* ===== verification/Skiplist_Dict.thy ===== *)
theory Skiplist_Dict
  imports Skiplist_Update
begin

text \<open>
  Skip lists as dictionaries: emptying and traversal, the interface that the clients of the skip
  lists use, and the properties of skiplist.c.
\<close>

subsection \<open>The bottom level\<close>

text \<open>The cells that following \<open>forward[0]\<close> visits.\<close>

primrec cells_from :: "skipmem \<Rightarrow> nat option \<Rightarrow> nat list \<Rightarrow> bool" where
  "cells_from m p [] \<longleftrightarrow> p = None"
| "cells_from m p (a # as) \<longleftrightarrow> p = Some a \<and>
     (\<exists>c q. cell_at m a = Some c \<and> nth_opt (sc_forward c) 0 = Some q \<and> cells_from m q as)"

lemma cells_from_cong:
  "cells_from m p as \<Longrightarrow> (\<And>a. a \<in> set as \<Longrightarrow> cell_at m' a = cell_at m a) \<Longrightarrow> cells_from m' p as"
  by (induction as arbitrary: p) auto

lemma chain_cells_from:
  assumes "chain (\<lambda>e. get_forward m sk e 0) e as" and "get_forward m sk e 0 = Some p"
  shows "cells_from m p as"
  using assms
proof (induction as arbitrary: e p)
  case (Cons a as)
  have C: "chain (\<lambda>e. get_forward m sk e 0) (Cell a) as" using Cons.prems(1) by simp
  obtain q where q: "get_forward m sk (Cell a) 0 = Some q" using C by (cases as) auto
  then obtain c where "cell_at m a = Some c" "nth_opt (sc_forward c) 0 = Some q"
    by (cases "cell_at m a") auto
  with Cons.IH [OF C q] Cons.prems show ?case by auto
qed simp

lemma sk_repr_cells_from:
  assumes "sk_repr m sk xs"
  obtains p where "nth_opt (sk_forward sk) 0 = Some p" and "cells_from m p (map n_addr xs)"
proof -
  have "lv 0 xs = xs" using assms by (intro lv_0) (auto simp: sk_repr_def nodes_ok_def)
  moreover have "chain (\<lambda>e. get_forward m sk e 0) Head (map n_addr (lv 0 xs))"
    using assms by (simp add: sk_repr_def links_ok_def)
  ultimately have C: "chain (\<lambda>e. get_forward m sk e 0) Head (map n_addr xs)" by simp
  then obtain p where "get_forward m sk Head 0 = Some p" by (cases xs) auto
  with chain_cells_from [OF C this] show thesis by (intro that [of p]) auto
qed

subsection \<open>Initial and emptied lists\<close>

lemma sk_repr_Nil:
  "sk_repr m sk [] \<longleftrightarrow> sk_forward sk = replicate NUM_LEVELS None \<and> sk_level sk = 0"
proof -
  have "(\<forall>i<NUM_LEVELS. nth_opt (sk_forward sk) i = Some None) \<longleftrightarrow>
      sk_forward sk = replicate NUM_LEVELS None" if "length (sk_forward sk) = NUM_LEVELS"
    using that by (auto simp: nth_opt_def list_eq_iff_nth_eq)
  then show ?thesis
    by (auto simp: sk_repr_def nodes_ok_def links_ok_def level_ok_def)
qed

lemma init_spec: "sk_repr m (caml_skiplist_init sk) []" "sk_repr m SKIPLIST_STATIC_INITIALIZER []"
  by (simp_all add: sk_repr_Nil caml_skiplist_init_def SKIPLIST_STATIC_INITIALIZER_def)

lemma free_cells_spec:
  assumes "cells_from m p as" and "distinct as"
  shows "\<exists>m'. free_cells p m = Some m' \<and> length (sk_cells m') = length (sk_cells m)
    \<and> (\<forall>a. cell_at m' a = (if a \<in> set as then None else cell_at m a))"
  using assms
proof (induction as arbitrary: p m)
  case Nil
  then show ?case by (simp add: free_cells.simps)
next
  case (Cons a as)
  then obtain c q where c: "p = Some a" "cell_at m a = Some c" "nth_opt (sc_forward c) 0 = Some q"
    "cells_from m q as" by auto
  let ?m = "m\<lparr>sk_cells := (sk_cells m)[a := None]\<rparr>"
  have "cells_from ?m q as"
    using c(4) Cons.prems(2) by (auto intro: cells_from_cong simp: cell_at_free [OF c(2)])
  then have "\<exists>m'. free_cells q ?m = Some m' \<and> length (sk_cells m') = length (sk_cells ?m)
    \<and> (\<forall>a. cell_at m' a = (if a \<in> set as then None else cell_at ?m a))"
    by (rule Cons.IH) (use Cons.prems(2) in simp)
  moreover have "free_cells p m = free_cells q ?m"
    using c(3) by (subst free_cells.simps) (simp add: c(1,2) stat_free_cell_def nth_opt_def split: if_splits)
  ultimately show ?case by (auto simp: cell_at_free [OF c(2)])
qed

lemma clear_heads_spec:
  "\<forall>i\<in>set is. i < length fw \<Longrightarrow> \<exists>fw'. clear_heads is fw = Some fw' \<and> length fw' = length fw
    \<and> (\<forall>i<length fw. fw' ! i = (if i \<in> set is then None else fw ! i))"
proof (induction "is" arbitrary: fw)
  case (Cons i "is")
  then have "\<exists>fw'. clear_heads is (fw[i := None]) = Some fw' \<and> length fw' = length (fw[i := None])
    \<and> (\<forall>j<length (fw[i := None]). fw' ! j = (if j \<in> set is then None else fw[i := None] ! j))"
    by (intro Cons.IH) auto
  with Cons.prems show ?case by (auto simp: upd_opt_def nth_list_update)
qed simp

theorem empty_spec:
  assumes "sk_repr m sk xs"
  shows "\<exists>m' sk'. caml_skiplist_empty m sk = Some (m', sk') \<and> sk_repr m' sk' []
    \<and> separate m xs m' [] \<and> (\<forall>a\<in>addrs xs. cell_at m' a = None)"
proof -
  have N: "length (sk_forward sk) = NUM_LEVELS" "level_ok sk xs" "distinct (map n_addr xs)"
    using assms by (auto simp: sk_repr_def links_ok_def nodes_ok_def)
  have l: "sk_level sk < NUM_LEVELS" "\<And>n. n \<in> set xs \<Longrightarrow> n_ht n \<le> Suc (sk_level sk)"
    using N(2) by (auto simp: level_ok_def)
  have fw: "nth_opt (sk_forward sk) i = Some (case lv i xs of [] \<Rightarrow> None | n # _ \<Rightarrow> Some (n_addr n))"
    if "i < NUM_LEVELS" for i
    using pos_next [of m sk "[]" xs i] assms that by (simp add: sk_repr_def pos_def)
  have high: "sk_forward sk ! i = None" if "sk_level sk < i" "i < NUM_LEVELS" for i
  proof -
    have "lv i xs = []" using l(2) that(1) by (fastforce simp: lv_def filter_empty_conv)
    with fw [OF that(2)] show ?thesis by simp
  qed
  obtain p where p: "nth_opt (sk_forward sk) 0 = Some p" "cells_from m p (map n_addr xs)"
    using sk_repr_cells_from [OF assms] .
  obtain m' where m': "free_cells p m = Some m'" "length (sk_cells m') = length (sk_cells m)"
    "\<And>a. cell_at m' a = (if a \<in> set (map n_addr xs) then None else cell_at m a)"
    using free_cells_spec [OF p(2) N(3)] by blast
  obtain fw' where f: "clear_heads [0..<sk_level sk + 1] (sk_forward sk) = Some fw'"
    "length fw' = NUM_LEVELS"
    "\<And>i. i < NUM_LEVELS \<Longrightarrow>
       fw' ! i = (if i \<in> set [0..<sk_level sk + 1] then None else sk_forward sk ! i)"
    using clear_heads_spec [of "[0..<sk_level sk + 1]" "sk_forward sk"] N(1) l(1)
    by (auto simp del: upt_Suc)
  have "fw' = replicate NUM_LEVELS None"
    using f(2,3) high by (auto simp: list_eq_iff_nth_eq not_less Suc_le_eq)
  moreover have "caml_skiplist_empty m sk = Some (m', sk\<lparr>sk_forward := fw', sk_level := 0\<rparr>)"
    using p(1) m'(1) f(1) by (simp add: caml_skiplist_empty_def del: upt_Suc nth_opt_Some_iff)
  moreover have "separate m xs m' []" using m'(2,3) by (auto simp: separate_def addrs_def)
  ultimately show ?thesis using m'(3) by (auto simp: sk_repr_Nil addrs_def)
qed

subsection \<open>Traversal\<close>

primrec run_actions :: "(nat \<Rightarrow> 's \<Rightarrow> 's option) \<Rightarrow> nat list \<Rightarrow> 's \<Rightarrow> 's option" where
  "run_actions action [] s = Some s"
| "run_actions action (a # as) s = Option.bind (action a s) (run_actions action as)"

lemma foreach_from_run:
  assumes "cells_from m p as"
    and "\<forall>a\<in>set as. cell_at (mem s) a = cell_at m a"
    and "\<And>a s s' b. b \<in> set as \<Longrightarrow> I s \<Longrightarrow> action a s = Some s' \<Longrightarrow> cell_at (mem s') b = cell_at (mem s) b"
    and "\<And>a s s'. a \<in> set as \<Longrightarrow> I s \<Longrightarrow> action a s = Some s' \<Longrightarrow> I s'" and "I s"
  shows "foreach_from mem action p s = run_actions action as s"
  using assms
proof (induction as arbitrary: p s)
  case Nil
  then show ?case by (simp add: foreach_from.simps)
next
  case (Cons a as)
  then obtain c q where c: "p = Some a" "cell_at m a = Some c" "nth_opt (sc_forward c) 0 = Some q"
    "cells_from m q as" by auto
  have "foreach_from mem action p s = Option.bind (action a s) (foreach_from mem action q)"
    using Cons.prems(2) c(2,3) by (subst foreach_from.simps) (simp add: c(1) nth_opt_def split: if_splits)
  also have "\<dots> = Option.bind (action a s) (run_actions action as)"
  proof (cases "action a s")
    case (Some s')
    have "foreach_from mem action q s' = run_actions action as s'"
    proof (rule Cons.IH [OF c(4)])
      show "\<forall>b\<in>set as. cell_at (mem s') b = cell_at m b"
        using Cons.prems(2,3,5) Some by (metis list.set_intros(2))
      show "I s'" using Cons.prems(4,5) Some by (metis list.set_intros(1))
      show "cell_at (mem s2) b = cell_at (mem s1) b"
        if "b \<in> set as" "I s1" "action a' s1 = Some s2" for a' s1 s2 b
        using Cons.prems(3) [of b s1 a' s2] that by simp
      show "I s2" if "a' \<in> set as" "I s1" "action a' s1 = Some s2" for a' s1 s2
        using Cons.prems(4) [of a' s1 s2] that by simp
    qed
    with Some show ?thesis by simp
  qed simp
  finally show ?case by simp
qed

theorem foreach_spec:
  assumes "sk_repr (mem s) sk xs" and "I s"
    and "\<And>a s s' b. b \<in> addrs xs \<Longrightarrow> I s \<Longrightarrow> action a s = Some s' \<Longrightarrow> cell_at (mem s') b = cell_at (mem s) b"
    and "\<And>a s s'. a \<in> addrs xs \<Longrightarrow> I s \<Longrightarrow> action a s = Some s' \<Longrightarrow> I s'"
  shows "FOREACH_SKIPLIST_ELEMENT mem sk action s = run_actions action (map n_addr xs) s"
proof -
  obtain p where p: "nth_opt (sk_forward sk) 0 = Some p" "cells_from (mem s) p (map n_addr xs)"
    using sk_repr_cells_from [OF assms(1)] .
  have "foreach_from mem action p s = run_actions action (map n_addr xs) s"
  proof (rule foreach_from_run [OF p(2), of mem s I])
    show "cell_at (mem s2) b = cell_at (mem s1) b"
      if "b \<in> set (map n_addr xs)" "I s1" "action a s1 = Some s2" for a s1 s2 b
      using assms(3) [of b s1 a s2] that by (simp add: addrs_def)
    show "I s2" if "a \<in> set (map n_addr xs)" "I s1" "action a s1 = Some s2" for a s1 s2
      using assms(4) [of a s1 s2] that by (simp add: addrs_def)
  qed (use assms(2) in auto)
  with p(1) show ?thesis by (simp add: FOREACH_SKIPLIST_ELEMENT_def del: nth_opt_Some_iff)
qed

text \<open>The action that removes the element it is called on.\<close>

definition remove_current :: "nat \<Rightarrow> skipmem \<times> skiplist \<Rightarrow> (skipmem \<times> skiplist) option" where
  "remove_current var s = do {
     c \<leftarrow> cell_at (fst s) var;
     (m', sk', _) \<leftarrow> caml_skiplist_remove (fst s) (snd s) (sc_key c);
     Some (m', sk')
   }"

lemma foreach_remove_spec:
  assumes "sk_repr m sk xs"
  shows "\<exists>m' sk'. FOREACH_SKIPLIST_ELEMENT fst sk remove_current (m, sk) = Some (m', sk')
    \<and> sk_repr m' sk' []"
  using assms
proof (induction xs arbitrary: m sk)
  case Nil
  then have "nth_opt (sk_forward sk) 0 = Some None" by (simp add: sk_repr_Nil)
  with Nil show ?case by (simp add: FOREACH_SKIPLIST_ELEMENT_def foreach_from.simps del: nth_opt_Some_iff)
next
  case (Cons n xs)
  obtain p where p: "nth_opt (sk_forward sk) 0 = Some p" "cells_from m p (map n_addr (n # xs))"
    using sk_repr_cells_from [OF Cons.prems] .
  then obtain c q where c: "p = Some (n_addr n)" "cell_at m (n_addr n) = Some c"
    "nth_opt (sc_forward c) 0 = Some q" "cells_from m q (map n_addr xs)" by auto
  have "node_ok m n" using Cons.prems by (simp add: sk_repr_def nodes_ok_def)
  then have k: "sc_key c = n_key n" using c(2) by (auto elim: node_ok_cell)
  have "filter (\<lambda>x. n_key x \<noteq> n_key n) (n # xs) = xs"
    using filter_node [of "[]" n xs] Cons.prems by (simp add: sk_repr_def nodes_ok_def)
  then obtain m' sk' b where r: "caml_skiplist_remove m sk (n_key n) = Some (m', sk', b)"
    "sk_repr m' sk' xs"
    using remove_spec [OF Cons.prems, of "n_key n"] by auto
  obtain p' where p': "nth_opt (sk_forward sk') 0 = Some p'" "cells_from m' p' (map n_addr xs)"
    using sk_repr_cells_from [OF r(2)] .
  have "p' = q" using p'(2) c(4) by (cases xs) auto
  then have "FOREACH_SKIPLIST_ELEMENT fst sk remove_current (m, sk) =
      FOREACH_SKIPLIST_ELEMENT fst sk' remove_current (m', sk')"
    using p(1) p'(1) r(1) c(3) k
    by (simp add: FOREACH_SKIPLIST_ELEMENT_def c(1) del: nth_opt_Some_iff)
       (subst foreach_from.simps, simp add: c(2) remove_current_def del: nth_opt_Some_iff)
  with Cons.IH [OF r(2)] show ?case by simp
qed

subsection \<open>The interface to the clients\<close>

text \<open>
  Several dictionaries in one memory: every operation changes the dictionary it is called on as an
  operation on maps would, and leaves every other one alone.
\<close>

definition all_rep ::
  "('m \<Rightarrow> 'h \<Rightarrow> 'x \<Rightarrow> bool) \<Rightarrow> ('x \<Rightarrow> nat set) \<Rightarrow> 'm \<Rightarrow> ('i \<Rightarrow> 'h) \<Rightarrow> ('i \<Rightarrow> 'x) \<Rightarrow> bool" where
  "all_rep rep foot m hs xs \<longleftrightarrow>
     (\<forall>i. rep m (hs i) (xs i)) \<and> (\<forall>i j. i \<noteq> j \<longrightarrow> foot (xs i) \<inter> foot (xs j) = {})"

locale dictionaries =
  fixes rep :: "'m \<Rightarrow> 'h \<Rightarrow> 'x \<Rightarrow> bool" and foot :: "'x \<Rightarrow> nat set" and cont :: "'x \<Rightarrow> 'k \<Rightarrow> 'v option"
    and touch :: "'m \<Rightarrow> 'x \<Rightarrow> 'm \<Rightarrow> 'x \<Rightarrow> bool"
    and ins :: "'m \<Rightarrow> 'h \<Rightarrow> 'k \<Rightarrow> 'v \<Rightarrow> ('m \<times> 'h \<times> bool) option"
    and rem :: "'m \<Rightarrow> 'h \<Rightarrow> 'k \<Rightarrow> ('m \<times> 'h \<times> bool) option"
    and clear :: "'m \<Rightarrow> 'h \<Rightarrow> ('m \<times> 'h) option"
  assumes ins_ok: "rep m h x \<Longrightarrow> \<exists>m' h' x'. ins m h k v = Some (m', h', cont x k \<noteq> None) \<and> rep m' h' x'
      \<and> cont x' = (cont x)(k \<mapsto> v) \<and> touch m x m' x'"
    and rem_ok: "rep m h x \<Longrightarrow> \<exists>m' h' x'. rem m h k = Some (m', h', cont x k \<noteq> None) \<and> rep m' h' x'
      \<and> cont x' = (cont x)(k := None) \<and> touch m x m' x'"
    and clear_ok: "rep m h x \<Longrightarrow> \<exists>m' h' x'. clear m h = Some (m', h') \<and> rep m' h' x'
      \<and> cont x' = Map.empty \<and> touch m x m' x'"
    and touch_other: "touch m x m' x' \<Longrightarrow> rep m h y \<Longrightarrow> foot x \<inter> foot y = {} \<Longrightarrow>
      rep m' h y \<and> foot x' \<inter> foot y = {}"
begin

lemma all_rep_update:
  assumes "all_rep rep foot m hs xs" and "rep m' h' x'" and "touch m (xs i) m' x'"
  shows "all_rep rep foot m' (hs(i := h')) (xs(i := x'))"
proof -
  have other: "rep m' (hs j) (xs j) \<and> foot x' \<inter> foot (xs j) = {}" if "j \<noteq> i" for j
    using assms(1,3) that touch_other unfolding all_rep_def by metis
  then show ?thesis using assms(1,2) unfolding all_rep_def by (auto simp: Int_commute)
qed

lemma ins_all:
  assumes "all_rep rep foot m hs xs"
  shows "\<exists>m' h' x'. ins m (hs i) k v = Some (m', h', cont (xs i) k \<noteq> None)
    \<and> all_rep rep foot m' (hs(i := h')) (xs(i := x')) \<and> cont x' = (cont (xs i))(k \<mapsto> v)
    \<and> touch m (xs i) m' x'"
proof -
  have "rep m (hs i) (xs i)" using assms by (simp add: all_rep_def)
  from ins_ok [OF this] all_rep_update [OF assms] show ?thesis by metis
qed

lemma rem_all:
  assumes "all_rep rep foot m hs xs"
  shows "\<exists>m' h' x'. rem m (hs i) k = Some (m', h', cont (xs i) k \<noteq> None)
    \<and> all_rep rep foot m' (hs(i := h')) (xs(i := x')) \<and> cont x' = (cont (xs i))(k := None)"
proof -
  have "rep m (hs i) (xs i)" using assms by (simp add: all_rep_def)
  from rem_ok [OF this] all_rep_update [OF assms] show ?thesis by metis
qed

lemma clear_all:
  assumes "all_rep rep foot m hs xs"
  shows "\<exists>m' h' x'. clear m (hs i) = Some (m', h')
    \<and> all_rep rep foot m' (hs(i := h')) (xs(i := x')) \<and> cont x' = Map.empty"
proof -
  have "rep m (hs i) (xs i)" using assms by (simp add: all_rep_def)
  from clear_ok [OF this] all_rep_update [OF assms] show ?thesis by metis
qed

end

interpretation skl: dictionaries sk_repr addrs dict separate
  caml_skiplist_insert caml_skiplist_remove caml_skiplist_empty
proof
  show "\<exists>m' h' x'. caml_skiplist_insert m h k v = Some (m', h', dict x k \<noteq> None) \<and> sk_repr m' h' x'
      \<and> dict x' = (dict x)(k \<mapsto> v) \<and> separate m x m' x'" if "sk_repr m h x" for m h x k v
    using insert_spec [OF that] .
  show "\<exists>m' h' x'. caml_skiplist_remove m h k = Some (m', h', dict x k \<noteq> None) \<and> sk_repr m' h' x'
      \<and> dict x' = (dict x)(k := None) \<and> separate m x m' x'" if "sk_repr m h x" for m h x k
    using remove_spec [OF that, of k] dict_filter by blast
  show "\<exists>m' h' x'. caml_skiplist_empty m h = Some (m', h') \<and> sk_repr m' h' x'
      \<and> dict x' = Map.empty \<and> separate m x m' x'" if "sk_repr m h x" for m h x
    using empty_spec [OF that] by (auto simp: dict_def intro!: exI [of _ "[]"])
  show "sk_repr m' h y \<and> addrs x' \<inter> addrs y = {}"
    if "separate m x m' x'" "sk_repr m h y" "addrs x \<inter> addrs y = {}" for m x m' x' h y
    using separate_other [OF that] by blast
qed

subsection \<open>Sequences of operations\<close>

datatype skop = Find u64 | Find_below u64 | Insert u64 u64 | Remove u64 | Clear

datatype skres = Data "u64 option" | Entry "(u64 \<times> u64) option" | Flag bool | Done

text \<open>One operation on the list \<open>i\<close> of any number of lists that share the heap of cells.\<close>

fun sk_exec :: "nat \<times> skop \<Rightarrow> skipmem \<times> (nat \<Rightarrow> skiplist) \<Rightarrow> (skres \<times> skipmem \<times> (nat \<Rightarrow> skiplist)) option"
  where
  "sk_exec (i, Find k) (m, hs) = do { r \<leftarrow> caml_skiplist_find m (hs i) k; Some (Data r, m, hs) }"
| "sk_exec (i, Find_below k) (m, hs) =
     do { r \<leftarrow> caml_skiplist_find_below m (hs i) k; Some (Entry r, m, hs) }"
| "sk_exec (i, Insert k d) (m, hs) =
     do { (m', h, b) \<leftarrow> caml_skiplist_insert m (hs i) k d; Some (Flag b, m', hs(i := h)) }"
| "sk_exec (i, Remove k) (m, hs) =
     do { (m', h, b) \<leftarrow> caml_skiplist_remove m (hs i) k; Some (Flag b, m', hs(i := h)) }"
| "sk_exec (i, Clear) (m, hs) =
     do { (m', h) \<leftarrow> caml_skiplist_empty m (hs i); Some (Done, m', hs(i := h)) }"

primrec sk_run ::
  "(nat \<times> skop) list \<Rightarrow> skipmem \<times> (nat \<Rightarrow> skiplist) \<Rightarrow>
    (skres list \<times> skipmem \<times> (nat \<Rightarrow> skiplist)) option" where
  "sk_run [] s = Some ([], s)"
| "sk_run (p # ps) s = do {
     (r, s') \<leftarrow> sk_exec p s;
     (rs, s'') \<leftarrow> sk_run ps s';
     Some (r # rs, s'')
   }"

text \<open>The same operations on maps, as the comments of skiplist.h describe them.\<close>

definition map_below :: "(u64 \<Rightarrow> u64 option) \<Rightarrow> u64 \<Rightarrow> (u64 \<times> u64) option" where
  "map_below D k = (let K = {x \<in> dom D. x \<le> k} in if K = {} then None else Some (Max K, the (D (Max K))))"

fun map_exec :: "nat \<times> skop \<Rightarrow> (nat \<Rightarrow> u64 \<Rightarrow> u64 option) \<Rightarrow> skres \<times> (nat \<Rightarrow> u64 \<Rightarrow> u64 option)" where
  "map_exec (i, Find k) D = (Data (D i k), D)"
| "map_exec (i, Find_below k) D = (Entry (map_below (D i) k), D)"
| "map_exec (i, Insert k d) D = (Flag (D i k \<noteq> None), D(i := (D i)(k \<mapsto> d)))"
| "map_exec (i, Remove k) D = (Flag (D i k \<noteq> None), D(i := (D i)(k := None)))"
| "map_exec (i, Clear) D = (Done, D(i := Map.empty))"

primrec map_run :: "(nat \<times> skop) list \<Rightarrow> (nat \<Rightarrow> u64 \<Rightarrow> u64 option) \<Rightarrow> skres list" where
  "map_run [] D = []"
| "map_run (p # ps) D = fst (map_exec p D) # map_run ps (snd (map_exec p D))"

lemma dom_dict: "dom (dict xs) = n_key ` set xs"
  by (simp add: dict_def dom_map_of_conv_image_fst image_image)

lemma key_le_last:
  "sorted_wrt (<) (map n_key ys) \<Longrightarrow> x \<in> set ys \<Longrightarrow> n_key x \<le> n_key (last ys)"
  by (induction ys) (auto, metis last_in_set nless_le order_refl)

lemma find_below_map:
  assumes "sk_repr m sk xs"
  shows "caml_skiplist_find_below m sk k = Some (map_below (dict xs) k)"
proof -
  let ?L = "filter (\<lambda>n. n_key n \<le> k) xs"
  have s: "sorted_wrt (<) (map n_key xs)" using assms by (simp add: sk_repr_def nodes_ok_def)
  have K: "{x \<in> dom (dict xs). x \<le> k} = n_key ` set ?L" by (auto simp: dom_dict)
  have "Max (n_key ` set ?L) = n_key (last ?L)" "dict xs (n_key (last ?L)) = Some (n_data (last ?L))"
    if "?L \<noteq> []"
  proof -
    have "sorted_wrt (<) (map n_key ?L)" using s by (induction xs) auto
    then have "\<forall>x\<in>set ?L. n_key x \<le> n_key (last ?L)" using key_le_last by blast
    then show "Max (n_key ` set ?L) = n_key (last ?L)"
      using that last_in_set [OF that] by (intro Max_eqI) (blast, blast, rule imageI)
    show "dict xs (n_key (last ?L)) = Some (n_data (last ?L))"
      using that last_in_set [of ?L] by (intro dict_node [OF s]) auto
  qed
  then show ?thesis
    unfolding find_below_spec [OF assms] map_below_def K Let_def
    by (cases "?L = []") (simp_all del: set_filter)
qed

lemma sk_exec_spec:
  assumes "all_rep sk_repr addrs m hs xs"
  shows "\<exists>m' hs' xs'. sk_exec p (m, hs) = Some (fst (map_exec p (\<lambda>i. dict (xs i))), m', hs')
    \<and> all_rep sk_repr addrs m' hs' xs' \<and> (\<lambda>i. dict (xs' i)) = snd (map_exec p (\<lambda>i. dict (xs i)))"
proof -
  obtain i q where p: "p = (i, q)" by (cases p)
  have r: "sk_repr m (hs i) (xs i)" using assms by (simp add: all_rep_def)
  have upd: "(\<lambda>j. dict ((xs(i := x')) j)) = (\<lambda>j. dict (xs j))(i := dict x')" for x' by auto
  show ?thesis
  proof (cases q)
    case (Find k)
    then show ?thesis using assms p by (auto simp: find_spec [OF r])
  next
    case (Find_below k)
    then show ?thesis using assms p by (auto simp: find_below_map [OF r])
  next
    case (Insert k d)
    obtain m' h' x' where "caml_skiplist_insert m (hs i) k d = Some (m', h', dict (xs i) k \<noteq> None)"
      "all_rep sk_repr addrs m' (hs(i := h')) (xs(i := x'))" "dict x' = (dict (xs i))(k \<mapsto> d)"
      using skl.ins_all [OF assms] by metis
    then show ?thesis using p Insert upd by (auto intro!: exI [of _ "xs(i := x')"])
  next
    case (Remove k)
    obtain m' h' x' where "caml_skiplist_remove m (hs i) k = Some (m', h', dict (xs i) k \<noteq> None)"
      "all_rep sk_repr addrs m' (hs(i := h')) (xs(i := x'))" "dict x' = (dict (xs i))(k := None)"
      using skl.rem_all [OF assms] by metis
    then show ?thesis using p Remove upd by (auto intro!: exI [of _ "xs(i := x')"])
  next
    case Clear
    obtain m' h' x' where "caml_skiplist_empty m (hs i) = Some (m', h')"
      "all_rep sk_repr addrs m' (hs(i := h')) (xs(i := x'))" "dict x' = Map.empty"
      using skl.clear_all [OF assms] by metis
    then show ?thesis using p Clear upd by (auto intro!: exI [of _ "xs(i := x')"])
  qed
qed

lemma sk_run_spec:
  "all_rep sk_repr addrs m hs xs \<Longrightarrow>
   \<exists>m' hs' xs'. sk_run ps (m, hs) = Some (map_run ps (\<lambda>i. dict (xs i)), m', hs')
     \<and> all_rep sk_repr addrs m' hs' xs'"
proof (induction ps arbitrary: m hs xs)
  case (Cons p ps)
  obtain m1 hs1 xs1 where 1: "sk_exec p (m, hs) = Some (fst (map_exec p (\<lambda>i. dict (xs i))), m1, hs1)"
    "all_rep sk_repr addrs m1 hs1 xs1" "(\<lambda>i. dict (xs1 i)) = snd (map_exec p (\<lambda>i. dict (xs i)))"
    using sk_exec_spec [OF Cons.prems] by blast
  obtain m2 hs2 xs2 where "sk_run ps (m1, hs1) = Some (map_run ps (\<lambda>i. dict (xs1 i)), m2, hs2)"
    "all_rep sk_repr addrs m2 hs2 xs2"
    using Cons.IH [OF 1(2)] by blast
  with 1 show ?case by (auto simp: 1(3))
qed auto

lemma all_rep_init: "all_rep sk_repr addrs m (\<lambda>_. SKIPLIST_STATIC_INITIALIZER) (\<lambda>_. [])"
  by (simp add: all_rep_def init_spec addrs_def)

text \<open>C21: Skip lists are dictionaries: whatever the state of the heap of cells and of the random
  generator, any interleaving of searches, searches for the largest key not above, insertions,
  deletions and emptyings on any number of initialised lists ends, stays inside the live cells and
  their forward arrays, and gives the answers that the same operations on maps give.\<close>

theorem skiplist_dictionary:
  "\<exists>s. sk_run ps (m, \<lambda>_. SKIPLIST_STATIC_INITIALIZER) = Some (map_run ps (\<lambda>_. Map.empty), s)"
proof -
  have "(\<lambda>i :: nat. dict []) = (\<lambda>_. Map.empty)" by (simp add: dict_def)
  then show ?thesis using sk_run_spec [OF all_rep_init, of ps m] by auto
qed

text \<open>\<open>random_level\<close> ends with a level below \<open>NUM_LEVELS\<close> from every seed, so the forward arrays
  of head and cells and the array \<open>update\<close> are large enough, and advances the generator by its
  linear congruence.\<close>

theorem random_level_in_range:
  "\<exists>lv. random_level m = Some (lv, m\<lparr>random_seed := random_seed m * 69069 + 25173\<rparr>) \<and> lv < NUM_LEVELS"
proof -
  obtain l where "level_loop (random_seed m * 69069 + 25173) 0 = Some l" and "l \<le> 16"
    using level_loop_bound [of 16 "random_seed m * 69069 + 25173" 0] by auto
  then show ?thesis by (auto simp: random_level_def)
qed

text \<open>The action of \<open>FOREACH_SKIPLIST_ELEMENT\<close> may remove the element it is called on: on any
  list that any operations have led to, a traversal that removes every element ends and leaves
  the empty list.\<close>

theorem foreach_may_remove:
  "\<exists>rs m hs. sk_run ps (m0, \<lambda>_. SKIPLIST_STATIC_INITIALIZER) = Some (rs, m, hs)
    \<and> (\<forall>i. \<exists>m'. FOREACH_SKIPLIST_ELEMENT fst (hs i) remove_current (m, hs i) =
                 Some (m', SKIPLIST_STATIC_INITIALIZER))"
proof -
  obtain rs m hs xs where 1: "sk_run ps (m0, \<lambda>_. SKIPLIST_STATIC_INITIALIZER) = Some (rs, m, hs)"
    "all_rep sk_repr addrs m hs xs"
    using sk_run_spec [OF all_rep_init, of ps m0] by blast
  have "\<exists>m'. FOREACH_SKIPLIST_ELEMENT fst (hs i) remove_current (m, hs i) =
      Some (m', SKIPLIST_STATIC_INITIALIZER)" for i
  proof -
    have "sk_repr m (hs i) (xs i)" using 1(2) by (simp add: all_rep_def)
    then obtain m' sk' where 2: "FOREACH_SKIPLIST_ELEMENT fst (hs i) remove_current (m, hs i) = Some (m', sk')"
      "sk_repr m' sk' []" using foreach_remove_spec by blast
    have "sk' = SKIPLIST_STATIC_INITIALIZER"
      using 2(2) by (simp add: sk_repr_Nil SKIPLIST_STATIC_INITIALIZER_def)
    with 2(1) show ?thesis by blast
  qed
  with 1(1) show ?thesis by blast
qed

end
