(* ===== verification/Globroots.thy ===== *)
theory Globroots
  imports Skiplist_Dict Hash_Table
begin

text \<open>
  The global memory roots of globroots.c: three skip lists whose keys are the addresses of C
  variables, the registration of roots of the mutable and of the generational kind, and the scans
  of the roots by the collectors.

  \<^item> \<open>root_contents\<close> are the words at the addresses of roots; a read outside has no defined result.
    Values are plain words here, since the classes depend on their address.
  \<^item> A scanning action is a parameter: from the value, the address of the root, its own data and the
    contents it gives new data and contents. It runs with \<open>roots_mutex\<close> held, so it does not use
    the lists. The lock itself is not modelled: every operation on the lists is one step.
  \<^item> The registrations assert that the address of the root is a multiple of four, and fail otherwise
    (\<open>Assert_failure\<close>), as the debug runtime does.
  \<^item> The globals of native code (\<open>NATIVE_CODE\<close>) are not part of a bytecode executable.
\<close>

subsection \<open>State\<close>

datatype root_list = Global | Young | Old

record globroots =
  root_mem :: skipmem
  root_lists :: "root_list \<Rightarrow> skiplist"
  root_contents :: "u64 \<Rightarrow> u64 option"
  caml_minor_heaps_base :: u64
  caml_minor_heaps_end :: u64

datatype gc_root_class = YOUNG | OLD | UNTRACKED

definition word_is_block :: "u64 \<Rightarrow> bool" where
  "word_is_block v \<longleftrightarrow> v AND 1 = 0"

definition Is_young :: "globroots \<Rightarrow> u64 \<Rightarrow> bool" where
  "Is_young g v \<longleftrightarrow> v < caml_minor_heaps_end g \<and> caml_minor_heaps_base g < v"

subsection \<open>Insertion and deletion\<close>

definition caml_insert_global_root :: "root_list \<Rightarrow> u64 \<Rightarrow> globroots \<Rightarrow> globroots option" where
  "caml_insert_global_root l r g = do {
     (m, sk, _) \<leftarrow> caml_skiplist_insert (root_mem g) (root_lists g l) r 0;
     Some (g\<lparr>root_mem := m, root_lists := (root_lists g)(l := sk)\<rparr>)
   }"

definition caml_delete_global_root :: "root_list \<Rightarrow> u64 \<Rightarrow> globroots \<Rightarrow> globroots option" where
  "caml_delete_global_root l r g = do {
     (m, sk, _) \<leftarrow> caml_skiplist_remove (root_mem g) (root_lists g l) r;
     Some (g\<lparr>root_mem := m, root_lists := (root_lists g)(l := sk)\<rparr>)
   }"

definition caml_register_global_root :: "u64 \<Rightarrow> globroots \<Rightarrow> globroots c_outcome option" where
  "caml_register_global_root r g =
     (if r AND 3 \<noteq> 0 then Some Assert_failure
      else do { g' \<leftarrow> caml_insert_global_root Global r g; Some (Done g') })"

definition caml_remove_global_root :: "u64 \<Rightarrow> globroots \<Rightarrow> globroots option" where
  "caml_remove_global_root r g = caml_delete_global_root Global r g"

definition classify_gc_root :: "globroots \<Rightarrow> u64 \<Rightarrow> gc_root_class" where
  "classify_gc_root g v =
     (if \<not> word_is_block v then UNTRACKED else if Is_young g v then YOUNG else OLD)"

definition caml_register_generational_global_root ::
  "u64 \<Rightarrow> globroots \<Rightarrow> globroots c_outcome option" where
  "caml_register_generational_global_root r g =
     (if r AND 3 \<noteq> 0 then Some Assert_failure
      else do {
        v \<leftarrow> root_contents g r;
        g' \<leftarrow> (case classify_gc_root g v of
           YOUNG \<Rightarrow> caml_insert_global_root Young r g
         | OLD \<Rightarrow> caml_insert_global_root Old r g
         | UNTRACKED \<Rightarrow> Some g);
        Some (Done g')
      })"

text \<open>The case \<open>OLD\<close> falls through to \<open>YOUNG\<close>.\<close>

definition caml_remove_generational_global_root :: "u64 \<Rightarrow> globroots \<Rightarrow> globroots option" where
  "caml_remove_generational_global_root r g = do {
     v \<leftarrow> root_contents g r;
     case classify_gc_root g v of
       OLD \<Rightarrow> do { g1 \<leftarrow> caml_delete_global_root Old r g; caml_delete_global_root Young r g1 }
     | YOUNG \<Rightarrow> caml_delete_global_root Young r g
     | UNTRACKED \<Rightarrow> Some g
   }"

definition caml_modify_generational_global_root :: "u64 \<Rightarrow> u64 \<Rightarrow> globroots \<Rightarrow> globroots option" where
  "caml_modify_generational_global_root r newval g = do {
     v \<leftarrow> root_contents g r;
     g' \<leftarrow> (case classify_gc_root g newval of
        YOUNG \<Rightarrow> do {
          let c = classify_gc_root g v;
          g1 \<leftarrow> (if c = OLD then caml_delete_global_root Old r g else Some g);
          if c \<noteq> YOUNG then caml_insert_global_root Young r g1 else Some g1
        }
      | OLD \<Rightarrow> if classify_gc_root g v = UNTRACKED then caml_insert_global_root Old r g else Some g
      | UNTRACKED \<Rightarrow> caml_remove_generational_global_root r g);
     Some (g'\<lparr>root_contents := (root_contents g')(r \<mapsto> newval)\<rparr>)
   }"

subsection \<open>Scans\<close>

type_synonym 'd scanning_action =
  "u64 \<Rightarrow> u64 \<Rightarrow> 'd \<times> (u64 \<Rightarrow> u64 option) \<Rightarrow> ('d \<times> (u64 \<Rightarrow> u64 option)) option"

text \<open>The body of the loop of \<open>caml_iterate_global_roots\<close>.\<close>

definition scan_root :: "'d scanning_action \<Rightarrow> nat \<Rightarrow> 'd \<times> globroots \<Rightarrow> ('d \<times> globroots) option" where
  "scan_root f e s = do {
     let (d, g) = s;
     c \<leftarrow> cell_at (root_mem g) e;
     let r = sc_key c;
     v \<leftarrow> root_contents g r;
     (d', h) \<leftarrow> f v r (d, root_contents g);
     Some (d', g\<lparr>root_contents := h\<rparr>)
   }"

definition caml_iterate_global_roots ::
  "'d scanning_action \<Rightarrow> root_list \<Rightarrow> 'd \<times> globroots \<Rightarrow> ('d \<times> globroots) option" where
  "caml_iterate_global_roots f l s =
     FOREACH_SKIPLIST_ELEMENT (\<lambda>s. root_mem (snd s)) (root_lists (snd s) l) (scan_root f) s"

definition caml_scan_global_roots ::
  "'d scanning_action \<Rightarrow> 'd \<times> globroots \<Rightarrow> ('d \<times> globroots) option" where
  "caml_scan_global_roots f s = do {
     s1 \<leftarrow> caml_iterate_global_roots f Global s;
     s2 \<leftarrow> caml_iterate_global_roots f Young s1;
     caml_iterate_global_roots f Old s2
   }"

text \<open>The body of the loop that moves the young roots to the old ones.\<close>

definition move_root :: "nat \<Rightarrow> globroots \<Rightarrow> globroots option" where
  "move_root e g = do {
     c \<leftarrow> cell_at (root_mem g) e;
     (m, sk, _) \<leftarrow> caml_skiplist_insert (root_mem g) (root_lists g Old) (sc_key c) 0;
     Some (g\<lparr>root_mem := m, root_lists := (root_lists g)(Old := sk)\<rparr>)
   }"

definition caml_scan_global_young_roots ::
  "'d scanning_action \<Rightarrow> 'd \<times> globroots \<Rightarrow> ('d \<times> globroots) option" where
  "caml_scan_global_young_roots f s = do {
     s1 \<leftarrow> caml_iterate_global_roots f Global s;
     (d, g) \<leftarrow> caml_iterate_global_roots f Young s1;
     g1 \<leftarrow> FOREACH_SKIPLIST_ELEMENT root_mem (root_lists g Young) move_root g;
     (m, sk) \<leftarrow> caml_skiplist_empty (root_mem g1) (root_lists g1 Young);
     Some (d, g1\<lparr>root_mem := m, root_lists := (root_lists g1)(Young := sk)\<rparr>)
   }"

subsection \<open>The lists as sets of addresses\<close>

definition lists_repr :: "globroots \<Rightarrow> (root_list \<Rightarrow> snode list) \<Rightarrow> bool" where
  "lists_repr g xs \<longleftrightarrow> all_rep sk_repr addrs (root_mem g) (root_lists g) xs"

definition roots_repr :: "globroots \<Rightarrow> (root_list \<Rightarrow> u64 set) \<Rightarrow> bool" where
  "roots_repr g S \<longleftrightarrow> (\<exists>xs. lists_repr g xs \<and> S = (\<lambda>l. n_key ` set (xs l)))"

definition same_values :: "globroots \<Rightarrow> globroots \<Rightarrow> bool" where
  "same_values g g' \<longleftrightarrow> root_contents g' = root_contents g
     \<and> caml_minor_heaps_base g' = caml_minor_heaps_base g
     \<and> caml_minor_heaps_end g' = caml_minor_heaps_end g"

lemma same_values_refl [simp]: "same_values g g"
  by (simp add: same_values_def)

lemma same_values_trans: "same_values g g1 \<Longrightarrow> same_values g1 g2 \<Longrightarrow> same_values g g2"
  by (simp add: same_values_def)

lemma classify_same: "same_values g g' \<Longrightarrow> classify_gc_root g' = classify_gc_root g"
  by (simp add: same_values_def classify_gc_root_def Is_young_def fun_eq_iff)

lemma insert_global_root_lists:
  assumes "lists_repr g xs"
  obtains g' x where "caml_insert_global_root l r g = Some g'" and "lists_repr g' (xs(l := x))"
    and "n_key ` set x = insert r (n_key ` set (xs l))" and "same_values g g'"
    and "separate (root_mem g) (xs l) (root_mem g') x"
proof -
  obtain m h x where 1: "caml_skiplist_insert (root_mem g) (root_lists g l) r 0 =
      Some (m, h, dict (xs l) r \<noteq> None)"
    "all_rep sk_repr addrs m ((root_lists g)(l := h)) (xs(l := x))"
    "dict x = (dict (xs l))(r \<mapsto> 0)" "separate (root_mem g) (xs l) m x"
    using skl.ins_all [OF assms [unfolded lists_repr_def]] by metis
  have "dom (dict x) = insert r (dom (dict (xs l)))" by (simp add: 1(3))
  then have "n_key ` set x = insert r (n_key ` set (xs l))" by (simp only: dom_dict)
  with 1 show thesis
    by (intro that [of "g\<lparr>root_mem := m, root_lists := (root_lists g)(l := h)\<rparr>" x])
       (auto simp: caml_insert_global_root_def lists_repr_def same_values_def)
qed

lemma insert_global_root_spec:
  assumes "roots_repr g S"
  obtains g' where "caml_insert_global_root l r g = Some g'"
    and "roots_repr g' (S(l := insert r (S l)))" and "same_values g g'"
proof -
  obtain xs where xs: "lists_repr g xs" "S = (\<lambda>l. n_key ` set (xs l))"
    using assms by (auto simp: roots_repr_def)
  obtain g' x where "caml_insert_global_root l r g = Some g'" "lists_repr g' (xs(l := x))"
    "n_key ` set x = insert r (n_key ` set (xs l))" "same_values g g'"
    using insert_global_root_lists [OF xs(1)] by metis
  then show thesis
    by (intro that [of g']) (auto simp: roots_repr_def xs(2) fun_eq_iff intro!: exI [of _ "xs(l := x)"])
qed

lemma delete_global_root_spec:
  assumes "roots_repr g S"
  obtains g' where "caml_delete_global_root l r g = Some g'"
    and "roots_repr g' (S(l := S l - {r}))" and "same_values g g'"
proof -
  obtain xs where xs: "lists_repr g xs" "S = (\<lambda>l. n_key ` set (xs l))"
    using assms by (auto simp: roots_repr_def)
  obtain m h x where 1: "caml_skiplist_remove (root_mem g) (root_lists g l) r =
      Some (m, h, dict (xs l) r \<noteq> None)"
    "all_rep sk_repr addrs m ((root_lists g)(l := h)) (xs(l := x))"
    "dict x = (dict (xs l))(r := None)"
    using skl.rem_all [OF xs(1) [unfolded lists_repr_def]] by metis
  have "dom (dict x) = dom (dict (xs l)) - {r}" by (auto simp: 1(3))
  then have "n_key ` set x = n_key ` set (xs l) - {r}" by (simp only: dom_dict)
  with 1 show thesis
    by (intro that [of "g\<lparr>root_mem := m, root_lists := (root_lists g)(l := h)\<rparr>"])
       (auto simp: caml_delete_global_root_def roots_repr_def lists_repr_def same_values_def xs(2)
         fun_eq_iff intro!: exI [of _ "xs(l := x)"])
qed

end
