(* ===== verification/Globroots_Props.thy ===== *)
theory Globroots_Props
  imports Globroots
begin

text \<open>
  The properties of the global roots: the scans visit every registered root once and in order, and
  the lists of the generational roots follow the class of the values of the roots.
\<close>

subsection \<open>Scans\<close>

text \<open>The scanning action applied to the roots at the given addresses, one after the other.\<close>

primrec visit ::
  "'d scanning_action \<Rightarrow> u64 list \<Rightarrow> 'd \<times> (u64 \<Rightarrow> u64 option) \<Rightarrow> ('d \<times> (u64 \<Rightarrow> u64 option)) option"
  where
  "visit f [] s = Some s"
| "visit f (r # rs) s = do { v \<leftarrow> snd s r; s' \<leftarrow> f v r s; visit f rs s' }"

definition in_roots :: "globroots \<Rightarrow> 'd \<times> (u64 \<Rightarrow> u64 option) \<Rightarrow> 'd \<times> globroots" where
  "in_roots g s = (fst s, g\<lparr>root_contents := snd s\<rparr>)"

lemma visit_append: "visit f (rs @ rs') s = Option.bind (visit f rs s) (visit f rs')"
proof (induction rs arbitrary: s)
  case (Cons r rs)
  then show ?case by (cases "snd s r"; cases "f (the (snd s r)) r s") auto
qed simp

lemma run_scan_root:
  "\<forall>n\<in>set ns. node_ok (root_mem g) n \<Longrightarrow>
   run_actions (scan_root f) (map n_addr ns) (d, g) =
     map_option (in_roots g) (visit f (map n_key ns) (d, root_contents g))"
proof (induction ns arbitrary: d g)
  case (Cons n ns)
  obtain c where c: "cell_at (root_mem g) (n_addr n) = Some c" "sc_key c = n_key n"
    using Cons.prems by (auto elim: node_ok_cell)
  show ?case
  proof (cases "Option.bind (root_contents g (n_key n)) (\<lambda>v. f v (n_key n) (d, root_contents g))")
    case None
    with c show ?thesis
      by (cases "root_contents g (n_key n)") (auto simp: scan_root_def)
  next
    case (Some s)
    obtain d' h where s: "s = (d', h)" by (cases s)
    obtain v where v: "root_contents g (n_key n) = Some v" "f v (n_key n) (d, root_contents g) = Some (d', h)"
      using Some s by (auto simp: bind_Some_iff)
    have "scan_root f (n_addr n) (d, g) = Some (d', g\<lparr>root_contents := h\<rparr>)"
      using c v by (simp add: scan_root_def)
    moreover have "run_actions (scan_root f) (map n_addr ns) (d', g\<lparr>root_contents := h\<rparr>) =
        map_option (in_roots (g\<lparr>root_contents := h\<rparr>)) (visit f (map n_key ns) (d', h))"
      using Cons.IH [of "g\<lparr>root_contents := h\<rparr>" d'] Cons.prems by simp
    moreover have "(in_roots (g\<lparr>root_contents := h\<rparr>) :: 'a \<times> (u64 \<Rightarrow> u64 option) \<Rightarrow> _) = in_roots g"
      by (simp add: in_roots_def fun_eq_iff)
    ultimately show ?thesis using v by simp
  qed
qed (simp add: in_roots_def)

lemma scan_root_mem: "scan_root f a s = Some s' \<Longrightarrow> root_mem (snd s') = root_mem (snd s)"
  by (cases s) (auto simp: scan_root_def bind_Some_iff Let_def)

lemma keys_sorted_list:
  assumes "sk_repr m sk xs"
  shows "map n_key xs = sorted_list_of_set (n_key ` set xs)"
proof -
  have "sorted_wrt (<) (map n_key xs)" using assms by (simp add: sk_repr_def nodes_ok_def)
  then have "sorted (map n_key xs)" "distinct (map n_key xs)" using strict_sorted_iff by blast+
  then show ?thesis using sorted_list_of_set.idem_if_sorted_distinct [of "map n_key xs"] by simp
qed

lemma iterate_spec:
  assumes "roots_repr g S"
  shows "caml_iterate_global_roots f l (d, g) =
    map_option (in_roots g) (visit f (sorted_list_of_set (S l)) (d, root_contents g))"
proof -
  obtain xs where xs: "lists_repr g xs" "S = (\<lambda>l. n_key ` set (xs l))"
    using assms by (auto simp: roots_repr_def)
  have r: "sk_repr (root_mem g) (root_lists g l) (xs l)"
    using xs(1) by (simp add: lists_repr_def all_rep_def)
  have "caml_iterate_global_roots f l (d, g) = run_actions (scan_root f) (map n_addr (xs l)) (d, g)"
    unfolding caml_iterate_global_roots_def
    by (rule trans [OF _ foreach_spec [of "\<lambda>s. root_mem (snd s)" "(d, g)" "root_lists g l" "xs l"
          "\<lambda>s. root_mem (snd s) = root_mem g"]])
       (use r in \<open>auto dest: scan_root_mem\<close>)
  also have "\<dots> = map_option (in_roots g) (visit f (map n_key (xs l)) (d, root_contents g))"
    using r by (intro run_scan_root) (simp add: sk_repr_def nodes_ok_def)
  finally show ?thesis using keys_sorted_list [OF r] xs(2) by simp
qed

lemma roots_repr_contents [simp]: "roots_repr (g\<lparr>root_contents := h\<rparr>) S = roots_repr g S"
  by (simp add: roots_repr_def lists_repr_def)

lemma iterate_after:
  assumes "roots_repr g S"
  shows "Option.bind (map_option (in_roots g) v) (caml_iterate_global_roots f l) =
    map_option (in_roots g) (Option.bind v (visit f (sorted_list_of_set (S l))))"
proof (cases v)
  case (Some s)
  have "(in_roots (g\<lparr>root_contents := snd s\<rparr>) :: 'a \<times> (u64 \<Rightarrow> u64 option) \<Rightarrow> _) = in_roots g"
    by (simp add: in_roots_def fun_eq_iff)
  with Some iterate_spec [of "g\<lparr>root_contents := snd s\<rparr>" S f l "fst s"] assms show ?thesis
    by (simp add: in_roots_def)
qed simp

text \<open>A sample: three variables, one of them with a pointer to the minor heap.\<close>

definition sample_roots :: globroots where
  "sample_roots = \<lparr>root_mem = \<lparr>random_seed = 0, sk_cells = []\<rparr>,
     root_lists = (\<lambda>_. SKIPLIST_STATIC_INITIALIZER),
     root_contents = [0x100 \<mapsto> 0x1800, 0x108 \<mapsto> 0x5000, 0x110 \<mapsto> 3],
     caml_minor_heaps_base = 0x1000, caml_minor_heaps_end = 0x2000\<rparr>"

lemma sample_repr: "roots_repr sample_roots (\<lambda>_. {})"
  using all_rep_init by (auto simp: roots_repr_def lists_repr_def sample_roots_def intro!: exI [of _ "\<lambda>_. []"])

lemma map_option_bind_Done: "Option.bind x (\<lambda>g. Some (Done g)) = map_option Done x"
  by (cases x) simp_all

lemma sample_registered:
  obtains g where "caml_register_generational_global_root 0x100 sample_roots = Some (Done g)"
    and "roots_repr g ((\<lambda>_. {})(Young := {0x100}))" and "same_values sample_roots g"
proof -
  obtain g where g: "caml_insert_global_root Young 0x100 sample_roots = Some g"
    "roots_repr g ((\<lambda>_. {})(Young := {0x100}))" "same_values sample_roots g"
    using insert_global_root_spec [OF sample_repr, of Young "0x100"] by metis
  moreover have "caml_register_generational_global_root 0x100 sample_roots =
      map_option Done (caml_insert_global_root Young 0x100 sample_roots)"
    by (simp add: caml_register_generational_global_root_def classify_gc_root_def word_is_block_def
        Is_young_def sample_roots_def map_option_bind_Done)
  ultimately show thesis by (intro that [of g]) simp_all
qed

text \<open>C34: A full scan applies the action exactly once to every root in every list it is in: first to
  the mutable roots, then to the young and then to the old generational roots, in each list by
  increasing address; it leaves the lists as they are.\<close>

theorem scan_global_roots_visits:
  assumes "roots_repr g S"
  shows "caml_scan_global_roots f (d, g) = map_option (in_roots g)
    (visit f (sorted_list_of_set (S Global) @ sorted_list_of_set (S Young) @ sorted_list_of_set (S Old))
      (d, root_contents g))"
  by (simp add: caml_scan_global_roots_def iterate_spec [OF assms] iterate_after [OF assms] visit_append
      flip: Option.bind_assoc append_assoc)

theorem scan_global_roots_visits_witness:
  "\<exists>g. caml_register_generational_global_root 0x100 sample_roots = Some (Done g)
    \<and> caml_scan_global_roots (\<lambda>v r s. Some (fst s @ [(v, r)], snd s)) ([], g) = Some ([(0x1800, 0x100)], g)"
proof -
  obtain g where g: "caml_register_generational_global_root 0x100 sample_roots = Some (Done g)"
    "roots_repr g ((\<lambda>_. {})(Young := {0x100}))" "same_values sample_roots g"
    by (rule sample_registered)
  have "root_contents g 0x100 = Some 0x1800" using g(3) by (simp add: same_values_def sample_roots_def)
  with g(1) scan_global_roots_visits [OF g(2), of "\<lambda>v r s. Some (fst s @ [(v, r)], snd s)" "[]"]
  show ?thesis by (simp add: in_roots_def)
qed

subsection \<open>Moving the young roots\<close>

lemma move_root_insert:
  "cell_at (root_mem g) e = Some c \<Longrightarrow> move_root e g = caml_insert_global_root Old (sc_key c) g"
  by (simp add: move_root_def caml_insert_global_root_def)

lemma move_root_lists:
  assumes "lists_repr g (xs(Old := x))" and "move_root a g = Some g'"
  obtains y where "lists_repr g' (xs(Old := y))" and "separate (root_mem g) x (root_mem g') y"
proof -
  obtain c where c: "cell_at (root_mem g) a = Some c"
    using assms(2) by (auto simp: move_root_def bind_Some_iff)
  obtain g2 y where "caml_insert_global_root Old (sc_key c) g = Some g2"
    "lists_repr g2 ((xs(Old := x))(Old := y))" "separate (root_mem g) x (root_mem g2) y"
    using insert_global_root_lists [OF assms(1), of Old "sc_key c"] by (metis fun_upd_same)
  with assms(2) move_root_insert [OF c] show thesis by (intro that [of y]) auto
qed

lemma run_move_root:
  assumes "lists_repr g (xs(Old := x))" and "set ns \<subseteq> set (xs Young)"
  shows "\<exists>g' y. run_actions move_root (map n_addr ns) g = Some g' \<and> lists_repr g' (xs(Old := y))
    \<and> n_key ` set y = n_key ` set x \<union> n_key ` set ns \<and> same_values g g'"
  using assms
proof (induction ns arbitrary: g x)
  case (Cons n ns)
  have "sk_repr (root_mem g) (root_lists g Young) (xs Young)"
    using Cons.prems(1) unfolding lists_repr_def all_rep_def by (metis fun_upd_other root_list.distinct(5))
  then have "node_ok (root_mem g) n"
    using Cons.prems(2) by (auto simp: sk_repr_def nodes_ok_def)
  then obtain c where c: "cell_at (root_mem g) (n_addr n) = Some c" "sc_key c = n_key n"
    by (rule node_ok_cell)
  obtain g1 x1 where 1: "caml_insert_global_root Old (n_key n) g = Some g1"
    "lists_repr g1 ((xs(Old := x))(Old := x1))" "n_key ` set x1 = insert (n_key n) (n_key ` set x)"
    "same_values g g1"
    using insert_global_root_lists [OF Cons.prems(1), of Old "n_key n"] by (metis fun_upd_same)
  have "\<exists>g' y. run_actions move_root (map n_addr ns) g1 = Some g' \<and> lists_repr g' (xs(Old := y))
    \<and> n_key ` set y = n_key ` set x1 \<union> n_key ` set ns \<and> same_values g1 g'"
    using 1(2) Cons.prems(2) by (intro Cons.IH) (simp_all only: fun_upd_upd set_simps insert_subset)
  then obtain g' y where 2: "run_actions move_root (map n_addr ns) g1 = Some g'"
    "lists_repr g' (xs(Old := y))" "n_key ` set y = n_key ` set x1 \<union> n_key ` set ns"
    "same_values g1 g'" by blast
  have "run_actions move_root (map n_addr (n # ns)) g = Some g'"
    using 1(1) 2(1) c by (simp add: move_root_insert [OF c(1)])
  moreover have "n_key ` set y = n_key ` set x \<union> n_key ` set (n # ns)"
    using 2(3) 1(3) by auto
  ultimately show ?case using 2(2) same_values_trans [OF 1(4) 2(4)] by blast
qed auto

lemma foreach_move:
  assumes "lists_repr g xs"
  shows "FOREACH_SKIPLIST_ELEMENT root_mem (root_lists g Young) move_root g =
    run_actions move_root (map n_addr (xs Young)) g"
proof (rule foreach_spec [where I = "\<lambda>g. \<exists>x. lists_repr g (xs(Old := x))"])
  show "sk_repr (root_mem g) (root_lists g Young) (xs Young)"
    using assms by (simp add: lists_repr_def all_rep_def)
  show "\<exists>x. lists_repr g (xs(Old := x))" using assms by (intro exI [of _ "xs Old"]) simp
  show "cell_at (root_mem g2) b = cell_at (root_mem g1) b"
    if b: "b \<in> addrs (xs Young)" and I: "\<exists>x. lists_repr g1 (xs(Old := x))"
      and mv: "move_root a g1 = Some g2" for a g1 g2 b
  proof -
    obtain x where x: "lists_repr g1 (xs(Old := x))" using I by blast
    obtain y where y: "separate (root_mem g1) x (root_mem g2) y" using move_root_lists [OF x mv] .
    have "sk_repr (root_mem g1) (root_lists g1 Young) (xs Young)" "addrs x \<inter> addrs (xs Young) = {}"
      using x unfolding lists_repr_def all_rep_def
      by (metis fun_upd_other fun_upd_same root_list.distinct(5))+
    then show ?thesis
      using y b addrs_less [of "root_mem g1" "xs Young" b] by (auto simp: separate_def sk_repr_def)
  qed
  show "\<exists>x. lists_repr g2 (xs(Old := x))"
    if "\<exists>x. lists_repr g1 (xs(Old := x))" "move_root a g1 = Some g2" for a g1 g2
    using that move_root_lists by metis
qed

lemma move_young_spec:
  assumes "roots_repr g S"
  obtains g1 m sk where "FOREACH_SKIPLIST_ELEMENT root_mem (root_lists g Young) move_root g = Some g1"
    and "caml_skiplist_empty (root_mem g1) (root_lists g1 Young) = Some (m, sk)"
    and "roots_repr (g1\<lparr>root_mem := m, root_lists := (root_lists g1)(Young := sk)\<rparr>)
           (S(Young := {}, Old := S Old \<union> S Young))"
    and "same_values g (g1\<lparr>root_mem := m, root_lists := (root_lists g1)(Young := sk)\<rparr>)"
proof -
  obtain xs where xs: "lists_repr g xs" "S = (\<lambda>l. n_key ` set (xs l))"
    using assms by (auto simp: roots_repr_def)
  have "lists_repr g (xs(Old := xs Old))" using xs(1) by simp
  then obtain g1 y where 1: "run_actions move_root (map n_addr (xs Young)) g = Some g1"
    "lists_repr g1 (xs(Old := y))" "n_key ` set y = n_key ` set (xs Old) \<union> n_key ` set (xs Young)"
    "same_values g g1"
    using run_move_root [of g xs "xs Old" "xs Young"] by blast
  obtain m sk z where 2: "caml_skiplist_empty (root_mem g1) (root_lists g1 Young) = Some (m, sk)"
    "all_rep sk_repr addrs m ((root_lists g1)(Young := sk)) ((xs(Old := y))(Young := z))"
    "dict z = Map.empty"
    using skl.clear_all [OF 1(2) [unfolded lists_repr_def]] by metis
  have "n_key ` set z = {}" using 2(3) dom_dict [of z] by simp
  then have "S(Young := {}, Old := S Old \<union> S Young) =
      (\<lambda>l. n_key ` set (((xs(Old := y))(Young := z)) l))"
    using 1(3) by (auto simp: xs(2) fun_eq_iff)
  then have "roots_repr (g1\<lparr>root_mem := m, root_lists := (root_lists g1)(Young := sk)\<rparr>)
      (S(Young := {}, Old := S Old \<union> S Young))"
    using 2(2) unfolding roots_repr_def lists_repr_def
    by (intro exI [of _ "(xs(Old := y))(Young := z)"]) simp
  moreover have "same_values g (g1\<lparr>root_mem := m, root_lists := (root_lists g1)(Young := sk)\<rparr>)"
    using 1(4) by (simp add: same_values_def)
  ultimately show thesis using foreach_move [OF xs(1)] 1(1) 2(1) by (intro that) auto
qed

text \<open>A minor scan: the action on the mutable and on the young roots, then the young roots are old.\<close>

lemma scan_young_spec:
  assumes "roots_repr g S"
    and "visit f (sorted_list_of_set (S Global) @ sorted_list_of_set (S Young)) (d, root_contents g) =
      Some (d', h)"
  obtains g' where "caml_scan_global_young_roots f (d, g) = Some (d', g')"
    and "roots_repr g' (S(Young := {}, Old := S Old \<union> S Young))"
    and "same_values (g\<lparr>root_contents := h\<rparr>) g'"
proof -
  obtain g1 m sk where 1: "FOREACH_SKIPLIST_ELEMENT root_mem (root_lists g Young) move_root
      (g\<lparr>root_contents := h\<rparr>) = Some g1"
    "caml_skiplist_empty (root_mem g1) (root_lists g1 Young) = Some (m, sk)"
    "roots_repr (g1\<lparr>root_mem := m, root_lists := (root_lists g1)(Young := sk)\<rparr>)
       (S(Young := {}, Old := S Old \<union> S Young))"
    "same_values (g\<lparr>root_contents := h\<rparr>) (g1\<lparr>root_mem := m, root_lists := (root_lists g1)(Young := sk)\<rparr>)"
    using move_young_spec [of "g\<lparr>root_contents := h\<rparr>" S] assms(1) by auto
  have "Option.bind (caml_iterate_global_roots f Global (d, g)) (caml_iterate_global_roots f Young) =
      Some (d', g\<lparr>root_contents := h\<rparr>)"
    using assms(2) by (simp add: iterate_spec [OF assms(1)] iterate_after [OF assms(1)] visit_append in_roots_def)
  then have "caml_scan_global_young_roots f (d, g) =
      Some (d', g1\<lparr>root_mem := m, root_lists := (root_lists g1)(Young := sk)\<rparr>)"
    using 1(1,2) by (simp add: caml_scan_global_young_roots_def flip: Option.bind_assoc)
  with 1(3,4) show thesis by (intro that)
qed

subsection \<open>The invariant of the generational roots\<close>

text \<open>
  The invariant that the code maintains for the registered generational roots \<open>G\<close>, by the class
  that \<open>classify_gc_root\<close> gives the value of a root:

  \<^item> \<open>YOUNG\<close> (a block of the minor heap): the root is in the young list, and not in the old one;
  \<^item> \<open>OLD\<close> (every other block pointer): it is in the old or in the young list;
  \<^item> \<open>UNTRACKED\<close> (an immediate value): it is in neither list.

  Moreover the lists have no other roots. This is the comment of globroots.c but for pointers outside
  of the heap: the comment has their roots in neither list, and the code, which does not tell them
  from pointers to the major heap, puts them in the old list (\<open>register_not_young_is_old\<close>).
\<close>

definition root_ok :: "gc_root_class \<Rightarrow> bool \<Rightarrow> bool \<Rightarrow> bool" where
  "root_ok c young old = (case c of YOUNG \<Rightarrow> young \<and> \<not> old | OLD \<Rightarrow> young \<or> old | UNTRACKED \<Rightarrow> \<not> young \<and> \<not> old)"

definition gen_inv :: "u64 set \<Rightarrow> globroots \<Rightarrow> (root_list \<Rightarrow> u64 set) \<Rightarrow> bool" where
  "gen_inv G g S \<longleftrightarrow> (\<forall>r.
     if r \<in> G then \<exists>v. root_contents g r = Some v \<and> root_ok (classify_gc_root g v) (r \<in> S Young) (r \<in> S Old)
     else r \<notin> S Young \<and> r \<notin> S Old)"

text \<open>The mutable roots \<open>M\<close> and the generational roots \<open>G\<close> are registered.\<close>

definition roots_inv :: "u64 set \<Rightarrow> u64 set \<Rightarrow> globroots \<Rightarrow> bool" where
  "roots_inv M G g \<longleftrightarrow> (\<exists>S. roots_repr g S \<and> S Global = M \<and> gen_inv G g S)"

text \<open>A step that changes only what concerns the root \<open>r\<close>.\<close>

lemma gen_inv_change:
  assumes "gen_inv G g S" and "classify_gc_root g' = classify_gc_root g"
    and "\<And>r'. r' \<noteq> r \<Longrightarrow> root_contents g' r' = root_contents g r'"
    and "\<And>l r'. r' \<noteq> r \<Longrightarrow> r' \<in> S' l \<longleftrightarrow> r' \<in> S l"
    and "\<And>r'. r' \<noteq> r \<Longrightarrow> r' \<in> G' \<longleftrightarrow> r' \<in> G"
    and "if r \<in> G' then \<exists>v. root_contents g' r = Some v
           \<and> root_ok (classify_gc_root g v) (r \<in> S' Young) (r \<in> S' Old)
         else r \<notin> S' Young \<and> r \<notin> S' Old"
  shows "gen_inv G' g' S'"
  unfolding gen_inv_def
proof
  fix r'
  show "if r' \<in> G' then \<exists>v. root_contents g' r' = Some v
           \<and> root_ok (classify_gc_root g' v) (r' \<in> S' Young) (r' \<in> S' Old)
         else r' \<notin> S' Young \<and> r' \<notin> S' Old"
  proof (cases "r' = r")
    case True
    with assms(2,6) show ?thesis by simp
  next
    case False
    with assms(1,2) assms(3,4,5) [of r'] show ?thesis unfolding gen_inv_def by simp
  qed
qed

lemma gen_invD:
  assumes "gen_inv G g S"
  shows "r \<in> G \<Longrightarrow> root_contents g r = Some v \<Longrightarrow>
      root_ok (classify_gc_root g v) (r \<in> S Young) (r \<in> S Old)"
    and "r \<notin> G \<Longrightarrow> r \<notin> S Young" and "r \<notin> G \<Longrightarrow> r \<notin> S Old"
    and "r \<in> G \<Longrightarrow> root_contents g r \<noteq> None"
  using assms [unfolded gen_inv_def, rule_format, of r] by auto

lemmas same_valuesD = same_values_def [THEN iffD1, THEN conjunct1, THEN fun_cong]

lemma register_not_young_is_old:
  assumes "roots_repr g S" and "root_contents g r = Some v" and "word_is_block v" and "\<not> Is_young g v"
    and "r AND 3 = 0"
  shows "\<exists>g'. caml_register_generational_global_root r g = Some (Done g')
    \<and> roots_repr g' (S(Old := insert r (S Old))) \<and> same_values g g'"
proof -
  obtain g' where "caml_insert_global_root Old r g = Some g'"
    "roots_repr g' (S(Old := insert r (S Old)))" "same_values g g'"
    using insert_global_root_spec [OF assms(1)] by metis
  with assms(2-5) show ?thesis
    by (simp add: caml_register_generational_global_root_def classify_gc_root_def)
qed

lemma register_spec:
  assumes "roots_repr g S" and "gen_inv G g S" and "root_contents g r = Some v" and "r AND 3 = 0"
  shows "\<exists>g' S'. caml_register_generational_global_root r g = Some (Done g') \<and> roots_repr g' S'
    \<and> S' Global = S Global \<and> gen_inv (insert r G) g' S' \<and> same_values g g'"
proof -
  have inv: "gen_inv (insert r G) g' S'"
    if "same_values g g'" "\<And>l r'. r' \<noteq> r \<Longrightarrow> r' \<in> S' l \<longleftrightarrow> r' \<in> S l"
      "root_ok (classify_gc_root g v) (r \<in> S' Young) (r \<in> S' Old)" for g' S'
    by (rule gen_inv_change [OF assms(2) classify_same [OF that(1)]])
       (use that assms(3) same_valuesD [OF that(1)] in auto)
  note r = gen_invD(1) [OF assms(2) _ assms(3)] gen_invD(2,3) [OF assms(2), of r]
  show ?thesis
  proof (cases "classify_gc_root g v")
    case YOUNG
    obtain g' where g': "caml_insert_global_root Young r g = Some g'"
      "roots_repr g' (S(Young := insert r (S Young)))" "same_values g g'"
      using insert_global_root_spec [OF assms(1)] by metis
    have "gen_inv (insert r G) g' (S(Young := insert r (S Young)))"
      by (rule inv [OF g'(3)]) (use YOUNG r in \<open>auto simp: root_ok_def\<close>)
    moreover have "caml_register_generational_global_root r g = Some (Done g')"
      using g'(1) assms(3,4) YOUNG by (simp add: caml_register_generational_global_root_def)
    ultimately show ?thesis using g'(2,3)
      by (intro exI [of _ g'] exI [of _ "S(Young := insert r (S Young))"]) simp
  next
    case OLD
    obtain g' where g': "caml_insert_global_root Old r g = Some g'"
      "roots_repr g' (S(Old := insert r (S Old)))" "same_values g g'"
      using insert_global_root_spec [OF assms(1)] by metis
    have "gen_inv (insert r G) g' (S(Old := insert r (S Old)))"
      by (rule inv [OF g'(3)]) (use OLD r in \<open>auto simp: root_ok_def\<close>)
    moreover have "caml_register_generational_global_root r g = Some (Done g')"
      using g'(1) assms(3,4) OLD by (simp add: caml_register_generational_global_root_def)
    ultimately show ?thesis using g'(2,3)
      by (intro exI [of _ g'] exI [of _ "S(Old := insert r (S Old))"]) simp
  next
    case UNTRACKED
    have "gen_inv (insert r G) g S"
      by (rule inv [OF same_values_refl]) (use UNTRACKED r in \<open>auto simp: root_ok_def\<close>)
    moreover have "caml_register_generational_global_root r g = Some (Done g)"
      using assms(3,4) UNTRACKED by (simp add: caml_register_generational_global_root_def)
    ultimately show ?thesis using assms(1) by (intro exI [of _ g] exI [of _ S]) simp
  qed
qed

lemma remove_root_spec:
  assumes "roots_repr g S" and "gen_inv G g S" and "root_contents g r = Some v"
  shows "\<exists>g' S'. caml_remove_generational_global_root r g = Some g' \<and> roots_repr g' S' \<and> same_values g g'
    \<and> S' Global = S Global \<and> S' Young = S Young - {r} \<and> S' Old = S Old - {r}"
proof -
  note r = gen_invD(1) [OF assms(2) _ assms(3)] gen_invD(2,3) [OF assms(2), of r]
  show ?thesis
  proof (cases "classify_gc_root g v")
    case YOUNG
    obtain g' where g': "caml_delete_global_root Young r g = Some g'"
      "roots_repr g' (S(Young := S Young - {r}))" "same_values g g'"
      using delete_global_root_spec [OF assms(1)] by metis
    moreover have "r \<notin> S Old" using YOUNG r by (auto simp: root_ok_def)
    moreover have "caml_remove_generational_global_root r g = Some g'"
      using g'(1) assms(3) YOUNG by (simp add: caml_remove_generational_global_root_def)
    ultimately show ?thesis
      by (intro exI [of _ g'] exI [of _ "S(Young := S Young - {r})"]) simp
  next
    case OLD
    obtain g1 where g1: "caml_delete_global_root Old r g = Some g1"
      "roots_repr g1 (S(Old := S Old - {r}))" "same_values g g1"
      using delete_global_root_spec [OF assms(1)] by metis
    obtain g' where g': "caml_delete_global_root Young r g1 = Some g'"
      "roots_repr g' ((S(Old := S Old - {r}))(Young := S Young - {r}))" "same_values g1 g'"
      using delete_global_root_spec [OF g1(2), of Young r] by auto
    have "caml_remove_generational_global_root r g = Some g'"
      using g1(1) g'(1) assms(3) OLD by (simp add: caml_remove_generational_global_root_def)
    then show ?thesis using g'(2) same_values_trans [OF g1(3) g'(3)]
      by (intro exI [of _ g'] exI [of _ "(S(Old := S Old - {r}))(Young := S Young - {r})"]) simp
  next
    case UNTRACKED
    have "r \<notin> S Young" "r \<notin> S Old" using UNTRACKED r by (auto simp: root_ok_def)
    moreover have "caml_remove_generational_global_root r g = Some g"
      using assms(3) UNTRACKED by (simp add: caml_remove_generational_global_root_def)
    ultimately show ?thesis using assms(1) by (intro exI [of _ g] exI [of _ S]) simp
  qed
qed

lemma gen_inv_removed:
  assumes "gen_inv G g S" and "same_values g g'" and "S' Young = S Young - {r}" and "S' Old = S Old - {r}"
  shows "gen_inv (G - {r}) g' S'"
  using assms(1) same_valuesD [OF assms(2)] classify_same [OF assms(2)]
  unfolding gen_inv_def assms(3,4) by auto

text \<open>What \<open>caml_modify_generational_global_root\<close> does to the lists before it stores the value.\<close>

lemma modify_lists_spec:
  assumes "roots_repr g S" and "gen_inv G g S" and "r \<in> G" and "root_contents g r = Some v"
  shows "\<exists>g' S'. caml_modify_generational_global_root r newval g =
      Some (g'\<lparr>root_contents := (root_contents g)(r \<mapsto> newval)\<rparr>)
    \<and> roots_repr g' S' \<and> same_values g g' \<and> S' Global = S Global
    \<and> (\<forall>r'. r' \<noteq> r \<longrightarrow> (r' \<in> S' Young \<longleftrightarrow> r' \<in> S Young) \<and> (r' \<in> S' Old \<longleftrightarrow> r' \<in> S Old))
    \<and> root_ok (classify_gc_root g newval) (r \<in> S' Young) (r \<in> S' Old)"
proof -
  note r = gen_invD(1) [OF assms(2,3,4)]
  note m = caml_modify_generational_global_root_def assms(4) same_values_def
  show ?thesis
  proof (cases "classify_gc_root g newval")
    case new: YOUNG
    show ?thesis
    proof (cases "classify_gc_root g v")
      case YOUNG
      with new r assms(1) show ?thesis
        by (intro exI [of _ g] exI [of _ S]) (auto simp: m root_ok_def)
    next
      case OLD
      obtain g1 where g1: "caml_delete_global_root Old r g = Some g1"
        "roots_repr g1 (S(Old := S Old - {r}))" "same_values g g1"
        using delete_global_root_spec [OF assms(1)] by metis
      obtain g' where g': "caml_insert_global_root Young r g1 = Some g'"
        "roots_repr g' ((S(Old := S Old - {r}))(Young := insert r (S Young)))" "same_values g1 g'"
        using insert_global_root_spec [OF g1(2), of Young r] by auto
      with g1 new OLD show ?thesis
        by (intro exI [of _ g'] exI [of _ "(S(Old := S Old - {r}))(Young := insert r (S Young))"])
           (simp add: m root_ok_def)
    next
      case UNTRACKED
      obtain g' where g': "caml_insert_global_root Young r g = Some g'"
        "roots_repr g' (S(Young := insert r (S Young)))" "same_values g g'"
        using insert_global_root_spec [OF assms(1)] by metis
      with new r UNTRACKED show ?thesis
        by (intro exI [of _ g'] exI [of _ "S(Young := insert r (S Young))"]) (simp add: m root_ok_def)
    qed
  next
    case new: OLD
    show ?thesis
    proof (cases "classify_gc_root g v = UNTRACKED")
      case True
      obtain g' where g': "caml_insert_global_root Old r g = Some g'"
        "roots_repr g' (S(Old := insert r (S Old)))" "same_values g g'"
        using insert_global_root_spec [OF assms(1)] by metis
      with new True show ?thesis
        by (intro exI [of _ g'] exI [of _ "S(Old := insert r (S Old))"]) (simp add: m root_ok_def)
    next
      case False
      with new r assms(1) show ?thesis
        by (intro exI [of _ g] exI [of _ S]) (auto simp: m root_ok_def split: gc_root_class.splits)
    qed
  next
    case new: UNTRACKED
    obtain g' S' where "caml_remove_generational_global_root r g = Some g'" "roots_repr g' S'"
      "same_values g g'" "S' Global = S Global" "S' Young = S Young - {r}" "S' Old = S Old - {r}"
      using remove_root_spec [OF assms(1,2,4)] by blast
    with new show ?thesis
      by (intro exI [of _ g'] exI [of _ S']) (simp add: m root_ok_def)
  qed
qed

lemma classify_contents [simp]: "classify_gc_root (g\<lparr>root_contents := h\<rparr>) = classify_gc_root g"
  by (simp add: classify_gc_root_def Is_young_def fun_eq_iff)

lemma modify_spec:
  assumes "roots_repr g S" and "gen_inv G g S" and "r \<in> G"
  shows "\<exists>g' S'. caml_modify_generational_global_root r newval g = Some g' \<and> roots_repr g' S'
    \<and> S' Global = S Global \<and> gen_inv G g' S' \<and> root_contents g' = (root_contents g)(r \<mapsto> newval)"
proof -
  obtain v where v: "root_contents g r = Some v" using gen_invD(4) [OF assms(2,3)] by auto
  obtain g' S' where 1: "caml_modify_generational_global_root r newval g =
      Some (g'\<lparr>root_contents := (root_contents g)(r \<mapsto> newval)\<rparr>)"
    "roots_repr g' S'" "same_values g g'" "S' Global = S Global"
    "\<forall>r'. r' \<noteq> r \<longrightarrow> (r' \<in> S' Young \<longleftrightarrow> r' \<in> S Young) \<and> (r' \<in> S' Old \<longleftrightarrow> r' \<in> S Old)"
    "root_ok (classify_gc_root g newval) (r \<in> S' Young) (r \<in> S' Old)"
    using modify_lists_spec [OF assms v] by blast
  have l: "r' \<in> S' l \<longleftrightarrow> r' \<in> S l" if "r' \<noteq> r" for l r' using 1(4,5) that by (cases l) auto
  have "gen_inv G (g'\<lparr>root_contents := (root_contents g)(r \<mapsto> newval)\<rparr>) S'"
    by (rule gen_inv_change [OF assms(2), of _ r])
       (use 1(6) l assms(3) classify_same [OF 1(3)] in auto)
  with 1(1,2,4) show ?thesis by auto
qed

lemma gen_inv_mutable:
  assumes "gen_inv G g S" and "same_values g g'"
  shows "gen_inv G g' (S(Global := X))"
  using assms classify_same [OF assms(2)] by (simp add: gen_inv_def same_values_def)

lemma register_mutable_spec:
  assumes "roots_repr g S" and "gen_inv G g S" and "r AND 3 = 0"
  shows "\<exists>g' S'. caml_register_global_root r g = Some (Done g') \<and> roots_repr g' S'
    \<and> S' Global = insert r (S Global) \<and> gen_inv G g' S' \<and> same_values g g'"
proof -
  obtain g' where "caml_insert_global_root Global r g = Some g'"
    "roots_repr g' (S(Global := insert r (S Global)))" "same_values g g'"
    using insert_global_root_spec [OF assms(1)] by metis
  then show ?thesis using gen_inv_mutable [OF assms(2)]
    by (intro exI [of _ g'] exI [of _ "S(Global := insert r (S Global))"])
       (simp add: caml_register_global_root_def assms(3))
qed

lemma remove_mutable_spec:
  assumes "roots_repr g S" and "gen_inv G g S"
  shows "\<exists>g' S'. caml_remove_global_root r g = Some g' \<and> roots_repr g' S'
    \<and> S' Global = S Global - {r} \<and> gen_inv G g' S' \<and> same_values g g'"
proof -
  obtain g' where "caml_delete_global_root Global r g = Some g'"
    "roots_repr g' (S(Global := S Global - {r}))" "same_values g g'"
    using delete_global_root_spec [OF assms(1)] by metis
  then show ?thesis using gen_inv_mutable [OF assms(2)]
    by (intro exI [of _ g'] exI [of _ "S(Global := S Global - {r})"])
       (simp add: caml_remove_global_root_def)
qed

lemma sample_inv:
  assumes "roots_repr g ((\<lambda>_. {})(Young := {0x100}))" and "same_values sample_roots g"
  shows "roots_inv {} {0x100} g"
proof -
  have "gen_inv {0x100} g ((\<lambda>_. {})(Young := {0x100}))"
    using assms(2) by (simp add: gen_inv_def root_ok_def same_values_def sample_roots_def
        classify_gc_root_def word_is_block_def Is_young_def)
  with assms(1) show ?thesis by (auto simp: roots_inv_def)
qed

text \<open>C22: The lists of the generational roots follow the classes of \<open>classify_gc_root\<close>: a root with a
  block of the minor heap is in the young list only, a root with any other block pointer (also one
  outside of the heap, against the comment of the source) is in the old or in the young list, a root
  with an immediate value is in neither, and the lists have no roots that are not registered.
  Registering a root at an aligned address, once or again, removing it and modifying it keep this for
  the roots that are registered afterwards, and so do registering and removing a mutable root; none
  of them touches the roots of the other kind, and only the modification changes a variable, the root
  itself. Registering a root at an address that is not a multiple of four fails the assertion.\<close>

theorem generational_roots_invariant:
  assumes "roots_inv M G g" and "root_contents g r = Some v"
  shows "(if r AND 3 = 0
      then (\<exists>g'. caml_register_generational_global_root r g = Some (Done g') \<and> roots_inv M (insert r G) g'
          \<and> root_contents g' = root_contents g)
        \<and> (\<exists>g'. caml_register_global_root r g = Some (Done g') \<and> roots_inv (insert r M) G g'
          \<and> root_contents g' = root_contents g)
      else caml_register_generational_global_root r g = Some Assert_failure
        \<and> caml_register_global_root r g = Some Assert_failure)
    \<and> (\<exists>g'. caml_remove_generational_global_root r g = Some g' \<and> roots_inv M (G - {r}) g'
      \<and> root_contents g' = root_contents g)
    \<and> (r \<in> G \<longrightarrow> (\<exists>g'. caml_modify_generational_global_root r newval g = Some g' \<and> roots_inv M G g'
      \<and> root_contents g' = (root_contents g)(r \<mapsto> newval)))
    \<and> (\<exists>g'. caml_remove_global_root r g = Some g' \<and> roots_inv (M - {r}) G g'
      \<and> root_contents g' = root_contents g)"
proof -
  obtain S where S: "roots_repr g S" "S Global = M" "gen_inv G g S"
    using assms(1) by (auto simp: roots_inv_def)
  have "\<exists>g'. caml_register_generational_global_root r g = Some (Done g') \<and> roots_inv M (insert r G) g'
      \<and> root_contents g' = root_contents g" if "r AND 3 = 0"
    using register_spec [OF S(1,3) assms(2) that] S(2) by (auto simp: roots_inv_def same_values_def)
  moreover have "\<exists>g'. caml_register_global_root r g = Some (Done g') \<and> roots_inv (insert r M) G g'
      \<and> root_contents g' = root_contents g" if "r AND 3 = 0"
    using register_mutable_spec [OF S(1,3) that] S(2) by (auto simp: roots_inv_def same_values_def)
  moreover have "caml_register_generational_global_root r g = Some Assert_failure"
    "caml_register_global_root r g = Some Assert_failure" if "r AND 3 \<noteq> 0"
    using that by (simp_all add: caml_register_generational_global_root_def caml_register_global_root_def)
  moreover have "\<exists>g'. caml_remove_generational_global_root r g = Some g' \<and> roots_inv M (G - {r}) g'
      \<and> root_contents g' = root_contents g"
    using remove_root_spec [OF S(1,3) assms(2)] S(2) gen_inv_removed [OF S(3)]
    unfolding roots_inv_def same_values_def by metis
  moreover have "\<exists>g'. caml_modify_generational_global_root r newval g = Some g' \<and> roots_inv M G g'
      \<and> root_contents g' = (root_contents g)(r \<mapsto> newval)" if "r \<in> G"
    using modify_spec [OF S(1,3) that, of newval] S(2) by (auto simp: roots_inv_def)
  moreover have "\<exists>g'. caml_remove_global_root r g = Some g' \<and> roots_inv (M - {r}) G g'
      \<and> root_contents g' = root_contents g"
    using remove_mutable_spec [OF S(1,3), of r] S(2) by (auto simp: roots_inv_def same_values_def)
  ultimately show ?thesis by (cases "r AND 3 = 0") simp_all
qed

theorem generational_roots_invariant_witness:
  "\<exists>g. caml_register_generational_global_root 0x100 sample_roots = Some (Done g)
    \<and> (\<exists>g'. caml_modify_generational_global_root 0x100 0x5000 g = Some g' \<and> roots_inv {} {0x100} g'
        \<and> root_contents g' 0x100 = Some 0x5000)
    \<and> (\<exists>g'. caml_remove_generational_global_root 0x100 g = Some g' \<and> roots_inv {} {} g')"
proof -
  obtain g where g: "caml_register_generational_global_root 0x100 sample_roots = Some (Done g)"
    "roots_repr g ((\<lambda>_. {})(Young := {0x100}))" "same_values sample_roots g"
    by (rule sample_registered)
  have c: "root_contents g 0x100 = Some 0x1800" using g(3) by (simp add: same_values_def sample_roots_def)
  have i: "roots_inv {} {0x100} g" by (rule sample_inv [OF g(2,3)])
  from g(1) generational_roots_invariant [OF i c, of "0x5000"] show ?thesis by auto
qed

subsection \<open>Minor collections\<close>

text \<open>
  What a minor collection does to a root, as \<open>oldify_one\<close> of minor_gc.c does when the block is not a
  forward block: a pointer to the minor heap becomes one to the major heap, any other value stays.
\<close>

definition promotes :: "globroots \<Rightarrow> 'd scanning_action \<Rightarrow> bool" where
  "promotes g f \<longleftrightarrow> (\<forall>v r d h. h r = Some v \<longrightarrow>
     (\<exists>d' w. f v r (d, h) = Some (d', h(r \<mapsto> w)) \<and>
        (if classify_gc_root g v = YOUNG then classify_gc_root g w = OLD else w = v)))"

text \<open>The value \<open>w\<close> of a root after a scan that did or did not visit it, when it was \<open>v\<close>.\<close>

definition promoted :: "globroots \<Rightarrow> bool \<Rightarrow> u64 \<Rightarrow> u64 \<Rightarrow> bool" where
  "promoted g visited v w \<longleftrightarrow>
     (if visited \<and> classify_gc_root g v = YOUNG then classify_gc_root g w = OLD else w = v)"

lemma visit_promotes:
  assumes "promotes g f" and "\<forall>r\<in>set rs. h r \<noteq> None"
  shows "\<exists>d' h'. visit f rs (d, h) = Some (d', h') \<and> (\<forall>r. h r = None \<longrightarrow> h' r = None)
    \<and> (\<forall>r v. h r = Some v \<longrightarrow> (\<exists>w. h' r = Some w \<and> promoted g (r \<in> set rs) v w))"
  using assms(2)
proof (induction rs arbitrary: d h)
  case (Cons r rs)
  obtain v where v: "h r = Some v" using Cons.prems by auto
  obtain d1 w where w: "f v r (d, h) = Some (d1, h(r \<mapsto> w))" "promoted g True v w"
    using assms(1) v unfolding promotes_def promoted_def by (metis (full_types))
  have "\<exists>d' h'. visit f rs (d1, h(r \<mapsto> w)) = Some (d', h')
    \<and> (\<forall>r'. (h(r \<mapsto> w)) r' = None \<longrightarrow> h' r' = None)
    \<and> (\<forall>r' v. (h(r \<mapsto> w)) r' = Some v \<longrightarrow> (\<exists>w. h' r' = Some w \<and> promoted g (r' \<in> set rs) v w))"
    using Cons.prems by (intro Cons.IH) auto
  then obtain d' h' where 1: "visit f rs (d1, h(r \<mapsto> w)) = Some (d', h')"
    "\<And>r'. (h(r \<mapsto> w)) r' = None \<Longrightarrow> h' r' = None"
    "\<And>r' v. (h(r \<mapsto> w)) r' = Some v \<Longrightarrow> \<exists>w. h' r' = Some w \<and> promoted g (r' \<in> set rs) v w"
    by blast
  have "\<exists>w'. h' r' = Some w' \<and> promoted g (r' \<in> set (r # rs)) v' w'" if r': "h r' = Some v'" for r' v'
  proof (cases "r' = r")
    case True
    then have v': "v' = v" using v r' by simp
    obtain w' where "h' r = Some w'" "promoted g (r \<in> set rs) w w'" using 1(3) [of r w] by auto
    with True v' w(2) show ?thesis by (auto simp: promoted_def split: if_splits)
  next
    case False
    with 1(3) [of r' v'] r' show ?thesis by simp
  qed
  moreover have "h' r' = None" if "h r' = None" for r' using 1(2) [of r'] that v by (cases "r' = r") auto
  ultimately show ?case using v w(1) 1(1) by auto
qed (simp add: promoted_def)

lemma roots_repr_finite: "roots_repr g S \<Longrightarrow> finite (S l)"
  by (auto simp: roots_repr_def)

lemma promoted_root_ok:
  assumes "gen_inv G g S" and "r \<in> G"
    and "\<And>v. root_contents g r = Some v \<Longrightarrow> \<exists>w. h r = Some w \<and> promoted g (r \<in> M \<union> S Young) v w"
  shows "\<exists>w. h r = Some w \<and> root_ok (classify_gc_root g w) False (r \<in> S Old \<or> r \<in> S Young)
    \<and> classify_gc_root g w \<noteq> YOUNG"
proof -
  obtain v where v: "root_contents g r = Some v" using gen_invD(4) [OF assms(1,2)] by auto
  with gen_invD(1) [OF assms(1,2) v] assms(3) [OF v] show ?thesis
    by (cases "classify_gc_root g v") (auto simp: root_ok_def promoted_def split: if_splits)
qed

text \<open>
  After a minor scan of the mutable roots \<open>M\<close> and the generational roots \<open>G\<close>: the young list is empty,
  and the old one has the generational roots with a block pointer and no other.
\<close>

definition all_old :: "u64 set \<Rightarrow> u64 set \<Rightarrow> globroots \<Rightarrow> bool" where
  "all_old M G g \<longleftrightarrow> (\<exists>S. roots_repr g S \<and> S Global = M \<and> S Young = {}
     \<and> S Old = {r \<in> G. \<exists>w. root_contents g r = Some w \<and> word_is_block w})"

lemma gen_inv_no_young:
  assumes "gen_inv G g S" and "S Young = {}"
  shows "S Old = {r \<in> G. \<exists>w. root_contents g r = Some w \<and> word_is_block w}"
proof -
  have "r \<in> S Old \<longleftrightarrow> r \<in> G \<and> (\<exists>w. root_contents g r = Some w \<and> word_is_block w)" for r
    using assms(1) [unfolded gen_inv_def, rule_format, of r] assms(2)
    by (auto simp: root_ok_def classify_gc_root_def split: if_splits)
  then show ?thesis by blast
qed

text \<open>C23: A minor scan with an action that promotes what it visits (a pointer to the minor heap becomes
  one to the major heap, any other value stays) leaves the young list empty and in the old list
  exactly the generational roots with a block pointer; the mutable roots are registered as before and
  the invariant of the generational roots holds again. No registered root is left with a pointer to
  the minor heap, since the young list had every generational root with one; a root with another
  value keeps it, and so does every variable that is not a root.\<close>

theorem minor_scan_restores_invariant:
  assumes "roots_inv M G g" and "\<forall>r\<in>M. root_contents g r \<noteq> None" and "promotes g f"
  shows "\<exists>d' g'. caml_scan_global_young_roots f (d, g) = Some (d', g') \<and> all_old M G g' \<and> roots_inv M G g'
    \<and> (\<forall>r\<in>M \<union> G. \<exists>v w. root_contents g r = Some v \<and> root_contents g' r = Some w
          \<and> classify_gc_root g' w \<noteq> YOUNG \<and> (classify_gc_root g v \<noteq> YOUNG \<longrightarrow> w = v))
    \<and> (\<forall>r. r \<notin> M \<union> G \<longrightarrow> root_contents g' r = root_contents g r)"
proof -
  obtain S where S: "roots_repr g S" "S Global = M" "gen_inv G g S"
    using assms(1) by (auto simp: roots_inv_def)
  let ?S = "S(Young := {}, Old := S Old \<union> S Young)"
  let ?rs = "sorted_list_of_set (S Global) @ sorted_list_of_set (S Young)"
  have rs: "set ?rs = M \<union> S Young" using roots_repr_finite [OF S(1)] S(2) by simp
  have "S Young \<subseteq> G" using gen_invD(2) [OF S(3)] by blast
  then have "\<forall>r\<in>set ?rs. root_contents g r \<noteq> None"
    using assms(2) gen_invD(4) [OF S(3)] unfolding rs by blast
  from visit_promotes [OF assms(3) this, of d] obtain d' h where
    v: "visit f ?rs (d, root_contents g) = Some (d', h)"
    and h: "\<And>r. root_contents g r = None \<Longrightarrow> h r = None"
    "\<And>r v. root_contents g r = Some v \<Longrightarrow> \<exists>w. h r = Some w \<and> promoted g (r \<in> set ?rs) v w"
    by blast
  obtain g' where g': "caml_scan_global_young_roots f (d, g) = Some (d', g')" "roots_repr g' ?S"
    "same_values (g\<lparr>root_contents := h\<rparr>) g'"
    by (rule scan_young_spec [OF S(1) v])
  have c: "root_contents g' = h" "classify_gc_root g' = classify_gc_root g"
    using g'(3) classify_same [OF g'(3)] by (simp_all add: same_values_def)
  have gen: "\<exists>w. h r = Some w \<and> root_ok (classify_gc_root g w) False (r \<in> S Old \<or> r \<in> S Young)
      \<and> classify_gc_root g w \<noteq> YOUNG" if "r \<in> G" for r
    using promoted_root_ok [OF S(3) that, of h M] h(2) unfolding rs by blast
  have i: "gen_inv G g' ?S"
    unfolding gen_inv_def c using gen gen_invD(2,3) [OF S(3)] by fastforce
  have "roots_inv M G g'" using i g'(2) S(2) by (auto simp: roots_inv_def)
  moreover have "all_old M G g'"
    unfolding all_old_def using g'(2) S(2) gen_inv_no_young [OF i] by (intro exI [of _ ?S]) auto
  moreover have "\<exists>v w. root_contents g r = Some v \<and> h r = Some w \<and> classify_gc_root g w \<noteq> YOUNG
      \<and> (classify_gc_root g v \<noteq> YOUNG \<longrightarrow> w = v)" if r: "r \<in> M \<union> G" for r
  proof -
    obtain v where v: "root_contents g r = Some v" using r assms(2) gen_invD(4) [OF S(3)] by blast
    obtain w where w: "h r = Some w" "promoted g (r \<in> M \<union> S Young) v w" using h(2) [OF v] unfolding rs by blast
    have "classify_gc_root g w \<noteq> YOUNG"
      using r gen [of r] w by (cases "r \<in> M") (auto simp: promoted_def split: if_splits)
    with v w show ?thesis by (auto simp: promoted_def split: if_splits)
  qed
  moreover have "h r = root_contents g r" if "r \<notin> M \<union> G" for r
    using that h [of r] \<open>S Young \<subseteq> G\<close> unfolding rs
    by (cases "root_contents g r") (auto simp: promoted_def split: if_splits)
  ultimately show ?thesis using g'(1) by (intro exI [of _ d'] exI [of _ g']) (simp add: c)
qed

theorem minor_scan_restores_invariant_witness:
  "\<exists>g g'. caml_register_generational_global_root 0x100 sample_roots = Some (Done g)
    \<and> caml_scan_global_young_roots
        (\<lambda>v r s. Some (fst s, (snd s)(r \<mapsto> if classify_gc_root g v = YOUNG then 0x6000 else v))) ((), g) =
        Some ((), g')
    \<and> all_old {} {0x100} g' \<and> roots_inv {} {0x100} g'
    \<and> (\<exists>w. root_contents g' 0x100 = Some w \<and> classify_gc_root g' w \<noteq> YOUNG)"
proof -
  obtain g where g: "caml_register_generational_global_root 0x100 sample_roots = Some (Done g)"
    "roots_repr g ((\<lambda>_. {})(Young := {0x100}))" "same_values sample_roots g"
    by (rule sample_registered)
  have i: "roots_inv {} {0x100} g" by (rule sample_inv [OF g(2,3)])
  have "classify_gc_root g 0x6000 = OLD"
    using g(3) by (simp add: same_values_def sample_roots_def classify_gc_root_def word_is_block_def Is_young_def)
  then have p: "promotes g (\<lambda>v r (s :: unit \<times> _). Some (fst s, (snd s)(r \<mapsto> if classify_gc_root g v = YOUNG then 0x6000 else v)))"
    by (auto simp: promotes_def)
  from g(1) minor_scan_restores_invariant [OF i _ p, of "()"] show ?thesis by auto
qed

lemma scan_young_visit:
  assumes "roots_repr g S" and "caml_scan_global_young_roots f (d, g) = Some (d', g')"
  shows "\<exists>h. visit f (sorted_list_of_set (S Global) @ sorted_list_of_set (S Young)) (d, root_contents g) =
    Some (d', h)"
proof (cases "visit f (sorted_list_of_set (S Global) @ sorted_list_of_set (S Young)) (d, root_contents g)")
  case None
  then have "Option.bind (caml_iterate_global_roots f Global (d, g)) (caml_iterate_global_roots f Young) = None"
    by (simp add: iterate_spec [OF assms(1)] iterate_after [OF assms(1)] visit_append)
  with assms(2) show ?thesis
    by (simp add: caml_scan_global_young_roots_def flip: Option.bind_assoc)
next
  case (Some s)
  then obtain d1 h where "visit f (sorted_list_of_set (S Global) @ sorted_list_of_set (S Young))
      (d, root_contents g) = Some (d1, h)" by (cases s) simp
  with scan_young_spec [OF assms(1) this] assms(2) show ?thesis by (metis option.inject prod.inject)
qed

text \<open>C33: A root is not always removed. \<open>oldify_one\<close> follows a forward block, so a minor collection
  may leave an immediate value in a root that is in the young list and is moved to the old one
  (against the invariant of globroots.c). \<open>caml_remove_generational_global_root\<close> then does nothing,
  and the address stays in the old list, which every later full scan goes through.\<close>

theorem forwarded_root_stays_registered:
  assumes "roots_repr g S" and "r \<in> S Young"
    and "caml_scan_global_young_roots f (d, g) = Some (d', g')"
    and "root_contents g' r = Some w" and "\<not> word_is_block w"
  shows "caml_remove_generational_global_root r g' = Some g' \<and>
    (\<exists>S'. roots_repr g' S' \<and> r \<in> S' Old)"
proof -
  obtain h where h: "visit f (sorted_list_of_set (S Global) @ sorted_list_of_set (S Young))
      (d, root_contents g) = Some (d', h)"
    using scan_young_visit [OF assms(1,3)] by blast
  obtain g2 where "caml_scan_global_young_roots f (d, g) = Some (d', g2)"
    "roots_repr g2 (S(Young := {}, Old := S Old \<union> S Young))"
    using scan_young_spec [OF assms(1) h] by metis
  then have g': "roots_repr g' (S(Young := {}, Old := S Old \<union> S Young))" using assms(3) by simp
  have "caml_remove_generational_global_root r g' = Some g'"
    using assms(4,5) by (simp add: caml_remove_generational_global_root_def classify_gc_root_def)
  with g' assms(2) show ?thesis by (auto intro!: exI [of _ "S(Young := {}, Old := S Old \<union> S Young)"])
qed

theorem forwarded_root_stays_registered_witness:
  "\<exists>g g'. caml_register_generational_global_root 0x100 sample_roots = Some (Done g)
    \<and> caml_scan_global_young_roots (\<lambda>v r s. Some (fst s, (snd s)(r \<mapsto> 1))) ((), g) = Some ((), g')
    \<and> caml_remove_generational_global_root 0x100 g' = Some g'
    \<and> (\<exists>S'. roots_repr g' S' \<and> 0x100 \<in> S' Old)"
proof -
  let ?f = "\<lambda>v r (s :: unit \<times> (u64 \<Rightarrow> u64 option)). Some (fst s, (snd s)(r \<mapsto> 1))"
  obtain g where g: "caml_register_generational_global_root 0x100 sample_roots = Some (Done g)"
    "roots_repr g ((\<lambda>_. {})(Young := {0x100}))" "same_values sample_roots g"
    by (rule sample_registered)
  have c: "root_contents g 0x100 = Some 0x1800" using g(3) by (simp add: same_values_def sample_roots_def)
  obtain g' where g': "caml_scan_global_young_roots ?f ((), g) = Some ((), g')"
    "same_values (g\<lparr>root_contents := (root_contents g)(0x100 \<mapsto> 1)\<rparr>) g'"
    using scan_young_spec [OF g(2), of ?f "()" "()" "(root_contents g)(0x100 \<mapsto> 1)"] c by auto
  have "root_contents g' 0x100 = Some 1" "\<not> word_is_block 1"
    using g'(2) by (simp_all add: same_values_def word_is_block_def)
  from g(1) g'(1) forwarded_root_stays_registered [OF g(2) _ g'(1) this] show ?thesis by auto
qed

end
