(* ===== verification/Spec2Isabelle.thy ===== *)
theory Spec2Isabelle
  imports
    Apply_Props Arith_Props Closure_Props Effect_Props Exn_Props Fiber_Props Heap_Props Method_Props
    Machine_Props Type_Safety Profile_Props Callback_Props Operand_Counts Lexing_Props Parsing_Props
    Strings_Props Ints_Boxed Named_Values Simple_Stack_Props Lr0_Generate Globroots_Props
begin

text \<open>
  \<^bold>\<open>The OCaml bytecode interpreter with its opcode profiler.\<close>

  The repository extends the bytecode interpreter of OCaml 5.0 (\<open>src/interp.c\<close>, built in place of
  \<open>src/ocaml/runtime/interp.c\<close>) with a profiler: the \<open>DEBUG\<close> build counts executed opcodes, in total and per
  active OCaml function. Two small programs of the same author, \<open>src/simple-stack.c\<close> and
  \<open>src/stack-skeleton.c\<close>, precede it. This development models \<open>interp.c\<close> whole, the parts of
  \<open>src/ocaml/runtime\<close> it stands on, some of the C primitives it calls, the global roots of the
  collector with the skip lists they are kept in, the LR(0) half of the parser generator (\<open>src/ocaml/yacc\<close>), and the two
  small programs.

  \<^bold>\<open>Parts and theories.\<close>

  \<^item> \<open>Prelude\<close>: widths of C types, the option monad for evaluations that may be undefined, checked accesses.
  \<^item> \<open>Stacks\<close>, \<open>Linear_Probing\<close>, \<open>Hash_Table\<close>, \<open>Profile\<close>: the profiler of \<open>interp.c\<close>. \<open>func_stack_t\<close> is an instance of the
    locale \<open>bounded_stack\<close>; the table \<open>ht\<close> probes linearly (locale \<open>probing\<close>) and implements a finite map
    (locale \<open>pointer_table\<close>); \<open>Profile\<close> puts them together as the code before each dispatch, at calls and
    at returns does. \<open>Profile_Props\<close> says what is attributed to whom, and where calls and returns get out of step.
  \<^item> \<open>Values\<close>, \<open>Vm_State\<close>, \<open>Fibers\<close>: \<open>mlvalues.h\<close>, the state (\<open>runtime\<close>, what outlives a call of the interpreter;
    \<open>vm\<close>, its registers and profile in addition) and the bytecode half of \<open>fiber.c\<close> with the raise functions
    of \<open>fail_byt.c\<close>. \<open>Fiber_Props\<close>: sizes, growth, release.
  \<^item> \<open>Interp_Base\<close>, \<open>Interp_Apply\<close>, \<open>Interp_Heap\<close>, \<open>Interp_Control\<close>, \<open>Interp_Arith\<close>: one definition \<open>Instruct_X\<close> for
    every \<open>Instruct(X)\<close> of \<open>caml_interprete\<close>, with the shared labels as definitions of their own; \<open>Interp\<close> has the
    numbering of \<open>instruct.h\<close>, the switch, a turn of the loop (\<open>step\<close>), the loop (\<open>exec\<close>) and the entry
    (\<open>interp_enter\<close>, \<open>caml_interprete\<close>). \<open>Apply_Props\<close>, \<open>Closure_Props\<close>, \<open>Heap_Props\<close>, \<open>Exn_Props\<close>, \<open>Effect_Props\<close>,
    \<open>Arith_Props\<close> and \<open>Method_Props\<close> hold what the instructions promise to the compiler.
  \<^item> \<open>Machine_Frame\<close>, \<open>Machine_Instrs\<close>, \<open>Machine_Props\<close>: properties of whole runs. The locale \<open>vm_frame\<close> takes a preorder on
    the lasting part of the state that contains the elementary effects, and gives that every instruction,
    every turn and every run stays inside it; its two interpretations give that blocks keep their tag and size and that
    the profile counts each instruction once.
  \<^item> \<open>Machine_Types\<close>, \<open>Type_Safety\<close>: the typing invariant of the state (no pointer to a block or stack that was never
    allocated), kept by every instruction on any bytecode. Lifetimes of stacks and offsets inside blocks are not part of it.
  \<^item> \<open>Callback\<close>, \<open>Callback_Props\<close>, \<open>Named_Values\<close>: \<open>callback.c\<close>, how C code finds and applies OCaml closures. A callback runs
    the interpreter on a small code of its own, so its theorem composes the instructions, the loop, the
    profile and the fibers.
  \<^item> \<open>Alloc\<close>, \<open>Strings\<close>, \<open>Strings_Props\<close>: \<open>alloc.c\<close>, the rest of \<open>fail_byt.c\<close>, and \<open>str.c\<close>; strings stand for lists of bytes.
  \<^item> \<open>Ints\<close>, \<open>Ints_Props\<close>, \<open>Ints_Boxed\<close>: \<open>ints.c\<close>. Which texts are integer literals and what they stand for, printing and reading back, and the
    arithmetic of boxed integers, of which \<open>int32\<close>, \<open>int64\<close> and \<open>nativeint\<close> are interpretations of the locale \<open>boxed_integers\<close>. What the C
    library prints is the record \<open>c_library\<close>, with \<open>prints_decimals\<close> as hypothesis. The loop over the digits is a
    \<open>partial_function\<close> that ends at the byte after the string.
  \<^item> \<open>Fix_Code\<close>: \<open>fix_code.c\<close>, the operand counts and the pass that prepares threaded code. \<open>Operand_Counts\<close>: they agree with the
    interpreter, for every opcode, on the operands of instructions.
  \<^item> \<open>Lexing\<close>, \<open>Lexing_Props\<close>, \<open>Parsing\<close>, \<open>Parsing_Props\<close>: the table-driven engines \<open>lexing.c\<close> and \<open>parsing.c\<close> as the automata of
    their tables.
  \<^item> Of the parser generator that writes the parser's tables (\<open>src/ocaml/yacc\<close>): \<open>Warshall\<close> is \<open>warshall.c\<close>, the closure of bit
    matrices; \<open>Lr0_Closure\<close> is \<open>closure.c\<close> with \<open>set_derives\<close>, and \<open>Lr0_Closure_Props\<close>, \<open>Yacc_Props\<close> show that its item sets are the
    LR(0) closures of their nuclei; \<open>Grammar_Pack\<close> is \<open>pack_grammar\<close> of \<open>reader.c\<close>, which establishes the conditions the others
    rely on; \<open>Lr0_Nullable\<close> is \<open>set_nullable\<close>; \<open>Lr0_States\<close> is the rest of \<open>lr0.c\<close>. \<open>Lr0_Kernels\<close> says what its loops leave in the
    arrays, \<open>Lr0_Automaton\<close> defines the automaton, \<open>Lr0_Search\<close> follows the hash chains of the states, and \<open>Lr0_Generate\<close>
    puts them together: the program computes the automaton.
  \<^item> \<open>Skiplist\<close>: the skip lists of \<open>skiplist.c\<close>, with their cells in an explicit heap. \<open>Skiplist_Inv\<close> has the invariant (on every level
    the pointers chain the nodes that are high enough, in the order of their keys), \<open>Skiplist_Search\<close> and \<open>Skiplist_Update\<close> the
    operations, and \<open>Skiplist_Dict\<close> the locale \<open>dictionaries\<close>, the interface of several dictionaries in one heap, and that the lists
    are dictionaries. \<open>Globroots\<close>, \<open>Globroots_Props\<close>: their client \<open>globroots.c\<close>, the global roots with the invariant that the code keeps
    for the generational ones (which is not quite the one its comment states), the scans, and how a minor collection may
    break the invariant.
  \<^item> \<open>Simple_Stack\<close>, \<open>Simple_Stack_Props\<close>: the two small programs, both instances of \<open>bounded_stack\<close>.
  \<^item> \<open>Sample_State\<close>: concrete states and surroundings for the instances of the theorems.

  \<^bold>\<open>Conventions.\<close> \<open>None\<close> is an evaluation that C leaves undefined (an access outside a block, a word of the wrong kind,
  signed overflow where the build does not define it) or, for the loop \<open>exec\<close>, a run that never ends. Words are
  64-bit \<open>word\<close>s with wrap-around (the runtime is built with \<open>-fwrapv\<close>); code words are 32 bits. OCaml
  exceptions, running out of memory, failed assertions and fatal errors are values of result types. After a \<open>longjmp\<close> the
  profiler's locals are those a compiler gives that keeps them in memory; C leaves them indeterminate. Addresses are block
  identities: a collection moves nothing the program could observe. What code outside the model does (C
  primitives, signal handlers, pending actions, whether \<open>malloc\<close> or the shared heap has room) is the record
  \<open>hooks\<close>, a parameter of every definition that needs it; where a theorem needs more of it, the need is a named
  hypothesis (\<open>tame\<close>, \<open>typed_hooks\<close>, \<open>calm\<close>, \<open>malloc_ok\<close>) and its instance uses \<open>quiet_hooks\<close>.

  \<^bold>\<open>Loops and fuel.\<close> The interpreter's loop \<open>exec\<close> is a \<open>partial_function\<close>; \<open>exec_n n\<close> runs \<open>n\<close> turns, and by \<open>exec_returns_iff\<close>
  \<open>exec\<close> returns exactly when some number of turns reaches an instruction that leaves the loop. The probe loops
  of the hash table are bounded by the capacity, which the invariant makes enough; the method search, the
  doubling loop of \<open>caml_try_realloc_stack\<close>, \<open>caml_thread_code\<close> and \<open>parse_run\<close> are total functions with measures (40
  labels are enough for the parser); the lexer's loop may run forever on bad tables, and is shown to return
  on well-formed ones. The walks of the skip lists are \<open>partial_function\<close>s that end on lists
  that satisfy the invariant, which all do. The loops of \<open>warshall.c\<close>, the passes of
  \<open>set_nullable\<close> and the search of \<open>lr0.c\<close> are \<open>partial_function\<close>s, shown to return: on every matrix, because marks are only
  added, and because the number of states is bounded by \<open>MAXSHORT\<close>.

  \<^bold>\<open>Not modelled.\<close> The collector (but the roots it scans), domains and signals delivery (several threads; the points where the interpreter
  polls are modelled, what happens there is a hook); the debugger and the backtrace buffer; input, output and
  marshalling; start-up and dynamic linking; the native-code runtime; primitives on floats, bigarrays, hashing
  and digests, which the interpreter reaches only through \<open>C_CALL\<close>; earlier revisions of the interpreter
  (\<open>src/updates\<close>, \<open>src/interp-ali.c\<close>); reading the grammar file, lookaheads, conflict resolution
  and output of the parser generator; scripts and exercises in other languages. The threaded-code build is
  another dispatch for the same instructions.
\<close>

end
